(* ===== verification/Prelude.thy ===== *)
theory Prelude
  imports Complex_Main "HOL-Library.Sublist"
begin

text \<open>
  What the components share. Rust's \<open>str\<close> is its UTF-8 byte sequence, so \<open>len\<close> is
  \<open>length\<close>, slicing is \<open>take\<close> and \<open>drop\<close>, and a Rust \<open>char\<close> is the chunk of bytes that
  encodes it (\<open>chars\<close> cuts a string into these chunks). The standard-library functions the
  program calls on strings (\<open>lines\<close>, \<open>split\<close>, \<open>join\<close>, \<open>trim\<close>, \<open>contains\<close>, \<open>replace\<close>,
  \<open>strip_prefix\<close>, \<open>to_ascii_lowercase\<close>, \<open>is_char_boundary\<close>) are defined here once, with the
  lemmas about them, together with \<open>f64\<close> values and results.
\<close>

named_theorems str_simps "equations about strings used by the component proofs"

section \<open>Results\<close>

text \<open>\<open>Result<T, E>\<close> is the sum \<open>'e + 'a\<close>.\<close>

abbreviation Ok :: "'a \<Rightarrow> 'e + 'a" where "Ok \<equiv> Inr"
abbreviation Err :: "'e \<Rightarrow> 'e + 'a" where "Err \<equiv> Inl"

section \<open>Bytes and characters\<close>

type_synonym str = string

definition LF :: char where "LF = CHR 0x0A"
definition CR :: char where "CR = CHR 0x0D"
definition TAB :: char where "TAB = CHR 0x09"
definition SPACE :: char where "SPACE = CHR 0x20"

abbreviation code :: "char \<Rightarrow> nat" where "code \<equiv> of_char"

text \<open>A UTF-8 continuation byte is \<open>10xxxxxx\<close>.\<close>

definition is_cont :: "char \<Rightarrow> bool" where
  "is_cont c \<longleftrightarrow> digit7 c \<and> \<not> digit6 c"

text \<open>\<open>chars\<close> cuts a string before every byte that is not a continuation byte.\<close>

fun chars :: "str \<Rightarrow> str list" where
  "chars [] = []"
| "chars [b] = [[b]]"
| "chars (b # c # s) =
     (if is_cont c then (b # hd (chars (c # s))) # tl (chars (c # s))
      else [b] # chars (c # s))"

text \<open>The code point a chunk encodes.\<close>

definition cp :: "str \<Rightarrow> nat" where
  "cp k = (case k of
      [b] \<Rightarrow> code b
    | [b, c] \<Rightarrow> (code b mod 32) * 64 + code c mod 64
    | [b, c, d] \<Rightarrow> (code b mod 16) * 4096 + (code c mod 64) * 64 + code d mod 64
    | [b, c, d, e] \<Rightarrow> (code b mod 8) * 262144 + (code c mod 64) * 4096
                     + (code d mod 64) * 64 + code e mod 64
    | _ \<Rightarrow> 0)"

text \<open>A chunk that is the encoding of a Unicode scalar value, and a well-formed \<open>str\<close>.\<close>

definition valid_char :: "str \<Rightarrow> bool" where
  "valid_char k = (case k of
      [b] \<Rightarrow> code b < 128
    | [b, c] \<Rightarrow> 194 \<le> code b \<and> code b < 224 \<and> is_cont c
    | [b, c, d] \<Rightarrow> 224 \<le> code b \<and> code b < 240 \<and> is_cont c \<and> is_cont d
        \<and> (code b = 224 \<longrightarrow> 160 \<le> code c) \<and> (code b = 237 \<longrightarrow> code c < 160)
    | [b, c, d, e] \<Rightarrow> 240 \<le> code b \<and> code b < 245 \<and> is_cont c \<and> is_cont d \<and> is_cont e
        \<and> (code b = 240 \<longrightarrow> 144 \<le> code c) \<and> (code b = 244 \<longrightarrow> code c < 144)
    | _ \<Rightarrow> False)"

definition utf8 :: "str \<Rightarrow> bool" where
  "utf8 s \<longleftrightarrow> list_all valid_char (chars s)"

text \<open>The classes of characters the program asks for (Unicode \<open>Cc\<close> and \<open>White_Space\<close>).\<close>

definition is_control :: "str \<Rightarrow> bool" where
  "is_control k \<longleftrightarrow> k \<noteq> [] \<and> (cp k < 32 \<or> 127 \<le> cp k \<and> cp k < 160)"

definition is_ws :: "str \<Rightarrow> bool" where
  "is_ws k \<longleftrightarrow> k \<noteq> [] \<and>
     (9 \<le> cp k \<and> cp k \<le> 13 \<or> cp k = 32 \<or> cp k = 133 \<or> cp k = 160 \<or> cp k = 5760
      \<or> 8192 \<le> cp k \<and> cp k \<le> 8202 \<or> cp k = 8232 \<or> cp k = 8233 \<or> cp k = 8239
      \<or> cp k = 8287 \<or> cp k = 12288)"

definition ascii_upper :: "char \<Rightarrow> bool" where
  "ascii_upper c \<longleftrightarrow> 65 \<le> code c \<and> code c \<le> 90"

definition ascii_lower :: "char \<Rightarrow> bool" where
  "ascii_lower c \<longleftrightarrow> 97 \<le> code c \<and> code c \<le> 122"

definition ascii_digit :: "char \<Rightarrow> bool" where
  "ascii_digit c \<longleftrightarrow> 48 \<le> code c \<and> code c \<le> 57"

definition ascii_alnum :: "char \<Rightarrow> bool" where
  "ascii_alnum c \<longleftrightarrow> ascii_upper c \<or> ascii_lower c \<or> ascii_digit c"

text \<open>\<open>char::is_ascii_alphanumeric\<close>: a one-byte chunk of that class.\<close>

definition is_ascii_alnum :: "str \<Rightarrow> bool" where
  "is_ascii_alnum k = (case k of [b] \<Rightarrow> ascii_alnum b | _ \<Rightarrow> False)"

definition to_lower :: "char \<Rightarrow> char" where
  "to_lower c = (if ascii_upper c then char_of (code c + 32) else c)"

definition to_upper :: "char \<Rightarrow> char" where
  "to_upper c = (if ascii_lower c then char_of (code c - 32) else c)"

definition to_ascii_lowercase :: "str \<Rightarrow> str" where
  "to_ascii_lowercase s = map to_lower s"

subsection \<open>Cutting at character boundaries\<close>

definition is_char_boundary :: "str \<Rightarrow> nat \<Rightarrow> bool" where
  "is_char_boundary s i \<longleftrightarrow>
     i = 0 \<or> i = length s \<or> (i < length s \<and> \<not> is_cont (s ! i))"

text \<open>\<open>while end > 0 && !s.is_char_boundary(end) { end -= 1 }\<close>\<close>

fun back_up :: "str \<Rightarrow> nat \<Rightarrow> nat" where
  "back_up s 0 = 0"
| "back_up s (Suc n) = (if is_char_boundary s (Suc n) then Suc n else back_up s n)"

subsection \<open>Lines, splitting, joining\<close>

definition strip_cr :: "str \<Rightarrow> str" where
  "strip_cr l = (if l \<noteq> [] \<and> last l = CR then butlast l else l)"

text \<open>
  \<open>str::lines\<close>: every line ends at \<open>\n\<close>, which is dropped with a \<open>\r\<close> before it; an
  unterminated last line is kept as it is; no empty line after a final \<open>\n\<close>.
\<close>

function lines :: "str \<Rightarrow> str list" where
  "lines s =
     (if s = [] then []
      else case dropWhile (\<lambda>c. c \<noteq> LF) s of
             [] \<Rightarrow> [s]
           | _ # r \<Rightarrow> strip_cr (takeWhile (\<lambda>c. c \<noteq> LF) s) # lines r)"
  by pat_completeness auto
termination
proof (relation "measure length")
  fix s :: str and x r
  assume "dropWhile (\<lambda>c. c \<noteq> LF) s = x # r"
  then have "length (x # r) \<le> length s"
    by (metis length_dropWhile_le)
  then show "(r, s) \<in> measure length" by simp
qed simp

declare lines.simps [simp del]

text \<open>\<open>str::split\<close> on one ASCII character: never empty.\<close>

fun split_on :: "char \<Rightarrow> str \<Rightarrow> str list" where
  "split_on d [] = [[]]"
| "split_on d (x # xs) =
     (if x = d then [] # split_on d xs
      else (x # hd (split_on d xs)) # tl (split_on d xs))"

fun join :: "str \<Rightarrow> str list \<Rightarrow> str" where
  "join sep [] = []"
| "join sep [x] = x"
| "join sep (x # y # r) = x @ sep @ join sep (y # r)"

definition trim_start :: "str \<Rightarrow> str" where
  "trim_start s = concat (dropWhile is_ws (chars s))"

definition trim_end :: "str \<Rightarrow> str" where
  "trim_end s = concat (rev (dropWhile is_ws (rev (chars s))))"

definition trim :: "str \<Rightarrow> str" where
  "trim s = trim_end (trim_start s)"

subsection \<open>Searching and replacing\<close>

definition starts_with :: "str \<Rightarrow> str \<Rightarrow> bool" where
  "starts_with s p \<longleftrightarrow> take (length p) s = p"

definition ends_with :: "str \<Rightarrow> str \<Rightarrow> bool" where
  "ends_with s p \<longleftrightarrow> length p \<le> length s \<and> drop (length s - length p) s = p"

definition strip_prefix :: "str \<Rightarrow> str \<Rightarrow> str option" where
  "strip_prefix s p = (if starts_with s p then Some (drop (length p) s) else None)"

fun contains :: "str \<Rightarrow> str \<Rightarrow> bool" where
  "contains [] p = (p = [])"
| "contains (x # xs) p = (starts_with (x # xs) p \<or> contains xs p)"

text \<open>\<open>str::replace\<close> for a non-empty pattern (the only use the program makes of it).\<close>

function replace :: "str \<Rightarrow> str \<Rightarrow> str \<Rightarrow> str" where
  "replace p r s =
     (if s = [] \<or> p = [] then s
      else if starts_with s p then r @ replace p r (drop (length p) s)
      else hd s # replace p r (tl s))"
  by pat_completeness auto
termination
  by (relation "measure (\<lambda>(p, r, s). length s)") (auto simp: neq_Nil_conv)

declare replace.simps [simp del]

text \<open>Decimal rendering of a natural number, as \<open>{}\<close> prints an unsigned integer.\<close>

definition digit_char :: "nat \<Rightarrow> char" where
  "digit_char d = char_of (48 + d)"

fun show_nat :: "nat \<Rightarrow> str" where
  "show_nat n = (if n < 10 then [digit_char n] else show_nat (n div 10) @ [digit_char (n mod 10)])"

declare show_nat.simps [simp del]

text \<open>\<open>str::parse\<close> for an unsigned type of the given number of values (an optional \<open>+\<close>, then
  at least one digit, no overflow).\<close>

definition parse_digits :: "str \<Rightarrow> nat option" where
  "parse_digits s = (if s = [] \<or> \<not> list_all ascii_digit s then None
                     else Some (foldl (\<lambda>n c. 10 * n + (code c - 48)) 0 s))"

definition parse_unsigned :: "nat \<Rightarrow> str \<Rightarrow> nat option" where
  "parse_unsigned bound s =
     (let ds = (if s \<noteq> [] \<and> hd s = CHR ''+'' then tl s else s)
      in case parse_digits ds of
           None \<Rightarrow> None
         | Some n \<Rightarrow> if n < bound then Some n else None)"

section \<open>Floating point\<close>

text \<open>
  An \<open>f64\<close> is one of the special values or an exact rational. The program only compares,
  clamps, and takes minima of these values where the model uses them; literals that are not
  dyadic are written as the rational value of their double.
\<close>

datatype f64 = NaN | NInf | PInf | Fin rat

fun fle :: "f64 \<Rightarrow> f64 \<Rightarrow> bool" where
  "fle NaN y = False"
| "fle x NaN = False"
| "fle NInf y = True"
| "fle x PInf = True"
| "fle (Fin a) (Fin b) = (a \<le> b)"
| "fle x y = False"

definition flt :: "f64 \<Rightarrow> f64 \<Rightarrow> bool" where
  "flt x y \<longleftrightarrow> fle x y \<and> \<not> fle y x"

definition fmin :: "f64 \<Rightarrow> f64 \<Rightarrow> f64" where
  "fmin x y = (if x = NaN then y else if y = NaN then x else if fle x y then x else y)"

text \<open>\<open>f64::clamp\<close>: a NaN stays a NaN.\<close>

definition fclamp :: "f64 \<Rightarrow> f64 \<Rightarrow> f64 \<Rightarrow> f64" where
  "fclamp x lo hi =
     (let y = (if flt x lo then lo else x) in if flt hi y then hi else y)"

abbreviation fzero :: f64 where "fzero \<equiv> Fin 0"
abbreviation fone :: f64 where "fone \<equiv> Fin 1"

section \<open>Lemmas\<close>

subsection \<open>Chunks\<close>

definition chunk :: "str \<Rightarrow> bool" where
  "chunk k \<longleftrightarrow> k \<noteq> [] \<and> \<not> is_cont (hd k) \<and> list_all is_cont (tl k)"

abbreviation starts_cont :: "str \<Rightarrow> bool" where
  "starts_cont s \<equiv> s \<noteq> [] \<and> is_cont (hd s)"

lemma chars_eq_Nil [simp]: "chars s = [] \<longleftrightarrow> s = []"
  by (induction s rule: chars.induct) auto

lemma concat_chars [simp]: "concat (chars s) = s"
proof (induction s rule: chars.induct)
  case (3 b c s)
  obtain k ks where "chars (c # s) = k # ks"
    by (cases "chars (c # s)") auto
  with 3 show ?case by auto
qed auto

lemma hd_chars: "s \<noteq> [] \<Longrightarrow> hd (chars s) \<noteq> [] \<and> hd (hd (chars s)) = hd s"
  by (induction s rule: chars.induct) auto

lemma chars_nonempty: "k \<in> set (chars s) \<Longrightarrow> k \<noteq> []"
proof (induction s rule: chars.induct)
  case (3 b c s)
  then show ?case by (cases "chars (c # s)") (auto split: if_splits)
qed auto

lemma tl_hd_chars_cont: "s \<noteq> [] \<Longrightarrow> list_all is_cont (tl (hd (chars s)))"
proof (induction s rule: chars.induct)
  case (3 b c s)
  have "hd (chars (c # s)) \<noteq> [] \<and> hd (hd (chars (c # s))) = c"
    using hd_chars [of "c # s"] by simp
  with 3 show ?case by (cases "hd (chars (c # s))") auto
qed auto

lemma tl_chars_chunk: "list_all chunk (tl (chars s))"
proof (induction s rule: chars.induct)
  case (3 b c s)
  then show ?case
  proof (cases "is_cont c")
    case True
    with 3 show ?thesis by simp
  next
    case False
    moreover have "hd (chars (c # s)) \<noteq> [] \<and> hd (hd (chars (c # s))) = c"
      using hd_chars [of "c # s"] by simp
    moreover have "list_all is_cont (tl (hd (chars (c # s))))"
      by (rule tl_hd_chars_cont) simp
    ultimately show ?thesis
      using 3 by (cases "chars (c # s)") (auto simp: chunk_def)
  qed
qed auto

lemma chars_chunk: "\<not> starts_cont s \<Longrightarrow> list_all chunk (chars s)"
  using tl_chars_chunk [of s] hd_chars [of s] tl_hd_chars_cont [of s]
  by (cases "s = []"; cases "chars s") (auto simp: chunk_def)

lemma chars_conts: "list_all is_cont t \<Longrightarrow> chars (b # t) = [b # t]"
  by (induction t arbitrary: b) auto

lemma chars_append:
  "\<not> starts_cont t \<Longrightarrow> chars (s @ t) = chars s @ chars t"
proof (induction s rule: chars.induct)
  case (2 b)
  then show ?case by (cases t) auto
next
  case (3 b c s)
  then show ?case by (cases "chars (c # s)") auto
qed simp

lemma chars_chunk_single: "chunk k \<Longrightarrow> chars k = [k]"
  by (cases k) (auto simp: chunk_def chars_conts)

lemma concat_chunks_hd:
  "list_all chunk ks \<Longrightarrow> \<not> starts_cont (concat ks)"
  by (cases ks) (auto simp: chunk_def)

lemma chars_concat: "list_all chunk ks \<Longrightarrow> chars (concat ks) = ks"
proof (induction ks)
  case (Cons k ks)
  then have "chars (k @ concat ks) = chars k @ chars (concat ks)"
    using concat_chunks_hd [of ks] by (intro chars_append) auto
  with Cons show ?case by (simp add: chars_chunk_single)
qed simp

lemma code_lt_128: "code c < 128 \<Longrightarrow> \<not> is_cont c"
  by (cases c) (auto simp: is_cont_def of_char_def)

lemma is_cont_code: "is_cont c \<longleftrightarrow> 128 \<le> code c \<and> code c < 192"
proof (cases c)
  case (Char b0 b1 b2 b3 b4 b5 b6 b7)
  have "of_bool b0 + 2 * of_bool b1 + 4 * of_bool b2 + 8 * of_bool b3 + 16 * of_bool b4
     + 32 * of_bool b5 \<le> (63::nat)" by (cases b0; cases b1; cases b2; cases b3; cases b4; cases b5) simp_all
  then show ?thesis
    by (cases b6; cases b7) (auto simp: Char is_cont_def of_char_def)
qed

lemma valid_char_chunk: "valid_char k \<Longrightarrow> chunk k"
  by (auto simp: valid_char_def chunk_def is_cont_code split: list.splits)

lemma utf8_not_starts_cont: "utf8 s \<Longrightarrow> \<not> starts_cont s"
  using hd_chars [of s]
  by (cases "chars s") (auto simp: utf8_def dest!: valid_char_chunk simp: chunk_def)

lemma utf8_concat: "list_all valid_char ks \<Longrightarrow> utf8 (concat ks)"
  by (simp add: utf8_def chars_concat list_all_iff valid_char_chunk)

lemma utf8_chars_chunk: "utf8 s \<Longrightarrow> list_all chunk (chars s)"
  by (auto simp: utf8_def list_all_iff dest: valid_char_chunk)

lemma utf8_append: "utf8 s \<Longrightarrow> utf8 t \<Longrightarrow> utf8 (s @ t)"
  using utf8_not_starts_cont [of t] by (simp add: utf8_def chars_append)

lemma utf8_Nil [simp]: "utf8 []"
  by (simp add: utf8_def)

definition ascii :: "str \<Rightarrow> bool" where
  "ascii s \<longleftrightarrow> list_all (\<lambda>c. code c < 128) s"

lemma chars_ascii: "ascii s \<Longrightarrow> chars s = map (\<lambda>c. [c]) s"
  by (induction s rule: chars.induct) (auto simp: ascii_def code_lt_128)

lemma utf8_ascii: "ascii s \<Longrightarrow> utf8 s"
  by (auto simp: utf8_def chars_ascii ascii_def list_all_iff valid_char_def)

lemma length_concat_take_chars: "length (concat (take n (chars s))) \<le> length s"
proof -
  have "length (concat (take n (chars s))) \<le> length (concat (take n (chars s)) @ concat (drop n (chars s)))"
    by simp
  also have "\<dots> = length s"
    by (simp flip: concat_append del: length_append)
  finally show ?thesis .
qed

subsection \<open>Boundaries\<close>

lemma back_up_le: "back_up s n \<le> n"
  by (induction n) auto

lemma back_up_boundary: "is_char_boundary s (back_up s n)"
  by (induction n) (auto simp: is_char_boundary_def)

lemma back_up_greatest: "m \<le> n \<Longrightarrow> is_char_boundary s m \<Longrightarrow> m \<le> back_up s n"
  by (induction n) (auto simp: le_Suc_eq)

lemma back_up_id: "is_char_boundary s n \<Longrightarrow> back_up s n = n"
  by (cases n) auto

lemma take_boundary_chars:
  assumes "is_char_boundary s n" "n \<le> length s"
  shows "chars s = chars (take n s) @ chars (drop n s)"
proof -
  have "\<not> starts_cont (drop n s)" if "n \<noteq> 0"
    using assms that by (auto simp: is_char_boundary_def hd_drop_conv_nth)
  then show ?thesis
    using chars_append [of "drop n s" "take n s"] by (cases "n = 0") auto
qed

lemma utf8_take_boundary: "utf8 s \<Longrightarrow> is_char_boundary s n \<Longrightarrow> n \<le> length s \<Longrightarrow> utf8 (take n s)"
  using take_boundary_chars [of s n] by (auto simp: utf8_def)

lemma utf8_take_back_up: "utf8 s \<Longrightarrow> n \<le> length s \<Longrightarrow> utf8 (take (back_up s n) s)"
  by (meson back_up_boundary back_up_le order_trans utf8_take_boundary)


subsection \<open>Splitting and joining\<close>

lemma split_on_nonempty [simp]: "split_on d s \<noteq> []"
  by (cases s) auto

lemma join_Cons: "ys \<noteq> [] \<Longrightarrow> join d (x # ys) = x @ d @ join d ys"
  by (cases ys) auto

lemma join_Cons_hd: "join d ((c # x) # ys) = c # join d (x # ys)"
  by (cases ys) auto

lemma join_split_on: "join [d] (split_on d s) = s"
proof (induction s)
  case (Cons x s)
  then show ?case
    by (auto simp: join_Cons join_Cons_hd)
qed simp

lemma split_on_no_sep: "d \<notin> set s \<Longrightarrow> split_on d s = [s]"
  by (induction s) auto

lemma split_on_append:
  "d \<notin> set x \<Longrightarrow> split_on d (x @ d # s) = x # split_on d s"
  by (induction x) auto

lemma split_on_app: "split_on d (s @ d # t) = split_on d s @ split_on d t"
proof (induction s)
  case (Cons c s)
  then show ?case by (cases "split_on d s") auto
qed simp

lemma split_on_subset: "x \<in> set (split_on d s) \<Longrightarrow> set x \<subseteq> set s"
proof (induction s arbitrary: x)
  case (Cons c s)
  then show ?case
    by (cases "split_on d s") (fastforce split: if_splits)+
qed simp

lemma split_on_join:
  assumes "ls \<noteq> []" "\<forall>l \<in> set ls. d \<notin> set l"
  shows "split_on d (join [d] ls) = ls"
  using assms
  by (induction "[d]" ls rule: join.induct) (auto simp: split_on_no_sep split_on_append)

lemma split_on_elem: "l \<in> set (split_on d s) \<Longrightarrow> d \<notin> set l"
proof (induction s arbitrary: l)
  case (Cons x s)
  have "hd (split_on d s) \<in> set (split_on d s)" "set (tl (split_on d s)) \<subseteq> set (split_on d s)"
    by (auto simp: list.set_sel(2))
  with Cons show ?case by (auto split: if_splits)
qed simp

lemma join_append:
  "xs \<noteq> [] \<Longrightarrow> ys \<noteq> [] \<Longrightarrow> join d (xs @ ys) = join d xs @ d @ join d ys"
proof (induction d xs rule: join.induct)
  case (2 d x)
  then show ?case by (cases ys) auto
qed auto

lemma set_join: "set (join d xs) \<subseteq> set d \<union> \<Union> (set ` set xs)"
  by (induction d xs rule: join.induct) auto

lemma lines_Nil [simp]: "lines [] = []"
  by (simp add: lines.simps)

lemma lines_no_LF: "LF \<notin> set s \<Longrightarrow> s \<noteq> [] \<Longrightarrow> lines s = [s]"
proof -
  assume "LF \<notin> set s" "s \<noteq> []"
  then have "dropWhile (\<lambda>c. c \<noteq> LF) s = []"
    by (auto simp: dropWhile_eq_Nil_conv)
  with \<open>s \<noteq> []\<close> show ?thesis by (simp only: lines.simps [of s] if_False list.case)
qed

lemma lines_Cons_LF: "LF \<notin> set l \<Longrightarrow> lines (l @ LF # s) = strip_cr l # lines s"
proof -
  assume l: "LF \<notin> set l"
  then have "dropWhile (\<lambda>c. c \<noteq> LF) (l @ LF # s) = LF # s"
    and "takeWhile (\<lambda>c. c \<noteq> LF) (l @ LF # s) = l"
    by (auto simp: dropWhile_append3 dropWhile_append takeWhile_append split: if_splits)
  then show ?thesis by (subst lines.simps) simp
qed

lemma strip_cr_id: "CR \<notin> set l \<Longrightarrow> strip_cr l = l"
  by (metis last_in_set strip_cr_def)

text \<open>Terminated lines without \<open>\\n\<close> and \<open>\\r\<close> are read back.\<close>

lemma lines_terminated:
  assumes "\<forall>l \<in> set ls. LF \<notin> set l \<and> CR \<notin> set l"
  shows "lines (concat (map (\<lambda>l. l @ [LF]) ls)) = ls"
  using assms by (induction ls) (auto simp: lines_Cons_LF strip_cr_id)

lemma lines_append_LF:
  assumes "LF \<notin> set l"
  shows "lines (l @ LF # s) = strip_cr l # lines s"
  using assms by (rule lines_Cons_LF)

lemma lines_induct [case_names Nil last line]:
  assumes "P []"
    and "\<And>s. s \<noteq> [] \<Longrightarrow> LF \<notin> set s \<Longrightarrow> P s"
    and "\<And>l s. LF \<notin> set l \<Longrightarrow> P s \<Longrightarrow> P (l @ LF # s)"
  shows "P s"
proof (induction s rule: length_induct)
  case (1 s)
  show ?case
  proof (cases "LF \<in> set s")
    case True
    then obtain l r where "s = l @ LF # r" "LF \<notin> set l" by (meson split_list_first)
    then show ?thesis using 1 assms(3) [of l r] by simp
  next
    case False
    then show ?thesis using assms(1,2) by (cases s) auto
  qed
qed

lemma set_lines: "l \<in> set (lines s) \<Longrightarrow> LF \<notin> set l"
proof (induction s rule: lines_induct)
  case (line k s)
  then show ?case
    by (auto simp: lines_Cons_LF strip_cr_def dest: in_set_butlastD split: if_splits)
qed (auto simp: lines_no_LF)

subsection \<open>Prefixes, searching, replacing\<close>

lemma starts_with_prefix: "starts_with s p \<longleftrightarrow> prefix p s"
  unfolding starts_with_def by (metis append_eq_conv_conj prefix_def take_is_prefix)

lemma starts_with_append [simp]: "starts_with (p @ s) p"
  by (simp add: starts_with_def)

lemma strip_prefix_Some: "strip_prefix s p = Some r \<longleftrightarrow> s = p @ r"
  by (auto simp: strip_prefix_def starts_with_def) (metis append_take_drop_id)

lemma contains_iff: "contains s p \<longleftrightarrow> (\<exists>u v. s = u @ p @ v)"
proof (induction s p rule: contains.induct)
  case (2 x xs p)
  show ?case
  proof
    assume "contains (x # xs) p"
    then consider "starts_with (x # xs) p" | "contains xs p" by auto
    then show "\<exists>u v. x # xs = u @ p @ v"
    proof cases
      case 1
      then obtain v where "x # xs = p @ v"
        by (auto simp: starts_with_prefix prefix_def)
      then have "x # xs = [] @ p @ v" by simp
      then show ?thesis by blast
    next
      case 2
      then obtain u v where "xs = u @ p @ v" using 2 \<open>contains xs p \<longleftrightarrow> _\<close> by blast
      then have "x # xs = (x # u) @ p @ v" by simp
      then show ?thesis by blast
    qed
  next
    assume "\<exists>u v. x # xs = u @ p @ v"
    then obtain u v where u: "x # xs = u @ p @ v" by blast
    show "contains (x # xs) p"
    proof (cases u)
      case Nil
      then show ?thesis by (metis u append_Nil contains.simps(2) starts_with_append)
    next
      case (Cons y u')
      with u have "xs = u' @ p @ v" by simp
      then show ?thesis using "2.IH" by auto
    qed
  qed
qed auto

lemma contains_sublist: "contains s p \<longleftrightarrow> sublist p s"
  by (auto simp: contains_iff sublist_def)


text \<open>
  \<open>replace\<close> removes its pattern for good when the replacement text cannot take part in an
  occurrence of it: \<open>overlap_free q r\<close> says that no occurrence of \<open>q\<close> in any text can share
  a byte with an occurrence of \<open>r\<close>.
\<close>

definition overlap_free :: "str \<Rightarrow> str \<Rightarrow> bool" where
  "overlap_free q r \<longleftrightarrow> q \<noteq> [] \<and> r \<noteq> []
     \<and> \<not> contains r q \<and> \<not> contains q r
     \<and> list_all (\<lambda>n. \<not> ends_with q (take n r)) [1 ..< Suc (length r)]
     \<and> list_all (\<lambda>n. \<not> starts_with q (drop n r)) [0 ..< length r]"

lemma ends_with_suffix: "ends_with s p \<longleftrightarrow> suffix p s"
proof
  assume "ends_with s p"
  then have "s = take (length s - length p) s @ p"
    unfolding ends_with_def by (metis append_take_drop_id)
  then show "suffix p s" by (metis suffixI)
qed (auto simp: ends_with_def suffix_def)

lemma overlap_free_head:
  assumes "overlap_free q r" "suffix x q" "x \<noteq> []"
  shows "\<not> prefix x (r @ z)"
proof
  assume "prefix x (r @ z)"
  then consider "prefix x r" | "prefix r x"
    by (meson prefixI prefix_order.dual_order.refl prefix_same_cases)
  then show False
  proof cases
    case 1
    then have "take (length x) r = x" and "length x \<le> length r"
      by (auto simp: prefix_def)
    moreover have "length x \<in> set [1 ..< Suc (length r)]"
      using \<open>x \<noteq> []\<close> \<open>length x \<le> length r\<close> by (cases x) auto
    ultimately show False
      using assms unfolding overlap_free_def list_all_iff ends_with_suffix by metis
  next
    case 2
    then have "contains q r"
      using assms(2) by (auto simp: contains_sublist)
        (meson prefix_imp_sublist sublist_order.order_trans suffix_imp_sublist)
    with assms(1) show False by (simp add: overlap_free_def)
  qed
qed

lemma overlap_free_tail:
  assumes "overlap_free q r" "suffix x r" "x \<noteq> []"
  shows "\<not> prefix q (x @ z)"
proof
  assume "prefix q (x @ z)"
  then consider "prefix q x" | "prefix x q"
    by (meson prefixI prefix_order.dual_order.refl prefix_same_cases)
  then show False
  proof cases
    case 1
    then have "contains r q"
      using assms(2) by (auto simp: contains_sublist)
        (meson prefix_imp_sublist sublist_order.order_trans suffix_imp_sublist)
    with assms(1) show False by (simp add: overlap_free_def)
  next
    case 2
    obtain u where r: "r = u @ x" using assms(2) by (auto simp: suffix_def)
    then have "length u \<in> set [0 ..< length r]" and "drop (length u) r = x"
      using assms(3) by auto
    with 2 assms(1) show False
      unfolding overlap_free_def list_all_iff starts_with_prefix by metis
  qed
qed

lemma replace_Nil [simp]: "replace p r [] = []"
  by (simp add: replace.simps)

lemma replace_match: "p \<noteq> [] \<Longrightarrow> replace p r (p @ s) = r @ replace p r s"
  by (subst replace.simps) auto

lemma replace_step: "\<not> starts_with (x # s) p \<Longrightarrow> replace p r (x # s) = x # replace p r s"
  by (subst replace.simps) (auto simp: starts_with_def)

lemma replace_cases:
  assumes "p \<noteq> []"
  obtains "s = []" | t where "s = p @ t" | x t where "s = x # t" "\<not> starts_with s p"
  using assms by (cases s) (auto simp: starts_with_prefix prefix_def)

lemma replace_induct [consumes 1, case_names Nil match step]:
  assumes "p \<noteq> []"
    and "P []"
    and "\<And>t. P t \<Longrightarrow> P (p @ t)"
    and "\<And>x t. \<not> starts_with (x # t) p \<Longrightarrow> P t \<Longrightarrow> P (x # t)"
  shows "P s"
proof (induction s rule: length_induct)
  case (1 s)
  show ?case
    using replace_cases [OF assms(1), of s]
  proof cases
    case (2 t)
    with 1 assms(1,3) show ?thesis by simp
  next
    case (3 x t)
    with 1 assms(4) show ?thesis by simp
  qed (use assms(2) in simp)
qed

lemma prefix_replace:
  assumes "p \<noteq> []" "overlap_free q r" "suffix x q" "prefix x (replace p r s)"
  shows "prefix x s"
  using assms(1,3,4)
proof (induction s arbitrary: x rule: replace_induct)
  case (match t)
  then show ?case
    using overlap_free_head [OF assms(2), of x] by (cases "x = []") (auto simp: replace_match assms(1))
next
  case (step y t)
  then show ?case
    by (cases x) (auto simp: replace_step intro: suffix_ConsD)
qed simp

lemma contains_Cons_prefix: "contains (x # s) q \<longleftrightarrow> prefix q (x # s) \<or> contains s q"
  by (simp add: starts_with_prefix)

lemma contains_append_overlap_free:
  assumes "overlap_free q r" "contains (r @ s) q"
  shows "contains s q"
proof -
  have "contains s q" if "suffix x r" "contains (x @ s) q" for x
    using that
  proof (induction x)
    case (Cons c x)
    then have "\<not> prefix q ((c # x) @ s)"
      using overlap_free_tail [OF assms(1) Cons.prems(1)] by simp
    with Cons show ?case by (auto simp: starts_with_prefix intro: suffix_ConsD)
  qed simp
  from this [of r] assms(2) show ?thesis by simp
qed

theorem replace_keeps_absent:
  assumes "p \<noteq> []" "overlap_free q r" "contains (replace p r s) q"
  shows "contains s q"
  using assms(1,3)
proof (induction s rule: replace_induct)
  case (match t)
  then have "contains t q"
    using contains_append_overlap_free [OF assms(2)] by (auto simp: replace_match assms(1))
  then show ?case by (auto simp: contains_sublist sublist_append)
next
  case (step x t)
  then consider "prefix q (x # replace p r t)" | "contains (replace p r t) q"
    by (auto simp: replace_step starts_with_prefix)
  then show ?case
  proof cases
    case 1
    then have "prefix q (x # t)"
      using prefix_replace [OF assms(1,2), of q "x # t"] step.hyps by (simp add: replace_step)
    then show ?thesis by (simp add: starts_with_prefix)
  qed (use step in auto)
qed simp

theorem replace_removes:
  assumes "overlap_free p r"
  shows "\<not> contains (replace p r s) p"
proof -
  have p: "p \<noteq> []" using assms by (simp add: overlap_free_def)
  from p show ?thesis
  proof (induction s rule: replace_induct)
    case (match t)
    then show ?case
      using contains_append_overlap_free [OF assms] by (auto simp: replace_match p)
  next
    case (step x t)
    have "\<not> prefix p (x # replace p r t)"
    proof
      assume "prefix p (x # replace p r t)"
      then have "prefix p (x # t)"
        using prefix_replace [OF p assms, of p "x # t"] step.hyps by (simp add: replace_step)
      with step.hyps show False by (simp add: starts_with_prefix)
    qed
    with step show ?case by (simp add: replace_step starts_with_prefix)
  qed (use p in simp)
qed

lemma replace_id: "\<not> contains s p \<Longrightarrow> replace p r s = s"
  by (induction s) (auto simp: replace_step)


subsection \<open>Decimal numbers\<close>

text \<open>\<open>split_whitespace\<close>: the maximal runs of characters that are not white space.\<close>

fun words_acc :: "str \<Rightarrow> str list \<Rightarrow> str list" where
  "words_acc acc [] = (if acc = [] then [] else [acc])"
| "words_acc acc (k # ks) =
     (if is_ws k then (if acc = [] then words_acc [] ks else acc # words_acc [] ks)
      else words_acc (acc @ k) ks)"

definition split_whitespace :: "str \<Rightarrow> str list" where
  "split_whitespace s = words_acc [] (chars s)"

lemma code_digit_char: "d < 10 \<Longrightarrow> code (digit_char d) = 48 + d"
  by (simp add: digit_char_def)

lemma ascii_digit_digit_char: "d < 10 \<Longrightarrow> ascii_digit (digit_char d)"
  by (simp add: ascii_digit_def code_digit_char)

lemma show_nat_digits: "list_all ascii_digit (show_nat n) \<and> show_nat n \<noteq> []"
proof (induction n rule: show_nat.induct)
  case (1 n)
  show ?case
  proof (cases "n < 10")
    case True
    then show ?thesis by (simp add: show_nat.simps [of n] ascii_digit_digit_char)
  next
    case False
    with 1 show ?thesis by (simp add: show_nat.simps [of n] ascii_digit_digit_char)
  qed
qed

lemma show_nat_value: "foldl (\<lambda>n c. 10 * n + (code c - 48)) 0 (show_nat n) = n"
proof (induction n rule: show_nat.induct)
  case (1 n)
  show ?case
  proof (cases "n < 10")
    case True
    then show ?thesis by (simp add: show_nat.simps [of n] code_digit_char)
  next
    case False
    with 1 show ?thesis by (simp add: show_nat.simps [of n] code_digit_char)
  qed
qed

lemma parse_digits_show_nat: "parse_digits (show_nat n) = Some n"
  using show_nat_digits [of n] by (simp add: parse_digits_def show_nat_value)

lemma parse_unsigned_show_nat: "n < b \<Longrightarrow> parse_unsigned b (show_nat n) = Some n"
proof -
  obtain c s where s: "show_nat n = c # s"
    using show_nat_digits [of n] by (cases "show_nat n") auto
  then have "ascii_digit c" using show_nat_digits [of n] by simp
  then have "c \<noteq> CHR ''+''" by (auto simp: ascii_digit_def)
  moreover assume "n < b"
  ultimately show ?thesis
    using parse_digits_show_nat [of n] by (simp add: parse_unsigned_def s del: char.inject)
qed

lemma show_nat_set: "c \<in> set (show_nat n) \<Longrightarrow> 48 \<le> code c \<and> code c \<le> 57"
  using show_nat_digits [of n] by (auto simp: list_all_iff ascii_digit_def)

lemma ascii_show_nat: "ascii (show_nat n)"
  using show_nat_set [of _ n] by (fastforce simp: ascii_def list_all_iff)

subsection \<open>Floating point\<close>

lemma fle_refl: "x \<noteq> NaN \<Longrightarrow> fle x x"
  by (cases x) auto

lemma fle_total: "x \<noteq> NaN \<Longrightarrow> y \<noteq> NaN \<Longrightarrow> fle x y \<or> fle y x"
  by (cases x; cases y) auto

lemma fle_trans: "fle x y \<Longrightarrow> fle y z \<Longrightarrow> fle x z"
  by (cases x; cases y; cases z) auto

lemma fle_antisym: "fle x y \<Longrightarrow> fle y x \<Longrightarrow> x = y"
  by (cases x; cases y) auto

lemma fle_NaN [simp]: "\<not> fle x NaN"
  by (cases x) auto

lemma fmin_le: "x \<noteq> NaN \<Longrightarrow> fle (fmin x y) x"
  by (cases x; cases y) (auto simp: fmin_def)

lemma fclamp_bounds:
  assumes "x \<noteq> NaN" "lo \<le> hi"
  shows "\<exists>r. fclamp x (Fin lo) (Fin hi) = Fin r \<and> lo \<le> r \<and> r \<le> hi"
  using assms by (cases x) (auto simp: fclamp_def flt_def Let_def)

lemma show_nat_inject: "show_nat a = show_nat b \<longleftrightarrow> a = b"
proof
  assume "show_nat a = show_nat b"
  then have "parse_unsigned (Suc (a + b)) (show_nat a) = parse_unsigned (Suc (a + b)) (show_nat b)" by simp
  then show "a = b" by (simp add: parse_unsigned_show_nat)
qed simp

end
