(* ===== verification/Core.thy ===== *)
theory Core
  imports Prelude "HOL-Library.Word"
begin

text \<open>
  The crate \<open>jitgen-core\<close>: the domain types every other component uses, with the source's
  enums as datatypes and its structs as records, and the operations the crate defines on them
  (mode and strategy, line ranges, risk scores, the observed catch class, the configuration
  with its trust split). Identifiers (\<open>RevisionId\<close>, \<open>AdapterId\<close>, \<open>RunId\<close>, \<open>TargetId\<close>) are
  newtypes of strings and are modelled by strings.
\<close>

type_synonym u16 = "16 word"
type_synonym u32 = "32 word"

type_synonym revision_id = str
type_synonym adapter_id = str
type_synonym run_id = str
type_synonym target_id = str

datatype core_error =
    CoreInvalid (what: str) (detail: str)
  | CoreYaml str

section \<open>Mode and strategy\<close>

datatype run_mode = Harden | Catch

datatype strategy = Auto | StrategyHarden | DodgyDiff | IntentAware

fun resolve :: "strategy \<Rightarrow> run_mode \<Rightarrow> strategy" where
  "resolve Auto Harden = StrategyHarden"
| "resolve Auto Catch = IntentAware"
| "resolve other _ = other"

fun mode_as_str :: "run_mode \<Rightarrow> str" where
  "mode_as_str Harden = ''harden''"
| "mode_as_str Catch = ''catch''"

definition mode_parse :: "str \<Rightarrow> run_mode option" where
  "mode_parse s = (if s = ''harden'' then Some Harden
                   else if s = ''catch'' then Some Catch else None)"

lemma resolve_not_Auto [simp]: "resolve s m \<noteq> Auto"
  by (cases s; cases m) auto

lemma mode_parse_as_str [simp]: "mode_parse (mode_as_str m) = Some m"
  by (cases m) (auto simp: mode_parse_def)

section \<open>The change set\<close>

datatype change_kind = Added | Modified | Deleted | Renamed

record line_range =
  lr_start :: u32
  lr_end :: u32

definition line_range_new :: "u32 \<Rightarrow> u32 \<Rightarrow> core_error + line_range" where
  "line_range_new s e =
     (if s = 0 \<or> e < s
      then Err (CoreInvalid ''LineRange'' (''start='' @ show_nat (unat s) @ '' end='' @ show_nat (unat e)))
      else Ok \<lparr>lr_start = s, lr_end = e\<rparr>)"

definition line_range_contains :: "line_range \<Rightarrow> u32 \<Rightarrow> bool" where
  "line_range_contains r l \<longleftrightarrow> lr_start r \<le> l \<and> l \<le> lr_end r"

record file_change =
  fc_path :: str
  fc_old_path :: "str option"
  fc_kind :: change_kind
  fc_hunks :: "line_range list"

record change_set =
  cs_base :: revision_id
  cs_head :: revision_id
  cs_files :: "file_change list"

definition change_set_is_empty :: "change_set \<Rightarrow> bool" where
  "change_set_is_empty c \<longleftrightarrow> cs_files c = []"

section \<open>Targets\<close>

datatype symbol_kind = Function | Method | Class | Module | Hunk

type_synonym risk_score = f64

text \<open>\<open>shown\<close> is the display of a double in the message.\<close>

definition risk_score_new :: "(f64 \<Rightarrow> str) \<Rightarrow> f64 \<Rightarrow> core_error + risk_score" where
  "risk_score_new shown v =
     (if v = NaN \<or> \<not> (fle fzero v \<and> fle v fone)
      then Err (CoreInvalid ''RiskScore'' (shown v)) else Ok v)"

record target =
  tg_id :: target_id
  tg_adapter :: adapter_id
  tg_path :: str
  tg_symbol :: "str option"
  tg_kind :: symbol_kind
  tg_span :: line_range
  tg_risk :: risk_score

section \<open>Candidates and mutants\<close>

record test_candidate =
  tc_target :: target_id
  tc_rel_path :: str
  tc_source :: str
  tc_test_name :: "str option"
  tc_attempt :: u16

record materialized_test =
  mt_candidate :: test_candidate
  mt_abs_path :: str
  mt_sha256 :: str

datatype mutant_status = Proposed | Valid | Invalid

record mutant =
  mu_id :: str
  mu_risk :: str
  mu_path :: str
  mu_diff :: str
  mu_status :: mutant_status

section \<open>Executions\<close>

datatype exec_outcome = Passed | Failed | BuildError | Timeout | Errored

record execution_result =
  er_outcome :: exec_outcome
  er_exit_code :: "int option"
  er_duration_ms :: nat
  er_truncated :: bool
  er_stdout :: str
  er_stderr :: str

definition passed :: "execution_result \<Rightarrow> bool" where
  "passed r \<longleftrightarrow> er_outcome r = Passed"

record catch_execution =
  ce_base :: execution_result
  ce_head :: execution_result

section \<open>The observed class\<close>

datatype catch_class = HardenPass | WeakCatch | NoCatch | Broken | Flaky

fun unusable :: "exec_outcome \<Rightarrow> bool" where
  "unusable BuildError = True"
| "unusable Errored = True"
| "unusable Timeout = True"
| "unusable _ = False"

definition from_single :: "execution_result \<Rightarrow> catch_class" where
  "from_single r = (case er_outcome r of
      Passed \<Rightarrow> HardenPass
    | Failed \<Rightarrow> NoCatch
    | o' \<Rightarrow> if unusable o' then Broken else Broken)"

definition from_catch :: "catch_execution \<Rightarrow> catch_class" where
  "from_catch e =
     (if unusable (er_outcome (ce_base e)) \<or> unusable (er_outcome (ce_head e)) then Broken
      else if passed (ce_base e) \<and> er_outcome (ce_head e) = Failed then WeakCatch
      else NoCatch)"

lemma from_catch_WeakCatch:
  "from_catch e = WeakCatch \<longleftrightarrow> passed (ce_base e) \<and> er_outcome (ce_head e) = Failed"
  by (auto simp: from_catch_def passed_def)

lemma from_single_HardenPass: "from_single r = HardenPass \<longleftrightarrow> passed r"
  by (auto simp: from_single_def passed_def split: exec_outcome.splits)

lemma from_catch_range: "from_catch e \<in> {Broken, WeakCatch, NoCatch}"
  by (auto simp: from_catch_def)

lemma from_single_range: "from_single r \<in> {HardenPass, NoCatch, Broken}"
  by (auto simp: from_single_def split: exec_outcome.splits)

section \<open>Assessment\<close>

datatype tp_bucket = VeryLow | Low | Medium | High | VeryHigh

text \<open>The doubles nearest to 0.2, 0.4, 0.6, 0.8 and 0.9.\<close>

definition f0_2 :: f64 where "f0_2 = Fin (3602879701896397 / 18014398509481984)"
definition f0_4 :: f64 where "f0_4 = Fin (3602879701896397 / 9007199254740992)"
definition f0_6 :: f64 where "f0_6 = Fin (5404319552844595 / 9007199254740992)"
definition f0_8 :: f64 where "f0_8 = Fin (3602879701896397 / 4503599627370496)"
definition f0_9 :: f64 where "f0_9 = Fin (8106479329266893 / 9007199254740992)"

definition from_probability :: "f64 \<Rightarrow> tp_bucket" where
  "from_probability p =
     (if flt p f0_2 then VeryLow
      else if flt p f0_4 then Low
      else if flt p f0_6 then Medium
      else if flt p f0_8 then High
      else VeryHigh)"

datatype catch_decision = StrongCatch | StrictlyWeak | Uncertain

record assessor_signal =
  as_assessor :: str
  as_score :: f64
  as_rationale :: str

record weak_catch_assessment =
  wa_tp_probability :: f64
  wa_bucket :: tp_bucket
  wa_decision :: catch_decision
  wa_rationale :: str
  wa_signals :: "assessor_signal list"

record classified_result =
  cr_class :: catch_class
  cr_assessment :: "weak_catch_assessment option"

section \<open>Context\<close>

record context_budget =
  cb_max_tokens :: u32
  cb_max_files :: u16
  cb_max_bytes_per_file :: u32

definition default_budget :: context_budget where
  "default_budget = \<lparr>cb_max_tokens = 8000, cb_max_files = 12, cb_max_bytes_per_file = 64 * 1024\<rparr>"

datatype context_item_kind = ChangedCode | NeighboringCode | ExistingTest | Signature | DiffSummary

record context_item =
  ci_kind :: context_item_kind
  ci_path :: "str option"
  ci_content :: str

record context_bundle =
  cx_target :: target_id
  cx_items :: "context_item list"
  cx_budget :: context_budget
  cx_redacted :: bool

text \<open>\<open>\<dots>[truncated]\<close>, the ellipsis in UTF-8.\<close>

definition TRUNCATION_MARKER :: str where
  "TRUNCATION_MARKER = [CHR 0xE2, CHR 0x80, CHR 0xA6] @ ''[truncated]''"

lemma length_TRUNCATION_MARKER [simp]: "length TRUNCATION_MARKER = 14"
  by (simp add: TRUNCATION_MARKER_def)

lemma utf8_TRUNCATION_MARKER [simp]: "utf8 TRUNCATION_MARKER"
  by code_simp

end
