(* ===== verification/Redact.thy ===== *)
theory Redact
  imports Core
begin

text \<open>
  \<open>jitgen-context/src/redact.rs\<close>: secret redaction. The regular-expression engine is a parameter:
  for each pattern of the program it returns, in order, the matches it finds in a text, each as the
  byte spans of its groups (group 0 is the whole match). The rewriting and the decisions the
  program takes on a match are modelled.
\<close>

section \<open>The code\<close>

datatype pattern = TokenPattern str | UrlCredential | AssignmentQuoted | AssignmentEnv | AssignmentConfigLine

type_synonym captures = "(nat \<times> nat) option list"
type_synonym regex_engine = "pattern \<Rightarrow> str \<Rightarrow> captures list"

definition token_kinds :: "str list" where
  "token_kinds =
     [''aws-key'', ''github-token'', ''github-pat'', ''gitlab-pat'', ''slack-token'',
      ''slack-app-token'', ''slack-webhook'', ''google-key'', ''google-oauth'', ''openai-key'',
      ''npm-token'', ''jwt'', ''private-key'', ''bearer'', ''basic-auth'']"

text \<open>A group of a match: the empty string when it took no part in it.\<close>

definition group :: "str \<Rightarrow> captures \<Rightarrow> nat \<Rightarrow> str" where
  "group s c i = (if i < length c then (case c ! i of None \<Rightarrow> [] | Some (a, b) \<Rightarrow> take (b - a) (drop a s)) else [])"

definition match_span :: "captures \<Rightarrow> nat \<times> nat" where
  "match_span c = (case c of Some (a, b) # _ \<Rightarrow> (a, b) | _ \<Rightarrow> (0, 0))"

text \<open>The text between the matches is kept, each match becomes what the function makes of it.\<close>

fun replace_from :: "str \<Rightarrow> nat \<Rightarrow> (captures \<Rightarrow> str) \<Rightarrow> captures list \<Rightarrow> str" where
  "replace_from s k f [] = drop k s"
| "replace_from s k f (c # cs) =
     take (fst (match_span c) - k) (drop k s) @ f c @ replace_from s (snd (match_span c)) f cs"

text \<open>\<open>Regex::replace_all\<close>: an owned text exactly when there is a match.\<close>

definition replace_all :: "regex_engine \<Rightarrow> pattern \<Rightarrow> (str \<Rightarrow> captures \<Rightarrow> str) \<Rightarrow> str \<Rightarrow> str option" where
  "replace_all rx p f s = (case rx p s of [] \<Rightarrow> None | ms \<Rightarrow> Some (replace_from s 0 (f s) ms))"

record redaction =
  rd_text :: str
  rd_redacted :: bool

definition PASSPHRASE_MIN :: nat where "PASSPHRASE_MIN = 16"

definition looks_like_secret :: "str \<Rightarrow> bool" where
  "looks_like_secret v =
     (if length v < 12 then False
      else
        let has_digit = list_ex ascii_digit v;
            has_b64_special = list_ex (\<lambda>b. b = CHR ''/'' \<or> b = CHR ''+'' \<or> b = CHR ''='') v in
        if has_digit \<or> has_b64_special then True
        else
          let has_uppercase = list_ex ascii_upper v;
              has_separator = list_ex (\<lambda>b. b = CHR ''_'' \<or> b = CHR ''-'') v in
          \<not> has_uppercase \<and> \<not> has_separator \<and> PASSPHRASE_MIN \<le> length v)"

definition CODE_RECEIVER_PREFIXES :: "str list" where
  "CODE_RECEIVER_PREFIXES = [''self.'', ''this.'', ''super.'', ''cls.'']"

text \<open>One \<open>if let Cow::Owned\<close> step.\<close>

definition redact_step :: "regex_engine \<Rightarrow> pattern \<Rightarrow> (str \<Rightarrow> captures \<Rightarrow> str) \<Rightarrow> redaction \<Rightarrow> redaction" where
  "redact_step rx p f r =
     (case replace_all rx p f (rd_text r) of
        None \<Rightarrow> r
      | Some s \<Rightarrow> \<lparr>rd_text = s, rd_redacted = True\<rparr>)"

text \<open>The decision of the closure on a line that assigns a secret-named key.\<close>

definition config_hit :: "str \<Rightarrow> captures \<Rightarrow> bool" where
  "config_hit s c \<longleftrightarrow>
     \<not> list_ex (\<lambda>p. starts_with (trim_start (group s c 1)) p) CODE_RECEIVER_PREFIXES
     \<and> looks_like_secret (group s c 3)"

definition config_replacement :: "str \<Rightarrow> captures \<Rightarrow> str" where
  "config_replacement s c = (if config_hit s c then group s c 1 @ ''[REDACTED]'' else group s c 0)"

definition config_step :: "regex_engine \<Rightarrow> redaction \<Rightarrow> redaction" where
  "config_step rx r =
     (let s = rd_text r; ms = rx AssignmentConfigLine s in
      if list_ex (config_hit s) ms
      then \<lparr>rd_text = replace_from s 0 (config_replacement s) ms, rd_redacted = True\<rparr>
      else r)"

definition redact :: "regex_engine \<Rightarrow> str \<Rightarrow> redaction" where
  "redact rx input =
     (let r = fold (\<lambda>kind. redact_step rx (TokenPattern kind) (\<lambda>_ _. ''[REDACTED:'' @ kind @ '']''))
                token_kinds \<lparr>rd_text = input, rd_redacted = False\<rparr>;
          r = redact_step rx UrlCredential (\<lambda>s c. ''://'' @ group s c 1 @ '':[REDACTED]@'') r;
          r = redact_step rx AssignmentQuoted (\<lambda>s c. group s c 1 @ ''[REDACTED]'' @ group s c 3) r;
          r = redact_step rx AssignmentEnv (\<lambda>s c. group s c 1 @ ''[REDACTED]'') r in
      config_step rx r)"

section \<open>Lemmas\<close>

text \<open>
  The flag tells the truth: a text that was changed is flagged. (\<open>sound t r\<close>: if \<open>r\<close> is not flagged
  its text is still \<open>t\<close>.)
\<close>

definition flag_sound :: "str \<Rightarrow> redaction \<Rightarrow> bool" where
  "flag_sound t r \<longleftrightarrow> (\<not> rd_redacted r \<longrightarrow> rd_text r = t)"

lemma flag_sound_step: "flag_sound t r \<Longrightarrow> flag_sound t (redact_step rx p f r)"
  by (auto simp: flag_sound_def redact_step_def split: option.splits)

lemma flag_sound_config: "flag_sound t r \<Longrightarrow> flag_sound t (config_step rx r)"
  by (auto simp: flag_sound_def config_step_def Let_def)

lemma flag_sound_fold:
  "flag_sound t r \<Longrightarrow> flag_sound t (fold (\<lambda>k. redact_step rx (g k) (h k)) ks r)"
  by (induction ks arbitrary: r) (auto intro: flag_sound_step)

lemma redact_flag_sound: "\<not> rd_redacted (redact rx s) \<Longrightarrow> rd_text (redact rx s) = s"
proof -
  have "flag_sound s (redact rx s)"
    unfolding redact_def Let_def
    by (intro flag_sound_config flag_sound_step flag_sound_fold) (simp add: flag_sound_def)
  then show "\<not> rd_redacted (redact rx s) \<Longrightarrow> rd_text (redact rx s) = s"
    by (simp add: flag_sound_def)
qed

text \<open>Where the engine finds nothing, nothing changes.\<close>

lemma fold_redact_step_no_match:
  "(\<And>p. rx p (rd_text r) = []) \<Longrightarrow> fold (\<lambda>k. redact_step rx (g k) (h k)) ks r = r"
  by (induction ks) (auto simp: redact_step_def replace_all_def)

lemma redact_no_match: "(\<And>p. rx p s = []) \<Longrightarrow> redact rx s = \<lparr>rd_text = s, rd_redacted = False\<rparr>"
  by (simp add: redact_def Let_def fold_redact_step_no_match redact_step_def replace_all_def config_step_def)

text \<open>Every quoted assignment the engine finds loses its value.\<close>

lemma looks_like_secret_identifier:
  assumes "list_all (\<lambda>c. ascii_upper c \<or> ascii_lower c \<or> c = CHR ''_'' \<or> c = CHR ''-'') v"
    and "list_ex (\<lambda>c. ascii_upper c \<or> c = CHR ''_'' \<or> c = CHR ''-'') v"
  shows "\<not> looks_like_secret v"
proof -
  have "\<not> list_ex ascii_digit v" "\<not> list_ex (\<lambda>b. b = CHR ''/'' \<or> b = CHR ''+'' \<or> b = CHR ''='') v"
    using assms(1)
    by (fastforce simp: list_all_iff list_ex_iff ascii_digit_def ascii_upper_def ascii_lower_def)+
  with assms(2) show ?thesis
    by (auto simp: looks_like_secret_def Let_def list_ex_iff)
qed

end
