(* ===== verification/Errors.thy ===== *)
theory Errors
  imports Core
begin

text \<open>
  The error enums of the layers: \<open>GenerationError\<close> (jitgen-llm), \<open>ExecError\<close> and
  \<open>FeedbackError\<close> (jitgen-feedback), \<open>StateError\<close> (jitgen-state), \<open>GitError\<close>
  (jitgen-gitintake) and \<open>OrchestratorError\<close>, which wraps the others. An error of a library
  (SQLite, libgit2, the file system) is carried as its text.
\<close>

datatype generation_error = GenProvider str | GenConfig str

datatype exec_error = ExecError str

datatype feedback_error =
    FbGeneration generation_error
  | FbExecution exec_error
  | FbInvalid str str

datatype state_error =
    StSqlite str
  | StIo str
  | StRunNotFound str
  | StInvalid str

datatype git_error =
    GitLib str
  | GitIo str
  | GitBadRevision str
  | GitUnsafePath str
  | GitIgnored str
  | GitTooLarge nat
  | GitDiffTooLarge nat
  | GitTooManyHunks str
  | GitBoundaryEscape str

datatype orch_error =
    OrGit git_error
  | OrGit2 str
  | OrExec exec_error
  | OrState state_error
  | OrFeedback feedback_error
  | OrSandbox str
  | OrMaterialize str
  | OrCore core_error
  | OrIo str
  | OrConfig str
  | OrInvalid str str

text \<open>The message of an error, as \<open>thiserror\<close> derives it.\<close>

fun show_core :: "core_error \<Rightarrow> str" where
  "show_core (CoreInvalid w d) = ''invalid '' @ w @ '': '' @ d"
| "show_core (CoreYaml e) = ''yaml parse error: '' @ e"

fun show_generation :: "generation_error \<Rightarrow> str" where
  "show_generation (GenProvider e) = ''LLM provider error: '' @ e"
| "show_generation (GenConfig e) = ''LLM provider configuration error: '' @ e"

fun show_exec :: "exec_error \<Rightarrow> str" where
  "show_exec (ExecError m) = m"

fun show_feedback :: "feedback_error \<Rightarrow> str" where
  "show_feedback (FbGeneration e) = ''generation failed: '' @ show_generation e"
| "show_feedback (FbExecution e) = ''execution failed: '' @ show_exec e"
| "show_feedback (FbInvalid w d) = ''invalid '' @ w @ '': '' @ d"

fun show_state :: "state_error \<Rightarrow> str" where
  "show_state (StSqlite e) = ''sqlite error: '' @ e"
| "show_state (StIo e) = ''io error: '' @ e"
| "show_state (StRunNotFound i) = ''run not found: '' @ i"
| "show_state (StInvalid d) = ''invalid state: '' @ d"

fun show_git :: "git_error \<Rightarrow> str" where
  "show_git (GitLib e) = ''git error: '' @ e"
| "show_git (GitIo e) = ''io error: '' @ e"
| "show_git (GitBadRevision r) = ''invalid revision '' @ [CHR 0x27] @ r @ [CHR 0x27]"
| "show_git (GitUnsafePath p) = ''unsafe path: '' @ p"
| "show_git (GitIgnored p) = ''refused to read ignored/secret path: '' @ p"
| "show_git (GitTooLarge n) = ''blob exceeds size cap ('' @ show_nat n @ '' bytes)''"
| "show_git (GitDiffTooLarge n) = ''diff too large ('' @ show_nat n @ '' changed files)''"
| "show_git (GitTooManyHunks d) = ''diff too large: '' @ d"
| "show_git (GitBoundaryEscape d) = ''repository boundary escape: '' @ d"

fun show_orch :: "orch_error \<Rightarrow> str" where
  "show_orch (OrGit e) = ''git intake: '' @ show_git e"
| "show_orch (OrGit2 e) = ''git: '' @ e"
| "show_orch (OrExec e) = ''execute: '' @ show_exec e"
| "show_orch (OrState e) = ''state: '' @ show_state e"
| "show_orch (OrFeedback e) = ''feedback: '' @ show_feedback e"
| "show_orch (OrSandbox e) = ''sandbox: '' @ e"
| "show_orch (OrMaterialize e) = ''materialize: '' @ e"
| "show_orch (OrCore e) = ''core: '' @ show_core e"
| "show_orch (OrIo e) = ''io: '' @ e"
| "show_orch (OrConfig d) = ''config: '' @ d"
| "show_orch (OrInvalid w d) = ''invalid '' @ w @ '': '' @ d"

end
