(* ===== verification/Llm.thy ===== *)
theory Llm
  imports Prompts Errors
begin

text \<open>
  The crate \<open>jitgen-llm\<close>: requests and responses, the offline providers (\<open>mock.rs\<close>,
  \<open>recorded.rs\<close>), the parser of a model's answer (\<open>parse.rs\<close>) and the static validation of a
  candidate (\<open>validate.rs\<close>). A provider is a function of the request that threads the state of
  the world, since a real one answers over the network.
\<close>

section \<open>The code\<close>

record llm_request =
  rq_prompt :: prompt
  rq_mode :: run_mode
  rq_strategy :: strategy
  rq_language :: str
  rq_symbol :: "str option"
  rq_attempt :: u16
  rq_repair_feedback :: "str option"

record llm_response =
  rs_raw :: str

type_synonym 'w provider = "llm_request \<Rightarrow> 'w \<Rightarrow> (generation_error + llm_response) \<times> 'w"

subsection \<open>\<open>util.rs\<close> and \<open>parse.rs\<close>\<close>

definition char_prefix :: "str \<Rightarrow> nat \<Rightarrow> str" where
  "char_prefix s max_bytes = (if length s \<le> max_bytes then s else take (back_up s max_bytes) s)"

definition MAX_RAW_BYTES :: nat where "MAX_RAW_BYTES = 256 * 1024"

definition is_fence :: "str \<Rightarrow> bool" where
  "is_fence l \<longleftrightarrow> starts_with (trim_start l) ''```''"

definition extract_code :: "str \<Rightarrow> str" where
  "extract_code raw0 =
     (let raw = char_prefix raw0 MAX_RAW_BYTES in
      case dropWhile (\<lambda>l. \<not> is_fence l) (lines raw) of
        [] \<Rightarrow> trim raw
      | _ # after \<Rightarrow> trim_end (join [LF] (takeWhile (\<lambda>l. \<not> is_fence l) after)))"

definition parse_candidate :: "str \<Rightarrow> target_id \<Rightarrow> str \<Rightarrow> u16 \<Rightarrow> test_candidate" where
  "parse_candidate raw t rel_path attempt =
     \<lparr>tc_target = t, tc_rel_path = rel_path, tc_source = extract_code raw, tc_test_name = None,
      tc_attempt = attempt\<rparr>"

subsection \<open>\<open>validate.rs\<close>\<close>

definition MAX_VALIDATE_BYTES :: nat where "MAX_VALIDATE_BYTES = 512 * 1024"

record validation_result =
  vr_ok :: bool
  vr_issues :: "str list"

definition DANGEROUS :: "(str \<times> str) list" where
  "DANGEROUS =
     [(''rm -rf'', ''destructive shell command''),
      (''remove_dir_all'', ''recursive filesystem deletion''),
      (''shutil.rmtree'', ''recursive filesystem deletion''),
      (''.rmsync'', ''recursive filesystem deletion''),
      (''os.system'', ''shell execution''),
      (''subprocess.'', ''process spawning''),
      (''child_process'', ''process spawning''),
      (''command::new'', ''process spawning''),
      (''processbuilder'', ''process spawning (java)''),
      (''getruntime'', ''Runtime.exec (java)''),
      (''.popen'', ''process spawning (python)''),
      (''/etc/passwd'', ''sensitive file access''),
      (''/.ssh/'', ''ssh key access''),
      (''.aws/credentials'', ''credential access''),
      (''import socket'', ''raw network access''),
      (''net.connect'', ''raw network access'')]"

definition collapse :: "str \<Rightarrow> str" where
  "collapse lower = concat (filter (\<lambda>c. \<not> is_ws c) (chars lower))"

definition validate_candidate :: "str \<Rightarrow> validation_result" where
  "validate_candidate source0 =
     (let source = char_prefix source0 MAX_VALIDATE_BYTES;
          lower = to_ascii_lowercase source;
          collapsed = collapse lower;
          issues = map (\<lambda>(needle, why). ''dangerous construct '' @ [CHR 0x27] @ needle @ [CHR 0x27] @ '' ('' @ why @ '')'')
            (filter (\<lambda>(needle, _). contains lower needle \<or> contains collapsed needle) DANGEROUS) in
      \<lparr>vr_ok = (issues = []), vr_issues = issues\<rparr>)"

subsection \<open>\<open>recorded.rs\<close> and \<open>mock.rs\<close>\<close>

definition recorded_generate :: "str list \<Rightarrow> 'w provider" where
  "recorded_generate responses req w =
     (Ok \<lparr>rs_raw = (if responses = [] then []
                    else responses ! min (unat (rq_attempt req)) (length responses - 1))\<rparr>, w)"

text \<open>The seed is a hash of the request by the standard library's fixed-key hasher, a parameter.\<close>

definition mock_render :: "str \<Rightarrow> str option \<Rightarrow> nat \<Rightarrow> u16 \<Rightarrow> str" where
  "mock_render language symbol seed attempt =
     (let name = (case symbol of None \<Rightarrow> ''unit'' | Some s \<Rightarrow> s);
          suf = show_nat (seed mod 100000);
          att = show_nat (unat attempt);
          (tag, code) =
            (if language = ''rust'' then
               (''rust'', ''#[test]'' @ [LF] @ ''fn jitgen_'' @ name @ ''_'' @ suf @ ''_'' @ att @ ''() {'' @ [LF]
                  @ ''    assert_eq!(1 + 1, 2);'' @ [LF] @ ''}'' @ [LF])
             else if language = ''python'' then
               (''python'', ''def test_jitgen_'' @ name @ ''_'' @ suf @ ''_'' @ att @ ''():'' @ [LF]
                  @ ''    assert 1 + 1 == 2'' @ [LF])
             else if language = ''java'' then
               (''java'', ''@org.junit.Test'' @ [LF] @ ''public void jitgen_'' @ name @ ''_'' @ suf @ ''_'' @ att @ ''() {'' @ [LF]
                  @ ''    org.junit.Assert.assertEquals(2, 1 + 1);'' @ [LF] @ ''}'' @ [LF])
             else if language = ''typescript'' then
               (''ts'', ''test('' @ [CHR 0x27] @ ''jitgen '' @ name @ '' '' @ suf @ '' '' @ att @ [CHR 0x27] @ '', () => {'' @ [LF]
                  @ ''  expect(1 + 1).toBe(2);'' @ [LF] @ ''});'' @ [LF])
             else ([], ''// jitgen mock test for '' @ name @ '' ('' @ suf @ ''/'' @ att @ '')'' @ [LF])) in
      ''Here is a generated test:'' @ [LF, LF] @ ''```'' @ tag @ [LF] @ code @ ''```'' @ [LF])"

definition mock_generate :: "(llm_request \<Rightarrow> nat) \<Rightarrow> 'w provider" where
  "mock_generate hash req w =
     (Ok \<lparr>rs_raw = mock_render (rq_language req) (rq_symbol req) (hash req) (rq_attempt req)\<rparr>, w)"

section \<open>Lemmas\<close>

lemma length_char_prefix: "length (char_prefix s n) \<le> n"
  using back_up_le [of s n] by (simp add: char_prefix_def min.coboundedI2)

lemma char_prefix_id: "length s \<le> n \<Longrightarrow> char_prefix s n = s"
  by (simp add: char_prefix_def)

lemma vr_ok_iff: "vr_ok (validate_candidate s) \<longleftrightarrow> vr_issues (validate_candidate s) = []"
  by (simp add: validate_candidate_def Let_def)

lemma validate_ok_iff:
  assumes "length s \<le> MAX_VALIDATE_BYTES"
  shows "vr_ok (validate_candidate s) \<longleftrightarrow>
    (\<forall>(needle, _) \<in> set DANGEROUS. \<not> contains (to_ascii_lowercase s) needle
       \<and> \<not> contains (collapse (to_ascii_lowercase s)) needle)"
  using assms by (auto simp: validate_candidate_def Let_def char_prefix_id filter_empty_conv)

text \<open>A concatenation of lines is cut back into them.\<close>

lemma extract_code_fenced:
  assumes "length raw \<le> MAX_RAW_BYTES" "lines raw = pre @ opn # body @ rest"
    and "list_all (\<lambda>l. \<not> is_fence l) pre" "is_fence opn" "list_all (\<lambda>l. \<not> is_fence l) body"
    and "rest = [] \<or> is_fence (hd rest)"
  shows "extract_code raw = trim_end (join [LF] body)"
proof -
  have "dropWhile (\<lambda>l. \<not> is_fence l) (lines raw) = opn # body @ rest"
    using assms(2-4) by (simp add: dropWhile_append list_all_iff)
  moreover have "takeWhile (\<lambda>l. \<not> is_fence l) (body @ rest) = body"
    using assms(5,6) by (cases rest) (auto simp: takeWhile_append list_all_iff)
  ultimately show ?thesis
    using assms(1) by (simp add: extract_code_def char_prefix_id)
qed

text \<open>Parsed sources are bounded, so the validation sees all of them.\<close>

lemma length_trim_end: "length (trim_end s) \<le> length s"
proof -
  have "length (concat (rev (dropWhile is_ws (rev cs)))) \<le> length (concat cs)" for cs
  proof -
    have "length (concat (dropWhile P xs)) \<le> length (concat xs)" for P and xs :: "str list"
      by (induction xs) auto
    from this [of is_ws "rev cs"] show ?thesis by (simp add: length_concat sum_list_rev flip: rev_map)
  qed
  from this [of "chars s"] show ?thesis by (simp add: trim_end_def)
qed

lemma length_trim_start: "length (trim_start s) \<le> length s"
proof -
  have "length (concat (dropWhile P xs)) \<le> length (concat xs)" for P and xs :: "str list"
    by (induction xs) auto
  from this [of is_ws "chars s"] show ?thesis by (simp add: trim_start_def)
qed

lemma length_trim: "length (trim s) \<le> length s"
  unfolding trim_def using length_trim_end length_trim_start le_trans by blast

definition line_cost :: "str list \<Rightarrow> nat" where
  "line_cost ls = sum_list (map (\<lambda>l. Suc (length l)) ls)"

lemma length_join_lines: "length (join [LF] ls) \<le> line_cost ls"
proof (induction ls)
  case (Cons l ls)
  then show ?case by (cases ls) (auto simp: line_cost_def)
qed simp

lemma line_cost_lines: "line_cost (lines s) \<le> Suc (length s)"
proof (induction s rule: length_induct)
  case (1 s)
  show ?case
  proof (cases "dropWhile (\<lambda>c. c \<noteq> LF) s")
    case Nil
    then show ?thesis by (subst lines.simps) (simp add: line_cost_def del: dropWhile_eq_Nil_conv)
  next
    case (Cons x r)
    have len: "length s = length (takeWhile (\<lambda>c. c \<noteq> LF) s) + Suc (length r)"
      using takeWhile_dropWhile_id [of "\<lambda>c. c \<noteq> LF" s] Cons by (metis length_Cons length_append)
    have "length (strip_cr l) \<le> length l" for l by (simp add: strip_cr_def)
    note strip = this [of "takeWhile (\<lambda>c. c \<noteq> LF) s"]
    have "line_cost (lines r) \<le> Suc (length r)" using 1 len by simp
    moreover have "s \<noteq> []" using Cons by auto
    ultimately show ?thesis
      using Cons len strip by (subst lines.simps) (simp add: line_cost_def)
  qed
qed

lemma length_extract_code: "length (extract_code raw) \<le> MAX_RAW_BYTES"
proof -
  let ?raw = "char_prefix raw MAX_RAW_BYTES"
  show ?thesis
  proof (cases "dropWhile (\<lambda>l. \<not> is_fence l) (lines ?raw)")
    case Nil
    then show ?thesis
      using length_trim [of ?raw] length_char_prefix [of raw MAX_RAW_BYTES]
      by (simp add: extract_code_def Let_def del: dropWhile_eq_Nil_conv)
  next
    case (Cons f ls)
    then have all: "lines ?raw = takeWhile (\<lambda>l. \<not> is_fence l) (lines ?raw) @ f # ls"
      by (metis takeWhile_dropWhile_id)
    have cost_app: "line_cost (xs @ ys) = line_cost xs + line_cost ys" for xs ys
      by (simp add: line_cost_def)
    have "line_cost ls + 1 \<le> line_cost (lines ?raw)"
      by (subst all) (simp add: line_cost_def)
    moreover have "line_cost (takeWhile P ls) \<le> line_cost ls" for P
      using cost_app [of "takeWhile P ls" "dropWhile P ls"] by simp
    note tw = this [of "\<lambda>l. \<not> is_fence l"]
    have "length (trim_end (join [LF] (takeWhile (\<lambda>l. \<not> is_fence l) ls))) \<le> line_cost ls"
      using length_trim_end [of "join [LF] (takeWhile (\<lambda>l. \<not> is_fence l) ls)"]
        length_join_lines [of "takeWhile (\<lambda>l. \<not> is_fence l) ls"] tw by linarith
    ultimately have "length (trim_end (join [LF] (takeWhile (\<lambda>l. \<not> is_fence l) ls))) \<le> MAX_RAW_BYTES"
      using line_cost_lines [of ?raw] length_char_prefix [of raw MAX_RAW_BYTES] by linarith
    then show ?thesis using Cons by (simp add: extract_code_def Let_def)
  qed
qed

section \<open>Properties\<close>

text \<open>
  The caps hide nothing from the validation. A candidate parsed from any model output, however
  long, that passes the static validation has no listed construct anywhere in its lower-cased
  source, nor in that source with all white space removed.
\<close>

theorem parsed_candidate_validated:
  assumes "vr_ok (validate_candidate (tc_source (parse_candidate raw t p a)))" "(needle, why) \<in> set DANGEROUS"
  shows "\<not> contains (to_ascii_lowercase (tc_source (parse_candidate raw t p a))) needle
    \<and> \<not> contains (collapse (to_ascii_lowercase (tc_source (parse_candidate raw t p a)))) needle"
proof -
  have "length (tc_source (parse_candidate raw t p a)) \<le> MAX_VALIDATE_BYTES"
    using length_extract_code [of raw] by (simp add: parse_candidate_def MAX_RAW_BYTES_def MAX_VALIDATE_BYTES_def)
  from validate_ok_iff [OF this] assms show ?thesis by blast
qed

text \<open>
  A needle that contains a blank is found only as it is written. Both looks at the source miss
  a second blank (the collapsed copy has none), so \<open>rm  -rf\<close> and \<open>import  socket\<close> pass, although
  their one-blank forms are rejected.
\<close>

theorem doubled_blank_passes:
  "\<not> vr_ok (validate_candidate ''rm -rf /'') \<and> vr_ok (validate_candidate ''rm  -rf /'')
   \<and> \<not> vr_ok (validate_candidate ''import socket'') \<and> vr_ok (validate_candidate ''import  socket'')"
proof -
  have len: "length ''rm -rf /'' \<le> MAX_VALIDATE_BYTES" "length ''rm  -rf /'' \<le> MAX_VALIDATE_BYTES"
    "length ''import socket'' \<le> MAX_VALIDATE_BYTES" "length ''import  socket'' \<le> MAX_VALIDATE_BYTES"
    by (simp_all add: MAX_VALIDATE_BYTES_def)
  have low: "to_ascii_lowercase ''rm  -rf /'' = ''rm  -rf /''" "to_ascii_lowercase ''import  socket'' = ''import  socket''"
    "collapse ''rm  -rf /'' = ''rm-rf/''" "collapse ''import  socket'' = ''importsocket''"
    by (code_simp, code_simp) (simp_all add: collapse_def is_ws_def cp_def is_cont_def)
  have "contains (to_ascii_lowercase ''rm -rf /'') ''rm -rf''" "contains (to_ascii_lowercase ''import socket'') ''import socket''"
    by code_simp+
  moreover have "\<forall>(needle, _) \<in> set DANGEROUS. \<not> contains (to_ascii_lowercase ''rm  -rf /'') needle
       \<and> \<not> contains (collapse (to_ascii_lowercase ''rm  -rf /'')) needle"
    unfolding low by code_simp
  moreover have "\<forall>(needle, _) \<in> set DANGEROUS. \<not> contains (to_ascii_lowercase ''import  socket'') needle
       \<and> \<not> contains (collapse (to_ascii_lowercase ''import  socket'')) needle"
    unfolding low by code_simp
  ultimately show ?thesis
    unfolding validate_ok_iff [OF len(1)] validate_ok_iff [OF len(2)] validate_ok_iff [OF len(3)] validate_ok_iff [OF len(4)]
    by (force simp: DANGEROUS_def)
qed

lemma validate_ok_sample: "vr_ok (validate_candidate ''ok()'')"
proof -
  have low: "to_ascii_lowercase ''ok()'' = ''ok()''" "collapse ''ok()'' = ''ok()''"
    by code_simp (simp add: collapse_def is_ws_def cp_def is_cont_def)
  have "length ''ok()'' \<le> MAX_VALIDATE_BYTES" by (simp add: MAX_VALIDATE_BYTES_def)
  moreover have "\<forall>(needle, _) \<in> set DANGEROUS. \<not> contains (to_ascii_lowercase ''ok()'') needle
       \<and> \<not> contains (collapse (to_ascii_lowercase ''ok()'')) needle"
    unfolding low by code_simp
  ultimately show ?thesis using validate_ok_iff by blast
qed

theorem parsed_candidate_validated_witness:
  "\<not> contains (to_ascii_lowercase (tc_source (parse_candidate ''ok()'' ''t'' ''p'' 0))) ''rm -rf''
    \<and> \<not> contains (collapse (to_ascii_lowercase (tc_source (parse_candidate ''ok()'' ''t'' ''p'' 0)))) ''rm -rf''"
proof (rule parsed_candidate_validated)
  have src: "tc_source (parse_candidate ''ok()'' ''t'' ''p'' 0) = ''ok()''"
  proof -
    have "char_prefix ''ok()'' MAX_RAW_BYTES = ''ok()''" by (simp add: char_prefix_def MAX_RAW_BYTES_def)
    moreover have "trim ''ok()'' = ''ok()''"
      by (simp add: trim_def trim_start_def trim_end_def is_ws_def cp_def is_cont_def)
    moreover have "lines ''ok()'' = [''ok()'']" by code_simp
    moreover have "\<not> is_fence ''ok()''"
      by (simp add: is_fence_def trim_start_def is_ws_def cp_def is_cont_def starts_with_def)
    ultimately show ?thesis by (simp add: parse_candidate_def extract_code_def)
  qed
  show "vr_ok (validate_candidate (tc_source (parse_candidate ''ok()'' ''t'' ''p'' 0)))"
    unfolding src by (rule validate_ok_sample)
  show "(''rm -rf'', ''destructive shell command'') \<in> set DANGEROUS" by (simp add: DANGEROUS_def)
qed

end
