(* ===== verification/Feedback.thy ===== *)
theory Feedback
  imports Llm
begin

text \<open>
  The crate \<open>jitgen-feedback\<close>, first part: the executor interface (\<open>executor.rs\<close>), classification
  (\<open>classify.rs\<close>), the flake filter (\<open>flake.rs\<close>), minimisation (\<open>minimize.rs\<close>) and the bounded
  repair loop (\<open>repair.rs\<close>). The executor and the provider are parameters that thread the state of
  the world, so what they are asked to do can be observed.
\<close>

section \<open>The code\<close>

subsection \<open>\<open>executor.rs\<close> and \<open>classify.rs\<close>\<close>

datatype variant = Base | Head | MutantOf mutant

definition variant_label :: "variant \<Rightarrow> str" where
  "variant_label v = (case v of Base \<Rightarrow> ''base'' | Head \<Rightarrow> ''head'' | MutantOf m \<Rightarrow> ''mutant:'' @ mu_id m)"

record 'w executor =
  run_candidate :: "test_candidate \<Rightarrow> variant \<Rightarrow> 'w \<Rightarrow> (exec_error + execution_result) \<times> 'w"
  run_existing :: "variant \<Rightarrow> 'w \<Rightarrow> (exec_error + execution_result) \<times> 'w"

definition classify_single :: "execution_result \<Rightarrow> classified_result" where
  "classify_single r = \<lparr>cr_class = from_single r, cr_assessment = None\<rparr>"

definition classify_catch :: "catch_execution \<Rightarrow> classified_result" where
  "classify_catch e = \<lparr>cr_class = from_catch e, cr_assessment = None\<rparr>"

subsection \<open>\<open>flake.rs\<close>\<close>

record flake_config =
  fl_reruns :: u32

definition default_flake :: flake_config where "default_flake = \<lparr>fl_reruns = 2\<rparr>"

record flake_report =
  fr_stable :: bool
  fr_observed :: "catch_class list"

definition flake_class :: "flake_report \<Rightarrow> catch_class" where
  "flake_class r = (case (fr_stable r, fr_observed r) of (True, c # _) \<Rightarrow> c | _ \<Rightarrow> Flaky)"

definition flake_report_of :: "catch_class list \<Rightarrow> flake_report" where
  "flake_report_of observed =
     \<lparr>fr_stable = (case observed of [] \<Rightarrow> True | c # _ \<Rightarrow> list_all (\<lambda>d. d = c) observed),
      fr_observed = observed\<rparr>"

fun flake_single_trials ::
  "'w executor \<Rightarrow> test_candidate \<Rightarrow> variant \<Rightarrow> nat \<Rightarrow> catch_class list \<Rightarrow> 'w
     \<Rightarrow> (feedback_error + catch_class list) \<times> 'w" where
  "flake_single_trials ex c v 0 observed w = (Ok observed, w)"
| "flake_single_trials ex c v (Suc n) observed w =
     (case run_candidate ex c v w of
        (Err e, w) \<Rightarrow> (Err (FbExecution e), w)
      | (Ok r, w) \<Rightarrow> flake_single_trials ex c v n (observed @ [from_single r]) w)"

definition flake_filter_single ::
  "'w executor \<Rightarrow> test_candidate \<Rightarrow> variant \<Rightarrow> flake_config \<Rightarrow> 'w \<Rightarrow> (feedback_error + flake_report) \<times> 'w" where
  "flake_filter_single ex c v cfg w =
     (case flake_single_trials ex c v (unat (fl_reruns cfg) + 1) [] w of
        (Err e, w) \<Rightarrow> (Err e, w)
      | (Ok observed, w) \<Rightarrow> (Ok (flake_report_of observed), w))"

fun flake_catch_trials ::
  "'w executor \<Rightarrow> test_candidate \<Rightarrow> nat \<Rightarrow> catch_class list \<Rightarrow> 'w
     \<Rightarrow> (feedback_error + catch_class list) \<times> 'w" where
  "flake_catch_trials ex c 0 observed w = (Ok observed, w)"
| "flake_catch_trials ex c (Suc n) observed w =
     (case run_candidate ex c Base w of
        (Err e, w) \<Rightarrow> (Err (FbExecution e), w)
      | (Ok b, w) \<Rightarrow>
          (case run_candidate ex c Head w of
             (Err e, w) \<Rightarrow> (Err (FbExecution e), w)
           | (Ok h, w) \<Rightarrow>
               flake_catch_trials ex c n (observed @ [from_catch \<lparr>ce_base = b, ce_head = h\<rparr>]) w))"

definition flake_filter_catch ::
  "'w executor \<Rightarrow> test_candidate \<Rightarrow> flake_config \<Rightarrow> 'w \<Rightarrow> (feedback_error + flake_report) \<times> 'w" where
  "flake_filter_catch ex c cfg w =
     (case flake_catch_trials ex c (unat (fl_reruns cfg) + 1) [] w of
        (Err e, w) \<Rightarrow> (Err e, w)
      | (Ok observed, w) \<Rightarrow> (Ok (flake_report_of observed), w))"

subsection \<open>\<open>minimize.rs\<close>\<close>

record minimize_config =
  mn_max_probes :: u32

definition default_minimize :: minimize_config where "default_minimize = \<lparr>mn_max_probes = 200\<rparr>"

definition with_source :: "test_candidate \<Rightarrow> str \<Rightarrow> test_candidate" where
  "with_source c s = c\<lparr>tc_source := s\<rparr>"

type_synonym 'w probe = "test_candidate \<Rightarrow> 'w \<Rightarrow> (feedback_error + bool) \<times> 'w"

definition drop_line :: "str list \<Rightarrow> nat \<Rightarrow> str list" where
  "drop_line ls i = take i ls @ drop (Suc i) ls"

lemma length_drop_line: "i < length ls \<Longrightarrow> length (drop_line ls i) = length ls - 1"
  by (simp add: drop_line_def)

text \<open>
  The inner loop over the index: the lines, the probes made, \<open>changed\<close> and \<open>any_removed\<close>.
\<close>

function minimize_pass ::
  "'w probe \<Rightarrow> test_candidate \<Rightarrow> nat \<Rightarrow> nat \<Rightarrow> str list \<times> nat \<times> bool \<times> bool \<Rightarrow> 'w
     \<Rightarrow> (feedback_error + (str list \<times> nat \<times> bool \<times> bool)) \<times> 'w" where
  "minimize_pass still c bud i (ls, probes, changed, removed) w =
     (if i < length ls then
        if bud \<le> probes then (Ok (ls, probes, changed, removed), w)
        else
          let trial = drop_line ls i in
          (case still (with_source c (join [LF] trial)) w of
             (Err e, w) \<Rightarrow> (Err e, w)
           | (Ok keep, w) \<Rightarrow>
               if keep then minimize_pass still c bud i (trial, Suc probes, True, True) w
               else minimize_pass still c bud (Suc i) (ls, Suc probes, changed, removed) w)
      else (Ok (ls, probes, changed, removed), w))"
  by pat_completeness auto
termination
  by (relation "measure (\<lambda>(still, c, bud, i, (ls, probes, changed, removed), w). length ls - i)")
    (auto simp: length_drop_line)

declare minimize_pass.simps [simp del]

lemma minimize_pass_shorter:
  "minimize_pass still c bud i (ls, probes, ch, rm) w = (Ok (ls', probes', ch', rm'), w') \<Longrightarrow>
     length ls' \<le> length ls \<and> (ch' \<longrightarrow> ch \<or> length ls' < length ls) \<and> (\<not> ch' \<longrightarrow> \<not> ch \<and> ls' = ls)"
proof (induction still c bud i "(ls, probes, ch, rm)" w arbitrary: ls probes ch rm rule: minimize_pass.induct)
  case (1 still c bud i ls probes ch rm w)
  show ?case
  proof (cases "i < length ls \<and> probes < bud")
    case False
    then show ?thesis using "1.prems" by (subst (asm) minimize_pass.simps) (auto split: if_splits)
  next
    case True
    obtain r w1 where r: "still (with_source c (join [LF] (drop_line ls i))) w = (r, w1)" by force
    with "1.prems" True obtain keep where k: "r = Ok keep"
      by (subst (asm) minimize_pass.simps) (cases r; auto)
    show ?thesis
    proof (cases keep)
      case True': True
      have "minimize_pass still c bud i (drop_line ls i, Suc probes, True, True) w1 = (Ok (ls', probes', ch', rm'), w')"
        using "1.prems" True r k True' by (subst (asm) minimize_pass.simps) simp
      with "1.hyps"(1) [OF _ _ refl r [symmetric] k] True True' show ?thesis
        by (auto simp: length_drop_line)
    next
      case False
      have "minimize_pass still c bud (Suc i) (ls, Suc probes, ch, rm) w1 = (Ok (ls', probes', ch', rm'), w')"
        using "1.prems" True r k False by (subst (asm) minimize_pass.simps) simp
      with "1.hyps"(2) [OF _ _ refl r [symmetric] k] True False show ?thesis by auto
    qed
  qed
qed

text \<open>The outer loop, entered while \<open>changed\<close> holds and probes are left.\<close>

function minimize_loop ::
  "'w probe \<Rightarrow> test_candidate \<Rightarrow> nat \<Rightarrow> str list \<times> nat \<times> bool \<Rightarrow> 'w
     \<Rightarrow> (feedback_error + (str list \<times> bool)) \<times> 'w" where
  "minimize_loop still c bud (ls, probes, removed) w =
     (if probes < bud then
        (case minimize_pass still c bud 0 (ls, probes, False, removed) w of
           (Err e, w) \<Rightarrow> (Err e, w)
         | (Ok (ls', probes', changed, removed'), w) \<Rightarrow>
             if changed then minimize_loop still c bud (ls', probes', removed') w
             else (Ok (ls', removed'), w))
      else (Ok (ls, removed), w))"
  by pat_completeness auto
termination
  by (relation "measure (\<lambda>(still, c, bud, (ls, probes, removed), w). length ls)")
    (auto dest: minimize_pass_shorter [OF sym])

declare minimize_loop.simps [simp del]

definition minimize :: "test_candidate \<Rightarrow> 'w probe \<Rightarrow> minimize_config \<Rightarrow> 'w \<Rightarrow> (feedback_error + test_candidate) \<times> 'w" where
  "minimize c still cfg w =
     (case minimize_loop still c (unat (mn_max_probes cfg)) (lines (tc_source c), 0, False) w of
        (Err e, w) \<Rightarrow> (Err e, w)
      | (Ok (ls, removed), w) \<Rightarrow> (Ok (if removed then with_source c (join [LF] ls) else c), w))"

subsection \<open>\<open>repair.rs\<close>\<close>

definition MAX_FEEDBACK_CHARS :: nat where "MAX_FEEDBACK_CHARS = 2000"

record repair_config =
  rc_max_attempts :: u32

definition default_repair :: repair_config where "default_repair = \<lparr>rc_max_attempts = 3\<rparr>"

datatype repair_outcome = Accepted | Exhausted | Rejected

record repair_report =
  rp_outcome :: repair_outcome
  rp_candidate :: test_candidate
  rp_classified :: classified_result
  rp_attempts :: nat

definition goal_reached :: "run_mode \<Rightarrow> catch_class \<Rightarrow> bool" where
  "goal_reached mode c = (case mode of Harden \<Rightarrow> c = HardenPass | Catch \<Rightarrow> c = WeakCatch)"

fun outcome_debug :: "exec_outcome \<Rightarrow> str" where
  "outcome_debug Passed = ''Passed''"
| "outcome_debug Failed = ''Failed''"
| "outcome_debug BuildError = ''BuildError''"
| "outcome_debug Timeout = ''Timeout''"
| "outcome_debug Errored = ''Errored''"

definition fenced_feedback :: "regex_engine \<Rightarrow> str \<Rightarrow> str \<Rightarrow> str" where
  "fenced_feedback rx kind raw =
     fenced_pre_redacted kind (concat (take MAX_FEEDBACK_CHARS (chars (rd_text (redact rx raw)))))"

definition describe_single :: "regex_engine \<Rightarrow> execution_result \<Rightarrow> str" where
  "describe_single rx r = fenced_feedback rx ''repair_failure_head''
     (''previous attempt observed '' @ outcome_debug (er_outcome r) @ ''; captured output:'' @ [LF]
      @ er_stdout r @ [LF] @ er_stderr r)"

definition describe_catch :: "regex_engine \<Rightarrow> execution_result \<Rightarrow> execution_result \<Rightarrow> str" where
  "describe_catch rx b h = fenced_feedback rx ''repair_failure_catch''
     (''previous attempt: base observed '' @ outcome_debug (er_outcome b) @ '', head observed ''
      @ outcome_debug (er_outcome h) @ ''; head output:'' @ [LF] @ er_stdout h @ [LF] @ er_stderr h)"

definition trial ::
  "regex_engine \<Rightarrow> 'w executor \<Rightarrow> test_candidate \<Rightarrow> run_mode \<Rightarrow> 'w
     \<Rightarrow> (feedback_error + (classified_result \<times> str)) \<times> 'w" where
  "trial rx ex c mode w =
     (case mode of
        Harden \<Rightarrow>
          (case run_candidate ex c Head w of
             (Err e, w) \<Rightarrow> (Err (FbExecution e), w)
           | (Ok h, w) \<Rightarrow> (Ok (classify_single h, describe_single rx h), w))
      | Catch \<Rightarrow>
          (case run_candidate ex c Base w of
             (Err e, w) \<Rightarrow> (Err (FbExecution e), w)
           | (Ok b, w) \<Rightarrow>
               (case run_candidate ex c Head w of
                  (Err e, w) \<Rightarrow> (Err (FbExecution e), w)
                | (Ok h, w) \<Rightarrow>
                    (Ok (classify_catch \<lparr>ce_base = b, ce_head = h\<rparr>, describe_catch rx b h), w))))"

definition broken_result :: classified_result where
  "broken_result = \<lparr>cr_class = Broken, cr_assessment = None\<rparr>"

definition repair_request :: "llm_request \<Rightarrow> nat \<Rightarrow> str \<Rightarrow> llm_request" where
  "repair_request template attempt feedback =
     template\<lparr>rq_attempt := of_nat attempt, rq_repair_feedback := Some feedback\<rparr>"

text \<open>The candidate of an attempt: the initial one, or one regenerated from the feedback.\<close>

definition next_candidate ::
  "'w provider \<Rightarrow> llm_request \<Rightarrow> target_id \<Rightarrow> str \<Rightarrow> nat \<Rightarrow> str \<Rightarrow> test_candidate \<Rightarrow> 'w
     \<Rightarrow> (feedback_error + test_candidate) \<times> 'w" where
  "next_candidate provider template t rel_path attempt feedback c w =
     (if 0 < attempt then
        (case provider (repair_request template attempt feedback) w of
           (Err e, w) \<Rightarrow> (Err (FbGeneration e), w)
         | (Ok resp, w) \<Rightarrow> (Ok (parse_candidate (rs_raw resp) t rel_path (of_nat attempt)), w))
      else (Ok c, w))"

definition validation_feedback :: "regex_engine \<Rightarrow> validation_result \<Rightarrow> str" where
  "validation_feedback rx v = fenced_feedback rx ''repair_validation''
     (''static validation rejected the test (do not use dangerous constructs): '' @ join ''; '' (vr_issues v))"

text \<open>
  The loop over the attempts from \<open>attempt\<close> on, \<open>left\<close> of them; its state is the candidate, the
  last classification and the last feedback.
\<close>

fun repair_attempts ::
  "regex_engine \<Rightarrow> 'w provider \<Rightarrow> 'w executor \<Rightarrow> llm_request \<Rightarrow> run_mode \<Rightarrow> nat \<Rightarrow> target_id \<Rightarrow> str
     \<Rightarrow> nat \<Rightarrow> nat \<Rightarrow> test_candidate \<Rightarrow> classified_result option \<Rightarrow> str \<Rightarrow> 'w
     \<Rightarrow> (feedback_error + repair_report) \<times> 'w" where
  "repair_attempts rx provider ex template mode max_attempts t rel_path 0 attempt c last_classified last_feedback w =
     (Ok \<lparr>rp_outcome = Exhausted, rp_candidate = c,
         rp_classified = (case last_classified of None \<Rightarrow> broken_result | Some k \<Rightarrow> k),
         rp_attempts = max_attempts\<rparr>, w)"
| "repair_attempts rx provider ex template mode max_attempts t rel_path (Suc left) attempt c last_classified last_feedback w =
     (case next_candidate provider template t rel_path attempt last_feedback c w of
        (Err e, w) \<Rightarrow> (Err e, w)
      | (Ok c, w) \<Rightarrow>
          let attempts = attempt + 1; v = validate_candidate (tc_source c) in
          if \<not> vr_ok v then
            if attempts = max_attempts
            then (Ok \<lparr>rp_outcome = Rejected, rp_candidate = c, rp_classified = broken_result, rp_attempts = attempts\<rparr>, w)
            else repair_attempts rx provider ex template mode max_attempts t rel_path left attempts c None
                   (validation_feedback rx v) w
          else
            (case trial rx ex c mode w of
               (Err e, w) \<Rightarrow> (Err e, w)
             | (Ok (classified, feedback), w) \<Rightarrow>
                 if goal_reached mode (cr_class classified)
                 then (Ok \<lparr>rp_outcome = Accepted, rp_candidate = c, rp_classified = classified, rp_attempts = attempts\<rparr>, w)
                 else repair_attempts rx provider ex template mode max_attempts t rel_path left attempts c
                        (Some classified) feedback w))"

definition repair_loop ::
  "regex_engine \<Rightarrow> 'w provider \<Rightarrow> 'w executor \<Rightarrow> test_candidate \<Rightarrow> llm_request \<Rightarrow> run_mode \<Rightarrow> repair_config \<Rightarrow> 'w
     \<Rightarrow> (feedback_error + repair_report) \<times> 'w" where
  "repair_loop rx provider ex initial template mode cfg w =
     (if rc_max_attempts cfg = 0 then (Err (FbInvalid ''max_attempts'' ''must be >= 1''), w)
      else repair_attempts rx provider ex template mode (unat (rc_max_attempts cfg)) (tc_target initial)
             (tc_rel_path initial) (unat (rc_max_attempts cfg)) 0 initial None [] w)"

section \<open>Observing the seams\<close>

text \<open>
  An executor and a provider that record what they are asked to do. The log is part of the world,
  so a statement about every run is a statement about the log at its end.
\<close>

datatype call =
    Ran test_candidate variant "exec_error + execution_result"
  | RanExisting variant "exec_error + execution_result"
  | Asked llm_request

definition logged_executor :: "'w executor \<Rightarrow> ('w \<times> call list) executor" where
  "logged_executor ex =
     \<lparr>run_candidate = (\<lambda>c v (w, tr). let (r, w') = run_candidate ex c v w in (r, (w', tr @ [Ran c v r]))),
      run_existing = (\<lambda>v (w, tr). let (r, w') = run_existing ex v w in (r, (w', tr @ [RanExisting v r])))\<rparr>"

definition logged_provider :: "'w provider \<Rightarrow> ('w \<times> call list) provider" where
  "logged_provider p req = (\<lambda>(w, tr). let (r, w') = p req w in (r, (w', tr @ [Asked req])))"

fun is_run :: "call \<Rightarrow> bool" where
  "is_run (Asked _) = False"
| "is_run _ = True"

text \<open>
  A specification of a step: from every state it only extends the log, and its result and the calls
  it added satisfy \<open>Q\<close>. The rules follow the shapes of the code: a returned value, a call that may
  fail followed by the rest, and a call that cannot fail.
\<close>

definition spec :: "('w \<times> call list \<Rightarrow> 'a \<times> ('w \<times> call list)) \<Rightarrow> ('a \<Rightarrow> call list \<Rightarrow> bool) \<Rightarrow> bool" where
  "spec f Q \<longleftrightarrow> (\<forall>w tr. \<exists>r w' calls. f (w, tr) = (r, (w', tr @ calls)) \<and> Q r calls)"

lemma spec_return: "Q r [] \<Longrightarrow> spec (\<lambda>s. (r, s)) Q"
  by (auto simp: spec_def)

lemma spec_mono: "spec f Q \<Longrightarrow> (\<And>r calls. Q r calls \<Longrightarrow> R r calls) \<Longrightarrow> spec f R"
  unfolding spec_def by meson

lemma spec_bind:
  assumes "spec f Q" "\<And>e calls. Q (Err e) calls \<Longrightarrow> R (Err (g e)) calls"
    and "\<And>x calls. Q (Ok x) calls \<Longrightarrow> spec (k x) (\<lambda>r more. R r (calls @ more))"
  shows "spec (\<lambda>s. case f s of (Err e, s) \<Rightarrow> (Err (g e), s) | (Ok x, s) \<Rightarrow> k x s) R"
  unfolding spec_def
proof (intro allI)
  fix w tr
  obtain r w' calls where f: "f (w, tr) = (r, (w', tr @ calls))" "Q r calls"
    using assms(1) unfolding spec_def by meson
  show "\<exists>r w' calls. (case f (w, tr) of (Err e, s) \<Rightarrow> (Err (g e), s) | (Ok x, s) \<Rightarrow> k x s) = (r, (w', tr @ calls)) \<and> R r calls"
  proof (cases r)
    case (Inl e)
    then show ?thesis using f assms(2) by auto
  next
    case (Inr x)
    then obtain r2 w2 more where "k x (w', tr @ calls) = (r2, (w2, (tr @ calls) @ more))" "R r2 (calls @ more)"
      using assms(3) f(2) unfolding spec_def by meson
    then show ?thesis using f(1) Inr by auto
  qed
qed

lemma spec_bind_same:
  assumes "spec f Q" "\<And>e calls. Q (Err e) calls \<Longrightarrow> R (Err e) calls"
    and "\<And>x calls. Q (Ok x) calls \<Longrightarrow> spec (k x) (\<lambda>r more. R r (calls @ more))"
  shows "spec (\<lambda>s. case f s of (Err e, s) \<Rightarrow> (Err e, s) | (Ok x, s) \<Rightarrow> k x s) R"
  by (rule spec_bind [where g = "\<lambda>e. e", OF assms])

lemma spec_let:
  assumes "spec f Q" "\<And>x calls. Q x calls \<Longrightarrow> spec (k x) (\<lambda>r more. R r (calls @ more))"
  shows "spec (\<lambda>s. case f s of (x, s) \<Rightarrow> k x s) R"
  unfolding spec_def
proof (intro allI)
  fix w tr
  obtain x w' calls where f: "f (w, tr) = (x, (w', tr @ calls))" "Q x calls"
    using assms(1) unfolding spec_def by meson
  then obtain r2 w2 more where "k x (w', tr @ calls) = (r2, (w2, (tr @ calls) @ more))" "R r2 (calls @ more)"
    using assms(2) unfolding spec_def by meson
  then show "\<exists>r w' calls. (case f (w, tr) of (x, s) \<Rightarrow> k x s) = (r, (w', tr @ calls)) \<and> R r calls"
    using f(1) by auto
qed

lemma spec_if:
  "(b \<Longrightarrow> spec f Q) \<Longrightarrow> (\<not> b \<Longrightarrow> spec g Q) \<Longrightarrow> spec (\<lambda>s. if b then f s else g s) Q"
  by (cases b) simp_all

lemma spec_run_candidate:
  "spec (run_candidate (logged_executor ex) c v) (\<lambda>r calls. calls = [Ran c v r])"
  by (auto simp: spec_def logged_executor_def Let_def split: prod.splits)

lemma spec_run_existing:
  "spec (run_existing (logged_executor ex) v) (\<lambda>r calls. calls = [RanExisting v r])"
  by (auto simp: spec_def logged_executor_def Let_def split: prod.splits)

lemma spec_provider:
  "spec (logged_provider p req) (\<lambda>r calls. calls = [Asked req])"
  by (auto simp: spec_def logged_provider_def Let_def split: prod.splits)

section \<open>The repair loop\<close>

text \<open>The loop asks for nothing but what \<open>safe\<close> allows, and for a bounded number of things.\<close>

fun safe_call :: "str set \<Rightarrow> call \<Rightarrow> bool" where
  "safe_call fb (Ran c v r) = vr_ok (validate_candidate (tc_source c))"
| "safe_call fb (RanExisting v r) = False"
| "safe_call fb (Asked req) = (\<exists>f \<in> fb. rq_repair_feedback req = Some f)"

definition runs :: "call list \<Rightarrow> nat" where "runs tr = length (filter is_run tr)"
definition asks :: "call list \<Rightarrow> nat" where "asks tr = length (filter (\<lambda>k. \<not> is_run k) tr)"

lemma runs_append [simp]: "runs (a @ b) = runs a + runs b" and asks_append [simp]: "asks (a @ b) = asks a + asks b"
  by (simp_all add: runs_def asks_def)

text \<open>The texts that can enter a request: fenced blocks of the program's own kinds.\<close>

definition feedback_texts :: "regex_engine \<Rightarrow> str set" where
  "feedback_texts rx = {fenced_feedback rx kind raw | kind raw. True}"

lemma trial_feedback: "fst (trial rx ex c mode w) = Ok (k, f) \<Longrightarrow> f \<in> feedback_texts rx"
  by (auto simp: trial_def feedback_texts_def describe_single_def describe_catch_def
      split: run_mode.splits prod.splits sum.splits)

lemma trial_log:
  "\<exists>calls. snd (snd (trial rx (logged_executor ex) c mode (w, tr))) = tr @ calls \<and> runs calls \<le> 2 \<and> asks calls = 0
     \<and> list_all (\<lambda>k. \<exists>v r. k = Ran c v r) calls"
  by (auto simp: trial_def logged_executor_def runs_def asks_def Let_def split: run_mode.splits prod.splits sum.splits)

lemma next_candidate_log:
  "\<exists>calls. snd (snd (next_candidate (logged_provider p) template t rel attempt f c (w, tr))) = tr @ calls
     \<and> runs calls = 0 \<and> asks calls \<le> 1
     \<and> list_all (\<lambda>k. 0 < attempt \<and> k = Asked (repair_request template attempt f)) calls"
  by (auto simp: next_candidate_def logged_provider_def runs_def asks_def Let_def split: prod.splits sum.splits)

lemma list_all_safe:
  "list_all (\<lambda>k. \<exists>v r. k = Ran c v r) calls \<Longrightarrow> vr_ok (validate_candidate (tc_source c)) \<Longrightarrow> list_all (safe_call F) calls"
  "list_all (\<lambda>k. 0 < attempt \<and> k = Asked (repair_request template attempt f)) calls \<Longrightarrow> (0 < attempt \<Longrightarrow> f \<in> F)
     \<Longrightarrow> list_all (safe_call F) calls"
  by (auto simp: list_all_iff repair_request_def)

definition log_bounded :: "regex_engine \<Rightarrow> nat \<Rightarrow> call list \<Rightarrow> bool" where
  "log_bounded rx n calls \<longleftrightarrow> list_all (safe_call (feedback_texts rx)) calls \<and> runs calls \<le> 2 * n \<and> asks calls \<le> n"

lemma log_bounded_append:
  "log_bounded rx (Suc 0) a \<Longrightarrow> log_bounded rx n b \<Longrightarrow> log_bounded rx (Suc n) (a @ b)"
  by (simp add: log_bounded_def)

lemma log_bounded_mono: "log_bounded rx m a \<Longrightarrow> m \<le> n \<Longrightarrow> log_bounded rx n a"
  by (auto simp: log_bounded_def)

lemma repair_attempts_log:
  assumes "0 < attempt \<Longrightarrow> lf \<in> feedback_texts rx"
  shows "\<exists>calls. snd (snd (repair_attempts rx (logged_provider p) (logged_executor ex) template mode m t rel left attempt c lc lf (w, tr)))
      = tr @ calls \<and> log_bounded rx left calls"
  using assms
proof (induction left arbitrary: attempt c lc lf w tr)
  case 0
  then show ?case by (simp add: log_bounded_def runs_def asks_def)
next
  case (Suc left)
  obtain r w1 tr1 where nc: "next_candidate (logged_provider p) template t rel attempt lf c (w, tr) = (r, (w1, tr1))"
    by (metis prod.exhaust)
  with next_candidate_log [of p template t rel attempt lf c w tr] obtain asked where
    asked: "tr1 = tr @ asked" "runs asked = 0" "asks asked \<le> 1"
      "list_all (\<lambda>k. 0 < attempt \<and> k = Asked (repair_request template attempt lf)) asked"
    by auto
  have safe: "list_all (safe_call (feedback_texts rx)) asked"
    using asked(4) Suc.prems by (rule list_all_safe(2))
  show ?case
  proof (cases r)
    case (Inl e)
    then show ?thesis using nc asked safe by (auto simp: log_bounded_def)
  next
    case (Inr c1)
    show ?thesis
    proof (cases "vr_ok (validate_candidate (tc_source c1))")
      case False
      have one: "log_bounded rx (Suc 0) asked" using asked safe by (simp add: log_bounded_def)
      have "validation_feedback rx v \<in> feedback_texts rx" for v
        by (auto simp: validation_feedback_def feedback_texts_def)
      with Suc.IH [of "Suc attempt" "validation_feedback rx (validate_candidate (tc_source c1))" c1 None w1 tr1]
      show ?thesis
        using nc Inr False asked(1) one
        by (auto simp: Let_def intro: log_bounded_append log_bounded_mono)
    next
      case True
      obtain tres w2 tr2 where tri: "trial rx (logged_executor ex) c1 mode (w1, tr1) = (tres, (w2, tr2))"
        by (metis prod.exhaust)
      with trial_log [of rx ex c1 mode w1 tr1] obtain ran where
        ran: "tr2 = tr1 @ ran" "runs ran \<le> 2" "asks ran = 0" "list_all (\<lambda>k. \<exists>v r. k = Ran c1 v r) ran"
        by auto
      have one: "log_bounded rx (Suc 0) (asked @ ran)"
        using asked ran safe list_all_safe(1) [OF ran(4) True] by (simp add: log_bounded_def)
      show ?thesis
      proof (cases tres)
        case (Inl e)
        then show ?thesis
          using nc Inr True tri asked(1) ran(1) one by (auto simp: Let_def intro: log_bounded_mono)
      next
        case (Inr kf)
        obtain k f where kf: "kf = (k, f)" by force
        have "f \<in> feedback_texts rx" using trial_feedback tri Inr kf by (metis fst_conv)
        with Suc.IH [of "Suc attempt" f c1 "Some k" w2 tr2] obtain later where
          "snd (snd (repair_attempts rx (logged_provider p) (logged_executor ex) template mode m t rel left (Suc attempt) c1 (Some k) f (w2, tr2)))
            = tr2 @ later" "log_bounded rx left later"
          by auto
        then show ?thesis
          using nc \<open>r = Inr c1\<close> True tri Inr kf asked(1) ran(1) one log_bounded_append [OF one, of left later]
          by (auto simp: Let_def intro: log_bounded_mono)
      qed
    qed
  qed
qed

text \<open>What an outcome says of the reported candidate.\<close>

definition report_ok :: "run_mode \<Rightarrow> nat \<Rightarrow> repair_report \<Rightarrow> bool" where
  "report_ok mode m r \<longleftrightarrow>
     (case rp_outcome r of
        Accepted \<Rightarrow> vr_ok (validate_candidate (tc_source (rp_candidate r)))
          \<and> goal_reached mode (cr_class (rp_classified r)) \<and> 1 \<le> rp_attempts r \<and> rp_attempts r \<le> m
      | Exhausted \<Rightarrow> vr_ok (validate_candidate (tc_source (rp_candidate r)))
          \<and> \<not> goal_reached mode (cr_class (rp_classified r)) \<and> rp_attempts r = m
      | Rejected \<Rightarrow> \<not> vr_ok (validate_candidate (tc_source (rp_candidate r)))
          \<and> cr_class (rp_classified r) = Broken \<and> rp_attempts r = m)"

lemma next_candidate_place:
  "next_candidate provider template t rel attempt f c w = (Ok c', w') \<Longrightarrow> tc_target c = t \<and> tc_rel_path c = rel
     \<Longrightarrow> tc_target c' = t \<and> tc_rel_path c' = rel"
  by (auto simp: next_candidate_def parse_candidate_def split: if_splits prod.splits sum.splits)

lemma repair_attempts_report:
  assumes "repair_attempts rx provider ex template mode m t rel left attempt c lc lf w = (Ok r, w')"
    and "attempt + left = m"
    and "left = 0 \<Longrightarrow> \<exists>k. lc = Some k \<and> \<not> goal_reached mode (cr_class k) \<and> vr_ok (validate_candidate (tc_source c))"
    and "tc_target c = t \<and> tc_rel_path c = rel"
  shows "report_ok mode m r \<and> tc_target (rp_candidate r) = t \<and> tc_rel_path (rp_candidate r) = rel"
  using assms
proof (induction left arbitrary: attempt c lc lf w)
  case 0
  then show ?case by (auto simp: report_ok_def)
next
  case (Suc left)
  obtain c1 w1 where nc: "next_candidate provider template t rel attempt lf c w = (Ok c1, w1)"
    using Suc.prems(1) by (auto split: prod.splits sum.splits)
  note place = next_candidate_place [OF nc Suc.prems(4)]
  show ?case
  proof (cases "vr_ok (validate_candidate (tc_source c1))")
    case False
    then show ?thesis
      using Suc.prems(1,2) nc place Suc.IH [of "Suc attempt" c1 None]
      by (auto simp: Let_def report_ok_def broken_result_def split: if_splits)
  next
    case True
    then obtain k f w2 where tri: "trial rx ex c1 mode w1 = (Ok (k, f), w2)"
      using Suc.prems(1) nc by (auto simp: Let_def split: prod.splits sum.splits)
    show ?thesis
    proof (cases "goal_reached mode (cr_class k)")
      case True': True
      then show ?thesis
        using Suc.prems(1,2) nc place True tri by (auto simp: Let_def report_ok_def)
    next
      case False
      then show ?thesis
        using Suc.prems(1,2) nc place True tri Suc.IH [of "Suc attempt" c1 "Some k" f w2]
        by (auto simp: Let_def)
    qed
  qed
qed

section \<open>Minimisation\<close>

lemma minimize_pass_step:
  assumes "i < length ls" "probes < bud" "still (with_source c (join [LF] (drop_line ls i))) w = (Ok keep, w1)"
  shows "minimize_pass still c bud i (ls, probes, ch, rm) w =
    (if keep then minimize_pass still c bud i (drop_line ls i, Suc probes, True, True) w1
     else minimize_pass still c bud (Suc i) (ls, Suc probes, ch, rm) w1)"
  using assms by (subst minimize_pass.simps) simp

lemma minimize_pass_error:
  assumes "i < length ls" "probes < bud" "still (with_source c (join [LF] (drop_line ls i))) w = (Err e, w1)"
  shows "minimize_pass still c bud i (ls, probes, ch, rm) w = (Err e, w1)"
  using assms by (subst minimize_pass.simps) simp

lemma minimize_pass_stop:
  "\<not> (i < length ls \<and> probes < bud) \<Longrightarrow>
   minimize_pass still c bud i (ls, probes, ch, rm) w = (Ok (ls, probes, ch, rm), w)"
  by (subst minimize_pass.simps) (auto simp: not_less)

text \<open>Induction over a pass: it stops, fails, drops a line or moves on.\<close>

lemma minimize_pass_induct [case_names stop fail drop keep]:
  assumes "\<And>i ls probes ch rm w. \<not> (i < length ls \<and> probes < bud) \<Longrightarrow>
      Q i ls probes ch rm w (Ok (ls, probes, ch, rm), w)"
    and "\<And>i ls probes ch rm w e w1. i < length ls \<Longrightarrow> probes < bud \<Longrightarrow>
      still (with_source c (join [LF] (drop_line ls i))) w = (Err e, w1) \<Longrightarrow> Q i ls probes ch rm w (Err e, w1)"
    and "\<And>i ls probes ch rm w w1 r. i < length ls \<Longrightarrow> probes < bud \<Longrightarrow>
      still (with_source c (join [LF] (drop_line ls i))) w = (Ok True, w1) \<Longrightarrow>
      Q i (drop_line ls i) (Suc probes) True True w1 r \<Longrightarrow> Q i ls probes ch rm w r"
    and "\<And>i ls probes ch rm w w1 r. i < length ls \<Longrightarrow> probes < bud \<Longrightarrow>
      still (with_source c (join [LF] (drop_line ls i))) w = (Ok False, w1) \<Longrightarrow>
      Q (Suc i) ls (Suc probes) ch rm w1 r \<Longrightarrow> Q i ls probes ch rm w r"
  shows "Q i ls probes ch rm w (minimize_pass still c bud i (ls, probes, ch, rm) w)"
proof (induction "length ls - i" arbitrary: i ls probes ch rm w rule: less_induct)
  case less
  show ?case
  proof (cases "i < length ls \<and> probes < bud")
    case False
    with assms(1) show ?thesis by (simp add: minimize_pass_stop)
  next
    case True
    obtain r w1 where r: "still (with_source c (join [LF] (drop_line ls i))) w = (r, w1)" by force
    show ?thesis
    proof (cases r)
      case (Inl e)
      then show ?thesis using r True assms(2) by (simp add: minimize_pass_error)
    next
      case (Inr keep)
      show ?thesis
      proof (cases keep)
        case True': True
        have "length (drop_line ls i) - i < length ls - i" using True length_drop_line [of i ls] by linarith
        from less [OF this] show ?thesis
          using assms(3) True r Inr True' minimize_pass_step [of i ls probes bud still c w keep w1 ch rm] by simp
      next
        case False
        have "length ls - Suc i < length ls - i"
          using True diff_less_mono2 [of i "Suc i" "length ls"] by simp
        from less [OF this] show ?thesis
          using assms(4) True r Inr False minimize_pass_step [of i ls probes bud still c w keep w1 ch rm] by simp
      qed
    qed
  qed
qed

lemma subseq_drop_line: "subseq (drop_line ls i) ls"
proof -
  have "suffix (drop (Suc i) ls) (drop i ls)"
    using suffix_drop [of 1 "drop i ls"] by simp
  then have "subseq (take i ls @ drop (Suc i) ls) (take i ls @ drop i ls)"
    unfolding subseq_append' by (rule suffix_imp_subseq)
  then show ?thesis by (simp add: drop_line_def)
qed

text \<open>An accepted source: some probe of it answered yes.\<close>

definition accepted :: "'w probe \<Rightarrow> test_candidate \<Rightarrow> str list \<Rightarrow> bool" where
  "accepted still c ls \<longleftrightarrow> (\<exists>w w'. still (with_source c (join [LF] ls)) w = (Ok True, w'))"

lemma minimize_pass_sound_aux:
  "(rm \<longrightarrow> accepted still c ls) \<longrightarrow>
   (\<forall>ls' probes' ch' rm' w'. minimize_pass still c bud i (ls, probes, ch, rm) w = (Ok (ls', probes', ch', rm'), w') \<longrightarrow>
      subseq ls' ls \<and> (rm' \<longrightarrow> accepted still c ls') \<and> (\<not> rm' \<longrightarrow> \<not> rm \<and> ls' = ls) \<and> (\<not> ch' \<longrightarrow> \<not> ch \<and> ls' = ls))"
proof (induction rule: minimize_pass_induct [where Q = "\<lambda>i ls probes ch rm w r. (rm \<longrightarrow> accepted still c ls) \<longrightarrow>
    (\<forall>ls' probes' ch' rm' w'. r = (Ok (ls', probes', ch', rm'), w') \<longrightarrow>
      subseq ls' ls \<and> (rm' \<longrightarrow> accepted still c ls') \<and> (\<not> rm' \<longrightarrow> \<not> rm \<and> ls' = ls) \<and> (\<not> ch' \<longrightarrow> \<not> ch \<and> ls' = ls))"])
  case (drop i ls probes ch rm w w1 r)
  then have "accepted still c (drop_line ls i)" by (auto simp: accepted_def)
  with drop show ?case
    using subseq_order.order_trans [OF _ subseq_drop_line [of ls i]] by blast
next
  case (keep i ls probes ch rm w w1 r)
  then show ?case by blast
qed simp_all

lemma minimize_pass_sound:
  assumes "minimize_pass still c bud i (ls, probes, ch, rm) w = (Ok (ls', probes', ch', rm'), w')"
    and "rm \<longrightarrow> accepted still c ls"
  shows "subseq ls' ls" "rm' \<longrightarrow> accepted still c ls'" "\<not> rm' \<longrightarrow> \<not> rm \<and> ls' = ls" "\<not> ch' \<longrightarrow> \<not> ch \<and> ls' = ls"
  using minimize_pass_sound_aux [of rm still c ls bud i probes ch w] assms by blast+

text \<open>With budget to spare a pass probes every line once, and one without change found no line to drop.\<close>

definition pure_probe :: "'w probe \<Rightarrow> (test_candidate \<Rightarrow> bool) \<Rightarrow> bool" where
  "pure_probe still P \<longleftrightarrow> (\<forall>c w. fst (still c w) = Ok (P c))"

lemma minimize_pass_full:
  "pure_probe still P \<longrightarrow> probes + (length ls - i) < bud \<longrightarrow>
   (\<exists>ls' ch' rm' w'. minimize_pass still c bud i (ls, probes, ch, rm) w
        = (Ok (ls', probes + (length ls - i), ch', rm'), w') \<and> (ch \<longrightarrow> ch')
      \<and> (\<not> ch' \<longrightarrow> (\<forall>j. i \<le> j \<and> j < length ls \<longrightarrow> \<not> P (with_source c (join [LF] (drop_line ls j))))))"
proof (induction rule: minimize_pass_induct [where Q = "\<lambda>i ls probes ch rm w r. pure_probe still P \<longrightarrow>
    probes + (length ls - i) < bud \<longrightarrow>
    (\<exists>ls' ch' rm' w'. r = (Ok (ls', probes + (length ls - i), ch', rm'), w') \<and> (ch \<longrightarrow> ch')
      \<and> (\<not> ch' \<longrightarrow> (\<forall>j. i \<le> j \<and> j < length ls \<longrightarrow> \<not> P (with_source c (join [LF] (drop_line ls j))))))"])
  case (fail i ls probes ch rm w e w1)
  then show ?case by (metis Inl_Inr_False fst_conv pure_probe_def)
next
  case (drop i ls probes ch rm w w1 r)
  then have eq: "Suc probes + (length (drop_line ls i) - i) = probes + (length ls - i)"
    by (simp add: length_drop_line)
  show ?case using drop.IH unfolding eq by blast
next
  case (keep i ls probes ch rm w w1 r)
  have eq: "Suc probes + (length ls - Suc i) = probes + (length ls - i)" using keep by simp
  have no: "pure_probe still P \<Longrightarrow> \<not> P (with_source c (join [LF] (drop_line ls i)))"
    using keep(3) by (metis fst_conv pure_probe_def sum.inject(2))
  show ?case
  proof (intro impI)
    assume pre: "pure_probe still P" "probes + (length ls - i) < bud"
    from keep.IH [unfolded eq, THEN mp, THEN mp, OF pre] obtain ls' ch' rm' w' where
      r: "r = (Ok (ls', probes + (length ls - i), ch', rm'), w')" "ch \<longrightarrow> ch'"
        "\<not> ch' \<longrightarrow> (\<forall>j. Suc i \<le> j \<and> j < length ls \<longrightarrow> \<not> P (with_source c (join [LF] (drop_line ls j))))"
      by blast
    have "\<not> ch' \<longrightarrow> (\<forall>j. i \<le> j \<and> j < length ls \<longrightarrow> \<not> P (with_source c (join [LF] (drop_line ls j))))"
      using r(3) no [OF pre(1)] by (metis Suc_leI le_neq_implies_less)
    with r show "\<exists>ls' ch' rm' w'. r = (Ok (ls', probes + (length ls - i), ch', rm'), w') \<and> (ch \<longrightarrow> ch')
      \<and> (\<not> ch' \<longrightarrow> (\<forall>j. i \<le> j \<and> j < length ls \<longrightarrow> \<not> P (with_source c (join [LF] (drop_line ls j)))))"
      by blast
  qed
qed auto

text \<open>The loop.\<close>

lemma minimize_loop_sound:
  assumes "minimize_loop still c bud (ls, probes, rm) w = (Ok (ls', rm'), w')" "rm \<longrightarrow> accepted still c ls"
  shows "subseq ls' ls \<and> (rm' \<longrightarrow> accepted still c ls') \<and> (\<not> rm' \<longrightarrow> \<not> rm \<and> ls' = ls)"
  using assms
proof (induction still c bud "(ls, probes, rm)" w arbitrary: ls probes rm rule: minimize_loop.induct)
  case (1 still c bud ls probes rm w)
  show ?case
  proof (cases "probes < bud")
    case False
    with "1.prems" show ?thesis by (subst (asm) minimize_loop.simps) auto
  next
    case True
    then obtain ls1 p1 ch1 rm1 w1 where pass:
      "minimize_pass still c bud 0 (ls, probes, False, rm) w = (Ok (ls1, p1, ch1, rm1), w1)"
      using "1.prems"(1) by (subst (asm) minimize_loop.simps) (auto split: prod.splits sum.splits)
    note sound = minimize_pass_sound [OF pass "1.prems"(2)]
    show ?thesis
    proof (cases ch1)
      case True': True
      then have "minimize_loop still c bud (ls1, p1, rm1) w1 = (Ok (ls', rm'), w')"
        using "1.prems"(1) True pass by (subst (asm) minimize_loop.simps) simp
      then have "subseq ls' ls1 \<and> (rm' \<longrightarrow> accepted still c ls') \<and> (\<not> rm' \<longrightarrow> \<not> rm1 \<and> ls' = ls1)"
        using "1.hyps" [OF True pass [symmetric] refl refl refl refl True'] sound(2) by blast
      then show ?thesis
        using sound(1,3) subseq_order.order_trans by blast
    next
      case False
      then have "ls' = ls1" "rm' = rm1"
        using "1.prems"(1) True pass by (subst (asm) minimize_loop.simps, simp)+
      with sound show ?thesis by blast
    qed
  qed
qed

definition one_minimal :: "(test_candidate \<Rightarrow> bool) \<Rightarrow> test_candidate \<Rightarrow> str list \<Rightarrow> bool" where
  "one_minimal P c ls \<longleftrightarrow> (\<forall>j < length ls. \<not> P (with_source c (join [LF] (drop_line ls j))))"

lemma minimize_loop_fixpoint:
  assumes "pure_probe still P" "probes + length ls * (length ls + 1) < bud"
  shows "\<exists>ls' rm' w'. minimize_loop still c bud (ls, probes, rm) w = (Ok (ls', rm'), w') \<and> one_minimal P c ls'"
  using assms(2)
proof (induction "length ls" arbitrary: ls probes rm w rule: less_induct)
  case less
  have fit: "probes + (length ls - 0) < bud" using less.prems by (simp add: algebra_simps)
  from minimize_pass_full [where ch = False and rm = rm and w = w and c = c, THEN mp, THEN mp, OF assms(1) fit]
  obtain ls1 ch1 rm1 w1 where pass:
    "minimize_pass still c bud 0 (ls, probes, False, rm) w = (Ok (ls1, probes + (length ls - 0), ch1, rm1), w1)"
    and full: "\<not> ch1 \<longrightarrow> (\<forall>j. 0 \<le> j \<and> j < length ls \<longrightarrow> \<not> P (with_source c (join [LF] (drop_line ls j))))"
    by (elim exE conjE)
  show ?case
  proof (cases ch1)
    case False
    have "ls1 = ls" using minimize_pass_shorter [OF pass] False by simp
    with False pass full fit show ?thesis
      by (subst minimize_loop.simps) (simp add: one_minimal_def)
  next
    case True
    then have short: "length ls1 < length ls" using minimize_pass_shorter [OF pass] by simp
    then have "length ls1 * (length ls1 + 1) \<le> (length ls - 1) * length ls"
      by (metis Suc_diff_1 Suc_leI add.commute le_diff_conv less_eq_Suc_le less_zeroE linorder_not_le mult_le_mono
          not_gr_zero plus_1_eq_Suc)
    moreover have "(length ls - 1) * length ls + length ls \<le> length ls * (length ls + 1)"
      by (cases "length ls") (simp_all add: algebra_simps)
    ultimately have "probes + (length ls - 0) + length ls1 * (length ls1 + 1) < bud"
      using less.prems by linarith
    from less.hyps [OF short this] show ?thesis
      using pass fit True by (subst minimize_loop.simps) simp
  qed
qed

text \<open>Counting the probes.\<close>

definition counted :: "'w probe \<Rightarrow> ('w \<times> nat) probe" where
  "counted still c = (\<lambda>(w, n). let (r, w') = still c w in (r, (w', Suc n)))"

lemma minimize_pass_count:
  "snd w = probes \<longrightarrow> probes \<le> bud \<longrightarrow>
   snd (snd (minimize_pass (counted still) c bud i (ls, probes, ch, rm) w)) \<le> bud
   \<and> (\<forall>ls' p' ch' rm'. fst (minimize_pass (counted still) c bud i (ls, probes, ch, rm) w) = Ok (ls', p', ch', rm') \<longrightarrow>
        snd (snd (minimize_pass (counted still) c bud i (ls, probes, ch, rm) w)) = p')"
proof (induction rule: minimize_pass_induct [where Q = "\<lambda>i ls probes ch rm w r. snd w = probes \<longrightarrow> probes \<le> bud \<longrightarrow>
    snd (snd r) \<le> bud \<and> (\<forall>ls' p' ch' rm'. fst r = Ok (ls', p', ch', rm') \<longrightarrow> snd (snd r) = p')"])
  case (fail i ls probes ch rm w e w1)
  then show ?case by (cases w) (auto simp: counted_def Let_def split: prod.splits)
next
  case (drop i ls probes ch rm w w1 r)
  then have "snd w1 = Suc (snd w)" by (cases w) (auto simp: counted_def Let_def split: prod.splits)
  with drop show ?case by simp
next
  case (keep i ls probes ch rm w w1 r)
  then have "snd w1 = Suc (snd w)" by (cases w) (auto simp: counted_def Let_def split: prod.splits)
  with keep show ?case by simp
qed simp

lemma minimize_loop_count:
  assumes "snd w = probes" "probes \<le> bud"
  shows "snd (snd (minimize_loop (counted still) c bud (ls, probes, rm) w)) \<le> bud"
  using assms
proof (induction "length ls" arbitrary: ls probes rm w rule: less_induct)
  case less
  note count = minimize_pass_count [where i = 0 and ls = ls and ch = False and rm = rm and still = still and c = c, THEN mp, THEN mp, OF less.prems]
  obtain r w1 where pass: "minimize_pass (counted still) c bud 0 (ls, probes, False, rm) w = (r, w1)"
    by (metis prod.exhaust)
  show ?case
  proof (cases "probes < bud \<and> (\<exists>ls1 p1 rm1. r = Ok (ls1, p1, True, rm1))")
    case True
    then obtain ls1 p1 rm1 where r: "r = Ok (ls1, p1, True, rm1)" by blast
    have "length ls1 < length ls" using minimize_pass_shorter [of "counted still"] pass r by blast
    moreover have "snd w1 = p1" "p1 \<le> bud" using count pass r by auto
    ultimately have "snd (snd (minimize_loop (counted still) c bud (ls1, p1, rm1) w1)) \<le> bud"
      by (rule less.hyps)
    with True pass r show ?thesis by (subst minimize_loop.simps) simp
  next
    case False
    with count pass less.prems show ?thesis
      by (subst minimize_loop.simps) (auto split: sum.splits prod.splits if_splits)
  qed
qed

section \<open>The flake filter\<close>

lemma flake_catch_trials_length:
  "flake_catch_trials ex c n obs w = (Ok obs', w') \<Longrightarrow> length obs' = length obs + n"
  by (induction ex c n obs w rule: flake_catch_trials.induct) (auto split: prod.splits sum.splits)

lemma flake_class_eq:
  "k \<noteq> Flaky \<Longrightarrow> flake_class (flake_report_of obs) = k \<longleftrightarrow> obs \<noteq> [] \<and> (\<forall>d \<in> set obs. d = k)"
  by (cases obs) (auto simp: flake_class_def flake_report_of_def list_all_iff split: bool.splits)

lemma repair_loop_ok:
  assumes "repair_loop rx provider ex initial template mode cfg w = (Ok r, w')"
  shows "report_ok mode (unat (rc_max_attempts cfg)) r
    \<and> tc_target (rp_candidate r) = tc_target initial \<and> tc_rel_path (rp_candidate r) = tc_rel_path initial"
proof -
  have "rc_max_attempts cfg \<noteq> 0" using assms by (auto simp: repair_loop_def)
  then have "unat (rc_max_attempts cfg) \<noteq> 0" by (simp add: unat_eq_zero)
  with assms show ?thesis
    by (intro repair_attempts_report [where attempt = 0 and left = "unat (rc_max_attempts cfg)"])
      (auto simp: repair_loop_def split: if_splits)
qed

lemma repair_loop_log:
  "\<exists>calls. snd (snd (repair_loop rx (logged_provider p) (logged_executor ex) initial template mode cfg (w, tr))) = tr @ calls
     \<and> log_bounded rx (unat (rc_max_attempts cfg)) calls"
proof (cases "rc_max_attempts cfg = 0")
  case True
  then show ?thesis by (simp add: repair_loop_def log_bounded_def runs_def asks_def)
next
  case False
  then show ?thesis
    using repair_attempts_log [of 0 "[]" rx p ex template mode "unat (rc_max_attempts cfg)" "tc_target initial"
        "tc_rel_path initial" "unat (rc_max_attempts cfg)" initial None w tr]
    by (simp add: repair_loop_def)
qed

text \<open>Calls that run validated candidates only, and the reference suite on mutants only.\<close>

fun pipeline_call :: "call \<Rightarrow> bool" where
  "pipeline_call (Ran c v r) = vr_ok (validate_candidate (tc_source c))"
| "pipeline_call (RanExisting v r) = (\<exists>m. v = MutantOf m)"
| "pipeline_call (Asked req) = True"

lemma safe_pipeline_call: "safe_call F k \<Longrightarrow> pipeline_call k"
  by (cases k) auto

lemma spec_repair_loop:
  "spec (repair_loop rx (logged_provider p) (logged_executor ex) initial template mode cfg)
     (\<lambda>r calls. list_all pipeline_call calls
       \<and> (\<forall>rep. r = Ok rep \<longrightarrow> report_ok mode (unat (rc_max_attempts cfg)) rep
            \<and> tc_target (rp_candidate rep) = tc_target initial \<and> tc_rel_path (rp_candidate rep) = tc_rel_path initial))"
  unfolding spec_def
proof (intro allI)
  fix w tr
  obtain r w' tr' where run: "repair_loop rx (logged_provider p) (logged_executor ex) initial template mode cfg (w, tr) = (r, (w', tr'))"
    by (metis prod.exhaust)
  then obtain calls where "tr' = tr @ calls" "log_bounded rx (unat (rc_max_attempts cfg)) calls"
    using repair_loop_log [of rx p ex initial template mode cfg w tr] by auto
  then show "\<exists>r w' calls. repair_loop rx (logged_provider p) (logged_executor ex) initial template mode cfg (w, tr) = (r, (w', tr @ calls))
      \<and> list_all pipeline_call calls \<and> (\<forall>rep. r = Ok rep \<longrightarrow> report_ok mode (unat (rc_max_attempts cfg)) rep
            \<and> tc_target (rp_candidate rep) = tc_target initial \<and> tc_rel_path (rp_candidate rep) = tc_rel_path initial)"
    using run by (auto simp: log_bounded_def list_all_iff dest: repair_loop_ok intro: safe_pipeline_call)
qed

lemma spec_flake_single_trials:
  assumes "vr_ok (validate_candidate (tc_source c))"
  shows "spec (flake_single_trials (logged_executor ex) c v n obs)
    (\<lambda>r calls. list_all pipeline_call calls \<and> (\<forall>obs'. r = Ok obs' \<longrightarrow> (\<exists>rs. length rs = n
       \<and> calls = map (\<lambda>x. Ran c v (Ok x)) rs \<and> obs' = obs @ map from_single rs)))"
proof (induction n arbitrary: obs)
  case 0
  show ?case unfolding flake_single_trials.simps by (rule spec_return) simp
next
  case (Suc n)
  show ?case
    unfolding flake_single_trials.simps
  proof (rule spec_bind [OF spec_run_candidate])
    fix x calls
    assume c: "calls = [Ran c v (Ok x)]"
    show "spec (flake_single_trials (logged_executor ex) c v n (obs @ [from_single x]))
      (\<lambda>r more. list_all pipeline_call (calls @ more) \<and> (\<forall>obs'. r = Ok obs' \<longrightarrow> (\<exists>rs. length rs = Suc n
         \<and> calls @ more = map (\<lambda>x. Ran c v (Ok x)) rs \<and> obs' = obs @ map from_single rs)))"
    proof (rule spec_mono [OF Suc.IH])
      fix r more
      assume IH: "list_all pipeline_call more \<and> (\<forall>obs'. r = Ok obs' \<longrightarrow> (\<exists>rs. length rs = n
         \<and> more = map (\<lambda>x. Ran c v (Ok x)) rs \<and> obs' = (obs @ [from_single x]) @ map from_single rs))"
      have "\<exists>rs. length rs = Suc n \<and> calls @ more = map (\<lambda>x. Ran c v (Ok x)) rs \<and> obs' = obs @ map from_single rs"
        if "r = Ok obs'" for obs'
      proof -
        from IH that obtain rs where "length rs = n" "more = map (\<lambda>x. Ran c v (Ok x)) rs"
          "obs' = (obs @ [from_single x]) @ map from_single rs" by blast
        then show ?thesis by (intro exI [of _ "x # rs"]) (simp add: c)
      qed
      then show "list_all pipeline_call (calls @ more) \<and> (\<forall>obs'. r = Ok obs' \<longrightarrow> (\<exists>rs. length rs = Suc n
         \<and> calls @ more = map (\<lambda>x. Ran c v (Ok x)) rs \<and> obs' = obs @ map from_single rs))"
        using IH c assms by simp
    qed
  qed (use assms in simp)
qed

lemma spec_flake_single:
  assumes "vr_ok (validate_candidate (tc_source c))"
  shows "spec (flake_filter_single (logged_executor ex) c v cfg)
    (\<lambda>r calls. list_all pipeline_call calls \<and> (\<forall>rep. r = Ok rep \<longrightarrow> (\<exists>rs. length rs = unat (fl_reruns cfg) + 1
       \<and> calls = map (\<lambda>x. Ran c v (Ok x)) rs \<and> rep = flake_report_of (map from_single rs))))"
  unfolding flake_filter_single_def
  by (rule spec_bind [OF spec_flake_single_trials [OF assms]]) (auto intro!: spec_return)

definition paired_runs :: "test_candidate \<Rightarrow> catch_execution list \<Rightarrow> call list" where
  "paired_runs c es = concat (map (\<lambda>e. [Ran c Base (Ok (ce_base e)), Ran c Head (Ok (ce_head e))]) es)"

lemma paired_runs_simps [simp]:
  "paired_runs c [] = []"
  "paired_runs c (e # es) = Ran c Base (Ok (ce_base e)) # Ran c Head (Ok (ce_head e)) # paired_runs c es"
  "paired_runs c (es @ fs) = paired_runs c es @ paired_runs c fs"
  by (simp_all add: paired_runs_def)

lemma spec_flake_catch_trials:
  assumes "vr_ok (validate_candidate (tc_source c))"
  shows "spec (flake_catch_trials (logged_executor ex) c n obs)
    (\<lambda>r calls. list_all pipeline_call calls \<and> (\<forall>obs'. r = Ok obs' \<longrightarrow> (\<exists>es. length es = n
       \<and> calls = paired_runs c es \<and> obs' = obs @ map from_catch es)))"
proof (induction n arbitrary: obs)
  case 0
  show ?case unfolding flake_catch_trials.simps by (rule spec_return) simp
next
  case (Suc n)
  show ?case
    unfolding flake_catch_trials.simps
  proof (rule spec_bind [OF spec_run_candidate], use assms in simp)
    fix b calls
    assume b: "calls = [Ran c Base (Ok b)]"
    show "spec (\<lambda>w. case run_candidate (logged_executor ex) c Head w of (Err e, w) \<Rightarrow> (Err (FbExecution e), w)
        | (Ok h, w) \<Rightarrow> flake_catch_trials (logged_executor ex) c n (obs @ [from_catch \<lparr>ce_base = b, ce_head = h\<rparr>]) w)
      (\<lambda>r more. list_all pipeline_call (calls @ more) \<and> (\<forall>obs'. r = Ok obs' \<longrightarrow> (\<exists>es. length es = Suc n
         \<and> calls @ more = paired_runs c es \<and> obs' = obs @ map from_catch es)))"
    proof (rule spec_bind [OF spec_run_candidate], use assms b in simp)
      fix h more
      assume h: "more = [Ran c Head (Ok h)]"
      let ?e = "\<lparr>ce_base = b, ce_head = h\<rparr>"
      show "spec (flake_catch_trials (logged_executor ex) c n (obs @ [from_catch ?e]))
        (\<lambda>r rest. list_all pipeline_call (calls @ more @ rest) \<and> (\<forall>obs'. r = Ok obs' \<longrightarrow> (\<exists>es. length es = Suc n
           \<and> calls @ more @ rest = paired_runs c es \<and> obs' = obs @ map from_catch es)))"
      proof (rule spec_mono [OF Suc.IH])
        fix r rest
        assume IH: "list_all pipeline_call rest \<and> (\<forall>obs'. r = Ok obs' \<longrightarrow> (\<exists>es. length es = n
           \<and> rest = paired_runs c es \<and> obs' = (obs @ [from_catch ?e]) @ map from_catch es))"
        have "\<exists>es. length es = Suc n \<and> calls @ more @ rest = paired_runs c es \<and> obs' = obs @ map from_catch es"
          if "r = Ok obs'" for obs'
        proof -
          from IH that obtain es where "length es = n" "rest = paired_runs c es"
            "obs' = (obs @ [from_catch ?e]) @ map from_catch es" by blast
          then show ?thesis by (intro exI [of _ "?e # es"]) (simp add: b h)
        qed
        then show "list_all pipeline_call (calls @ more @ rest) \<and> (\<forall>obs'. r = Ok obs' \<longrightarrow> (\<exists>es. length es = Suc n
           \<and> calls @ more @ rest = paired_runs c es \<and> obs' = obs @ map from_catch es))"
          using IH b h assms by simp
      qed
    qed
  qed
qed

lemma spec_flake_catch:
  assumes "vr_ok (validate_candidate (tc_source c))"
  shows "spec (flake_filter_catch (logged_executor ex) c cfg)
    (\<lambda>r calls. list_all pipeline_call calls \<and> (\<forall>rep. r = Ok rep \<longrightarrow> (\<exists>es. length es = unat (fl_reruns cfg) + 1
       \<and> calls = paired_runs c es \<and> rep = flake_report_of (map from_catch es))))"
  unfolding flake_filter_catch_def
  by (rule spec_bind [OF spec_flake_catch_trials [OF assms]]) (auto intro!: spec_return)

section \<open>Properties\<close>

text \<open>
  C4: What the repair loop does to the outside world. Whatever the provider answers and the executor
  reports, every candidate the loop executes has passed the static validation, it never runs the
  existing suite, it runs at most two executions and asks the provider at most once per attempt,
  and every request it sends carries a feedback that reads as exactly one data block.
\<close>

theorem repair_loop_calls:
  "\<exists>calls. snd (snd (repair_loop rx (logged_provider p) (logged_executor ex) initial template mode cfg (w, []))) = calls
     \<and> (\<forall>c v r. Ran c v r \<in> set calls \<longrightarrow> vr_ok (validate_candidate (tc_source c)))
     \<and> (\<forall>v r. RanExisting v r \<notin> set calls)
     \<and> (\<forall>req. Asked req \<in> set calls \<longrightarrow> (\<exists>f h b. rq_repair_feedback req = Some f
           \<and> read_blocks FENCE_OPEN FENCE_CLOSE None (split_on LF f) = [(h, b)]))
     \<and> runs calls \<le> 2 * unat (rc_max_attempts cfg) \<and> asks calls \<le> unat (rc_max_attempts cfg)"
proof -
  obtain calls where calls: "snd (snd (repair_loop rx (logged_provider p) (logged_executor ex) initial template mode cfg (w, []))) = calls"
    "log_bounded rx (unat (rc_max_attempts cfg)) calls"
    using repair_loop_log [of rx p ex initial template mode cfg w "[]"] by auto
  have safe: "safe_call (feedback_texts rx) k" if "k \<in> set calls" for k
    using calls(2) that by (auto simp: log_bounded_def list_all_iff)
  have "\<exists>f h b. rq_repair_feedback req = Some f \<and> read_blocks FENCE_OPEN FENCE_CLOSE None (split_on LF f) = [(h, b)]"
    if "Asked req \<in> set calls" for req
    using safe [OF that] fenced_pre_redacted_reads by (fastforce simp: feedback_texts_def fenced_feedback_def)
  moreover have "vr_ok (validate_candidate (tc_source c))" if "Ran c v r \<in> set calls" for c v r
    using safe [OF that] by simp
  moreover have "RanExisting v r \<notin> set calls" for v r using safe by fastforce
  ultimately show ?thesis using calls by (auto simp: log_bounded_def)
qed

text \<open>
  C6: What the loop reports. An accepted candidate is validated and reached the goal of its mode
  within the allowed attempts; an exhausted one is validated and missed it on the last attempt; a
  rejected one failed the validation and is reported as broken. The candidate keeps the target and
  the path of the initial one.
\<close>

theorem repair_loop_report:
  assumes "repair_loop rx provider ex initial template mode cfg w = (Ok r, w')"
  shows "report_ok mode (unat (rc_max_attempts cfg)) r
    \<and> tc_target (rp_candidate r) = tc_target initial \<and> tc_rel_path (rp_candidate r) = tc_rel_path initial"
  using repair_loop_ok [OF assms] .

definition sample_candidate :: test_candidate where
  "sample_candidate = \<lparr>tc_target = ''t'', tc_rel_path = ''t.rs'', tc_source = ''ok()'', tc_test_name = None, tc_attempt = 0\<rparr>"

definition sample_request :: llm_request where
  "sample_request = \<lparr>rq_prompt = \<lparr>pr_system = [], pr_user = []\<rparr>, rq_mode = Harden, rq_strategy = StrategyHarden,
     rq_language = ''rust'', rq_symbol = None, rq_attempt = 0, rq_repair_feedback = None\<rparr>"

definition passing_run :: execution_result where
  "passing_run = \<lparr>er_outcome = Passed, er_exit_code = Some 0, er_duration_ms = 1, er_truncated = False, er_stdout = [], er_stderr = []\<rparr>"

definition passing_executor :: "unit executor" where
  "passing_executor = \<lparr>run_candidate = (\<lambda>_ _ w. (Ok passing_run, w)), run_existing = (\<lambda>_ w. (Ok passing_run, w))\<rparr>"

theorem repair_loop_calls_witness:
  "Ran sample_candidate Head (Ok passing_run) \<in> set (snd (snd (repair_loop (\<lambda>_ _. []) (logged_provider (recorded_generate []))
       (logged_executor passing_executor) sample_candidate sample_request Harden default_repair ((), []))))
   \<and> vr_ok (validate_candidate (tc_source sample_candidate))"
proof -
  have src: "tc_source sample_candidate = ''ok()''" by (simp add: sample_candidate_def)
  have three: "unat (rc_max_attempts default_repair) = Suc 2" by (simp add: default_repair_def)
  have "snd (snd (repair_loop (\<lambda>_ _. []) (logged_provider (recorded_generate [])) (logged_executor passing_executor)
      sample_candidate sample_request Harden default_repair ((), []))) = [Ran sample_candidate Head (Ok passing_run)]"
    unfolding repair_loop_def three repair_attempts.simps
    by (simp add: default_repair_def next_candidate_def src validate_ok_sample trial_def passing_executor_def
        logged_executor_def classify_single_def from_single_def passing_run_def goal_reached_def)
  with repair_loop_calls [of "\<lambda>_ _. []" "recorded_generate []" passing_executor sample_candidate sample_request Harden default_repair "()"]
  show ?thesis by auto
qed

theorem repair_loop_report_witness:
  "report_ok Harden (unat (rc_max_attempts default_repair))
     \<lparr>rp_outcome = Accepted, rp_candidate = sample_candidate, rp_classified = classify_single passing_run, rp_attempts = 1\<rparr>
   \<and> tc_target sample_candidate = tc_target sample_candidate \<and> tc_rel_path sample_candidate = tc_rel_path sample_candidate"
proof -
  have src: "tc_source sample_candidate = ''ok()''" by (simp add: sample_candidate_def)
  have three: "unat (rc_max_attempts default_repair) = Suc 2" by (simp add: default_repair_def)
  have "repair_loop (\<lambda>_ _. []) (recorded_generate []) passing_executor sample_candidate sample_request Harden default_repair ()
    = (Ok \<lparr>rp_outcome = Accepted, rp_candidate = sample_candidate, rp_classified = classify_single passing_run, rp_attempts = 1\<rparr>, ())"
    unfolding repair_loop_def three repair_attempts.simps
    by (simp add: default_repair_def next_candidate_def src validate_ok_sample trial_def passing_executor_def
        classify_single_def from_single_def passing_run_def goal_reached_def)
  from repair_loop_report [OF this] show ?thesis by simp
qed

text \<open>
  C26: Minimisation ends in a one-minimal test. When the answer depends on the candidate only and
  the budget exceeds \<open>n (n + 1)\<close> probes for \<open>n\<close> lines, the result is a subsequence of the lines
  from which no further line can be dropped, and if it differs from the original it is itself
  interesting.
\<close>

theorem minimize_one_minimal:
  assumes "pure_probe still P" "length (lines (tc_source c)) * (length (lines (tc_source c)) + 1) < unat (mn_max_probes cfg)"
  shows "\<exists>c' w' ls. minimize c still cfg w = (Ok c', w') \<and> subseq ls (lines (tc_source c)) \<and> one_minimal P c ls
    \<and> (c' = c \<and> ls = lines (tc_source c) \<or> c' = with_source c (join [LF] ls) \<and> P c')"
proof -
  have "0 + length (lines (tc_source c)) * (length (lines (tc_source c)) + 1) < unat (mn_max_probes cfg)"
    using assms(2) by simp
  from minimize_loop_fixpoint [where rm = False and w = w and c = c, OF assms(1) this]
  obtain ls rm w' where run: "minimize_loop still c (unat (mn_max_probes cfg)) (lines (tc_source c), 0, False) w = (Ok (ls, rm), w')"
    and minimal: "one_minimal P c ls" by (elim exE conjE)
  have sound: "subseq ls (lines (tc_source c))" "rm \<longrightarrow> accepted still c ls" "\<not> rm \<longrightarrow> ls = lines (tc_source c)"
    using minimize_loop_sound [OF run] by auto
  have P: "accepted still c ls \<Longrightarrow> P (with_source c (join [LF] ls))"
    using assms(1) unfolding accepted_def pure_probe_def by (metis fst_conv sum.inject(2))
  have "minimize c still cfg w = (Ok (if rm then with_source c (join [LF] ls) else c), w')"
    by (simp add: minimize_def run)
  with sound P minimal show ?thesis by (cases rm) auto
qed

theorem minimize_one_minimal_witness:
  "\<exists>c' w' ls. minimize sample_candidate (\<lambda>_ w. (Ok False, w)) default_minimize () = (Ok c', w')
    \<and> subseq ls (lines (tc_source sample_candidate)) \<and> one_minimal (\<lambda>_. False) sample_candidate ls
    \<and> (c' = sample_candidate \<and> ls = lines (tc_source sample_candidate) \<or> c' = with_source sample_candidate (join [LF] ls) \<and> False)"
proof (rule minimize_one_minimal)
  have "lines (tc_source sample_candidate) = [''ok()'']" by code_simp
  then show "length (lines (tc_source sample_candidate)) * (length (lines (tc_source sample_candidate)) + 1)
      < unat (mn_max_probes default_minimize)" by (simp add: default_minimize_def)
qed (simp add: pure_probe_def)

text \<open>
  The probe budget is a bound: whatever the predicate answers or however it fails, it is
  evaluated at most \<open>max_probes\<close> times.
\<close>

theorem minimize_probe_bound:
  "snd (snd (minimize c (counted still) cfg (w, 0))) \<le> unat (mn_max_probes cfg)"
  using minimize_loop_count [of "(w, 0)" 0 "unat (mn_max_probes cfg)" still c "lines (tc_source c)" False]
  by (auto simp: minimize_def split: prod.splits sum.splits)

text \<open>
  The flake filter is unanimous. A report of the catch filter has one observation per rerun and
  the first run, and its class is that of a weak catch exactly when every observation is one.
\<close>

theorem flake_filter_catch_unanimous:
  assumes "flake_filter_catch ex c cfg w = (Ok r, w')"
  shows "length (fr_observed r) = unat (fl_reruns cfg) + 1
    \<and> (flake_class r = WeakCatch \<longleftrightarrow> (\<forall>k \<in> set (fr_observed r). k = WeakCatch))"
proof -
  from assms obtain obs where run: "flake_catch_trials ex c (unat (fl_reruns cfg) + 1) [] w = (Ok obs, w')"
    and r: "r = flake_report_of obs"
    by (auto simp: flake_filter_catch_def split: prod.splits sum.splits)
  from flake_catch_trials_length [OF run] have "length obs = unat (fl_reruns cfg) + 1" by simp
  moreover have "obs \<noteq> []" using calculation by auto
  moreover have "fr_observed r = obs" by (simp add: r flake_report_of_def)
  ultimately show ?thesis using flake_class_eq [of WeakCatch obs] r by simp
qed

theorem flake_filter_catch_unanimous_witness:
  "length (fr_observed (flake_report_of [NoCatch, NoCatch, NoCatch])) = unat (fl_reruns default_flake) + 1
    \<and> (flake_class (flake_report_of [NoCatch, NoCatch, NoCatch]) = WeakCatch
       \<longleftrightarrow> (\<forall>k \<in> set (fr_observed (flake_report_of [NoCatch, NoCatch, NoCatch])). k = WeakCatch))"
proof (rule flake_filter_catch_unanimous)
  have three: "unat (fl_reruns default_flake) + 1 = Suc (Suc (Suc 0))" by (simp add: default_flake_def)
  show "flake_filter_catch passing_executor sample_candidate default_flake ()
      = (Ok (flake_report_of [NoCatch, NoCatch, NoCatch]), ())"
    unfolding flake_filter_catch_def three
    by (simp add: passing_executor_def passing_run_def from_catch_def passed_def)
qed

end
