(* ===== verification/Assess.thy ===== *)
theory Assess
  imports Feedback
begin

text \<open>
  \<open>jitgen-feedback/src/assess\<close> and the request builder of \<open>llmstep.rs\<close>: the assessment of a weak
  catch. Deterministic rules give a gate and a ceiling on the probability; a model acting as judge
  can only lower it. The JSON parser is a parameter.
\<close>

section \<open>The code\<close>

definition step_request :: "prompt \<Rightarrow> run_mode \<Rightarrow> strategy \<Rightarrow> str \<Rightarrow> str option \<Rightarrow> llm_request" where
  "step_request p mode s language symbol =
     \<lparr>rq_prompt = p, rq_mode = mode, rq_strategy = s, rq_language = language, rq_symbol = symbol,
      rq_attempt = 0, rq_repair_feedback = None\<rparr>"

subsection \<open>\<open>rules.rs\<close>\<close>

definition f0_5 :: f64 where "f0_5 = Fin (1 / 2)"

definition GATE_HEAD_SIGNAL_MIN :: f64 where "GATE_HEAD_SIGNAL_MIN = fone"

definition ASSERTION_MARKERS :: "str list" where
  "ASSERTION_MARKERS =
     [''assert'', ''assertion'', ''panicked'', ''expected'', ''to equal'', ''to be'', ''expect('', ''should be'', ''did not'']"

definition ENV_MARKERS :: "str list" where
  "ENV_MARKERS =
     [''command not found'', ''no such file'', ''modulenotfounderror'', ''cannot find module'',
      ''importerror'', ''could not compile'', ''connection refused'', ''permission denied'',
      ''name or service not known'', ''network is unreachable'']"

record rule_assessment =
  ra_gate_pass :: bool
  ra_probability :: f64
  ra_signals :: "assessor_signal list"

definition evidence_clean :: "catch_execution \<Rightarrow> bool" where
  "evidence_clean e \<longleftrightarrow> passed (ce_base e) \<and> er_outcome (ce_head e) = Failed"

definition head_blob :: "catch_execution \<Rightarrow> str" where
  "head_blob e = to_ascii_lowercase (er_stdout (ce_head e)) @ [LF] @ to_ascii_lowercase (er_stderr (ce_head e))"

definition head_signal :: "catch_execution \<Rightarrow> f64" where
  "head_signal e =
     (let blob = head_blob e;
          has_env = list_ex (contains blob) ENV_MARKERS;
          has_assert = list_ex (contains blob) ASSERTION_MARKERS in
      if has_env then f0_2 else if has_assert then fone else f0_5)"

text \<open>A product with factors 0 and 1 but one is exact.\<close>

fun fmul :: "f64 \<Rightarrow> f64 \<Rightarrow> f64" where
  "fmul (Fin a) (Fin b) = Fin (a * b)"
| "fmul _ _ = NaN"

definition assess_rules :: "catch_execution \<Rightarrow> bool \<Rightarrow> rule_assessment" where
  "assess_rules e stb =
     (let clean = evidence_clean e;
          evidence = (if clean then fone else fzero);
          stability = (if stb then fone else fzero);
          hsig = head_signal e in
      \<lparr>ra_gate_pass = (clean \<and> stb \<and> fle GATE_HEAD_SIGNAL_MIN hsig),
       ra_probability = fmul (fmul evidence stability) hsig,
       ra_signals =
         [\<lparr>as_assessor = ''rule:evidence'', as_score = evidence,
           as_rationale = (if clean then ''base passed and head failed an assertion (clean weak-catch evidence)''
                           else ''head did not fail as a clean assertion over a passing base'')\<rparr>,
          \<lparr>as_assessor = ''rule:stability'', as_score = stability,
           as_rationale = (if stb then ''observed class was stable across the flake filter''
                           else ''observed class was not stable across the flake filter'')\<rparr>,
          \<lparr>as_assessor = ''rule:head_signal'', as_score = hsig,
           as_rationale = (if fle fone hsig then ''head output resembles a genuine assertion/behavioral failure''
                           else if fle hsig f0_2 then ''head output resembles an environment/harness problem, not a bug''
                           else ''head failure signal is ambiguous'')\<rparr>]\<rparr>)"

subsection \<open>\<open>judge.rs\<close>\<close>

datatype json = JNull | JBool bool | JNum f64 | JStr str | JArr "json list" | JObj "(str \<times> json) list"

type_synonym json_parser = "str \<Rightarrow> json option"

definition NEUTRAL_SCORE :: f64 where "NEUTRAL_SCORE = fone"
definition MAX_RATIONALE :: nat where "MAX_RATIONALE = 240"

record judge_signal =
  js_score :: f64
  js_rationale :: str

definition neutral_signal :: "str \<Rightarrow> judge_signal" where
  "neutral_signal r = \<lparr>js_score = NEUTRAL_SCORE, js_rationale = r\<rparr>"

definition json_get :: "json \<Rightarrow> str \<Rightarrow> json option" where
  "json_get v k = (case v of JObj kvs \<Rightarrow> map_of kvs k | _ \<Rightarrow> None)"

definition is_finite :: "f64 \<Rightarrow> bool" where
  "is_finite x = (case x of Fin _ \<Rightarrow> True | _ \<Rightarrow> False)"

definition parse_probability :: "json \<Rightarrow> f64 option" where
  "parse_probability v =
     (case json_get v ''tp_probability'' of
        Some (JNum n) \<Rightarrow> if \<not> is_finite n then None else Some (fclamp n fzero fone)
      | _ \<Rightarrow> None)"

definition parse_rationale :: "regex_engine \<Rightarrow> json \<Rightarrow> str" where
  "parse_rationale rx v =
     (let raw = (case json_get v ''rationale'' of Some (JStr s) \<Rightarrow> s | _ \<Rightarrow> []) in
      concat (take MAX_RATIONALE (map (\<lambda>c. if is_control c then '' '' else c) (chars (rd_text (redact rx raw))))))"

definition judge :: "regex_engine \<Rightarrow> json_parser \<Rightarrow> 'w provider \<Rightarrow> str \<Rightarrow> 'w \<Rightarrow> judge_signal \<times> 'w" where
  "judge rx js provider evidence w =
     (case provider (step_request (judge_prompt rx evidence) Catch IntentAware ''assessment'' None) w of
        (Err _, w) \<Rightarrow> (neutral_signal ''llm judge unavailable; using deterministic rules only'', w)
      | (Ok resp, w) \<Rightarrow>
          (case js (extract_code (rs_raw resp)) of
             Some v \<Rightarrow>
               (\<lparr>js_score = (case parse_probability v of None \<Rightarrow> NEUTRAL_SCORE | Some p \<Rightarrow> p),
                 js_rationale = parse_rationale rx v\<rparr>, w)
           | None \<Rightarrow> (neutral_signal ''unparseable judge output (not strict JSON); using rules only'', w)))"

subsection \<open>\<open>mod.rs\<close>\<close>

definition MAX_EVIDENCE :: nat where "MAX_EVIDENCE = 4000"

record assess_config =
  ac_strong_threshold :: f64
  ac_weak_threshold :: f64

definition default_assess :: assess_config where
  "default_assess = \<lparr>ac_strong_threshold = f0_8, ac_weak_threshold = f0_2\<rparr>"

definition sane :: "assess_config \<Rightarrow> assess_config" where
  "sane c = \<lparr>ac_strong_threshold = fclamp (ac_strong_threshold c) fzero fone,
            ac_weak_threshold = fclamp (ac_weak_threshold c) fzero fone\<rparr>"

definition build_evidence :: "regex_engine \<Rightarrow> catch_execution \<Rightarrow> context_bundle option \<Rightarrow> str" where
  "build_evidence rx e ctx =
     (let s = ''observed base='' @ outcome_debug (er_outcome (ce_base e)) @ '' head=''
            @ outcome_debug (er_outcome (ce_head e)) @ [LF] @ ''head output:'' @ [LF]
            @ er_stdout (ce_head e) @ [LF] @ er_stderr (ce_head e);
          s = s @ (case ctx of
                     None \<Rightarrow> []
                   | Some cx \<Rightarrow> concat (map (\<lambda>i. if ci_kind i = DiffSummary
                        then [LF] @ ''diff summary:'' @ [LF] @ ci_content i else []) (cx_items cx))) in
      concat (take MAX_EVIDENCE (chars (rd_text (redact rx s)))))"

fun decision_debug :: "catch_decision \<Rightarrow> str" where
  "decision_debug StrongCatch = ''StrongCatch''"
| "decision_debug StrictlyWeak = ''StrictlyWeak''"
| "decision_debug Uncertain = ''Uncertain''"

text \<open>\<open>{:.2}\<close>: two decimals, rounding the exact value half to even.\<close>

definition round_half_even :: "rat \<Rightarrow> int" where
  "round_half_even r =
     (let n = floor r; d = r - of_int n in
      if d < 1 / 2 then n else if 1 / 2 < d then n + 1 else if even n then n else n + 1)"

fun show_f2 :: "f64 \<Rightarrow> str" where
  "show_f2 NaN = ''NaN''"
| "show_f2 PInf = ''inf''"
| "show_f2 NInf = ''-inf''"
| "show_f2 (Fin r) =
     (let n = nat (round_half_even (100 * \<bar>r\<bar>)) in
      (if r < 0 then ''-'' else []) @ show_nat (n div 100) @ ''.''
      @ [digit_char (n div 10 mod 10), digit_char (n mod 10)])"

definition bool_str :: "bool \<Rightarrow> str" where
  "bool_str b = (if b then ''true'' else ''false'')"

definition assess ::
  "regex_engine \<Rightarrow> json_parser \<Rightarrow> catch_execution \<Rightarrow> bool \<Rightarrow> context_bundle option \<Rightarrow> 'w provider option
     \<Rightarrow> assess_config \<Rightarrow> 'w \<Rightarrow> weak_catch_assessment \<times> 'w" where
  "assess rx js e stb ctx judge_provider cfg0 w =
     (let cfg = sane cfg0;
          rule = assess_rules e stb;
          (j, w) = (case judge_provider of
             Some p \<Rightarrow> judge rx js p (build_evidence rx e ctx) w
           | None \<Rightarrow> (neutral_signal ''llm judge not consulted'', w));
          combined = fclamp (fmin (ra_probability rule) (js_score j)) fzero fone;
          decision =
            (if ra_gate_pass rule \<and> fle (ac_strong_threshold cfg) combined then StrongCatch
             else if fle combined (ac_weak_threshold cfg) then StrictlyWeak
             else Uncertain);
          signals = ra_signals rule @ [\<lparr>as_assessor = ''llm:judge'', as_score = js_score j, as_rationale = js_rationale j\<rparr>];
          rationale = rd_text (redact rx
            (''decision='' @ decision_debug decision @ ''; tp_probability='' @ show_f2 combined
             @ ''; rule_gate_pass='' @ bool_str (ra_gate_pass rule) @ ''; rule_probability='' @ show_f2 (ra_probability rule)
             @ ''; judge_score='' @ show_f2 (js_score j)
             @ '' (the LLM judge can only lower confidence, never raise it or pass the gate).'')) in
      (\<lparr>wa_tp_probability = combined, wa_bucket = from_probability combined, wa_decision = decision,
        wa_rationale = rationale, wa_signals = signals\<rparr>, w))"

section \<open>Lemmas\<close>

lemma head_signal_values: "head_signal e \<in> {f0_2, f0_5, fone}"
  by (simp add: head_signal_def Let_def)

lemma ra_probability_eq:
  "ra_probability (assess_rules e stb) = (if evidence_clean e \<and> stb then head_signal e else fzero)"
  using head_signal_values [of e] by (auto simp: assess_rules_def Let_def f0_2_def f0_5_def)

lemma ra_gate_pass_eq:
  "ra_gate_pass (assess_rules e stb) \<longleftrightarrow> evidence_clean e \<and> stb
     \<and> \<not> list_ex (contains (head_blob e)) ENV_MARKERS \<and> list_ex (contains (head_blob e)) ASSERTION_MARKERS"
  by (auto simp: assess_rules_def head_signal_def Let_def GATE_HEAD_SIGNAL_MIN_def f0_2_def f0_5_def)

lemma gate_probability: "ra_gate_pass (assess_rules e stb) \<Longrightarrow> ra_probability (assess_rules e stb) = fone"
  by (auto simp: ra_gate_pass_eq ra_probability_eq head_signal_def)

lemma fclamp_unit: "x \<noteq> NaN \<Longrightarrow> fle fzero (fclamp x fzero fone) \<and> fle (fclamp x fzero fone) fone"
  by (cases x) (auto simp: fclamp_def flt_def Let_def)

lemma rule_probability_unit:
  "\<exists>r. ra_probability (assess_rules e stb) = Fin r \<and> 0 \<le> r \<and> r \<le> 1"
  using head_signal_values [of e] by (auto simp: ra_probability_eq f0_2_def f0_5_def)

lemma judge_score_unit: "\<exists>r. js_score (fst (judge rx js p ev w)) = Fin r \<and> 0 \<le> r \<and> r \<le> 1"
proof -
  have "\<exists>r. fclamp (Fin n) fzero fone = Fin r \<and> 0 \<le> r \<and> r \<le> 1" for n
    by (auto simp: fclamp_def flt_def Let_def)
  then have "\<exists>r. q = Fin r \<and> 0 \<le> r \<and> r \<le> 1" if "parse_probability v = Some q" for v q
    using that by (auto simp: parse_probability_def is_finite_def split: option.splits json.splits if_splits f64.splits)
  then show ?thesis
    by (auto simp: judge_def neutral_signal_def NEUTRAL_SCORE_def split: prod.splits sum.splits option.splits)
qed

text \<open>The score that enters the decision, whoever judges.\<close>

definition judge_part :: "regex_engine \<Rightarrow> json_parser \<Rightarrow> catch_execution \<Rightarrow> context_bundle option \<Rightarrow> 'w provider option \<Rightarrow> 'w \<Rightarrow> judge_signal \<times> 'w" where
  "judge_part rx js e ctx jp w = (case jp of
     Some p \<Rightarrow> judge rx js p (build_evidence rx e ctx) w
   | None \<Rightarrow> (neutral_signal ''llm judge not consulted'', w))"

lemma judge_part_unit: "\<exists>r. js_score (fst (judge_part rx js e ctx jp w)) = Fin r \<and> 0 \<le> r \<and> r \<le> 1"
  using judge_score_unit by (auto simp: judge_part_def neutral_signal_def NEUTRAL_SCORE_def split: option.splits)

lemma assess_eqs:
  "wa_tp_probability (fst (assess rx js e stb ctx jp cfg w))
     = fclamp (fmin (ra_probability (assess_rules e stb)) (js_score (fst (judge_part rx js e ctx jp w)))) fzero fone"
  "wa_decision (fst (assess rx js e stb ctx jp cfg w)) =
     (if ra_gate_pass (assess_rules e stb)
         \<and> fle (ac_strong_threshold (sane cfg)) (wa_tp_probability (fst (assess rx js e stb ctx jp cfg w))) then StrongCatch
      else if fle (wa_tp_probability (fst (assess rx js e stb ctx jp cfg w))) (ac_weak_threshold (sane cfg)) then StrictlyWeak
      else Uncertain)"
  by (simp_all add: assess_def Let_def judge_part_def split: prod.splits)

lemma tp_probability_min:
  "\<exists>r s. ra_probability (assess_rules e stb) = Fin r \<and> js_score (fst (judge_part rx js e ctx jp w)) = Fin s
     \<and> wa_tp_probability (fst (assess rx js e stb ctx jp cfg w)) = Fin (min r s) \<and> 0 \<le> min r s \<and> min r s \<le> 1"
  using rule_probability_unit [of e stb] judge_part_unit [of rx js e ctx jp w]
  by (auto simp: assess_eqs(1) fmin_def fclamp_def flt_def Let_def min_def)

section \<open>Properties\<close>

text \<open>
  C8: A strong catch needs deterministic evidence. The decision is \<open>StrongCatch\<close> exactly when the
  base passed and the head failed, the class was stable, the head's output shows an assertion
  and no environment problem, and the combined probability reaches the clamped threshold. Nothing
  the judge says enters the first three.
\<close>

theorem strong_catch_iff:
  "wa_decision (fst (assess rx js e stb ctx jp cfg w)) = StrongCatch \<longleftrightarrow>
     from_catch e = WeakCatch \<and> stb
     \<and> \<not> list_ex (contains (head_blob e)) ENV_MARKERS \<and> list_ex (contains (head_blob e)) ASSERTION_MARKERS
     \<and> fle (fclamp (ac_strong_threshold cfg) fzero fone) (wa_tp_probability (fst (assess rx js e stb ctx jp cfg w)))"
  by (subst assess_eqs(2)) (auto simp: ra_gate_pass_eq sane_def from_catch_WeakCatch evidence_clean_def)

text \<open>
  C18: The judge can only lower. Whatever a judge answers, the probability is at most the one the
  rules alone give, and a catch that is not strong without a judge is not strong with one.
\<close>

theorem judge_only_lowers:
  "fle (wa_tp_probability (fst (assess rx js e stb ctx (Some p) cfg w)))
       (wa_tp_probability (fst (assess rx js e stb ctx (None :: 'w provider option) cfg w)))
   \<and> (wa_decision (fst (assess rx js e stb ctx (Some p) cfg w)) = StrongCatch
      \<longrightarrow> wa_decision (fst (assess rx js e stb ctx (None :: 'w provider option) cfg w)) = StrongCatch)"
proof -
  obtain r s where with_judge: "ra_probability (assess_rules e stb) = Fin r"
    "wa_tp_probability (fst (assess rx js e stb ctx (Some p) cfg w)) = Fin (min r s)"
    using tp_probability_min [of e stb rx js ctx "Some p" w cfg] by blast
  obtain s' where no_judge: "js_score (fst (judge_part rx js e ctx (None :: 'w provider option) w)) = Fin s'"
    "wa_tp_probability (fst (assess rx js e stb ctx (None :: 'w provider option) cfg w)) = Fin (min r s')"
    using tp_probability_min [of e stb rx js ctx "None :: 'w provider option" w cfg] with_judge(1) by auto
  have "s' = 1" using no_judge(1) by (simp add: judge_part_def neutral_signal_def NEUTRAL_SCORE_def)
  moreover have "r \<le> 1" using rule_probability_unit [of e stb] with_judge(1) by auto
  ultimately have le: "fle (wa_tp_probability (fst (assess rx js e stb ctx (Some p) cfg w)))
       (wa_tp_probability (fst (assess rx js e stb ctx (None :: 'w provider option) cfg w)))"
    using with_judge(2) no_judge(2) by (simp add: min_def)
  moreover have "wa_decision (fst (assess rx js e stb ctx (None :: 'w provider option) cfg w)) = StrongCatch"
    if "wa_decision (fst (assess rx js e stb ctx (Some p) cfg w)) = StrongCatch"
    using that le unfolding assess_eqs(2) by (auto intro: fle_trans split: if_splits)
  ultimately show ?thesis by blast
qed

theorem judge_only_lowers_witness:
  "fle (wa_tp_probability (fst (assess (\<lambda>_ _. []) (\<lambda>_. None) \<lparr>ce_base = passing_run, ce_head = passing_run\<rparr> True None
          (Some (recorded_generate [])) default_assess ())))
       (wa_tp_probability (fst (assess (\<lambda>_ _. []) (\<lambda>_. None) \<lparr>ce_base = passing_run, ce_head = passing_run\<rparr> True None
          (None :: unit provider option) default_assess ())))"
  using judge_only_lowers [where e = "\<lparr>ce_base = passing_run, ce_head = passing_run\<rparr>" and p = "recorded_generate []" and w = "()"] by blast

end
