(* ===== verification/Strategies.thy ===== *)
theory Strategies
  imports Assess
begin

text \<open>
  \<open>jitgen-feedback/src/llmstep.rs\<close> and \<open>jitgen-feedback/src/strategy\<close>: parsing of risks and
  mutants, generation by strategy, and the intent-aware pipeline (risks, mutants, killing tests,
  replay on head).
\<close>

section \<open>The code\<close>

subsection \<open>\<open>llmstep.rs\<close>\<close>

definition MAX_RISKS :: nat where "MAX_RISKS = 24"
definition MAX_RISK_CHARS :: nat where "MAX_RISK_CHARS = 200"
definition MAX_MUTANTS :: nat where "MAX_MUTANTS = 16"
definition MAX_MUTANT_DIFF_CHARS :: nat where "MAX_MUTANT_DIFF_CHARS = 8 * 1024"
definition MAX_PATH_CHARS :: nat where "MAX_PATH_CHARS = 512"

definition take_chars :: "nat \<Rightarrow> str \<Rightarrow> str" where
  "take_chars n s = concat (take n (chars s))"

text \<open>The loop over the lines: a fence opens a block, which the next fence or the end closes.\<close>

function blocks_of :: "str list \<Rightarrow> str list" where
  "blocks_of [] = []"
| "blocks_of (l # ls) =
     (if is_fence l then
        trim_end (join [LF] (takeWhile (\<lambda>l. \<not> is_fence l) ls)) # blocks_of (drop 1 (dropWhile (\<lambda>l. \<not> is_fence l) ls))
      else blocks_of ls)"
  by pat_completeness auto
termination
  by (relation "measure length") (auto simp: le_imp_less_Suc le_diff_conv length_dropWhile_le le_SucI)

definition fenced_blocks :: "str \<Rightarrow> str list" where
  "fenced_blocks raw = blocks_of (lines (char_prefix raw MAX_RAW_BYTES))"

definition parse_risks :: "regex_engine \<Rightarrow> str \<Rightarrow> str list" where
  "parse_risks rx raw =
     (case fenced_blocks raw of
        [] \<Rightarrow> []
      | block # _ \<Rightarrow>
          map (\<lambda>l. take_chars MAX_RISK_CHARS (rd_text (redact rx l)))
            (take MAX_RISKS (filter (\<lambda>l. l \<noteq> []) (map trim (lines block)))))"

text \<open>A block becomes a mutant unless its header or its diff is missing.\<close>

definition mutant_of_block :: "regex_engine \<Rightarrow> str \<Rightarrow> nat \<Rightarrow> str \<Rightarrow> mutant option" where
  "mutant_of_block rx id_prefix n block =
     (case lines block of
        [] \<Rightarrow> None
      | h # rest \<Rightarrow>
          let header = trim h in
          (case (case strip_prefix header ''path:'' of Some p \<Rightarrow> Some p | None \<Rightarrow> strip_prefix header ''path ='') of
             None \<Rightarrow> None
           | Some p \<Rightarrow>
               let path = trim p; diff = join [LF] rest in
               if path = [] then None
               else if trim diff = [] then None
               else Some \<lparr>mu_id = id_prefix @ ''-m'' @ show_nat n,
                         mu_risk = rd_text (redact rx (''mutant '' @ show_nat n)),
                         mu_path = take_chars MAX_PATH_CHARS path,
                         mu_diff = take_chars MAX_MUTANT_DIFF_CHARS diff,
                         mu_status = Proposed\<rparr>))"

definition add_mutant :: "regex_engine \<Rightarrow> str \<Rightarrow> str \<Rightarrow> mutant list \<Rightarrow> mutant list" where
  "add_mutant rx id_prefix block ms =
     (case mutant_of_block rx id_prefix (length ms) block of None \<Rightarrow> ms | Some m \<Rightarrow> ms @ [m])"

definition parse_mutants :: "regex_engine \<Rightarrow> str \<Rightarrow> str \<Rightarrow> mutant list" where
  "parse_mutants rx raw id_prefix = fold (add_mutant rx id_prefix) (take MAX_MUTANTS (fenced_blocks raw)) []"

subsection \<open>\<open>strategy/mod.rs\<close>\<close>

record strategy_config =
  sc_num_candidates :: u32
  sc_max_mutants :: u32

definition default_strategy :: strategy_config where
  "default_strategy = \<lparr>sc_num_candidates = 1, sc_max_mutants = 8\<rparr>"

record gen_target =
  gt_language :: str
  gt_symbol :: "str option"
  gt_rel_path :: str

record harvested_catch =
  hc_candidate :: test_candidate
  hc_mutant :: mutant
  hc_execution :: catch_execution
  hc_class :: catch_class

record generation_outcome =
  go_candidates :: "test_candidate list"
  go_catches :: "harvested_catch list"

definition weak_catches :: "generation_outcome \<Rightarrow> harvested_catch list" where
  "weak_catches g = filter (\<lambda>h. hc_class h = WeakCatch) (go_catches g)"

definition redacted_candidate :: "regex_engine \<Rightarrow> test_candidate \<Rightarrow> test_candidate" where
  "redacted_candidate rx c =
     c\<lparr>tc_source := rd_text (redact rx (tc_source c)),
       tc_test_name := map_option (\<lambda>n. rd_text (redact rx n)) (tc_test_name c)\<rparr>"

definition redacted_mutant :: "regex_engine \<Rightarrow> mutant \<Rightarrow> mutant" where
  "redacted_mutant rx m =
     m\<lparr>mu_risk := rd_text (redact rx (mu_risk m)), mu_path := rd_text (redact rx (mu_path m)),
       mu_diff := rd_text (redact rx (mu_diff m))\<rparr>"

definition redacted_result :: "regex_engine \<Rightarrow> execution_result \<Rightarrow> execution_result" where
  "redacted_result rx r =
     r\<lparr>er_stdout := rd_text (redact rx (er_stdout r)), er_stderr := rd_text (redact rx (er_stderr r))\<rparr>"

definition redacted_catch :: "regex_engine \<Rightarrow> harvested_catch \<Rightarrow> harvested_catch" where
  "redacted_catch rx h =
     \<lparr>hc_candidate = redacted_candidate rx (hc_candidate h), hc_mutant = redacted_mutant rx (hc_mutant h),
      hc_execution = \<lparr>ce_base = redacted_result rx (ce_base (hc_execution h)),
                      ce_head = redacted_result rx (ce_head (hc_execution h))\<rparr>,
      hc_class = hc_class h\<rparr>"

text \<open>The loop of \<open>generate_simple\<close>, from attempt \<open>attempt\<close> on, \<open>left\<close> of them.\<close>

fun generate_attempts ::
  "'w provider \<Rightarrow> target_id \<Rightarrow> gen_target \<Rightarrow> llm_request \<Rightarrow> nat \<Rightarrow> nat \<Rightarrow> test_candidate list \<Rightarrow> 'w
     \<Rightarrow> (feedback_error + test_candidate list) \<times> 'w" where
  "generate_attempts provider t gt req 0 attempt out w = (Ok out, w)"
| "generate_attempts provider t gt req (Suc left) attempt out w =
     (case provider (req\<lparr>rq_attempt := of_nat attempt\<rparr>) w of
        (Err e, w) \<Rightarrow> (Err (FbGeneration e), w)
      | (Ok resp, w) \<Rightarrow>
          let c = parse_candidate (rs_raw resp) t (gt_rel_path gt) (of_nat attempt) in
          generate_attempts provider t gt req left (Suc attempt)
            (if vr_ok (validate_candidate (tc_source c)) then out @ [c] else out) w)"

definition generate_simple ::
  "'w provider \<Rightarrow> context_bundle \<Rightarrow> gen_target \<Rightarrow> run_mode \<Rightarrow> strategy \<Rightarrow> strategy_config \<Rightarrow> prompt \<Rightarrow> 'w
     \<Rightarrow> (feedback_error + test_candidate list) \<times> 'w" where
  "generate_simple provider ctx gt mode s cfg p w =
     generate_attempts provider (cx_target ctx) gt (step_request p mode s (gt_language gt) (gt_symbol gt))
       (unat (sc_num_candidates cfg)) 0 [] w"

subsection \<open>\<open>strategy/intent_aware.rs\<close>\<close>

text \<open>Risks are attached to the mutants by index.\<close>

definition attach_risks :: "str list \<Rightarrow> mutant list \<Rightarrow> mutant list" where
  "attach_risks risks ms =
     map (\<lambda>(i, m). if i < length risks then m\<lparr>mu_risk := risks ! i\<rparr> else m) (List.enumerate 0 ms)"

text \<open>Step 3: keep the mutants that build and pass the existing tests.\<close>

fun keep_valid ::
  "'w executor \<Rightarrow> mutant list \<Rightarrow> mutant list \<Rightarrow> 'w \<Rightarrow> (feedback_error + mutant list) \<times> 'w" where
  "keep_valid ex [] valid w = (Ok valid, w)"
| "keep_valid ex (m # ms) valid w =
     (case run_existing ex (MutantOf m) w of
        (Err e, w) \<Rightarrow> (Err (FbExecution e), w)
      | (Ok existing, w) \<Rightarrow>
          keep_valid ex ms (if passed existing then valid @ [m\<lparr>mu_status := Valid\<rparr>] else valid) w)"

text \<open>Step 4 for one mutant: \<open>None\<close> is the loop's \<open>continue\<close>.\<close>

definition try_mutant ::
  "regex_engine \<Rightarrow> 'w provider \<Rightarrow> 'w executor \<Rightarrow> context_bundle \<Rightarrow> gen_target \<Rightarrow> mutant \<Rightarrow> 'w
     \<Rightarrow> (feedback_error + harvested_catch option) \<times> 'w" where
  "try_mutant rx provider ex ctx gt m w =
     (case provider (step_request (killing_test_prompt rx ctx m) Catch IntentAware (gt_language gt) (gt_symbol gt)) w of
        (Err e, w) \<Rightarrow> (Err (FbGeneration e), w)
      | (Ok resp, w) \<Rightarrow>
          let c = parse_candidate (rs_raw resp) (cx_target ctx) (gt_rel_path gt) 0 in
          if \<not> vr_ok (validate_candidate (tc_source c)) then (Ok None, w)
          else (case run_candidate ex c Base w of
             (Err e, w) \<Rightarrow> (Err (FbExecution e), w)
           | (Ok b, w) \<Rightarrow>
               (case run_candidate ex c (MutantOf m) w of
                  (Err e, w) \<Rightarrow> (Err (FbExecution e), w)
                | (Ok on_mutant, w) \<Rightarrow>
                    if \<not> (passed b \<and> er_outcome on_mutant = Failed) then (Ok None, w)
                    else (case run_candidate ex c Head w of
                       (Err e, w) \<Rightarrow> (Err (FbExecution e), w)
                     | (Ok h, w) \<Rightarrow>
                         let e = \<lparr>ce_base = b, ce_head = h\<rparr> in
                         (Ok (Some \<lparr>hc_candidate = c, hc_mutant = m, hc_execution = e, hc_class = from_catch e\<rparr>), w)))))"

fun harvest ::
  "regex_engine \<Rightarrow> 'w provider \<Rightarrow> 'w executor \<Rightarrow> context_bundle \<Rightarrow> gen_target \<Rightarrow> mutant list \<Rightarrow> harvested_catch list \<Rightarrow> 'w
     \<Rightarrow> (feedback_error + harvested_catch list) \<times> 'w" where
  "harvest rx provider ex ctx gt [] hs w = (Ok hs, w)"
| "harvest rx provider ex ctx gt (m # ms) hs w =
     (case try_mutant rx provider ex ctx gt m w of
        (Err e, w) \<Rightarrow> (Err e, w)
      | (Ok None, w) \<Rightarrow> harvest rx provider ex ctx gt ms hs w
      | (Ok (Some h), w) \<Rightarrow> harvest rx provider ex ctx gt ms (hs @ [h]) w)"

definition intent_aware_run ::
  "regex_engine \<Rightarrow> 'w provider \<Rightarrow> 'w executor \<Rightarrow> context_bundle \<Rightarrow> gen_target \<Rightarrow> strategy_config \<Rightarrow> 'w
     \<Rightarrow> (feedback_error + harvested_catch list) \<times> 'w" where
  "intent_aware_run rx provider ex ctx gt cfg w =
     (case provider (step_request (infer_risks_prompt rx ctx) Catch IntentAware (gt_language gt) (gt_symbol gt)) w of
        (Err e, w) \<Rightarrow> (Err (FbGeneration e), w)
      | (Ok resp, w) \<Rightarrow>
          let risks = parse_risks rx (rs_raw resp) in
          if risks = [] then (Ok [], w)
          else (case provider (step_request (make_mutants_prompt rx ctx risks) Catch IntentAware (gt_language gt) (gt_symbol gt)) w of
             (Err e, w) \<Rightarrow> (Err (FbGeneration e), w)
           | (Ok resp, w) \<Rightarrow>
               let ms = parse_mutants rx (rs_raw resp) (cx_target ctx) in
               if ms = [] then (Ok [], w)
               else (case keep_valid ex (take (unat (sc_max_mutants cfg)) (attach_risks risks ms)) [] w of
                  (Err e, w) \<Rightarrow> (Err e, w)
                | (Ok valid, w) \<Rightarrow> harvest rx provider ex ctx gt valid [] w)))"

definition generate_candidates ::
  "regex_engine \<Rightarrow> 'w provider \<Rightarrow> 'w executor \<Rightarrow> context_bundle \<Rightarrow> gen_target \<Rightarrow> strategy \<Rightarrow> run_mode \<Rightarrow> strategy_config \<Rightarrow> 'w
     \<Rightarrow> (feedback_error + generation_outcome) \<times> 'w" where
  "generate_candidates rx provider ex ctx gt s mode cfg w =
     (case resolve s mode of
        StrategyHarden \<Rightarrow>
          (case generate_simple provider ctx gt mode StrategyHarden cfg (harden_prompt rx ctx) w of
             (Err e, w) \<Rightarrow> (Err e, w)
           | (Ok cs, w) \<Rightarrow> (Ok \<lparr>go_candidates = cs, go_catches = []\<rparr>, w))
      | DodgyDiff \<Rightarrow>
          (case generate_simple provider ctx gt mode DodgyDiff cfg (dodgy_diff_prompt rx ctx) w of
             (Err e, w) \<Rightarrow> (Err e, w)
           | (Ok cs, w) \<Rightarrow> (Ok \<lparr>go_candidates = cs, go_catches = []\<rparr>, w))
      | _ \<Rightarrow>
          (case intent_aware_run rx provider ex ctx gt cfg w of
             (Err e, w) \<Rightarrow> (Err e, w)
           | (Ok hs, w) \<Rightarrow> (Ok \<lparr>go_candidates = [], go_catches = hs\<rparr>, w)))"

section \<open>Parsing is bounded\<close>

lemma chars_take: "chars (concat (take n (chars s))) = take n (chars s)"
proof (cases "n = 0 \<or> s = []")
  case False
  then obtain k ks where ks: "chars s = k # ks" by (cases "chars s") auto
  then have k: "k \<noteq> []" "list_all is_cont (tl k)"
    using chars_nonempty [of k s] tl_hd_chars_cont [of s] False by auto
  have chunks: "list_all chunk ks" using tl_chars_chunk [of s] ks by simp
  then have rest: "list_all chunk (take (n - 1) ks)" by (auto simp: list_all_iff dest: in_set_takeD)
  have "\<not> starts_cont (concat (take (n - 1) ks))"
    using rest by (cases "take (n - 1) ks") (auto simp: chunk_def)
  then have "chars (k @ concat (take (n - 1) ks)) = chars k @ take (n - 1) ks"
    using chars_concat [OF rest] by (simp add: chars_append)
  moreover have "chars k = [k]" using k chars_conts [of "tl k" "hd k"] by simp
  ultimately show ?thesis using ks False by (cases n) auto
qed auto

lemma length_take_chars: "length (chars (take_chars n s)) \<le> n"
  by (simp add: take_chars_def chars_take)

definition mutant_id :: "str \<Rightarrow> nat \<Rightarrow> str" where
  "mutant_id pfx n = pfx @ ''-m'' @ show_nat n"

definition mutant_within :: "mutant \<Rightarrow> bool" where
  "mutant_within m \<longleftrightarrow> length (chars (mu_path m)) \<le> 512 \<and> length (chars (mu_diff m)) \<le> 8192 \<and> mu_status m = Proposed"

lemma mutant_of_block_Some:
  "mutant_of_block rx pfx n b = Some m \<Longrightarrow> mu_id m = mutant_id pfx n \<and> mutant_within m"
  using length_take_chars
  by (auto simp: mutant_of_block_def Let_def mutant_id_def mutant_within_def MAX_PATH_CHARS_def MAX_MUTANT_DIFF_CHARS_def
      split: list.splits option.splits if_splits)

lemma add_mutants:
  assumes "map mu_id ms = map (mutant_id pfx) [0..<length ms]" "list_all mutant_within ms"
  shows "let ms' = fold (add_mutant rx pfx) bs ms in
    length ms' \<le> length ms + length bs \<and> map mu_id ms' = map (mutant_id pfx) [0..<length ms'] \<and> list_all mutant_within ms'"
  using assms
proof (induction bs arbitrary: ms)
  case (Cons b bs)
  show ?case
  proof (cases "mutant_of_block rx pfx (length ms) b")
    case None
    then have "add_mutant rx pfx b ms = ms" by (simp add: add_mutant_def)
    with Cons.IH [OF Cons.prems] show ?thesis by (simp add: Let_def)
  next
    case (Some m)
    then have add: "add_mutant rx pfx b ms = ms @ [m]" by (simp add: add_mutant_def)
    have "map mu_id (ms @ [m]) = map (mutant_id pfx) [0..<length (ms @ [m])]" "list_all mutant_within (ms @ [m])"
      using mutant_of_block_Some [OF Some] Cons.prems by simp_all
    from Cons.IH [OF this] show ?thesis by (simp add: Let_def add)
  qed
qed simp

lemma distinct_mutant_ids: "distinct (map (mutant_id pfx) ns) \<longleftrightarrow> distinct ns"
  by (simp add: distinct_map inj_on_def mutant_id_def show_nat_inject)

section \<open>The pipeline's calls\<close>

text \<open>What the log must hold for a harvested catch, and what it may hold at all.\<close>

definition evidenced :: "call list \<Rightarrow> harvested_catch \<Rightarrow> bool" where
  "evidenced calls h \<longleftrightarrow>
     hc_class h = from_catch (hc_execution h)
     \<and> vr_ok (validate_candidate (tc_source (hc_candidate h)))
     \<and> passed (ce_base (hc_execution h))
     \<and> Ran (hc_candidate h) Base (Ok (ce_base (hc_execution h))) \<in> set calls
     \<and> Ran (hc_candidate h) Head (Ok (ce_head (hc_execution h))) \<in> set calls
     \<and> (\<exists>r. Ran (hc_candidate h) (MutantOf (hc_mutant h)) (Ok r) \<in> set calls \<and> er_outcome r = Failed)"

definition validated_mutant :: "call list \<Rightarrow> mutant \<Rightarrow> bool" where
  "validated_mutant calls m \<longleftrightarrow>
     (\<exists>m0 r. RanExisting (MutantOf m0) (Ok r) \<in> set calls \<and> passed r \<and> m = m0\<lparr>mu_status := Valid\<rparr>)"

lemma evidenced_mono: "evidenced a h \<Longrightarrow> set a \<subseteq> set b \<Longrightarrow> evidenced b h"
  by (auto simp: evidenced_def)

lemma validated_mutant_mono: "validated_mutant a m \<Longrightarrow> set a \<subseteq> set b \<Longrightarrow> validated_mutant b m"
  by (auto simp: validated_mutant_def)

lemma keep_valid_log:
  "\<exists>calls r w'. keep_valid (logged_executor ex) ms valid (w, tr) = (r, (w', tr @ calls))
     \<and> list_all pipeline_call calls \<and> runs calls \<le> length ms \<and> asks calls = 0
     \<and> (\<forall>valid'. r = Ok valid' \<longrightarrow> length valid' \<le> length valid + length ms
          \<and> (\<forall>m \<in> set valid' - set valid. validated_mutant calls m))"
proof (induction ms arbitrary: valid w tr)
  case Nil
  then show ?case by (simp add: runs_def asks_def)
next
  case (Cons m ms)
  obtain r w1 where r: "run_existing ex (MutantOf m) w = (r, w1)" by force
  let ?call = "RanExisting (MutantOf m) r"
  show ?case
  proof (cases r)
    case (Inl e)
    then show ?thesis
      using r by (intro exI [of _ "[?call]"]) (simp add: logged_executor_def runs_def asks_def)
  next
    case (Inr x)
    let ?valid = "if passed x then valid @ [m\<lparr>mu_status := Valid\<rparr>] else valid"
    from Cons.IH [of ?valid w1 "tr @ [?call]"] obtain calls r' w' where IH:
      "keep_valid (logged_executor ex) ms ?valid (w1, tr @ [?call]) = (r', (w', (tr @ [?call]) @ calls))"
      "list_all pipeline_call calls" "runs calls \<le> length ms" "asks calls = 0"
      "\<forall>valid'. r' = Ok valid' \<longrightarrow> length valid' \<le> length ?valid + length ms
          \<and> (\<forall>m \<in> set valid' - set ?valid. validated_mutant calls m)"
      by blast
    have "validated_mutant (?call # calls) m'" if "r' = Ok valid'" "m' \<in> set valid' - set valid" for valid' m'
    proof (cases "m' \<in> set ?valid")
      case True
      with that(2) have "passed x" "m' = m\<lparr>mu_status := Valid\<rparr>" by (auto split: if_splits)
      then show ?thesis using Inr by (auto simp: validated_mutant_def)
    next
      case False
      with that IH(5) have "validated_mutant calls m'" by blast
      then show ?thesis by (rule validated_mutant_mono) auto
    qed
    moreover have "length valid' \<le> length valid + length (m # ms)" if "r' = Ok valid'" for valid'
      using IH(5) that by (auto split: if_splits)
    ultimately show ?thesis
      using r Inr IH(1-4)
      by (intro exI [of _ "?call # calls"] exI [of _ r'] exI [of _ w'])
        (simp add: logged_executor_def runs_def asks_def)
  qed
qed

lemma try_mutant_log:
  "\<exists>calls r w'. try_mutant rx (logged_provider p) (logged_executor ex) ctx gt m (w, tr) = (r, (w', tr @ calls))
     \<and> list_all pipeline_call calls \<and> runs calls \<le> 3 \<and> asks calls \<le> 1
     \<and> (\<forall>h. r = Ok (Some h) \<longrightarrow> evidenced calls h \<and> hc_mutant h = m)"
proof -
  let ?req = "step_request (killing_test_prompt rx ctx m) Catch IntentAware (gt_language gt) (gt_symbol gt)"
  obtain a w1 where a: "p ?req w = (a, w1)" by force
  show ?thesis
  proof (cases a)
    case (Inl e)
    with a show ?thesis
      by (intro exI [of _ "[Asked ?req]"]) (simp add: try_mutant_def logged_provider_def runs_def asks_def)
  next
    case (Inr resp)
    let ?c = "parse_candidate (rs_raw resp) (cx_target ctx) (gt_rel_path gt) 0"
    show ?thesis
    proof (cases "vr_ok (validate_candidate (tc_source ?c))")
      case False
      with a Inr show ?thesis
        by (intro exI [of _ "[Asked ?req]"]) (simp add: try_mutant_def logged_provider_def runs_def asks_def Let_def)
    next
      case True
      obtain b w2 where b: "run_candidate ex ?c Base w1 = (b, w2)" by force
      obtain x w3 where x: "run_candidate ex ?c (MutantOf m) w2 = (x, w3)" by force
      obtain h w4 where h: "run_candidate ex ?c Head w3 = (h, w4)" by force
      note seams = try_mutant_def logged_provider_def logged_executor_def runs_def asks_def Let_def
      consider (b) e where "b = Err e" | (x) bb e where "b = Ok bb" "x = Err e"
        | (no) bb xx where "b = Ok bb" "x = Ok xx" "\<not> (passed bb \<and> er_outcome xx = Failed)"
        | (yes) bb xx where "b = Ok bb" "x = Ok xx" "passed bb" "er_outcome xx = Failed"
        by (metis obj_sumE)
      then show ?thesis
      proof cases
        case (b e)
        with a Inr True \<open>run_candidate ex ?c Base w1 = (b, w2)\<close> show ?thesis
          by (intro exI [of _ "[Asked ?req, Ran ?c Base b]"]) (simp add: seams)
      next
        case (x bb e)
        with a Inr True b \<open>run_candidate ex ?c (MutantOf m) w2 = (x, w3)\<close> show ?thesis
          by (intro exI [of _ "[Asked ?req, Ran ?c Base b, Ran ?c (MutantOf m) x]"]) (simp add: seams)
      next
        case (no bb xx)
        with a Inr True b x show ?thesis
          by (intro exI [of _ "[Asked ?req, Ran ?c Base b, Ran ?c (MutantOf m) x]"]) (auto simp: seams)
      next
        case (yes bb xx)
        with a Inr True b x h show ?thesis
          by (intro exI [of _ "[Asked ?req, Ran ?c Base b, Ran ?c (MutantOf m) x, Ran ?c Head h]"])
            (cases h; simp add: seams evidenced_def)
      qed
    qed
  qed
qed

lemma harvest_log:
  "\<exists>calls r w'. harvest rx (logged_provider p) (logged_executor ex) ctx gt ms hs (w, tr) = (r, (w', tr @ calls))
     \<and> list_all pipeline_call calls \<and> runs calls \<le> 3 * length ms \<and> asks calls \<le> length ms
     \<and> (\<forall>hs'. r = Ok hs' \<longrightarrow> (\<forall>h \<in> set hs' - set hs. evidenced calls h \<and> hc_mutant h \<in> set ms))"
proof (induction ms arbitrary: hs w tr)
  case Nil
  then show ?case by (simp add: runs_def asks_def)
next
  case (Cons m ms)
  from try_mutant_log [of rx p ex ctx gt m w tr] obtain calls r w' where tried:
    "try_mutant rx (logged_provider p) (logged_executor ex) ctx gt m (w, tr) = (r, (w', tr @ calls))"
    "list_all pipeline_call calls" "runs calls \<le> 3" "asks calls \<le> 1"
    "\<forall>h. r = Ok (Some h) \<longrightarrow> evidenced calls h \<and> hc_mutant h = m"
    by blast
  show ?case
  proof (cases r)
    case (Inl e)
    then show ?thesis
      using tried by (intro exI [of _ calls] exI [of _ "Err e"] exI [of _ w']) auto
  next
    case (Inr oh)
    let ?hs = "case oh of None \<Rightarrow> hs | Some h \<Rightarrow> hs @ [h]"
    from Cons.IH [of ?hs w' "tr @ calls"] obtain more r2 w2 where IH:
      "harvest rx (logged_provider p) (logged_executor ex) ctx gt ms ?hs (w', tr @ calls) = (r2, (w2, (tr @ calls) @ more))"
      "list_all pipeline_call more" "runs more \<le> 3 * length ms" "asks more \<le> length ms"
      "\<forall>hs'. r2 = Ok hs' \<longrightarrow> (\<forall>h \<in> set hs' - set ?hs. evidenced more h \<and> hc_mutant h \<in> set ms)"
      by blast
    have "harvest rx (logged_provider p) (logged_executor ex) ctx gt (m # ms) hs (w, tr) = (r2, (w2, tr @ calls @ more))"
      using tried(1) IH(1) Inr by (cases oh) auto
    moreover have "evidenced (calls @ more) h \<and> hc_mutant h \<in> set (m # ms)"
      if "r2 = Ok hs'" "h \<in> set hs' - set hs" for hs' h
    proof (cases "h \<in> set ?hs")
      case True
      with that(2) have "oh = Some h" by (cases oh) auto
      with tried(5) Inr show ?thesis by (auto intro: evidenced_mono)
    next
      case False
      with that IH(5) show ?thesis by (auto intro: evidenced_mono)
    qed
    ultimately show ?thesis
      using tried(2-4) IH(2-4) by (intro exI [of _ "calls @ more"] exI [of _ r2] exI [of _ w2]) auto
  qed
qed

text \<open>A log of the whole pipeline.\<close>

definition pipeline_log :: "nat \<Rightarrow> call list \<Rightarrow> feedback_error + harvested_catch list \<Rightarrow> bool" where
  "pipeline_log n calls r \<longleftrightarrow> list_all pipeline_call calls \<and> runs calls \<le> 4 * n \<and> asks calls \<le> n + 2
     \<and> (\<forall>hs. r = Ok hs \<longrightarrow> (\<forall>h \<in> set hs. evidenced calls h \<and> validated_mutant calls (hc_mutant h)))"

lemma pipeline_log_asks:
  "asks calls \<le> 2 \<Longrightarrow> runs calls = 0 \<Longrightarrow> list_all pipeline_call calls \<Longrightarrow> \<forall>hs. r = Ok hs \<longrightarrow> hs = [] \<Longrightarrow> pipeline_log n calls r"
  unfolding pipeline_log_def by (intro conjI allI impI) simp_all

lemma pipeline_log_quiet:
  "list_all (\<lambda>k. \<exists>q. k = Asked q) calls \<Longrightarrow> length calls \<le> 2 \<Longrightarrow> \<forall>hs. r = Ok hs \<longrightarrow> hs = [] \<Longrightarrow> pipeline_log n calls r"
proof (rule pipeline_log_asks)
  assume quiet: "list_all (\<lambda>k. \<exists>q. k = Asked q) calls" "length calls \<le> 2"
  then show "asks calls \<le> 2" unfolding asks_def by (meson le_trans length_filter_le)
  have "filter is_run calls = []" using quiet(1) by (auto simp: list_all_iff filter_empty_conv)
  then show "runs calls = 0" by (simp add: runs_def)
  show "list_all pipeline_call calls" using quiet(1) by (auto simp: list_all_iff)
qed

text \<open>Validation and harvest together: at most four executions and one question per mutant.\<close>

lemma spec_validated_harvest:
  assumes "length ms \<le> n" "list_all (\<lambda>k. \<exists>q. k = Asked q) asked" "length asked \<le> 2"
  shows "spec (\<lambda>s. case keep_valid (logged_executor ex) ms [] s of (Err e, s) \<Rightarrow> (Err e, s)
      | (Ok valid, s) \<Rightarrow> harvest rx (logged_provider p) (logged_executor ex) ctx gt valid [] s)
    (\<lambda>r calls. pipeline_log n (asked @ calls) r)"
proof (rule spec_bind_same)
  show "spec (keep_valid (logged_executor ex) ms []) (\<lambda>r calls. list_all pipeline_call calls \<and> runs calls \<le> length ms
      \<and> asks calls = 0 \<and> (\<forall>valid. r = Ok valid \<longrightarrow> length valid \<le> length ms \<and> (\<forall>m \<in> set valid. validated_mutant calls m)))"
    unfolding spec_def
  proof (intro allI)
    fix w tr
    show "\<exists>r w' calls. keep_valid (logged_executor ex) ms [] (w, tr) = (r, w', tr @ calls) \<and> list_all pipeline_call calls
        \<and> runs calls \<le> length ms \<and> asks calls = 0
        \<and> (\<forall>valid. r = Ok valid \<longrightarrow> length valid \<le> length ms \<and> (\<forall>m \<in> set valid. validated_mutant calls m))"
      using keep_valid_log [of ex ms "[]" w tr] by simp blast
  qed
next
  have "asks asked \<le> 2" "runs asked = 0" "list_all pipeline_call asked"
    using pipeline_log_quiet [OF assms(2,3), of "Ok []" 0] assms(2)
    by (auto simp: runs_def asks_def list_all_iff filter_empty_conv pipeline_log_def)
  note quiet = this
  fix e calls
  assume "list_all pipeline_call calls \<and> runs calls \<le> length ms \<and> asks calls = 0 \<and> (\<forall>valid. (Err e :: feedback_error + mutant list) = Ok valid \<longrightarrow> length valid \<le> length ms \<and> (\<forall>m \<in> set valid. validated_mutant calls m))"
  then show "pipeline_log n (asked @ calls) (Err e)" using quiet assms(1) by (simp add: pipeline_log_def)
next
  have "asks asked \<le> 2" "runs asked = 0" "list_all pipeline_call asked"
    using pipeline_log_quiet [OF assms(2,3), of "Ok []" 0] assms(2)
    by (auto simp: runs_def asks_def list_all_iff filter_empty_conv pipeline_log_def)
  note quiet = this
  fix valid calls
  assume "list_all pipeline_call calls \<and> runs calls \<le> length ms \<and> asks calls = 0
    \<and> (\<forall>valid'. (Ok valid :: feedback_error + mutant list) = Ok valid' \<longrightarrow> length valid' \<le> length ms \<and> (\<forall>m \<in> set valid'. validated_mutant calls m))"
  then have v: "list_all pipeline_call calls" "runs calls \<le> length ms" "asks calls = 0" "length valid \<le> length ms"
    "\<forall>m \<in> set valid. validated_mutant calls m"
    by simp_all
  show "spec (harvest rx (logged_provider p) (logged_executor ex) ctx gt valid []) (\<lambda>r more. pipeline_log n (asked @ calls @ more) r)"
    unfolding spec_def
  proof (intro allI)
    fix w tr
    from harvest_log [of rx p ex ctx gt valid "[]" w tr] obtain more r w' where h:
      "harvest rx (logged_provider p) (logged_executor ex) ctx gt valid [] (w, tr) = (r, (w', tr @ more))"
      "list_all pipeline_call more" "runs more \<le> 3 * length valid" "asks more \<le> length valid"
      "\<forall>hs'. r = Ok hs' \<longrightarrow> (\<forall>h \<in> set hs' - set []. evidenced more h \<and> hc_mutant h \<in> set valid)"
      by blast
    have "evidenced (asked @ calls @ more) h \<and> validated_mutant (asked @ calls @ more) (hc_mutant h)"
      if "r = Ok hs" "h \<in> set hs" for hs h
    proof -
      have "evidenced more h" "validated_mutant calls (hc_mutant h)" using h(5) v(5) that by auto
      then show ?thesis by (auto elim: evidenced_mono validated_mutant_mono)
    qed
    then have "pipeline_log n (asked @ calls @ more) r"
      using h(2-4) v quiet assms(1) by (simp add: pipeline_log_def)
    then show "\<exists>r w' more. harvest rx (logged_provider p) (logged_executor ex) ctx gt valid [] (w, tr) = (r, w', tr @ more)
        \<and> pipeline_log n (asked @ calls @ more) r"
      using h(1) by blast
  qed
qed

lemma spec_intent_aware:
  "spec (intent_aware_run rx (logged_provider p) (logged_executor ex) ctx gt cfg)
     (\<lambda>r calls. pipeline_log (unat (sc_max_mutants cfg)) calls r)"
  unfolding intent_aware_run_def Let_def
proof (rule spec_bind [OF spec_provider])
  fix resp :: llm_response and calls and q
  assume first: "calls = [Asked q]"
  let ?risks = "parse_risks rx (rs_raw resp)"
  show "spec (\<lambda>w. if ?risks = [] then (Ok [], w)
      else case logged_provider p (step_request (make_mutants_prompt rx ctx ?risks) Catch IntentAware (gt_language gt) (gt_symbol gt)) w of
        (Err e, w) \<Rightarrow> (Err (FbGeneration e), w)
      | (Ok resp, w) \<Rightarrow> if parse_mutants rx (rs_raw resp) (cx_target ctx) = [] then (Ok [], w)
          else case keep_valid (logged_executor ex) (take (unat (sc_max_mutants cfg))
                 (attach_risks ?risks (parse_mutants rx (rs_raw resp) (cx_target ctx)))) [] w of
            (Err e, w) \<Rightarrow> (Err e, w) | (Ok valid, w) \<Rightarrow> harvest rx (logged_provider p) (logged_executor ex) ctx gt valid [] w)
    (\<lambda>r more. pipeline_log (unat (sc_max_mutants cfg)) (calls @ more) r)"
  proof (rule spec_if, rule spec_return, rule pipeline_log_quiet, use first in simp_all)
    show "spec (\<lambda>w. case logged_provider p (step_request (make_mutants_prompt rx ctx ?risks) Catch IntentAware (gt_language gt) (gt_symbol gt)) w of
        (Err e, w) \<Rightarrow> (Err (FbGeneration e), w)
      | (Ok resp, w) \<Rightarrow> if parse_mutants rx (rs_raw resp) (cx_target ctx) = [] then (Ok [], w)
          else case keep_valid (logged_executor ex) (take (unat (sc_max_mutants cfg))
                 (attach_risks ?risks (parse_mutants rx (rs_raw resp) (cx_target ctx)))) [] w of
            (Err e, w) \<Rightarrow> (Err e, w) | (Ok valid, w) \<Rightarrow> harvest rx (logged_provider p) (logged_executor ex) ctx gt valid [] w)
      (\<lambda>r more. pipeline_log (unat (sc_max_mutants cfg)) (Asked q # more) r)"
    proof (rule spec_bind [OF spec_provider], rule pipeline_log_quiet; (simp; fail)?)
      fix resp2 :: llm_response and more q2
      assume second: "more = [Asked q2]"
      let ?ms = "parse_mutants rx (rs_raw resp2) (cx_target ctx)"
      show "spec (\<lambda>w. if ?ms = [] then (Ok [], w)
          else case keep_valid (logged_executor ex) (take (unat (sc_max_mutants cfg)) (attach_risks ?risks ?ms)) [] w of
            (Err e, w) \<Rightarrow> (Err e, w) | (Ok valid, w) \<Rightarrow> harvest rx (logged_provider p) (logged_executor ex) ctx gt valid [] w)
        (\<lambda>r rest. pipeline_log (unat (sc_max_mutants cfg)) (Asked q # more @ rest) r)"
        using spec_validated_harvest [of "take (unat (sc_max_mutants cfg)) (attach_risks ?risks ?ms)"
            "unat (sc_max_mutants cfg)" "[Asked q, Asked q2]" rx p ex ctx gt]
        by (intro spec_if spec_return) (auto simp: second intro: pipeline_log_quiet)
    qed
  qed
qed (rule pipeline_log_quiet; simp)

text \<open>What generation yields: validated candidates in place, or catches backed by the log.\<close>

definition generated_ok :: "target_id \<Rightarrow> gen_target \<Rightarrow> test_candidate \<Rightarrow> bool" where
  "generated_ok t gt c \<longleftrightarrow> vr_ok (validate_candidate (tc_source c)) \<and> tc_rel_path c = gt_rel_path gt \<and> tc_target c = t"

lemma spec_generate_attempts:
  assumes "list_all (generated_ok t gt) out"
  shows "spec (generate_attempts (logged_provider p) t gt req left attempt out)
    (\<lambda>r calls. list_all pipeline_call calls \<and> (\<forall>cs. r = Ok cs \<longrightarrow> list_all (generated_ok t gt) cs))"
  using assms
proof (induction left arbitrary: attempt out)
  case 0
  then show ?case unfolding generate_attempts.simps by (intro spec_return) simp
next
  case (Suc left)
  show ?case
    unfolding generate_attempts.simps Let_def
  proof (rule spec_bind [OF spec_provider])
    fix resp :: llm_response and calls
    let ?c = "parse_candidate (rs_raw resp) t (gt_rel_path gt) (of_nat attempt)"
    assume asked: "calls = [Asked (req\<lparr>rq_attempt := of_nat attempt\<rparr>)]"
    have "list_all (generated_ok t gt) (if vr_ok (validate_candidate (tc_source ?c)) then out @ [?c] else out)"
      using Suc.prems by (cases "vr_ok (validate_candidate (tc_source ?c))") (simp_all add: parse_candidate_def, simp add: generated_ok_def)
    from Suc.IH [OF this, of "Suc attempt"] asked
    show "spec (generate_attempts (logged_provider p) t gt req left (Suc attempt)
        (if vr_ok (validate_candidate (tc_source ?c)) then out @ [?c] else out))
      (\<lambda>r more. list_all pipeline_call (calls @ more) \<and> (\<forall>cs. r = Ok cs \<longrightarrow> list_all (generated_ok t gt) cs))"
      by (auto elim: spec_mono)
  qed simp
qed

definition generation_ok :: "target_id \<Rightarrow> gen_target \<Rightarrow> feedback_error + generation_outcome \<Rightarrow> call list \<Rightarrow> bool" where
  "generation_ok t gt r calls \<longleftrightarrow> list_all pipeline_call calls
     \<and> (\<forall>g. r = Ok g \<longrightarrow> list_all (generated_ok t gt) (go_candidates g) \<and> (\<forall>h \<in> set (go_catches g). evidenced calls h))"

lemma spec_generate_candidates:
  "spec (generate_candidates rx (logged_provider p) (logged_executor ex) ctx gt s mode cfg) (generation_ok (cx_target ctx) gt)"
proof -
  have simple: "spec (\<lambda>w. case generate_simple (logged_provider p) ctx gt mode st cfg pr w of
      (Err e, w) \<Rightarrow> (Err e, w) | (Ok cs, w) \<Rightarrow> (Ok \<lparr>go_candidates = cs, go_catches = []\<rparr>, w)) (generation_ok (cx_target ctx) gt)" for st pr
    unfolding generate_simple_def
    by (rule spec_bind_same [OF spec_generate_attempts]) (auto simp: generation_ok_def intro: spec_return)
  have aware: "spec (\<lambda>w. case intent_aware_run rx (logged_provider p) (logged_executor ex) ctx gt cfg w of
      (Err e, w) \<Rightarrow> (Err e, w) | (Ok hs, w) \<Rightarrow> (Ok \<lparr>go_candidates = [], go_catches = hs\<rparr>, w)) (generation_ok (cx_target ctx) gt)"
    by (rule spec_bind_same [OF spec_intent_aware]) (auto simp: generation_ok_def pipeline_log_def intro: spec_return)
  show ?thesis
    unfolding generate_candidates_def by (cases "resolve s mode") (simp_all add: simple aware)
qed

section \<open>Properties\<close>

text \<open>
  C19: A harvested catch is backed by executions. Whatever the model answers, for each catch the
  pipeline returns it has run the validated killing test on the base, where it passed, on the
  mutant, where it failed, and on the head, and it has run the existing suite on that mutant,
  where it passed; the class is the one of the base and head runs. It executes no flagged
  candidate, and runs at most four executions per allowed mutant.
\<close>

theorem intent_aware_run_evidence:
  "\<exists>calls r w'. intent_aware_run rx (logged_provider p) (logged_executor ex) ctx gt cfg (w, []) = (r, (w', calls))
     \<and> list_all pipeline_call calls
     \<and> runs calls \<le> 4 * unat (sc_max_mutants cfg) \<and> asks calls \<le> unat (sc_max_mutants cfg) + 2
     \<and> (case r of Err _ \<Rightarrow> True
        | Ok hs \<Rightarrow> list_all (\<lambda>h. evidenced calls h \<and> validated_mutant calls (hc_mutant h)) hs)"
proof -
  obtain calls r w' where "intent_aware_run rx (logged_provider p) (logged_executor ex) ctx gt cfg (w, []) = (r, (w', calls))"
    "pipeline_log (unat (sc_max_mutants cfg)) calls r"
    using spec_intent_aware [of rx p ex ctx gt cfg] unfolding spec_def by (metis append_Nil)
  then show ?thesis by (auto simp: pipeline_log_def list_all_iff split: sum.splits)
qed

text \<open>
  Model output is parsed within bounds. However long or hostile the answer, at most 16 mutants
  result, numbered in order under distinct ids, each proposed, with a path of at most 512 and a
  diff of at most 8192 characters; at most 24 risks result, of at most 200 characters each.
\<close>

theorem parsed_steps_bounded:
  "length (parse_mutants rx raw pfx) \<le> 16 \<and> distinct (map mu_id (parse_mutants rx raw pfx))
   \<and> map mu_id (parse_mutants rx raw pfx) = map (mutant_id pfx) [0..<length (parse_mutants rx raw pfx)]
   \<and> list_all mutant_within (parse_mutants rx raw pfx)
   \<and> length (parse_risks rx raw) \<le> 24 \<and> list_all (\<lambda>r. length (chars r) \<le> 200) (parse_risks rx raw)"
proof -
  have m: "length (parse_mutants rx raw pfx) \<le> 0 + length (take MAX_MUTANTS (fenced_blocks raw))"
    "map mu_id (parse_mutants rx raw pfx) = map (mutant_id pfx) [0..<length (parse_mutants rx raw pfx)]"
    "list_all mutant_within (parse_mutants rx raw pfx)"
    using add_mutants [of "[]" pfx rx "take MAX_MUTANTS (fenced_blocks raw)"]
    unfolding parse_mutants_def Let_def by simp_all
  moreover have "length (parse_risks rx raw) \<le> 24" "list_all (\<lambda>r. length (chars r) \<le> 200) (parse_risks rx raw)"
    using length_take_chars [of 200]
    by (auto simp: parse_risks_def MAX_RISKS_def MAX_RISK_CHARS_def list_all_iff split: list.splits)
  moreover have "distinct (map mu_id (parse_mutants rx raw pfx))"
    unfolding m(2) distinct_mutant_ids by simp
  ultimately show ?thesis by (simp add: MAX_MUTANTS_def)
qed

end
