(* ===== verification/Packager.thy ===== *)
theory Packager
  imports Redact
begin

text \<open>
  \<open>jitgen-context/src/packager.rs\<close>: the context builder. Items are added in priority order; each
  is redacted and cut to the budget (a cap per file, a number of files, a total).
\<close>

section \<open>The code\<close>

definition CHARS_PER_TOKEN :: nat where "CHARS_PER_TOKEN = 4"
definition MAX_REDACT_INPUT_BYTES :: nat where "MAX_REDACT_INPUT_BYTES = 256 * 1024"
definition DANGLING_TOKEN_MIN :: nat where "DANGLING_TOKEN_MIN = 8"

definition char_boundary_prefix :: "str \<Rightarrow> nat \<Rightarrow> str" where
  "char_boundary_prefix s max_bytes =
     (if length s \<le> max_bytes then s else take (back_up s max_bytes) s)"

text \<open>The part of a text after its last white-space character.\<close>

definition trailing_token :: "str \<Rightarrow> str" where
  "trailing_token s = concat (rev (takeWhile (\<lambda>c. \<not> is_ws c) (rev (chars s))))"

definition drop_trailing_token :: "str \<Rightarrow> str" where
  "drop_trailing_token s =
     (let cut = length s - length (trailing_token s) in
      if DANGLING_TOKEN_MIN \<le> length s - cut then take cut s @ TRUNCATION_MARKER else s)"

definition truncate_text :: "str \<Rightarrow> nat \<Rightarrow> str" where
  "truncate_text s max_bytes =
     (if length s \<le> max_bytes then s
      else if max_bytes < length TRUNCATION_MARKER
      then take (back_up TRUNCATION_MARKER max_bytes) TRUNCATION_MARKER
      else take (back_up s (max_bytes - length TRUNCATION_MARKER)) s @ TRUNCATION_MARKER)"

record context_builder =
  bd_budget :: context_budget
  bd_items :: "context_item list"
  bd_redacted :: bool
  bd_used_chars :: nat

definition builder_new :: "context_budget \<Rightarrow> context_builder" where
  "builder_new b = \<lparr>bd_budget = b, bd_items = [], bd_redacted = False, bd_used_chars = 0\<rparr>"

definition builder_add ::
  "regex_engine \<Rightarrow> context_item_kind \<Rightarrow> str option \<Rightarrow> str \<Rightarrow> context_builder \<Rightarrow> bool \<times> context_builder" where
  "builder_add rx kind path content b =
     (if unat (cb_max_files (bd_budget b)) \<le> length (bd_items b) then (False, b)
      else
        let total_budget = unat (cb_max_tokens (bd_budget b)) * CHARS_PER_TOKEN;
            remaining = total_budget - bd_used_chars b in
        if remaining = 0 then (False, b)
        else
          let window = char_boundary_prefix content MAX_REDACT_INPUT_BYTES;
              red = redact rx window;
              b = (if rd_redacted red then b\<lparr>bd_redacted := True\<rparr> else b);
              text = rd_text red;
              dropped = drop_trailing_token text;
              b = (if length window < length content \<and> dropped \<noteq> text then b\<lparr>bd_redacted := True\<rparr> else b);
              text = (if length window < length content then dropped else text);
              cap = min (unat (cb_max_bytes_per_file (bd_budget b))) remaining;
              body = truncate_text text cap in
          if body = [] \<and> content \<noteq> [] then (False, b)
          else (True, b\<lparr>bd_used_chars := bd_used_chars b + length body,
                        bd_items := bd_items b @ [\<lparr>ci_kind = kind, ci_path = path, ci_content = body\<rparr>]\<rparr>))"

definition builder_build :: "target_id \<Rightarrow> context_builder \<Rightarrow> context_bundle" where
  "builder_build t b =
     \<lparr>cx_target = t, cx_items = bd_items b, cx_budget = bd_budget b, cx_redacted = bd_redacted b\<rparr>"

section \<open>Lemmas\<close>

lemma length_char_boundary_prefix: "length (char_boundary_prefix s n) \<le> n"
  using back_up_le [of s n] by (simp add: char_boundary_prefix_def min.coboundedI2)

lemma length_truncate: "length (truncate_text s n) \<le> n"
  using back_up_le [of TRUNCATION_MARKER n] back_up_le [of s "n - 14"]
  by (auto simp: truncate_text_def)

lemma truncate_id: "length s \<le> n \<Longrightarrow> truncate_text s n = s"
  by (simp add: truncate_text_def)

lemma utf8_truncate: "utf8 s \<Longrightarrow> utf8 (truncate_text s n)"
  by (auto simp: truncate_text_def intro!: utf8_take_back_up utf8_append)

text \<open>The budget: what every sequence of additions keeps.\<close>

definition item_total :: "context_item list \<Rightarrow> nat" where
  "item_total xs = sum_list (map (\<lambda>i. length (ci_content i)) xs)"

definition builder_inv :: "context_builder \<Rightarrow> bool" where
  "builder_inv b \<longleftrightarrow> length (bd_items b) \<le> unat (cb_max_files (bd_budget b))
     \<and> bd_used_chars b = item_total (bd_items b)
     \<and> bd_used_chars b \<le> unat (cb_max_tokens (bd_budget b)) * CHARS_PER_TOKEN
     \<and> list_all (\<lambda>i. length (ci_content i) \<le> unat (cb_max_bytes_per_file (bd_budget b))) (bd_items b)"

lemma builder_add_budget [simp]: "bd_budget (snd (builder_add rx k p c b)) = bd_budget b"
  by (auto simp: builder_add_def Let_def)

lemma builder_inv_new: "builder_inv (builder_new bud)"
  by (simp add: builder_inv_def builder_new_def item_total_def)

lemma builder_inv_add: "builder_inv b \<Longrightarrow> builder_inv (snd (builder_add rx k p c b))"
proof -
  assume inv: "builder_inv b"
  let ?cap = "min (unat (cb_max_bytes_per_file (bd_budget b))) (unat (cb_max_tokens (bd_budget b)) * CHARS_PER_TOKEN - bd_used_chars b)"
  have "length (truncate_text t ?cap) \<le> unat (cb_max_bytes_per_file (bd_budget b))"
    and "length (truncate_text t ?cap) \<le> unat (cb_max_tokens (bd_budget b)) * CHARS_PER_TOKEN - bd_used_chars b" for t
    using length_truncate [of t ?cap] by auto
  note bounds = this
  have sum: "bd_used_chars b + length (truncate_text t ?cap) \<le> unat (cb_max_tokens (bd_budget b)) * CHARS_PER_TOKEN" for t
    using bounds(2) [of t] inv unfolding builder_inv_def by linarith
  show ?thesis
    using inv bounds(1) sum
    by (auto simp: builder_add_def builder_inv_def Let_def item_total_def)
qed

text \<open>A run of additions.\<close>

definition builder_adds ::
  "regex_engine \<Rightarrow> (context_item_kind \<times> str option \<times> str) list \<Rightarrow> context_builder \<Rightarrow> context_builder" where
  "builder_adds rx adds b = fold (\<lambda>(k, p, c) b. snd (builder_add rx k p c b)) adds b"

lemma builder_adds_budget [simp]: "bd_budget (builder_adds rx adds b) = bd_budget b"
  unfolding builder_adds_def by (induction adds arbitrary: b) (auto split: prod.splits)

lemma builder_adds_inv: "builder_inv b \<Longrightarrow> builder_inv (builder_adds rx adds b)"
  unfolding builder_adds_def by (induction adds arbitrary: b) (auto intro: builder_inv_add split: prod.splits)

text \<open>Where an item comes from, as long as nothing was redacted.\<close>

definition verbatim :: "(context_item_kind \<times> str option \<times> str) set \<Rightarrow> context_item \<Rightarrow> bool" where
  "verbatim A i \<longleftrightarrow> (\<exists>c n. (ci_kind i, ci_path i, c) \<in> A \<and> ci_content i = truncate_text (char_boundary_prefix c MAX_REDACT_INPUT_BYTES) n)"

lemma builder_add_verbatim:
  assumes "\<not> bd_redacted (snd (builder_add rx k p c b))"
    and "\<not> bd_redacted b \<Longrightarrow> list_all (verbatim A) (bd_items b)" "(k, p, c) \<in> A"
  shows "\<not> bd_redacted b \<and> list_all (verbatim A) (bd_items (snd (builder_add rx k p c b)))"
proof -
  let ?w = "char_boundary_prefix c MAX_REDACT_INPUT_BYTES"
  have flag: "\<not> bd_redacted b"
    using assms(1) by (auto simp: builder_add_def Let_def split: if_splits)
  have "verbatim A \<lparr>ci_kind = k, ci_path = p, ci_content = truncate_text ?w n\<rparr>" for n
    using assms(3) by (auto simp: verbatim_def)
  then have "list_all (verbatim A) (bd_items (snd (builder_add rx k p c b)))"
    using assms(1) assms(2) [OF flag] flag redact_flag_sound [of rx ?w]
    by (auto simp: builder_add_def Let_def split: if_splits)
  with flag show ?thesis by simp
qed

lemma builder_adds_verbatim:
  assumes "\<not> bd_redacted (builder_adds rx adds b)" "set adds \<subseteq> A"
    and "\<not> bd_redacted b \<Longrightarrow> list_all (verbatim A) (bd_items b)"
  shows "\<not> bd_redacted b \<and> list_all (verbatim A) (bd_items (builder_adds rx adds b))"
  using assms
proof (induction adds arbitrary: b)
  case (Cons a adds)
  obtain k p c where a: "a = (k, p, c)" by (cases a)
  let ?b = "snd (builder_add rx k p c b)"
  have step: "\<not> bd_redacted ?b \<Longrightarrow> \<not> bd_redacted b \<and> list_all (verbatim A) (bd_items ?b)"
    using builder_add_verbatim [where rx = rx and k = k and p = p and c = c and b = b] Cons.prems a by auto
  with Cons.IH [of ?b] Cons.prems a show ?case by (simp add: builder_adds_def)
qed (simp add: builder_adds_def)

section \<open>Properties\<close>

text \<open>
  A bundle stays within its budget. Whatever is added, in whatever order and whatever the
  redaction engine does, the bundle has at most the allowed number of items, no item is longer than
  the cap per file, and all items together are no longer than four bytes per allowed token.
\<close>

theorem context_within_budget:
  "let cx = builder_build t (builder_adds rx adds (builder_new bud)) in
     length (cx_items cx) \<le> unat (cb_max_files bud)
     \<and> sum_list (map (\<lambda>i. length (ci_content i)) (cx_items cx)) \<le> unat (cb_max_tokens bud) * 4
     \<and> list_all (\<lambda>i. length (ci_content i) \<le> unat (cb_max_bytes_per_file bud)) (cx_items cx)"
  using builder_adds_inv [OF builder_inv_new, of rx adds bud]
  by (simp add: builder_inv_def builder_build_def item_total_def CHARS_PER_TOKEN_def builder_new_def Let_def)

text \<open>
  The redaction flag of a bundle is sound. A bundle that is not marked redacted holds only
  added contents, each at most cut at a character boundary and marked as truncated: nothing was
  rewritten or dropped unnoticed.
\<close>

theorem unredacted_context_verbatim:
  assumes "\<not> cx_redacted (builder_build t (builder_adds rx adds (builder_new bud)))"
  shows "\<forall>i \<in> set (cx_items (builder_build t (builder_adds rx adds (builder_new bud)))).
    \<exists>c n. (ci_kind i, ci_path i, c) \<in> set adds
      \<and> ci_content i = truncate_text (char_boundary_prefix c MAX_REDACT_INPUT_BYTES) n"
  using builder_adds_verbatim [of rx adds "builder_new bud" "set adds"] assms
  by (auto simp: builder_build_def builder_new_def list_all_iff verbatim_def)

theorem unredacted_context_verbatim_witness:
  "list_all (\<lambda>i. \<exists>c n. (ci_kind i, ci_path i, c) \<in> set [(ChangedCode, Some ''a.rs'', ''fn f'')]
        \<and> ci_content i = truncate_text (char_boundary_prefix c MAX_REDACT_INPUT_BYTES) n)
     (cx_items (builder_build ''t'' (builder_adds (\<lambda>_ _. []) [(ChangedCode, Some ''a.rs'', ''fn f'')]
        (builder_new \<lparr>cb_max_tokens = 9, cb_max_files = 1, cb_max_bytes_per_file = 5\<rparr>))))"
  unfolding list_all_iff
proof (rule unredacted_context_verbatim)
  show "\<not> cx_redacted (builder_build ''t'' (builder_adds (\<lambda>_ _. []) [(ChangedCode, Some ''a.rs'', ''fn f'')]
        (builder_new \<lparr>cb_max_tokens = 9, cb_max_files = 1, cb_max_bytes_per_file = 5\<rparr>)))"
    by (simp add: builder_build_def builder_adds_def builder_new_def builder_add_def redact_no_match
        char_boundary_prefix_def MAX_REDACT_INPUT_BYTES_def CHARS_PER_TOKEN_def truncate_text_def)
qed

end
