(* ===== verification/Report.thy ===== *)
theory Report
  imports Packager
begin

text \<open>
  The crate \<open>jitgen-report\<close>: the records of a run report (\<open>model.rs\<close>) and the escaping every
  exporter applies to untrusted strings (\<open>escape.rs\<close>). Serialisation is derived code and not
  modelled. The escape sequences are recognised on the characters of the string, with the
  remaining input passed on explicitly.
\<close>

section \<open>The data contract\<close>

definition REPORT_SCHEMA_VERSION :: u32 where "REPORT_SCHEMA_VERSION = 1"

datatype severity = HighSeverity | MediumSeverity | LowSeverity

fun sarif_level :: "severity \<Rightarrow> str" where
  "sarif_level HighSeverity = ''error''"
| "sarif_level MediumSeverity = ''warning''"
| "sarif_level LowSeverity = ''note''"

fun severity_as_str :: "severity \<Rightarrow> str" where
  "severity_as_str HighSeverity = ''high''"
| "severity_as_str MediumSeverity = ''medium''"
| "severity_as_str LowSeverity = ''low''"

fun severity_of :: "catch_decision \<Rightarrow> f64 \<Rightarrow> severity" where
  "severity_of StrongCatch _ = HighSeverity"
| "severity_of Uncertain _ = MediumSeverity"
| "severity_of StrictlyWeak _ = LowSeverity"

record run_summary =
  rs_targets_selected :: nat
  rs_candidates_generated :: nat
  rs_accepted :: nat
  rs_catches :: nat
  rs_rejected :: nat

record accepted_test =
  at_target :: str
  at_symbol :: "str option"
  at_language :: str
  at_path :: str
  at_source :: str
  at_class :: catch_class
  at_reproduction :: str

record mutant_info =
  mi_id :: str
  mi_risk_description :: str
  mi_path :: str

record catch_evidence =
  ce_base_exit_code :: "int option"
  ce_head_exit_code :: "int option"
  ce_base_output :: str
  ce_head_output :: str

record catch_report =
  cr_target :: str
  cr_language :: str
  cr_path :: str
  cr_source :: str
  cr_class :: catch_class
  cr_decision :: catch_decision
  cr_tp_probability :: f64
  cr_bucket :: tp_bucket
  cr_rationale :: str
  cr_mutant :: "mutant_info option"
  cr_changed_path :: "str option"
  cr_changed_line :: "u32 option"
  cr_reproduction :: str
  cr_evidence :: "catch_evidence option"

definition from_assessment ::
  "str \<Rightarrow> str \<Rightarrow> str \<Rightarrow> str \<Rightarrow> weak_catch_assessment \<Rightarrow> mutant_info option \<Rightarrow> str option \<Rightarrow> u32 option
    \<Rightarrow> str \<Rightarrow> catch_evidence option \<Rightarrow> catch_report" where
  "from_assessment target language path source assessment mut changed_path changed_line repro evidence =
     \<lparr>cr_target = target, cr_language = language, cr_path = path, cr_source = source,
      cr_class = WeakCatch, cr_decision = wa_decision assessment,
      cr_tp_probability = wa_tp_probability assessment, cr_bucket = wa_bucket assessment,
      cr_rationale = wa_rationale assessment, cr_mutant = mut, cr_changed_path = changed_path,
      cr_changed_line = changed_line, cr_reproduction = repro, cr_evidence = evidence\<rparr>"

record rejected_candidate =
  rj_target :: str
  rj_path :: str
  rj_reason :: str
  rj_class :: "catch_class option"

record run_report =
  rr_schema_version :: u32
  rr_jitgen_version :: str
  rr_run_id :: str
  rr_repo :: str
  rr_base :: str
  rr_head :: str
  rr_mode :: run_mode
  rr_strategy :: strategy
  rr_summary :: run_summary
  rr_accepted :: "accepted_test list"
  rr_catches :: "catch_report list"
  rr_rejected :: "rejected_candidate list"
  rr_warnings :: "str list"

section \<open>Stripping controls\<close>

definition CAP_NAME :: nat where "CAP_NAME = 512"
definition CAP_TEXT :: nat where "CAP_TEXT = 8 * 1024"
definition CAP_SOURCE :: nat where "CAP_SOURCE = 64 * 1024"

definition is_strippable :: "str \<Rightarrow> bool" where
  "is_strippable k \<longleftrightarrow>
     cp k \<le> 8 \<or> cp k = 11 \<or> cp k = 12 \<or> cp k = 13 \<or> 14 \<le> cp k \<and> cp k \<le> 31
     \<or> cp k = 127 \<or> 128 \<le> cp k \<and> cp k \<le> 159 \<or> cp k = 8232 \<or> cp k = 8233
     \<or> 8203 \<le> cp k \<and> cp k \<le> 8207 \<or> 8234 \<le> cp k \<and> cp k \<le> 8238
     \<or> 8294 \<le> cp k \<and> cp k \<le> 8297 \<or> cp k = 65279"

fun consume_csi_body :: "str list \<Rightarrow> str list" where
  "consume_csi_body [] = []"
| "consume_csi_body (c # cs) = (if 64 \<le> cp c \<and> cp c \<le> 126 then cs else consume_csi_body cs)"

fun consume_osc_body :: "str list \<Rightarrow> str list" where
  "consume_osc_body [] = []"
| "consume_osc_body (c # cs) =
     (if cp c = 7 then cs
      else if cp c = 27 then (case cs of d # ds \<Rightarrow> if cp d = 92 then ds else cs | [] \<Rightarrow> [])
      else consume_osc_body cs)"

definition consume_escape :: "str list \<Rightarrow> str list" where
  "consume_escape cs =
     (case cs of
        [] \<Rightarrow> []
      | c # r \<Rightarrow> if cp c = 91 then consume_csi_body r
                 else if cp c = 93 then consume_osc_body r
                 else r)"

lemma suffix_consume_csi: "suffix (consume_csi_body cs) cs"
  by (induction cs) (simp_all add: suffix_Cons)

lemma suffix_consume_osc: "suffix (consume_osc_body cs) cs"
proof (induction cs)
  case (Cons c cs)
  have "suffix (case cs of d # ds \<Rightarrow> if cp d = 92 then ds else cs | [] \<Rightarrow> []) cs"
    by (cases cs) (simp_all add: suffix_ConsI)
  with Cons show ?case by (simp add: suffix_Cons)
qed simp

lemma suffix_consume_escape: "suffix (consume_escape cs) cs"
  using suffix_consume_csi [of "tl cs"] suffix_consume_osc [of "tl cs"]
  by (cases cs) (simp_all add: consume_escape_def suffix_ConsI)

lemmas consume_le [simp] =
  suffix_consume_csi [THEN suffix_length_le] suffix_consume_escape [THEN suffix_length_le]

lemmas consume_subset =
  suffix_consume_csi [THEN set_mono_suffix] suffix_consume_escape [THEN set_mono_suffix]

function strip_chunks :: "str list \<Rightarrow> str list" where
  "strip_chunks [] = []"
| "strip_chunks (c # cs) =
     (if cp c = 27 then strip_chunks (consume_escape cs)
      else if cp c = 155 then strip_chunks (consume_csi_body cs)
      else if cp c = 10 \<or> cp c = 9 then c # strip_chunks cs
      else if is_strippable c then strip_chunks cs
      else c # strip_chunks cs)"
  by pat_completeness auto
termination
  by (relation "measure length")
    (simp_all add: less_Suc_eq_le)

definition strip_controls :: "str \<Rightarrow> str" where
  "strip_controls s = concat (strip_chunks (chars s))"

section \<open>Caps\<close>

definition cap :: "str \<Rightarrow> nat \<Rightarrow> str" where
  "cap s max_bytes =
     (if length s \<le> max_bytes then s
      else if max_bytes < length TRUNCATION_MARKER
      then take (back_up TRUNCATION_MARKER max_bytes) TRUNCATION_MARKER
      else take (back_up s (max_bytes - length TRUNCATION_MARKER)) s @ TRUNCATION_MARKER)"

definition sanitize :: "str \<Rightarrow> nat \<Rightarrow> str" where
  "sanitize s max_bytes = cap (strip_controls s) max_bytes"

definition map_chars :: "(str \<Rightarrow> str) \<Rightarrow> str \<Rightarrow> str" where
  "map_chars f s = concat (map f (chars s))"

definition flat_char :: "str \<Rightarrow> str" where
  "flat_char k = (if cp k = 10 \<or> cp k = 9 then '' '' else k)"

definition sanitize_line :: "str \<Rightarrow> nat \<Rightarrow> str" where
  "sanitize_line s max_bytes = map_chars flat_char (sanitize s max_bytes)"

section \<open>Markup\<close>

definition MD_PUNCT :: str where
  "MD_PUNCT = [CHR 0x5C, CHR 0x60] @ ''*_{}[]()#+-.!|~''"

definition md_char :: "str \<Rightarrow> str" where
  "md_char k =
     (if k = [LF] \<or> k = [CR] then '' ''
      else if k = ''&'' then ''&amp;''
      else if k = ''<'' then ''&lt;''
      else if k = ''>'' then ''&gt;''
      else if length k = 1 \<and> hd k \<in> set MD_PUNCT then CHR 0x5C # k
      else k)"

definition md_inline :: "str \<Rightarrow> nat \<Rightarrow> str" where
  "md_inline s max_bytes = map_chars md_char (sanitize s max_bytes)"

definition ZWSP :: str where "ZWSP = [CHR 0xE2, CHR 0x80, CHR 0x8B]"

text \<open>\<open>flush\<close>: a run of at least three is broken up.\<close>

definition flush_run :: "nat \<Rightarrow> char \<Rightarrow> str" where
  "flush_run n ch = (if 3 \<le> n then concat (replicate n (ch # ZWSP)) else replicate n ch)"

fun code_block_loop :: "nat \<Rightarrow> nat \<Rightarrow> str list \<Rightarrow> str" where
  "code_block_loop backticks tildes [] = flush_run backticks (CHR 0x60) @ flush_run tildes (CHR ''~'')"
| "code_block_loop backticks tildes (c # cs) =
     (if c = [CHR 0x60] then flush_run tildes (CHR ''~'') @ code_block_loop (Suc backticks) 0 cs
      else if c = ''~'' then flush_run backticks (CHR 0x60) @ code_block_loop 0 (Suc tildes) cs
      else flush_run backticks (CHR 0x60) @ flush_run tildes (CHR ''~'') @ c @ code_block_loop 0 0 cs)"

definition md_code_block :: "str \<Rightarrow> nat \<Rightarrow> str" where
  "md_code_block s max_bytes = code_block_loop 0 0 (chars (sanitize s max_bytes))"

definition xml_text_char :: "str \<Rightarrow> str" where
  "xml_text_char k =
     (if k = ''&'' then ''&amp;''
      else if k = ''<'' then ''&lt;''
      else if k = ''>'' then ''&gt;''
      else k)"

definition xml_attr_char :: "str \<Rightarrow> str" where
  "xml_attr_char k =
     (if k = [LF] \<or> k = [TAB] \<or> k = [CR] then '' ''
      else if k = [CHR 0x22] then ''&quot;''
      else if k = [CHR 0x27] then ''&apos;''
      else xml_text_char k)"

definition xml_attr :: "str \<Rightarrow> nat \<Rightarrow> str" where
  "xml_attr s max_bytes = map_chars xml_attr_char (sanitize s max_bytes)"

definition xml_text :: "str \<Rightarrow> nat \<Rightarrow> str" where
  "xml_text s max_bytes = map_chars xml_text_char (sanitize s max_bytes)"

section \<open>Lemmas\<close>

lemma cap_truncate: "cap s n = truncate_text s n"
  by (simp add: cap_def truncate_text_def)

text \<open>A character that survives the stripping.\<close>

definition inert :: "str \<Rightarrow> bool" where
  "inert k \<longleftrightarrow> cp k = 10 \<or> cp k = 9 \<or> \<not> is_strippable k"

lemma inert_not_escape: "inert k \<Longrightarrow> cp k \<noteq> 27 \<and> cp k \<noteq> 155"
  by (auto simp: inert_def is_strippable_def)

lemma strip_chunks_inert: "list_all inert (strip_chunks ks)"
  by (induction ks rule: strip_chunks.induct) (simp_all add: inert_def)

lemma strip_chunks_id: "list_all inert ks \<Longrightarrow> strip_chunks ks = ks"
proof (induction ks)
  case (Cons k ks)
  then have "inert k" "strip_chunks ks = ks" by simp_all
  moreover have "cp k \<noteq> 27" "cp k \<noteq> 155" using inert_not_escape [OF \<open>inert k\<close>] by simp_all
  ultimately show ?case by (simp add: inert_def) blast
qed simp

lemma set_strip_chunks: "set (strip_chunks ks) \<subseteq> set ks"
proof (induction ks rule: strip_chunks.induct)
  case (2 c cs)
  note IH = 2
  consider "cp c = 27" | "cp c = 155" | "cp c \<noteq> 27" "cp c \<noteq> 155" by blast
  then show ?case
  proof cases
    case 1
    then have "set (strip_chunks (c # cs)) \<subseteq> set (consume_escape cs)" using IH(1) by simp
    then show ?thesis using consume_subset(2) [of cs] by (meson order_trans set_subset_Cons)
  next
    case 2
    then have "set (strip_chunks (c # cs)) \<subseteq> set (consume_csi_body cs)" using IH(2) by simp
    then show ?thesis using consume_subset(1) [of cs] by (meson order_trans set_subset_Cons)
  next
    case 3
    then show ?thesis using IH(3-5) by (cases "cp c = 10 \<or> cp c = 9"; cases "is_strippable c") auto
  qed
qed simp

lemma utf8_strip_controls: "utf8 s \<Longrightarrow> utf8 (strip_controls s)"
  using set_strip_chunks [of "chars s"]
  by (simp add: strip_controls_def utf8_def [of s] list_all_iff utf8_concat subset_iff)

lemma chars_strip_controls: "utf8 s \<Longrightarrow> chars (strip_controls s) = strip_chunks (chars s)"
  using set_strip_chunks [of "chars s"]
  by (simp add: strip_controls_def utf8_def list_all_iff chars_concat subset_iff valid_char_chunk)

lemma chars_strip_inert: "utf8 s \<Longrightarrow> list_all inert (chars (strip_controls s))"
  by (simp add: chars_strip_controls strip_chunks_inert)

lemma inert_marker: "list_all inert (chars TRUNCATION_MARKER)"
  by (simp add: TRUNCATION_MARKER_def inert_def is_strippable_def cp_def is_cont_def)

lemma list_all_take_chars: 
  assumes "list_all P (chars s)" "is_char_boundary s n" "n \<le> length s"
  shows "list_all P (chars (take n s))"
  using take_boundary_chars [OF assms(2,3)] assms(1) by simp

lemma chars_cap_inert:
  assumes "list_all inert (chars s)"
  shows "list_all inert (chars (cap s n))"
proof -
  have m: "list_all inert (chars (take (back_up TRUNCATION_MARKER n) TRUNCATION_MARKER))" if "n < 14"
    using that back_up_le [of TRUNCATION_MARKER n]
    by (intro list_all_take_chars inert_marker back_up_boundary) auto
  have "list_all inert (chars (take (back_up s (n - 14)) s))" if "n < length s"
    using that back_up_le [of s "n - 14"]
    by (intro list_all_take_chars assms back_up_boundary) auto
  moreover have "\<not> starts_cont TRUNCATION_MARKER"
    using utf8_not_starts_cont [OF utf8_TRUNCATION_MARKER] .
  ultimately show ?thesis
    using assms m inert_marker by (auto simp: cap_def chars_append)
qed

lemma utf8_sanitize: "utf8 s \<Longrightarrow> utf8 (sanitize s n)"
  by (simp add: sanitize_def cap_truncate utf8_truncate utf8_strip_controls)

lemma sanitize_inert: "utf8 s \<Longrightarrow> list_all inert (chars (sanitize s n))"
  by (simp add: sanitize_def chars_cap_inert chars_strip_inert)

lemma length_sanitize: "length (sanitize s n) \<le> n"
  by (simp add: sanitize_def cap_truncate length_truncate)

lemma strip_controls_inert: "list_all inert (chars s) \<Longrightarrow> strip_controls s = s"
  by (simp add: strip_controls_def strip_chunks_id)

text \<open>Mapping over characters, and undoing it.\<close>

lemma utf8_ascii_byte:
  assumes "utf8 s" "b \<in> set s" "code b < 128"
  shows "[b] \<in> set (chars s)"
proof -
  obtain k where k: "k \<in> set (chars s)" "b \<in> set k"
    using assms(2) concat_chars [of s] by (metis UN_E set_concat)
  then have "valid_char k" using assms(1) by (simp add: utf8_def list_all_iff)
  then have "k = [b]"
    using k(2) assms(3) code_lt_128 [OF assms(3)]
    by (auto simp: valid_char_def split: list.splits)
  with k(1) show ?thesis by simp
qed

lemma map_chars_byte:
  "b \<in> set (map_chars f s) \<longleftrightarrow> (\<exists>k \<in> set (chars s). b \<in> set (f k))"
  by (simp add: map_chars_def)

text \<open>\<open>&amp;\<close>, \<open>&lt;\<close>, \<open>&gt;\<close>, \<open>&quot;\<close> and \<open>&apos;\<close> read as an XML or HTML reader reads them.\<close>

fun unentity :: "str \<Rightarrow> str" where
  "unentity [] = []"
| "unentity (c # s) =
     (if c = CHR ''&'' then
        (if starts_with s ''amp;'' then CHR ''&'' # unentity (drop 4 s)
         else if starts_with s ''lt;'' then CHR ''<'' # unentity (drop 3 s)
         else if starts_with s ''gt;'' then CHR ''>'' # unentity (drop 3 s)
         else if starts_with s ''quot;'' then CHR 0x22 # unentity (drop 5 s)
         else if starts_with s ''apos;'' then CHR 0x27 # unentity (drop 5 s)
         else c # unentity s)
      else c # unentity s)"

lemma unentity_plain: "CHR ''&'' \<notin> set k \<Longrightarrow> unentity (k @ s) = k @ unentity s"
  by (induction k) auto

lemma amp_chunk: "valid_char k \<Longrightarrow> CHR ''&'' \<in> set k \<Longrightarrow> k = ''&''"
  by (auto simp: valid_char_def is_cont_def split: list.splits)

lemma unentity_entities:
  "unentity (''&amp;'' @ s) = ''&'' @ unentity s"
  "unentity (''&lt;'' @ s) = ''<'' @ unentity s"
  "unentity (''&gt;'' @ s) = ''>'' @ unentity s"
  "unentity (''&quot;'' @ s) = [CHR 0x22] @ unentity s"
  "unentity (''&apos;'' @ s) = [CHR 0x27] @ unentity s"
  by (simp_all add: starts_with_def)

lemma unentity_xml_text: "valid_char k \<Longrightarrow> unentity (xml_text_char k @ s) = k @ unentity s"
proof -
  assume k: "valid_char k"
  consider "k = ''&''" | "k = ''<''" | "k = ''>''" | "xml_text_char k = k" "k \<noteq> ''&''"
    by (metis xml_text_char_def)
  then show ?thesis
  proof cases
    case 4
    then have "CHR ''&'' \<notin> set k" using amp_chunk [OF k] by blast
    then show ?thesis using 4 unentity_plain [of k s] by simp
  qed (simp_all add: xml_text_char_def starts_with_def)
qed

lemma cp_ascii:
  assumes "valid_char k" "cp k < 128"
  shows "\<exists>b. k = [b] \<and> cp k = code b"
proof -
  have sub: "n mod b = n - a * b" if "a * b \<le> n" "n < Suc a * b" for n a b :: nat
    using that mod_nat_eqI [of "n - a * b" b n] by (simp add: le_imp_diff_is_add)
  have two: "2 \<le> n mod 32" if "194 \<le> n" "n < 224" for n :: nat
    using that sub [of 6 32 n] by simp
  have low: "m mod 64 = m - 128" if "128 \<le> m" "m < 192" for m :: nat
    using that sub [of 2 64 m] by simp
  have three: "1 \<le> n mod 16 \<or> 32 \<le> m mod 64"
    if "224 \<le> n" "n < 240" "n = 224 \<longrightarrow> 160 \<le> m" "128 \<le> m" "m < 192" for n m :: nat
    using that sub [of 14 16 n] low [of m] by (cases "n = 224") (simp_all, arith)
  have four: "1 \<le> n mod 8 \<or> 16 \<le> m mod 64"
    if "240 \<le> n" "n < 245" "n = 240 \<longrightarrow> 144 \<le> m" "128 \<le> m" "m < 192" for n m :: nat
    using that sub [of 30 8 n] low [of m] by (cases "n = 240") (simp_all, arith)
  consider b where "k = [b]" | b c where "k = [b, c]" | b c d where "k = [b, c, d]"
    | b c d e where "k = [b, c, d, e]"
    using assms(1) by (auto simp: valid_char_def split: list.splits)
  then show ?thesis
  proof cases
    case (2 b c)
    then show ?thesis using assms two [of "code b"] by (simp add: valid_char_def cp_def)
  next
    case (3 b c d)
    then show ?thesis using assms three [of "code b" "code c"]
      by (simp add: valid_char_def cp_def is_cont_code)
  next
    case (4 b c d e)
    then show ?thesis using assms four [of "code b" "code c"]
      by (simp add: valid_char_def cp_def is_cont_code)
  qed (simp add: cp_def)
qed

lemma cp_eq_ascii: "valid_char k \<Longrightarrow> code b < 128 \<Longrightarrow> cp k = code b \<longleftrightarrow> k = [b]"
  using cp_ascii [of k] by (auto simp: cp_def)

lemma flat_char_valid: "valid_char k \<Longrightarrow> flat_char k = (if k = [LF] \<or> k = [TAB] then '' '' else k)"
  using cp_eq_ascii [of k LF] cp_eq_ascii [of k TAB] by (simp add: flat_char_def LF_def TAB_def)

lemma unentity_xml_attr:
  assumes "valid_char k" "k \<noteq> [CR]"
  shows "unentity (xml_attr_char k @ s) = flat_char k @ unentity s"
proof -
  consider "k = [LF] \<or> k = [TAB]" | "k = [CHR 0x22]" | "k = [CHR 0x27]"
    | "xml_attr_char k = xml_text_char k" "k \<noteq> [LF]" "k \<noteq> [TAB]"
    using assms(2) by (metis xml_attr_char_def)
  then show ?thesis
  proof cases
    case 1
    then show ?thesis using assms by (auto simp: xml_attr_char_def flat_char_valid)
  next
    case 4
    then show ?thesis using assms by (simp add: flat_char_valid unentity_xml_text)
  qed (simp_all add: xml_attr_char_def flat_char_def cp_def LF_def TAB_def CR_def starts_with_def)
qed

lemma map_chars_undo:
  assumes "\<And>k s. valid_char k \<Longrightarrow> P k \<Longrightarrow> dec (f k @ s) = g k @ dec s" "dec [] = []"
    and "utf8 t" "list_all P (chars t)"
  shows "dec (map_chars f t) = map_chars g t"
proof -
  have "dec (concat (map f ks)) = concat (map g ks)" if "list_all valid_char ks" "list_all P ks" for ks
    using that by (induction ks) (simp_all add: assms(1,2))
  then show ?thesis using assms(3,4) by (simp add: map_chars_def utf8_def)
qed

lemma map_chars_id: "map_chars (\<lambda>k. k) s = s"
  by (simp add: map_chars_def)

lemma inert_not_CR: "inert k \<Longrightarrow> k \<noteq> [CR]"
proof
  assume "inert k" "k = [CR]"
  moreover from \<open>k = [CR]\<close> have "cp k = 13" by (simp add: cp_def CR_def)
  ultimately show False by (simp add: inert_def is_strippable_def)
qed

lemma ascii_in_valid: "valid_char k \<Longrightarrow> b \<in> set k \<Longrightarrow> code b < 128 \<Longrightarrow> k = [b]"
  using code_lt_128 [of b] by (auto simp: valid_char_def split: list.splits)

text \<open>A mapping over characters leaves no byte of an ASCII set if no image of a character does.\<close>

lemma map_chars_avoids:
  assumes "utf8 t" "list_all P (chars t)" "\<And>k. valid_char k \<Longrightarrow> P k \<Longrightarrow> set (f k) \<inter> B = {}"
  shows "set (map_chars f t) \<inter> B = {}"
  using assms by (fastforce simp: map_chars_def utf8_def list_all_iff)

lemma unchanged_avoids:
  assumes "valid_char k" "\<forall>b \<in> B. code b < 128" "\<forall>b \<in> B. k \<noteq> [b]"
  shows "set k \<inter> B = {}"
  using ascii_in_valid [OF assms(1)] assms(2,3) by blast

lemma xml_text_char_avoids:
  assumes "valid_char k"
  shows "set (xml_text_char k) \<inter> {CHR ''<'', CHR ''>''} = {}"
proof -
  consider "k = ''&''" | "k = ''<''" | "k = ''>''" | "xml_text_char k = k" "k \<noteq> ''<''" "k \<noteq> ''>''"
    by (metis xml_text_char_def)
  then show ?thesis
  proof cases
    case 4
    then show ?thesis using unchanged_avoids [OF assms, of "{CHR ''<'', CHR ''>''}"] by simp
  qed (simp_all add: xml_text_char_def)
qed

lemma xml_attr_char_avoids:
  assumes "valid_char k" "inert k"
  shows "set (xml_attr_char k) \<inter> {CHR ''<'', CHR ''>'', CHR 0x22, CHR 0x27, LF, TAB, CR} = {}"
proof -
  let ?B = "{CHR ''<'', CHR ''>'', CHR 0x22, CHR 0x27, LF, TAB, CR}"
  consider "k = [LF]" | "k = [TAB]" | "k = [CHR 0x22]" | "k = [CHR 0x27]" | "k = ''&''" | "k = ''<''" | "k = ''>''"
    | "xml_attr_char k = k" "\<forall>b \<in> ?B. k \<noteq> [b]"
    using inert_not_CR [OF assms(2)]
    by (cases "k = ''&''") (auto simp: xml_attr_char_def xml_text_char_def)
  then show ?thesis
  proof cases
    case 8
    have "\<forall>b \<in> ?B. code b < 128" by (simp add: LF_def TAB_def CR_def)
    then show ?thesis using unchanged_avoids [OF assms(1) _ 8(2)] 8(1) by simp
  qed (simp_all add: xml_attr_char_def xml_text_char_def LF_def TAB_def CR_def)
qed

subsection \<open>Markdown\<close>

text \<open>A Markdown reader: a backslash takes the next character literally, entities are decoded.
  \<open>live\<close> are the bytes that are not taken literally.\<close>

fun unmd :: "str \<Rightarrow> str" where
  "unmd [] = []"
| "unmd [c] = [c]"
| "unmd (c # d # s) =
     (if c = CHR 0x5C then d # unmd s
      else if c = CHR ''&'' then
        (if starts_with (d # s) ''amp;'' then CHR ''&'' # unmd (drop 3 s)
         else if starts_with (d # s) ''lt;'' then CHR ''<'' # unmd (drop 2 s)
         else if starts_with (d # s) ''gt;'' then CHR ''>'' # unmd (drop 2 s)
         else c # unmd (d # s))
      else c # unmd (d # s))"

fun live :: "str \<Rightarrow> char set" where
  "live [] = {}"
| "live [c] = {c}"
| "live (c # d # s) = (if c = CHR 0x5C then live s else insert c (live (d # s)))"

definition md_flat :: "str \<Rightarrow> str" where
  "md_flat k = (if k = [LF] then '' '' else k)"

lemma unmd_plain: "CHR 0x5C \<notin> set k \<Longrightarrow> CHR ''&'' \<notin> set k \<Longrightarrow> unmd (k @ s) = k @ unmd s"
proof (induction k)
  case (Cons c k)
  then show ?case by (cases "k @ s") auto
qed simp

lemma live_plain: "CHR 0x5C \<notin> set k \<Longrightarrow> live (k @ s) = set k \<union> live s"
proof (induction k)
  case (Cons c k)
  then show ?case by (cases "k @ s") auto
qed simp

lemma md_char_cases:
  assumes "valid_char k" "inert k"
  obtains "k = [LF]" "md_char k = '' ''" | "k = ''&''" "md_char k = ''&amp;''"
    | "k = ''<''" "md_char k = ''&lt;''" | "k = ''>''" "md_char k = ''&gt;''"
    | c where "c \<in> set MD_PUNCT" "k = [c]" "md_char k = [CHR 0x5C, c]"
    | "md_char k = k" "k \<noteq> [LF]" "set k \<inter> (set MD_PUNCT \<union> {CHR ''&'', CHR ''<'', CHR ''>''}) = {}"
proof -
  consider "k = [LF]" | "k = ''&''" | "k = ''<''" | "k = ''>''" | c where "k = [c]" "c \<in> set MD_PUNCT"
    | "k \<noteq> [LF]" "\<forall>b \<in> set MD_PUNCT \<union> {CHR ''&'', CHR ''<'', CHR ''>''}. k \<noteq> [b]"
    by blast
  then show thesis
  proof cases
    case (5 c)
    then have "md_char k = [CHR 0x5C, c]"
      by (auto simp: md_char_def MD_PUNCT_def LF_def CR_def)
    with 5 that(5) show thesis by blast
  next
    case 6
    have "\<forall>b \<in> set MD_PUNCT \<union> {CHR ''&'', CHR ''<'', CHR ''>''}. code b < 128"
      by (simp add: MD_PUNCT_def)
    then have "set k \<inter> (set MD_PUNCT \<union> {CHR ''&'', CHR ''<'', CHR ''>''}) = {}"
      using unchanged_avoids [OF assms(1) _ 6(2)] by blast
    moreover have "\<not> (length k = 1 \<and> hd k \<in> set MD_PUNCT)"
      using 6(2) by (cases k) auto
    then have "md_char k = k"
      using 6 inert_not_CR [OF assms(2)] unfolding md_char_def by (simp del: One_nat_def)
    ultimately show thesis using 6(1) that(6) by blast
  qed (use that in \<open>auto simp: md_char_def LF_def CR_def MD_PUNCT_def\<close>)
qed

lemma unmd_md_char:
  assumes "valid_char k" "inert k"
  shows "unmd (md_char k @ s) = md_flat k @ unmd s"
  using assms
proof (cases k rule: md_char_cases)
  case 6
  then show ?thesis by (simp add: md_flat_def) (rule unmd_plain, auto simp: MD_PUNCT_def)
next
  case (5 c)
  then show ?thesis by (auto simp: md_flat_def LF_def MD_PUNCT_def)
qed (cases s, auto simp: md_flat_def starts_with_def LF_def)

definition md_active :: "char set" where
  "md_active = set MD_PUNCT \<union> {CHR ''<'', CHR ''>'', LF}"

lemma live_md_char:
  assumes "valid_char k" "inert k"
  shows "live (md_char k @ s) \<inter> md_active \<subseteq> live s"
  using assms
proof (cases k rule: md_char_cases)
  case 6
  have "LF \<notin> set k" using ascii_in_valid [OF assms(1), of LF] 6(2) by (auto simp: LF_def)
  then show ?thesis using 6 live_plain [of k s] by (auto simp: md_active_def MD_PUNCT_def)
next
  case (5 c)
  then show ?thesis by auto
qed (auto simp: md_active_def MD_PUNCT_def LF_def live_plain [of "'' ''", simplified]
    live_plain [of "''&amp;''", simplified] live_plain [of "''&lt;''", simplified] live_plain [of "''&gt;''", simplified])

lemma live_map_md:
  assumes "utf8 t" "list_all inert (chars t)"
  shows "live (map_chars md_char t) \<inter> md_active = {}"
proof -
  have "live (concat (map md_char ks)) \<inter> md_active = {}"
    if "list_all valid_char ks" "list_all inert ks" for ks
    using that
  proof (induction ks)
    case (Cons k ks)
    then show ?case using live_md_char [of k "concat (map md_char ks)"] by auto
  qed simp
  then show ?thesis using assms by (simp add: map_chars_def utf8_def)
qed

subsection \<open>Code blocks\<close>

text \<open>\<open>nf a s\<close>: no three of the character \<open>a\<close> in a row.\<close>

definition nf :: "char \<Rightarrow> str \<Rightarrow> bool" where
  "nf a s \<longleftrightarrow> \<not> contains s [a, a, a]"

lemma nf_Nil [simp]: "nf a []"
  by (simp add: nf_def)

lemma nf_other: "x \<noteq> a \<Longrightarrow> nf a (x # s) \<longleftrightarrow> nf a s"
  by (simp add: nf_def starts_with_def)

lemma nf_others: "a \<notin> set x \<Longrightarrow> nf a (x @ s) \<longleftrightarrow> nf a s"
  by (induction x) (auto simp: nf_other)

lemma nf_one: "s = [] \<or> hd s \<noteq> a \<Longrightarrow> nf a (a # s) \<longleftrightarrow> nf a s"
  by (cases s) (auto simp: nf_def starts_with_def)

lemma nf_two: "s = [] \<or> hd s \<noteq> a \<Longrightarrow> nf a (a # a # s) \<longleftrightarrow> nf a s"
  by (cases s) (auto simp: nf_def starts_with_def)

lemma nf_any: "s = [] \<or> hd s \<noteq> a \<Longrightarrow> nf a (c # s) \<longleftrightarrow> nf a s"
  by (cases "c = a") (simp_all add: nf_one nf_other)

lemma nf_broken:
  "a \<in> {CHR 0x60, CHR ''~''} \<Longrightarrow> nf a (concat (replicate n (c # ZWSP)) @ s) \<longleftrightarrow> nf a s"
  by (induction n) (auto simp: ZWSP_def nf_other nf_any)

lemma nf_flush_same:
  assumes "a \<in> {CHR 0x60, CHR ''~''}" "s = [] \<or> hd s \<noteq> a"
  shows "nf a (flush_run n a @ s) \<longleftrightarrow> nf a s"
proof -
  consider "3 \<le> n" | "n = 0" | "n = 1" | "n = 2" by linarith
  then show ?thesis
    using nf_broken [OF assms(1)] nf_one [OF assms(2)] nf_two [OF assms(2)]
    by cases (simp_all add: flush_run_def numeral_2_eq_2)
qed

lemma nf_flush_other:
  assumes "a \<in> {CHR 0x60, CHR ''~''}" "b \<noteq> a"
  shows "nf a (flush_run n b @ s) \<longleftrightarrow> nf a s"
  using assms nf_broken [OF assms(1)] by (simp add: flush_run_def nf_others)

text \<open>The output starts with the run that is open, continued.\<close>

definition starts_other :: "char \<Rightarrow> str \<Rightarrow> bool" where
  "starts_other a s \<longleftrightarrow> s = [] \<or> hd s \<noteq> a"

definition run_form :: "char \<Rightarrow> nat \<Rightarrow> str \<Rightarrow> bool" where
  "run_form a n s \<longleftrightarrow> (\<exists>m r. s = flush_run (n + m) a @ r \<and> starts_other a r \<and> nf (CHR 0x60) r \<and> nf (CHR ''~'') r)"

lemma run_form_nf:
  "run_form a n s \<Longrightarrow> a \<in> {CHR 0x60, CHR ''~''} \<Longrightarrow> nf (CHR 0x60) s \<and> nf (CHR ''~'') s"
proof -
  assume "run_form a n s" and a: "a \<in> {CHR 0x60, CHR ''~''}"
  then obtain m r where s: "s = flush_run (n + m) a @ r" and r: "r = [] \<or> hd r \<noteq> a"
    and "nf (CHR 0x60) r" "nf (CHR ''~'') r"
    unfolding run_form_def starts_other_def by blast
  then have "nf b s" if "b \<in> {CHR 0x60, CHR ''~''}" for b
    unfolding s using that nf_flush_same [OF a r] nf_flush_other [of b a] by (cases "b = a") auto
  then show ?thesis by simp
qed

lemma flush_starts_other: "b \<noteq> a \<Longrightarrow> n \<noteq> 0 \<Longrightarrow> starts_other a (flush_run n b @ s)"
  by (cases n) (auto simp: flush_run_def starts_other_def)

lemma code_block_run_form:
  assumes "list_all valid_char ks"
  shows "run_form (CHR 0x60) n (code_block_loop n 0 ks) \<and> run_form (CHR ''~'') n (code_block_loop 0 n ks)"
  using assms
proof (induction ks arbitrary: n)
  case Nil
  then show ?case
    by (auto simp: run_form_def starts_other_def flush_run_def [of 0] intro!: exI [of _ 0])
next
  case (Cons k ks)
  let ?bt = "CHR 0x60" and ?tl = "CHR ''~''"
  have k: "valid_char k" and IH: "run_form ?bt n (code_block_loop n 0 ks)" "run_form ?tl n (code_block_loop 0 n ks)" for n
    using Cons by auto
  have zero: "flush_run 0 a = []" for a by (simp add: flush_run_def)
  have longer: "run_form a n s" if "run_form a (Suc n) s" for a s
    using that unfolding run_form_def by (metis add_Suc_shift)
  have opened: "run_form b n (flush_run n b @ s)"
    if "run_form a (Suc 0) s" "a \<in> {?bt, ?tl}" "a \<noteq> b" for a b s
    using that run_form_nf [OF that(1,2)] flush_starts_other [of a b]
    unfolding run_form_def by (metis Nat.add_0_right Zero_not_Suc add_Suc)
  consider "k = [?bt]" | "k = [?tl]" | "k \<noteq> [?bt]" "k \<noteq> [?tl]" by blast
  then show ?case
  proof cases
    case 1
    then show ?thesis using longer [OF IH(1)] opened [OF IH(1), of ?tl] by (simp add: zero)
  next
    case 2
    then show ?thesis using longer [OF IH(2)] opened [OF IH(2), of ?bt] by (simp add: zero)
  next
    case 3
    then have "?bt \<notin> set k" "?tl \<notin> set k" "k \<noteq> []"
      using ascii_in_valid [OF k] k by (auto simp: valid_char_def)
    moreover from this have "nf ?bt (k @ code_block_loop 0 0 ks)" "nf ?tl (k @ code_block_loop 0 0 ks)"
      using run_form_nf [OF IH(1) [of 0]] by (simp_all add: nf_others)
    moreover from calculation have "starts_other a (k @ code_block_loop 0 0 ks)" if "a \<in> {?bt, ?tl}" for a
      using that by (cases k) (auto simp: starts_other_def)
    ultimately have "run_form a n (flush_run n a @ k @ code_block_loop 0 0 ks)" if "a \<in> {?bt, ?tl}" for a
      using that unfolding run_form_def by (metis Nat.add_0_right)
    with 3 show ?thesis by (simp add: zero)
  qed
qed

text \<open>Dropping the zero-width spaces gives the text back.\<close>

definition run_chunks :: "nat \<Rightarrow> char \<Rightarrow> str list" where
  "run_chunks n a = (if 3 \<le> n then concat (replicate n [[a], ZWSP]) else replicate n [a])"

lemma concat_broken: "concat (concat (replicate n [[a], ZWSP])) = concat (replicate n (a # ZWSP))"
  by (induction n) simp_all

lemma concat_ones: "concat (replicate n [a]) = replicate n a"
  by (induction n) simp_all

lemma flush_run_chunks: "flush_run n a = concat (run_chunks n a)"
  by (simp add: flush_run_def run_chunks_def concat_broken concat_ones)

lemma run_chunks_chunk: "code a < 128 \<Longrightarrow> list_all chunk (run_chunks n a)"
  using code_lt_128 [of a] by (auto simp: run_chunks_def list_all_iff chunk_def ZWSP_def is_cont_def)

lemma chars_flush_run:
  "code a < 128 \<Longrightarrow> chars (flush_run n a) = run_chunks n a \<and> \<not> starts_cont (flush_run n a)"
  using run_chunks_chunk [of a n] chars_concat [of "run_chunks n a"] concat_chunks_hd [of "run_chunks n a"]
  by (simp add: flush_run_chunks)

lemma filter_broken: "filter (\<lambda>k. k \<noteq> ZWSP) (concat (replicate m [[a], ZWSP])) = replicate m [a]"
  by (induction m) (simp_all add: ZWSP_def)

lemma filter_flush:
  "code a < 128 \<Longrightarrow> filter (\<lambda>k. k \<noteq> ZWSP) (chars (flush_run n a)) = replicate n [a]"
  by (simp add: chars_flush_run run_chunks_def filter_broken) (simp add: ZWSP_def)

lemma not_cont_append: "\<not> starts_cont s \<Longrightarrow> \<not> starts_cont t \<Longrightarrow> \<not> starts_cont (s @ t)"
  by (cases s) auto

lemma flush_prefix:
  assumes "code a < 128" "\<not> starts_cont s"
  shows "\<not> starts_cont (flush_run n a @ s) \<and>
    filter (\<lambda>k. k \<noteq> ZWSP) (chars (flush_run n a @ s)) = replicate n [a] @ filter (\<lambda>k. k \<noteq> ZWSP) (chars s)"
proof
  show "\<not> starts_cont (flush_run n a @ s)"
    using chars_flush_run [OF assms(1), of n] by (intro not_cont_append assms(2)) simp
  show "filter (\<lambda>k. k \<noteq> ZWSP) (chars (flush_run n a @ s)) = replicate n [a] @ filter (\<lambda>k. k \<noteq> ZWSP) (chars s)"
    using filter_flush [OF assms(1), of n] by (simp add: chars_append [OF assms(2)])
qed

lemma code_block_chars:
  assumes "list_all valid_char ks" "ZWSP \<notin> set ks" "b = 0 \<or> t = 0"
  shows "\<not> starts_cont (code_block_loop b t ks) \<and>
    filter (\<lambda>k. k \<noteq> ZWSP) (chars (code_block_loop b t ks)) = replicate b [CHR 0x60] @ replicate t ''~'' @ ks"
  using assms
proof (induction ks arbitrary: b t)
  case Nil
  then show ?case
    using flush_prefix [of "CHR ''~''" "[]" t] flush_prefix [of "CHR 0x60" "flush_run t (CHR ''~'')" b]
    by simp
next
  case (Cons k ks)
  let ?f = "filter (\<lambda>k. k \<noteq> ZWSP)"
  have IH: "\<not> starts_cont (code_block_loop b t ks) \<and>
      ?f (chars (code_block_loop b t ks)) = replicate b [CHR 0x60] @ replicate t ''~'' @ ks" if "b = 0 \<or> t = 0" for b t
    using Cons that by simp
  note pre = flush_prefix [of "CHR ''~''"] flush_prefix [of "CHR 0x60"]
  consider "k = [CHR 0x60]" | "k = ''~''" | "k \<noteq> [CHR 0x60]" "k \<noteq> ''~''" by blast
  then show ?case
  proof cases
    case 1
    then show ?thesis using pre(1) [of "code_block_loop (Suc b) 0 ks" t] IH [of "Suc b" 0] Cons.prems(3)
      by (auto simp: replicate_app_Cons_same replicate_append_same)
  next
    case 2
    then show ?thesis using pre(2) [of "code_block_loop 0 (Suc t) ks" b] IH [of 0 "Suc t"] Cons.prems(3)
      by (auto simp: replicate_app_Cons_same replicate_append_same)
  next
    case 3
    let ?s = "k @ code_block_loop 0 0 ks"
    have k: "chunk k" "k \<noteq> ZWSP" using Cons.prems by (auto simp: valid_char_chunk)
    then have "\<not> starts_cont ?s" by (cases k) (auto simp: chunk_def)
    moreover have "?f (chars ?s) = k # ks"
      using IH [of 0 0] k by (simp add: chars_append chars_chunk_single)
    ultimately show ?thesis
      using 3 pre(1) [of ?s t] pre(2) [of "flush_run t (CHR ''~'') @ ?s" b] by simp
  qed
qed


section \<open>Properties\<close>

text \<open>
  C35: Sanitised text is inert and bounded. Of any string, \<open>sanitize\<close> keeps at most the cap, leaves
  a well-formed string in which every character is a line feed, a tab or none of the stripped
  ones (so no escape, no C0 or C1 control, no separator, no listed bidi or zero-width character),
  and changes nothing when applied again with the same cap.
\<close>

theorem sanitize_inert_bounded:
  assumes "utf8 s"
  shows "length (sanitize s n) \<le> n \<and> utf8 (sanitize s n)
    \<and> list_all inert (chars (sanitize s n)) \<and> sanitize (sanitize s n) n = sanitize s n"
  using assms length_sanitize [of s n] sanitize_inert [OF assms, of n]
    sanitize_def [of "sanitize s n" n]
  by (simp add: utf8_sanitize strip_controls_inert cap_def)

theorem sanitize_inert_bounded_witness:
  "list_all inert (chars (sanitize ([CHR 0x1B] @ ''[31mred'' @ [CHR 0x1B] @ ''[0m'') 20))"
  using sanitize_inert_bounded [of "[CHR 0x1B] @ ''[31mred'' @ [CHR 0x1B] @ ''[0m''" 20]
  by (simp add: utf8_ascii ascii_def)

text \<open>
  XML values cannot leave their place and lose nothing. An attribute value contains no \<open><\<close>,
  \<open>>\<close>, quote, tab or line feed, and an XML reader decodes it to the sanitised single-line value;
  an element text contains no \<open><\<close> or \<open>>\<close> and decodes to the sanitised value.
\<close>

theorem xml_values_enclosed:
  assumes "utf8 s"
  shows "set (xml_attr s n) \<inter> {CHR ''<'', CHR ''>'', CHR 0x22, CHR 0x27, LF, TAB, CR} = {}
    \<and> unentity (xml_attr s n) = sanitize_line s n
    \<and> set (xml_text s n) \<inter> {CHR ''<'', CHR ''>''} = {}
    \<and> unentity (xml_text s n) = sanitize s n"
proof -
  have b: "utf8 (sanitize s n)" "list_all inert (chars (sanitize s n))"
    using assms by (simp_all add: utf8_sanitize sanitize_inert)
  note undo = map_chars_undo [OF _ _ b, of unentity] and avoids = map_chars_avoids [OF b]
  have "unentity (xml_attr s n) = sanitize_line s n"
    unfolding xml_attr_def sanitize_line_def
    by (rule undo) (simp_all add: unentity_xml_attr inert_not_CR)
  moreover have "unentity (xml_text s n) = map_chars (\<lambda>k. k) (sanitize s n)"
    unfolding xml_text_def by (rule undo) (simp_all add: unentity_xml_text)
  moreover have "set (xml_attr s n) \<inter> {CHR ''<'', CHR ''>'', CHR 0x22, CHR 0x27, LF, TAB, CR} = {}"
    unfolding xml_attr_def by (rule avoids) (rule xml_attr_char_avoids)
  moreover have "set (xml_text s n) \<inter> {CHR ''<'', CHR ''>''} = {}"
    unfolding xml_text_def by (rule avoids) (rule xml_text_char_avoids)
  ultimately show ?thesis by (simp add: map_chars_id)
qed

theorem xml_values_enclosed_witness:
  "unentity (xml_attr ''a<b>'' 20) = sanitize_line ''a<b>'' 20"
  using xml_values_enclosed [of "''a<b>''" 20] by (simp add: utf8_ascii ascii_def)

text \<open>
  Markdown inline values are text. Read by a Markdown reader, the value is the sanitised string
  with line feeds as spaces, and no punctuation that CommonMark gives a meaning, no \<open><\<close>, \<open>>\<close> or
  line feed stands in it unescaped.
\<close>

theorem md_inline_inert:
  assumes "utf8 s"
  shows "unmd (md_inline s n) = map_chars md_flat (sanitize s n)
    \<and> live (md_inline s n) \<inter> (set MD_PUNCT \<union> {CHR ''<'', CHR ''>'', LF}) = {}"
proof -
  have b: "utf8 (sanitize s n)" "list_all inert (chars (sanitize s n))"
    using assms by (simp_all add: utf8_sanitize sanitize_inert)
  have "unmd (md_inline s n) = map_chars md_flat (sanitize s n)"
    unfolding md_inline_def
    by (rule map_chars_undo [OF _ _ b, of unmd]) (simp_all add: unmd_md_char)
  then show ?thesis
    using live_map_md [OF b] by (simp add: md_inline_def md_active_def)
qed

theorem md_inline_inert_witness:
  "unmd (md_inline ''a*b'' 20) = map_chars md_flat (sanitize ''a*b'' 20)"
  using md_inline_inert [of "''a*b''" 20] by (simp add: utf8_ascii ascii_def)

text \<open>
  A code block cannot close its fence. The body put inside a fence has no three backticks and
  no three tildes in a row, and removing the inserted zero-width spaces gives back exactly the
  sanitised text.
\<close>

theorem md_code_block_unfenced:
  assumes "utf8 s"
  shows "\<not> contains (md_code_block s n) [CHR 0x60, CHR 0x60, CHR 0x60]
    \<and> \<not> contains (md_code_block s n) ''~~~''
    \<and> concat (filter (\<lambda>k. k \<noteq> ZWSP) (chars (md_code_block s n))) = sanitize s n"
proof -
  let ?ks = "chars (sanitize s n)"
  have v: "list_all valid_char ?ks" using utf8_sanitize [OF assms] by (simp add: utf8_def)
  have "cp ZWSP = 8203" by (simp add: ZWSP_def cp_def)
  then have "\<not> inert ZWSP" by (simp add: inert_def is_strippable_def)
  then have z: "ZWSP \<notin> set ?ks" using sanitize_inert [OF assms, of n] by (auto simp: list_all_iff)
  show ?thesis
    using run_form_nf [OF conjunct1 [OF code_block_run_form [OF v, of 0]]] code_block_chars [OF v z, of 0 0]
    by (simp add: md_code_block_def nf_def)
qed

theorem md_code_block_unfenced_witness:
  "\<not> contains (md_code_block ''a~~~~b'' 20) ''~~~''"
  using md_code_block_unfenced [of "''a~~~~b''" 20] by (simp add: utf8_ascii ascii_def)

text \<open>
  XML 1.0 excludes U+FFFE and U+FFFF from its characters; they are neither stripped nor replaced.
  The Arabic letter mark U+061C and the word joiner U+2060, format characters of the kind the
  stripping is for, are kept as well.
\<close>

theorem xml_noncharacter_kept:
  "xml_text [CHR 0xEF, CHR 0xBF, CHR 0xBE] 10 = [CHR 0xEF, CHR 0xBF, CHR 0xBE]"
  by (simp add: xml_text_def sanitize_def strip_controls_def cap_def map_chars_def is_cont_def
      cp_def is_strippable_def xml_text_char_def)

theorem format_characters_kept:
  "strip_controls [CHR 0xD8, CHR 0x9C] = [CHR 0xD8, CHR 0x9C]
   \<and> strip_controls [CHR 0xE2, CHR 0x81, CHR 0xA0] = [CHR 0xE2, CHR 0x81, CHR 0xA0]"
  by (simp add: strip_controls_def is_cont_def cp_def is_strippable_def)

end
