(* ===== verification/Gate.thy ===== *)
theory Gate
  imports Report
begin

text \<open>
  The findings gate, \<open>jitgen-orchestrator/src/gate.rs\<close>: which catches of a report make a CI run
  fail, and the baseline file that suppresses known ones. A baseline is the set of its entries;
  opening and reading the file is a parameter that yields its bytes or an error.
\<close>

definition DEFAULT_FAIL_THRESHOLD :: f64 where "DEFAULT_FAIL_THRESHOLD = f0_9"
definition MAX_BASELINE_BYTES :: nat where "MAX_BASELINE_BYTES = 2 ^ 20"
definition MAX_BASELINE_ENTRIES :: nat where "MAX_BASELINE_ENTRIES = 50000"
definition MAX_BASELINE_LINE :: nat where "MAX_BASELINE_LINE = 4096"

type_synonym baseline = "str set"

record gating_finding =
  gf_target :: str
  gf_path :: "str option"
  gf_tp_probability :: f64
  gf_fingerprint :: str

datatype gate_verdict = Disabled | Pass | Advisory "gating_finding list" | Triggered "gating_finding list"

fun is_failure :: "gate_verdict \<Rightarrow> bool" where
  "is_failure (Triggered _) = True"
| "is_failure _ = False"

fun gate_findings :: "gate_verdict \<Rightarrow> gating_finding list" where
  "gate_findings (Advisory f) = f"
| "gate_findings (Triggered f) = f"
| "gate_findings _ = []"

text \<open>The path of the catch's mutant, unless it is empty.\<close>

definition mutant_path :: "catch_report \<Rightarrow> str option" where
  "mutant_path c =
     (case map_option mi_path (cr_mutant c) of
        Some p \<Rightarrow> if p = [] then None else Some p
      | None \<Rightarrow> None)"

definition catch_fingerprint :: "catch_report \<Rightarrow> str" where
  "catch_fingerprint c =
     (case mutant_path c of
        Some path \<Rightarrow> cr_target c @ '' '' @ path
      | None \<Rightarrow> cr_target c)"

definition finding_from_catch :: "catch_report \<Rightarrow> gating_finding" where
  "finding_from_catch c =
     \<lparr>gf_target = cr_target c, gf_path = mutant_path c, gf_tp_probability = cr_tp_probability c,
      gf_fingerprint = catch_fingerprint c\<rparr>"

definition baseline_contains :: "baseline \<Rightarrow> catch_report \<Rightarrow> bool" where
  "baseline_contains b c \<longleftrightarrow> catch_fingerprint c \<in> b"

definition gate_exit_code :: "run_report \<Rightarrow> f64 \<Rightarrow> baseline \<Rightarrow> bool \<Rightarrow> bool \<Rightarrow> gate_verdict" where
  "gate_exit_code report threshold b warn_only fail_on_catch =
     (if \<not> fail_on_catch then Disabled
      else
        let gating = map finding_from_catch
              (filter (\<lambda>c. cr_decision c = StrongCatch \<and> fle threshold (cr_tp_probability c)
                           \<and> \<not> baseline_contains b c) (rr_catches report))
        in if gating = [] then Pass
           else if warn_only then Advisory gating
           else Triggered gating)"

section \<open>The baseline file\<close>

datatype gate_error = Unreadable str str | TooLarge str nat | Malformed str

definition baseline_malformed :: "str option \<Rightarrow> str \<Rightarrow> gate_error" where
  "baseline_malformed path label =
     Malformed (case path of Some p \<Rightarrow> label @ '' (in '' @ p @ '')'' | None \<Rightarrow> label)"

fun baseline_lines :: "str option \<Rightarrow> nat \<Rightarrow> str list \<Rightarrow> baseline \<Rightarrow> gate_error + baseline" where
  "baseline_lines path line_no [] entries = Ok entries"
| "baseline_lines path line_no (raw # rest) entries =
     (if MAX_BASELINE_LINE < length raw
      then Err (baseline_malformed path (''line '' @ show_nat line_no @ '' exceeds the ''
                 @ show_nat MAX_BASELINE_LINE @ ''-byte line cap''))
      else
        let entry = trim raw in
        if entry = [] \<or> starts_with entry ''#'' then baseline_lines path (Suc line_no) rest entries
        else if list_ex is_control (chars entry)
        then Err (baseline_malformed path (''line '' @ show_nat line_no @ '' contains a control character''))
        else if MAX_BASELINE_ENTRIES \<le> card entries
        then Err (baseline_malformed path (''too many entries (cap '' @ show_nat MAX_BASELINE_ENTRIES @ '')''))
        else baseline_lines path (Suc line_no) rest (insert entry entries))"

definition parse_inner :: "str option \<Rightarrow> str \<Rightarrow> gate_error + baseline" where
  "parse_inner path text = baseline_lines path 1 (lines text) {}"

text \<open>\<open>File::open\<close>, then at most one byte more than the cap is read.\<close>

definition baseline_from_file :: "(str \<Rightarrow> str + str) \<Rightarrow> str \<Rightarrow> gate_error + baseline" where
  "baseline_from_file read path =
     (case read path of
        Err e \<Rightarrow> Err (Unreadable path e)
      | Ok content \<Rightarrow>
          let buf = take (MAX_BASELINE_BYTES + 1) content in
          if MAX_BASELINE_BYTES < length buf then Err (TooLarge path MAX_BASELINE_BYTES)
          else if \<not> utf8 buf then Err (baseline_malformed (Some path) ''file is not valid UTF-8 text'')
          else parse_inner (Some path) buf)"

section \<open>Lemmas\<close>

text \<open>A line that is an entry, and a fingerprint that a baseline file can hold.\<close>

definition is_entry :: "str \<Rightarrow> bool" where
  "is_entry e \<longleftrightarrow> e \<noteq> [] \<and> \<not> starts_with e ''#''"

definition plain_entry :: "str \<Rightarrow> bool" where
  "plain_entry e \<longleftrightarrow> is_entry e \<and> trim e = e \<and> list_all (\<lambda>k. \<not> is_control k) (chars e)
     \<and> utf8 e \<and> length e \<le> MAX_BASELINE_LINE"

lemma baseline_lines_ok:
  "baseline_lines path n ls entries = Ok b \<Longrightarrow> b = entries \<union> {e \<in> trim ` set ls. is_entry e}"
proof (induction ls arbitrary: n entries)
  case (Cons raw ls)
  then show ?case by (fastforce simp: is_entry_def Let_def split: if_splits)
qed simp

lemma baseline_lines_plain:
  assumes "list_all plain_entry ls" "card entries + length ls \<le> MAX_BASELINE_ENTRIES" "finite entries"
  shows "baseline_lines path n ls entries = Ok (entries \<union> set ls)"
  using assms
proof (induction ls arbitrary: n entries)
  case (Cons e ls)
  then have e: "trim e = e" "is_entry e" "\<not> list_ex is_control (chars e)" "length e \<le> MAX_BASELINE_LINE"
    by (auto simp: plain_entry_def list_ex_iff list_all_iff)
  have "card (insert e entries) + length ls \<le> MAX_BASELINE_ENTRIES"
    using Cons.prems(2,3) by (simp add: card_insert_if split: if_splits)
  then have "baseline_lines path (Suc n) ls (insert e entries) = Ok (insert e entries \<union> set ls)"
    using Cons.prems by (intro Cons.IH) simp_all
  then show ?case using e Cons.prems(2) by (simp add: is_entry_def Let_def)
qed simp

lemma plain_entry_line: "plain_entry e \<Longrightarrow> LF \<notin> set e \<and> CR \<notin> set e"
proof -
  assume e: "plain_entry e"
  have "is_control [LF]" "is_control [CR]" by (simp_all add: is_control_def cp_def LF_def CR_def)
  moreover have "code LF < 128" "code CR < 128" by (simp_all add: LF_def CR_def)
  ultimately show ?thesis
    using e utf8_ascii_byte [of e LF] utf8_ascii_byte [of e CR] by (auto simp: plain_entry_def list_all_iff)
qed

lemma baseline_file_plain:
  assumes "list_all plain_entry ls" "length ls \<le> MAX_BASELINE_ENTRIES"
  shows "parse_inner path (concat (map (\<lambda>l. l @ [LF]) ls)) = Ok (set ls)"
  using assms baseline_lines_plain [of ls "{}" path 1] plain_entry_line
  by (simp add: parse_inner_def lines_terminated list_all_iff)

lemma gate_findings_fingerprints:
  "gf_fingerprint ` set (gate_findings (gate_exit_code r t b wo fail)) =
     (if fail then catch_fingerprint ` {c \<in> set (rr_catches r). cr_decision c = StrongCatch
        \<and> fle t (cr_tp_probability c) \<and> catch_fingerprint c \<notin> b} else {})"
  by (auto simp: gate_exit_code_def Let_def finding_from_catch_def baseline_contains_def filter_empty_conv image_iff
      split: if_splits)

lemma is_failure_iff:
  "is_failure (gate_exit_code r t b wo fail) \<longleftrightarrow>
     fail \<and> \<not> wo \<and> (\<exists>c \<in> set (rr_catches r). cr_decision c = StrongCatch \<and> fle t (cr_tp_probability c)
        \<and> catch_fingerprint c \<notin> b)"
  by (auto simp: gate_exit_code_def Let_def baseline_contains_def filter_empty_conv)

section \<open>Properties\<close>

text \<open>
  When a CI run fails on findings. With a baseline read from a file, the gate fails the run
  exactly when it was asked to, is not advisory, and some catch is strong, has a probability of at
  least the threshold, and its fingerprint is not one of the file's trimmed lines, empty lines and
  comments apart. A probability that is not a number never fails a run, whatever the threshold.
\<close>

theorem gate_fails_iff:
  assumes "read path = Ok content" "baseline_from_file read path = Ok b"
  shows "is_failure (gate_exit_code r t b wo fail) \<longleftrightarrow>
      fail \<and> \<not> wo \<and> (\<exists>c \<in> set (rr_catches r). severity_of (cr_decision c) (cr_tp_probability c) = HighSeverity
        \<and> cr_tp_probability c \<noteq> NaN \<and> fle t (cr_tp_probability c)
        \<and> catch_fingerprint c \<notin> {e \<in> trim ` set (lines content). e \<noteq> [] \<and> \<not> starts_with e ''#''})"
proof -
  have "parse_inner (Some path) content = Ok b"
    using assms by (auto simp: baseline_from_file_def Let_def split: if_splits)
  then have "b = {e \<in> trim ` set (lines content). e \<noteq> [] \<and> \<not> starts_with e ''#''}"
    using baseline_lines_ok [of "Some path" 1 "lines content" "{}" b] by (simp add: parse_inner_def is_entry_def)
  moreover have "severity_of d p = HighSeverity \<longleftrightarrow> d = StrongCatch" for d p by (cases d) auto
  moreover have "fle t p \<Longrightarrow> p \<noteq> NaN" for p by auto
  ultimately show ?thesis by (auto simp: is_failure_iff)
qed

text \<open>
  Copying the findings into the baseline silences them. When the fingerprints the gate reported
  are lines a baseline file accepts, a file made of exactly these lines is read back as the set of
  them, and the same report then passes the gate.
\<close>

theorem baseline_silences_findings:
  assumes "fs = gate_findings (gate_exit_code r t {} wo True)"
    and "list_all (\<lambda>f. plain_entry (gf_fingerprint f)) fs" "length fs \<le> MAX_BASELINE_ENTRIES"
    and "length (concat (map (\<lambda>f. gf_fingerprint f @ [LF]) fs)) \<le> MAX_BASELINE_BYTES"
    and "read path = Ok (concat (map (\<lambda>f. gf_fingerprint f @ [LF]) fs))"
  shows "baseline_from_file read path = Ok (gf_fingerprint ` set fs)
    \<and> gate_exit_code r t (gf_fingerprint ` set fs) wo True = Pass"
proof
  let ?ls = "map gf_fingerprint fs" and ?text = "concat (map (\<lambda>f. gf_fingerprint f @ [LF]) fs)"
  have body: "?text = concat (map (\<lambda>l. l @ [LF]) ?ls)" by (simp add: comp_def)
  have plain: "list_all plain_entry ?ls" using assms(2) by (simp add: list_all_iff)
  have "utf8 [LF]" by (simp add: utf8_ascii ascii_def LF_def)
  then have "utf8 ?text" using assms(2) by (induction fs) (auto simp: plain_entry_def utf8_append simp flip: append_assoc)
  then show "baseline_from_file read path = Ok (gf_fingerprint ` set fs)"
    using assms(3,4,5) baseline_file_plain [OF plain, of "Some path"]
    by (simp add: baseline_from_file_def body Let_def)
  have "gf_fingerprint ` set fs = catch_fingerprint ` {c \<in> set (rr_catches r). cr_decision c = StrongCatch \<and> fle t (cr_tp_probability c)}"
    using gate_findings_fingerprints [of r t "{}" wo True] assms(1) by simp
  then show "gate_exit_code r t (gf_fingerprint ` set fs) wo True = Pass"
    by (auto simp: gate_exit_code_def Let_def baseline_contains_def filter_empty_conv)
qed

text \<open>A report with one strong catch on target \<open>t0\<close>.\<close>

definition sample_catch :: catch_report where
  "sample_catch = \<lparr>cr_target = ''t0'', cr_language = ''rust'', cr_path = ''t.rs'', cr_source = [], cr_class = WeakCatch,
     cr_decision = StrongCatch, cr_tp_probability = fone, cr_bucket = VeryHigh, cr_rationale = [], cr_mutant = None,
     cr_changed_path = None, cr_changed_line = None, cr_reproduction = [], cr_evidence = None\<rparr>"

definition sample_report :: run_report where
  "sample_report = \<lparr>rr_schema_version = 1, rr_jitgen_version = [], rr_run_id = [], rr_repo = [], rr_base = [], rr_head = [],
     rr_mode = Catch, rr_strategy = IntentAware,
     rr_summary = \<lparr>rs_targets_selected = 1, rs_candidates_generated = 1, rs_accepted = 0, rs_catches = 1, rs_rejected = 0\<rparr>,
     rr_accepted = [], rr_catches = [sample_catch], rr_rejected = [], rr_warnings = []\<rparr>"

lemma sample_gate:
  "gate_exit_code sample_report fone {} False True
    = Triggered [\<lparr>gf_target = ''t0'', gf_path = None, gf_tp_probability = fone, gf_fingerprint = ''t0''\<rparr>]"
  by (simp add: gate_exit_code_def sample_report_def sample_catch_def baseline_contains_def finding_from_catch_def
      mutant_path_def catch_fingerprint_def)

lemma plain_t0: "plain_entry ''t0''"
  by (simp add: plain_entry_def is_entry_def starts_with_def trim_def trim_start_def trim_end_def is_ws_def cp_def
      is_control_def utf8_ascii ascii_def MAX_BASELINE_LINE_def is_cont_def)

lemma sample_baseline: "baseline_from_file (\<lambda>_. Ok ''t0'') ''b'' = Ok {''t0''}"
  using plain_t0
  by (simp add: baseline_from_file_def parse_inner_def lines_no_LF LF_def MAX_BASELINE_BYTES_def plain_entry_def
      is_entry_def list_ex_iff list_all_iff MAX_BASELINE_ENTRIES_def)

theorem gate_fails_iff_witness:
  "is_failure (gate_exit_code sample_report fone {''t0''} False True) \<longleftrightarrow>
      True \<and> \<not> False \<and> (\<exists>c \<in> set (rr_catches sample_report).
        severity_of (cr_decision c) (cr_tp_probability c) = HighSeverity \<and> cr_tp_probability c \<noteq> NaN
        \<and> fle fone (cr_tp_probability c)
        \<and> catch_fingerprint c \<notin> {e \<in> trim ` set (lines ''t0''). e \<noteq> [] \<and> \<not> starts_with e ''#''})"
  by (rule gate_fails_iff [OF _ sample_baseline]) simp

theorem baseline_silences_findings_witness:
  "baseline_from_file (\<lambda>_. Ok (''t0'' @ [LF])) ''b'' = Ok {''t0''}
    \<and> gate_exit_code sample_report fone {''t0''} False True = Pass"
  using baseline_silences_findings [of "gate_findings (gate_exit_code sample_report fone {} False True)"
      sample_report fone False "\<lambda>_. Ok (''t0'' @ [LF])" "''b''"]
  by (simp add: sample_gate plain_t0 MAX_BASELINE_ENTRIES_def MAX_BASELINE_BYTES_def)

text \<open>
  A catch whose mutant's path ends in a blank: its fingerprint does not survive the baseline file.
\<close>

theorem blank_path_not_silenced:
  assumes "cr_mutant c = Some m" "mi_path m = ''a ''" "cr_target c = ''t0''"
    and "baseline_from_file (\<lambda>_. Ok (catch_fingerprint c)) ''b'' = Ok b"
  shows "\<not> baseline_contains b c"
proof -
  have "parse_inner (Some ''b'') (catch_fingerprint c) = Ok b"
    using assms(4) by (auto simp: baseline_from_file_def Let_def split: if_splits)
  moreover have "catch_fingerprint c = ''t0 a ''"
    using assms by (simp add: catch_fingerprint_def mutant_path_def)
  moreover have "trim ''t0 a '' = ''t0 a''"
    by (simp add: trim_def trim_start_def trim_end_def is_ws_def cp_def is_cont_def)
  ultimately show ?thesis
    using baseline_lines_ok [of "Some ''b''" 1 "lines ''t0 a ''" "{}" b]
    by (auto simp: parse_inner_def lines_no_LF LF_def baseline_contains_def)
qed

end
