(* ===== verification/Floats.thy ===== *)
theory Floats
  imports Assess "HOL-Library.List_Lexorder" "HOL-Library.Char_ord" "HOL-Library.Product_Lexorder"
begin

text \<open>
  Arithmetic and order of \<open>f64\<close>. The hardware's rounding to the nearest double is a parameter
  \<open>rnd\<close>, applied to the exact result of each operation; signed zeros are not distinguished.
  The order makes \<open>f64\<close> an instance of \<open>linorder\<close> with NaN above every number, so that the
  library's stable sort applies; it agrees with \<open>partial_cmp\<close> on all values that are not NaN.
\<close>

type_synonym rounding = "rat \<Rightarrow> f64"

fun fneg :: "f64 \<Rightarrow> f64" where
  "fneg NaN = NaN"
| "fneg NInf = PInf"
| "fneg PInf = NInf"
| "fneg (Fin a) = Fin (- a)"

fun fadd :: "rounding \<Rightarrow> f64 \<Rightarrow> f64 \<Rightarrow> f64" where
  "fadd rnd NaN y = NaN"
| "fadd rnd x NaN = NaN"
| "fadd rnd PInf NInf = NaN"
| "fadd rnd NInf PInf = NaN"
| "fadd rnd PInf y = PInf"
| "fadd rnd NInf y = NInf"
| "fadd rnd x PInf = PInf"
| "fadd rnd x NInf = NInf"
| "fadd rnd (Fin a) (Fin b) = rnd (a + b)"

text \<open>A factor that is a finite literal.\<close>

fun fscale :: "rounding \<Rightarrow> rat \<Rightarrow> f64 \<Rightarrow> f64" where
  "fscale rnd k NaN = NaN"
| "fscale rnd k (Fin a) = rnd (k * a)"
| "fscale rnd k PInf = (if k = 0 then NaN else if 0 < k then PInf else NInf)"
| "fscale rnd k NInf = (if k = 0 then NaN else if 0 < k then NInf else PInf)"

text \<open>A quotient of two finite numbers.\<close>

definition fquot :: "rounding \<Rightarrow> rat \<Rightarrow> rat \<Rightarrow> f64" where
  "fquot rnd a b = (if b = 0 then (if a = 0 then NaN else if 0 < a then PInf else NInf) else rnd (a / b))"

definition f0_05 :: f64 where "f0_05 = Fin (3602879701896397 / 72057594037927936)"
definition f0_7 :: f64 where "f0_7 = Fin (3152519739159347 / 4503599627370496)"
definition r0_35 :: rat where "r0_35 = 3152519739159347 / 9007199254740992"
definition r0_15 :: rat where "r0_15 = 5404319552844595 / 36028797018963968"

section \<open>Order\<close>

instantiation f64 :: linorder
begin

definition less_eq_f64 :: "f64 \<Rightarrow> f64 \<Rightarrow> bool" where
  "less_eq_f64 x y \<longleftrightarrow> y = NaN \<or> fle x y"

definition less_f64 :: "f64 \<Rightarrow> f64 \<Rightarrow> bool" where
  "less_f64 x y \<longleftrightarrow> x \<le> y \<and> \<not> (y :: f64) \<le> x"

instance
proof
  fix x y z :: f64
  show "x < y \<longleftrightarrow> x \<le> y \<and> \<not> y \<le> x" by (simp add: less_f64_def)
  show "x \<le> x" by (cases x) (auto simp: less_eq_f64_def)
  show "x \<le> z" if "x \<le> y" "y \<le> z" using that by (cases x; cases y; cases z) (auto simp: less_eq_f64_def)
  show "x = y" if "x \<le> y" "y \<le> x" using that by (cases x; cases y) (auto simp: less_eq_f64_def)
  show "x \<le> y \<or> y \<le> x" by (cases x; cases y) (auto simp: less_eq_f64_def)
qed

end

lemma f64_le_fle: "y \<noteq> NaN \<Longrightarrow> x \<le> y \<longleftrightarrow> fle x y"
  by (simp add: less_eq_f64_def)

text \<open>The reversed order, for sorting from high to low.\<close>

datatype 'a down = Down 'a

fun up :: "'a down \<Rightarrow> 'a" where
  "up (Down x) = x"

instantiation down :: (linorder) linorder
begin

definition less_eq_down :: "'a down \<Rightarrow> 'a down \<Rightarrow> bool" where
  "less_eq_down x y \<longleftrightarrow> up y \<le> up x"

definition less_down :: "'a down \<Rightarrow> 'a down \<Rightarrow> bool" where
  "less_down x y \<longleftrightarrow> up y < up x"

instance
proof
  fix x y z :: "'a down"
  show "x < y \<longleftrightarrow> x \<le> y \<and> \<not> y \<le> x" by (auto simp: less_eq_down_def less_down_def)
  show "x \<le> x" by (simp add: less_eq_down_def)
  show "x \<le> z" if "x \<le> y" "y \<le> z" using that by (auto simp: less_eq_down_def)
  show "x = y" if "x \<le> y" "y \<le> x" using that by (cases x; cases y) (auto simp: less_eq_down_def)
  show "x \<le> y \<or> y \<le> x" by (auto simp: less_eq_down_def)
qed

end

lemma fclamp_between:
  assumes "x \<noteq> NaN" "fle lo hi" "lo \<noteq> NaN" "hi \<noteq> NaN"
  shows "fle lo (fclamp x lo hi) \<and> fle (fclamp x lo hi) hi"
  using assms by (cases x; cases lo; cases hi) (auto simp: fclamp_def flt_def Let_def)

end
