(* ===== verification/Paths.thy ===== *)
theory Paths
  imports Errors
begin

text \<open>
  Paths of the standard library on Unix (\<open>std::path\<close>): components, joining, prefixes, parent and
  file name. Every crate that touches a path uses these.
\<close>

datatype component = RootDir | CurDir | ParentDir | Normal str

definition seg_component :: "str \<Rightarrow> component list" where
  "seg_component s = (if s = [] \<or> s = ''.'' then [] else if s = ''..'' then [ParentDir] else [Normal s])"

text \<open>\<open>Path::components\<close>: a leading \<open>.\<close> is kept, other \<open>.\<close> and repeated separators vanish.\<close>

definition components :: "str \<Rightarrow> component list" where
  "components p =
     (let segs = split_on (CHR ''/'') p in
      if p \<noteq> [] \<and> hd p = CHR ''/'' then RootDir # concat (map seg_component segs)
      else (if hd segs = ''.'' then [CurDir] else []) @ concat (map seg_component segs))"

definition is_absolute :: "str \<Rightarrow> bool" where
  "is_absolute p \<longleftrightarrow> p \<noteq> [] \<and> hd p = CHR ''/''"

text \<open>\<open>Path::join\<close>: an absolute argument replaces the path.\<close>

definition path_join :: "str \<Rightarrow> str \<Rightarrow> str" where
  "path_join p q =
     (if is_absolute q then q
      else if p = [] \<or> last p = CHR ''/'' then p @ q else p @ ''/'' @ q)"

text \<open>\<open>Path::starts_with\<close>: a prefix of whole components.\<close>

definition path_starts_with :: "str \<Rightarrow> str \<Rightarrow> bool" where
  "path_starts_with p q \<longleftrightarrow> prefix (components q) (components p)"

text \<open>Paths given by their components: \<open>parent\<close> and \<open>file_name\<close>.\<close>

definition comps_parent :: "component list \<Rightarrow> component list option" where
  "comps_parent cs = (if cs = [] \<or> last cs = RootDir then None else Some (butlast cs))"

definition comps_file_name :: "component list \<Rightarrow> str option" where
  "comps_file_name cs = (if cs = [] then None else case last cs of Normal s \<Rightarrow> Some s | _ \<Rightarrow> None)"

text \<open>The \<open>Normal\<close> components of a path.\<close>

fun normals :: "component list \<Rightarrow> str list" where
  "normals [] = []"
| "normals (Normal s # cs) = s # normals cs"
| "normals (_ # cs) = normals cs"

lemma normals_append [simp]: "normals (xs @ ys) = normals xs @ normals ys"
  by (induction xs rule: normals.induct) auto

lemma concat_seg_component:
  "concat (map seg_component segs) = map (\<lambda>s. if s = ''..'' then ParentDir else Normal s)
     (filter (\<lambda>s. s \<noteq> [] \<and> s \<noteq> ''.'') segs)"
  by (induction segs) (auto simp: seg_component_def)

text \<open>Joining a relative path without leading \<open>.\<close> extends the components.\<close>

lemma components_join:
  assumes "\<not> is_absolute q" "p \<noteq> []"
  shows "components (path_join p q) = components p @ concat (map seg_component (split_on (CHR ''/'') q))"
proof (cases "last p = CHR ''/''")
  case True
  with assms(2) obtain p' where p: "p = p' @ [CHR ''/'']" by (metis append_butlast_last_id)
  show ?thesis
    using assms(1) unfolding path_join_def components_def Let_def
    by (auto simp: seg_component_def p hd_append split_on_app)
next
  case False
  have "split_on (CHR ''/'') (p @ ''/'' @ q) = split_on (CHR ''/'') p @ split_on (CHR ''/'') q"
    using split_on_app [of "CHR ''/''" p q] by simp
  then show ?thesis
    using assms False unfolding path_join_def components_def Let_def
    by (auto simp: hd_append)
qed

text \<open>A name that is one ordinary component.\<close>

definition plain_name :: "str \<Rightarrow> bool" where
  "plain_name s \<longleftrightarrow> s \<noteq> [] \<and> s \<noteq> ''.'' \<and> s \<noteq> ''..'' \<and> CHR ''/'' \<notin> set s"

lemma normals_Normal [simp]: "normals (map Normal ns) = ns"
  by (induction ns) auto

lemma seg_component_plain: "list_all plain_name ns \<Longrightarrow> concat (map seg_component ns) = map Normal ns"
  by (induction ns) (auto simp: seg_component_def plain_name_def)

lemma components_join_plain:
  assumes "list_all plain_name ns" "ns \<noteq> []"
  shows "components (join ''/'' ns) = map Normal ns"
proof -
  have segs: "split_on (CHR ''/'') (join ''/'' ns) = ns"
    using assms by (intro split_on_join) (auto simp: list_all_iff plain_name_def)
  obtain m ms where ns: "ns = m # ms" using assms(2) by (cases ns) auto
  then have m: "plain_name m" using assms(1) by simp
  have "hd (join ''/'' ns) = hd m \<and> hd m \<noteq> CHR ''/''"
    using m ns by (cases m; cases ms) (auto simp: plain_name_def)
  moreover have "hd ns \<noteq> ''.''" using m ns by (simp add: plain_name_def)
  ultimately show ?thesis using segs seg_component_plain [OF assms(1)] by (simp add: components_def Let_def)
qed

lemma normals_components: "list_all plain_name (normals (components p))"
proof -
  have "list_all plain_name (normals (concat (map seg_component segs)))" if "list_all (\<lambda>s. CHR ''/'' \<notin> set s) segs" for segs
    using that by (induction segs) (auto simp: seg_component_def plain_name_def)
  moreover have "list_all (\<lambda>s. CHR ''/'' \<notin> set s) (split_on (CHR ''/'') p)"
    using split_on_elem [of _ "CHR ''/''" p] by (auto simp: list_all_iff)
  ultimately show ?thesis by (auto simp: components_def Let_def seg_component_def)
qed

lemma normals_parent: "list_all plain_name (normals (butlast (components p)))"
proof (cases "components p = []")
  case False
  then have "normals (components p) = normals (butlast (components p)) @ normals [last (components p)]"
    by (metis append_butlast_last_id normals_append)
  then show ?thesis using normals_components [of p] by simp
qed simp

lemma join_snoc: "\<exists>pre. join d (xs @ [x]) = pre @ x"
  using join_append [of xs "[x]" d] by (cases "xs = []") auto

end
