(* ===== verification/PathFilter.thy ===== *)
theory PathFilter
  imports Paths
begin

text \<open>
  \<open>jitgen-gitintake/src/filter.rs\<close>: which repository paths are never read (vendored and build
  output, secret-bearing files), and \<open>reject_unsafe_rel\<close> of \<open>intake.rs\<close>, the lexical check of
  every repository path.
\<close>

section \<open>The code\<close>

definition VENDOR_SEGMENTS :: "str list" where
  "VENDOR_SEGMENTS =
     [''.git'', ''node_modules'', ''target'', ''dist'', ''build'', ''out'', ''.next'', ''.nuxt'',
      ''vendor'', ''__pycache__'', ''.venv'', ''venv'', ''.gradle'', ''coverage'', ''.idea'',
      ''.vscode'', ''bazel-bin'', ''bazel-out'', ''bazel-testlogs'']"

definition SECRET_NAMES :: "str list" where
  "SECRET_NAMES =
     [''.env'', ''.npmrc'', ''.pypirc'', ''.netrc'', ''_netrc'', ''.git-credentials'', ''.pgpass'']"

definition SECRET_PREFIXES :: "str list" where
  "SECRET_PREFIXES = [''id_rsa'', ''id_ed25519'', ''id_dsa'', ''id_ecdsa'', ''credentials'']"

definition SECRET_SUFFIXES :: "str list" where
  "SECRET_SUFFIXES =
     [''.pem'', ''.key'', ''.p12'', ''.pfx'', ''.keystore'', ''.jks'', ''.ppk'', ''.gpg'']"

definition is_vendored :: "str \<Rightarrow> bool" where
  "is_vendored path \<longleftrightarrow>
     list_ex (\<lambda>s. List.member VENDOR_SEGMENTS (to_ascii_lowercase s)) (split_on (CHR ''/'') path)"

definition last_segment :: "str \<Rightarrow> str" where
  "last_segment lower =
     (case filter (\<lambda>s. s \<noteq> []) (rev (split_on (CHR ''/'') lower)) of [] \<Rightarrow> [] | s # _ \<Rightarrow> s)"

definition secret_name :: "str \<Rightarrow> bool" where
  "secret_name name \<longleftrightarrow>
     list_ex (\<lambda>entry. case strip_prefix name entry of
                None \<Rightarrow> False | Some rest \<Rightarrow> rest = [] \<or> starts_with rest ''.'') SECRET_NAMES
     \<or> list_ex (\<lambda>p. starts_with name p) SECRET_PREFIXES
     \<or> list_ex (\<lambda>suf. ends_with name suf) SECRET_SUFFIXES"

definition is_secret_like :: "str \<Rightarrow> bool" where
  "is_secret_like path =
     (let lower = to_ascii_lowercase path in
      if contains lower ''.cargo/credentials'' \<or> contains lower ''.aws/credentials'' then True
      else secret_name (last_segment lower))"

definition is_ignored :: "str \<Rightarrow> bool" where
  "is_ignored path \<longleftrightarrow> is_vendored path \<or> is_secret_like path"

definition reject_unsafe_rel :: "str \<Rightarrow> git_error + unit" where
  "reject_unsafe_rel rel =
     (if rel = [] \<or> CHR 0x5C \<in> set rel then Err (GitUnsafePath rel)
      else if last rel = CHR ''/'' then Err (GitUnsafePath rel)
      else if 2 \<le> length rel \<and> rel ! 1 = CHR '':'' \<and> (ascii_upper (rel ! 0) \<or> ascii_lower (rel ! 0))
      then Err (GitUnsafePath rel)
      else if list_ex (\<lambda>c. c = RootDir \<or> c = ParentDir) (components rel) then Err (GitUnsafePath rel)
      else if \<not> list_ex (\<lambda>c. case c of Normal _ \<Rightarrow> True | _ \<Rightarrow> False) (components rel)
      then Err (GitUnsafePath rel)
      else Ok ())"

section \<open>Lemmas\<close>

lemma code_to_lower: "code (to_lower c) = (if ascii_upper c then code c + 32 else code c :: nat)"
  by (simp add: to_lower_def ascii_upper_def of_char_of)

lemma to_lower_neq_slash [simp]: "to_lower c = CHR ''/'' \<longleftrightarrow> c = CHR ''/''"
proof -
  have "to_lower c = CHR ''/'' \<longleftrightarrow> code (to_lower c) = (47 :: nat)"
    using of_char_eq_iff [where ?'a = nat, of "to_lower c" "CHR ''/''"] by simp
  also have "\<dots> \<longleftrightarrow> code c = (47 :: nat)"
    by (auto simp: code_to_lower ascii_upper_def)
  also have "\<dots> \<longleftrightarrow> c = CHR ''/''"
    using of_char_eq_iff [where ?'a = nat, of c "CHR ''/''"] by simp
  finally show ?thesis .
qed

lemma to_lower_slash [simp]: "to_lower (CHR ''/'') = CHR ''/''"
  by simp

lemma to_lower_idem [simp]: "to_lower (to_lower c) = to_lower c"
proof (cases "ascii_upper c")
  case True
  then have "code (char_of (code c + 32)) = code c + 32"
    by (simp add: ascii_upper_def of_char_of)
  with True show ?thesis by (simp add: to_lower_def ascii_upper_def)
qed (simp add: to_lower_def)

lemma to_ascii_lowercase_idem [simp]: "to_ascii_lowercase (to_ascii_lowercase s) = to_ascii_lowercase s"
  by (simp add: to_ascii_lowercase_def)

lemma split_on_lowercase:
  "split_on (CHR ''/'') (to_ascii_lowercase s) = map to_ascii_lowercase (split_on (CHR ''/'') s)"
proof (induction s)
  case (Cons c s)
  then show ?case by (cases "split_on (CHR ''/'') s") (auto simp: to_ascii_lowercase_def)
qed (simp add: to_ascii_lowercase_def)

lemma is_vendored_lowercase: "is_vendored (to_ascii_lowercase p) = is_vendored p"
  by (simp add: is_vendored_def split_on_lowercase list_ex_iff)

lemma is_secret_like_lowercase: "is_secret_like (to_ascii_lowercase p) = is_secret_like p"
  by (simp add: is_secret_like_def)

lemma is_ignored_lowercase: "is_ignored (to_ascii_lowercase p) = is_ignored p"
  by (simp add: is_ignored_def is_vendored_lowercase is_secret_like_lowercase)

lemma to_ascii_lowercase_append: "to_ascii_lowercase (s @ t) = to_ascii_lowercase s @ to_ascii_lowercase t"
  by (simp add: to_ascii_lowercase_def)

lemma last_segment_file:
  assumes "x \<noteq> []" "CHR ''/'' \<notin> set x"
  shows "last_segment (d @ CHR ''/'' # x @ replicate n (CHR ''/'')) = x"
    and "last_segment (x @ replicate n (CHR ''/'')) = x"
proof -
  have rep: "split_on (CHR ''/'') (x @ replicate n (CHR ''/'')) = x # replicate n []"
  proof (cases n)
    case (Suc m)
    have "split_on (CHR ''/'') (replicate m (CHR ''/'')) = replicate (Suc m) []"
      by (induction m) auto
    with Suc assms(2) show ?thesis by (simp add: split_on_app split_on_no_sep)
  qed (simp add: assms split_on_no_sep)
  show "last_segment (d @ CHR ''/'' # x @ replicate n (CHR ''/'')) = x"
    using assms(1) by (simp add: last_segment_def split_on_app rep)
  show "last_segment (x @ replicate n (CHR ''/'')) = x"
    using assms(1) by (simp add: last_segment_def rep)
qed

section \<open>Properties\<close>

lemma components_relative:
  assumes "\<not> is_absolute rel"
  shows "components rel = (if hd (split_on (CHR ''/'') rel) = ''.'' then [CurDir] else [])
    @ concat (map seg_component (split_on (CHR ''/'') rel))"
  using assms by (auto simp: components_def is_absolute_def Let_def)

lemma reject_unsafe_rel_relative: "reject_unsafe_rel rel = Ok () \<Longrightarrow> \<not> is_absolute rel"
  by (auto simp: reject_unsafe_rel_def components_def is_absolute_def Let_def split: if_splits)

lemma reject_unsafe_rel_iff_aux:
  "reject_unsafe_rel rel = Ok () \<longleftrightarrow>
     rel \<noteq> [] \<and> CHR 0x5C \<notin> set rel \<and> hd rel \<noteq> CHR ''/'' \<and> last rel \<noteq> CHR ''/''
     \<and> \<not> (2 \<le> length rel \<and> rel ! 1 = CHR '':'' \<and> (ascii_upper (rel ! 0) \<or> ascii_lower (rel ! 0)))
     \<and> ''..'' \<notin> set (split_on (CHR ''/'') rel)
     \<and> (\<exists>s \<in> set (split_on (CHR ''/'') rel). s \<noteq> [] \<and> s \<noteq> ''.'' \<and> s \<noteq> ''..'')"
proof (cases "is_absolute rel")
  case True
  then show ?thesis using reject_unsafe_rel_relative [of rel] by (auto simp: is_absolute_def)
next
  case False
  have set_eq: "set (components rel) = (if hd (split_on (CHR ''/'') rel) = ''.'' then {CurDir} else {})
      \<union> (\<lambda>s. if s = ''..'' then ParentDir else Normal s)
        ` {s \<in> set (split_on (CHR ''/'') rel). s \<noteq> [] \<and> s \<noteq> ''.''}"
    unfolding components_relative [OF False] concat_seg_component by simp
  have bad: "list_ex (\<lambda>c. c = RootDir \<or> c = ParentDir) (components rel) \<longleftrightarrow> ''..'' \<in> set (split_on (CHR ''/'') rel)"
    unfolding list_ex_iff set_eq by (simp add: bex_Un)
  have good: "list_ex (\<lambda>c. case c of Normal _ \<Rightarrow> True | _ \<Rightarrow> False) (components rel)
      \<longleftrightarrow> (\<exists>s \<in> set (split_on (CHR ''/'') rel). s \<noteq> [] \<and> s \<noteq> ''.'' \<and> s \<noteq> ''..'')"
    unfolding list_ex_iff set_eq by (simp add: bex_Un if_distrib [of "case_component _ _ _ _"]) blast
  have if_ok: "(if A then Err e else if B then Err e else if C then Err e else if D then Err e
      else if \<not> E then Err e else Ok ()) = Ok () \<longleftrightarrow> \<not> A \<and> \<not> B \<and> \<not> C \<and> \<not> D \<and> E" for A B C D E and e :: git_error
    by simp
  show ?thesis
    using False unfolding reject_unsafe_rel_def bad good is_absolute_def if_ok by blast
qed

lemma reject_unsafe_rel_confined_aux:
  assumes "reject_unsafe_rel rel = Ok ()" "base \<noteq> []"
  shows "\<exists>names. names \<noteq> [] \<and> components (path_join base rel) = components base @ map Normal names
    \<and> (\<forall>n \<in> set names. n \<notin> {[], ''.'', ''..''} \<and> CHR ''/'' \<notin> set n)"
proof -
  let ?names = "filter (\<lambda>s. s \<noteq> [] \<and> s \<noteq> ''.'') (split_on (CHR ''/'') rel)"
  from assms(1) have segs: "''..'' \<notin> set (split_on (CHR ''/'') rel)"
    "\<exists>s \<in> set (split_on (CHR ''/'') rel). s \<noteq> [] \<and> s \<noteq> ''.''"
    unfolding reject_unsafe_rel_iff_aux by auto
  then have "map (\<lambda>s. if s = ''..'' then ParentDir else Normal s) ?names = map Normal ?names"
    by auto
  then have "components (path_join base rel) = components base @ map Normal ?names"
    using components_join [OF reject_unsafe_rel_relative [OF assms(1)] assms(2)]
    by (simp only: concat_seg_component)
  moreover have "?names \<noteq> []" using segs(2) by (auto simp: filter_empty_conv)
  ultimately show ?thesis
    using segs(1) by (intro exI [of _ ?names]) (auto dest: split_on_elem)
qed

text \<open>
  A path that passes \<open>reject_unsafe_rel\<close> stays where it is put: joined to any root it
  names the root's components followed by at least one ordinary name, none of them empty, \<open>.\<close>
  or \<open>..\<close>, so no read or write through it leaves the root.
\<close>

theorem reject_unsafe_rel_confined:
  assumes "reject_unsafe_rel rel = Ok ()" "base \<noteq> []"
  shows "\<exists>names. names \<noteq> [] \<and> components (path_join base rel) = components base @ map Normal names
    \<and> (\<forall>n \<in> set names. n \<notin> {[], ''.'', ''..''} \<and> CHR ''/'' \<notin> set n)"
  using assms by (rule reject_unsafe_rel_confined_aux)

theorem reject_unsafe_rel_confined_witness:
  "\<exists>names. names \<noteq> [] \<and> components (path_join ''/tmp/x'' ''src/./a.rs'') = components ''/tmp/x'' @ map Normal names
    \<and> (\<forall>n \<in> set names. n \<notin> {[], ''.'', ''..''} \<and> CHR ''/'' \<notin> set n)"
  by (rule reject_unsafe_rel_confined) (code_simp | simp)+

lemma last_segment_lower_file:
  assumes "x \<noteq> []" "CHR ''/'' \<notin> set x"
  shows "last_segment (to_ascii_lowercase (d @ CHR ''/'' # x @ replicate n (CHR ''/''))) = to_ascii_lowercase x"
    and "last_segment (to_ascii_lowercase (x @ replicate n (CHR ''/''))) = to_ascii_lowercase x"
proof -
  have "to_ascii_lowercase x \<noteq> []" "CHR ''/'' \<notin> set (to_ascii_lowercase x)"
    using assms by (auto simp: to_ascii_lowercase_def image_iff) (metis to_lower_neq_slash)
  from last_segment_file [OF this]
  show "last_segment (to_ascii_lowercase (d @ CHR ''/'' # x @ replicate n (CHR ''/''))) = to_ascii_lowercase x"
    and "last_segment (to_ascii_lowercase (x @ replicate n (CHR ''/''))) = to_ascii_lowercase x"
    by (simp_all add: to_ascii_lowercase_def)
qed

lemma secret_name_dotted:
  assumes "e \<in> set SECRET_NAMES" "suf = [] \<or> hd suf = CHR ''.''"
  shows "secret_name (e @ suf)"
proof -
  have "case strip_prefix (e @ suf) e of None \<Rightarrow> False | Some rest \<Rightarrow> rest = [] \<or> starts_with rest ''.''"
    using assms(2) by (cases suf) (auto simp: strip_prefix_def starts_with_def)
  with assms(1) show ?thesis by (force simp: secret_name_def list_ex_iff)
qed

lemma is_secret_like_name:
  "secret_name (last_segment (to_ascii_lowercase p)) \<Longrightarrow> is_secret_like p"
  by (simp add: is_secret_like_def Let_def)

text \<open>
  Secret files are recognised wherever they lie. A file whose name, in any letter case,
  is a listed secret name or such a name with a dotted suffix is ignored in every directory, and
  appended slashes do not hide it.
\<close>

theorem secret_names_ignored:
  assumes "CHR ''/'' \<notin> set x" "to_ascii_lowercase x = e @ suf" "e \<in> set SECRET_NAMES"
    and "suf = [] \<or> hd suf = CHR ''.''"
  shows "is_ignored (d @ CHR ''/'' # x @ replicate n (CHR ''/'')) \<and> is_ignored (x @ replicate n (CHR ''/''))"
proof -
  have "e \<noteq> []" using assms(3) by (auto simp: SECRET_NAMES_def)
  then have "x \<noteq> []" using assms(2) by (auto simp: to_ascii_lowercase_def)
  with secret_name_dotted [OF assms(3,4)] assms(1,2) show ?thesis
    by (auto simp: is_ignored_def last_segment_lower_file intro!: is_secret_like_name)
qed

theorem secret_names_ignored_witness:
  "is_ignored (''home'' @ CHR ''/'' # ''.ENV.Local'' @ replicate 2 (CHR ''/''))
   \<and> is_ignored (''.ENV.Local'' @ replicate 2 (CHR ''/''))"
proof (rule secret_names_ignored)
  show "to_ascii_lowercase ''.ENV.Local'' = ''.env'' @ ''.local''" by code_simp
qed (simp_all add: SECRET_NAMES_def)

end
