(* ===== verification/Intake.thy ===== *)
theory Intake
  imports PathFilter Core
begin

text \<open>
  \<open>jitgen-gitintake/src/intake.rs\<close>: the diff walk that builds the change set, and the reads of
  blobs. libgit2 is a parameter: a diff is the sequence of callbacks \<open>foreach\<close> makes and the
  error it may end with, a repository is a record of its lookups.
\<close>

section \<open>The code\<close>

definition MAX_CHANGED_FILES :: nat where "MAX_CHANGED_FILES = 5000"
definition MAX_BLOB_BYTES :: nat where "MAX_BLOB_BYTES = 2 * 1024 * 1024"
definition MAX_HUNKS_PER_FILE :: nat where "MAX_HUNKS_PER_FILE = 1000"
definition MAX_TOTAL_HUNKS :: nat where "MAX_TOTAL_HUNKS = 100000"

text \<open>libgit2's status of a delta; the paths of its two sides, absent when they are not UTF-8.\<close>

datatype delta_status =
    DUnmodified | DAdded | DDeleted | DModified | DRenamed | DCopied | DIgnored | DUntracked
  | DTypechange | DUnreadable | DConflicted

record delta =
  d_status :: delta_status
  d_old :: "str option"
  d_new :: "str option"

text \<open>The callbacks: a file, or a hunk of a file with its head-side start and line count.\<close>

datatype diff_event = FileCb delta | HunkCb delta u32 u32

definition delta_head_path :: "delta \<Rightarrow> str option" where
  "delta_head_path d =
     (case (if d_status d = DDeleted then d_old d else d_new d) of
        None \<Rightarrow> None
      | Some p \<Rightarrow> if is_ignored p then None else Some p)"

fun kind_of_status :: "delta_status \<Rightarrow> change_kind" where
  "kind_of_status DAdded = Added"
| "kind_of_status DCopied = Added"
| "kind_of_status DUntracked = Added"
| "kind_of_status DDeleted = Deleted"
| "kind_of_status DRenamed = Renamed"
| "kind_of_status _ = Modified"

definition file_change_from_delta :: "delta \<Rightarrow> file_change option" where
  "file_change_from_delta d =
     (case (if d_status d = DDeleted then d_old d else d_new d) of
        None \<Rightarrow> None
      | Some path \<Rightarrow>
          if is_ignored path then None
          else if reject_unsafe_rel path \<noteq> Ok () then None
          else
            let change = (\<lambda>old. Some \<lparr>fc_path = path, fc_old_path = old,
                                    fc_kind = kind_of_status (d_status d), fc_hunks = []\<rparr>) in
            (case (d_status d, d_old d) of
               (DRenamed, Some op) \<Rightarrow>
                 if reject_unsafe_rel op \<noteq> Ok () then None
                 else if is_ignored op then change None
                 else change (Some op)
             | _ \<Rightarrow> change None))"

record walk_state =
  w_files :: "file_change list"
  w_index :: "str \<rightharpoonup> nat"
  w_total :: nat

definition file_cb :: "delta \<Rightarrow> walk_state \<Rightarrow> walk_state" where
  "file_cb d s =
     (case file_change_from_delta d of
        None \<Rightarrow> s
      | Some fc \<Rightarrow>
          let pos = length (w_files s) in
          s\<lparr>w_index := (case w_index s (fc_path fc) of
                          None \<Rightarrow> (w_index s)(fc_path fc \<mapsto> pos) | Some _ \<Rightarrow> w_index s),
            w_files := w_files s @ [fc]\<rparr>)"

definition push_hunk :: "line_range \<Rightarrow> file_change \<Rightarrow> file_change" where
  "push_hunk r f = f\<lparr>fc_hunks := fc_hunks f @ [r]\<rparr>"

definition total_cap_error :: git_error where
  "total_cap_error = GitTooManyHunks (''more than '' @ show_nat MAX_TOTAL_HUNKS
     @ '' hunks across the diff exceeds the intake cap'')"

definition file_cap_error :: "str \<Rightarrow> git_error" where
  "file_cap_error path = GitTooManyHunks (path @ '' exceeds the '' @ show_nat MAX_HUNKS_PER_FILE
     @ ''-hunk per-file intake cap'')"

text \<open>The head-side range of a hunk; \<open>start + lines - 1\<close> is computed on \<open>u32\<close>.\<close>

definition hunk_range :: "u32 \<Rightarrow> u32 \<Rightarrow> core_error + line_range" where
  "hunk_range start lns = line_range_new start (start + lns - 1)"

definition hunk_cb :: "delta \<Rightarrow> u32 \<Rightarrow> u32 \<Rightarrow> walk_state \<Rightarrow> git_error + walk_state" where
  "hunk_cb d start lns s =
     (let s = s\<lparr>w_total := Suc (w_total s)\<rparr> in
      if w_total s > MAX_TOTAL_HUNKS then Err total_cap_error
      else if lns = 0 then Ok s
      else case delta_head_path d of
        None \<Rightarrow> Ok s
      | Some path \<Rightarrow>
          (case hunk_range start lns of
             Err _ \<Rightarrow> Ok s
           | Ok r \<Rightarrow>
               (case w_index s path of
                  None \<Rightarrow> Ok s
                | Some i \<Rightarrow>
                    if MAX_HUNKS_PER_FILE \<le> length (fc_hunks (w_files s ! i)) then Err (file_cap_error path)
                    else Ok (s\<lparr>w_files := (w_files s)[i := push_hunk r (w_files s ! i)]\<rparr>))))"

fun walk :: "diff_event list \<Rightarrow> walk_state \<Rightarrow> git_error + walk_state" where
  "walk [] s = Ok s"
| "walk (FileCb d # es) s = walk es (file_cb d s)"
| "walk (HunkCb d start lns # es) s =
     (case hunk_cb d start lns s of Err e \<Rightarrow> Err e | Ok s' \<Rightarrow> walk es s')"

definition walk_init :: walk_state where
  "walk_init = \<lparr>w_files = [], w_index = Map.empty, w_total = 0\<rparr>"

text \<open>\<open>fail\<close> is the error \<open>foreach\<close> ends with when no callback aborted it.\<close>

definition collect_file_changes :: "diff_event list \<Rightarrow> git_error option \<Rightarrow> git_error + file_change list" where
  "collect_file_changes es fail =
     (case walk es walk_init of
        Err e \<Rightarrow> Err e
      | Ok s \<Rightarrow> (case fail of Some e \<Rightarrow> Err e | None \<Rightarrow> Ok (w_files s)))"

subsection \<open>Revisions and blobs\<close>

text \<open>
  A repository as the code uses libgit2: resolving a revision to a commit id, diffing two commits
  before and after rename detection, and looking a path up in a commit's tree.
\<close>

datatype object_kind = Blob | Tree | OtherObject

record 'oid repo =
  rp_resolve :: "str \<Rightarrow> 'oid option"
  rp_show :: "'oid \<Rightarrow> str"
  rp_tree :: "'oid \<Rightarrow> git_error + (str \<Rightarrow> (object_kind \<times> 'oid) option)"
  rp_diff :: "'oid \<Rightarrow> 'oid \<Rightarrow> git_error + nat"
  rp_similar :: "'oid \<Rightarrow> 'oid \<Rightarrow> git_error + (diff_event list \<times> git_error option)"
  rp_header :: "'oid \<Rightarrow> git_error + nat"
  rp_blob :: "'oid \<Rightarrow> git_error + str"

definition resolve_commit :: "'oid repo \<Rightarrow> str \<Rightarrow> git_error + 'oid" where
  "resolve_commit r revspec = (case rp_resolve r revspec of None \<Rightarrow> Err (GitBadRevision revspec) | Some c \<Rightarrow> Ok c)"

definition diff_revisions :: "'oid repo \<Rightarrow> str \<Rightarrow> str \<Rightarrow> git_error + change_set" where
  "diff_revisions r base_rev head_rev =
     (case resolve_commit r base_rev of Err e \<Rightarrow> Err e | Ok base_oid \<Rightarrow>
      (case resolve_commit r head_rev of Err e \<Rightarrow> Err e | Ok head_oid \<Rightarrow>
       (case rp_tree r base_oid of Err e \<Rightarrow> Err e | Ok _ \<Rightarrow>
        (case rp_tree r head_oid of Err e \<Rightarrow> Err e | Ok _ \<Rightarrow>
         (case rp_diff r base_oid head_oid of Err e \<Rightarrow> Err e | Ok raw_deltas \<Rightarrow>
          if MAX_CHANGED_FILES < raw_deltas then Err (GitDiffTooLarge raw_deltas)
          else (case rp_similar r base_oid head_oid of Err e \<Rightarrow> Err e | Ok (es, fail) \<Rightarrow>
            (case collect_file_changes es fail of Err e \<Rightarrow> Err e | Ok files \<Rightarrow>
               if MAX_CHANGED_FILES < length files then Err (GitDiffTooLarge (length files))
               else Ok \<lparr>cs_base = rp_show r base_oid, cs_head = rp_show r head_oid, cs_files = files\<rparr>)))))))"

definition resolve_blob_oid :: "'oid repo \<Rightarrow> 'oid \<Rightarrow> str \<Rightarrow> git_error + 'oid option" where
  "resolve_blob_oid r oid rel =
     (case reject_unsafe_rel rel of Err e \<Rightarrow> Err e | Ok _ \<Rightarrow>
      if is_ignored rel then Err (GitIgnored rel)
      else (case rp_tree r oid of Err e \<Rightarrow> Err e | Ok get_path \<Rightarrow>
        (case get_path rel of
           None \<Rightarrow> Ok None
         | Some (k, b) \<Rightarrow> if k \<noteq> Blob then Ok None else Ok (Some b))))"

definition blob_size_at :: "'oid repo \<Rightarrow> 'oid \<Rightarrow> str \<Rightarrow> git_error + nat option" where
  "blob_size_at r oid rel =
     (case resolve_blob_oid r oid rel of Err e \<Rightarrow> Err e
      | Ok None \<Rightarrow> Ok None
      | Ok (Some b) \<Rightarrow> (case rp_header r b of Err e \<Rightarrow> Err e | Ok sz \<Rightarrow> Ok (Some sz)))"

definition read_blob_at_capped :: "'oid repo \<Rightarrow> 'oid \<Rightarrow> str \<Rightarrow> nat \<Rightarrow> git_error + str option" where
  "read_blob_at_capped r oid rel max_bytes =
     (case resolve_blob_oid r oid rel of Err e \<Rightarrow> Err e
      | Ok None \<Rightarrow> Ok None
      | Ok (Some b) \<Rightarrow>
          (case rp_header r b of Err e \<Rightarrow> Err e
           | Ok sz \<Rightarrow>
               if max_bytes < sz then Err (GitTooLarge sz)
               else (case rp_blob r b of Err e \<Rightarrow> Err e | Ok content \<Rightarrow> Ok (Some content))))"

definition read_blob_at :: "'oid repo \<Rightarrow> 'oid \<Rightarrow> str \<Rightarrow> git_error + str option" where
  "read_blob_at r oid rel = read_blob_at_capped r oid rel MAX_BLOB_BYTES"

record overlay_plan =
  op_base :: revision_id
  op_head :: revision_id
  op_overlay_root :: str

definition overlay_plan_new :: "change_set \<Rightarrow> str \<Rightarrow> overlay_plan" where
  "overlay_plan_new cs r = \<lparr>op_base = cs_base cs, op_head = cs_head cs, op_overlay_root = r\<rparr>"

definition safe_target :: "overlay_plan \<Rightarrow> str \<Rightarrow> git_error + str" where
  "safe_target p rel =
     (case reject_unsafe_rel rel of Err e \<Rightarrow> Err e | Ok _ \<Rightarrow> Ok (path_join (op_overlay_root p) rel))"

section \<open>The walk\<close>

definition range_ok :: "line_range \<Rightarrow> bool" where
  "range_ok r \<longleftrightarrow> 0 < lr_start r \<and> lr_start r \<le> lr_end r"

definition path_ok :: "str \<Rightarrow> bool" where
  "path_ok p \<longleftrightarrow> \<not> is_ignored p \<and> reject_unsafe_rel p = Ok ()"

definition file_ok :: "file_change \<Rightarrow> bool" where
  "file_ok f \<longleftrightarrow> path_ok (fc_path f)
     \<and> (case fc_old_path f of None \<Rightarrow> True | Some op \<Rightarrow> path_ok op \<and> fc_kind f = Renamed)
     \<and> length (fc_hunks f) \<le> MAX_HUNKS_PER_FILE \<and> list_all range_ok (fc_hunks f)"

text \<open>The reference lookup: the first file with the path, by a scan of the list.\<close>

fun scan_first :: "file_change list \<Rightarrow> str \<Rightarrow> nat option" where
  "scan_first [] p = None"
| "scan_first (f # fs) p = (if fc_path f = p then Some 0 else map_option Suc (scan_first fs p))"

definition hunk_count :: "file_change list \<Rightarrow> nat" where
  "hunk_count fs = sum_list (map (\<lambda>f. length (fc_hunks f)) fs)"

definition walk_inv :: "walk_state \<Rightarrow> bool" where
  "walk_inv s \<longleftrightarrow> w_index s = scan_first (w_files s) \<and> list_all file_ok (w_files s)
     \<and> hunk_count (w_files s) \<le> w_total s \<and> w_total s \<le> MAX_TOTAL_HUNKS"

lemma scan_first_append:
  "scan_first (fs @ [f]) = (case scan_first fs (fc_path f) of
      None \<Rightarrow> (scan_first fs)(fc_path f \<mapsto> length fs) | Some _ \<Rightarrow> scan_first fs)"
proof
  fix p
  show "scan_first (fs @ [f]) p = (case scan_first fs (fc_path f) of
      None \<Rightarrow> (scan_first fs)(fc_path f \<mapsto> length fs) | Some _ \<Rightarrow> scan_first fs) p"
    by (induction fs) (auto split: option.splits if_splits)
qed

lemma scan_first_Some: "scan_first fs p = Some i \<Longrightarrow> i < length fs \<and> fc_path (fs ! i) = p"
  by (induction fs arbitrary: i) (auto split: if_splits)

lemma scan_first_update:
  "fc_path g = fc_path (fs ! i) \<Longrightarrow> scan_first (fs[i := g]) p = scan_first fs p"
  by (induction fs arbitrary: i) (auto split: nat.splits)

lemma hunk_count_update:
  "i < length fs \<Longrightarrow> hunk_count (fs[i := push_hunk r (fs ! i)]) = Suc (hunk_count fs)"
  by (induction fs arbitrary: i) (auto simp: hunk_count_def push_hunk_def split: nat.splits)

lemma push_hunk_path [simp]: "fc_path (push_hunk r f) = fc_path f"
  by (simp add: push_hunk_def)

lemma file_change_ok: "file_change_from_delta d = Some fc \<Longrightarrow> file_ok fc \<and> fc_hunks fc = []"
  by (auto simp: file_change_from_delta_def file_ok_def path_ok_def Let_def
      split: option.splits if_splits delta_status.splits)

lemma file_change_head: "file_change_from_delta d = Some fc \<Longrightarrow> delta_head_path d = Some (fc_path fc)"
  by (auto simp: file_change_from_delta_def delta_head_path_def Let_def
      split: option.splits if_splits delta_status.splits)

lemma hunk_range_ok: "hunk_range s l = Ok r \<Longrightarrow> range_ok r"
  by (auto simp: hunk_range_def line_range_new_def range_ok_def word_neq_0_conv split: if_splits)

lemma file_ok_push:
  "file_ok f \<Longrightarrow> range_ok r \<Longrightarrow> length (fc_hunks f) < MAX_HUNKS_PER_FILE \<Longrightarrow> file_ok (push_hunk r f)"
  by (auto simp: file_ok_def push_hunk_def split: option.splits)

lemma walk_inv_init: "walk_inv walk_init"
  by (auto simp: walk_inv_def walk_init_def hunk_count_def)

lemma walk_inv_file: "walk_inv s \<Longrightarrow> walk_inv (file_cb d s)"
  by (auto simp: walk_inv_def file_cb_def Let_def scan_first_append hunk_count_def
      dest!: file_change_ok split: option.splits)

lemma walk_inv_hunk:
  assumes "walk_inv s" "hunk_cb d start lns s = Ok s'"
  shows "walk_inv s'"
proof -
  from assms have keep: "s' = s\<lparr>w_total := Suc (w_total s)\<rparr> \<Longrightarrow> walk_inv s'"
    by (auto simp: walk_inv_def hunk_cb_def Let_def split: if_splits)
  show ?thesis
  proof (cases "s' = s\<lparr>w_total := Suc (w_total s)\<rparr>")
    case False
    with assms(2) obtain p r i where
      r: "hunk_range start lns = Ok r" "w_index s p = Some i" "w_total s < MAX_TOTAL_HUNKS"
        "length (fc_hunks (w_files s ! i)) < MAX_HUNKS_PER_FILE"
      and s': "s' = s\<lparr>w_total := Suc (w_total s), w_files := (w_files s)[i := push_hunk r (w_files s ! i)]\<rparr>"
      by (auto simp: hunk_cb_def Let_def split: if_splits option.splits sum.splits)
    from r(2) assms(1) have i: "i < length (w_files s)" "scan_first (w_files s) p = Some i"
      by (auto simp: walk_inv_def dest: scan_first_Some)
    have "file_ok (push_hunk r (w_files s ! i))"
      using assms(1) i(1) r(4) hunk_range_ok [OF r(1)]
      by (intro file_ok_push) (auto simp: walk_inv_def list_all_length)
    then have "list_all file_ok ((w_files s)[i := push_hunk r (w_files s ! i)])"
      using assms(1) by (auto simp: walk_inv_def list_all_iff dest!: set_update_subset_insert [THEN subsetD])
    moreover have "scan_first ((w_files s)[i := push_hunk r (w_files s ! i)]) = scan_first (w_files s)"
      by (intro ext scan_first_update) simp
    ultimately show ?thesis
      using assms(1) i r s' by (simp add: walk_inv_def hunk_count_update)
  qed (rule keep)
qed

lemma walk_inv_walk: "walk es s = Ok s' \<Longrightarrow> walk_inv s \<Longrightarrow> walk_inv s'"
  by (induction es s rule: walk.induct)
    (auto simp: walk_inv_file dest: walk_inv_hunk split: sum.splits)

lemma collect_Ok:
  "collect_file_changes es fail = Ok fs \<longleftrightarrow> fail = None \<and> (\<exists>s. walk es walk_init = Ok s \<and> fs = w_files s)"
  by (auto simp: collect_file_changes_def split: sum.splits option.splits)

lemma collect_inv:
  "collect_file_changes es fail = Ok fs \<Longrightarrow> list_all file_ok fs \<and> hunk_count fs \<le> MAX_TOTAL_HUNKS"
  by (auto simp: collect_Ok walk_inv_def dest!: walk_inv_walk [OF _ walk_inv_init])

subsection \<open>Attribution\<close>

text \<open>The callbacks for a list of deltas, each followed by its hunks.\<close>

fun group_events :: "delta \<times> (u32 \<times> u32) list \<Rightarrow> diff_event list" where
  "group_events (d, hs) = FileCb d # map (\<lambda>(start, lns). HunkCb d start lns) hs"

fun head_ranges :: "(u32 \<times> u32) list \<Rightarrow> line_range list" where
  "head_ranges [] = []"
| "head_ranges ((start, lns) # hs) =
     (if lns = 0 then [] else case hunk_range start lns of Err _ \<Rightarrow> [] | Ok r \<Rightarrow> [r]) @ head_ranges hs"

fun group_file :: "delta \<times> (u32 \<times> u32) list \<Rightarrow> file_change list" where
  "group_file (d, hs) =
     (case file_change_from_delta d of None \<Rightarrow> [] | Some fc \<Rightarrow> [fc\<lparr>fc_hunks := head_ranges hs\<rparr>])"

definition heads :: "(delta \<times> (u32 \<times> u32) list) list \<Rightarrow> str list" where
  "heads gs = concat (map (\<lambda>(d, _). case delta_head_path d of None \<Rightarrow> [] | Some p \<Rightarrow> [p]) gs)"

lemma walk_append: "walk (es @ es') s = (case walk es s of Err e \<Rightarrow> Err e | Ok s' \<Rightarrow> walk es' s')"
  by (induction es s rule: walk.induct) (auto split: sum.splits)

lemma walk_hunks_indexed:
  assumes "delta_head_path d = Some p" "w_index s p = Some (length fs)" "w_files s = fs @ [f]"
    and "w_total s + length hs \<le> MAX_TOTAL_HUNKS"
    and "length (fc_hunks f) + length (head_ranges hs) \<le> MAX_HUNKS_PER_FILE"
  shows "walk (map (\<lambda>(start, lns). HunkCb d start lns) hs) s =
    Ok (s\<lparr>w_files := fs @ [f\<lparr>fc_hunks := fc_hunks f @ head_ranges hs\<rparr>], w_total := w_total s + length hs\<rparr>)"
  using assms
proof (induction hs arbitrary: s f)
  case (Cons h hs)
  obtain start lns where h: "h = (start, lns)" by force
  show ?case
  proof (cases "lns = 0 \<or> (\<exists>e. hunk_range start lns = Err e)")
    case True
    then have "hunk_cb d start lns s = Ok (s\<lparr>w_total := Suc (w_total s)\<rparr>)"
      using Cons.prems by (auto simp: hunk_cb_def Let_def)
    moreover have "head_ranges (h # hs) = head_ranges hs" using True h by auto
    ultimately show ?thesis using Cons.IH [of "s\<lparr>w_total := Suc (w_total s)\<rparr>" f] Cons.prems h by simp
  next
    case False
    then obtain r where r: "hunk_range start lns = Ok r" "lns \<noteq> 0" by (cases "hunk_range start lns") auto
    let ?s = "s\<lparr>w_total := Suc (w_total s), w_files := fs @ [push_hunk r f]\<rparr>"
    have "hunk_cb d start lns s = Ok ?s"
      using Cons.prems r h by (simp add: hunk_cb_def Let_def)
    moreover have "head_ranges (h # hs) = r # head_ranges hs" using r h by simp
    ultimately show ?thesis
      using Cons.IH [of ?s "push_hunk r f"] Cons.prems h by (simp add: push_hunk_def)
  qed
qed simp

lemma walk_hunks_dropped:
  assumes "\<And>p. delta_head_path d = Some p \<Longrightarrow> w_index s p = None"
    and "w_total s + length hs \<le> MAX_TOTAL_HUNKS"
  shows "walk (map (\<lambda>(start, lns). HunkCb d start lns) hs) s = Ok (s\<lparr>w_total := w_total s + length hs\<rparr>)"
  using assms
proof (induction hs arbitrary: s)
  case (Cons h hs)
  obtain start lns where h: "h = (start, lns)" by force
  have "hunk_cb d start lns s = Ok (s\<lparr>w_total := Suc (w_total s)\<rparr>)"
    using Cons.prems by (auto simp: hunk_cb_def Let_def split: option.splits sum.splits)
  with Cons.IH [of "s\<lparr>w_total := Suc (w_total s)\<rparr>"] Cons.prems h show ?case by simp
qed simp

lemma scan_first_None: "scan_first fs p = None \<longleftrightarrow> p \<notin> fc_path ` set fs"
  by (induction fs) auto

lemma walk_groups:
  assumes "w_index s = scan_first (w_files s)" "distinct (heads gs)"
    and "fc_path ` set (w_files s) \<inter> set (heads gs) = {}"
    and "w_total s + sum_list (map (\<lambda>(d, hs). length hs) gs) \<le> MAX_TOTAL_HUNKS"
    and "list_all (\<lambda>(d, hs). length (head_ranges hs) \<le> MAX_HUNKS_PER_FILE) gs"
  shows "\<exists>s'. walk (concat (map group_events gs)) s = Ok s' \<and> w_files s' = w_files s @ concat (map group_file gs)"
  using assms
proof (induction gs arbitrary: s)
  case (Cons g gs)
  obtain d hs where g: "g = (d, hs)" by force
  have heads: "heads (g # gs) = (case delta_head_path d of None \<Rightarrow> [] | Some p \<Rightarrow> [p]) @ heads gs"
    by (simp add: g heads_def)
  have rest: "distinct (heads gs)" "fc_path ` set (w_files s) \<inter> set (heads gs) = {}"
    using Cons.prems(2,3) by (auto simp: heads)
  show ?case
  proof (cases "file_change_from_delta d")
    case None
    then have fcb: "file_cb d s = s" by (simp add: file_cb_def)
    have "w_index s p = None" if "delta_head_path d = Some p" for p
      using Cons.prems(1,3) that by (auto simp: heads scan_first_None)
    then have "walk (map (\<lambda>(start, lns). HunkCb d start lns) hs) s = Ok (s\<lparr>w_total := w_total s + length hs\<rparr>)"
      using Cons.prems(4) g by (intro walk_hunks_dropped) auto
    moreover have "\<exists>s'. walk (concat (map group_events gs)) (s\<lparr>w_total := w_total s + length hs\<rparr>) = Ok s'
        \<and> w_files s' = w_files s @ concat (map group_file gs)"
      using Cons.IH [of "s\<lparr>w_total := w_total s + length hs\<rparr>"] Cons.prems(1,4,5) g rest
      by (simp add: add.assoc)
    ultimately show ?thesis by (simp add: g None fcb walk_append)
  next
    case (Some fc)
    note head = file_change_head [OF Some]
    have hunks: "fc_hunks fc = []" using file_change_ok [OF Some] by simp
    have new: "scan_first (w_files s) (fc_path fc) = None"
      using Cons.prems(3) by (auto simp: heads head scan_first_None)
    have other: "fc_path fc \<notin> set (heads gs)" using Cons.prems(2) by (auto simp: heads head)
    let ?s = "s\<lparr>w_index := (w_index s)(fc_path fc \<mapsto> length (w_files s)), w_files := w_files s @ [fc]\<rparr>"
    let ?fc = "fc\<lparr>fc_hunks := head_ranges hs\<rparr>"
    let ?s' = "?s\<lparr>w_files := w_files s @ [?fc], w_total := w_total s + length hs\<rparr>"
    have fcb: "file_cb d s = ?s" using Some new Cons.prems(1) by (simp add: file_cb_def Let_def)
    have "walk (map (\<lambda>(start, lns). HunkCb d start lns) hs) ?s = Ok ?s'"
      using walk_hunks_indexed [OF head, of ?s "w_files s" fc hs] Cons.prems(4,5) g hunks by simp
    moreover have "scan_first (w_files s @ [?fc]) = (scan_first (w_files s))(fc_path fc \<mapsto> length (w_files s))"
      using new by (simp add: scan_first_append)
    then have "\<exists>s'. walk (concat (map group_events gs)) ?s' = Ok s'
        \<and> w_files s' = (w_files s @ [?fc]) @ concat (map group_file gs)"
      using Cons.IH [of ?s'] Cons.prems(1,4,5) g rest other
      by (simp add: add.assoc)
    ultimately show ?thesis by (simp add: g Some fcb walk_append)
  qed
qed simp

section \<open>Properties\<close>

text \<open>
  C38: What the diff walk can hand on. Whatever callbacks libgit2 makes, every file of the result
  has a path that is neither ignored nor unsafe, names a rename source only if that is
  neither either, and holds at most 1000 ranges, each one-based and not empty; all files
  together hold at most 100000 ranges.
\<close>

theorem collect_file_changes_safe:
  assumes "collect_file_changes es fail = Ok fs"
  shows "list_all file_ok fs \<and> sum_list (map (\<lambda>f. length (fc_hunks f)) fs) \<le> 100000"
  using collect_inv [OF assms] by (simp add: hunk_count_def MAX_TOTAL_HUNKS_def)

theorem collect_file_changes_safe_witness:
  "list_all file_ok [\<lparr>fc_path = ''a.rs'', fc_old_path = None, fc_kind = Modified, fc_hunks = [\<lparr>lr_start = 3, lr_end = 4\<rparr>]\<rparr>]
   \<and> sum_list (map (\<lambda>f. length (fc_hunks f))
       [\<lparr>fc_path = ''a.rs'', fc_old_path = None, fc_kind = Modified, fc_hunks = [\<lparr>lr_start = (3 :: u32), lr_end = 4\<rparr>]\<rparr>]) \<le> 100000"
proof (rule collect_file_changes_safe)
  let ?d = "\<lparr>d_status = DModified, d_old = Some ''a.rs'', d_new = Some ''a.rs''\<rparr>"
  have "is_ignored ''a.rs'' = False" "reject_unsafe_rel ''a.rs'' = Ok ()" by code_simp+
  then have fc: "file_change_from_delta ?d
      = Some \<lparr>fc_path = ''a.rs'', fc_old_path = None, fc_kind = Modified, fc_hunks = []\<rparr>"
    and head: "delta_head_path ?d = Some ''a.rs''"
    by (simp_all add: file_change_from_delta_def delta_head_path_def)
  show "collect_file_changes [FileCb ?d, HunkCb ?d 3 2] None
    = Ok [\<lparr>fc_path = ''a.rs'', fc_old_path = None, fc_kind = Modified, fc_hunks = [\<lparr>lr_start = 3, lr_end = 4\<rparr>]\<rparr>]"
    by (simp add: collect_file_changes_def walk_init_def file_cb_def hunk_cb_def fc head hunk_range_def
        line_range_new_def push_hunk_def MAX_TOTAL_HUNKS_def MAX_HUNKS_PER_FILE_def Let_def)
qed

text \<open>
  The path index is the scan it replaced. After any callbacks the index sends a path to the
  first file of the list with that path, and to nothing when there is none.
\<close>

theorem walk_index_is_scan:
  assumes "walk es walk_init = Ok s"
  shows "w_index s p = scan_first (w_files s) p"
  using walk_inv_walk [OF assms walk_inv_init] by (simp add: walk_inv_def)

theorem walk_index_is_scan_witness:
  "w_index (file_cb \<lparr>d_status = DAdded, d_old = None, d_new = Some ''a.rs''\<rparr> walk_init) ''a.rs''
   = scan_first (w_files (file_cb \<lparr>d_status = DAdded, d_old = None, d_new = Some ''a.rs''\<rparr> walk_init)) ''a.rs''"
  by (rule walk_index_is_scan [where es = "[FileCb \<lparr>d_status = DAdded, d_old = None, d_new = Some ''a.rs''\<rparr>]"]) simp

text \<open>
  Every hunk goes to its own file. When the deltas have distinct head paths and stay within
  the caps, the walk returns, in order, one change per accepted delta that holds exactly the
  head-side ranges of that delta's own hunks, pure deletions left out.
\<close>

theorem collect_file_changes_attribution:
  assumes "distinct (heads gs)" "sum_list (map (\<lambda>(d, hs). length hs) gs) \<le> 100000"
    and "list_all (\<lambda>(d, hs). length (head_ranges hs) \<le> 1000) gs"
  shows "collect_file_changes (concat (map group_events gs)) None = Ok (concat (map group_file gs))"
proof -
  have "\<exists>s'. walk (concat (map group_events gs)) walk_init = Ok s' \<and> w_files s' = w_files walk_init @ concat (map group_file gs)"
    by (rule walk_groups)
      (use assms in \<open>auto simp: walk_init_def MAX_TOTAL_HUNKS_def MAX_HUNKS_PER_FILE_def\<close>)
  then show ?thesis by (auto simp: collect_Ok walk_init_def)
qed

theorem collect_file_changes_attribution_witness:
  "collect_file_changes (concat (map group_events
      [(\<lparr>d_status = DAdded, d_old = None, d_new = Some ''a.rs''\<rparr>, [(1, 2), (9, 0)]),
       (\<lparr>d_status = DModified, d_old = Some ''b.rs'', d_new = Some ''b.rs''\<rparr>, [(3, 1)])])) None
   = Ok (concat (map group_file
      [(\<lparr>d_status = DAdded, d_old = None, d_new = Some ''a.rs''\<rparr>, [(1, 2), (9, 0)]),
       (\<lparr>d_status = DModified, d_old = Some ''b.rs'', d_new = Some ''b.rs''\<rparr>, [(3, 1)])]))"
proof (rule collect_file_changes_attribution)
  have "is_ignored ''a.rs'' = False" "is_ignored ''b.rs'' = False" by code_simp+
  then show "distinct (heads
      [(\<lparr>d_status = DAdded, d_old = None, d_new = Some ''a.rs''\<rparr>, [(1, 2), (9, 0)]),
       (\<lparr>d_status = DModified, d_old = Some ''b.rs'', d_new = Some ''b.rs''\<rparr>, [(3, 1)])])"
    by (simp add: heads_def delta_head_path_def)
qed (simp_all add: hunk_range_def line_range_new_def)

text \<open>
  No read of a blob gets around the policy. Content is returned only for a path that is safe
  and not ignored, that names a blob of the commit's tree, and whose size by the object header is
  within the cap.
\<close>

theorem read_blob_at_capped_guarded:
  assumes "read_blob_at_capped r oid rel cap = Ok (Some content)"
  shows "path_ok rel \<and> (\<exists>t b n. rp_tree r oid = Ok t \<and> t rel = Some (Blob, b)
    \<and> rp_header r b = Ok n \<and> n \<le> cap \<and> rp_blob r b = Ok content)"
  using assms
  by (auto simp: read_blob_at_capped_def resolve_blob_oid_def path_ok_def
      split: sum.splits option.splits if_splits)

theorem read_blob_at_capped_guarded_witness:
  "path_ok ''a.rs'' \<and> (\<exists>t b n.
     rp_tree \<lparr>rp_resolve = (\<lambda>_. Some (1 :: nat)), rp_show = (\<lambda>_. []), rp_tree = (\<lambda>_. Ok (\<lambda>_. Some (Blob, 2))),
        rp_diff = (\<lambda>_ _. Ok 0), rp_similar = (\<lambda>_ _. Ok ([], None)), rp_header = (\<lambda>_. Ok 2), rp_blob = (\<lambda>_. Ok ''fn'')\<rparr> 1 = Ok t
     \<and> t ''a.rs'' = Some (Blob, b)
     \<and> rp_header \<lparr>rp_resolve = (\<lambda>_. Some (1 :: nat)), rp_show = (\<lambda>_. []), rp_tree = (\<lambda>_. Ok (\<lambda>_. Some (Blob, 2))),
        rp_diff = (\<lambda>_ _. Ok 0), rp_similar = (\<lambda>_ _. Ok ([], None)), rp_header = (\<lambda>_. Ok 2), rp_blob = (\<lambda>_. Ok ''fn'')\<rparr> b = Ok n
     \<and> n \<le> 5
     \<and> rp_blob \<lparr>rp_resolve = (\<lambda>_. Some (1 :: nat)), rp_show = (\<lambda>_. []), rp_tree = (\<lambda>_. Ok (\<lambda>_. Some (Blob, 2))),
        rp_diff = (\<lambda>_ _. Ok 0), rp_similar = (\<lambda>_ _. Ok ([], None)), rp_header = (\<lambda>_. Ok 2), rp_blob = (\<lambda>_. Ok ''fn'')\<rparr> b = Ok ''fn'')"
proof (rule read_blob_at_capped_guarded)
  have "is_ignored ''a.rs'' = False" "reject_unsafe_rel ''a.rs'' = Ok ()" by code_simp+
  then show "read_blob_at_capped \<lparr>rp_resolve = (\<lambda>_. Some (1 :: nat)), rp_show = (\<lambda>_. []), rp_tree = (\<lambda>_. Ok (\<lambda>_. Some (Blob, 2))),
        rp_diff = (\<lambda>_ _. Ok 0), rp_similar = (\<lambda>_ _. Ok ([], None)), rp_header = (\<lambda>_. Ok 2), rp_blob = (\<lambda>_. Ok ''fn'')\<rparr> 1 ''a.rs'' 5 = Ok (Some ''fn'')"
    by (simp add: read_blob_at_capped_def resolve_blob_oid_def)
qed

end
