(* ===== verification/Config.thy ===== *)
theory Config
  imports Intake
begin

text \<open>
  The configuration and its trust split: \<open>jitgen-core/src/config.rs\<close> and
  \<open>jitgen-orchestrator/src/config.rs\<close>. The repository's own file can only produce a
  \<open>repo_config\<close>; everything the run's safety depends on is in a \<open>trusted_config\<close>, resolved from
  a file outside the repository, the environment and the command line. The YAML parser and the
  derived deserializers are parameters (\<open>serde_yaml\<close>), and so are the file system and the
  standard library's table of printable characters.
\<close>

section \<open>The untrusted side\<close>

definition MAX_REPO_CONFIG_BYTES :: nat where "MAX_REPO_CONFIG_BYTES = 256 * 1024"

definition FORBIDDEN_REPO_KEYS :: "str list" where
  "FORBIDDEN_REPO_KEYS = [''provider'', ''base_url'', ''base-url'', ''api_key_env'', ''api-key-env'',
     ''model'', ''real_llm'', ''real-llm'', ''shell'', ''shell_allowed'', ''env'', ''env_allowlist'',
     ''env-allowlist'', ''env_allowlist_extra'', ''env_set_extra'', ''env-set-extra'', ''sandbox'',
     ''sandbox_backend'', ''sandbox-backend'', ''state_dir'', ''state-dir'',
     ''unsafe_local_execution'', ''unsafe-local-execution'', ''mode'', ''strategy'', ''max_tests'',
     ''docker_image'', ''docker-image'']"

definition ALLOWED_GRAMMARS :: "str list" where
  "ALLOWED_GRAMMARS = [''typescript'', ''tsx'', ''javascript'', ''java'', ''python'', ''rust'']"

record repo_config =
  rc_id :: "str option"
  rc_extensions :: "str list"
  rc_include :: "str list"
  rc_exclude :: "str list"
  rc_test_argv :: "str list"
  rc_grammar :: "str option"
  rc_prompt_hints :: "str list"

definition default_repo_config :: repo_config where
  "default_repo_config = \<lparr>rc_id = None, rc_extensions = [], rc_include = [], rc_exclude = [],
     rc_test_argv = [], rc_grammar = None, rc_prompt_hints = []\<rparr>"

text \<open>\<open>serde_yaml::Value\<close>, and its \<open>as_str\<close>, which looks through tags.\<close>

datatype yaml = YNull | YBool bool | YNumber str | YString str | YSequence "yaml list"
  | YMapping "(yaml \<times> yaml) list" | YTagged str yaml

fun yaml_as_str :: "yaml \<Rightarrow> str option" where
  "yaml_as_str (YString s) = Some s"
| "yaml_as_str (YTagged t v) = yaml_as_str v"
| "yaml_as_str _ = None"

record yaml_reader =
  yr_value :: "str \<Rightarrow> str + yaml"
  yr_repo :: "yaml \<Rightarrow> str + repo_config"

definition key_warning :: "str \<Rightarrow> str" where
  "key_warning name = ''ignored security-relevant key '' @ [CHR 0x27] @ name @ [CHR 0x27]
     @ '' in .jitgen.yaml (trusted-config only; ADR-0010)''"

definition grammar_warning :: "str \<Rightarrow> str" where
  "grammar_warning g = ''ignored non-allowlisted grammar '' @ [CHR 0x27] @ g @ [CHR 0x27]
     @ '' in .jitgen.yaml (compiled-in allowlist only; ADR-0007)''"

text \<open>The loop over the keys of a mapping.\<close>

fun key_warnings :: "yaml list \<Rightarrow> str list" where
  "key_warnings [] = []"
| "key_warnings (key # ks) =
     (case yaml_as_str key of
        Some name \<Rightarrow> (if name \<in> set FORBIDDEN_REPO_KEYS then [key_warning name] else []) @ key_warnings ks
      | None \<Rightarrow> key_warnings ks)"

definition value_warnings :: "yaml \<Rightarrow> str list" where
  "value_warnings v = (case v of YMapping m \<Rightarrow> key_warnings (map fst m) | _ \<Rightarrow> [])"

definition parse_yaml :: "yaml_reader \<Rightarrow> str \<Rightarrow> core_error + (repo_config \<times> str list)" where
  "parse_yaml yr yaml =
     (if MAX_REPO_CONFIG_BYTES < length yaml
      then Err (CoreInvalid ''RepoConfig'' (''`.jitgen.yaml` is '' @ show_nat (length yaml)
             @ '' bytes; exceeds the '' @ show_nat MAX_REPO_CONFIG_BYTES @ ''-byte cap''))
      else (case yr_value yr yaml of Err e \<Rightarrow> Err (CoreYaml e) | Ok value \<Rightarrow>
        (let warnings = value_warnings value in
         case yr_repo yr value of Err e \<Rightarrow> Err (CoreYaml e) | Ok cfg \<Rightarrow>
           (case rc_grammar cfg of
              Some g \<Rightarrow>
                if g \<notin> set ALLOWED_GRAMMARS
                then Ok (cfg\<lparr>rc_grammar := None\<rparr>, warnings @ [grammar_warning g])
                else Ok (cfg, warnings)
            | None \<Rightarrow> Ok (cfg, warnings)))))"

text \<open>\<open>render_argv\<close>: the first substitution whose placeholder is the whole element.\<close>

fun render_token :: "(str \<times> str) list \<Rightarrow> str \<Rightarrow> str" where
  "render_token [] tok = tok"
| "render_token ((name, val) # subs) tok =
     (if tok = ''{'' @ name @ ''}'' then val else render_token subs tok)"

definition render_argv :: "repo_config \<Rightarrow> (str \<times> str) list \<Rightarrow> str list" where
  "render_argv c subs = map (render_token subs) (rc_test_argv c)"

section \<open>The trusted side\<close>

datatype provider_kind = ProviderMock | Anthropic | OpenAiCompatible | ProviderLocal

record provider_config =
  pc_kind :: provider_kind
  pc_base_url :: "str option"
  pc_api_key_env :: "str option"
  pc_model :: "str option"
  pc_real_llm :: bool

definition default_provider :: provider_config where
  "default_provider = \<lparr>pc_kind = ProviderMock, pc_base_url = None, pc_api_key_env = None,
     pc_model = None, pc_real_llm = False\<rparr>"

datatype sandbox_backend = BackendAuto | Bwrap | Firejail | SandboxExec | Docker | Podman
  | NetnsHelper | BackendLocal

record trusted_config =
  tc_mode :: run_mode
  tc_strategy :: strategy
  tc_provider :: provider_config
  tc_shell_allowed :: bool
  tc_env_allowlist_extra :: "str list"
  tc_env_set_extra :: "(str \<times> str) list"
  tc_sandbox_backend :: sandbox_backend
  tc_unsafe_local_execution :: bool
  tc_state_dir :: "str option"
  tc_max_tests :: u32
  tc_docker_image :: "str option"

definition default_trusted :: trusted_config where
  "default_trusted = \<lparr>tc_mode = Harden, tc_strategy = Auto, tc_provider = default_provider,
     tc_shell_allowed = False, tc_env_allowlist_extra = [], tc_env_set_extra = [],
     tc_sandbox_backend = BackendAuto, tc_unsafe_local_execution = False, tc_state_dir = None,
     tc_max_tests = 20, tc_docker_image = None\<rparr>"

record resolved_config =
  cfg_trusted :: trusted_config
  cfg_repo :: repo_config
  cfg_warnings :: "str list"

definition resolved_config_new :: "trusted_config \<Rightarrow> repo_config \<Rightarrow> str list \<Rightarrow> resolved_config" where
  "resolved_config_new t r w = \<lparr>cfg_trusted = t, cfg_repo = r, cfg_warnings = w\<rparr>"

definition cfg_mode :: "resolved_config \<Rightarrow> run_mode" where
  "cfg_mode c = tc_mode (cfg_trusted c)"

definition cfg_strategy :: "resolved_config \<Rightarrow> strategy" where
  "cfg_strategy c = resolve (tc_strategy (cfg_trusted c)) (tc_mode (cfg_trusted c))"

record trusted_flags =
  fl_config_file :: "str option"
  fl_mode :: "run_mode option"
  fl_strategy :: "strategy option"
  fl_sandbox_backend :: "sandbox_backend option"
  fl_unsafe_local_execution :: "bool option"
  fl_shell_allowed :: "bool option"
  fl_state_dir :: "str option"
  fl_max_tests :: "u32 option"
  fl_real_llm :: "bool option"
  fl_env_allowlist_extra :: "str list option"
  fl_docker_image :: "str option"

definition default_flags :: trusted_flags where
  "default_flags = \<lparr>fl_config_file = None, fl_mode = None, fl_strategy = None,
     fl_sandbox_backend = None, fl_unsafe_local_execution = None, fl_shell_allowed = None,
     fl_state_dir = None, fl_max_tests = None, fl_real_llm = None, fl_env_allowlist_extra = None,
     fl_docker_image = None\<rparr>"

subsection \<open>Paths outside the repository\<close>

text \<open>
  The file system: the working directory, which paths exist, their canonical form, and reading
  and parsing a configuration file. Paths that are looked up are given by their components.
\<close>

record host =
  h_cwd :: "str option"
  h_exists :: "component list \<Rightarrow> bool"
  h_canonicalize :: "component list \<Rightarrow> component list option"
  h_read :: "str \<Rightarrow> str + str"
  h_trusted :: "str \<Rightarrow> str + trusted_config"
  h_escape :: "str \<Rightarrow> str"

text \<open>\<open>std::path::absolute\<close> (an error for the empty path or an unknown working directory)
  with the fallback to the path itself; \<open>..\<close> is kept.\<close>

definition absolute_or_self :: "host \<Rightarrow> str \<Rightarrow> component list" where
  "absolute_or_self h p =
     (if p = [] then components p
      else if is_absolute p then components p
      else (case h_cwd h of
              None \<Rightarrow> components p
            | Some cwd \<Rightarrow> components cwd @ filter (\<lambda>c. c \<noteq> CurDir) (components p)))"

function existing_prefix :: "host \<Rightarrow> component list \<Rightarrow> str list \<Rightarrow> component list \<times> str list" where
  "existing_prefix h ancestor tail =
     (if h_exists h ancestor then (ancestor, tail)
      else (case comps_file_name ancestor of
              None \<Rightarrow> (ancestor, tail)
            | Some n \<Rightarrow>
                (case comps_parent ancestor of
                   None \<Rightarrow> (ancestor, tail @ [n])
                 | Some up \<Rightarrow> existing_prefix h up (tail @ [n]))))"
  by pat_completeness auto
termination
  by (relation "measure (\<lambda>(h, a, t). length a)") (auto simp: comps_parent_def split: if_splits)

declare existing_prefix.simps [simp del]

definition canonical_prefix :: "host \<Rightarrow> component list \<Rightarrow> component list" where
  "canonical_prefix h p =
     (case h_canonicalize h p of
        Some c \<Rightarrow> c
      | None \<Rightarrow>
          (let (ancestor, tail) = existing_prefix h p [];
               base = (case h_canonicalize h ancestor of Some c \<Rightarrow> c | None \<Rightarrow> ancestor)
           in base @ map Normal (rev tail)))"

fun show_component :: "component \<Rightarrow> str" where
  "show_component RootDir = ''''"
| "show_component CurDir = ''.''"
| "show_component ParentDir = ''..''"
| "show_component (Normal s) = s"

definition display_path :: "component list \<Rightarrow> str" where
  "display_path p = (if p = [RootDir] then ''/'' else join ''/'' (map show_component p))"

definition ensure_outside_repo :: "host \<Rightarrow> str \<Rightarrow> str \<Rightarrow> str \<Rightarrow> orch_error + unit" where
  "ensure_outside_repo h path repo_root label =
     (let path_abs = absolute_or_self h path;
          repo_abs = absolute_or_self h repo_root;
          lexical_inside = prefix repo_abs path_abs;
          canonical_inside = prefix (canonical_prefix h repo_abs) (canonical_prefix h path_abs)
      in if lexical_inside \<or> canonical_inside
         then Err (OrInvalid label (label @ '' must be OUTSIDE the target repo (resolved under ''
                @ display_path repo_abs @ '')''))
         else Ok ())"

definition load_config_file :: "host \<Rightarrow> str \<Rightarrow> orch_error + trusted_config" where
  "load_config_file h path =
     (case h_read h path of
        Err e \<Rightarrow> Err (OrConfig (''cannot read trusted config file '' @ path @ '': '' @ e))
      | Ok bytes \<Rightarrow>
          if \<not> utf8 bytes
          then Err (OrConfig (''trusted config file '' @ path @ '' is not valid UTF-8''))
          else (case h_trusted h bytes of
                  Err e \<Rightarrow> Err (OrConfig (''cannot parse trusted config file '' @ path @ '': '' @ e))
                | Ok c \<Rightarrow> Ok c))"

subsection \<open>Environment and flags\<close>

definition parse_strategy :: "str \<Rightarrow> strategy option" where
  "parse_strategy s =
     (if s = ''auto'' then Some Auto
      else if s = ''harden'' then Some StrategyHarden
      else if s = ''dodgy-diff'' then Some DodgyDiff
      else if s = ''intent-aware'' then Some IntentAware
      else None)"

definition parse_backend :: "str \<Rightarrow> sandbox_backend option" where
  "parse_backend s =
     (if s = ''auto'' then Some BackendAuto
      else if s = ''bwrap'' then Some Bwrap
      else if s = ''firejail'' then Some Firejail
      else if s = ''sandbox-exec'' then Some SandboxExec
      else if s = ''docker'' then Some Docker
      else if s = ''podman'' then Some Podman
      else if s = ''netns-helper'' then Some NetnsHelper
      else if s = ''local'' then Some BackendLocal
      else None)"

definition parse_bool :: "str \<Rightarrow> bool option" where
  "parse_bool s =
     (let l = to_ascii_lowercase s in
      if l \<in> set [''1'', ''true'', ''yes'', ''on''] then Some True
      else if l \<in> set [''0'', ''false'', ''no'', ''off''] then Some False
      else None)"

definition parse_u32 :: "str \<Rightarrow> u32 option" where
  "parse_u32 s = map_option of_nat (parse_unsigned (2 ^ 32) s)"

text \<open>\<open>{value:?}\<close>: quotes, backslashes and the named control characters are escaped; the
  characters that are not printable are left to the standard library's table.\<close>

definition debug_char :: "(str \<Rightarrow> str) \<Rightarrow> str \<Rightarrow> str" where
  "debug_char esc k =
     (if k = [CHR 0x22] then [CHR 0x5C, CHR 0x22]
      else if k = [CHR 0x5C] then [CHR 0x5C, CHR 0x5C]
      else if k = [TAB] then [CHR 0x5C, CHR ''t'']
      else if k = [CR] then [CHR 0x5C, CHR ''r'']
      else if k = [LF] then [CHR 0x5C, CHR ''n'']
      else if k = [CHR 0x00] then [CHR 0x5C, CHR ''0'']
      else if 32 \<le> cp k \<and> cp k < 127 then k
      else esc k)"

definition debug_str :: "(str \<Rightarrow> str) \<Rightarrow> str \<Rightarrow> str" where
  "debug_str esc s = [CHR 0x22] @ concat (map (debug_char esc) (chars s)) @ [CHR 0x22]"

definition invalid_env :: "host \<Rightarrow> str \<Rightarrow> str \<Rightarrow> orch_error" where
  "invalid_env h var v = OrInvalid var (''unrecognized value '' @ debug_str (h_escape h) v)"

text \<open>One \<open>if let Some(v) = env(..)\<close> of \<open>apply_env\<close>, for a variable that must parse and for one
  that is taken when it is not empty.\<close>

definition env_parsed ::
  "host \<Rightarrow> (str \<Rightarrow> str option) \<Rightarrow> str \<Rightarrow> (str \<Rightarrow> 'a option) \<Rightarrow> ('a \<Rightarrow> trusted_config \<Rightarrow> trusted_config)
    \<Rightarrow> trusted_config \<Rightarrow> orch_error + trusted_config" where
  "env_parsed h env var parse put cfg =
     (case env var of
        None \<Rightarrow> Ok cfg
      | Some v \<Rightarrow> (case parse v of None \<Rightarrow> Err (invalid_env h var v) | Some x \<Rightarrow> Ok (put x cfg)))"

definition env_text ::
  "(str \<Rightarrow> str option) \<Rightarrow> str \<Rightarrow> (str \<Rightarrow> trusted_config \<Rightarrow> trusted_config) \<Rightarrow> trusted_config
    \<Rightarrow> trusted_config" where
  "env_text env var put cfg =
     (case env var of None \<Rightarrow> cfg | Some v \<Rightarrow> if v = [] then cfg else put v cfg)"

definition put_real_llm :: "bool \<Rightarrow> trusted_config \<Rightarrow> trusted_config" where
  "put_real_llm b cfg = cfg\<lparr>tc_provider := (tc_provider cfg)\<lparr>pc_real_llm := b\<rparr>\<rparr>"

definition apply_env :: "host \<Rightarrow> (str \<Rightarrow> str option) \<Rightarrow> trusted_config \<Rightarrow> orch_error + trusted_config" where
  "apply_env h env cfg =
     (case env_parsed h env ''JITGEN_MODE'' mode_parse (\<lambda>m c. c\<lparr>tc_mode := m\<rparr>) cfg of
        Err e \<Rightarrow> Err e | Ok cfg \<Rightarrow>
     (case env_parsed h env ''JITGEN_STRATEGY'' parse_strategy (\<lambda>s c. c\<lparr>tc_strategy := s\<rparr>) cfg of
        Err e \<Rightarrow> Err e | Ok cfg \<Rightarrow>
     (case env_parsed h env ''JITGEN_SANDBOX'' parse_backend (\<lambda>b c. c\<lparr>tc_sandbox_backend := b\<rparr>) cfg of
        Err e \<Rightarrow> Err e | Ok cfg \<Rightarrow>
     (case env_parsed h env ''JITGEN_UNSAFE_LOCAL_EXECUTION'' parse_bool
             (\<lambda>b c. c\<lparr>tc_unsafe_local_execution := b\<rparr>) cfg of
        Err e \<Rightarrow> Err e | Ok cfg \<Rightarrow>
     (case env_parsed h env ''JITGEN_SHELL_ALLOWED'' parse_bool (\<lambda>b c. c\<lparr>tc_shell_allowed := b\<rparr>) cfg of
        Err e \<Rightarrow> Err e | Ok cfg \<Rightarrow>
     (case env_parsed h env ''JITGEN_REAL_LLM'' parse_bool put_real_llm cfg of
        Err e \<Rightarrow> Err e | Ok cfg \<Rightarrow>
     (case env_parsed h env ''JITGEN_MAX_TESTS'' parse_u32 (\<lambda>n c. c\<lparr>tc_max_tests := n\<rparr>) cfg of
        Err e \<Rightarrow> Err e | Ok cfg \<Rightarrow>
      Ok (env_text env ''JITGEN_DOCKER_IMAGE'' (\<lambda>v c. c\<lparr>tc_docker_image := Some v\<rparr>)
           (env_text env ''JITGEN_STATE_DIR'' (\<lambda>v c. c\<lparr>tc_state_dir := Some v\<rparr>) cfg)))))))))"

definition flag_set :: "'a option \<Rightarrow> ('a \<Rightarrow> trusted_config \<Rightarrow> trusted_config) \<Rightarrow> trusted_config \<Rightarrow> trusted_config" where
  "flag_set f put cfg = (case f of None \<Rightarrow> cfg | Some x \<Rightarrow> put x cfg)"

definition apply_flags :: "trusted_config \<Rightarrow> trusted_flags \<Rightarrow> trusted_config" where
  "apply_flags cfg0 flags =
     (let cfg1 = flag_set (fl_mode flags) (\<lambda>m c. c\<lparr>tc_mode := m\<rparr>) cfg0;
          cfg2 = flag_set (fl_strategy flags) (\<lambda>s c. c\<lparr>tc_strategy := s\<rparr>) cfg1;
          cfg3 = flag_set (fl_sandbox_backend flags) (\<lambda>b c. c\<lparr>tc_sandbox_backend := b\<rparr>) cfg2;
          cfg4 = flag_set (fl_unsafe_local_execution flags) (\<lambda>b c. c\<lparr>tc_unsafe_local_execution := b\<rparr>) cfg3;
          cfg5 = flag_set (fl_shell_allowed flags) (\<lambda>b c. c\<lparr>tc_shell_allowed := b\<rparr>) cfg4;
          cfg6 = flag_set (fl_real_llm flags) put_real_llm cfg5;
          cfg7 = flag_set (fl_max_tests flags) (\<lambda>n c. c\<lparr>tc_max_tests := n\<rparr>) cfg6;
          cfg8 = flag_set (fl_state_dir flags)
                   (\<lambda>d c. if d = [] then c else c\<lparr>tc_state_dir := Some d\<rparr>) cfg7;
          cfg9 = flag_set (fl_env_allowlist_extra flags) (\<lambda>x c. c\<lparr>tc_env_allowlist_extra := x\<rparr>) cfg8
      in flag_set (fl_docker_image flags)
           (\<lambda>img c. if img = [] then c else c\<lparr>tc_docker_image := Some img\<rparr>) cfg9)"

definition base_config :: "host \<Rightarrow> trusted_flags \<Rightarrow> str \<Rightarrow> orch_error + trusted_config" where
  "base_config h flags repo_root =
     (case fl_config_file flags of
        Some path \<Rightarrow>
          (case ensure_outside_repo h path repo_root ''--config'' of
             Err e \<Rightarrow> Err e | Ok _ \<Rightarrow> load_config_file h path)
      | None \<Rightarrow> Ok default_trusted)"

definition resolve_trusted ::
  "host \<Rightarrow> trusted_flags \<Rightarrow> str \<Rightarrow> (str \<Rightarrow> str option) \<Rightarrow> orch_error + trusted_config" where
  "resolve_trusted h flags repo_root env =
     (case base_config h flags repo_root of Err e \<Rightarrow> Err e | Ok cfg \<Rightarrow>
      (case apply_env h env cfg of Err e \<Rightarrow> Err e | Ok cfg \<Rightarrow> Ok (apply_flags cfg flags)))"

definition load_repo_config ::
  "yaml_reader \<Rightarrow> 'oid repo \<Rightarrow> 'oid \<Rightarrow> orch_error + (repo_config \<times> str list)" where
  "load_repo_config yr r head_oid =
     (case read_blob_at r head_oid ''.jitgen.yaml'' of
        Err e \<Rightarrow> Err (OrGit e)
      | Ok (Some bytes) \<Rightarrow>
          if \<not> utf8 bytes then Err (OrConfig ''.jitgen.yaml is not valid UTF-8'')
          else (case parse_yaml yr bytes of Err e \<Rightarrow> Err (OrCore e) | Ok p \<Rightarrow> Ok p)
      | Ok None \<Rightarrow> Ok (default_repo_config, []))"

section \<open>Lemmas\<close>

lemma key_warnings_forbidden:
  "key_warnings ks = map key_warning (filter (\<lambda>n. n \<in> set FORBIDDEN_REPO_KEYS) (List.map_filter yaml_as_str ks))"
  by (induction ks) (auto simp: List.map_filter_simps split: option.splits)

lemma render_token_cases:
  "render_token subs tok = tok \<or> render_token subs tok \<in> snd ` set subs"
  by (induction subs tok rule: render_token.induct) auto

text \<open>The value a setting has after the environment and the flags, and the variables that are
  checked, in order.\<close>

definition layer :: "'a option \<Rightarrow> (str \<Rightarrow> 'a option) \<Rightarrow> str option \<Rightarrow> 'a \<Rightarrow> 'a" where
  "layer flag parse var base =
     (case flag of Some x \<Rightarrow> x | None \<Rightarrow>
       (case var of None \<Rightarrow> base | Some v \<Rightarrow> (case parse v of Some x \<Rightarrow> x | None \<Rightarrow> base)))"

definition layer_text :: "str option \<Rightarrow> str option \<Rightarrow> str option \<Rightarrow> str option" where
  "layer_text flag var base =
     (case flag of Some (c # s) \<Rightarrow> Some (c # s) | _ \<Rightarrow>
       (case var of Some (c # s) \<Rightarrow> Some (c # s) | _ \<Rightarrow> base))"

definition layered :: "trusted_flags \<Rightarrow> (str \<Rightarrow> str option) \<Rightarrow> trusted_config \<Rightarrow> trusted_config" where
  "layered flags env base =
     \<lparr>tc_mode = layer (fl_mode flags) mode_parse (env ''JITGEN_MODE'') (tc_mode base),
      tc_strategy = layer (fl_strategy flags) parse_strategy (env ''JITGEN_STRATEGY'') (tc_strategy base),
      tc_provider = (tc_provider base)\<lparr>pc_real_llm :=
         layer (fl_real_llm flags) parse_bool (env ''JITGEN_REAL_LLM'') (pc_real_llm (tc_provider base))\<rparr>,
      tc_shell_allowed = layer (fl_shell_allowed flags) parse_bool (env ''JITGEN_SHELL_ALLOWED'') (tc_shell_allowed base),
      tc_env_allowlist_extra = (case fl_env_allowlist_extra flags of Some x \<Rightarrow> x | None \<Rightarrow> tc_env_allowlist_extra base),
      tc_env_set_extra = tc_env_set_extra base,
      tc_sandbox_backend = layer (fl_sandbox_backend flags) parse_backend (env ''JITGEN_SANDBOX'') (tc_sandbox_backend base),
      tc_unsafe_local_execution = layer (fl_unsafe_local_execution flags) parse_bool
         (env ''JITGEN_UNSAFE_LOCAL_EXECUTION'') (tc_unsafe_local_execution base),
      tc_state_dir = layer_text (fl_state_dir flags) (env ''JITGEN_STATE_DIR'') (tc_state_dir base),
      tc_max_tests = layer (fl_max_tests flags) parse_u32 (env ''JITGEN_MAX_TESTS'') (tc_max_tests base),
      tc_docker_image = layer_text (fl_docker_image flags) (env ''JITGEN_DOCKER_IMAGE'') (tc_docker_image base)\<rparr>"

definition checked_vars :: "(str \<times> (str \<Rightarrow> bool)) list" where
  "checked_vars =
     [(''JITGEN_MODE'', \<lambda>v. mode_parse v \<noteq> None), (''JITGEN_STRATEGY'', \<lambda>v. parse_strategy v \<noteq> None),
      (''JITGEN_SANDBOX'', \<lambda>v. parse_backend v \<noteq> None),
      (''JITGEN_UNSAFE_LOCAL_EXECUTION'', \<lambda>v. parse_bool v \<noteq> None),
      (''JITGEN_SHELL_ALLOWED'', \<lambda>v. parse_bool v \<noteq> None),
      (''JITGEN_REAL_LLM'', \<lambda>v. parse_bool v \<noteq> None), (''JITGEN_MAX_TESTS'', \<lambda>v. parse_u32 v \<noteq> None)]"

definition bad_var :: "(str \<Rightarrow> str option) \<Rightarrow> str \<times> (str \<Rightarrow> bool) \<Rightarrow> bool" where
  "bad_var env nv = (case env (fst nv) of None \<Rightarrow> False | Some v \<Rightarrow> \<not> snd nv v)"

text \<open>Chaining one variable: an error names it, otherwise the setting is layered.\<close>

lemma env_parsed_eq:
  "env_parsed h env var parse put cfg =
     (if bad_var env (var, \<lambda>v. parse v \<noteq> None) then Err (invalid_env h var (the (env var)))
      else Ok (case Option.bind (env var) parse of None \<Rightarrow> cfg | Some x \<Rightarrow> put x cfg))"
  by (auto simp: env_parsed_def bad_var_def split: option.splits)

definition override :: "'a option \<Rightarrow> 'a \<Rightarrow> 'a" where
  "override v d = (case v of None \<Rightarrow> d | Some x \<Rightarrow> x)"

lemma layer_bind:
  "override (Option.bind var parse) base = layer None parse var base"
  by (auto simp: layer_def override_def split: option.splits)

text \<open>A conditional update is an update to a conditional value, field by field.\<close>

lemma opt_update:
  "(case v of None \<Rightarrow> cfg | Some x \<Rightarrow> cfg\<lparr>tc_mode := x\<rparr>) = cfg\<lparr>tc_mode := override v (tc_mode cfg)\<rparr>"
  "(case v2 of None \<Rightarrow> cfg | Some x \<Rightarrow> cfg\<lparr>tc_strategy := x\<rparr>) = cfg\<lparr>tc_strategy := override v2 (tc_strategy cfg)\<rparr>"
  "(case v3 of None \<Rightarrow> cfg | Some x \<Rightarrow> cfg\<lparr>tc_sandbox_backend := x\<rparr>) = cfg\<lparr>tc_sandbox_backend := override v3 (tc_sandbox_backend cfg)\<rparr>"
  "(case v4 of None \<Rightarrow> cfg | Some x \<Rightarrow> cfg\<lparr>tc_unsafe_local_execution := x\<rparr>) = cfg\<lparr>tc_unsafe_local_execution := override v4 (tc_unsafe_local_execution cfg)\<rparr>"
  "(case v5 of None \<Rightarrow> cfg | Some x \<Rightarrow> cfg\<lparr>tc_shell_allowed := x\<rparr>) = cfg\<lparr>tc_shell_allowed := override v5 (tc_shell_allowed cfg)\<rparr>"
  "(case v6 of None \<Rightarrow> cfg | Some x \<Rightarrow> put_real_llm x cfg) = put_real_llm (override v6 (pc_real_llm (tc_provider cfg))) cfg"
  "(case v7 of None \<Rightarrow> cfg | Some x \<Rightarrow> cfg\<lparr>tc_max_tests := x\<rparr>) = cfg\<lparr>tc_max_tests := override v7 (tc_max_tests cfg)\<rparr>"
  "(case v8 of None \<Rightarrow> cfg | Some x \<Rightarrow> cfg\<lparr>tc_env_allowlist_extra := x\<rparr>) = cfg\<lparr>tc_env_allowlist_extra := override v8 (tc_env_allowlist_extra cfg)\<rparr>"
  by (simp_all add: put_real_llm_def override_def split: option.splits)

lemma text_update:
  "env_text env var (\<lambda>x c. c\<lparr>tc_state_dir := Some x\<rparr>) cfg = cfg\<lparr>tc_state_dir := layer_text None (env var) (tc_state_dir cfg)\<rparr>"
  "env_text env var (\<lambda>x c. c\<lparr>tc_docker_image := Some x\<rparr>) cfg = cfg\<lparr>tc_docker_image := layer_text None (env var) (tc_docker_image cfg)\<rparr>"
  "flag_set f (\<lambda>d c. if d = [] then c else c\<lparr>tc_state_dir := Some d\<rparr>) cfg = cfg\<lparr>tc_state_dir := layer_text f None (tc_state_dir cfg)\<rparr>"
  "flag_set f (\<lambda>d c. if d = [] then c else c\<lparr>tc_docker_image := Some d\<rparr>) cfg = cfg\<lparr>tc_docker_image := layer_text f None (tc_docker_image cfg)\<rparr>"
  by (auto simp: env_text_def flag_set_def layer_text_def split: option.splits list.splits)

lemma layer_stack:
  "override flag (layer None parse var base) = layer flag parse var base"
  "layer_text fl None (layer_text None tvar tbase) = layer_text fl tvar tbase"
  by (auto simp: layer_def override_def layer_text_def split: option.splits list.splits)

lemma apply_env_eq:
  "apply_env h env cfg =
     (case find (bad_var env) checked_vars of
        Some (n, _) \<Rightarrow> Err (invalid_env h n (the (env n)))
      | None \<Rightarrow> Ok (layered default_flags env cfg))"
  unfolding apply_env_def env_parsed_eq checked_vars_def text_update opt_update
  by (simp add: layer_bind layered_def default_flags_def put_real_llm_def text_update
      del: Option.bind.simps)

lemma apply_flags_layered:
  "apply_flags (layered default_flags env cfg) flags = layered flags env cfg"
  unfolding apply_flags_def Let_def text_update
  unfolding flag_set_def opt_update
  by (simp add: layered_def default_flags_def put_real_llm_def layer_stack override_def [of "fl_env_allowlist_extra flags"])

text \<open>Coherence of the host: a path exists exactly when it has a canonical form.\<close>

definition host_ok :: "host \<Rightarrow> bool" where
  "host_ok h \<longleftrightarrow> (\<forall>p. h_exists h p \<longleftrightarrow> h_canonicalize h p \<noteq> None)"

lemma existing_prefix_tail:
  assumes "h_exists h a" "\<And>k. 0 < k \<Longrightarrow> k \<le> length ns \<Longrightarrow> \<not> h_exists h (a @ map Normal (take k ns))"
  shows "existing_prefix h (a @ map Normal ns) t = (a, t @ rev ns)"
  using assms(2)
proof (induction ns arbitrary: t rule: rev_induct)
  case Nil
  then show ?case using assms(1) by (simp add: existing_prefix.simps)
next
  case (snoc n ns)
  have "\<not> h_exists h (a @ map Normal (ns @ [n]))"
    using snoc.prems [of "Suc (length ns)"] by simp
  moreover have "existing_prefix h (a @ map Normal ns) (t @ [n]) = (a, (t @ [n]) @ rev ns)"
  proof (rule snoc.IH)
    fix k assume "0 < k" "k \<le> length ns"
    then show "\<not> h_exists h (a @ map Normal (take k ns))"
      using snoc.prems [of k] by simp
  qed
  ultimately show ?case
    by (subst existing_prefix.simps) (simp add: comps_file_name_def comps_parent_def butlast_append)
qed

lemma canonical_prefix_tail:
  assumes "host_ok h" "h_canonicalize h a = Some c"
    and "\<And>k. 0 < k \<Longrightarrow> k \<le> length ns \<Longrightarrow> h_canonicalize h (a @ map Normal (take k ns)) = None"
  shows "canonical_prefix h (a @ map Normal ns) = c @ map Normal ns"
proof (cases "ns = []")
  case True
  with assms(2) show ?thesis by (simp add: canonical_prefix_def)
next
  case False
  then have "h_canonicalize h (a @ map Normal ns) = None"
    using assms(3) [of "length ns"] by simp
  moreover have "existing_prefix h (a @ map Normal ns) [] = (a, rev ns)"
    using existing_prefix_tail [of h a ns "[]"] assms by (auto simp: host_ok_def)
  ultimately show ?thesis using assms(2) by (simp add: canonical_prefix_def)
qed

section \<open>Properties\<close>

text \<open>
  C34: Command line over environment over file. Resolving the trusted configuration fails with the
  base file's error, or names the first environment variable, in the order of the code, whose value
  does not parse; otherwise every setting has the flag's value when the flag is given, else the
  environment's, else the file's, else the default, and no setting is reached in another way (the
  provider's kind, address, key name and model, and the explicitly set variables, come from the
  file alone). An empty state directory or image, from either place, counts as absent.
\<close>

theorem resolve_trusted_layers:
  "resolve_trusted h flags repo_root env =
     (case base_config h flags repo_root of
        Err e \<Rightarrow> Err e
      | Ok base \<Rightarrow>
          (case find (bad_var env) checked_vars of
             Some (n, _) \<Rightarrow> Err (invalid_env h n (the (env n)))
           | None \<Rightarrow> Ok (layered flags env base)))"
  by (auto simp: resolve_trusted_def apply_env_eq apply_flags_layered split: sum.splits option.splits)

text \<open>
  What a repository can obtain with its own configuration. A parsed configuration is the
  derived reader's, with a grammar only if it is one of the compiled-in names; the warnings name,
  in order, every forbidden key of the top-level mapping and then the grammar that was dropped; a
  text over the cap is refused before it reaches the parser.
\<close>

theorem parse_yaml_outcome:
  "parse_yaml yr text = Ok (cfg, ws) \<longleftrightarrow>
     length text \<le> MAX_REPO_CONFIG_BYTES \<and>
     (\<exists>v raw. yr_value yr text = Ok v \<and> yr_repo yr v = Ok raw \<and>
        cfg = raw\<lparr>rc_grammar := Option.bind (rc_grammar raw) (\<lambda>g. if g \<in> set ALLOWED_GRAMMARS then Some g else None)\<rparr> \<and>
        ws = (case v of YMapping m \<Rightarrow>
                map key_warning (filter (\<lambda>n. n \<in> set FORBIDDEN_REPO_KEYS) (List.map_filter (yaml_as_str \<circ> fst) m))
              | _ \<Rightarrow> [])
             @ (case rc_grammar raw of Some g \<Rightarrow> if g \<in> set ALLOWED_GRAMMARS then [] else [grammar_warning g]
                | None \<Rightarrow> []))"
  by (auto simp: parse_yaml_def value_warnings_def key_warnings_forbidden Let_def List.map_filter_def
        filter_map comp_def split: sum.splits option.splits yaml.splits if_splits)

text \<open>
  A trusted path is outside the repository. For a path made of an existing ancestor and names
  none of which exists yet, and a repository that exists, the check accepts exactly when neither
  the path as written lies under the repository nor the place it resolves to, the ancestor's
  canonical form followed by the names, lies under the repository's canonical form.
\<close>

theorem ensure_outside_repo_exact:
  assumes "host_ok h"
    and "h_canonicalize h (absolute_or_self h root_dir) = Some root_c"
    and "absolute_or_self h p = a @ map Normal ns" "h_canonicalize h a = Some c"
    and "\<And>k. 0 < k \<Longrightarrow> k \<le> length ns \<Longrightarrow> h_canonicalize h (a @ map Normal (take k ns)) = None"
  shows "ensure_outside_repo h p root_dir label = Ok () \<longleftrightarrow>
     \<not> prefix (absolute_or_self h root_dir) (a @ map Normal ns) \<and> \<not> prefix root_c (c @ map Normal ns)"
  using canonical_prefix_tail [OF assms(1,4,5)] assms(2,3)
  by (simp add: ensure_outside_repo_def Let_def canonical_prefix_def [of h "absolute_or_self h root_dir"])

text \<open>A host with \<open>/\<close>, \<open>/repo\<close> and \<open>/link\<close>, a link to \<open>/repo\<close>.\<close>

definition sample_host :: host where
  "sample_host = (let real = (\<lambda>p. if p = [RootDir] then Some [RootDir]
       else if p = [RootDir, Normal ''repo''] \<or> p = [RootDir, Normal ''link''] then Some [RootDir, Normal ''repo'']
       else None)
     in \<lparr>h_cwd = Some ''/'', h_exists = (\<lambda>p. real p \<noteq> None), h_canonicalize = real,
         h_read = (\<lambda>_. Err ''not found''), h_trusted = (\<lambda>_. Err ''not parsed''), h_escape = id\<rparr>)"

theorem ensure_outside_repo_exact_witness:
  "ensure_outside_repo sample_host ''/link/a/b'' ''/repo'' ''--state-dir'' \<noteq> Ok ()"
proof -
  have c: "components ''/repo'' = [RootDir, Normal ''repo'']"
    "components ''/link/a/b'' = [RootDir, Normal ''link''] @ map Normal [''a'', ''b'']" by code_simp+
  have "\<not> ensure_outside_repo sample_host ''/link/a/b'' ''/repo'' ''--state-dir'' = Ok ()"
    by (subst ensure_outside_repo_exact [where a = "[RootDir, Normal ''link'']" and ns = "[''a'', ''b'']"
          and c = "[RootDir, Normal ''repo'']" and root_c = "[RootDir, Normal ''repo'']"])
      (auto simp: host_ok_def sample_host_def Let_def absolute_or_self_def is_absolute_def c)
  then show ?thesis .
qed

text \<open>
  The walk to the longest existing prefix stops at a \<open>..\<close> whose path does not exist, so a path
  through a directory that is still to be created is accepted although it resolves into the
  repository.
\<close>

theorem dotdot_through_new_directory_accepted:
  "ensure_outside_repo sample_host ''/new/../repo/state'' ''/repo'' ''--state-dir'' = Ok ()"
  by code_simp

end
