(* ===== verification/Glob.thy ===== *)
theory Glob
  imports Paths
begin

text \<open>
  \<open>jitgen-adapters/src/glob.rs\<close>: the matcher of include and exclude patterns. Both loops of the
  source are the two-pointer algorithm with one backtrack point, over the segments of a path and
  over the characters of a segment. The locale \<open>wildcard\<close> holds the declarative meaning of a
  pattern and the proof that the algorithm computes it, once for both levels.
\<close>

section \<open>The code\<close>

definition MAX_GLOB_LEN :: nat where "MAX_GLOB_LEN = 512"
definition MAX_PATH_LEN :: nat where "MAX_PATH_LEN = 4096"

text \<open>
  The state of a loop is \<open>pj\<close> (\<open>pi\<close> in the source), \<open>si\<close>, the index \<open>star\<close> of the last wildcard and \<open>mark\<close>, the
  position to backtrack to. A loop ends because the wildcard's index, the mark and the pattern
  index go up in this order of precedence, once the state is one the loop can produce.
\<close>

definition scan_ok :: "nat \<Rightarrow> nat \<Rightarrow> nat option \<Rightarrow> nat \<Rightarrow> bool" where
  "scan_ok pj si star mark \<longleftrightarrow> (case star of None \<Rightarrow> True | Some sp \<Rightarrow> sp < pj \<and> mark \<le> si)"

definition scan_order ::
  "(('p list \<times> 's list \<times> nat \<times> nat \<times> nat option \<times> nat) \<times> ('p list \<times> 's list \<times> nat \<times> nat \<times> nat option \<times> nat)) set" where
  "scan_order = measures
     [\<lambda>(p, s, pj, si, star, mark). if scan_ok pj si star mark then 0 else 1,
      \<lambda>(p, s, pj, si, star, mark). (case star of None \<Rightarrow> Suc (length p) | Some sp \<Rightarrow> length p - sp),
      \<lambda>(p, s, pj, si, star, mark). length s - mark,
      \<lambda>(p, s, pj, si, star, mark). length p - pj]"

lemma wf_scan_order [simp]: "wf scan_order"
  by (simp add: scan_order_def)

lemma scan_order_wild:
  "pj < length p \<Longrightarrow> ((p, s, Suc pj, si, Some pj, si), (p, s, pj, si, star, mark)) \<in> scan_order"
  by (auto simp: scan_order_def scan_ok_def split: option.splits)

lemma scan_order_match:
  "pj < length p \<Longrightarrow> ((p, s, Suc pj, Suc si, star, mark), (p, s, pj, si, star, mark)) \<in> scan_order"
  by (auto simp: scan_order_def scan_ok_def split: option.splits)

lemma scan_order_back:
  "si < length s \<Longrightarrow>
     ((p, s, Suc sp, Suc mark, Some sp, Suc mark), (p, s, pj, si, Some sp, mark)) \<in> scan_order"
  by (auto simp: scan_order_def scan_ok_def)

lemmas scan_orders = scan_order_wild scan_order_match scan_order_back

function segment_loop ::
  "str list \<Rightarrow> str list \<Rightarrow> nat \<Rightarrow> nat \<Rightarrow> nat option \<Rightarrow> nat \<Rightarrow> bool" where
  "segment_loop p s pj si star mark =
     (if si < length s then
        if pj < length p \<and> (p ! pj = ''?'' \<or> p ! pj = s ! si) then
          segment_loop p s (Suc pj) (Suc si) star mark
        else if pj < length p \<and> p ! pj = ''*'' then
          segment_loop p s (Suc pj) si (Some pj) si
        else (case star of
                Some sp \<Rightarrow> segment_loop p s (Suc sp) (Suc mark) star (Suc mark)
              | None \<Rightarrow> False)
      else list_all (\<lambda>c. c = ''*'') (drop pj p))"
  by pat_completeness auto
termination by (relation scan_order) (auto intro: scan_orders)

declare segment_loop.simps [simp del]

definition segment_match :: "str \<Rightarrow> str \<Rightarrow> bool" where
  "segment_match pat seg = segment_loop (chars pat) (chars seg) 0 0 None 0"

function segments_loop ::
  "str list \<Rightarrow> str list \<Rightarrow> nat \<Rightarrow> nat \<Rightarrow> nat option \<Rightarrow> nat \<Rightarrow> bool" where
  "segments_loop pat path pj si star mark =
     (if si < length path then
        if pj < length pat \<and> pat ! pj = ''**'' then
          segments_loop pat path (Suc pj) si (Some pj) si
        else if pj < length pat \<and> pat ! pj \<noteq> ''**'' \<and> segment_match (pat ! pj) (path ! si) then
          segments_loop pat path (Suc pj) (Suc si) star mark
        else (case star of
                Some sp \<Rightarrow> segments_loop pat path (Suc sp) (Suc mark) star (Suc mark)
              | None \<Rightarrow> False)
      else list_all (\<lambda>c. c = ''**'') (drop pj pat))"
  by pat_completeness auto
termination by (relation scan_order) (auto intro: scan_orders)

declare segments_loop.simps [simp del]

definition match_segments :: "str list \<Rightarrow> str list \<Rightarrow> bool" where
  "match_segments pat path = segments_loop pat path 0 0 None 0"

definition glob_match :: "str \<Rightarrow> str \<Rightarrow> bool" where
  "glob_match pattern path =
     (if length pattern > MAX_GLOB_LEN \<or> length path > MAX_PATH_LEN then False
      else match_segments (split_on (CHR ''/'') pattern) (split_on (CHR ''/'') path))"

section \<open>Patterns with a wildcard for any run\<close>

text \<open>
  A pattern is a list of items; an item that is a wildcard stands for any run of symbols, another
  item for one symbol that it accepts. The declarative meaning, by recursion on the symbols.
\<close>

fun wild :: "('p \<Rightarrow> bool) \<Rightarrow> ('p \<Rightarrow> 's \<Rightarrow> bool) \<Rightarrow> 'p list \<Rightarrow> 's list \<Rightarrow> bool" where
  "wild any acc [] s = (s = [])"
| "wild any acc (a # p) [] = (any a \<and> wild any acc p [])"
| "wild any acc (a # p) (x # s) =
     (if any a then wild any acc p (x # s) \<or> wild any acc (a # p) s
      else acc a x \<and> wild any acc p s)"

text \<open>The interface: a loop with the algorithm's equation, for a class of wildcards.\<close>

locale wildcard =
  fixes any :: "'p \<Rightarrow> bool"
    and acc :: "'p \<Rightarrow> 's \<Rightarrow> bool"
    and dom_ok :: "'s \<Rightarrow> bool"
    and loop :: "'p list \<Rightarrow> 's list \<Rightarrow> nat \<Rightarrow> nat \<Rightarrow> nat option \<Rightarrow> nat \<Rightarrow> bool"
  assumes loop_end: "\<not> si < length s \<Longrightarrow> loop p s pj si star mark = list_all any (drop pj p)"
    and loop_wild: "\<lbrakk>si < length s; list_all dom_ok s; pj < length p; any (p ! pj)\<rbrakk> \<Longrightarrow>
        loop p s pj si star mark = loop p s (Suc pj) si (Some pj) si"
    and loop_match: "\<lbrakk>si < length s; list_all dom_ok s; pj < length p; \<not> any (p ! pj); acc (p ! pj) (s ! si)\<rbrakk> \<Longrightarrow>
        loop p s pj si star mark = loop p s (Suc pj) (Suc si) star mark"
    and loop_back: "\<lbrakk>si < length s; list_all dom_ok s; pj < length p \<longrightarrow> \<not> any (p ! pj) \<and> \<not> acc (p ! pj) (s ! si)\<rbrakk> \<Longrightarrow>
        loop p s pj si star mark =
          (case star of Some sp \<Rightarrow> loop p s (Suc sp) (Suc mark) star (Suc mark) | None \<Rightarrow> False)"
begin

abbreviation matches :: "'p list \<Rightarrow> 's list \<Rightarrow> bool" where
  "matches \<equiv> wild any acc"

text \<open>A block of items without wildcard accepts a run of its own length, item by item.\<close>

definition block :: "'p list \<Rightarrow> 's list \<Rightarrow> bool" where
  "block b s \<longleftrightarrow> list_all2 (\<lambda>a x. \<not> any a \<and> acc a x) b s"

lemma matches_Nil: "matches p [] = list_all any p"
  by (induction p) auto

lemma matches_wild_any: "any a \<Longrightarrow> matches p (drop k s) \<Longrightarrow> matches (a # p) s"
proof (induction s arbitrary: k)
  case (Cons x s)
  then show ?case by (cases k) auto
qed simp

lemma matches_any_iff: "any a \<Longrightarrow> matches (a # p) s \<longleftrightarrow> (\<exists>k \<le> length s. matches p (drop k s))"
proof (induction s)
  case (Cons x s)
  have "(\<exists>k \<le> length (x # s). matches p (drop k (x # s)))
      \<longleftrightarrow> matches p (x # s) \<or> (\<exists>k \<le> length s. matches p (drop k s))"
    by (metis Suc_le_mono drop0 drop_Suc_Cons le0 length_Cons not0_implies_Suc)
  with Cons show ?case by simp
qed simp

lemma matches_block:
  "list_all (\<lambda>a. \<not> any a) b \<Longrightarrow>
   matches (b @ p) s \<longleftrightarrow> length b \<le> length s \<and> block b (take (length b) s) \<and> matches p (drop (length b) s)"
proof (induction b arbitrary: s)
  case (Cons a b)
  then show ?case by (cases s) (auto simp: block_def)
qed (simp add: block_def)

lemma matches_wild_drop: "any a \<Longrightarrow> matches (a # p) (drop k s) \<Longrightarrow> j \<le> k \<Longrightarrow> matches (a # p) (drop j s)"
  by (metis (no_types, lifting) drop_drop le_add_diff_inverse2 matches_any_iff matches_wild_any)

text \<open>
  The loop's invariant: since the last wildcard the items form a block that accepts the symbols
  read since the mark.
\<close>

definition inv :: "'p list \<Rightarrow> 's list \<Rightarrow> nat \<Rightarrow> nat \<Rightarrow> nat option \<Rightarrow> nat \<Rightarrow> bool" where
  "inv p s pj si star mark \<longleftrightarrow> pj \<le> length p \<and> si \<le> length s \<and>
     (\<forall>sp. star = Some sp \<longrightarrow> sp < pj \<and> mark \<le> si \<and> si - mark = pj - Suc sp \<and> any (p ! sp)
        \<and> block (take (pj - Suc sp) (drop (Suc sp) p)) (take (si - mark) (drop mark s)))"

definition later :: "'p list \<Rightarrow> 's list \<Rightarrow> nat option \<Rightarrow> nat \<Rightarrow> bool" where
  "later p s star mark \<longleftrightarrow> (\<exists>sp. star = Some sp \<and> matches (drop sp p) (drop (Suc mark) s))"

lemma later_tail:
  assumes "inv p s pj si (Some sp) mark" "matches (drop sp p) (drop (Suc mark) s)" "mark < length s"
  obtains k where "si < k" "k \<le> length s" "matches (drop pj p) (drop k s)"
proof -
  define b where "b = take (pj - Suc sp) (drop (Suc sp) p)"
  from assms(1) have facts: "sp < pj" "pj \<le> length p" "mark \<le> si" "si - mark = pj - Suc sp" "any (p ! sp)"
    "list_all (\<lambda>a. \<not> any a) b" "length b = pj - Suc sp"
    by (auto simp: inv_def b_def block_def list_all2_conv_all_nth list_all_length)
  have "drop (Suc sp) p = b @ drop pj p"
    using facts(1) unfolding b_def
    by (metis Suc_leI append_take_drop_id drop_drop le_add_diff_inverse2)
  then have "drop sp p = p ! sp # b @ drop pj p"
    using facts(1,2) by (metis Cons_nth_drop_Suc order_less_le_trans)
  with assms(2) facts(5) obtain j where j: "j \<le> length s - Suc mark"
      "matches (b @ drop pj p) (drop (j + Suc mark) s)"
    by (auto simp: matches_any_iff)
  then have le: "length b \<le> length (drop (j + Suc mark) s)"
    and m: "matches (drop pj p) (drop (length b + (j + Suc mark)) s)"
    using facts(6) by (auto simp: matches_block)
  have "length b + (j + Suc mark) \<le> length s" using j(1) assms(3) le by simp
  moreover have "si < length b + (j + Suc mark)" using facts by simp
  ultimately show ?thesis using m that by blast
qed

lemma inv_step:
  assumes "inv p s pj si star mark" "pj < length p" "\<not> any (p ! pj)" "acc (p ! pj) (s ! si)" "si < length s"
  shows "inv p s (Suc pj) (Suc si) star mark"
proof -
  have "block (take (Suc pj - Suc sp) (drop (Suc sp) p)) (take (Suc si - mark) (drop mark s))"
    if sp: "star = Some sp" for sp
  proof -
    from assms(1) sp have facts: "sp < pj" "mark \<le> si" "si - mark = pj - Suc sp"
      "block (take (pj - Suc sp) (drop (Suc sp) p)) (take (si - mark) (drop mark s))"
      by (auto simp: inv_def)
    have "take (Suc pj - Suc sp) (drop (Suc sp) p) = take (pj - Suc sp) (drop (Suc sp) p) @ [p ! pj]"
      using facts(1) assms(2) take_Suc_conv_app_nth [of "pj - Suc sp" "drop (Suc sp) p"]
      by (simp add: Suc_diff_Suc)
    moreover have "take (Suc si - mark) (drop mark s) = take (si - mark) (drop mark s) @ [s ! si]"
      using facts(2) assms(5) by (simp add: Suc_diff_le take_Suc_conv_app_nth)
    ultimately show ?thesis
      using facts(4) assms by (simp add: block_def list_all2_appendI)
  qed
  with assms show ?thesis by (auto simp: inv_def)
qed

lemma matches_step:
  assumes "sp < length p" "any (p ! sp)" "mark < length s"
  shows "matches (drop (Suc sp) p) (drop (Suc mark) s) \<or> later p s (Some sp) (Suc mark)
    \<longleftrightarrow> matches (drop sp p) (drop (Suc mark) s)"
proof -
  have p_eq: "drop sp p = p ! sp # drop (Suc sp) p" using assms(1) by (simp add: Cons_nth_drop_Suc)
  show ?thesis
  proof (cases "Suc mark < length s")
    case True
    then have "drop (Suc mark) s = s ! Suc mark # drop (Suc (Suc mark)) s" by (simp add: Cons_nth_drop_Suc)
    with assms(2) p_eq show ?thesis by (simp add: later_def)
  next
    case False
    with assms(2) p_eq show ?thesis by (simp add: later_def)
  qed
qed

lemma loop_correct:
  assumes "inv p s pj si star mark" "list_all dom_ok s"
  shows "loop p s pj si star mark \<longleftrightarrow> matches (drop pj p) (drop si s) \<or> later p s star mark"
  using assms
proof (induction "(p, s, pj, si, star, mark)" arbitrary: pj si star mark rule: wf_induct_rule [OF wf_scan_order])
  case 1
  note IH = 1(1) and I = 1(2) and D = 1(3)
  show ?case
  proof (cases "si < length s")
    case False
    then have si: "si = length s" using I by (simp add: inv_def)
    have "matches (drop pj p) []" if "later p s star mark"
    proof -
      from that obtain sp where sp: "star = Some sp" "matches (drop sp p) (drop (Suc mark) s)"
        by (auto simp: later_def)
      show ?thesis
      proof (cases "mark < length s")
        case True
        with later_tail [of p s pj si sp mark] I sp si show ?thesis by fastforce
      next
        case False
        with I sp si have "pj = Suc sp" "sp < length p" "matches (drop sp p) []"
          by (auto simp: inv_def)
        then show ?thesis by (metis Cons_nth_drop_Suc wild.simps(2))
      qed
    qed
    with False si show ?thesis by (auto simp: loop_end matches_Nil)
  next
    case True
    then have s_eq: "drop si s = s ! si # drop (Suc si) s" by (simp add: Cons_nth_drop_Suc)
    consider (wild) "pj < length p" "any (p ! pj)"
      | (sym) "pj < length p" "\<not> any (p ! pj)" "acc (p ! pj) (s ! si)"
      | (bt) "pj < length p \<longrightarrow> \<not> any (p ! pj) \<and> \<not> acc (p ! pj) (s ! si)"
      by blast
    then show ?thesis
    proof cases
      case wild
      then have p_eq: "drop pj p = p ! pj # drop (Suc pj) p" by (simp add: Cons_nth_drop_Suc)
      have "inv p s (Suc pj) si (Some pj) si" using wild True by (auto simp: inv_def block_def)
      from IH [OF scan_order_wild [OF wild(1)] this D]
      have "loop p s pj si star mark \<longleftrightarrow> matches (drop pj p) (drop si s)"
        using wild True D by (simp add: loop_wild later_def p_eq s_eq)
      moreover have "matches (drop pj p) (drop si s)" if lt: "later p s star mark"
      proof -
        from lt obtain sp where sp: "star = Some sp" "matches (drop sp p) (drop (Suc mark) s)"
          by (auto simp: later_def)
        with I True have "mark < length s" by (auto simp: inv_def)
        with later_tail [of p s pj si sp mark] I sp obtain k where
          "si < k" "matches (drop pj p) (drop k s)" by metis
        with wild show ?thesis by (simp add: p_eq matches_wild_drop)
      qed
      ultimately show ?thesis by blast
    next
      case sym
      then have p_eq: "drop pj p = p ! pj # drop (Suc pj) p" by (simp add: Cons_nth_drop_Suc)
      have "inv p s (Suc pj) (Suc si) star mark" using I sym True by (rule inv_step)
      from IH [OF scan_order_match [OF sym(1)] this D] sym True D show ?thesis
        by (simp add: loop_match p_eq s_eq)
    next
      case bt
      then have no: "\<not> matches (drop pj p) (drop si s)"
        by (cases "pj < length p") (simp_all add: s_eq flip: Cons_nth_drop_Suc)
      show ?thesis
      proof (cases star)
        case None
        with bt True D no show ?thesis by (simp add: loop_back later_def)
      next
        case (Some sp)
        with I True have sp: "sp < length p" "any (p ! sp)" "mark < length s" by (auto simp: inv_def)
        then have "inv p s (Suc sp) (Suc mark) (Some sp) (Suc mark)" by (auto simp: inv_def block_def)
        note ih = IH [OF _ this D]
          from ih Some True have
          "loop p s (Suc sp) (Suc mark) (Some sp) (Suc mark)
             \<longleftrightarrow> matches (drop (Suc sp) p) (drop (Suc mark) s) \<or> later p s (Some sp) (Suc mark)"
          by (auto intro: scan_order_back)
        also have "\<dots> \<longleftrightarrow> matches (drop sp p) (drop (Suc mark) s)"
          using sp by (rule matches_step)
        finally show ?thesis using bt True D no Some by (simp add: loop_back later_def)
      qed
    qed
  qed
qed

theorem loop_matches: "list_all dom_ok s \<Longrightarrow> loop p s 0 0 None 0 \<longleftrightarrow> matches p s"
  by (simp add: loop_correct inv_def later_def)

end

section \<open>The two levels\<close>

interpretation seg: wildcard "\<lambda>c. c = ''*''" "\<lambda>c d. c = ''?'' \<or> c = d" "\<lambda>d. d \<noteq> ''*''" segment_loop
proof
  fix p s :: "str list" and pj si mark :: nat and star
  show "\<not> si < length s \<Longrightarrow> segment_loop p s pj si star mark = list_all (\<lambda>c. c = ''*'') (drop pj p)"
    by (subst segment_loop.simps) simp
  assume s: "si < length s" "list_all (\<lambda>d. d \<noteq> ''*'') s"
  then have d: "s ! si \<noteq> ''*''" by (auto simp: list_all_length)
  show "pj < length p \<Longrightarrow> p ! pj = ''*'' \<Longrightarrow>
      segment_loop p s pj si star mark = segment_loop p s (Suc pj) si (Some pj) si"
    by (subst segment_loop.simps) (use s d in simp)
  show "pj < length p \<Longrightarrow> p ! pj = ''?'' \<or> p ! pj = s ! si \<Longrightarrow>
      segment_loop p s pj si star mark = segment_loop p s (Suc pj) (Suc si) star mark"
    by (subst segment_loop.simps) (use s in simp)
  show "pj < length p \<longrightarrow> p ! pj \<noteq> ''*'' \<and> \<not> (p ! pj = ''?'' \<or> p ! pj = s ! si) \<Longrightarrow>
      segment_loop p s pj si star mark =
        (case star of Some sp \<Rightarrow> segment_loop p s (Suc sp) (Suc mark) star (Suc mark) | None \<Rightarrow> False)"
    by (subst segment_loop.simps) (use s in \<open>auto split: option.splits\<close>)
qed

interpretation segs: wildcard "\<lambda>a. a = ''**''" segment_match "\<lambda>_. True" segments_loop
proof
  fix p s :: "str list" and pj si mark :: nat and star
  show "\<not> si < length s \<Longrightarrow> segments_loop p s pj si star mark = list_all (\<lambda>a. a = ''**'') (drop pj p)"
    by (subst segments_loop.simps) simp
  assume s: "si < length s"
  show "pj < length p \<Longrightarrow> p ! pj = ''**'' \<Longrightarrow>
      segments_loop p s pj si star mark = segments_loop p s (Suc pj) si (Some pj) si"
    by (subst segments_loop.simps) (use s in simp)
  show "pj < length p \<Longrightarrow> p ! pj \<noteq> ''**'' \<Longrightarrow> segment_match (p ! pj) (s ! si) \<Longrightarrow>
      segments_loop p s pj si star mark = segments_loop p s (Suc pj) (Suc si) star mark"
    by (subst segments_loop.simps) (use s in simp)
  show "pj < length p \<longrightarrow> p ! pj \<noteq> ''**'' \<and> \<not> segment_match (p ! pj) (s ! si) \<Longrightarrow>
      segments_loop p s pj si star mark =
        (case star of Some sp \<Rightarrow> segments_loop p s (Suc sp) (Suc mark) star (Suc mark) | None \<Rightarrow> False)"
    by (subst segments_loop.simps) (use s in \<open>auto split: option.splits\<close>)
qed

text \<open>The meaning of a pattern: \<open>**\<close> over segments, \<open>*\<close> and \<open>?\<close> over characters.\<close>

definition segment_spec :: "str \<Rightarrow> str \<Rightarrow> bool" where
  "segment_spec a x = wild (\<lambda>c. c = ''*'') (\<lambda>c d. c = ''?'' \<or> c = d) (chars a) (chars x)"

definition glob_spec :: "str \<Rightarrow> str \<Rightarrow> bool" where
  "glob_spec pattern path =
     wild (\<lambda>a. a = ''**'') segment_spec (split_on (CHR ''/'') pattern) (split_on (CHR ''/'') path)"

lemma wild_cong:
  "(\<And>a x. a \<in> set p \<Longrightarrow> x \<in> set s \<Longrightarrow> acc a x = acc' a x) \<Longrightarrow> wild any acc p s = wild any acc' p s"
  by (induction any acc p s rule: wild.induct) auto

lemma segment_match_spec: "CHR ''*'' \<notin> set x \<Longrightarrow> segment_match a x = segment_spec a x"
proof -
  assume x: "CHR ''*'' \<notin> set x"
  have "set k \<subseteq> set x" if "k \<in> set (chars x)" for k
    using that concat_chars [of x] by (metis UN_upper set_concat)
  with x have "list_all (\<lambda>d. d \<noteq> ''*'') (chars x)"
    by (fastforce simp: list_all_iff)
  then show ?thesis
    by (simp add: segment_match_def segment_spec_def seg.loop_matches)
qed

lemma match_segments_spec: "match_segments pat path = wild (\<lambda>a. a = ''**'') segment_match pat path"
  by (simp add: match_segments_def segs.loop_matches list_all_iff)

text \<open>
  C40: The matcher is correct. On a path without \<open>*\<close>, \<open>glob_match\<close> decides the declarative
  meaning of the pattern (\<open>**\<close> any run of segments, \<open>*\<close> any run of characters of one segment,
  \<open>?\<close> one character) within the two length bounds, so the single backtrack point of each
  loop loses no match, and beyond the bounds it rejects.
\<close>

theorem glob_match_correct:
  assumes "CHR ''*'' \<notin> set path"
  shows "glob_match pattern path \<longleftrightarrow>
    length pattern \<le> 512 \<and> length path \<le> 4096 \<and> glob_spec pattern path"
proof -
  have "segment_match a x = segment_spec a x" if "x \<in> set (split_on (CHR ''/'') path)" for a x
    using segment_match_spec split_on_subset [OF that] assms by blast
  then have "match_segments (split_on (CHR ''/'') pattern) (split_on (CHR ''/'') path) = glob_spec pattern path"
    unfolding match_segments_spec glob_spec_def by (intro wild_cong)
  then show ?thesis
    by (auto simp: glob_match_def MAX_GLOB_LEN_def MAX_PATH_LEN_def)
qed

theorem glob_match_correct_witness:
  "glob_match ''**/*.go'' ''a/b.go'' \<longleftrightarrow>
    length ''**/*.go'' \<le> 512 \<and> length ''a/b.go'' \<le> 4096 \<and> glob_spec ''**/*.go'' ''a/b.go''"
  by (rule glob_match_correct) simp

text \<open>
  The character loop compares before it looks for a wildcard, so a \<open>*\<close> of the pattern that
  meets a \<open>*\<close> of the path is taken literally: the pattern \<open>*\<close>, which stands for every
  segment, rejects each longer segment that starts with \<open>*\<close>.
\<close>

theorem star_rejects_starred_segment:
  assumes "x \<noteq> []" "\<not> is_cont (hd x)" "CHR ''/'' \<notin> set x" "length x < 4096"
  shows "\<not> glob_match ''*'' (CHR ''*'' # x) \<and> glob_spec ''*'' (CHR ''*'' # x)"
proof -
  have ch: "chars (CHR ''*'' # x) = ''*'' # chars x"
    using assms(1,2) by (cases x) auto
  have "segment_loop [''*''] (''*'' # chars x) 0 0 None 0 = False"
    using assms(1) by (simp add: segment_loop.simps)
  then have "\<not> segment_match ''*'' (CHR ''*'' # x)"
    by (simp add: segment_match_def ch)
  moreover have sp: "split_on (CHR ''/'') (CHR ''*'' # x) = [CHR ''*'' # x]"
    using assms(3) by (intro split_on_no_sep) simp
  ultimately have "\<not> glob_match ''*'' (CHR ''*'' # x)"
    using assms(4) by (simp add: glob_match_def match_segments_spec)
  moreover have "wild (\<lambda>c. c = ''*'') (\<lambda>c d. c = ''?'' \<or> c = d) [''*''] s" for s
    by (induction s) auto
  ultimately show ?thesis
    unfolding glob_spec_def sp by (simp add: segment_spec_def)
qed

theorem star_rejects_starred_segment_witness:
  "\<not> glob_match ''*'' (CHR ''*'' # ''a.rs'') \<and> glob_spec ''*'' (CHR ''*'' # ''a.rs'')"
  by (rule star_rejects_starred_segment) (simp_all add: is_cont_def)

end
