(* ===== verification/Adapters.thy ===== *)
theory Adapters
  imports Floats Config Glob
begin

text \<open>
  The crate \<open>jitgen-adapters\<close> (the glob matcher apart): languages (\<open>lang.rs\<close>), the repository
  snapshot (\<open>snapshot.rs\<close>), the adapter interface (\<open>spi.rs\<close>), symbol extraction (\<open>symbols.rs\<close>),
  the built-in and generic adapters (\<open>builtin.rs\<close>) and the registry (\<open>discovery.rs\<close>). A trait
  object is a record of its methods. Tree-sitter is a parameter: a parser that yields a syntax
  tree or gives up, and the accessors of the tree's nodes.
\<close>

section \<open>Languages\<close>

datatype lang = Rust | Python | Java | TypeScript | Tsx

text \<open>The part after the last dot, or the whole path.\<close>

definition path_ext :: "str \<Rightarrow> str" where
  "path_ext p = last (split_on (CHR ''.'') p)"

definition from_path :: "str \<Rightarrow> lang option" where
  "from_path p =
     (let ext = to_ascii_lowercase (path_ext p) in
      if ext = ''rs'' then Some Rust
      else if ext \<in> {''py'', ''pyi''} then Some Python
      else if ext = ''java'' then Some Java
      else if ext \<in> {''ts'', ''mts'', ''cts''} then Some TypeScript
      else if ext \<in> {''tsx'', ''jsx''} then Some Tsx
      else if ext \<in> {''js'', ''mjs'', ''cjs''} then Some TypeScript
      else None)"

fun symbol_kinds :: "lang \<Rightarrow> (str \<times> symbol_kind) list" where
  "symbol_kinds Rust = [(''function_item'', Function), (''struct_item'', Class), (''enum_item'', Class),
     (''trait_item'', Class), (''impl_item'', Class), (''mod_item'', Module)]"
| "symbol_kinds Python = [(''function_definition'', Function), (''class_definition'', Class)]"
| "symbol_kinds Java = [(''method_declaration'', Method), (''constructor_declaration'', Method),
     (''class_declaration'', Class), (''interface_declaration'', Class), (''enum_declaration'', Class)]"
| "symbol_kinds _ = [(''function_declaration'', Function), (''method_definition'', Method),
     (''class_declaration'', Class), (''abstract_class_declaration'', Class),
     (''interface_declaration'', Class), (''arrow_function'', Function),
     (''function_expression'', Function), (''generator_function'', Function)]"

section \<open>The snapshot\<close>

record repo_snapshot =
  sn_paths :: "str set"
  sn_files :: "str \<rightharpoonup> str"

definition snapshot_new :: "str list \<Rightarrow> (str \<times> str) list \<Rightarrow> repo_snapshot" where
  "snapshot_new paths files = \<lparr>sn_paths = set paths \<union> fst ` set files, sn_files = map_of (rev files)\<rparr>"

definition sn_has :: "repo_snapshot \<Rightarrow> str \<Rightarrow> bool" where
  "sn_has r p \<longleftrightarrow> p \<in> sn_paths r"

definition sn_has_ext :: "repo_snapshot \<Rightarrow> str \<Rightarrow> bool" where
  "sn_has_ext r ext \<longleftrightarrow> (\<exists>p \<in> sn_paths r. ends_with p (''.'' @ ext))"

definition sn_read_text :: "repo_snapshot \<Rightarrow> str \<Rightarrow> str option" where
  "sn_read_text r p = (case sn_files r p of None \<Rightarrow> None | Some b \<Rightarrow> if utf8 b then Some b else None)"

section \<open>The adapter interface\<close>

record detection_result =
  dt_detected :: bool
  dt_evidence :: "str list"

definition detection_no :: detection_result where
  "detection_no = \<lparr>dt_detected = False, dt_evidence = []\<rparr>"

definition detection_yes :: "str list \<Rightarrow> detection_result" where
  "detection_yes ev = \<lparr>dt_detected = True, dt_evidence = ev\<rparr>"

record adapter_context =
  ac_repo :: repo_snapshot
  ac_config :: resolved_config
  ac_mode :: run_mode
  ac_base :: revision_id
  ac_head :: revision_id

record test_command =
  tm_program :: str
  tm_args :: "str list"
  tm_cwd_rel :: str
  tm_shell :: bool

definition command_argv :: "str \<Rightarrow> str list \<Rightarrow> test_command" where
  "command_argv program args = \<lparr>tm_program = program, tm_args = args, tm_cwd_rel = [], tm_shell = False\<rparr>"

record language_adapter =
  la_id :: adapter_id
  la_detect :: "repo_snapshot \<Rightarrow> detection_result"
  la_analyze_changes :: "adapter_context \<Rightarrow> change_set \<Rightarrow> target list"
  la_test_command :: "adapter_context \<Rightarrow> target \<Rightarrow> test_command option"

section \<open>Symbols\<close>

definition MAX_SOURCE_BYTES :: nat where "MAX_SOURCE_BYTES = 2 * 1024 * 1024"
definition MAX_HUNKS :: nat where "MAX_HUNKS = 1000"
definition MAX_DESCENT :: nat where "MAX_DESCENT = 10000"

text \<open>A syntax tree as \<open>tree_sitter\<close> shows it: the root and the accessors of a node.\<close>

record 'n syntax_tree =
  sx_root :: 'n
  sx_kind :: "'n \<Rightarrow> str"
  sx_start_row :: "'n \<Rightarrow> nat"
  sx_end_row :: "'n \<Rightarrow> nat"
  sx_start_byte :: "'n \<Rightarrow> nat"
  sx_end_byte :: "'n \<Rightarrow> nat"
  sx_children :: "'n \<Rightarrow> 'n list"
  sx_field :: "'n \<Rightarrow> str \<Rightarrow> 'n option"
  sx_parent :: "'n \<Rightarrow> 'n option"
  sx_text :: "'n \<Rightarrow> str option"

type_synonym 'n ts_parser = "lang \<Rightarrow> str \<Rightarrow> 'n syntax_tree option"

definition next_id :: "u32 \<Rightarrow> target_id \<times> u32" where
  "next_id sq = (''t'' @ show_nat (unat sq), sq + 1)"

definition row_in :: "'n syntax_tree \<Rightarrow> nat \<Rightarrow> 'n \<Rightarrow> bool" where
  "row_in tr row n \<longleftrightarrow> sx_start_row tr n \<le> row \<and> row \<le> sx_end_row tr n"

text \<open>One visited node may improve on the best so far; \<open>find\<close> takes the first entry of its kind.\<close>

definition better ::
  "'n syntax_tree \<Rightarrow> (str \<times> symbol_kind) list \<Rightarrow> 'n \<Rightarrow> ('n \<times> symbol_kind \<times> nat) option
    \<Rightarrow> ('n \<times> symbol_kind \<times> nat) option" where
  "better tr kinds node best =
     (case find (\<lambda>(k, _). k = sx_kind tr node) kinds of
        None \<Rightarrow> best
      | Some (_, sk) \<Rightarrow>
          let len = sx_end_byte tr node - sx_start_byte tr node in
          (case best of
             None \<Rightarrow> Some (node, sk, len)
           | Some (_, _, best_len) \<Rightarrow> if len < best_len then Some (node, sk, len) else best))"

text \<open>The loop over the stack (its top is the head of the list). The counter is decremented before
  the test for zero, so at most \<open>MAX_DESCENT - 1\<close> nodes are looked at.\<close>

fun descend ::
  "'n syntax_tree \<Rightarrow> nat \<Rightarrow> (str \<times> symbol_kind) list \<Rightarrow> nat \<Rightarrow> 'n list
    \<Rightarrow> ('n \<times> symbol_kind \<times> nat) option \<Rightarrow> ('n \<times> symbol_kind \<times> nat) option" where
  "descend tr row kinds 0 stack best = best"
| "descend tr row kinds (Suc budget) [] best = best"
| "descend tr row kinds (Suc budget) (node # stack) best =
     (if budget = 0 then best
      else descend tr row kinds budget (rev (filter (row_in tr row) (sx_children tr node)) @ stack)
             (better tr kinds node best))"

definition enclosing :: "'n syntax_tree \<Rightarrow> nat \<Rightarrow> (str \<times> symbol_kind) list \<Rightarrow> ('n \<times> symbol_kind) option" where
  "enclosing tr row kinds =
     (if \<not> row_in tr row (sx_root tr) then None
      else map_option (\<lambda>(n, k, _). (n, k)) (descend tr row kinds MAX_DESCENT [sx_root tr] None))"

definition node_name :: "'n syntax_tree \<Rightarrow> 'n \<Rightarrow> str option" where
  "node_name tr node =
     (case sx_field tr node ''name'' of
        Some name \<Rightarrow> sx_text tr name
      | None \<Rightarrow>
          (case sx_parent tr node of
             None \<Rightarrow> None
           | Some parent \<Rightarrow>
               let by = (\<lambda>field. Option.bind (sx_field tr parent field) (sx_text tr)); k = sx_kind tr parent in
               if k = ''variable_declarator'' then by ''name''
               else if k \<in> {''pair'', ''public_field_definition'', ''field_definition''} then by ''key''
               else if k = ''assignment_expression'' then by ''left''
               else None))"

definition changed_lines :: "line_range \<Rightarrow> line_range list \<Rightarrow> u32" where
  "changed_lines extent hunks =
     fold (\<lambda>h changed. let lo = max (lr_start h) (lr_start extent); hi = min (lr_end h) (lr_end extent) in
            if lo \<le> hi then changed + (hi - lo + 1) else changed) hunks 0"

text \<open>The error of the score is dropped, and with it how it shows the value.\<close>

definition symbol_risk :: "rounding \<Rightarrow> line_range \<Rightarrow> line_range list \<Rightarrow> risk_score" where
  "symbol_risk rnd extent hunks =
     (let span_lines = of_nat (unat (lr_end extent - lr_start extent + 1));
          ratio = fclamp (fquot rnd (of_nat (unat (changed_lines extent hunks))) span_lines) f0_05 fone
      in case risk_score_new (\<lambda>_. []) ratio of Ok r \<Rightarrow> r | Err _ \<Rightarrow> f0_5)"

fun fallback_hunks :: "str \<Rightarrow> adapter_id \<Rightarrow> line_range list \<Rightarrow> u32 \<Rightarrow> target list \<times> u32" where
  "fallback_hunks path adapter [] sq = ([], sq)"
| "fallback_hunks path adapter (h # hs) sq =
     (let (i, sq) = next_id sq; (ts, sq) = fallback_hunks path adapter hs sq in
      (\<lparr>tg_id = i, tg_adapter = adapter, tg_path = path, tg_symbol = None, tg_kind = Hunk, tg_span = h,
        tg_risk = f0_5\<rparr> # ts, sq))"

text \<open>The loop over the hunks: the targets so far, the unmatched ranges and the counter.\<close>

fun grammar_hunks ::
  "rounding \<Rightarrow> 'n syntax_tree \<Rightarrow> (str \<times> symbol_kind) list \<Rightarrow> str \<Rightarrow> adapter_id \<Rightarrow> line_range list \<Rightarrow> line_range list
    \<Rightarrow> target list \<times> line_range list \<times> u32 \<Rightarrow> target list \<times> line_range list \<times> u32" where
  "grammar_hunks rnd tr kinds path adapter capped [] st = st"
| "grammar_hunks rnd tr kinds path adapter capped (h # hs) (targets, unmatched, sq) =
     grammar_hunks rnd tr kinds path adapter capped hs
       (case enclosing tr (unat (lr_start h) - 1) kinds of
          None \<Rightarrow> (targets, unmatched @ [h], sq)
        | Some (node, kind) \<Rightarrow>
            (case line_range_new (of_nat (sx_start_row tr node + 1)) (of_nat (sx_end_row tr node + 1)) of
               Err _ \<Rightarrow> (targets, unmatched @ [h], sq)
             | Ok extent \<Rightarrow>
                 if list_ex (\<lambda>t. tg_path t = path \<and> tg_span t = extent) targets then (targets, unmatched, sq)
                 else let (i, sq) = next_id sq in
                   (targets @ [\<lparr>tg_id = i, tg_adapter = adapter, tg_path = path, tg_symbol = node_name tr node,
                      tg_kind = kind, tg_span = extent, tg_risk = symbol_risk rnd extent capped\<rparr>], unmatched, sq)))"

definition extract_with_grammar ::
  "rounding \<Rightarrow> 'n ts_parser \<Rightarrow> lang \<Rightarrow> str \<Rightarrow> str \<Rightarrow> adapter_id \<Rightarrow> line_range list \<Rightarrow> u32
    \<Rightarrow> (target list \<times> u32) option" where
  "extract_with_grammar rnd parse lang source path adapter hunks sq =
     (if MAX_SOURCE_BYTES < length source then None
      else (case parse lang source of
              None \<Rightarrow> None
            | Some tr \<Rightarrow>
                let capped = take MAX_HUNKS hunks;
                    (targets, unmatched, sq) =
                      grammar_hunks rnd tr (symbol_kinds lang) path adapter capped capped ([], [], sq);
                    unmatched = unmatched @ drop MAX_HUNKS hunks;
                    (rest, sq) = fallback_hunks path adapter unmatched sq
                in Some (targets @ rest, sq)))"

definition extract_targets ::
  "rounding \<Rightarrow> 'n ts_parser \<Rightarrow> lang option \<Rightarrow> str \<Rightarrow> str \<Rightarrow> adapter_id \<Rightarrow> line_range list \<Rightarrow> u32
    \<Rightarrow> target list \<times> u32" where
  "extract_targets rnd parse lang source path adapter hunks sq =
     (if hunks = [] then ([], sq)
      else (case Option.bind lang (\<lambda>l. extract_with_grammar rnd parse l source path adapter hunks sq) of
              Some r \<Rightarrow> r
            | None \<Rightarrow> fallback_hunks path adapter hunks sq))"

section \<open>The adapters\<close>

definition RESERVED_BUILTIN_IDS :: "str list" where
  "RESERVED_BUILTIN_IDS = [''rust'', ''python'', ''java'', ''typescript'']"

text \<open>The loop shared by all adapters: \<open>owns\<close> says whether the adapter takes a file and with which
  grammar.\<close>

fun analyze_files ::
  "rounding \<Rightarrow> 'n ts_parser \<Rightarrow> (str \<Rightarrow> lang option option) \<Rightarrow> adapter_id \<Rightarrow> adapter_context \<Rightarrow> file_change list \<Rightarrow> u32
    \<Rightarrow> target list" where
  "analyze_files rnd parse owns i ctx [] sq = []"
| "analyze_files rnd parse owns i ctx (fc # fcs) sq =
     (if fc_kind fc = Deleted then analyze_files rnd parse owns i ctx fcs sq
      else (case owns (fc_path fc) of
              None \<Rightarrow> analyze_files rnd parse owns i ctx fcs sq
            | Some lang \<Rightarrow>
                let source = (case sn_files (ac_repo ctx) (fc_path fc) of Some b \<Rightarrow> b | None \<Rightarrow> []);
                    (ts, sq) = extract_targets rnd parse lang source (fc_path fc) i (fc_hunks fc) sq
                in ts @ analyze_files rnd parse owns i ctx fcs sq))"

definition analyze_owned ::
  "rounding \<Rightarrow> 'n ts_parser \<Rightarrow> (str \<Rightarrow> lang option) \<Rightarrow> adapter_id \<Rightarrow> adapter_context \<Rightarrow> change_set \<Rightarrow> target list" where
  "analyze_owned rnd parse owns i ctx changes =
     analyze_files rnd parse (\<lambda>p. map_option Some (owns p)) i ctx (cs_files changes) 0"

definition detection_of :: "str list \<Rightarrow> detection_result" where
  "detection_of ev = (if ev = [] then detection_no else detection_yes ev)"

definition rust_adapter :: "rounding \<Rightarrow> 'n ts_parser \<Rightarrow> language_adapter" where
  "rust_adapter rnd parse =
     \<lparr>la_id = ''rust'',
      la_detect = (\<lambda>r. detection_of ((if sn_has r ''Cargo.toml'' then [''Cargo.toml''] else [])
                                   @ (if sn_has_ext r ''rs'' then [''*.rs sources''] else []))),
      la_analyze_changes = analyze_owned rnd parse
        (\<lambda>p. if from_path p = Some Rust then Some Rust else None) ''rust'',
      la_test_command = (\<lambda>_ t. if tg_adapter t = ''rust'' then Some (command_argv ''cargo'' [''test'', ''--quiet'']) else None)\<rparr>"

definition python_adapter :: "rounding \<Rightarrow> 'n ts_parser \<Rightarrow> language_adapter" where
  "python_adapter rnd parse =
     \<lparr>la_id = ''python'',
      la_detect = (\<lambda>r. detection_of
        (filter (sn_has r) [''pyproject.toml'', ''setup.py'', ''setup.cfg'', ''pytest.ini'', ''tox.ini'']
         @ (if sn_has_ext r ''py'' then [''*.py sources''] else []))),
      la_analyze_changes = analyze_owned rnd parse
        (\<lambda>p. if from_path p = Some Python then Some Python else None) ''python'',
      la_test_command = (\<lambda>_ t. if tg_adapter t = ''python''
        then Some (command_argv ''python3'' [''-m'', ''pytest'', ''-q'']) else None)\<rparr>"

definition uses_maven :: "repo_snapshot \<Rightarrow> bool" where
  "uses_maven r \<longleftrightarrow> sn_has r ''pom.xml''"

definition uses_gradle :: "repo_snapshot \<Rightarrow> bool" where
  "uses_gradle r \<longleftrightarrow> sn_has r ''build.gradle'' \<or> sn_has r ''build.gradle.kts''"

definition java_adapter :: "rounding \<Rightarrow> 'n ts_parser \<Rightarrow> language_adapter" where
  "java_adapter rnd parse =
     \<lparr>la_id = ''java'',
      la_detect = (\<lambda>r. detection_of ((if uses_maven r then [''pom.xml''] else [])
                                   @ (if uses_gradle r then [''build.gradle''] else [])
                                   @ (if sn_has_ext r ''java'' then [''*.java sources''] else []))),
      la_analyze_changes = analyze_owned rnd parse
        (\<lambda>p. if from_path p = Some Java then Some Java else None) ''java'',
      la_test_command = (\<lambda>ctx t.
        if tg_adapter t \<noteq> ''java'' then None
        else if uses_gradle (ac_repo ctx) \<and> \<not> uses_maven (ac_repo ctx)
        then Some (command_argv (if sn_has (ac_repo ctx) ''gradlew'' then ''./gradlew'' else ''gradle'') [''test''])
        else Some (command_argv (if sn_has (ac_repo ctx) ''mvnw'' then ''./mvnw'' else ''mvn'') [''-q'', ''test'']))\<rparr>"

definition package_manager :: "repo_snapshot \<Rightarrow> str" where
  "package_manager r =
     (if sn_has r ''pnpm-lock.yaml'' then ''pnpm''
      else if sn_has r ''yarn.lock'' then ''yarn''
      else if sn_has r ''bun.lockb'' \<or> sn_has r ''bun.lock'' then ''bun''
      else ''npm'')"

definition typescript_adapter :: "rounding \<Rightarrow> 'n ts_parser \<Rightarrow> language_adapter" where
  "typescript_adapter rnd parse =
     \<lparr>la_id = ''typescript'',
      la_detect = (\<lambda>r. detection_of ((if sn_has r ''package.json'' then [''package.json''] else [])
         @ (if sn_has r ''tsconfig.json'' then [''tsconfig.json''] else [])
         @ (if list_ex (sn_has_ext r) [''ts'', ''tsx'', ''js'', ''jsx'', ''mjs'', ''cjs'', ''mts'', ''cts'']
            then [''JS/TS sources''] else []))),
      la_analyze_changes = analyze_owned rnd parse
        (\<lambda>p. case from_path p of Some TypeScript \<Rightarrow> Some TypeScript | Some Tsx \<Rightarrow> Some Tsx | _ \<Rightarrow> None) ''typescript'',
      la_test_command = (\<lambda>ctx t.
        if tg_adapter t \<noteq> ''typescript'' then None
        else let pm = package_manager (ac_repo ctx) in
          if pm = ''bun'' then Some (command_argv ''bun'' [''run'', ''test''])
          else Some (command_argv pm [''test'']))\<rparr>"

definition generic_id :: "repo_config \<Rightarrow> adapter_id" where
  "generic_id c =
     (let raw = (case rc_id c of Some i \<Rightarrow> i | None \<Rightarrow> ''generic'') in
      if raw \<in> set RESERVED_BUILTIN_IDS then ''generic-'' @ raw else raw)"

definition generic_owns :: "repo_config \<Rightarrow> str \<Rightarrow> bool" where
  "generic_owns c path =
     (if \<not> list_ex (\<lambda>e. e = path_ext path) (rc_extensions c) then False
      else if list_ex (\<lambda>g. glob_match g path) (rc_exclude c) then False
      else if rc_include c \<noteq> [] \<and> \<not> list_ex (\<lambda>g. glob_match g path) (rc_include c) then False
      else True)"

definition grammar_lang :: "repo_config \<Rightarrow> lang option" where
  "grammar_lang c =
     (case rc_grammar c of
        None \<Rightarrow> None
      | Some g \<Rightarrow>
          if g = ''rust'' then Some Rust
          else if g = ''python'' then Some Python
          else if g = ''java'' then Some Java
          else if g \<in> {''typescript'', ''javascript''} then Some TypeScript
          else if g = ''tsx'' then Some Tsx
          else None)"

definition generic_adapter :: "rounding \<Rightarrow> 'n ts_parser \<Rightarrow> repo_config \<Rightarrow> language_adapter" where
  "generic_adapter rnd parse c =
     \<lparr>la_id = generic_id c,
      la_detect = (\<lambda>_. if rc_id c \<noteq> None \<and> (rc_extensions c \<noteq> [] \<or> rc_test_argv c \<noteq> [])
                       then detection_yes [''.jitgen.yaml generic adapter''] else detection_no),
      la_analyze_changes = (\<lambda>ctx changes. analyze_files rnd parse
         (\<lambda>p. if generic_owns c p then Some (grammar_lang c) else None) (generic_id c) ctx (cs_files changes) 0),
      la_test_command = (\<lambda>_ t.
        if tg_adapter t \<noteq> generic_id c \<or> rc_test_argv c = [] then None
        else (case render_argv c [(''target'', tg_path t)] of
                [] \<Rightarrow> None
              | program # args \<Rightarrow> Some (command_argv program args)))\<rparr>"

section \<open>The registry\<close>

definition with_builtins :: "rounding \<Rightarrow> 'n ts_parser \<Rightarrow> repo_config \<Rightarrow> language_adapter list" where
  "with_builtins rnd parse c =
     [rust_adapter rnd parse, python_adapter rnd parse, java_adapter rnd parse, typescript_adapter rnd parse,
      generic_adapter rnd parse c]"

definition registry_detect :: "language_adapter list \<Rightarrow> repo_snapshot \<Rightarrow> (adapter_id \<times> detection_result) list" where
  "registry_detect as r = filter (\<lambda>(_, d). dt_detected d) (map (\<lambda>a. (la_id a, la_detect a r)) as)"

definition registry_adapter :: "language_adapter list \<Rightarrow> adapter_id \<Rightarrow> language_adapter option" where
  "registry_adapter as i = find (\<lambda>a. la_id a = i) as"

text \<open>The first pass: a target is kept when its adapter is the first to claim its path.\<close>

fun keep_mask :: "(str \<rightharpoonup> adapter_id) \<Rightarrow> target list \<Rightarrow> bool list" where
  "keep_mask owner [] = []"
| "keep_mask owner (t # ts) =
     (case owner (tg_path t) of
        Some a \<Rightarrow> (a = tg_adapter t) # keep_mask owner ts
      | None \<Rightarrow> True # keep_mask (owner(tg_path t \<mapsto> tg_adapter t)) ts)"

definition renumber :: "target list \<Rightarrow> target list" where
  "renumber ts = map (\<lambda>(i, t). t\<lparr>tg_id := ''t'' @ show_nat i\<rparr>) (zip [0 ..< length ts] ts)"

definition registry_analyze :: "language_adapter list \<Rightarrow> adapter_context \<Rightarrow> change_set \<Rightarrow> target list" where
  "registry_analyze as ctx changes =
     (let targets = concat (map (\<lambda>(i, _). case registry_adapter as i of
                                    Some a \<Rightarrow> la_analyze_changes a ctx changes
                                  | None \<Rightarrow> []) (registry_detect as (ac_repo ctx)));
          kept = map snd (filter fst (zip (keep_mask Map.empty targets) targets))
      in renumber kept)"

section \<open>Lemmas\<close>

subsection \<open>Symbols\<close>

lemma better_row:
  "better tr kinds n best = Some (m, k, l) \<Longrightarrow> m = n \<or> best = Some (m, k, l)"
  by (auto simp: better_def Let_def split: option.splits if_splits)

lemma descend_row:
  "descend tr row kinds budget stack best = Some (m, k, l) \<Longrightarrow> list_all (row_in tr row) stack
    \<Longrightarrow> (\<And>m' k' l'. best = Some (m', k', l') \<Longrightarrow> row_in tr row m') \<Longrightarrow> row_in tr row m"
proof (induction tr row kinds budget stack best rule: descend.induct)
  case (3 tr row kinds budget node stack best)
  show ?case
  proof (cases "budget = 0")
    case False
    have "list_all (row_in tr row) (rev (filter (row_in tr row) (sx_children tr node)) @ stack)"
      using 3(3) by (auto simp: list_all_iff)
    moreover have "\<And>m' k' l'. better tr kinds node best = Some (m', k', l') \<Longrightarrow> row_in tr row m'"
      using 3(3,4) better_row by fastforce
    ultimately show ?thesis using 3(1) [OF False] 3(2) False by simp
  qed (use 3 in simp)
qed auto

lemma enclosing_row: "enclosing tr row kinds = Some (n, k) \<Longrightarrow> row_in tr row n"
  using descend_row [of tr row kinds MAX_DESCENT "[sx_root tr]" None] 
  by (fastforce simp: enclosing_def split: if_splits)

text \<open>A target of this file and adapter whose lines contain the first line of a range.\<close>

definition target_for :: "str \<Rightarrow> adapter_id \<Rightarrow> line_range \<Rightarrow> target \<Rightarrow> bool" where
  "target_for path adapter h t \<longleftrightarrow> tg_path t = path \<and> tg_adapter t = adapter
     \<and> lr_start (tg_span t) \<le> lr_start h \<and> lr_start h \<le> lr_end (tg_span t)"

definition target_ok :: "str \<Rightarrow> adapter_id \<Rightarrow> target \<Rightarrow> bool" where
  "target_ok path adapter t \<longleftrightarrow> tg_path t = path \<and> tg_adapter t = adapter \<and> range_ok (tg_span t)
     \<and> fle fzero (tg_risk t) \<and> fle (tg_risk t) fone"

lemma f0_5_unit: "fle fzero f0_5 \<and> fle f0_5 fone"
  by (simp add: f0_5_def)

lemma symbol_risk_unit: "fle fzero (symbol_risk rnd extent hs) \<and> fle (symbol_risk rnd extent hs) fone"
  using f0_5_unit by (auto simp: symbol_risk_def Let_def risk_score_new_def split: sum.splits if_splits)

lemma fallback_Cons:
  "fst (fallback_hunks path adapter (h # hs) sq) =
     \<lparr>tg_id = ''t'' @ show_nat (unat sq), tg_adapter = adapter, tg_path = path, tg_symbol = None, tg_kind = Hunk,
      tg_span = h, tg_risk = f0_5\<rparr> # fst (fallback_hunks path adapter hs (sq + 1))"
  by (simp add: next_id_def Let_def split: prod.split)

lemma fallback_targets:
  "list_all range_ok hs \<Longrightarrow> list_all (target_ok path adapter) (fst (fallback_hunks path adapter hs sq))
    \<and> list_all (\<lambda>h. list_ex (target_for path adapter h) (fst (fallback_hunks path adapter hs sq))) hs"
proof (induction hs arbitrary: sq)
  case (Cons h hs)
  have rest: "list_all (target_ok path adapter) (fst (fallback_hunks path adapter hs (sq + 1)))"
    "list_all (\<lambda>h'. list_ex (target_for path adapter h') (fst (fallback_hunks path adapter hs (sq + 1)))) hs"
    using Cons by simp_all
  show ?case unfolding fallback_Cons
    using rest Cons.prems f0_5_unit
    by (auto simp: list_all_iff target_ok_def) (simp add: target_for_def range_ok_def)
qed simp

lemma fallback_ids:
  "map tg_id (fst (fallback_hunks path adapter hs sq)) = map (\<lambda>i. ''t'' @ show_nat (unat (sq + of_nat i))) [0 ..< length hs]
    \<and> snd (fallback_hunks path adapter hs sq) = sq + of_nat (length hs)"
proof (induction hs arbitrary: sq)
  case (Cons h hs)
  have "map (\<lambda>i. ''t'' @ show_nat (unat (sq + of_nat i))) [0 ..< length (h # hs)]
     = (''t'' @ show_nat (unat sq)) # map (\<lambda>i. ''t'' @ show_nat (unat (sq + 1 + of_nat i))) [0 ..< length hs]"
    by (simp add: upt_conv_Cons map_Suc_upt [symmetric] del: upt_Suc) (simp add: algebra_simps)
  with Cons [of "sq + 1"] show ?case
    by (auto simp: Let_def next_id_def algebra_simps split: prod.split)
qed simp

text \<open>The loop over the hunks: every hunk seen is in the unmatched list or has a target.\<close>

definition rows_small :: "'n syntax_tree \<Rightarrow> bool" where
  "rows_small tr \<longleftrightarrow> (\<forall>n. sx_start_row tr n \<le> sx_end_row tr n \<and> sx_end_row tr n < 2 ^ 32 - 1)"

definition covered :: "str \<Rightarrow> adapter_id \<Rightarrow> target list \<times> line_range list \<times> u32 \<Rightarrow> line_range \<Rightarrow> bool" where
  "covered path adapter st h \<longleftrightarrow> h \<in> set (fst (snd st)) \<or> list_ex (target_for path adapter h) (fst st)"

lemma row_range:
  assumes "rows_small tr" "row_in tr (unat (lr_start h) - 1) n" "range_ok h"
    and "line_range_new (of_nat (sx_start_row tr n + 1)) (of_nat (sx_end_row tr n + 1)) = Ok extent"
  shows "range_ok extent \<and> lr_start extent \<le> lr_start h \<and> lr_start h \<le> lr_end extent"
proof -
  have b: "sx_start_row tr n \<le> unat (lr_start h) - 1" "unat (lr_start h) - 1 \<le> sx_end_row tr n"
    "sx_end_row tr n < 2 ^ 32 - 1" "sx_start_row tr n \<le> sx_end_row tr n"
    using assms(1,2) by (auto simp: row_in_def rows_small_def)
  have "0 < unat (lr_start h)" using assms(3) by (simp add: range_ok_def unat_gt_0 word_gt_0)
  moreover have u: "unat (of_nat k :: u32) = k" if "k < 2 ^ 32" for k
    using that by (simp add: unat_of_nat)
  have "unat (of_nat (sx_start_row tr n + 1) :: u32) = sx_start_row tr n + 1"
    by (rule u) (use b in linarith)
  moreover have "unat (of_nat (sx_end_row tr n + 1) :: u32) = sx_end_row tr n + 1"
    by (rule u) (use b in linarith)
  ultimately show ?thesis
    using assms(4) b unfolding line_range_new_def range_ok_def word_le_nat_alt word_less_nat_alt
    by (simp split: if_splits del: of_nat_add of_nat_1) (auto simp del: of_nat_add of_nat_1)
qed

lemma grammar_hunks_invariant:
  assumes "rows_small tr" "list_all range_ok hs" "list_all range_ok (fst (snd st))"
    and "list_all (target_ok path adapter) (fst st)"
  shows "list_all range_ok (fst (snd (grammar_hunks rnd tr kinds path adapter capped hs st)))
    \<and> list_all (target_ok path adapter) (fst (grammar_hunks rnd tr kinds path adapter capped hs st))
    \<and> (\<forall>h. covered path adapter st h \<or> h \<in> set hs \<longrightarrow> covered path adapter (grammar_hunks rnd tr kinds path adapter capped hs st) h)"
  using assms(2-)
proof (induction hs arbitrary: st)
  case (Cons h hs)
  obtain targets unmatched sq where st: "st = (targets, unmatched, sq)" by (cases st) auto
  have h: "range_ok h" using Cons.prems by simp
  let ?next = "case enclosing tr (unat (lr_start h) - 1) kinds of
          None \<Rightarrow> (targets, unmatched @ [h], sq)
        | Some (node, kind) \<Rightarrow>
            (case line_range_new (of_nat (sx_start_row tr node + 1)) (of_nat (sx_end_row tr node + 1)) of
               Err _ \<Rightarrow> (targets, unmatched @ [h], sq)
             | Ok extent \<Rightarrow>
                 if list_ex (\<lambda>t. tg_path t = path \<and> tg_span t = extent) targets then (targets, unmatched, sq)
                 else let (i, sq) = next_id sq in
                   (targets @ [\<lparr>tg_id = i, tg_adapter = adapter, tg_path = path, tg_symbol = node_name tr node,
                      tg_kind = kind, tg_span = extent, tg_risk = symbol_risk rnd extent capped\<rparr>], unmatched, sq))"
  have step: "list_all range_ok (fst (snd ?next)) \<and> list_all (target_ok path adapter) (fst ?next)
      \<and> (\<forall>h'. covered path adapter st h' \<or> h' = h \<longrightarrow> covered path adapter ?next h')"
  proof (cases "enclosing tr (unat (lr_start h) - 1) kinds")
    case None
    then show ?thesis using Cons.prems h by (auto simp: st covered_def)
  next
    case (Some nk)
    obtain node kind where nk: "nk = (node, kind)" by (cases nk)
    show ?thesis
    proof (cases "line_range_new (of_nat (sx_start_row tr node + 1)) (of_nat (sx_end_row tr node + 1))")
      case (Inl e)
      then show ?thesis using Some Cons.prems h by (auto simp: st nk covered_def simp del: of_nat_Suc of_nat_add)
    next
      case (Inr extent)
      have ok: "range_ok extent" "lr_start extent \<le> lr_start h" "lr_start h \<le> lr_end extent"
        using row_range [OF assms(1) enclosing_row [OF Some [unfolded nk]] h Inr] by simp_all
      show ?thesis
      proof (cases "list_ex (\<lambda>t. tg_path t = path \<and> tg_span t = extent) targets")
        case True
        then have "list_ex (target_for path adapter h) targets"
          using ok Cons.prems by (fastforce simp: st list_ex_iff list_all_iff target_for_def target_ok_def)
        then show ?thesis using True Some Inr Cons.prems
          by (auto simp: st nk covered_def simp del: of_nat_Suc of_nat_add)
      next
        case False
        let ?t = "\<lparr>tg_id = fst (next_id sq), tg_adapter = adapter, tg_path = path, tg_symbol = node_name tr node,
                      tg_kind = kind, tg_span = extent, tg_risk = symbol_risk rnd extent capped\<rparr>"
        have upd: "?next = (targets @ [?t], unmatched, snd (next_id sq))"
          using False Some Inr by (simp add: nk case_prod_unfold Let_def del: of_nat_Suc of_nat_add)
        have "target_ok path adapter ?t" "target_for path adapter h ?t"
          using ok symbol_risk_unit [of rnd extent capped] by (simp_all add: target_ok_def target_for_def)
        then show ?thesis unfolding upd using Cons.prems by (auto simp: st covered_def)
      qed
    qed
  qed
  have "grammar_hunks rnd tr kinds path adapter capped (h # hs) st = grammar_hunks rnd tr kinds path adapter capped hs ?next"
    by (simp only: st grammar_hunks.simps)
  then show ?case using Cons.IH [of ?next] step Cons.prems by auto
qed simp

lemma extract_with_grammar_covers:
  assumes "extract_with_grammar rnd parse l source path adapter hunks sq = Some (ts, sq')"
    and "\<And>tr. parse l source = Some tr \<Longrightarrow> rows_small tr" "list_all range_ok hunks"
  shows "list_all (target_ok path adapter) ts \<and> list_all (\<lambda>h. list_ex (target_for path adapter h) ts) hunks"
proof -
  obtain tr where tr: "parse l source = Some tr"
    using assms(1) by (auto simp: extract_with_grammar_def split: if_splits option.splits)
  let ?capped = "take MAX_HUNKS hunks"
  obtain targets unmatched sq1 where g:
    "grammar_hunks rnd tr (symbol_kinds l) path adapter ?capped ?capped ([], [], sq) = (targets, unmatched, sq1)"
    by (metis prod_cases3)
  let ?un = "unmatched @ drop MAX_HUNKS hunks"
  have ts: "ts = targets @ fst (fallback_hunks path adapter ?un sq1)"
    using assms(1) tr g by (auto simp: extract_with_grammar_def Let_def split: if_splits prod.splits)
  have capped: "list_all range_ok ?capped" "list_all range_ok (drop MAX_HUNKS hunks)"
    using assms(3) by (auto simp: list_all_iff dest: in_set_takeD in_set_dropD)
  note inv = grammar_hunks_invariant [OF assms(2) [OF tr] capped(1), of "([], [], sq)" path adapter rnd "symbol_kinds l" ?capped, unfolded g]
  then have un: "list_all range_ok ?un" using capped by simp
  note fb = fallback_targets [OF un, of path adapter sq1]
  have "list_ex (target_for path adapter h) ts" if "h \<in> set hunks" for h
  proof (cases "h \<in> set ?un")
    case True
    then show ?thesis using fb by (auto simp: ts list_all_iff)
  next
    case False
    then have "h \<in> set ?capped" using that by (metis Un_iff append_take_drop_id set_append)
    then show ?thesis using inv False by (auto simp: ts covered_def)
  qed
  then show ?thesis using inv fb by (auto simp: ts list_all_iff)
qed

subsection \<open>The registry\<close>

text \<open>The adapter of the first target of each path.\<close>

definition first_owner :: "target list \<Rightarrow> str \<rightharpoonup> adapter_id" where
  "first_owner ts = map_of (map (\<lambda>t. (tg_path t, tg_adapter t)) ts)"

lemma keep_mask_filter:
  "map snd (filter fst (zip (keep_mask owner ts) ts)) = filter (\<lambda>t. (first_owner ts ++ owner) (tg_path t) = Some (tg_adapter t)) ts"
proof (induction ts arbitrary: owner)
  case (Cons t ts)
  show ?case
  proof (cases "owner (tg_path t)")
    case None
    let ?o = "owner(tg_path t \<mapsto> tg_adapter t)"
    have "first_owner ts ++ ?o = first_owner (t # ts) ++ owner"
      using None by (auto simp: first_owner_def map_add_def fun_eq_iff split: option.splits)
    moreover have "(first_owner (t # ts) ++ owner) (tg_path t) = Some (tg_adapter t)"
      using None by (simp add: first_owner_def map_add_def)
    ultimately show ?thesis using None Cons.IH [of ?o] by (simp del: map_add_upd fun_upd_apply)
  next
    case (Some a)
    then have "first_owner (t # ts) ++ owner = first_owner ts ++ owner"
      by (auto simp: first_owner_def map_add_def fun_eq_iff split: option.splits)
    moreover have "(first_owner (t # ts) ++ owner) (tg_path t) = Some a"
      using Some by (simp add: map_add_def)
    ultimately show ?thesis using Some Cons.IH [of owner] by simp
  qed
qed simp

lemma first_owner_Some: "t \<in> set ts \<Longrightarrow> \<exists>u \<in> set ts. tg_path u = tg_path t \<and> first_owner ts (tg_path t) = Some (tg_adapter u)"
  by (induction ts) (auto simp: first_owner_def)

definition raw_targets :: "language_adapter list \<Rightarrow> adapter_context \<Rightarrow> change_set \<Rightarrow> target list" where
  "raw_targets as ctx changes =
     concat (map (\<lambda>(i, _). case registry_adapter as i of Some a \<Rightarrow> la_analyze_changes a ctx changes | None \<Rightarrow> [])
       (registry_detect as (ac_repo ctx)))"

lemma registry_analyze_eq:
  "registry_analyze as ctx changes =
     renumber (filter (\<lambda>t. first_owner (raw_targets as ctx changes) (tg_path t) = Some (tg_adapter t)) (raw_targets as ctx changes))"
  using keep_mask_filter [of Map.empty "raw_targets as ctx changes"]
  by (simp add: registry_analyze_def raw_targets_def Let_def)

lemma map_renumber:
  assumes "\<And>t i. f (t\<lparr>tg_id := i\<rparr>) = f t"
  shows "map f (renumber ts) = map f ts"
proof -
  have "map f (map (\<lambda>(i, t). t\<lparr>tg_id := ''t'' @ show_nat i\<rparr>) (zip ns ts)) = map f ts" if "length ns = length ts" for ns
    using that by (induction ns ts rule: list_induct2) (simp_all add: assms)
  then show ?thesis by (simp add: renumber_def)
qed

lemma renumber_ids: "map tg_id (renumber ts) = map (\<lambda>i. ''t'' @ show_nat i) [0 ..< length ts]"
proof -
  have "map tg_id (map (\<lambda>(i, t). t\<lparr>tg_id := ''t'' @ show_nat i\<rparr>) (zip ns ts)) = map (\<lambda>i. ''t'' @ show_nat i) ns"
    if "length ns = length ts" for ns
    using that by (induction ns ts rule: list_induct2) simp_all
  from this [of "[0 ..< length ts]"] show ?thesis by (simp add: renumber_def)
qed

lemma length_renumber [simp]: "length (renumber ts) = length ts"
  by (simp add: renumber_def)

lemma kept_paths:
  "tg_path ` set (filter (\<lambda>t. first_owner ts (tg_path t) = Some (tg_adapter t)) ts) = tg_path ` set ts"
  using first_owner_Some [of _ ts] by (auto simp: image_iff) metis

lemma kept_owner:
  assumes "t \<in> set (filter (\<lambda>t. first_owner ts (tg_path t) = Some (tg_adapter t)) ts)"
  shows "first_owner (filter (\<lambda>t. first_owner ts (tg_path t) = Some (tg_adapter t)) ts) (tg_path t) = Some (tg_adapter t)"
  using first_owner_Some [OF assms] assms by auto

subsection \<open>Commands\<close>

lemma generic_id_not_reserved: "generic_id c \<notin> set RESERVED_BUILTIN_IDS"
  by (auto simp: generic_id_def RESERVED_BUILTIN_IDS_def Let_def)

lemmas adapter_defs = rust_adapter_def python_adapter_def java_adapter_def typescript_adapter_def

definition builtin_commands :: "test_command set" where
  "builtin_commands = {command_argv ''cargo'' [''test'', ''--quiet''], command_argv ''python3'' [''-m'', ''pytest'', ''-q''],
     command_argv ''./gradlew'' [''test''], command_argv ''gradle'' [''test''],
     command_argv ''./mvnw'' [''-q'', ''test''], command_argv ''mvn'' [''-q'', ''test''],
     command_argv ''bun'' [''run'', ''test''], command_argv ''pnpm'' [''test''], command_argv ''yarn'' [''test''],
     command_argv ''npm'' [''test'']}"

lemma builtin_command:
  assumes "a \<in> {rust_adapter rnd parse, python_adapter rnd parse, java_adapter rnd parse, typescript_adapter rnd parse}"
    and "la_test_command a ctx t = Some cmd"
  shows "tg_adapter t \<in> set RESERVED_BUILTIN_IDS \<and> cmd \<in> builtin_commands"
proof -
  consider "a = rust_adapter rnd parse" | "a = python_adapter rnd parse" | "a = java_adapter rnd parse"
    | "a = typescript_adapter rnd parse"
    using assms(1) by blast
  then show ?thesis
  proof cases
    case 1
    then show ?thesis using assms(2)
      by (simp add: rust_adapter_def RESERVED_BUILTIN_IDS_def builtin_commands_def split: if_splits)
  next
    case 2
    then show ?thesis using assms(2)
      by (simp add: python_adapter_def RESERVED_BUILTIN_IDS_def builtin_commands_def split: if_splits)
  next
    case 3
    then show ?thesis using assms(2)
      by (simp add: java_adapter_def RESERVED_BUILTIN_IDS_def builtin_commands_def split: if_splits)
  next
    case 4
    then show ?thesis using assms(2)
      by (simp add: typescript_adapter_def RESERVED_BUILTIN_IDS_def builtin_commands_def package_manager_def Let_def split: if_splits)
  qed
qed

lemma render_target: "render_argv c [(''target'', p)] = map (\<lambda>tok. if tok = ''{target}'' then p else tok) (rc_test_argv c)"
  by (simp add: render_argv_def)

lemma generic_command:
  assumes "la_test_command (generic_adapter rnd parse c) ctx t = Some cmd"
  shows "tg_adapter t = generic_id c \<and> \<not> tm_shell cmd \<and> tm_cwd_rel cmd = []
    \<and> tm_program cmd # tm_args cmd = map (\<lambda>tok. if tok = ''{target}'' then tg_path t else tok) (rc_test_argv c)"
proof -
  have run: "tg_adapter t = generic_id c"
    and argv: "(case render_argv c [(''target'', tg_path t)] of [] \<Rightarrow> None | program # args \<Rightarrow> Some (command_argv program args)) = Some cmd"
    using assms by (simp_all add: generic_adapter_def split: if_splits del: render_token.simps)
  obtain program args where a: "render_argv c [(''target'', tg_path t)] = program # args"
    using argv by (cases "render_argv c [(''target'', tg_path t)]") simp_all
  then have "cmd = command_argv program args" using argv by simp
  then show ?thesis using run a by (simp add: command_argv_def flip: render_target)
qed

section \<open>Properties\<close>

text \<open>
  C29: No changed range is dropped. For any source, grammar or parser answer whose rows fit a
  \<open>u32\<close>, the targets of a file lie in that file, belong to the adapter, have a valid span and a
  risk between zero and one, and every changed range has one whose lines contain its first line.
\<close>

theorem extract_targets_covers:
  assumes "list_all range_ok hunks" "\<And>l tr. parse l source = Some tr \<Longrightarrow> rows_small tr"
  shows "list_all (target_ok path adapter) (fst (extract_targets rnd parse lang source path adapter hunks sq))
    \<and> list_all (\<lambda>h. list_ex (target_for path adapter h) (fst (extract_targets rnd parse lang source path adapter hunks sq))) hunks"
proof (cases "Option.bind lang (\<lambda>l. extract_with_grammar rnd parse l source path adapter hunks sq)")
  case None
  then show ?thesis using fallback_targets [OF assms(1)] by (simp add: extract_targets_def)
next
  case (Some r)
  then obtain l ts sq' where "extract_with_grammar rnd parse l source path adapter hunks sq = Some (ts, sq')" "r = (ts, sq')"
    by (cases r) (auto simp: Option.bind_eq_Some_conv)
  then show ?thesis
    using extract_with_grammar_covers [of rnd parse l source path adapter hunks sq ts sq'] assms Some
    by (simp add: extract_targets_def)
qed

definition sample_tree :: "nat syntax_tree" where
  "sample_tree = \<lparr>sx_root = 0, sx_kind = (\<lambda>n. if n = 0 then ''source_file'' else ''function_item''),
     sx_start_row = (\<lambda>n. if n = 0 then 0 else 2), sx_end_row = (\<lambda>n. if n = 0 then 9 else 5),
     sx_start_byte = (\<lambda>n. if n = 0 then 0 else 20), sx_end_byte = (\<lambda>n. if n = 0 then 99 else 55),
     sx_children = (\<lambda>n. if n = 0 then [1] else []), sx_field = (\<lambda>_ _. None), sx_parent = (\<lambda>_. None),
     sx_text = (\<lambda>_. None)\<rparr>"

theorem extract_targets_covers_witness:
  "list_all (\<lambda>h. list_ex (target_for ''src/a.rs'' ''rust'' h)
     (fst (extract_targets Fin (\<lambda>_ _. Some sample_tree) (Some Rust) ''fn a() {}'' ''src/a.rs'' ''rust''
       [\<lparr>lr_start = 4, lr_end = 4\<rparr>, \<lparr>lr_start = 8, lr_end = 9\<rparr>] 0)))
     [\<lparr>lr_start = 4, lr_end = 4\<rparr>, \<lparr>lr_start = 8, lr_end = 9\<rparr>]"
proof -
  have "rows_small sample_tree" by (simp add: rows_small_def sample_tree_def)
  moreover have "list_all range_ok [\<lparr>lr_start = 4, lr_end = 4\<rparr>, \<lparr>lr_start = 8, lr_end = 9\<rparr>]"
    by (simp add: range_ok_def)
  ultimately show ?thesis
    using extract_targets_covers [of "[\<lparr>lr_start = 4, lr_end = 4\<rparr>, \<lparr>lr_start = 8, lr_end = 9\<rparr>]"
        "\<lambda>_ _. Some sample_tree" "''fn a() {}''" "''src/a.rs''" "''rust''" Fin "Some Rust" 0]
    by simp
qed

text \<open>
  One adapter per path. The registry's targets are those the detected adapters found, in order,
  without the ones whose path another adapter found first; they are numbered from zero under
  distinct ids, cover exactly the paths found, and no two of them share a path but not an adapter.
\<close>

theorem registry_analyze_one_owner:
  "let found = raw_targets as ctx changes; out = registry_analyze as ctx changes in
     map (\<lambda>t. t\<lparr>tg_id := []\<rparr>) out
       = map (\<lambda>t. t\<lparr>tg_id := []\<rparr>) (filter (\<lambda>t. first_owner found (tg_path t) = Some (tg_adapter t)) found)
     \<and> map tg_id out = map (\<lambda>i. ''t'' @ show_nat i) [0 ..< length out] \<and> distinct (map tg_id out)
     \<and> tg_path ` set out = tg_path ` set found
     \<and> map (\<lambda>t. first_owner out (tg_path t)) out = map (\<lambda>t. Some (tg_adapter t)) out"
proof -
  let ?found = "raw_targets as ctx changes" and ?out = "registry_analyze as ctx changes"
  let ?kept = "filter (\<lambda>t. first_owner ?found (tg_path t) = Some (tg_adapter t)) ?found"
  have out: "?out = renumber ?kept" by (rule registry_analyze_eq)
  have pairs: "map (\<lambda>t. (tg_path t, tg_adapter t)) ?out = map (\<lambda>t. (tg_path t, tg_adapter t)) ?kept"
    unfolding out by (rule map_renumber) simp
  have "map tg_path ?out = map tg_path ?kept" unfolding out by (rule map_renumber) simp
  then have paths: "tg_path ` set ?out = tg_path ` set ?found"
    using kept_paths [of ?found] by (metis list.set_map)
  have ids: "map tg_id ?out = map (\<lambda>i. ''t'' @ show_nat i) [0 ..< length ?out]"
    unfolding out by (simp add: renumber_ids)
  then have "distinct (map tg_id ?out)"
    by (simp add: distinct_map inj_on_def show_nat_inject)
  have "first_owner ?out (tg_path t) = Some (tg_adapter t)" if "t \<in> set ?out" for t
  proof -
    have "(tg_path t, tg_adapter t) \<in> set (map (\<lambda>t. (tg_path t, tg_adapter t)) ?kept)"
      using that unfolding pairs [symmetric] by auto
    then show ?thesis
      unfolding first_owner_def [of ?out] pairs by (fold first_owner_def) (auto simp: kept_owner)
  qed
  then have "map (\<lambda>t. first_owner ?out (tg_path t)) ?out = map (\<lambda>t. Some (tg_adapter t)) ?out" by simp
  moreover have "map (\<lambda>t. t\<lparr>tg_id := []\<rparr>) ?out = map (\<lambda>t. t\<lparr>tg_id := []\<rparr>) ?kept"
    unfolding out by (rule map_renumber) simp
  ultimately show ?thesis unfolding Let_def using paths ids \<open>distinct (map tg_id ?out)\<close> by blast
qed

text \<open>
  A repository's configuration cannot choose what runs for a built-in language. Whatever its
  configuration, a command the registry derives runs without a shell in the overlay's root; for a
  target of a built-in language it is one of ten fixed commands, and otherwise the target is the
  generic adapter's and the command is the configured list itself, element by element, with the
  target's path in place of the elements equal to the placeholder.
\<close>

theorem test_command_confined:
  assumes "a \<in> set (with_builtins rnd parse c)" "la_test_command a ctx t = Some cmd"
  shows "\<not> tm_shell cmd \<and> tm_cwd_rel cmd = []
    \<and> (if tg_adapter t \<in> set RESERVED_BUILTIN_IDS then cmd \<in> builtin_commands
       else tg_adapter t = generic_id c \<and> tm_program cmd # tm_args cmd
              = map (\<lambda>tok. if tok = ''{target}'' then tg_path t else tok) (rc_test_argv c))"
proof -
  have shell: "\<not> tm_shell k \<and> tm_cwd_rel k = []" if "k \<in> builtin_commands" for k
    using that by (auto simp: builtin_commands_def command_argv_def)
  consider "a = generic_adapter rnd parse c"
    | "a \<in> {rust_adapter rnd parse, python_adapter rnd parse, java_adapter rnd parse, typescript_adapter rnd parse}"
    using assms(1) by (auto simp: with_builtins_def)
  then show ?thesis
  proof cases
    case 1
    then show ?thesis using generic_command [of rnd parse c ctx t cmd] generic_id_not_reserved [of c] assms(2) by simp
  next
    case 2
    then show ?thesis using builtin_command [OF 2 assms(2)] shell by simp
  qed
qed

definition zig_config :: repo_config where
  "zig_config = default_repo_config\<lparr>rc_id := Some ''zig'', rc_test_argv := [''zig'', ''test'', ''{target}'']\<rparr>"

definition zig_target :: target where
  "zig_target = \<lparr>tg_id = ''t0'', tg_adapter = ''zig'', tg_path = ''a; rm.zig'', tg_symbol = None, tg_kind = Hunk,
     tg_span = \<lparr>lr_start = 1, lr_end = 1\<rparr>, tg_risk = f0_5\<rparr>"

lemma zig_command:
  "la_test_command (generic_adapter rnd parse zig_config) ctx zig_target = Some (command_argv ''zig'' [''test'', ''a; rm.zig''])"
  by (simp add: generic_adapter_def zig_config_def zig_target_def default_repo_config_def generic_id_def
      RESERVED_BUILTIN_IDS_def render_argv_def)

theorem test_command_confined_witness:
  "\<forall>ctx. la_test_command (generic_adapter Fin (\<lambda>_ _. None :: nat syntax_tree option) zig_config) ctx zig_target
       = Some (command_argv ''zig'' [''test'', ''a; rm.zig''])
     \<and> \<not> tm_shell (command_argv ''zig'' [''test'', ''a; rm.zig''])"
proof
  fix ctx
  have "generic_adapter Fin (\<lambda>_ _. None :: nat syntax_tree option) zig_config
      \<in> set (with_builtins Fin (\<lambda>_ _. None :: nat syntax_tree option) zig_config)"
    by (simp add: with_builtins_def)
  from test_command_confined [OF this zig_command] zig_command [of Fin "\<lambda>_ _. None :: nat syntax_tree option" ctx]
  show "la_test_command (generic_adapter Fin (\<lambda>_ _. None :: nat syntax_tree option) zig_config) ctx zig_target
       = Some (command_argv ''zig'' [''test'', ''a; rm.zig''])
     \<and> \<not> tm_shell (command_argv ''zig'' [''test'', ''a; rm.zig''])"
    by blast
qed

end
