(* ===== verification/TargetSel.thy ===== *)
theory TargetSel
  imports Floats "HOL-Library.Multiset"
begin

text \<open>
  Target selection, \<open>jitgen-orchestrator/src/targetsel.rs\<close>: the score of a target, its rationale, and
  the ranking cut to the budget. The stable sort is the library's \<open>sort_key\<close>; it agrees with the
  comparison of the code as long as no score is NaN, which the property below shows. The formatting
  of a number with two decimals is a parameter.
\<close>

record ranked_target =
  rt_target :: target
  rt_score :: f64
  rt_rationale :: str

fun kind_weight :: "symbol_kind \<Rightarrow> f64" where
  "kind_weight Function = fone"
| "kind_weight Method = fone"
| "kind_weight Class = f0_9"
| "kind_weight Module = f0_7"
| "kind_weight Hunk = f0_6"

fun kind_debug :: "symbol_kind \<Rightarrow> str" where
  "kind_debug Function = ''Function''"
| "kind_debug Method = ''Method''"
| "kind_debug Class = ''Class''"
| "kind_debug Module = ''Module''"
| "kind_debug Hunk = ''Hunk''"

text \<open>The subtraction saturates at zero.\<close>

definition span_lines :: "target \<Rightarrow> u32" where
  "span_lines t =
     (if lr_end (tg_span t) < lr_start (tg_span t) then 0 else lr_end (tg_span t) - lr_start (tg_span t)) + 1"

definition size_factor :: "rounding \<Rightarrow> target \<Rightarrow> f64" where
  "size_factor rnd t = fmin (fquot rnd (of_nat (unat (span_lines t))) 50) fone"

definition target_score :: "rounding \<Rightarrow> target \<Rightarrow> f64" where
  "target_score rnd t =
     fclamp (fadd rnd (fadd rnd (fscale rnd (1 / 2) (tg_risk t)) (fscale rnd r0_35 (kind_weight (tg_kind t))))
       (fscale rnd r0_15 (size_factor rnd t))) fzero fone"

definition rank_one :: "rounding \<Rightarrow> (f64 \<Rightarrow> str) \<Rightarrow> target \<Rightarrow> ranked_target" where
  "rank_one rnd fmt2 t =
     \<lparr>rt_target = t, rt_score = target_score rnd t,
      rt_rationale = ''score='' @ fmt2 (target_score rnd t) @ '' = 0.50*adapter_risk('' @ fmt2 (tg_risk t)
        @ '') + 0.35*kind('' @ kind_debug (tg_kind t) @ ''='' @ fmt2 (kind_weight (tg_kind t))
        @ '') + 0.15*size('' @ show_nat (unat (span_lines t)) @ ''ln='' @ fmt2 (size_factor rnd t)
        @ ''); symbol='' @ (case tg_symbol t of Some s \<Rightarrow> s | None \<Rightarrow> ''(hunk)'') @ ''; path='' @ tg_path t\<rparr>"

definition rank_key :: "ranked_target \<Rightarrow> f64 down \<times> str \<times> str" where
  "rank_key r = (Down (rt_score r), tg_path (rt_target r), tg_id (rt_target r))"

definition select_targets :: "rounding \<Rightarrow> (f64 \<Rightarrow> str) \<Rightarrow> target list \<Rightarrow> u32 \<Rightarrow> ranked_target list" where
  "select_targets rnd fmt2 targets max_tests =
     take (unat max_tests) (sort_key rank_key (map (rank_one rnd fmt2) targets))"

section \<open>Scores\<close>

text \<open>Rounding keeps the interval from zero to two, whose ends are doubles.\<close>

definition rounds_small :: "rounding \<Rightarrow> bool" where
  "rounds_small rnd \<longleftrightarrow> (\<forall>q. 0 \<le> q \<and> q \<le> 2 \<longrightarrow> (\<exists>r. rnd q = Fin r \<and> 0 \<le> r \<and> r \<le> 2)) \<and> (\<forall>q. 0 \<le> q \<longrightarrow> rnd q \<noteq> NaN \<and> fle fzero (rnd q))"

definition unit_f64 :: "f64 \<Rightarrow> bool" where
  "unit_f64 x \<longleftrightarrow> fle fzero x \<and> fle x fone"

lemma kind_weight_unit: "\<exists>k. kind_weight s = Fin k \<and> 0 \<le> k \<and> k \<le> 1"
proof -
  have "fle fzero (kind_weight s)" "fle (kind_weight s) fone" by (cases s; simp add: f0_9_def f0_7_def f0_6_def)+
  then show ?thesis by (cases "kind_weight s") auto
qed

lemma size_factor_unit:
  assumes "rounds_small rnd"
  shows "unit_f64 (size_factor rnd t)"
proof -
  let ?q = "rnd (of_nat (unat (span_lines t)) / 50)"
  have "(0 :: rat) \<le> of_nat (unat (span_lines t)) / 50" by (intro divide_nonneg_nonneg of_nat_0_le_iff) simp
  then have "?q \<noteq> NaN \<and> fle fzero ?q" using assms unfolding rounds_small_def by blast
  then show ?thesis
    by (cases ?q) (auto simp: size_factor_def unit_f64_def fquot_def fmin_def)
qed

lemma nonneg_sum:
  assumes "rounds_small rnd" "0 \<le> a" "a \<le> 2" "x \<noteq> NaN" "fle fzero x"
  shows "fadd rnd (Fin a) x \<noteq> NaN \<and> fle fzero (fadd rnd (Fin a) x)"
  using assms by (cases x) (auto simp: rounds_small_def)

lemma target_score_unit:
  assumes "rounds_small rnd" "unit_f64 (tg_risk t)"
  shows "unit_f64 (target_score rnd t)"
proof -
  have small: "\<exists>r. rnd q = Fin r \<and> 0 \<le> r \<and> r \<le> 2" if "0 \<le> q" "q \<le> 2" for q
    using assms(1) that by (simp add: rounds_small_def)
  have nonneg: "rnd q \<noteq> NaN \<and> fle fzero (rnd q)" if "0 \<le> q" for q
    using assms(1) that by (simp add: rounds_small_def)
  obtain p where p: "tg_risk t = Fin p" "0 \<le> p" "p \<le> 1"
    using assms(2) by (cases "tg_risk t") (auto simp: unit_f64_def)
  obtain k where k: "kind_weight (tg_kind t) = Fin k" "0 \<le> k" "k \<le> 1" using kind_weight_unit by blast
  obtain s where s: "size_factor rnd t = Fin s" "0 \<le> s" "s \<le> 1"
    using size_factor_unit [OF assms(1), of t] by (cases "size_factor rnd t") (auto simp: unit_f64_def)
  obtain a where a: "rnd (1 / 2 * p) = Fin a" "0 \<le> a" using small [of "1 / 2 * p"] p by auto
  have "0 \<le> r0_35" "r0_35 \<le> 1" "0 \<le> r0_15" "r0_15 \<le> 1" by (simp_all add: r0_35_def r0_15_def)
  then have "r0_35 * k \<le> 1" "0 \<le> r0_35 * k" "r0_15 * s \<le> 1" "0 \<le> r0_15 * s"
    using k s mult_mono [of r0_35 1 k 1] mult_mono [of r0_15 1 s 1] by simp_all
  then obtain b c where b: "rnd (r0_35 * k) = Fin b" "0 \<le> b" and c: "rnd (r0_15 * s) = Fin c" "0 \<le> c"
    using small [of "r0_35 * k"] small [of "r0_15 * s"] by auto
  let ?sum = "fadd rnd (fadd rnd (Fin a) (Fin b)) (Fin c)"
  have "rnd (a + b) \<noteq> NaN \<and> fle fzero (rnd (a + b))" using nonneg a b by simp
  then have "?sum \<noteq> NaN"
    using nonneg c by (cases "rnd (a + b)") auto
  then show ?thesis
    using fclamp_between [of ?sum fzero fone] a b c by (simp add: target_score_def p k s unit_f64_def)
qed

section \<open>The property\<close>

lemma rank_key_target:
  "(rank_one rnd fmt2 t = rank_one rnd fmt2 u) = (t = u)"
  "rt_target (rank_one rnd fmt2 t) = t" "rt_score (rank_one rnd fmt2 t) = target_score rnd t"
  by (auto simp: rank_one_def)

lemma take_sorted_dominates:
  assumes "sorted (map f xs)" "x \<in> set (take n xs)" "y \<in> set (drop n xs)"
  shows "f x \<le> f y"
  using assms sorted_append [of "map f (take n xs)" "map f (drop n xs)"]
  by (metis append_take_drop_id image_eqI list.set_map map_append)

text \<open>C27: 
  What is selected does not depend on the order in which the targets come. When no two targets
  share both path and id, the selection is the same for every permutation of them. It has as many
  entries as the budget allows, in order of falling score and then of path and id; every entry is
  a ranked target of the input with a score between zero and one, and none that is left out goes
  before one that is selected.
\<close>

theorem select_targets_best:
  assumes "mset ts = mset us" "distinct (map (\<lambda>t. (tg_path t, tg_id t)) ts)"
    and "list_all (\<lambda>t. unit_f64 (tg_risk t)) ts" "rounds_small rnd"
  shows "select_targets rnd fmt2 ts n = select_targets rnd fmt2 us n
    \<and> length (select_targets rnd fmt2 ts n) = min (unat n) (length ts)
    \<and> sorted (map rank_key (select_targets rnd fmt2 ts n))
    \<and> list_all (\<lambda>r. unit_f64 (rt_score r)) (select_targets rnd fmt2 ts n)
    \<and> (\<exists>left. mset (select_targets rnd fmt2 ts n) + mset left = mset (map (rank_one rnd fmt2) ts)
         \<and> list_all (\<lambda>r. list_all (\<lambda>l. rank_key r \<le> rank_key l) left) (select_targets rnd fmt2 ts n))"
proof -
  let ?r = "map (rank_one rnd fmt2) ts" and ?s = "sort_key rank_key (map (rank_one rnd fmt2) ts)"
  have inj: "inj_on rank_key (set ?r)"
    using assms(2) by (auto simp: inj_on_def rank_key_def rank_key_target distinct_map)
  have "sort_key rank_key ?r = sort_key rank_key (map (rank_one rnd fmt2) us)"
    using inj assms(1) by (intro sort_key_inj_key_eq) (simp_all add: mset_map)
  moreover have "mset (take (unat n) ?s) + mset (drop (unat n) ?s) = mset ?r"
    by (metis append_take_drop_id mset_append mset_sort)
  moreover have "list_all (\<lambda>r. list_all (\<lambda>l. rank_key r \<le> rank_key l) (drop (unat n) ?s)) (take (unat n) ?s)"
    using take_sorted_dominates [of rank_key ?s] by (simp add: list_all_iff)
  moreover have "list_all (\<lambda>r. unit_f64 (rt_score r)) (take (unat n) ?s)"
    using assms(3) target_score_unit [OF assms(4)]
    by (auto simp: list_all_iff rank_key_target dest!: in_set_takeD)
  moreover have size: "length us = length ts" using mset_eq_length [OF assms(1)] by simp
  moreover have "sorted (map rank_key (take (unat n) ?s))"
    using sorted_wrt_take [of "(\<le>)" "map rank_key ?s" "unat n"] by (simp add: take_map)
  ultimately show ?thesis
    unfolding select_targets_def by (intro conjI exI [of _ "drop (unat n) ?s"]) (simp_all add: min.commute size)
qed

definition two_targets :: "target list" where
  "two_targets =
     [\<lparr>tg_id = ''t0'', tg_adapter = ''rust'', tg_path = ''b.rs'', tg_symbol = None, tg_kind = Hunk,
        tg_span = \<lparr>lr_start = 1, lr_end = 5\<rparr>, tg_risk = f0_5\<rparr>,
      \<lparr>tg_id = ''t1'', tg_adapter = ''rust'', tg_path = ''a.rs'', tg_symbol = Some ''f'', tg_kind = Function,
        tg_span = \<lparr>lr_start = 1, lr_end = 5\<rparr>, tg_risk = f0_5\<rparr>]"

theorem select_targets_best_witness:
  "select_targets (\<lambda>q. if q \<le> 2 then Fin q else PInf) (\<lambda>_. []) two_targets 1
     = select_targets (\<lambda>q. if q \<le> 2 then Fin q else PInf) (\<lambda>_. []) (rev two_targets) 1
   \<and> length (select_targets (\<lambda>q. if q \<le> 2 then Fin q else PInf) (\<lambda>_. []) two_targets 1) = 1"
proof -
  have "mset two_targets = mset (rev two_targets)" and dist: "distinct (map (\<lambda>t. (tg_path t, tg_id t)) two_targets)"
    and unit: "list_all (\<lambda>t. unit_f64 (tg_risk t)) two_targets" and two: "length two_targets = 2"
    by (simp_all add: two_targets_def unit_f64_def f0_5_def)
  moreover have "rounds_small (\<lambda>q. if q \<le> 2 then Fin q else PInf)" by (simp add: rounds_small_def)
  ultimately have best: "select_targets (\<lambda>q. if q \<le> 2 then Fin q else PInf) (\<lambda>_. []) two_targets 1
        = select_targets (\<lambda>q. if q \<le> 2 then Fin q else PInf) (\<lambda>_. []) (rev two_targets) 1
      \<and> length (select_targets (\<lambda>q. if q \<le> 2 then Fin q else PInf) (\<lambda>_. []) two_targets 1)
          = min (unat (1 :: u32)) (length two_targets)"
    using select_targets_best [of two_targets "rev two_targets" "\<lambda>q. if q \<le> 2 then Fin q else PInf" "\<lambda>_. []" 1]
    by blast
  have "min (unat (1 :: u32)) 2 = 1" by simp
  then show ?thesis using best unfolding two by argo
qed

end
