(* ===== verification/Placement.thy ===== *)
theory Placement
  imports Core Paths
begin

text \<open>
  Where a generated test goes, \<open>jitgen-materialize/src/placement.rs\<close>: file name fragments, the
  directory of the target and the path of each language's convention.
\<close>

definition MAX_FRAGMENT :: nat where "MAX_FRAGMENT = 64"

text \<open>The loop over the characters, with the flag for a trailing underscore and the output.\<close>

fun fragment_chars :: "str list \<Rightarrow> bool \<Rightarrow> str \<Rightarrow> str" where
  "fragment_chars [] last_us out = out"
| "fragment_chars (k # ks) last_us out =
     (let c = (if is_ascii_alnum k then hd k else CHR ''_'') in
      if c = CHR ''_'' \<and> last_us then fragment_chars ks last_us out
      else if MAX_FRAGMENT \<le> length (out @ [c]) then out @ [c]
      else fragment_chars ks (c = CHR ''_'') (out @ [c]))"

definition trim_us :: "str \<Rightarrow> str" where
  "trim_us s = rev (dropWhile (\<lambda>c. c = CHR ''_'') (rev (dropWhile (\<lambda>c. c = CHR ''_'') s)))"

definition sanitize_fragment :: "str \<Rightarrow> str" where
  "sanitize_fragment s =
     (let trimmed = trim_us (fragment_chars (chars s) False []) in
      if trimmed = [] then ''unit'' else trimmed)"

definition capitalize :: "str \<Rightarrow> str" where
  "capitalize s = (case chars s of [] \<Rightarrow> [] | k # ks \<Rightarrow> map to_upper k @ concat ks)"

text \<open>\<open>file_stem\<close> and \<open>extension\<close> of \<open>std::path\<close>.\<close>

definition rsplit_dot :: "str \<Rightarrow> str \<times> str option" where
  "rsplit_dot name =
     (let after = rev (takeWhile (\<lambda>c. c \<noteq> CHR ''.'') (rev name)) in
      if after = name then (name, None)
      else let before = take (length name - length after - 1) name in
        if before = [] then (name, None) else (before, Some after))"

definition path_file_stem :: "str \<Rightarrow> str option" where
  "path_file_stem p = map_option (\<lambda>n. fst (rsplit_dot n)) (comps_file_name (components p))"

definition path_extension :: "str \<Rightarrow> str option" where
  "path_extension p = Option.bind (comps_file_name (components p)) (\<lambda>n. snd (rsplit_dot n))"

definition dir_of :: "str \<Rightarrow> str" where
  "dir_of p =
     (case comps_parent (components p) of
        None \<Rightarrow> []
      | Some parent \<Rightarrow> join ''/'' (normals parent))"

definition stem_of :: "str \<Rightarrow> str" where
  "stem_of p = sanitize_fragment (case path_file_stem p of Some s \<Rightarrow> s | None \<Rightarrow> [])"

definition short_id :: "target \<Rightarrow> str" where
  "short_id t = sanitize_fragment (tg_id t)"

definition ts_test_ext :: "str \<Rightarrow> str" where
  "ts_test_ext p =
     (let ext = (case path_extension p of Some e \<Rightarrow> to_ascii_lowercase e | None \<Rightarrow> []) in
      if ext \<in> {''tsx'', ''js'', ''jsx'', ''mjs'', ''cjs'', ''mts'', ''cts''} then ext else ''ts'')"

definition java_class :: "str \<Rightarrow> str \<Rightarrow> str" where
  "java_class stem i = capitalize stem @ ''Jitgen'' @ capitalize i @ ''Test''"

definition java_test_path :: "str \<Rightarrow> str \<Rightarrow> str \<Rightarrow> str" where
  "java_test_path p stem i =
     (let comps = normals (components p); file_idx = length comps - 1;
          layout = (if length comps < 4 then None
                    else find (\<lambda>k. take 3 (drop k comps) = [''src'', ''main'', ''java'']) [0 ..< length comps - 2])
      in case layout of
           Some k \<Rightarrow> join ''/'' (take k comps @ [''src'', ''test'', ''java'']
                       @ take (file_idx - (k + 3)) (drop (k + 3) comps) @ [java_class stem i @ ''.java''])
         | None \<Rightarrow> ''src/test/java/'' @ java_class stem i @ ''.java'')"

definition with_dir :: "str \<Rightarrow> str \<Rightarrow> str" where
  "with_dir dir name = (if dir = [] then name else dir @ ''/'' @ name)"

definition test_path :: "target \<Rightarrow> adapter_id \<Rightarrow> str" where
  "test_path t a =
     (let stem = stem_of (tg_path t); i = short_id t; dir = dir_of (tg_path t) in
      if a = ''rust'' then ''tests/jitgen_'' @ stem @ ''_'' @ i @ ''.rs''
      else if a = ''python'' then with_dir dir (''test_'' @ stem @ ''_jitgen_'' @ i @ ''.py'')
      else if a = ''java'' then java_test_path (tg_path t) stem i
      else if a = ''typescript'' then with_dir dir (stem @ ''.jitgen.'' @ i @ ''.test.'' @ ts_test_ext (tg_path t))
      else ''jitgen-tests/'' @ stem @ ''_'' @ i @ ''.test.txt'')"

section \<open>Fragments\<close>

definition fragment_char :: "char \<Rightarrow> bool" where
  "fragment_char c \<longleftrightarrow> ascii_alnum c \<or> c = CHR ''_''"

lemma fragment_chars_set:
  assumes "list_all fragment_char out"
  shows "list_all fragment_char (fragment_chars ks us out)"
  using assms
proof (induction ks us out rule: fragment_chars.induct)
  case (2 k ks us out)
  have "fragment_char (if is_ascii_alnum k then hd k else CHR ''_'')"
    by (auto simp: fragment_char_def is_ascii_alnum_def split: list.splits)
  with 2 show ?case by (auto simp: Let_def split: if_splits)
qed simp

lemma trim_us_set: "set (trim_us s) \<subseteq> set s"
  by (auto simp: trim_us_def dest!: set_dropWhileD)

lemma sanitize_fragment_set: "list_all fragment_char (sanitize_fragment s)"
  using fragment_chars_set [of "[]" "chars s" False] trim_us_set [of "fragment_chars (chars s) False []"]
  by (auto simp: sanitize_fragment_def Let_def list_all_iff fragment_char_def ascii_alnum_def ascii_lower_def)

text \<open>A fragment without underscores that is short enough stays as it is.\<close>

lemma fragment_chars_id:
  assumes "list_all ascii_alnum s" "length out + length s < MAX_FRAGMENT"
  shows "fragment_chars (map (\<lambda>c. [c]) s) us out = out @ s"
  using assms
proof (induction s arbitrary: us out)
  case (Cons c s)
  have "c \<noteq> CHR ''_''" using Cons.prems(1) by (auto simp: ascii_alnum_def ascii_lower_def ascii_upper_def ascii_digit_def)
  then show ?case using Cons by (simp add: is_ascii_alnum_def Let_def)
qed simp

lemma dropWhile_us_id: "list_all ascii_alnum s \<Longrightarrow> dropWhile (\<lambda>c. c = CHR ''_'') s = s"
  by (cases s) (auto simp: ascii_alnum_def ascii_lower_def ascii_upper_def ascii_digit_def)

lemma sanitize_fragment_id:
  assumes "list_all ascii_alnum s" "s \<noteq> []" "length s < MAX_FRAGMENT"
  shows "sanitize_fragment s = s"
proof -
  have "ascii s" using assms(1)
    by (auto simp: ascii_def list_all_iff ascii_alnum_def ascii_lower_def ascii_upper_def ascii_digit_def)
  then have "fragment_chars (chars s) False [] = s"
    using fragment_chars_id [of s "[]" False] assms by (simp add: chars_ascii)
  then show ?thesis
    using assms dropWhile_us_id [of s] dropWhile_us_id [of "rev s"] by (simp add: sanitize_fragment_def trim_us_def)
qed

lemma length_show_nat: "n < 10 ^ k \<Longrightarrow> 0 < k \<Longrightarrow> length (show_nat n) \<le> k"
proof (induction n arbitrary: k rule: show_nat.induct)
  case (1 n)
  show ?case
  proof (cases "n < 10")
    case True
    then show ?thesis using 1 by (subst show_nat.simps) simp
  next
    case False
    obtain m where m: "k = Suc m" using 1 by (cases k) auto
    have "n div 10 < 10 ^ m" using 1 m by (simp add: less_mult_imp_div_less mult.commute)
    moreover have "0 < m" using False 1 m by (cases m) auto
    ultimately have "length (show_nat (n div 10)) \<le> m" using 1(1) [OF False] by simp
    then show ?thesis using False m by (subst show_nat.simps) simp
  qed
qed

lemma short_id_numbered:
  assumes "tg_id t = ''t'' @ show_nat i" "i < 2 ^ 64"
  shows "short_id t = ''t'' @ show_nat i"
proof -
  have "length (show_nat i) \<le> 20" using assms(2) by (intro length_show_nat) simp_all
  moreover have "list_all ascii_alnum (''t'' @ show_nat i)"
    using show_nat_digits [of i] by (auto simp: list_all_iff ascii_alnum_def ascii_lower_def)
  ultimately show ?thesis using assms(1) by (simp add: short_id_def sanitize_fragment_id MAX_FRAGMENT_def)
qed

section \<open>Confinement\<close>

lemma join_eq_Nil: "list_all plain_name ns \<Longrightarrow> join ''/'' ns = [] \<longleftrightarrow> ns = []"
  by (cases ns; cases "tl ns") (auto simp: plain_name_def)

lemma dir_of_join: "\<exists>ds. list_all plain_name ds \<and> dir_of p = join ''/'' ds"
  using normals_parent [of p] by (auto simp: dir_of_def comps_parent_def intro: exI [of _ "[]"])

lemma with_dir_confined:
  assumes "plain_name name"
  shows "\<exists>ns. ns \<noteq> [] \<and> list_all plain_name ns \<and> with_dir (dir_of p) name = join ''/'' ns"
proof -
  obtain ds where ds: "list_all plain_name ds" "dir_of p = join ''/'' ds" using dir_of_join by blast
  then have "with_dir (dir_of p) name = join ''/'' (ds @ [name])"
    using join_append [of ds "[name]" "''/''"] by (auto simp: with_dir_def join_eq_Nil)
  then show ?thesis using ds assms by (intro exI [of _ "ds @ [name]"]) simp
qed

lemma fragment_no_slash: "CHR ''/'' \<notin> set (sanitize_fragment s)"
  using sanitize_fragment_set [of s]
  by (auto simp: list_all_iff fragment_char_def ascii_alnum_def ascii_lower_def ascii_upper_def ascii_digit_def)

lemma to_upper_slash: "to_upper c = CHR ''/'' \<longleftrightarrow> c = CHR ''/''"
proof -
  have "code (to_upper c) \<noteq> 47" if "ascii_lower c"
  proof -
    have "code (to_upper c) = (code c - 32) mod 256" using that by (simp add: to_upper_def)
    moreover have "(code c - 32) mod 256 = code c - 32" using that by (intro mod_less) (auto simp: ascii_lower_def)
    ultimately show ?thesis using that unfolding ascii_lower_def by linarith
  qed
  moreover have "code (to_upper c) = 47" if "to_upper c = CHR ''/''" using that by simp
  moreover have "\<not> ascii_lower (CHR ''/'')" by (simp add: ascii_lower_def)
  ultimately show ?thesis by (metis to_upper_def)
qed

lemma capitalize_no_slash: "CHR ''/'' \<notin> set s \<Longrightarrow> CHR ''/'' \<notin> set (capitalize s)"
proof -
  assume s: "CHR ''/'' \<notin> set s"
  show ?thesis
  proof (cases "chars s")
    case (Cons k ks)
    then have "s = k @ concat ks" using concat_chars [of s] by simp
    then show ?thesis using s Cons to_upper_slash by (force simp: capitalize_def)
  qed (simp add: capitalize_def)
qed

lemma java_class_plain: "plain_name (java_class (sanitize_fragment s) (sanitize_fragment i) @ ''.java'')"
  using capitalize_no_slash [OF fragment_no_slash, of s] capitalize_no_slash [OF fragment_no_slash, of i]
  by (auto simp: plain_name_def java_class_def)

lemma java_test_path_confined:
  "\<exists>ns. ns \<noteq> [] \<and> list_all plain_name ns
     \<and> java_test_path p (sanitize_fragment s) (sanitize_fragment i) = join ''/'' ns"
proof -
  let ?cls = "java_class (sanitize_fragment s) (sanitize_fragment i) @ ''.java''" and ?comps = "normals (components p)"
  have dirs: "list_all plain_name [''src'', ''test'', ''java'']" by (simp add: plain_name_def)
  let ?at = "if length ?comps < 4 then None
    else find (\<lambda>k. take 3 (drop k ?comps) = [''src'', ''main'', ''java'']) [0 ..< length ?comps - 2]"
  consider k where "?at = Some k" | "?at = None" by blast
  then show ?thesis
  proof cases
    case (1 k)
    have "list_all plain_name (take k ?comps @ [''src'', ''test'', ''java'']
            @ take (length ?comps - 1 - (k + 3)) (drop (k + 3) ?comps) @ [?cls])"
      using normals_components [of p] dirs java_class_plain [of s i]
      by (auto simp: list_all_iff dest!: in_set_takeD in_set_dropD)
    moreover have "java_test_path p (sanitize_fragment s) (sanitize_fragment i)
        = join ''/'' (take k ?comps @ [''src'', ''test'', ''java'']
            @ take (length ?comps - 1 - (k + 3)) (drop (k + 3) ?comps) @ [?cls])"
      using 1 unfolding java_test_path_def Let_def by (simp only: option.case)
    ultimately show ?thesis by (metis append_is_Nil_conv not_Cons_self2)
  next
    case 2
    then have "java_test_path p (sanitize_fragment s) (sanitize_fragment i) = join ''/'' [''src'', ''test'', ''java'', ?cls]"
      unfolding java_test_path_def Let_def by (simp only: option.case) simp
    moreover have "list_all plain_name [''src'', ''test'', ''java'', ?cls]" using dirs java_class_plain [of s i] by simp
    ultimately show ?thesis by (metis list.distinct(1))
  qed
qed

lemma ts_ext_cases: "ts_test_ext p \<in> {''ts'', ''tsx'', ''js'', ''jsx'', ''mjs'', ''cjs'', ''mts'', ''cts''}"
  by (auto simp: ts_test_ext_def Let_def)

lemma test_path_confined:
  "\<exists>ns. ns \<noteq> [] \<and> list_all plain_name ns \<and> test_path t a = join ''/'' ns"
proof -
  let ?stem = "stem_of (tg_path t)" and ?i = "short_id t"
  have frag: "CHR ''/'' \<notin> set ?stem" "CHR ''/'' \<notin> set ?i" by (simp_all add: stem_of_def short_id_def fragment_no_slash)
  have ext: "CHR ''/'' \<notin> set (ts_test_ext (tg_path t))" using ts_ext_cases [of "tg_path t"] by auto
  have rust: "list_all plain_name [''tests'', ''jitgen_'' @ ?stem @ ''_'' @ ?i @ ''.rs'']"
    and generic: "list_all plain_name [''jitgen-tests'', ?stem @ ''_'' @ ?i @ ''.test.txt'']"
    and python: "plain_name (''test_'' @ ?stem @ ''_jitgen_'' @ ?i @ ''.py'')"
    and ts: "plain_name (?stem @ ''.jitgen.'' @ ?i @ ''.test.'' @ ts_test_ext (tg_path t))"
    using frag ext by (auto simp: plain_name_def append_eq_Cons_conv)
  have joined: "\<exists>ns. ns \<noteq> [] \<and> list_all plain_name ns \<and> d @ ''/'' @ n = join ''/'' ns" if "list_all plain_name [d, n]" for d n
    using that by (intro exI [of _ "[d, n]"]) simp
  consider "a = ''rust''" | "a = ''python''" | "a = ''java''" | "a = ''typescript''"
    | "a \<noteq> ''rust''" "a \<noteq> ''python''" "a \<noteq> ''java''" "a \<noteq> ''typescript''" by blast
  then show ?thesis
  proof cases
    case 1
    then show ?thesis using joined [OF rust] by (simp add: test_path_def)
  next
    case 2
    then show ?thesis using with_dir_confined [OF python] by (simp add: test_path_def)
  next
    case 3
    then show ?thesis
      using java_test_path_confined [of "tg_path t"] by (simp add: test_path_def stem_of_def short_id_def)
  next
    case 4
    then show ?thesis using with_dir_confined [OF ts] by (simp add: test_path_def)
  next
    case 5
    then show ?thesis using joined [OF generic] by (simp add: test_path_def)
  qed
qed

section \<open>Distinct paths\<close>

lemma last_sep_unique:
  assumes "a @ d # x = b @ d # y" "d \<notin> set x" "d \<notin> set y"
  shows "a = b \<and> x = y"
proof -
  have "takeWhile (\<lambda>c. c \<noteq> d) (rev (u @ d # z)) = rev z" if "d \<notin> set z" for u z :: "'a list"
    using that by (simp add: takeWhile_append takeWhile_tail)
  from this [OF assms(2), of a] this [OF assms(3), of b] assms(1) have "x = y" by (metis rev_is_rev_conv)
  then show ?thesis using assms(1) by simp
qed

text \<open>A number after a letter at the end of a string is determined by the string.\<close>

lemma number_unique:
  assumes "a @ c # show_nat i = b @ c # show_nat j" "\<not> ascii_digit c"
  shows "i = j"
proof -
  have "c \<notin> set (show_nat n)" for n using show_nat_digits [of n] assms(2) by (auto simp: list_all_iff)
  then show ?thesis using last_sep_unique [OF assms(1)] by (simp add: show_nat_inject)
qed

text \<open>What the path of every convention ends in: a letter, the number and the suffix.\<close>

definition path_suffix :: "str \<Rightarrow> adapter_id \<Rightarrow> char \<times> str" where
  "path_suffix p a =
     (if a = ''rust'' then (CHR ''t'', ''.rs'')
      else if a = ''python'' then (CHR ''t'', ''.py'')
      else if a = ''java'' then (CHR ''T'', ''Test.java'')
      else if a = ''typescript'' then (CHR ''t'', ''.test.'' @ ts_test_ext p)
      else (CHR ''t'', ''.test.txt''))"

lemma capitalize_numbered: "capitalize (''t'' @ show_nat i) = ''T'' @ show_nat i"
proof -
  have "chars (''t'' @ show_nat i) = ''t'' # map (\<lambda>c. [c]) (show_nat i)"
    using chars_ascii [of "''t'' @ show_nat i"] ascii_show_nat [of i] by (simp add: ascii_def)
  moreover have "to_upper (CHR ''t'') = CHR ''T''" by code_simp
  ultimately show ?thesis by (simp add: capitalize_def)
qed

lemma java_path_ends:
  "\<exists>pre. java_test_path p s (''t'' @ show_nat i) = pre @ ''T'' @ show_nat i @ ''Test.java''"
proof -
  have cls: "java_class s (''t'' @ show_nat i) @ ''.java'' = (capitalize s @ ''Jitgen'') @ ''T'' @ show_nat i @ ''Test.java''"
    unfolding java_class_def capitalize_numbered by simp
  let ?comps = "normals (components p)"
  show ?thesis
  proof (cases "if length ?comps < 4 then None
    else find (\<lambda>k. take 3 (drop k ?comps) = [''src'', ''main'', ''java'']) [0 ..< length ?comps - 2]")
    case None
    then have "java_test_path p s (''t'' @ show_nat i) = ''src/test/java/'' @ java_class s (''t'' @ show_nat i) @ ''.java''"
      unfolding java_test_path_def Let_def by (simp only: option.case)
    then show ?thesis
      by (intro exI [of _ "''src/test/java/'' @ capitalize s @ ''Jitgen''"]) (simp only: cls append.assoc)
  next
    case (Some k)
    then have "java_test_path p s (''t'' @ show_nat i)
      = join ''/'' ((take k ?comps @ [''src'', ''test'', ''java''] @ take (length ?comps - 1 - (k + 3)) (drop (k + 3) ?comps))
          @ [java_class s (''t'' @ show_nat i) @ ''.java''])"
      unfolding java_test_path_def Let_def by (simp only: option.case append.assoc)
    moreover obtain pre where "join ''/'' ((take k ?comps @ [''src'', ''test'', ''java'']
        @ take (length ?comps - 1 - (k + 3)) (drop (k + 3) ?comps)) @ [java_class s (''t'' @ show_nat i) @ ''.java''])
      = pre @ java_class s (''t'' @ show_nat i) @ ''.java''"
      using join_snoc by blast
    ultimately show ?thesis by (intro exI [of _ "pre @ capitalize s @ ''Jitgen''"]) (simp only: cls append.assoc)
  qed
qed

lemma test_path_ends:
  assumes "short_id t = ''t'' @ show_nat i"
  shows "\<exists>pre. test_path t a = pre @ fst (path_suffix (tg_path t) a) # show_nat i @ snd (path_suffix (tg_path t) a)"
proof -
  have dir: "\<exists>pre. with_dir d (u @ x) = pre @ x" for d u x
    by (intro exI [of _ "if d = [] then u else d @ ''/'' @ u"]) (simp add: with_dir_def)
  consider "a = ''rust''" | "a = ''python''" | "a = ''java''" | "a = ''typescript''"
    | "a \<noteq> ''rust''" "a \<noteq> ''python''" "a \<noteq> ''java''" "a \<noteq> ''typescript''" by blast
  then show ?thesis
  proof cases
    case 1
    then show ?thesis by (intro exI [of _ "''tests/jitgen_'' @ stem_of (tg_path t) @ ''_''"]) (simp add: test_path_def path_suffix_def assms)
  next
    case 2
    then show ?thesis
      using dir [of "dir_of (tg_path t)" "''test_'' @ stem_of (tg_path t) @ ''_jitgen_''" "''t'' @ show_nat i @ ''.py''"]
      by (simp add: test_path_def path_suffix_def assms)
  next
    case 3
    then show ?thesis using java_path_ends [of "tg_path t" "stem_of (tg_path t)" i] by (simp add: test_path_def path_suffix_def assms)
  next
    case 4
    then show ?thesis
      using dir [of "dir_of (tg_path t)" "stem_of (tg_path t) @ ''.jitgen.''"
          "''t'' @ show_nat i @ ''.test.'' @ ts_test_ext (tg_path t)"]
      by (simp add: test_path_def path_suffix_def assms)
  next
    case 5
    then show ?thesis by (intro exI [of _ "''jitgen-tests/'' @ stem_of (tg_path t) @ ''_''"]) (simp add: test_path_def path_suffix_def assms)
  qed
qed

text \<open>
  A generated test has a safe file of its own. For every target and adapter the derived path is
  a list of ordinary names joined by separators, with no root, no \<open>.\<close> and no \<open>..\<close>; and targets
  that the registry numbered differently get different paths under the same adapter, whatever their
  source paths are.
\<close>

theorem test_path_safe_distinct:
  "(\<exists>ns. ns \<noteq> [] \<and> components (test_path t a) = map Normal ns)
    \<and> (\<forall>(u :: target) i j. tg_id t = ''t'' @ show_nat i \<and> tg_id u = ''t'' @ show_nat j \<and> i < j \<and> j < 2 ^ 64
         \<longrightarrow> test_path t a \<noteq> test_path u a)"
proof (intro conjI allI impI)
  show "\<exists>ns. ns \<noteq> [] \<and> components (test_path t a) = map Normal ns"
    using test_path_confined [of t a] components_join_plain by metis
next
  fix u :: target and i j
  assume h: "tg_id t = ''t'' @ show_nat i \<and> tg_id u = ''t'' @ show_nat j \<and> i < j \<and> j < 2 ^ 64"
  obtain v where v: "test_path t a = v @ fst (path_suffix (tg_path t) a) # show_nat i @ snd (path_suffix (tg_path t) a)"
    using test_path_ends [OF short_id_numbered, of t i a] h by auto
  obtain w where w: "test_path u a = w @ fst (path_suffix (tg_path u) a) # show_nat j @ snd (path_suffix (tg_path u) a)"
    using test_path_ends [OF short_id_numbered, of u j a] h by auto
  show "test_path t a \<noteq> test_path u a"
  proof
    assume eq: "test_path t a = test_path u a"
    have ts: "ts_test_ext (tg_path t) = ts_test_ext (tg_path u)" if a: "a = ''typescript''"
    proof -
      have dot: "CHR ''.'' \<notin> set (ts_test_ext p)" for p using ts_ext_cases [of p] by auto
      have "(v @ ''t'' @ show_nat i @ ''.test'') @ CHR ''.'' # ts_test_ext (tg_path t)
          = (w @ ''t'' @ show_nat j @ ''.test'') @ CHR ''.'' # ts_test_ext (tg_path u)"
        using eq unfolding v w by (simp add: a path_suffix_def)
      from last_sep_unique [OF this dot dot] show ?thesis by simp
    qed
    then have "path_suffix (tg_path t) a = path_suffix (tg_path u) a" unfolding path_suffix_def by simp
    then have "v @ fst (path_suffix (tg_path t) a) # show_nat i = w @ fst (path_suffix (tg_path t) a) # show_nat j"
      using eq unfolding v w by (metis append.assoc append_Cons append_same_eq)
    moreover have "\<not> ascii_digit (fst (path_suffix (tg_path t) a))" by (simp add: ascii_digit_def path_suffix_def)
    ultimately have "i = j" by (rule number_unique)
    then show False using h by simp
  qed
qed

definition placed :: "nat \<Rightarrow> target" where
  "placed n = \<lparr>tg_id = ''t'' @ show_nat n, tg_adapter = ''java'', tg_path = ''m/src/main/java/a/B.java'', tg_symbol = None,
     tg_kind = Hunk, tg_span = \<lparr>lr_start = 1, lr_end = 2\<rparr>, tg_risk = fone\<rparr>"

theorem test_path_safe_distinct_witness:
  "test_path (placed 1) ''java'' \<noteq> test_path (placed 12) ''java''"
proof -
  have "tg_id (placed 1) = ''t'' @ show_nat 1 \<and> tg_id (placed 12) = ''t'' @ show_nat 12 \<and> (1::nat) < 12 \<and> (12::nat) < 2 ^ 64"
    by (simp add: placed_def)
  with conjunct2 [OF test_path_safe_distinct [of "placed 1" "''java''"]] show ?thesis by blast
qed

end
