(* ===== verification/Process.thy ===== *)
theory Process
  imports Strategies Report Gate Adapters TargetSel Placement
begin

text \<open>
  One target's pipeline, \<open>jitgen-orchestrator/src/process.rs\<close>, with the context it is given,
  \<open>context.rs\<close>, and the patch its accepted tests leave in, \<open>jitgen-report/src/exporters/patch.rs\<close>.
  The provider and the executor are parameters as in the crates below; the collaborators of one
  target form a record as in the code.
\<close>

section \<open>The context of a target\<close>

fun change_debug :: "change_kind \<Rightarrow> str" where
  "change_debug Added = ''Added''"
| "change_debug Modified = ''Modified''"
| "change_debug Deleted = ''Deleted''"
| "change_debug Renamed = ''Renamed''"

definition show_u32 :: "u32 \<Rightarrow> str" where
  "show_u32 n = show_nat (unat n)"

definition diff_summary :: "target \<Rightarrow> change_set \<Rightarrow> str" where
  "diff_summary t changes =
     ''Change under test: '' @ tg_path t @ [LF]
     @ concat (map (\<lambda>f.
         if fc_path f = tg_path t then
           (let ranges = map (\<lambda>h. show_u32 (lr_start h) @ ''-'' @ show_u32 (lr_end h)) (fc_hunks f) in
            ''  '' @ change_debug (fc_kind f) @ '' '' @ fc_path f
            @ (case fc_old_path f of Some old \<Rightarrow> '' (was '' @ old @ '')'' | None \<Rightarrow> [])
            @ (if ranges \<noteq> [] then ''  changed lines: '' @ join '', '' ranges else [])
            @ [LF])
         else []) (cs_files changes))"

definition build_context ::
  "regex_engine \<Rightarrow> repo_snapshot \<Rightarrow> target \<Rightarrow> change_set \<Rightarrow> run_mode \<Rightarrow> context_budget \<Rightarrow> context_bundle" where
  "build_context rx snapshot t changes mode budget =
     (let b = builder_new budget;
          b = (case sn_read_text snapshot (tg_path t) of
                 Some content \<Rightarrow> snd (builder_add rx ChangedCode (Some (tg_path t)) content b)
               | None \<Rightarrow> b);
          b = (case tg_symbol t of
                 Some name \<Rightarrow> snd (builder_add rx Signature (Some (tg_path t))
                   (''target symbol: '' @ name @ '' ('' @ kind_debug (tg_kind t) @ '') at '' @ tg_path t @ '':''
                    @ show_u32 (lr_start (tg_span t)) @ ''-'' @ show_u32 (lr_end (tg_span t))) b)
               | None \<Rightarrow> b);
          b = (if mode = Catch then snd (builder_add rx DiffSummary None (diff_summary t changes) b) else b)
      in builder_build (tg_id t) b)"

section \<open>The pipeline of a target\<close>

record run_config =
  cf_mode :: run_mode
  cf_strategy :: strategy
  cf_strategy_cfg :: strategy_config
  cf_repair_cfg :: repair_config
  cf_flake_cfg :: flake_config
  cf_assess_cfg :: assess_config
  cf_real_llm :: bool
  cf_surface_evidence :: bool

definition default_run_config :: run_config where
  "default_run_config = \<lparr>cf_mode = Harden, cf_strategy = Auto, cf_strategy_cfg = default_strategy,
     cf_repair_cfg = default_repair, cf_flake_cfg = default_flake, cf_assess_cfg = default_assess,
     cf_real_llm = False, cf_surface_evidence = False\<rparr>"

record target_outcome =
  to_accepted :: "accepted_test list"
  to_catches :: "catch_report list"
  to_rejected :: "rejected_candidate list"
  to_candidates_generated :: nat

definition default_outcome :: target_outcome where
  "default_outcome = \<lparr>to_accepted = [], to_catches = [], to_rejected = [], to_candidates_generated = 0\<rparr>"

record 'w pipeline =
  pl_provider :: "'w provider"
  pl_executor :: "'w executor"
  pl_rt :: ranked_target
  pl_context :: context_bundle
  pl_prompt_hints :: "str list"
  pl_cfg :: run_config

definition MAX_EVIDENCE_OUTPUT :: nat where "MAX_EVIDENCE_OUTPUT = 4096"

definition evidence_output :: "regex_engine \<Rightarrow> execution_result \<Rightarrow> str" where
  "evidence_output rx r =
     (let combined = (case (trim (er_stdout r) = [], trim (er_stderr r) = []) of
                        (False, False) \<Rightarrow> er_stdout r @ [LF] @ er_stderr r
                      | (True, False) \<Rightarrow> er_stderr r
                      | (False, True) \<Rightarrow> er_stdout r
                      | (True, True) \<Rightarrow> er_stdout r)
      in sanitize (rd_text (redact rx combined)) MAX_EVIDENCE_OUTPUT)"

definition catch_evidence_of :: "regex_engine \<Rightarrow> catch_execution \<Rightarrow> catch_evidence" where
  "catch_evidence_of rx e =
     \<lparr>ce_base_exit_code = er_exit_code (ce_base e), ce_head_exit_code = er_exit_code (ce_head e),
      ce_base_output = evidence_output rx (ce_base e), ce_head_output = evidence_output rx (ce_head e)\<rparr>"

definition build_template ::
  "regex_engine \<Rightarrow> context_bundle \<Rightarrow> run_config \<Rightarrow> str \<Rightarrow> str option \<Rightarrow> str list \<Rightarrow> llm_request" where
  "build_template rx ctx cfg language symbol hints =
     (let s = resolve (cf_strategy cfg) (cf_mode cfg) in
      \<lparr>rq_prompt = render_prompt rx ctx (cf_mode cfg) s language hints, rq_mode = cf_mode cfg, rq_strategy = s,
       rq_language = language, rq_symbol = symbol, rq_attempt = 0, rq_repair_feedback = None\<rparr>)"

definition report_path :: "regex_engine \<Rightarrow> str \<Rightarrow> str" where
  "report_path rx p = rd_text (redact rx p)"

definition path_is_landable :: "str \<Rightarrow> bool" where
  "path_is_landable p \<longleftrightarrow> strip_controls p = p \<and> LF \<notin> set p \<and> TAB \<notin> set p \<and> \<not> starts_with p ''/''"

definition BACKQUOTE :: str where "BACKQUOTE = [CHR 0x60]"

definition reproduction :: "str \<Rightarrow> str \<Rightarrow> str" where
  "reproduction language rel_path =
     ''Apply the test file '' @ BACKQUOTE @ rel_path @ BACKQUOTE @ '' into the repository and run the '' @ language
     @ '' test suite (jitgen ran it in a no-network sandbox against the head revision).''"

definition reject ::
  "regex_engine \<Rightarrow> ranked_target \<Rightarrow> str \<Rightarrow> str \<Rightarrow> catch_class option \<Rightarrow> rejected_candidate" where
  "reject rx rt p reason cls =
     \<lparr>rj_target = tg_id (rt_target rt), rj_path = report_path rx p, rj_reason = rd_text (redact rx reason), rj_class = cls\<rparr>"

definition accept_landable :: "regex_engine \<Rightarrow> ranked_target \<Rightarrow> test_candidate \<Rightarrow> str \<Rightarrow> str + accepted_test" where
  "accept_landable rx rt c language =
     (if trim (tc_source c) = [] then Err ''generated test source is empty; refusing to land it''
      else if rd_redacted (redact rx (tc_source c))
      then Err ''generated test source contains a secret-shaped token; refusing to land it''
      else if rd_redacted (redact rx (tc_rel_path c))
      then Err ''generated test path contains a secret-shaped token; refusing to land it''
      else if strip_controls (tc_source c) \<noteq> tc_source c
      then Err ''generated test source contains control characters; refusing to land it''
      else if \<not> path_is_landable (tc_rel_path c)
      then Err ''generated test path contains control characters; refusing to land it''
      else Ok \<lparr>at_target = tg_id (rt_target rt),
               at_symbol = map_option (\<lambda>s. rd_text (redact rx s)) (tg_symbol (rt_target rt)),
               at_language = language, at_path = tc_rel_path c, at_source = tc_source c, at_class = HardenPass,
               at_reproduction = rd_text (redact rx (reproduction language (tc_rel_path c)))\<rparr>)"

definition push_rejected :: "rejected_candidate \<Rightarrow> target_outcome \<Rightarrow> target_outcome" where
  "push_rejected r out = out\<lparr>to_rejected := to_rejected out @ [r]\<rparr>"

definition report_assessed_catch ::
  "regex_engine \<Rightarrow> json_parser \<Rightarrow> 'w pipeline \<Rightarrow> test_candidate \<Rightarrow> catch_execution \<Rightarrow> mutant_info option
    \<Rightarrow> target_outcome \<Rightarrow> 'w \<Rightarrow> target_outcome \<times> 'w" where
  "report_assessed_catch rx js pl c e mut out w =
     (let t = rt_target (pl_rt pl);
          (assessment, w) = assess rx js e True (Some (pl_context pl))
            (if cf_real_llm (pl_cfg pl) then Some (pl_provider pl) else None) (cf_assess_cfg (pl_cfg pl)) w
      in (out\<lparr>to_catches := to_catches out @ [from_assessment (tg_id t) (tg_adapter t)
             (report_path rx (tc_rel_path c)) (rd_text (redact rx (tc_source c))) assessment mut
             (Some (report_path rx (tg_path t))) (Some (lr_start (tg_span t)))
             (rd_text (redact rx (reproduction (tg_adapter t) (tc_rel_path c))))
             (if cf_surface_evidence (pl_cfg pl) then Some (catch_evidence_of rx e) else None)]\<rparr>, w))"

text \<open>One more paired run and the assessment of what it shows.\<close>

definition confirm_catch ::
  "regex_engine \<Rightarrow> json_parser \<Rightarrow> 'w pipeline \<Rightarrow> test_candidate \<Rightarrow> mutant_info option
    \<Rightarrow> target_outcome \<Rightarrow> 'w \<Rightarrow> (orch_error + target_outcome) \<times> 'w" where
  "confirm_catch rx js pl c mut out w =
     (case run_candidate (pl_executor pl) c Base w of
        (Err e, w) \<Rightarrow> (Err (OrExec e), w)
      | (Ok b, w) \<Rightarrow>
          (case run_candidate (pl_executor pl) c Head w of
             (Err e, w) \<Rightarrow> (Err (OrExec e), w)
           | (Ok h, w) \<Rightarrow>
               let (out, w) = report_assessed_catch rx js pl c \<lparr>ce_base = b, ce_head = h\<rparr> mut out w in (Ok out, w)))"

definition classify_stable ::
  "regex_engine \<Rightarrow> json_parser \<Rightarrow> 'w pipeline \<Rightarrow> test_candidate \<Rightarrow> str \<Rightarrow> catch_class
    \<Rightarrow> target_outcome \<Rightarrow> 'w \<Rightarrow> (orch_error + target_outcome) \<times> 'w" where
  "classify_stable rx js pl c p cls out w =
     (if cf_mode (pl_cfg pl) = Harden \<and> cls = HardenPass then
        (case accept_landable rx (pl_rt pl) c (tg_adapter (rt_target (pl_rt pl))) of
           Ok t \<Rightarrow> (Ok (out\<lparr>to_accepted := to_accepted out @ [t]\<rparr>), w)
         | Err reason \<Rightarrow> (Ok (push_rejected (reject rx (pl_rt pl) p reason (Some HardenPass)) out), w))
      else if cf_mode (pl_cfg pl) = Catch \<and> cls = WeakCatch then confirm_catch rx js pl c None out w
      else (Ok (push_rejected (reject rx (pl_rt pl) p ''did not reach the goal class'' (Some cls)) out), w))"

definition flake_check ::
  "'w pipeline \<Rightarrow> test_candidate \<Rightarrow> 'w \<Rightarrow> (feedback_error + flake_report) \<times> 'w" where
  "flake_check pl c =
     (case cf_mode (pl_cfg pl) of
        Harden \<Rightarrow> flake_filter_single (pl_executor pl) c Head (cf_flake_cfg (pl_cfg pl))
      | Catch \<Rightarrow> flake_filter_catch (pl_executor pl) c (cf_flake_cfg (pl_cfg pl)))"

definition repair_reason :: "repair_outcome \<Rightarrow> str" where
  "repair_reason o' = (if o' = Exhausted then ''repair budget exhausted before reaching goal''
     else ''failed static validation (dangerous construct)'')"

definition process_candidate ::
  "regex_engine \<Rightarrow> json_parser \<Rightarrow> 'w pipeline \<Rightarrow> test_candidate
    \<Rightarrow> target_outcome \<Rightarrow> 'w \<Rightarrow> (orch_error + target_outcome) \<times> 'w" where
  "process_candidate rx js pl initial out w =
     (let t = rt_target (pl_rt pl); cfg = pl_cfg pl;
          template = build_template rx (pl_context pl) cfg (tg_adapter t) (tg_symbol t) (pl_prompt_hints pl) in
      (case repair_loop rx (pl_provider pl) (pl_executor pl) initial template (cf_mode cfg) (cf_repair_cfg cfg) w of
         (Err e, w) \<Rightarrow> (Err (OrFeedback e), w)
       | (Ok report, w) \<Rightarrow>
           let c = rp_candidate report; p = tc_rel_path c in
           if rp_outcome report \<noteq> Accepted
           then (Ok (push_rejected (reject rx (pl_rt pl) p (repair_reason (rp_outcome report))
                   (Some (classified_result.cr_class (rp_classified report)))) out), w)
           else (case flake_check pl c w of
                   (Err e, w) \<Rightarrow> (Err (OrFeedback e), w)
                 | (Ok flakes, w) \<Rightarrow>
                     if \<not> fr_stable flakes
                     then (Ok (push_rejected (reject rx (pl_rt pl) p ''flaky (nondeterministic across reruns)'' (Some Flaky)) out), w)
                     else classify_stable rx js pl c p (flake_class flakes) out w)))"

definition process_harvested ::
  "regex_engine \<Rightarrow> json_parser \<Rightarrow> 'w pipeline \<Rightarrow> harvested_catch
    \<Rightarrow> target_outcome \<Rightarrow> 'w \<Rightarrow> (orch_error + target_outcome) \<times> 'w" where
  "process_harvested rx js pl hc out w =
     (let c = hc_candidate hc; p = tc_rel_path c in
      if hc_class hc \<noteq> WeakCatch
      then (Ok (push_rejected (reject rx (pl_rt pl) p ''replay was not a weak catch'' (Some (hc_class hc))) out), w)
      else (case flake_filter_catch (pl_executor pl) c (cf_flake_cfg (pl_cfg pl)) w of
              (Err e, w) \<Rightarrow> (Err (OrFeedback e), w)
            | (Ok flakes, w) \<Rightarrow>
                if \<not> (fr_stable flakes \<and> flake_class flakes = WeakCatch)
                then (Ok (push_rejected (reject rx (pl_rt pl) p ''did not stably reproduce as a weak catch across reruns''
                        (Some (if fr_stable flakes then flake_class flakes else Flaky))) out), w)
                else confirm_catch rx js pl c
                       (Some \<lparr>mi_id = mu_id (hc_mutant hc), mi_risk_description = rd_text (redact rx (mu_risk (hc_mutant hc))),
                              mi_path = rd_text (redact rx (mu_path (hc_mutant hc)))\<rparr>) out w))"

text \<open>A loop whose body may fail.\<close>

fun try_fold :: "('a \<Rightarrow> 's \<Rightarrow> 'w \<Rightarrow> ('e + 's) \<times> 'w) \<Rightarrow> 'a list \<Rightarrow> 's \<Rightarrow> 'w \<Rightarrow> ('e + 's) \<times> 'w" where
  "try_fold f [] s w = (Ok s, w)"
| "try_fold f (x # xs) s w = (case f x s w of (Err e, w) \<Rightarrow> (Err e, w) | (Ok s, w) \<Rightarrow> try_fold f xs s w)"

definition process_target ::
  "regex_engine \<Rightarrow> json_parser \<Rightarrow> 'w provider \<Rightarrow> 'w executor \<Rightarrow> ranked_target \<Rightarrow> context_bundle \<Rightarrow> str list \<Rightarrow> run_config
    \<Rightarrow> 'w \<Rightarrow> (orch_error + target_outcome) \<times> 'w" where
  "process_target rx js provider ex rt ctx hints cfg w =
     (let t = rt_target rt;
          gt = \<lparr>gt_language = tg_adapter t, gt_symbol = tg_symbol t, gt_rel_path = test_path t (tg_adapter t)\<rparr>;
          pl = \<lparr>pl_provider = provider, pl_executor = ex, pl_rt = rt, pl_context = ctx, pl_prompt_hints = hints, pl_cfg = cfg\<rparr> in
      (case generate_candidates rx provider ex ctx gt (cf_strategy cfg) (cf_mode cfg) (cf_strategy_cfg cfg) w of
         (Err e, w) \<Rightarrow> (Err (OrFeedback e), w)
       | (Ok g, w) \<Rightarrow>
           let out = default_outcome\<lparr>to_candidates_generated := length (go_candidates g) + length (go_catches g)\<rparr> in
           (case try_fold (process_candidate rx js pl) (go_candidates g) out w of
              (Err e, w) \<Rightarrow> (Err e, w)
            | (Ok out, w) \<Rightarrow> try_fold (process_harvested rx js pl) (go_catches g) out w)))"

section \<open>The patch\<close>

definition sanitize_path :: "str \<Rightarrow> str" where
  "sanitize_path p = dropWhile (\<lambda>c. c = CHR ''/'') (filter (\<lambda>c. c \<noteq> LF) (strip_controls p))"

definition file_addition :: "accepted_test \<Rightarrow> str" where
  "file_addition t =
     (let path = sanitize_path (at_path t); body = strip_controls (at_source t);
          out = ''diff --git a/'' @ path @ '' b/'' @ path @ [LF] @ ''new file mode 100644'' @ [LF] in
      if body = []
      then out @ ''index 0000000000000000000000000000000000000000..e69de29bb2d1d6434b8b29ae775ad8c2e48c5391'' @ [LF]
      else
        let ls = split_on LF body; trailing_newline = ends_with body [LF];
            content_lines = (if trailing_newline then take (length ls - 1) ls else ls);
            n = length content_lines in
        out @ ''--- /dev/null'' @ [LF] @ ''+++ b/'' @ path @ [LF]
        @ ''@@ -0,0 +1,'' @ show_nat n @ '' @@'' @ [LF]
        @ concat (map (\<lambda>l. ''+'' @ l @ [LF]) content_lines)
        @ (if \<not> trailing_newline \<and> 0 < n then [CHR 0x5C] @ '' No newline at end of file'' @ [LF] else []))"

definition patch_render :: "run_report \<Rightarrow> str" where
  "patch_render report =
     (if rr_mode report = Catch
      then ''# jitgen: catch mode is report-only '' @ [CHR 0xE2, CHR 0x80, CHR 0x94]
        @ '' catching tests fail by design and cannot land, so no patch is emitted. Use --format markdown|json|sarif|junit for the catch report.'' @ [LF]
      else if rr_accepted report = [] then ''# jitgen: no tests were accepted; nothing to patch.'' @ [LF]
      else concat (map file_addition (rr_accepted report)))"

section \<open>Reading a patch\<close>

text \<open>
  A reader of patches that only add files: it gives back the files with their contents, or nothing
  when a line is not of the format.
\<close>

fun read_added :: "nat \<Rightarrow> str list \<Rightarrow> (str list \<times> str list) option" where
  "read_added 0 ls = Some ([], ls)"
| "read_added (Suc n) [] = None"
| "read_added (Suc n) (l # ls) =
     (case strip_prefix l ''+'' of
        None \<Rightarrow> None
      | Some body \<Rightarrow> map_option (\<lambda>(bodies, rest). (body # bodies, rest)) (read_added n ls))"

definition added_count :: "str \<Rightarrow> nat option" where
  "added_count h =
     (case strip_prefix h ''@@ -0,0 +1,'' of
        None \<Rightarrow> None
      | Some r \<Rightarrow> if ends_with r '' @@'' then parse_digits (take (length r - 3) r) else None)"

definition NO_NEWLINE :: str where "NO_NEWLINE = [CHR 0x5C] @ '' No newline at end of file''"

definition read_file :: "str list \<Rightarrow> ((str \<times> str) \<times> str list) option" where
  "read_file ls =
     (case ls of
        header # mode # null # name # hunk # rest \<Rightarrow>
          (case (strip_prefix name ''+++ b/'', added_count hunk) of
             (Some path, Some n) \<Rightarrow>
               if header = ''diff --git a/'' @ path @ '' b/'' @ path \<and> mode = ''new file mode 100644'' \<and> null = ''--- /dev/null''
               then (case read_added n rest of
                       Some (bodies, nl # tail) \<Rightarrow>
                         if nl = NO_NEWLINE then Some ((path, join [LF] bodies), tail)
                         else Some ((path, join [LF] bodies @ [LF]), nl # tail)
                     | _ \<Rightarrow> None)
               else None
           | _ \<Rightarrow> None)
      | _ \<Rightarrow> None)"

text \<open>At most \<open>n\<close> files.\<close>

fun read_patch :: "nat \<Rightarrow> str list \<Rightarrow> (str \<times> str) list option" where
  "read_patch n ls =
     (if ls = [[]] then Some []
      else (case n of
              0 \<Rightarrow> None
            | Suc m \<Rightarrow>
                (case read_file ls of
                   None \<Rightarrow> None
                 | Some (f, rest) \<Rightarrow> map_option (\<lambda>fs. f # fs) (read_patch m rest))))"

declare read_patch.simps [simp del]

definition lands :: "accepted_test \<Rightarrow> bool" where
  "lands t \<longleftrightarrow> at_source t \<noteq> [] \<and> strip_controls (at_source t) = at_source t \<and> path_is_landable (at_path t)"

lemma accept_landable_lands: "accept_landable rx rt c l = Ok t \<Longrightarrow> lands t"
  by (auto simp: accept_landable_def lands_def trim_def trim_start_def trim_end_def split: if_splits)

lemma sanitize_path_id: "path_is_landable p \<Longrightarrow> sanitize_path p = p"
proof -
  assume p: "path_is_landable p"
  have "filter (\<lambda>c. c \<noteq> LF) p = p" using p by (auto simp: path_is_landable_def filter_id_conv)
  moreover have "dropWhile (\<lambda>c. c = CHR ''/'') p = p"
    using p by (cases p) (auto simp: path_is_landable_def starts_with_def)
  ultimately show ?thesis using p by (simp add: sanitize_path_def path_is_landable_def)
qed

text \<open>The lines of an addition.\<close>

definition content_lines :: "str \<Rightarrow> str list" where
  "content_lines body = (if ends_with body [LF] then take (length (split_on LF body) - 1) (split_on LF body) else split_on LF body)"

definition addition_lines :: "str \<Rightarrow> str \<Rightarrow> str list" where
  "addition_lines path body =
     [''diff --git a/'' @ path @ '' b/'' @ path, ''new file mode 100644'', ''--- /dev/null'', ''+++ b/'' @ path,
      ''@@ -0,0 +1,'' @ show_nat (length (content_lines body)) @ '' @@'']
     @ map (\<lambda>l. ''+'' @ l) (content_lines body) @ (if ends_with body [LF] then [] else [NO_NEWLINE])"

lemma content_lines_nonempty: "body \<noteq> [] \<Longrightarrow> content_lines body \<noteq> []"
proof -
  assume body: "body \<noteq> []"
  show ?thesis
  proof (cases "ends_with body [LF]")
    case True
    then obtain b where b: "body = b @ [LF]" by (auto simp: ends_with_suffix suffix_def)
    have "split_on LF body = split_on LF b @ [[]]" using split_on_app [of LF b "[]"] b by simp
    then show ?thesis using True by (simp add: content_lines_def)
  qed (simp add: content_lines_def)
qed

lemma content_lines_join:
  "join [LF] (content_lines body) @ (if ends_with body [LF] then [LF] else []) = body"
proof (cases "ends_with body [LF]")
  case True
  then obtain b where b: "body = b @ [LF]" by (auto simp: ends_with_suffix suffix_def)
  have "split_on LF body = split_on LF b @ [[]]" using split_on_app [of LF b "[]"] b by simp
  then have "content_lines body = split_on LF b" using True by (simp add: content_lines_def)
  then show ?thesis using True b join_split_on [of LF b] by simp
qed (simp add: content_lines_def join_split_on)

lemma content_lines_LF: "list_all (\<lambda>l. LF \<notin> set l) (content_lines body)"
  using split_on_elem [of _ LF body] by (auto simp: content_lines_def list_all_iff dest!: in_set_takeD)

lemma file_addition_lines:
  assumes "lands t"
  shows "file_addition t = concat (map (\<lambda>l. l @ [LF]) (addition_lines (at_path t) (at_source t)))"
proof -
  have "content_lines (at_source t) \<noteq> []" using assms content_lines_nonempty by (simp add: lands_def)
  then show ?thesis
    using assms sanitize_path_id [of "at_path t"]
    by (simp add: file_addition_def addition_lines_def lands_def Let_def NO_NEWLINE_def comp_def
        flip: content_lines_def)
qed

lemma addition_lines_LF:
  assumes "lands t"
  shows "list_all (\<lambda>l. LF \<notin> set l) (addition_lines (at_path t) (at_source t))"
proof -
  have "LF \<notin> set (show_nat n)" for n using show_nat_set [of LF n] by (auto simp: LF_def)
  moreover have "LF \<notin> set NO_NEWLINE" by (simp add: NO_NEWLINE_def LF_def)
  ultimately show ?thesis
    using assms content_lines_LF [of "at_source t"]
    by (auto simp: addition_lines_def lands_def path_is_landable_def list_all_iff LF_def)
qed

lemma split_terminated:
  "list_all (\<lambda>l. LF \<notin> set l) ls \<Longrightarrow> split_on LF (concat (map (\<lambda>l. l @ [LF]) ls) @ s) = ls @ split_on LF s"
  by (induction ls) (simp_all add: split_on_app split_on_no_sep)

lemma read_added_map: "read_added (length bs) (map (\<lambda>l. ''+'' @ l) bs @ rest) = Some (bs, rest)"
  by (induction bs) (simp_all add: strip_prefix_def starts_with_def)

lemma added_count_show: "added_count (''@@ -0,0 +1,'' @ show_nat n @ '' @@'') = Some n"
proof -
  have "strip_prefix (''@@ -0,0 +1,'' @ show_nat n @ '' @@'') ''@@ -0,0 +1,'' = Some (show_nat n @ '' @@'')"
    by (simp only: strip_prefix_Some)
  moreover have "ends_with (show_nat n @ '' @@'') '' @@''" unfolding ends_with_suffix by (rule suffixI [OF refl])
  ultimately show ?thesis by (simp add: added_count_def parse_digits_show_nat)
qed

lemma read_file_step:
  assumes "strip_prefix nm ''+++ b/'' = Some path" "added_count hk = Some n" "read_added n rest = Some (bodies, nl # tl')"
  shows "read_file ([''diff --git a/'' @ path @ '' b/'' @ path, ''new file mode 100644'', ''--- /dev/null'', nm, hk] @ rest)
    = Some (if nl = NO_NEWLINE then ((path, join [LF] bodies), tl') else ((path, join [LF] bodies @ [LF]), nl # tl'))"
  by (simp add: read_file_def assms)

lemma read_file_addition:
  assumes "r \<noteq> NO_NEWLINE"
  shows "read_file (addition_lines path body @ r # rs) = Some ((path, body), r # rs)"
proof -
  have plus: "strip_prefix (''+++ b/'' @ path) ''+++ b/'' = Some path" by (simp only: strip_prefix_Some)
  have lines: "addition_lines path body @ r # rs =
      [''diff --git a/'' @ path @ '' b/'' @ path, ''new file mode 100644'', ''--- /dev/null'', ''+++ b/'' @ path,
       ''@@ -0,0 +1,'' @ show_nat (length (content_lines body)) @ '' @@'']
      @ map (\<lambda>l. ''+'' @ l) (content_lines body) @ (if ends_with body [LF] then [] else [NO_NEWLINE]) @ r # rs"
    by (simp only: addition_lines_def append_assoc)
  show ?thesis
  proof (cases "ends_with body [LF]")
    case True
    have "read_added (length (content_lines body)) (map (\<lambda>l. ''+'' @ l) (content_lines body) @ [] @ r # rs) = Some (content_lines body, r # rs)"
      by (simp only: read_added_map append_Nil)
    from read_file_step [OF plus added_count_show this] show ?thesis
      using content_lines_join [of body] assms True by (simp only: lines if_True if_False append_Nil2)
  next
    case False
    have "read_added (length (content_lines body)) (map (\<lambda>l. ''+'' @ l) (content_lines body) @ [NO_NEWLINE] @ r # rs)
        = Some (content_lines body, NO_NEWLINE # r # rs)"
      using read_added_map [of "content_lines body" "[NO_NEWLINE] @ r # rs"] by (simp only: append_Cons append_Nil)
    from read_file_step [OF plus added_count_show this] show ?thesis
      using content_lines_join [of body] False by (simp only: lines if_True if_False) simp
  qed
qed

lemma read_patch_additions:
  assumes "list_all lands ts" "length ts \<le> n"
  shows "read_patch n (split_on LF (concat (map file_addition ts))) = Some (map (\<lambda>t. (at_path t, at_source t)) ts)"
  using assms
proof (induction ts arbitrary: n)
  case Nil
  then show ?case by (subst read_patch.simps) simp
next
  case (Cons t ts)
  then obtain m where m: "n = Suc m" "length ts \<le> m" by (cases n) auto
  let ?rest = "split_on LF (concat (map file_addition ts))"
  have "split_on LF (concat (map file_addition (t # ts))) = addition_lines (at_path t) (at_source t) @ ?rest"
    using Cons.prems file_addition_lines [of t] split_terminated [OF addition_lines_LF, of t] by simp
  moreover have "?rest \<noteq> [] \<and> hd ?rest \<noteq> NO_NEWLINE"
  proof (cases ts)
    case Nil
    then show ?thesis by (simp add: NO_NEWLINE_def)
  next
    case (Cons u us)
    then have "?rest = addition_lines (at_path u) (at_source u) @ split_on LF (concat (map file_addition us))"
      using Cons.prems file_addition_lines [of u] split_terminated [OF addition_lines_LF, of u] by simp
    then show ?thesis by (simp add: addition_lines_def NO_NEWLINE_def)
  qed
  ultimately obtain r rs where rest: "?rest = r # rs" "r \<noteq> NO_NEWLINE"
    "split_on LF (concat (map file_addition (t # ts))) = addition_lines (at_path t) (at_source t) @ r # rs"
    by (metis list.collapse)
  have "addition_lines (at_path t) (at_source t) @ r # rs \<noteq> [[]]" by (simp add: addition_lines_def)
  then show ?case
    using Cons.IH [of m] Cons.prems m(2) rest(1)
    unfolding rest(3) by (subst read_patch.simps) (simp add: m read_file_addition [OF rest(2)])
qed

section \<open>What an outcome rests on\<close>

definition logged_pipeline ::
  "'w provider \<Rightarrow> 'w executor \<Rightarrow> ranked_target \<Rightarrow> context_bundle \<Rightarrow> str list \<Rightarrow> run_config \<Rightarrow> ('w \<times> call list) pipeline" where
  "logged_pipeline p ex rt ctx hints cfg =
     \<lparr>pl_provider = logged_provider p, pl_executor = logged_executor ex, pl_rt = rt, pl_context = ctx,
      pl_prompt_hints = hints, pl_cfg = cfg\<rparr>"

text \<open>
  An accepted test is a validated candidate that lands, at the target's own path, and the log holds
  an uninterrupted series of its runs on the head, one more than the reruns asked for, all passing.
\<close>

definition accepted_ok ::
  "regex_engine \<Rightarrow> ranked_target \<Rightarrow> run_config \<Rightarrow> call list \<Rightarrow> accepted_test \<Rightarrow> bool" where
  "accepted_ok rx rt cfg calls a \<longleftrightarrow> cf_mode cfg = Harden \<and>
     (\<exists>c rs. accept_landable rx rt c (tg_adapter (rt_target rt)) = Ok a \<and> vr_ok (validate_candidate (tc_source c))
        \<and> tc_rel_path c = test_path (rt_target rt) (tg_adapter (rt_target rt))
        \<and> length rs = unat (fl_reruns (cf_flake_cfg cfg)) + 1 \<and> list_all passed rs
        \<and> sublist (map (\<lambda>r. Ran c Head (Ok r)) rs) calls)"

text \<open>
  A catch is a validated candidate whose paired runs all passed on the base and failed on the head,
  one series for the flake filter and then one more pair, which is the evidence assessed.
\<close>

definition catch_ok ::
  "regex_engine \<Rightarrow> ranked_target \<Rightarrow> run_config \<Rightarrow> call list \<Rightarrow> catch_report \<Rightarrow> bool" where
  "catch_ok rx rt cfg calls k \<longleftrightarrow>
     (\<exists>c es e. cr_target k = tg_id (rt_target rt) \<and> cr_source k = rd_text (redact rx (tc_source c))
        \<and> cr_path k = rd_text (redact rx (tc_rel_path c)) \<and> vr_ok (validate_candidate (tc_source c))
        \<and> length es = unat (fl_reruns (cf_flake_cfg cfg)) + 1 \<and> list_all (\<lambda>e. from_catch e = WeakCatch) es
        \<and> sublist (paired_runs c (es @ [e])) calls
        \<and> (cr_decision k = StrongCatch \<longrightarrow> from_catch e = WeakCatch \<and> list_ex (contains (head_blob e)) ASSERTION_MARKERS)
        \<and> cr_evidence k = (if cf_surface_evidence cfg then Some (catch_evidence_of rx e) else None))"

lemma accepted_ok_mono: "accepted_ok rx rt cfg calls a \<Longrightarrow> sublist calls calls' \<Longrightarrow> accepted_ok rx rt cfg calls' a"
  unfolding accepted_ok_def by (meson sublist_order.order_trans)

lemma catch_ok_mono: "catch_ok rx rt cfg calls k \<Longrightarrow> sublist calls calls' \<Longrightarrow> catch_ok rx rt cfg calls' k"
  unfolding catch_ok_def by (meson sublist_order.order_trans)

text \<open>One candidate ends in exactly one list.\<close>

definition placed_one ::
  "regex_engine \<Rightarrow> ranked_target \<Rightarrow> run_config \<Rightarrow> target_outcome \<Rightarrow> orch_error + target_outcome \<Rightarrow> call list \<Rightarrow> bool" where
  "placed_one rx rt cfg out r calls \<longleftrightarrow> list_all pipeline_call calls \<and> (\<forall>out'. r = Ok out' \<longrightarrow>
     (\<exists>a. accepted_ok rx rt cfg calls a \<and> out' = out\<lparr>to_accepted := to_accepted out @ [a]\<rparr>)
     \<or> (\<exists>k. catch_ok rx rt cfg calls k \<and> out' = out\<lparr>to_catches := to_catches out @ [k]\<rparr>)
     \<or> (\<exists>x. rj_target x = tg_id (rt_target rt) \<and> out' = push_rejected x out))"

lemma placed_rejected:
  "list_all pipeline_call calls \<Longrightarrow> placed_one rx rt cfg out (Ok (push_rejected (reject rx rt p reason cls) out)) calls"
  unfolding placed_one_def by (intro conjI allI impI disjI2 exI [of _ "reject rx rt p reason cls"]) (simp_all add: reject_def)

lemma placed_error: "list_all pipeline_call calls \<Longrightarrow> placed_one rx rt cfg out (Err e) calls"
  by (simp add: placed_one_def)

lemma judge_log:
  "\<exists>w' calls. snd (judge rx js (logged_provider p) ev (w, tr)) = (w', tr @ calls) \<and> list_all pipeline_call calls"
  by (auto simp: judge_def logged_provider_def Let_def split: prod.splits sum.splits option.splits)

lemma spec_assess:
  "spec (assess rx js e True ctx (if b then Some (logged_provider p) else None) cfg)
     (\<lambda>a calls. list_all pipeline_call calls \<and> (wa_decision a = StrongCatch \<longrightarrow>
        from_catch e = WeakCatch \<and> list_ex (contains (head_blob e)) ASSERTION_MARKERS))"
  unfolding spec_def
proof (intro allI)
  fix w tr
  let ?jp = "if b then Some (logged_provider p) else None"
  let ?a = "assess rx js e True ctx ?jp cfg (w, tr)"
  have "snd ?a = snd (judge_part rx js e ctx ?jp (w, tr))"
    by (simp add: assess_def judge_part_def Let_def split: prod.splits)
  moreover have "\<exists>w' calls. snd (judge_part rx js e ctx ?jp (w, tr)) = (w', tr @ calls) \<and> list_all pipeline_call calls"
    using judge_log [of rx js p "build_evidence rx e ctx" w tr] by (simp add: judge_part_def)
  moreover have "from_catch e = WeakCatch \<and> list_ex (contains (head_blob e)) ASSERTION_MARKERS" if "wa_decision (fst ?a) = StrongCatch"
    using that unfolding assess_eqs(2) by (auto simp: ra_gate_pass_eq evidence_clean_def from_catch_WeakCatch split: if_splits)
  ultimately show "\<exists>r w' calls. ?a = (r, w', tr @ calls) \<and> list_all pipeline_call calls \<and> (wa_decision r = StrongCatch \<longrightarrow>
        from_catch e = WeakCatch \<and> list_ex (contains (head_blob e)) ASSERTION_MARKERS)"
    by (metis prod.collapse)
qed

lemma paired_runs_pipeline: "vr_ok (validate_candidate (tc_source c)) \<Longrightarrow> list_all pipeline_call (paired_runs c es)"
  by (induction es) simp_all

lemma spec_report_assessed:
  assumes "vr_ok (validate_candidate (tc_source c))" "length es = unat (fl_reruns (cf_flake_cfg cfg)) + 1"
    and "list_all (\<lambda>e. from_catch e = WeakCatch) es" "list_all pipeline_call before"
  shows "spec (report_assessed_catch rx js (logged_pipeline p ex rt ctx hints cfg) c e mut out)
    (\<lambda>out' calls. placed_one rx rt cfg out (Ok out') (before @ paired_runs c (es @ [e]) @ calls))"
  unfolding report_assessed_catch_def logged_pipeline_def Let_def pipeline.simps
proof (rule spec_let [OF spec_assess], rule spec_return, goal_cases)
  case (1 a calls)
  let ?k = "from_assessment (tg_id (rt_target rt)) (tg_adapter (rt_target rt)) (report_path rx (tc_rel_path c))
    (rd_text (redact rx (tc_source c))) a mut (Some (report_path rx (tg_path (rt_target rt)))) (Some (lr_start (tg_span (rt_target rt))))
    (rd_text (redact rx (reproduction (tg_adapter (rt_target rt)) (tc_rel_path c))))
    (if cf_surface_evidence cfg then Some (catch_evidence_of rx e) else None)"
  have "sublist (paired_runs c (es @ [e])) (before @ paired_runs c (es @ [e]) @ calls)" by (rule sublist_appendI)
  then have "catch_ok rx rt cfg (before @ paired_runs c (es @ [e]) @ calls) ?k"
    using 1 assms(1-3) unfolding catch_ok_def
    by (intro exI [of _ c] exI [of _ es] exI [of _ e]) (simp add: from_assessment_def report_path_def)
  moreover have "list_all pipeline_call (before @ paired_runs c (es @ [e]) @ calls)"
    using 1 assms(1,4) paired_runs_pipeline [OF assms(1)] by simp
  ultimately show ?case unfolding placed_one_def by auto
qed

lemma spec_confirm_catch:
  assumes "vr_ok (validate_candidate (tc_source c))" "length es = unat (fl_reruns (cf_flake_cfg cfg)) + 1"
    and "list_all (\<lambda>e. from_catch e = WeakCatch) es" "list_all pipeline_call before"
  shows "spec (confirm_catch rx js (logged_pipeline p ex rt ctx hints cfg) c mut out)
    (\<lambda>r calls. placed_one rx rt cfg out r (before @ paired_runs c es @ calls))"
proof -
  let ?pl = "logged_pipeline p ex rt ctx hints cfg"
  have runs: "list_all pipeline_call (paired_runs c es)" using assms(1) by (rule paired_runs_pipeline)
  have run: "spec (run_candidate (pl_executor ?pl) c v) (\<lambda>r calls. calls = [Ran c v r])" for v
    by (simp add: logged_pipeline_def spec_run_candidate)
  show ?thesis
    unfolding confirm_catch_def
  proof (rule spec_bind [OF run], goal_cases)
    case (1 e calls)
    then show ?case using assms runs by (intro placed_error) simp
  next
    case b: (2 b calls)
    show ?case
    proof (rule spec_bind [OF run], goal_cases)
      case (1 e more)
      then show ?case using assms runs b by (intro placed_error) simp
    next
      case h: (2 h more)
      show ?case
        unfolding Let_def
      proof (rule spec_let [OF spec_report_assessed [OF assms, where e = "\<lparr>ce_base = b, ce_head = h\<rparr>"]], rule spec_return)
        fix out' rest
        assume "placed_one rx rt cfg out (Ok out') (before @ paired_runs c (es @ [\<lparr>ce_base = b, ce_head = h\<rparr>]) @ rest)"
        then show "placed_one rx rt cfg out (Ok out') (before @ paired_runs c es @ calls @ more @ rest @ [])"
          by (simp add: b h)
      qed
    qed
  qed
qed

lemma flake_class_stable:
  "fr_stable (flake_report_of obs) \<Longrightarrow> obs \<noteq> [] \<Longrightarrow> list_all (\<lambda>d. d = flake_class (flake_report_of obs)) obs"
  by (cases obs) (auto simp: flake_report_of_def flake_class_def)

text \<open>What a flake report rests on.\<close>

definition flake_seen :: "run_config \<Rightarrow> test_candidate \<Rightarrow> flake_report \<Rightarrow> call list \<Rightarrow> bool" where
  "flake_seen cfg c fl calls \<longleftrightarrow>
     (case cf_mode cfg of
        Harden \<Rightarrow> \<exists>rs. length rs = unat (fl_reruns (cf_flake_cfg cfg)) + 1
          \<and> calls = map (\<lambda>x. Ran c Head (Ok x)) rs \<and> fl = flake_report_of (map from_single rs)
      | Catch \<Rightarrow> \<exists>es. length es = unat (fl_reruns (cf_flake_cfg cfg)) + 1
          \<and> calls = paired_runs c es \<and> fl = flake_report_of (map from_catch es))"

lemma spec_flake_check:
  assumes "vr_ok (validate_candidate (tc_source c))"
  shows "spec (flake_check (logged_pipeline p ex rt ctx hints cfg) c)
    (\<lambda>r calls. list_all pipeline_call calls \<and> (\<forall>fl. r = Ok fl \<longrightarrow> flake_seen cfg c fl calls))"
proof (cases "cf_mode cfg")
  case Harden
  then show ?thesis
    using spec_flake_single [OF assms, of ex Head "cf_flake_cfg cfg"]
    by (simp add: flake_check_def logged_pipeline_def flake_seen_def)
next
  case Catch
  then show ?thesis
    using spec_flake_catch [OF assms, of ex "cf_flake_cfg cfg"]
    by (simp add: flake_check_def logged_pipeline_def flake_seen_def)
qed

lemma spec_classify_stable:
  assumes "vr_ok (validate_candidate (tc_source c))" "list_all pipeline_call before" "flake_seen cfg c fl seen"
    and "fr_stable fl" "tc_rel_path c = test_path (rt_target rt) (tg_adapter (rt_target rt))"
  shows "spec (classify_stable rx js (logged_pipeline p ex rt ctx hints cfg) c path (flake_class fl) out)
    (\<lambda>r calls. placed_one rx rt cfg out r (before @ seen @ calls))"
proof (cases "cf_mode cfg")
  case Harden
  obtain rs where rs: "length rs = unat (fl_reruns (cf_flake_cfg cfg)) + 1" "seen = map (\<lambda>x. Ran c Head (Ok x)) rs"
    "fl = flake_report_of (map from_single rs)"
    using assms(3) Harden by (auto simp: flake_seen_def)
  have calls: "list_all pipeline_call (before @ seen)" using assms(1,2) rs(2) by (auto simp: list_all_iff)
  have pl: "cf_mode (pl_cfg (logged_pipeline p ex rt ctx hints cfg)) = Harden" "pl_rt (logged_pipeline p ex rt ctx hints cfg) = rt"
    using Harden by (simp_all add: logged_pipeline_def)
  show ?thesis
  proof (cases "flake_class fl = HardenPass")
    case True
    have "map from_single rs \<noteq> []" using rs(1) by auto
    then have "list_all (\<lambda>d. d = HardenPass) (map from_single rs)"
      using flake_class_stable [of "map from_single rs"] assms(4) True rs(3) by simp
    then have passes: "list_all passed rs" by (simp add: list_all_iff from_single_HardenPass)
    show ?thesis
    proof (cases "accept_landable rx rt c (tg_adapter (rt_target rt))")
      case (Inl reason)
      then show ?thesis
        using calls True pl unfolding classify_stable_def by (simp add: spec_return placed_rejected)
    next
      case (Inr a)
      have "sublist (map (\<lambda>r. Ran c Head (Ok r)) rs) (before @ seen)"
        unfolding rs(2) by (metis sublist_append_leftI sublist_order.order_refl)
      then have "accepted_ok rx rt cfg (before @ seen) a"
        using Inr assms rs(1) passes Harden unfolding accepted_ok_def by blast
      then have "placed_one rx rt cfg out (Ok (out\<lparr>to_accepted := to_accepted out @ [a]\<rparr>)) (before @ seen)"
        using calls by (auto simp: placed_one_def)
      then show ?thesis using Inr True pl unfolding classify_stable_def by (simp add: spec_return)
    qed
  next
    case False
    then show ?thesis using calls pl unfolding classify_stable_def by (simp add: spec_return placed_rejected)
  qed
next
  case Catch
  obtain es where es: "length es = unat (fl_reruns (cf_flake_cfg cfg)) + 1" "seen = paired_runs c es"
    "fl = flake_report_of (map from_catch es)"
    using assms(3) Catch by (auto simp: flake_seen_def)
  have calls: "list_all pipeline_call (before @ seen)" using assms(1,2) es(2) paired_runs_pipeline by simp
  have pl: "cf_mode (pl_cfg (logged_pipeline p ex rt ctx hints cfg)) = Catch" "pl_rt (logged_pipeline p ex rt ctx hints cfg) = rt"
    using Catch by (simp_all add: logged_pipeline_def)
  show ?thesis
  proof (cases "flake_class fl = WeakCatch")
    case True
    have "map from_catch es \<noteq> []" using es(1) by auto
    then have "list_all (\<lambda>d. d = WeakCatch) (map from_catch es)"
      using flake_class_stable [of "map from_catch es"] assms(4) True es(3) by simp
    then have "list_all (\<lambda>e. from_catch e = WeakCatch) es" by (simp add: list_all_iff)
    then show ?thesis
      using spec_confirm_catch [OF assms(1) es(1) _ assms(2)] True pl es(2) unfolding classify_stable_def by simp
  next
    case False
    then show ?thesis using calls pl unfolding classify_stable_def by (simp add: spec_return placed_rejected)
  qed
qed

lemma spec_repair_pipeline:
  "spec (repair_loop rx (pl_provider (logged_pipeline p ex rt ctx hints cfg)) (pl_executor (logged_pipeline p ex rt ctx hints cfg))
       c0 template mode rcfg)
     (\<lambda>r calls. list_all pipeline_call calls
       \<and> (\<forall>rep. r = Ok rep \<longrightarrow> report_ok mode (unat (rc_max_attempts rcfg)) rep
            \<and> tc_target (rp_candidate rep) = tc_target c0 \<and> tc_rel_path (rp_candidate rep) = tc_rel_path c0))"
  unfolding logged_pipeline_def pipeline.simps by (rule spec_repair_loop)

lemma spec_process_candidate:
  assumes "tc_rel_path c0 = test_path (rt_target rt) (tg_adapter (rt_target rt))"
  shows "spec (process_candidate rx js (logged_pipeline p ex rt ctx hints cfg) c0 out) (placed_one rx rt cfg out)"
  unfolding process_candidate_def Let_def
proof (rule spec_bind [OF spec_repair_pipeline], goal_cases)
  case (1 e calls)
  then show ?case by (intro placed_error) simp
next
  case rep: (2 rep calls)
  let ?c = "rp_candidate rep"
  have calls: "list_all pipeline_call calls" and rel: "tc_rel_path ?c = tc_rel_path c0"
    using rep by simp_all
  show ?case
  proof (rule spec_if, rule spec_return, goal_cases)
    case 1
    then show ?case using calls by (simp add: logged_pipeline_def placed_rejected)
  next
    case acc: 2
    then have valid: "vr_ok (validate_candidate (tc_source ?c))" using rep by (simp add: report_ok_def)
    show ?case
    proof (rule spec_bind [OF spec_flake_check [OF valid]], goal_cases)
      case (1 e more)
      then show ?case using calls by (intro placed_error) simp
    next
      case fl: (2 fl more)
      show ?case
      proof (rule spec_if, rule spec_return, goal_cases)
        case 1
        then show ?case using calls fl by (simp add: logged_pipeline_def placed_rejected)
      next
        case 2
        then show ?case
          using spec_classify_stable [OF valid calls, of cfg fl more rt] fl rel assms by simp
      qed
    qed
  qed
qed

lemma spec_process_harvested:
  assumes "vr_ok (validate_candidate (tc_source (hc_candidate h)))"
  shows "spec (process_harvested rx js (logged_pipeline p ex rt ctx hints cfg) h out) (placed_one rx rt cfg out)"
  unfolding process_harvested_def Let_def
proof (rule spec_if, rule spec_return, goal_cases)
  case 1
  then show ?case by (simp add: logged_pipeline_def placed_rejected)
next
  case 2
  let ?c = "hc_candidate h" and ?pl = "logged_pipeline p ex rt ctx hints cfg"
  have flake: "spec (flake_filter_catch (pl_executor ?pl) ?c (cf_flake_cfg (pl_cfg ?pl)))
    (\<lambda>r calls. list_all pipeline_call calls \<and> (\<forall>fl. r = Ok fl \<longrightarrow> (\<exists>es. length es = unat (fl_reruns (cf_flake_cfg cfg)) + 1
       \<and> calls = paired_runs ?c es \<and> fl = flake_report_of (map from_catch es))))"
    unfolding logged_pipeline_def pipeline.simps by (rule spec_flake_catch [OF assms])
  show ?case
  proof (rule spec_bind [OF flake], goal_cases)
    case (1 e calls)
    then show ?case by (intro placed_error) simp
  next
    case fl: (2 fl calls)
    then obtain es where es: "length es = unat (fl_reruns (cf_flake_cfg cfg)) + 1" "calls = paired_runs ?c es"
      "fl = flake_report_of (map from_catch es)" by blast
    show ?case
    proof (rule spec_if, rule spec_return, goal_cases)
      case 1
      then show ?case using fl by (simp add: logged_pipeline_def placed_rejected)
    next
      case 2
      have "map from_catch es \<noteq> []" using es(1) by auto
      then have "list_all (\<lambda>d. d = WeakCatch) (map from_catch es)"
        using flake_class_stable [of "map from_catch es"] 2 es(3) by simp
      then have "list_all (\<lambda>e. from_catch e = WeakCatch) es" by (simp add: list_all_iff)
      from spec_confirm_catch [OF assms es(1) this, of "[]"] show ?case by (simp add: es(2))
    qed
  qed
qed

text \<open>The whole outcome, and how a step keeps it.\<close>

definition outcome_ok ::
  "regex_engine \<Rightarrow> ranked_target \<Rightarrow> run_config \<Rightarrow> nat \<Rightarrow> target_outcome \<Rightarrow> call list \<Rightarrow> bool" where
  "outcome_ok rx rt cfg n out calls \<longleftrightarrow>
     list_all (accepted_ok rx rt cfg calls) (to_accepted out) \<and> list_all (catch_ok rx rt cfg calls) (to_catches out)
     \<and> list_all (\<lambda>x. rj_target x = tg_id (rt_target rt)) (to_rejected out)
     \<and> length (to_accepted out) + length (to_catches out) + length (to_rejected out) = n"

lemma outcome_ok_mono: "outcome_ok rx rt cfg n out calls \<Longrightarrow> sublist calls calls' \<Longrightarrow> outcome_ok rx rt cfg n out calls'"
  unfolding outcome_ok_def list_all_iff using accepted_ok_mono catch_ok_mono by blast

lemma outcome_ok_step:
  assumes "outcome_ok rx rt cfg n out before" "placed_one rx rt cfg out (Ok out') calls"
  shows "outcome_ok rx rt cfg (Suc n) out' (before @ calls) \<and> to_candidates_generated out' = to_candidates_generated out"
proof -
  have before: "outcome_ok rx rt cfg n out (before @ calls)"
    using assms(1) by (rule outcome_ok_mono) simp
  have after: "sublist calls (before @ calls)" by simp
  consider a where "accepted_ok rx rt cfg calls a" "out' = out\<lparr>to_accepted := to_accepted out @ [a]\<rparr>"
    | k where "catch_ok rx rt cfg calls k" "out' = out\<lparr>to_catches := to_catches out @ [k]\<rparr>"
    | x where "rj_target x = tg_id (rt_target rt)" "out' = push_rejected x out"
    using assms(2) unfolding placed_one_def by blast
  then show ?thesis
  proof cases
    case 1
    then show ?thesis using before accepted_ok_mono [OF _ after] by (simp add: outcome_ok_def)
  next
    case 2
    then show ?thesis using before catch_ok_mono [OF _ after] by (simp add: outcome_ok_def)
  next
    case 3
    then show ?thesis using before by (simp add: outcome_ok_def push_rejected_def)
  qed
qed

lemma spec_try_fold:
  assumes "\<And>x out. x \<in> set xs \<Longrightarrow> spec (f x out) (placed_one rx rt cfg out)"
    and "outcome_ok rx rt cfg n out before" "list_all pipeline_call before"
  shows "spec (try_fold f xs out) (\<lambda>r calls. list_all pipeline_call (before @ calls)
    \<and> (\<forall>out'. r = Ok out' \<longrightarrow> outcome_ok rx rt cfg (n + length xs) out' (before @ calls)
         \<and> to_candidates_generated out' = to_candidates_generated out))"
  using assms
proof (induction xs arbitrary: n out before)
  case Nil
  then show ?case unfolding try_fold.simps by (intro spec_return) simp
next
  case (Cons x xs)
  have "spec (f x out) (placed_one rx rt cfg out)" using Cons.prems(1) by simp
  then show ?case
    unfolding try_fold.simps
  proof (rule spec_bind_same, goal_cases)
    case (1 e calls)
    then show ?case using Cons.prems(3) by (simp add: placed_one_def)
  next
    case (2 out1 calls)
    then have step: "outcome_ok rx rt cfg (Suc n) out1 (before @ calls)"
      "to_candidates_generated out1 = to_candidates_generated out" "list_all pipeline_call (before @ calls)"
      using outcome_ok_step [OF Cons.prems(2)] Cons.prems(3) by (auto simp: placed_one_def)
    show ?case using Cons.IH [OF _ step(1,3)] Cons.prems(1) step(2) by simp
  qed
qed

definition target_spec ::
  "regex_engine \<Rightarrow> ranked_target \<Rightarrow> run_config \<Rightarrow> orch_error + target_outcome \<Rightarrow> call list \<Rightarrow> bool" where
  "target_spec rx rt cfg r calls \<longleftrightarrow> list_all pipeline_call calls
     \<and> (\<forall>out. r = Ok out \<longrightarrow> outcome_ok rx rt cfg (to_candidates_generated out) out calls)"

lemma spec_process_target:
  "spec (process_target rx js (logged_provider p) (logged_executor ex) rt ctx hints cfg) (target_spec rx rt cfg)"
  unfolding process_target_def Let_def
proof (rule spec_bind [OF spec_generate_candidates], goal_cases)
  case (1 e calls)
  then show ?case by (simp add: target_spec_def generation_ok_def)
next
  case (2 g calls)
  let ?n = "length (go_candidates g) + length (go_catches g)"
  let ?out = "default_outcome\<lparr>to_candidates_generated := ?n\<rparr>"
  have g: "list_all pipeline_call calls"
    "list_all (generated_ok (cx_target ctx) \<lparr>gt_language = tg_adapter (rt_target rt), gt_symbol = tg_symbol (rt_target rt),
       gt_rel_path = test_path (rt_target rt) (tg_adapter (rt_target rt))\<rparr>) (go_candidates g)"
    "\<forall>h \<in> set (go_catches g). evidenced calls h"
    using 2 by (simp_all add: generation_ok_def)
  have start: "outcome_ok rx rt cfg 0 ?out calls" by (simp add: outcome_ok_def default_outcome_def)
  have cand: "spec (process_candidate rx js (logged_pipeline p ex rt ctx hints cfg) c out) (placed_one rx rt cfg out)"
    if "c \<in> set (go_candidates g)" for c out
    using g(2) that by (intro spec_process_candidate) (auto simp: list_all_iff generated_ok_def)
  have harv: "spec (process_harvested rx js (logged_pipeline p ex rt ctx hints cfg) h out) (placed_one rx rt cfg out)"
    if "h \<in> set (go_catches g)" for h out
    using g(3) that by (intro spec_process_harvested) (simp add: evidenced_def)
  show ?case
    unfolding logged_pipeline_def [symmetric]
  proof (rule spec_bind_same [OF spec_try_fold [OF cand start g(1)]], assumption, goal_cases)
    case (1 e more)
    then show ?case by (simp add: target_spec_def)
  next
    case (2 out1 more)
    then have mid: "outcome_ok rx rt cfg (0 + length (go_candidates g)) out1 (calls @ more)"
      "list_all pipeline_call (calls @ more)" "to_candidates_generated out1 = ?n"
      by simp_all
    show ?case
      by (rule spec_mono [OF spec_try_fold [OF harv mid(1,2)]]) (auto simp: target_spec_def mid(3))
  qed
qed

section \<open>Properties\<close>

text \<open>
  C1: What a target's accepted tests rest on. Whatever the provider answers and the executor
  reports, every candidate executed has passed the static validation; every accepted test comes
  from a harden run and is a validated candidate that may land, at the path derived for the target,
  whose runs on the head all passed, in one series of one more than the configured reruns; and every
  candidate generated ends in exactly one of the lists of accepted, caught and rejected ones.
\<close>

theorem process_target_accepts:
  "\<exists>r w' calls. process_target rx js (logged_provider p) (logged_executor ex) rt ctx hints cfg (w, []) = (r, (w', calls))
     \<and> list_all pipeline_call calls
     \<and> (case r of Err _ \<Rightarrow> True
        | Ok out \<Rightarrow> list_all (accepted_ok rx rt cfg calls) (to_accepted out)
            \<and> length (to_accepted out) + length (to_catches out) + length (to_rejected out) = to_candidates_generated out)"
proof -
  obtain r w' calls where "process_target rx js (logged_provider p) (logged_executor ex) rt ctx hints cfg (w, []) = (r, (w', [] @ calls))"
    "target_spec rx rt cfg r calls"
    using spec_process_target [of rx js p ex rt ctx hints cfg] unfolding spec_def by blast
  then show ?thesis by (auto simp: target_spec_def outcome_ok_def split: sum.splits)
qed

text \<open>
  C2: What a reported catch rests on. Every catch is a validated candidate that the flake filter saw
  pass on the base and fail on the head in every one of its paired runs, more than the configured
  reruns; a pair of runs right after them is what was assessed. A catch is called strong only if
  that pair, too, passed on the base and failed on the head with an assertion in its output. Source
  and path are redacted, and the output of the runs is in the report only if that was asked for.
\<close>

theorem process_target_catches:
  "\<exists>r w' calls. process_target rx js (logged_provider p) (logged_executor ex) rt ctx hints cfg (w, []) = (r, (w', calls))
     \<and> (case r of Err _ \<Rightarrow> True | Ok out \<Rightarrow> list_all (catch_ok rx rt cfg calls) (to_catches out))"
proof -
  obtain r w' calls where "process_target rx js (logged_provider p) (logged_executor ex) rt ctx hints cfg (w, []) = (r, (w', [] @ calls))"
    "target_spec rx rt cfg r calls"
    using spec_process_target [of rx js p ex rt ctx hints cfg] unfolding spec_def by blast
  then show ?thesis by (auto simp: target_spec_def outcome_ok_def split: sum.splits)
qed

text \<open>
  C3: The patch lands exactly what was accepted. For a harden run with accepted tests, each of which
  passed the landing check, reading the rendered patch as a patch of new files gives back the tests,
  in order, each under its own path and with its source byte for byte.
\<close>

theorem patch_lands_faithfully:
  assumes "rr_mode report = Harden" "rr_accepted report \<noteq> []"
    and "list_all (\<lambda>t. \<exists>rx rt c language. accept_landable rx rt c language = Ok t) (rr_accepted report)"
  shows "read_patch (length (rr_accepted report)) (split_on LF (patch_render report))
    = Some (map (\<lambda>t. (at_path t, at_source t)) (rr_accepted report))"
proof -
  have "list_all lands (rr_accepted report)"
    using assms(3) accept_landable_lands by (auto simp: list_all_iff)
  then show ?thesis using read_patch_additions assms(1,2) by (simp add: patch_render_def)
qed

definition landed_candidate :: test_candidate where
  "landed_candidate = sample_candidate\<lparr>tc_rel_path := ''tests/a b.rs'', tc_source := ''ok()'' @ [LF] @ ''+ 1''\<rparr>"

definition landed_rt :: ranked_target where
  "landed_rt = \<lparr>rt_target = placed 1, rt_score = fone, rt_rationale = []\<rparr>"

definition landed_test :: accepted_test where
  "landed_test = \<lparr>at_target = tg_id (placed 1), at_symbol = tg_symbol (placed 1), at_language = ''rust'',
     at_path = tc_rel_path landed_candidate, at_source = tc_source landed_candidate, at_class = HardenPass,
     at_reproduction = reproduction ''rust'' (tc_rel_path landed_candidate)\<rparr>"

lemma accept_landable_clean:
  assumes "\<And>s. redact rx s = \<lparr>rd_text = s, rd_redacted = False\<rparr>" "trim (tc_source c) \<noteq> []"
    and "strip_controls (tc_source c) = tc_source c" "path_is_landable (tc_rel_path c)"
  shows "accept_landable rx rt c language =
    Ok \<lparr>at_target = tg_id (rt_target rt), at_symbol = tg_symbol (rt_target rt), at_language = language,
        at_path = tc_rel_path c, at_source = tc_source c, at_class = HardenPass,
        at_reproduction = reproduction language (tc_rel_path c)\<rparr>"
  using assms by (simp add: accept_landable_def option.map_ident)

lemma landed_test_accepted: "accept_landable (\<lambda>_ _. []) landed_rt landed_candidate ''rust'' = Ok landed_test"
proof -
  have clean: "redact (\<lambda>_ _. []) s = \<lparr>rd_text = s, rd_redacted = False\<rparr>" for s by (rule redact_no_match) simp
  have "list_all inert (chars (tc_source landed_candidate))" "list_all inert (chars (tc_rel_path landed_candidate))"
    by (simp_all add: landed_candidate_def inert_def is_strippable_def cp_def is_cont_def LF_def)
  note inert = this [THEN strip_controls_inert]
  have "trim (tc_source landed_candidate) \<noteq> []"
    by (simp add: landed_candidate_def trim_def trim_start_def trim_end_def is_ws_def cp_def is_cont_def LF_def)
  moreover have "path_is_landable (tc_rel_path landed_candidate)"
    using inert(2) by (simp add: path_is_landable_def) (simp add: landed_candidate_def LF_def TAB_def starts_with_def)
  ultimately have plain: "trim (tc_source landed_candidate) \<noteq> []"
    "strip_controls (tc_source landed_candidate) = tc_source landed_candidate" "path_is_landable (tc_rel_path landed_candidate)"
    using inert(1) by simp_all
  show ?thesis unfolding accept_landable_clean [OF clean plain] landed_test_def landed_rt_def by simp
qed

definition landed_report :: run_report where
  "landed_report = sample_report\<lparr>rr_mode := Harden, rr_accepted := [landed_test]\<rparr>"

theorem patch_lands_faithfully_witness:
  "read_patch 1 (split_on LF (patch_render landed_report)) = Some [(''tests/a b.rs'', ''ok()'' @ [LF] @ ''+ 1'')]"
proof -
  have "list_all (\<lambda>t. \<exists>rx rt c language. accept_landable rx rt c language = Ok t) (rr_accepted landed_report)"
    using landed_test_accepted by (auto simp: landed_report_def)
  moreover have "rr_mode landed_report = Harden" "rr_accepted landed_report = [landed_test]" by (simp_all add: landed_report_def)
  ultimately show ?thesis
    using patch_lands_faithfully [of landed_report] by (simp add: landed_test_def landed_candidate_def)
qed

text \<open>
  With the intent-aware strategy asked for by name, the mode has no influence on a target's outcome:
  a harden run then reports catches.
\<close>

theorem intent_aware_ignores_mode:
  assumes "cf_strategy cfg = IntentAware"
  shows "process_target rx js p ex rt ctx hints (cfg\<lparr>cf_mode := Harden\<rparr>) w
    = process_target rx js p ex rt ctx hints (cfg\<lparr>cf_mode := Catch\<rparr>) w"
proof -
  note branches = sum.case_cong prod.case_cong if_cong
  have report: "report_assessed_catch rx js (pl\<lparr>pl_cfg := cfg\<lparr>cf_mode := m\<rparr>\<rparr>) = report_assessed_catch rx js (pl\<lparr>pl_cfg := cfg\<rparr>)"
    for pl :: "'a pipeline" and m
    by (intro ext) (simp add: report_assessed_catch_def)
  have confirm: "confirm_catch rx js (pl\<lparr>pl_cfg := cfg\<lparr>cf_mode := m\<rparr>\<rparr>) = confirm_catch rx js (pl\<lparr>pl_cfg := cfg\<rparr>)"
    for pl :: "'a pipeline" and m
    by (intro ext) (simp add: confirm_catch_def report cong: branches)
  have harvested: "process_harvested rx js (pl\<lparr>pl_cfg := cfg\<lparr>cf_mode := m\<rparr>\<rparr>) = process_harvested rx js (pl\<lparr>pl_cfg := cfg\<rparr>)"
    for pl :: "'a pipeline" and m
    by (intro ext) (simp add: process_harvested_def confirm Let_def cong: branches)
  let ?pl = "\<lparr>pl_provider = p, pl_executor = ex, pl_rt = rt, pl_context = ctx, pl_prompt_hints = hints, pl_cfg = cfg\<rparr>"
  have mode: "process_target rx js p ex rt ctx hints (cfg\<lparr>cf_mode := m\<rparr>) w =
    (case intent_aware_run rx p ex ctx \<lparr>gt_language = tg_adapter (rt_target rt), gt_symbol = tg_symbol (rt_target rt),
         gt_rel_path = test_path (rt_target rt) (tg_adapter (rt_target rt))\<rparr> (cf_strategy_cfg cfg) w of
       (Err e, w) \<Rightarrow> (Err (OrFeedback e), w)
     | (Ok hs, w) \<Rightarrow> try_fold (process_harvested rx js ?pl) hs (default_outcome\<lparr>to_candidates_generated := length hs\<rparr>) w)" for m
    using assms harvested [where pl = ?pl and m = m] by (simp add: process_target_def generate_candidates_def Let_def split: prod.splits sum.splits)
  show ?thesis by (simp only: mode)
qed

end
