(* ===== verification/Store.thy ===== *)
theory Store
  imports Floats Errors Paths
begin

text \<open>
  The crate \<open>jitgen-state\<close>: the records (\<open>model.rs\<close>), the path check (\<open>fsutil.rs\<close>) and the store of
  runs, steps and artifacts (\<open>store.rs\<close>). A table is the list of its rows in insertion order, a run's
  directory a map from the names of a relative path to the bytes of the file. Each statement the code
  executes is one function on the tables; that it can also fail is added where the store is used.
  SHA-256, the clock and the debug form of a string are parameters.
\<close>

section \<open>Records\<close>

datatype step_status = Pending | Running | Succeeded | StepFailed | Skipped

fun status_str :: "step_status \<Rightarrow> str" where
  "status_str Pending = ''pending''"
| "status_str Running = ''running''"
| "status_str Succeeded = ''succeeded''"
| "status_str StepFailed = ''failed''"
| "status_str Skipped = ''skipped''"

definition status_parse :: "str \<Rightarrow> step_status option" where
  "status_parse s =
     (if s = ''pending'' then Some Pending
      else if s = ''running'' then Some Running
      else if s = ''succeeded'' then Some Succeeded
      else if s = ''failed'' then Some StepFailed
      else if s = ''skipped'' then Some Skipped
      else None)"

fun is_done :: "step_status \<Rightarrow> bool" where
  "is_done Succeeded = True"
| "is_done Skipped = True"
| "is_done _ = False"

lemma status_parse_str [simp]: "status_parse (status_str s) = Some s"
  by (cases s) (simp_all add: status_parse_def)

record run_meta =
  rm_run_id :: str
  rm_repo_path :: str
  rm_base_ref :: str
  rm_head_ref :: str
  rm_mode :: str
  rm_schema_version :: u32
  rm_status :: str

record step_record =
  sp_step_id :: str
  sp_kind :: str
  sp_input_hash :: str
  sp_status :: step_status
  sp_error :: "str option"
  sp_retry_count :: u32

record artifact_record =
  ar_step_id :: str
  ar_rel_path :: str
  ar_kind :: str
  ar_sha256 :: str

section \<open>Paths and ids\<close>

definition safe_join :: "str \<Rightarrow> str \<Rightarrow> state_error + str" where
  "safe_join base rel =
     (case find (\<lambda>c. case c of Normal _ \<Rightarrow> False | CurDir \<Rightarrow> False | _ \<Rightarrow> True) (components rel) of
        Some ParentDir \<Rightarrow> Err (StInvalid ([CHR 0x27] @ ''..'' @ [CHR 0x27] @ '' not allowed in artifact path: '' @ rel))
      | Some _ \<Rightarrow> Err (StInvalid (''absolute artifact path not allowed: '' @ rel))
      | None \<Rightarrow> Ok (path_join base rel))"

definition safe_id_char :: "str \<Rightarrow> bool" where
  "safe_id_char k \<longleftrightarrow> is_ascii_alnum k \<or> k \<in> {''.'', ''_'', ''-''}"

definition ensure_safe_run_id :: "(str \<Rightarrow> str) \<Rightarrow> str \<Rightarrow> state_error + unit" where
  "ensure_safe_run_id dbg run_id =
     (if run_id \<noteq> [] \<and> run_id \<noteq> ''.'' \<and> run_id \<noteq> ''..'' \<and> length run_id \<le> 128 \<and> list_all safe_id_char (chars run_id)
      then Ok () else Err (StInvalid (''unsafe run id: '' @ dbg run_id)))"

definition MAX_ERROR_LEN :: nat where "MAX_ERROR_LEN = 8 * 1024"

definition cap_str :: "str \<Rightarrow> nat \<Rightarrow> str" where
  "cap_str s n = (if length s \<le> n then s else take (back_up s n) s @ TRUNCATION_MARKER)"

section \<open>The tables of a run\<close>

text \<open>The path of the run's directory plays no part in the check of an artifact's path.\<close>

record step_row =
  sr_step_id :: str
  sr_seq :: int
  sr_kind :: str
  sr_input_hash :: str
  sr_status :: str
  sr_error :: "str option"
  sr_retry :: u32

record run_db =
  db_steps :: "step_row list"
  db_artifacts :: "artifact_record list"
  db_files :: "str list \<rightharpoonup> str"

definition empty_db :: run_db where
  "empty_db = \<lparr>db_steps = [], db_artifacts = [], db_files = Map.empty\<rparr>"

definition find_row :: "str \<Rightarrow> run_db \<Rightarrow> step_row option" where
  "find_row i db = find (\<lambda>r. sr_step_id r = i) (db_steps db)"

definition update_row :: "str \<Rightarrow> (step_row \<Rightarrow> step_row) \<Rightarrow> run_db \<Rightarrow> run_db" where
  "update_row i f db = db\<lparr>db_steps := map (\<lambda>r. if sr_step_id r = i then f r else r) (db_steps db)\<rparr>"

definition row_to_step :: "step_row \<Rightarrow> state_error + step_record" where
  "row_to_step r =
     (case status_parse (sr_status r) of
        None \<Rightarrow> Err (StSqlite ''unknown step status'')
      | Some s \<Rightarrow> Ok \<lparr>sp_step_id = sr_step_id r, sp_kind = sr_kind r, sp_input_hash = sr_input_hash r,
                    sp_status = s, sp_error = sr_error r, sp_retry_count = sr_retry r\<rparr>)"

definition record_step :: "str \<Rightarrow> int \<Rightarrow> str \<Rightarrow> str \<Rightarrow> run_db \<Rightarrow> (state_error + unit) \<times> run_db" where
  "record_step i sq kind hash db =
     (case find_row i db of
        None \<Rightarrow> (Ok (), db\<lparr>db_steps := db_steps db @ [\<lparr>sr_step_id = i, sr_seq = sq, sr_kind = kind,
                  sr_input_hash = hash, sr_status = ''pending'', sr_error = None, sr_retry = 0\<rparr>]\<rparr>)
      | Some r \<Rightarrow>
          if sr_seq r \<noteq> sq \<or> sr_kind r \<noteq> kind \<or> sr_input_hash r \<noteq> hash
          then (Ok (), (update_row i (\<lambda>r. r\<lparr>sr_seq := sq, sr_kind := kind, sr_input_hash := hash,
                          sr_status := ''pending'', sr_error := None, sr_retry := 0\<rparr>) db)
                       \<lparr>db_artifacts := filter (\<lambda>a. ar_step_id a \<noteq> i) (db_artifacts db)\<rparr>)
          else (Ok (), db))"

definition unknown_step :: "str \<Rightarrow> state_error" where
  "unknown_step i = StInvalid (''unknown step '' @ [CHR 0x27] @ i @ [CHR 0x27])"

definition begin_step :: "str \<Rightarrow> run_db \<Rightarrow> (state_error + unit) \<times> run_db" where
  "begin_step i db =
     (if find_row i db = None then (Err (unknown_step i), db)
      else (Ok (), update_row i (\<lambda>r. r\<lparr>sr_retry := sr_retry r + (if sr_status r \<in> {''running'', ''failed''} then 1 else 0),
                                     sr_status := ''running''\<rparr>) db))"

definition finish_step :: "str \<Rightarrow> step_status \<Rightarrow> str option \<Rightarrow> run_db \<Rightarrow> (state_error + unit) \<times> run_db" where
  "finish_step i status err db =
     (if find_row i db = None then (Err (unknown_step i), db)
      else (Ok (), update_row i (\<lambda>r. r\<lparr>sr_status := status_str status,
                                     sr_error := map_option (\<lambda>e. cap_str e MAX_ERROR_LEN) err\<rparr>) db))"

definition step_of :: "str \<Rightarrow> run_db \<Rightarrow> state_error + step_record option" where
  "step_of i db =
     (case find_row i db of
        None \<Rightarrow> Ok None
      | Some r \<Rightarrow> (case row_to_step r of Err e \<Rightarrow> Err e | Ok s \<Rightarrow> Ok (Some s)))"

fun collect_steps :: "step_row list \<Rightarrow> state_error + step_record list" where
  "collect_steps [] = Ok []"
| "collect_steps (r # rs) =
     (case row_to_step r of
        Err e \<Rightarrow> Err e
      | Ok s \<Rightarrow> (case collect_steps rs of Err e \<Rightarrow> Err e | Ok ss \<Rightarrow> Ok (s # ss)))"

definition steps_of :: "run_db \<Rightarrow> state_error + step_record list" where
  "steps_of db = collect_steps (sort_key sr_seq (db_steps db))"

definition resume_point :: "run_db \<Rightarrow> state_error + step_record option" where
  "resume_point db =
     (case filter (\<lambda>r. sr_status r \<notin> {''succeeded'', ''skipped''}) (sort_key sr_seq (db_steps db)) of
        [] \<Rightarrow> Ok None
      | r # _ \<Rightarrow> (case row_to_step r of Err e \<Rightarrow> Err e | Ok s \<Rightarrow> Ok (Some s)))"

text \<open>
  \<open>publish_artifact\<close> in the two durable operations it consists of: the file, which is replaced
  atomically, and the row, which replaces one of the same step and path.
\<close>

definition write_artifact :: "str \<Rightarrow> str \<Rightarrow> run_db \<Rightarrow> (state_error + unit) \<times> run_db" where
  "write_artifact rel bytes db =
     (case safe_join ''.'' rel of
        Err e \<Rightarrow> (Err e, db)
      | Ok _ \<Rightarrow>
          if normals (components rel) = [] then (Err (StIo ''not a file''), db)
          else (Ok (), db\<lparr>db_files := (db_files db)(normals (components rel) \<mapsto> bytes)\<rparr>))"

definition insert_artifact :: "(str \<Rightarrow> str) \<Rightarrow> str \<Rightarrow> str \<Rightarrow> str \<Rightarrow> str \<Rightarrow> run_db \<Rightarrow> (state_error + artifact_record) \<times> run_db" where
  "insert_artifact sha rel bytes kind i db =
     (let a = \<lparr>ar_step_id = i, ar_rel_path = rel, ar_kind = kind, ar_sha256 = sha bytes\<rparr> in
      (Ok a, db\<lparr>db_artifacts := filter (\<lambda>b. \<not> (ar_step_id b = i \<and> ar_rel_path b = rel)) (db_artifacts db) @ [a]\<rparr>))"

definition publish_artifact :: "(str \<Rightarrow> str) \<Rightarrow> str \<Rightarrow> str \<Rightarrow> str \<Rightarrow> str \<Rightarrow> run_db \<Rightarrow> (state_error + artifact_record) \<times> run_db" where
  "publish_artifact sha rel bytes kind i db =
     (case write_artifact rel bytes db of
        (Err e, db) \<Rightarrow> (Err e, db)
      | (Ok _, db) \<Rightarrow> insert_artifact sha rel bytes kind i db)"

definition read_file_at :: "str \<Rightarrow> run_db \<Rightarrow> str option" where
  "read_file_at rel db = db_files db (normals (components rel))"

section \<open>The index of runs\<close>

text \<open>A row of the index with its time of creation, and the databases of the runs.\<close>

record run_index =
  ix_runs :: "(run_meta \<times> str) list"
  ix_dbs :: "str \<rightharpoonup> run_db"

definition get_run :: "str \<Rightarrow> run_index \<Rightarrow> run_meta option" where
  "get_run i ix = find (\<lambda>m. rm_run_id m = i) (map fst (ix_runs ix))"

definition list_runs :: "run_index \<Rightarrow> run_meta list" where
  "list_runs ix = map fst (sort_key (\<lambda>(m, created). (Down created, Down (rm_run_id m))) (ix_runs ix))"

definition open_run :: "(str \<Rightarrow> str) \<Rightarrow> str \<Rightarrow> run_index \<Rightarrow> (state_error + run_db) \<times> run_index" where
  "open_run dbg i ix =
     (case ensure_safe_run_id dbg i of
        Err e \<Rightarrow> (Err e, ix)
      | Ok _ \<Rightarrow>
          if get_run i ix = None then (Err (StRunNotFound i), ix)
          else let db = (case ix_dbs ix i of Some db \<Rightarrow> db | None \<Rightarrow> empty_db) in
            (Ok db, ix\<lparr>ix_dbs := (ix_dbs ix)(i \<mapsto> db)\<rparr>))"

definition insert_or_ignore :: "run_meta \<Rightarrow> str \<Rightarrow> run_index \<Rightarrow> run_index" where
  "insert_or_ignore m now ix =
     (if get_run (rm_run_id m) ix = None then ix\<lparr>ix_runs := ix_runs ix @ [(m, now)]\<rparr> else ix)"

definition same_inputs :: "run_meta \<Rightarrow> run_meta \<Rightarrow> bool" where
  "same_inputs a b \<longleftrightarrow> rm_repo_path a = rm_repo_path b \<and> rm_base_ref a = rm_base_ref b
     \<and> rm_head_ref a = rm_head_ref b \<and> rm_mode a = rm_mode b \<and> rm_schema_version a = rm_schema_version b"

definition create_run :: "(str \<Rightarrow> str) \<Rightarrow> str \<Rightarrow> run_meta \<Rightarrow> run_index \<Rightarrow> (state_error + run_db) \<times> run_index" where
  "create_run dbg now m ix =
     (case ensure_safe_run_id dbg (rm_run_id m) of
        Err e \<Rightarrow> (Err e, ix)
      | Ok _ \<Rightarrow>
          let ix = insert_or_ignore m now ix in
          (case get_run (rm_run_id m) ix of
             Some existing \<Rightarrow>
               if \<not> same_inputs existing m
               then (Err (StInvalid (''run id '' @ [CHR 0x27] @ rm_run_id m @ [CHR 0x27] @ '' already exists with different metadata'')), ix)
               else open_run dbg (rm_run_id m) ix
           | None \<Rightarrow> open_run dbg (rm_run_id m) ix))"

definition set_run_status :: "str \<Rightarrow> str \<Rightarrow> run_index \<Rightarrow> (state_error + unit) \<times> run_index" where
  "set_run_status i status ix =
     (if get_run i ix = None then (Err (StRunNotFound i), ix)
      else (Ok (), ix\<lparr>ix_runs := map (\<lambda>(m, c). (if rm_run_id m = i then m\<lparr>rm_status := status\<rparr> else m, c)) (ix_runs ix)\<rparr>))"

section \<open>Rows\<close>

lemma find_map_row:
  "find (\<lambda>r. sr_step_id r = j) (map (\<lambda>r. if sr_step_id r = i then f r else r) rows) =
     (if j = i then map_option f (find (\<lambda>r. sr_step_id r = i) rows) else find (\<lambda>r. sr_step_id r = j) rows)"
  if "\<And>r. sr_step_id (f r) = sr_step_id r"
  using that by (induction rows) auto

lemma find_update_row:
  assumes "\<And>r. sr_step_id (f r) = sr_step_id r"
  shows "find_row j (update_row i f db) = (if j = i then map_option f (find_row i db) else find_row j db)"
  using find_map_row [OF assms, of j i "db_steps db"] by (simp add: find_row_def update_row_def)

lemma find_row_artifacts [simp]: "find_row j (db\<lparr>db_artifacts := a\<rparr>) = find_row j db"
  and find_row_files [simp]: "find_row j (db\<lparr>db_files := f\<rparr>) = find_row j db"
  by (simp_all add: find_row_def)

lemma find_append: "find P (xs @ ys) = (case find P xs of Some x \<Rightarrow> Some x | None \<Rightarrow> find P ys)"
  by (induction xs) auto

lemma find_row_id: "find_row i db = Some r \<Longrightarrow> sr_step_id r = i"
  by (auto simp: find_row_def find_Some_iff)

lemma update_row_fields [simp]:
  "db_artifacts (update_row i f db) = db_artifacts db" "db_files (update_row i f db) = db_files db"
  by (simp_all add: update_row_def)

text \<open>
  A well-formed database: step ids are unique and every status parses, so that no read of a step
  fails; and an artifact has one row per step and path.
\<close>

definition db_wf :: "run_db \<Rightarrow> bool" where
  "db_wf db \<longleftrightarrow> distinct (map sr_step_id (db_steps db)) \<and> list_all (\<lambda>r. status_parse (sr_status r) \<noteq> None) (db_steps db)
     \<and> distinct (map (\<lambda>a. (ar_step_id a, ar_rel_path a)) (db_artifacts db))"

lemma db_wf_update:
  assumes "db_wf db" "\<And>r. sr_step_id (f r) = sr_step_id r" "\<And>r. status_parse (sr_status (f r)) \<noteq> None"
  shows "db_wf (update_row i f db)"
proof -
  have "map sr_step_id (map (\<lambda>r. if sr_step_id r = i then f r else r) (db_steps db)) = map sr_step_id (db_steps db)"
    using assms(2) by simp
  moreover have "list_all (\<lambda>r. status_parse (sr_status r) \<noteq> None) (db_steps (update_row i f db))"
    using assms(1,3) by (auto simp: db_wf_def update_row_def list_all_iff)
  moreover have "db_steps (update_row i f db) = map (\<lambda>r. if sr_step_id r = i then f r else r) (db_steps db)"
    by (simp add: update_row_def)
  ultimately show ?thesis using assms(1) unfolding db_wf_def update_row_fields by (simp only: simp_thms)
qed

lemma db_wf_filter: "db_wf db \<Longrightarrow> db_wf (db\<lparr>db_artifacts := filter P (db_artifacts db)\<rparr>)"
  by (auto simp: db_wf_def distinct_map inj_on_def)

lemma status_parses: "status_parse ''pending'' = Some Pending" "status_parse ''running'' = Some Running"
  by (simp_all add: status_parse_def)

lemma db_wf_record: "db_wf db \<Longrightarrow> db_wf (snd (record_step i sq k h db))"
proof (cases "find_row i db")
  case None
  moreover assume "db_wf db"
  moreover have "i \<notin> set (map sr_step_id (db_steps db))" using None by (auto simp: find_row_def find_None_iff)
  ultimately show ?thesis by (simp add: record_step_def db_wf_def status_parses)
next
  case (Some r)
  assume wf: "db_wf db"
  have "db_wf ((update_row i (\<lambda>r. r\<lparr>sr_seq := sq, sr_kind := k, sr_input_hash := h, sr_status := ''pending'',
      sr_error := None, sr_retry := 0\<rparr>) db)\<lparr>db_artifacts := filter (\<lambda>a. ar_step_id a \<noteq> i) (db_artifacts db)\<rparr>)"
    using db_wf_filter [OF db_wf_update [OF wf, of "\<lambda>r. r\<lparr>sr_seq := sq, sr_kind := k, sr_input_hash := h, sr_status := ''pending'',
      sr_error := None, sr_retry := 0\<rparr>" i], of "\<lambda>a. ar_step_id a \<noteq> i"]
    by (simp add: status_parses)
  then show ?thesis using Some wf by (simp add: record_step_def)
qed

lemma db_wf_insert: "db_wf db \<Longrightarrow> db_wf (snd (insert_artifact sha rel bytes k i db))"
  by (auto simp: insert_artifact_def db_wf_def Let_def distinct_map inj_on_def)

lemma db_wf_write: "db_wf db \<Longrightarrow> db_wf (snd (write_artifact rel bytes db))"
  by (auto simp: write_artifact_def db_wf_def split: sum.splits)

lemma row_to_step_wf: "db_wf db \<Longrightarrow> r \<in> set (db_steps db) \<Longrightarrow> \<exists>s. row_to_step r = Ok s"
  by (auto simp: row_to_step_def db_wf_def list_all_iff split: option.splits)

lemma collect_steps_ok: "\<forall>r \<in> set rs. \<exists>s. row_to_step r = Ok s \<Longrightarrow> \<exists>ss. collect_steps rs = Ok ss"
  by (induction rs) auto

section \<open>Properties\<close>

text \<open>
  C39: The tables stay well formed. Recording, beginning, finishing and publishing keep the step ids
  and the artifacts unique and every stored status one that parses; so on a database that only these
  operations have written, reading a step, all steps or the resume point never fails.
\<close>

theorem store_keeps_wf:
  assumes "db_wf db"
  shows "db_wf (snd (record_step i sq k h db)) \<and> db_wf (snd (begin_step i db)) \<and> db_wf (snd (finish_step i st e db))
    \<and> db_wf (snd (publish_artifact sha rel bytes k i db))
    \<and> (\<exists>r. step_of i db = Ok r) \<and> (\<exists>r. steps_of db = Ok r) \<and> (\<exists>r. resume_point db = Ok r)"
proof (intro conjI)
  show "db_wf (snd (record_step i sq k h db))" using assms by (rule db_wf_record)
  show "db_wf (snd (begin_step i db))" using assms by (simp add: begin_step_def db_wf_update status_parses)
  show "db_wf (snd (finish_step i st e db))" using assms by (simp add: finish_step_def db_wf_update)
  have "db_wf (snd (write_artifact rel bytes db))" using assms by (rule db_wf_write)
  then show "db_wf (snd (publish_artifact sha rel bytes k i db))"
    using db_wf_insert by (auto simp: publish_artifact_def split: prod.splits sum.splits)
  show "\<exists>r. step_of i db = Ok r"
  proof (cases "find_row i db")
    case (Some r)
    then have "r \<in> set (db_steps db)" by (auto simp: find_row_def find_Some_iff)
    then obtain s where "row_to_step r = Ok s" using row_to_step_wf [OF assms] by blast
    then show ?thesis using Some by (simp add: step_of_def)
  qed (simp add: step_of_def)
  show "\<exists>r. steps_of db = Ok r"
    using row_to_step_wf [OF assms] by (auto simp: steps_of_def intro!: collect_steps_ok)
  have "\<exists>s. row_to_step r = Ok s" if "filter P (sort_key sr_seq (db_steps db)) = r # rs" for P r rs
  proof -
    have "r \<in> set (filter P (sort_key sr_seq (db_steps db)))" using that by simp
    then show ?thesis using row_to_step_wf [OF assms, of r] by simp
  qed
  then show "\<exists>r. resume_point db = Ok r" unfolding resume_point_def by (fastforce split: list.split sum.split)
qed

theorem store_keeps_wf_witness:
  "db_wf (snd (record_step ''a'' 0 ''k'' ''h'' empty_db)) \<and> db_wf (snd (begin_step ''a'' empty_db))
    \<and> db_wf (snd (finish_step ''a'' Succeeded None empty_db)) \<and> db_wf (snd (publish_artifact (\<lambda>s. s) ''a.json'' ''{}'' ''k'' ''a'' empty_db))
    \<and> (\<exists>r. step_of ''a'' empty_db = Ok r) \<and> (\<exists>r. steps_of empty_db = Ok r) \<and> (\<exists>r. resume_point empty_db = Ok r)"
  by (rule store_keeps_wf) (simp add: db_wf_def empty_db_def)

text \<open>
  Changed inputs invalidate a step. After a step is recorded it has exactly the given sequence,
  kind and input hash. If it had them before, nothing has changed at all; otherwise it is pending,
  without error and retries, and without artifacts. Other steps, their artifacts and all files stay.
\<close>

theorem record_step_resets:
  assumes "record_step i sq k h db = (r, db')"
  shows "r = Ok () \<and> (\<exists>row. find_row i db' = Some row \<and> sr_seq row = sq \<and> sr_kind row = k \<and> sr_input_hash row = h
        \<and> (if find_row i db = Some row then db' = db
           else sr_status row = ''pending'' \<and> sr_error row = None \<and> sr_retry row = 0
             \<and> (if find_row i db = None then db_artifacts db' = db_artifacts db
                else filter (\<lambda>a. ar_step_id a = i) (db_artifacts db') = [])))
    \<and> (\<forall>j. if j = i then True else find_row j db' = find_row j db)
    \<and> filter (\<lambda>a. ar_step_id a \<noteq> i) (db_artifacts db') = filter (\<lambda>a. ar_step_id a \<noteq> i) (db_artifacts db)
    \<and> db_files db' = db_files db"
proof (cases "find_row i db")
  case None
  then show ?thesis using assms by (auto simp: record_step_def find_row_def find_append split: option.splits)
next
  case (Some row)
  show ?thesis
  proof (cases "sr_seq row \<noteq> sq \<or> sr_kind row \<noteq> k \<or> sr_input_hash row \<noteq> h")
    case True
    define g where "g = (\<lambda>r :: step_row. r\<lparr>sr_seq := sq, sr_kind := k, sr_input_hash := h, sr_status := ''pending'', sr_error := None, sr_retry := 0\<rparr>)"
    have new: "r = Ok ()" "db' = (update_row i g db)\<lparr>db_artifacts := filter (\<lambda>a. ar_step_id a \<noteq> i) (db_artifacts db)\<rparr>"
      using assms Some True by (auto simp: record_step_def g_def)
    have "find_row j db' = (if j = i then Some (g row) else find_row j db)" for j
      using Some by (simp add: new find_update_row g_def)
    moreover have "row \<noteq> g row"
    proof
      assume "row = g row"
      then have "sr_seq row = sr_seq (g row)" "sr_kind row = sr_kind (g row)" "sr_input_hash row = sr_input_hash (g row)" by metis+
      then show False using True by (simp add: g_def)
    qed
    ultimately show ?thesis using Some new(1) by (simp add: new(2) g_def filter_empty_conv)
  next
    case False
    then show ?thesis using assms Some by (auto simp: record_step_def)
  qed
qed

end
