(* ===== verification/Drive.thy ===== *)
theory Drive
  imports Process Store Config
begin

text \<open>
  \<open>jitgen-orchestrator/src/run.rs\<close>: the loop over the ranked targets of a run with its checkpoint
  per target (\<open>drive_targets\<close>), and the steps that store the configuration and the report. The store
  is used through the operations of \<open>RunHandle\<close>; the interface \<open>step_store\<close> says what they promise,
  faults included, and is interpreted on the tables of \<open>Store\<close> and on a store that fails after any
  number of durable operations. JSON and SHA-256 are the parameters of a \<open>codec\<close>.
\<close>

section \<open>The code\<close>

subsection \<open>Parameters\<close>

record codec =
  cd_sha :: "str \<Rightarrow> str"
  cd_target :: "target \<Rightarrow> str + str"
  cd_outcome :: "target_outcome \<Rightarrow> str + str"
  cd_parse_outcome :: "str \<Rightarrow> str + target_outcome"
  cd_trusted :: "trusted_config \<Rightarrow> str + str"
  cd_trusted_pretty :: "trusted_config \<Rightarrow> str + str"
  cd_parse_trusted :: "str \<Rightarrow> str + trusted_config"
  cd_report_pretty :: "run_report \<Rightarrow> str + str"
  cd_parse_report :: "str \<Rightarrow> str + run_report"

text \<open>The operations of a \<open>RunHandle\<close> the orchestrator calls, and reading a file of the run's directory.\<close>

record 's store_ops =
  so_record :: "str \<Rightarrow> int \<Rightarrow> str \<Rightarrow> str \<Rightarrow> 's \<Rightarrow> (state_error + unit) \<times> 's"
  so_begin :: "str \<Rightarrow> 's \<Rightarrow> (state_error + unit) \<times> 's"
  so_finish :: "str \<Rightarrow> step_status \<Rightarrow> str option \<Rightarrow> 's \<Rightarrow> (state_error + unit) \<times> 's"
  so_publish :: "str \<Rightarrow> str \<Rightarrow> str \<Rightarrow> str \<Rightarrow> 's \<Rightarrow> (state_error + artifact_record) \<times> 's"
  so_step :: "str \<Rightarrow> 's \<Rightarrow> state_error + step_record option"
  so_read :: "str \<Rightarrow> 's \<Rightarrow> str + str option"

subsection \<open>Helpers\<close>

definition id_char :: "str \<Rightarrow> str" where
  "id_char k = (let c = to_ascii_lowercase k in if is_ascii_alnum c \<or> c \<in> {''_'', ''-''} then c else ''-'')"

definition sanitize_id :: "str \<Rightarrow> str" where
  "sanitize_id s = concat (take 64 (map id_char (chars s)))"

definition target_step :: "str \<Rightarrow> str" where "target_step n = ''target-'' @ n"
definition target_rel :: "str \<Rightarrow> str" where "target_rel n = ''targets/'' @ n @ ''.json''"

definition target_hash :: "codec \<Rightarrow> ranked_target \<Rightarrow> str \<Rightarrow> orch_error + str" where
  "target_hash cd rt config_fp =
     (case cd_target cd (rt_target rt) of
        Err e \<Rightarrow> Err (OrConfig (''cannot hash target: '' @ e))
      | Ok bytes \<Rightarrow> Ok (cd_sha cd (bytes @ [CHR 0x1F] @ config_fp)))"

definition config_fingerprint :: "codec \<Rightarrow> trusted_config \<Rightarrow> str" where
  "config_fingerprint cd trusted =
     (case cd_trusted cd trusted of Ok bytes \<Rightarrow> cd_sha cd bytes | Err _ \<Rightarrow> ''config-fp-unavailable'')"

definition encode_outcome :: "codec \<Rightarrow> target_outcome \<Rightarrow> orch_error + str" where
  "encode_outcome cd out =
     (case cd_outcome cd out of Err e \<Rightarrow> Err (OrConfig (''cannot encode outcome: '' @ e)) | Ok b \<Rightarrow> Ok b)"

definition decode_outcome :: "codec \<Rightarrow> str \<Rightarrow> orch_error + target_outcome" where
  "decode_outcome cd bytes =
     (case cd_parse_outcome cd bytes of
        Err e \<Rightarrow> Err (OrConfig (''cannot decode stored outcome: '' @ e)) | Ok out \<Rightarrow> Ok out)"

definition read_run_artifact :: "'s store_ops \<Rightarrow> str \<Rightarrow> 's \<Rightarrow> orch_error + str option" where
  "read_run_artifact ops rel s =
     (case reject_unsafe_rel rel of
        Err e \<Rightarrow> Err (OrGit e)
      | Ok _ \<Rightarrow> (case so_read ops rel s of Err e \<Rightarrow> Err (OrIo e) | Ok b \<Rightarrow> Ok b))"

subsection \<open>The loop\<close>

text \<open>The part of an iteration from \<open>begin_step\<close> on.\<close>

definition process_step ::
  "codec \<Rightarrow> 's store_ops \<Rightarrow> (ranked_target \<Rightarrow> 'w \<Rightarrow> (orch_error + target_outcome) \<times> 'w)
    \<Rightarrow> str \<Rightarrow> str \<Rightarrow> ranked_target \<Rightarrow> 's \<Rightarrow> 'w \<Rightarrow> (orch_error + target_outcome) \<times> 's \<times> 'w" where
  "process_step cd ops process step_id rel rt s w =
     (case so_begin ops step_id s of
        (Err e, s) \<Rightarrow> (Err (OrState e), s, w)
      | (Ok _, s) \<Rightarrow>
          (case process rt w of
             (Err e, w) \<Rightarrow> (Err e, snd (so_finish ops step_id StepFailed (Some (show_orch e)) s), w)
           | (Ok out, w) \<Rightarrow>
               (case encode_outcome cd out of
                  Err e \<Rightarrow> (Err e, s, w)
                | Ok bytes \<Rightarrow>
                    (case so_publish ops rel bytes ''target'' step_id s of
                       (Err e, s) \<Rightarrow> (Err (OrState e), s, w)
                     | (Ok _, s) \<Rightarrow>
                         (case so_finish ops step_id Succeeded None s of
                            (Err e, s) \<Rightarrow> (Err (OrState e), s, w)
                          | (Ok _, s) \<Rightarrow> (Ok out, s, w))))))"

definition drive_target ::
  "codec \<Rightarrow> 's store_ops \<Rightarrow> str \<Rightarrow> (ranked_target \<Rightarrow> 'w \<Rightarrow> (orch_error + target_outcome) \<times> 'w)
    \<Rightarrow> nat \<Rightarrow> ranked_target \<Rightarrow> 's \<Rightarrow> 'w \<Rightarrow> (orch_error + target_outcome) \<times> 's \<times> 'w" where
  "drive_target cd ops config_fp process i rt s w =
     (let n = sanitize_id (tg_id (rt_target rt));
          step_id = target_step n;
          artifact_rel = target_rel n in
      (case target_hash cd rt config_fp of
         Err e \<Rightarrow> (Err e, s, w)
       | Ok input_hash \<Rightarrow>
           (case so_record ops step_id (int i) ''target'' input_hash s of
              (Err e, s) \<Rightarrow> (Err (OrState e), s, w)
            | (Ok _, s) \<Rightarrow>
                (case so_step ops step_id s of
                   Err e \<Rightarrow> (Err (OrState e), s, w)
                 | Ok None \<Rightarrow> (Err (OrInvalid ''state'' ''step vanished after record''), s, w)
                 | Ok (Some step) \<Rightarrow>
                     (case (if is_done (sp_status step) then read_run_artifact ops artifact_rel s else Ok None) of
                        Err e \<Rightarrow> (Err e, s, w)
                      | Ok (Some bytes) \<Rightarrow> (decode_outcome cd bytes, s, w)
                      | Ok None \<Rightarrow> process_step cd ops process step_id artifact_rel rt s w)))))"

fun drive_from ::
  "codec \<Rightarrow> 's store_ops \<Rightarrow> str \<Rightarrow> (ranked_target \<Rightarrow> 'w \<Rightarrow> (orch_error + target_outcome) \<times> 'w)
    \<Rightarrow> nat \<Rightarrow> ranked_target list \<Rightarrow> 's \<Rightarrow> 'w \<Rightarrow> (orch_error + target_outcome list) \<times> 's \<times> 'w" where
  "drive_from cd ops config_fp process i [] s w = (Ok [], s, w)"
| "drive_from cd ops config_fp process i (rt # rts) s w =
     (case drive_target cd ops config_fp process i rt s w of
        (Err e, s, w) \<Rightarrow> (Err e, s, w)
      | (Ok out, s, w) \<Rightarrow>
          (case drive_from cd ops config_fp process (Suc i) rts s w of
             (Err e, s, w) \<Rightarrow> (Err e, s, w)
           | (Ok outs, s, w) \<Rightarrow> (Ok (out # outs), s, w)))"

definition drive_targets ::
  "codec \<Rightarrow> 's store_ops \<Rightarrow> ranked_target list \<Rightarrow> str \<Rightarrow> (ranked_target \<Rightarrow> 'w \<Rightarrow> (orch_error + target_outcome) \<times> 'w)
    \<Rightarrow> 's \<Rightarrow> 'w \<Rightarrow> (orch_error + target_outcome list) \<times> 's \<times> 'w" where
  "drive_targets cd ops ranked config_fp process = drive_from cd ops config_fp process 0 ranked"

subsection \<open>The other steps\<close>

text \<open>The four calls \<open>persist_trusted\<close> and \<open>persist_report\<close> make with their own names.\<close>

definition persist_step :: "codec \<Rightarrow> 's store_ops \<Rightarrow> str \<Rightarrow> int \<Rightarrow> str \<Rightarrow> str \<Rightarrow> str \<Rightarrow> 's \<Rightarrow> (orch_error + unit) \<times> 's" where
  "persist_step cd ops step_id sq rel kind bytes s =
     (case so_record ops step_id sq step_id (cd_sha cd bytes) s of
        (Err e, s) \<Rightarrow> (Err (OrState e), s)
      | (Ok _, s) \<Rightarrow>
          (case so_begin ops step_id s of
             (Err e, s) \<Rightarrow> (Err (OrState e), s)
           | (Ok _, s) \<Rightarrow>
               (case so_publish ops rel bytes kind step_id s of
                  (Err e, s) \<Rightarrow> (Err (OrState e), s)
                | (Ok _, s) \<Rightarrow>
                    (case so_finish ops step_id Succeeded None s of
                       (Err e, s) \<Rightarrow> (Err (OrState e), s)
                     | (Ok _, s) \<Rightarrow> (Ok (), s)))))"

definition persist_trusted :: "codec \<Rightarrow> 's store_ops \<Rightarrow> trusted_config \<Rightarrow> 's \<Rightarrow> (orch_error + unit) \<times> 's" where
  "persist_trusted cd ops trusted s =
     (case cd_trusted_pretty cd trusted of
        Err e \<Rightarrow> (Err (OrConfig (''cannot serialize trusted config: '' @ e)), s)
      | Ok bytes \<Rightarrow> persist_step cd ops ''setup'' (- 1) ''config.json'' ''config'' bytes s)"

definition persist_report :: "codec \<Rightarrow> 's store_ops \<Rightarrow> run_report \<Rightarrow> 's \<Rightarrow> (orch_error + unit) \<times> 's" where
  "persist_report cd ops report s =
     (case cd_report_pretty cd report of
        Err e \<Rightarrow> (Err (OrConfig (''failed to serialize report: '' @ e)), s)
      | Ok bytes \<Rightarrow> persist_step cd ops ''report'' (2 ^ 63 - 1) ''report.json'' ''report'' bytes s)"

definition load_trusted :: "codec \<Rightarrow> 's store_ops \<Rightarrow> 's \<Rightarrow> orch_error + trusted_config" where
  "load_trusted cd ops s =
     (case read_run_artifact ops ''config.json'' s of
        Err e \<Rightarrow> Err e
      | Ok None \<Rightarrow> Err (OrConfig ''run has no persisted config.json (cannot resume)'')
      | Ok (Some bytes) \<Rightarrow>
          (case cd_parse_trusted cd bytes of
             Err e \<Rightarrow> Err (OrConfig (''cannot parse stored config.json: '' @ e)) | Ok t \<Rightarrow> Ok t))"

section \<open>The store\<close>

text \<open>
  A durable operation either takes its whole effect and returns its result, or fails, with or
  without the effect. The law of \<open>publish_artifact\<close> also lets the file be replaced without the row.
\<close>

definition took :: "(state_error + 'a) \<times> run_db \<Rightarrow> run_db \<Rightarrow> (state_error + 'a) \<times> run_db \<Rightarrow> bool" where
  "took full db got \<longleftrightarrow> fst got = fst full \<and> snd got = snd full \<or> ((\<exists>e. fst got = Err e) \<and> snd got \<in> {db, snd full})"

locale step_store =
  fixes ops :: "'s store_ops" and view :: "'s \<Rightarrow> run_db" and sha :: "str \<Rightarrow> str"
  assumes record_law: "took (record_step i sq k h (view s)) (view s) (map_prod id view (so_record ops i sq k h s))"
    and begin_law: "took (begin_step i (view s)) (view s) (map_prod id view (so_begin ops i s))"
    and finish_law: "took (finish_step i st er (view s)) (view s) (map_prod id view (so_finish ops i st er s))"
    and publish_law: "took (publish_artifact sha rel bytes k i (view s)) (view s) (map_prod id view (so_publish ops rel bytes k i s))
        \<or> (\<exists>e s'. so_publish ops rel bytes k i s = (Err e, s') \<and> view s' = snd (write_artifact rel bytes (view s)))"
    and step_law: "so_step ops i s = Ok x \<Longrightarrow> step_of i (view s) = Ok x"
    and read_law: "so_read ops rel s = Ok b \<Longrightarrow> b = read_file_at rel (view s)"

locale reliable_store = step_store +
  assumes record_exact: "map_prod id view (so_record ops i sq k h s) = record_step i sq k h (view s)"
    and begin_exact: "map_prod id view (so_begin ops i s) = begin_step i (view s)"
    and finish_exact: "map_prod id view (so_finish ops i st er s) = finish_step i st er (view s)"
    and publish_exact: "map_prod id view (so_publish ops rel bytes k i s) = publish_artifact sha rel bytes k i (view s)"
    and step_exact: "so_step ops i s = step_of i (view s)"
    and read_exact: "so_read ops rel s = Ok (read_file_at rel (view s))"

definition db_ops :: "(str \<Rightarrow> str) \<Rightarrow> run_db store_ops" where
  "db_ops sha = \<lparr>so_record = record_step, so_begin = begin_step, so_finish = finish_step,
     so_publish = publish_artifact sha, so_step = step_of, so_read = (\<lambda>rel db. Ok (read_file_at rel db))\<rparr>"

text \<open>A store with a budget of durable operations: when it is used up, nothing happens any more.\<close>

definition limited :: "('d \<Rightarrow> (state_error + 'a) \<times> 'd) \<Rightarrow> 'd \<times> nat \<Rightarrow> (state_error + 'a) \<times> 'd \<times> nat" where
  "limited f s = (case s of (db, 0) \<Rightarrow> (Err (StIo ''crashed''), db, 0) | (db, Suc n) \<Rightarrow> (case f db of (r, db) \<Rightarrow> (r, db, n)))"

definition limited_publish :: "(str \<Rightarrow> str) \<Rightarrow> str \<Rightarrow> str \<Rightarrow> str \<Rightarrow> str \<Rightarrow> run_db \<times> nat \<Rightarrow> (state_error + artifact_record) \<times> run_db \<times> nat" where
  "limited_publish sha rel bytes k i s =
     (case limited (write_artifact rel bytes) s of
        (Err e, s) \<Rightarrow> (Err e, s)
      | (Ok _, s) \<Rightarrow> limited (insert_artifact sha rel bytes k i) s)"

definition crash_ops :: "(str \<Rightarrow> str) \<Rightarrow> (run_db \<times> nat) store_ops" where
  "crash_ops sha = \<lparr>so_record = (\<lambda>i sq k h. limited (record_step i sq k h)), so_begin = (\<lambda>i. limited (begin_step i)),
     so_finish = (\<lambda>i st er. limited (finish_step i st er)), so_publish = limited_publish sha,
     so_step = (\<lambda>i s. step_of i (fst s)), so_read = (\<lambda>rel s. Ok (read_file_at rel (fst s)))\<rparr>"

lemma took_refl: "took full db full"
  by (simp add: took_def)

lemma took_limited: "took (f (fst s)) (fst s) (map_prod id fst (limited f s))"
  by (auto simp: took_def limited_def split: nat.splits prod.splits)

interpretation plain: reliable_store "db_ops sha" "\<lambda>db. db" sha for sha
  by unfold_locales (simp_all add: db_ops_def took_refl prod.map_id0 map_prod_def split_beta)

lemma limited_publish_law:
  "took (publish_artifact sha rel bytes k i (fst s)) (fst s) (map_prod id fst (limited_publish sha rel bytes k i s))
    \<or> (\<exists>e s'. limited_publish sha rel bytes k i s = (Err e, s') \<and> fst s' = snd (write_artifact rel bytes (fst s)))"
  by (cases s; cases "snd s"; cases "snd s - 1")
    (auto simp: took_def limited_publish_def limited_def publish_artifact_def split: prod.splits sum.splits)

interpretation crashing: step_store "crash_ops sha" fst sha for sha
  by unfold_locales (simp_all add: crash_ops_def took_limited limited_publish_law del: split_paired_Ex)

section \<open>Lemmas\<close>

subsection \<open>Names\<close>

lemma id_char_plain: "CHR ''/'' \<notin> set (id_char k)" "CHR 0x5C \<notin> set (id_char k)"
  by (auto simp: id_char_def Let_def is_ascii_alnum_def ascii_alnum_def ascii_upper_def ascii_lower_def ascii_digit_def split: list.splits if_splits)

lemma sanitize_id_plain: "CHR ''/'' \<notin> set (sanitize_id s)" "CHR 0x5C \<notin> set (sanitize_id s)"
  using id_char_plain by (auto simp: sanitize_id_def dest!: in_set_takeD)

definition outcome_file :: "str \<Rightarrow> str list" where
  "outcome_file n = [''targets'', n @ ''.json'']"

lemma outcome_file_inject [simp]: "outcome_file m = outcome_file n \<longleftrightarrow> m = n"
  by (simp add: outcome_file_def)

lemma components_outcome:
  "components (target_rel (sanitize_id s)) = map Normal (outcome_file (sanitize_id s))"
proof -
  have "list_all plain_name (outcome_file (sanitize_id s))"
    using sanitize_id_plain [of s] by (cases "sanitize_id s") (auto simp: outcome_file_def plain_name_def)
  from components_join_plain [OF this] show ?thesis by (simp add: outcome_file_def target_rel_def)
qed

lemma write_outcome:
  "write_artifact (target_rel (sanitize_id s)) bytes db =
     (Ok (), db\<lparr>db_files := (db_files db)(outcome_file (sanitize_id s) \<mapsto> bytes)\<rparr>)"
  unfolding write_artifact_def safe_join_def components_outcome by (simp add: outcome_file_def)

lemma read_outcome: "read_file_at (target_rel (sanitize_id s)) db = db_files db (outcome_file (sanitize_id s))"
  by (simp add: read_file_at_def components_outcome)

lemma outcome_rel_safe: "reject_unsafe_rel (target_rel (sanitize_id s)) = Ok ()"
  using sanitize_id_plain [of s] unfolding reject_unsafe_rel_def components_outcome by (simp add: outcome_file_def target_rel_def)

lemma target_step_inject [simp]: "target_step m = target_step n \<longleftrightarrow> m = n"
  by (simp add: target_step_def)

subsection \<open>The tables\<close>

lemma find_row_begin:
  "find_row j (snd (begin_step i db)) = (if j = i then map_option (\<lambda>r. r\<lparr>sr_retry := sr_retry r
      + (if sr_status r \<in> {''running'', ''failed''} then 1 else 0), sr_status := ''running''\<rparr>) (find_row i db) else find_row j db)"
  by (simp add: begin_step_def find_update_row)

lemma find_row_finish:
  "find_row j (snd (finish_step i st e db)) = (if j = i then map_option (\<lambda>r. r\<lparr>sr_status := status_str st,
      sr_error := map_option (\<lambda>e. cap_str e MAX_ERROR_LEN) e\<rparr>) (find_row i db) else find_row j db)"
  by (simp add: finish_step_def find_update_row)

lemma find_row_write [simp]: "find_row j (snd (write_artifact rel bytes db)) = find_row j db"
  by (simp add: write_artifact_def find_row_def split: sum.splits)

lemma find_row_insert [simp]: "find_row j (snd (insert_artifact sha rel bytes k i db)) = find_row j db"
  by (simp add: insert_artifact_def Let_def)

lemma find_row_publish [simp]: "find_row j (snd (publish_artifact sha rel bytes k i db)) = find_row j db"
  by (simp add: publish_artifact_def write_artifact_def insert_artifact_def Let_def find_row_def split: sum.split)

lemma files_begin [simp]: "db_files (snd (begin_step i db)) = db_files db"
  and files_finish [simp]: "db_files (snd (finish_step i st e db)) = db_files db"
  and files_record [simp]: "db_files (snd (record_step i sq k h db)) = db_files db"
  by (simp_all add: begin_step_def finish_step_def record_step_def split: option.splits)

lemma files_publish:
  "db_files (snd (publish_artifact sha rel bytes k i db)) = db_files (snd (write_artifact rel bytes db))"
  by (simp add: publish_artifact_def insert_artifact_def Let_def split: prod.splits sum.splits)

text \<open>What a recorded step is afterwards.\<close>

lemma find_row_record:
  "find_row j (snd (record_step i sq k h db)) =
     (if j = i then (case find_row i db of
          None \<Rightarrow> Some \<lparr>sr_step_id = i, sr_seq = sq, sr_kind = k, sr_input_hash = h, sr_status = ''pending'', sr_error = None, sr_retry = 0\<rparr>
        | Some r \<Rightarrow> if sr_seq r = sq \<and> sr_kind r = k \<and> sr_input_hash r = h then Some r
            else Some (r\<lparr>sr_seq := sq, sr_kind := k, sr_input_hash := h, sr_status := ''pending'', sr_error := None, sr_retry := 0\<rparr>))
      else find_row j db)"
proof (cases "find_row i db")
  case None
  then show ?thesis by (auto simp: record_step_def find_row_def find_append split: option.splits)
next
  case (Some r)
  then show ?thesis by (auto simp: record_step_def find_update_row)
qed

lemma recorded_row:
  "\<exists>row. find_row i (snd (record_step i sq k h db)) = Some row
     \<and> sr_seq row = sq \<and> sr_kind row = k \<and> sr_input_hash row = h"
  by (simp add: find_row_record split: option.split)

subsection \<open>Sealed outcomes\<close>

text \<open>
  The invariant of the checkpoints: the file of a target whose step is done holds an outcome that
  was made for the step's input hash.
\<close>

definition done_status :: "str \<Rightarrow> bool" where
  "done_status s \<longleftrightarrow> s = ''succeeded'' \<or> s = ''skipped''"

lemma done_status_iff: "status_parse s = Some st \<Longrightarrow> is_done st \<longleftrightarrow> done_status s"
  by (auto simp: status_parse_def done_status_def split: if_splits)

lemma done_status_simps [simp]: "\<not> done_status ''pending''" "\<not> done_status ''running''" "\<not> done_status ''failed''"
  by (simp_all add: done_status_def)

definition holds :: "codec \<Rightarrow> (str \<Rightarrow> target_outcome \<Rightarrow> bool) \<Rightarrow> str \<Rightarrow> str \<Rightarrow> bool" where
  "holds cd made h bytes \<longleftrightarrow> (case cd_parse_outcome cd bytes of Ok out \<Rightarrow> made h out | Err _ \<Rightarrow> False)"

definition sealed :: "codec \<Rightarrow> (str \<Rightarrow> target_outcome \<Rightarrow> bool) \<Rightarrow> run_db \<Rightarrow> bool" where
  "sealed cd made db \<longleftrightarrow> (\<forall>n r b. find_row (target_step n) db = Some r \<longrightarrow> done_status (sr_status r)
     \<longrightarrow> db_files db (outcome_file n) = Some b \<longrightarrow> holds cd made (sr_input_hash r) b)"

lemma sealed_empty: "sealed cd made empty_db"
  by (simp add: sealed_def find_row_def empty_db_def)

lemma sealed_record: "sealed cd made db \<Longrightarrow> sealed cd made (snd (record_step i sq k h db))"
  by (auto simp: sealed_def find_row_record split: option.splits if_splits)

lemma sealed_begin: "sealed cd made db \<Longrightarrow> sealed cd made (snd (begin_step i db))"
  by (auto simp: sealed_def find_row_begin split: if_splits)

text \<open>Finishing is safe when the step does not become done, is not a target's, or its file is sound.\<close>

lemma sealed_finish:
  assumes "sealed cd made db"
    and "\<And>n r b. i = target_step n \<Longrightarrow> done_status (status_str st) \<Longrightarrow> find_row i db = Some r
      \<Longrightarrow> db_files db (outcome_file n) = Some b \<Longrightarrow> holds cd made (sr_input_hash r) b"
  shows "sealed cd made (snd (finish_step i st e db))"
  using assms by (auto simp: sealed_def find_row_finish split: if_splits)

text \<open>Replacing a file is safe when it is not a target's or the target's step is not done.\<close>

lemma sealed_write:
  assumes "sealed cd made db"
    and "\<And>n r. outcome_file n = normals (components rel) \<Longrightarrow> find_row (target_step n) db = Some r \<Longrightarrow> \<not> done_status (sr_status r)"
  shows "sealed cd made (snd (write_artifact rel bytes db))"
  using assms by (auto simp: sealed_def write_artifact_def split: sum.splits if_splits)

lemma sealed_files:
  "sealed cd made db \<Longrightarrow> db_steps db' = db_steps db \<Longrightarrow> db_files db' = db_files db \<Longrightarrow> sealed cd made db'"
  by (simp add: sealed_def find_row_def)

lemma sealed_publish:
  assumes "sealed cd made (snd (write_artifact rel bytes db))"
  shows "sealed cd made (snd (publish_artifact sha rel bytes k i db))"
  using assms by (auto simp: publish_artifact_def insert_artifact_def Let_def elim!: sealed_files split: prod.splits sum.splits)

text \<open>A target's step that is under way: recorded with an input hash, and not done.\<close>

definition under_way :: "str \<Rightarrow> str \<Rightarrow> run_db \<Rightarrow> bool" where
  "under_way i h db \<longleftrightarrow> (\<exists>r. find_row i db = Some r \<and> sr_input_hash r = h \<and> \<not> done_status (sr_status r))"

text \<open>
  An honest process and codec: what the process returns was made for the target's input hash, and
  an outcome that can be written is read back.
\<close>

definition honest ::
  "codec \<Rightarrow> (str \<Rightarrow> target_outcome \<Rightarrow> bool) \<Rightarrow> str \<Rightarrow> (ranked_target \<Rightarrow> 'w \<Rightarrow> (orch_error + target_outcome) \<times> 'w) \<Rightarrow> bool" where
  "honest cd made config_fp process \<longleftrightarrow>
     (\<forall>rt w out h. fst (process rt w) = Ok out \<longrightarrow> target_hash cd rt config_fp = Ok h \<longrightarrow> made h out)"

definition reads_back :: "codec \<Rightarrow> bool" where
  "reads_back cd \<longleftrightarrow> (\<forall>out bytes. cd_outcome cd out = Ok bytes \<longrightarrow> cd_parse_outcome cd bytes = Ok out)"

context step_store begin

lemma record_view:
  "so_record ops i sq k h s = (r, s') \<Longrightarrow> view s' \<in> {view s, snd (record_step i sq k h (view s))}
    \<and> (case r of Ok _ \<Rightarrow> view s' = snd (record_step i sq k h (view s)) | Err _ \<Rightarrow> True)"
  using record_law [of i sq k h s] by (auto simp: took_def split: sum.splits)

lemma begin_view:
  "so_begin ops i s = (r, s') \<Longrightarrow> view s' \<in> {view s, snd (begin_step i (view s))}
    \<and> (case r of Ok _ \<Rightarrow> view s' = snd (begin_step i (view s)) | Err _ \<Rightarrow> True)"
  using begin_law [of i s] by (auto simp: took_def split: sum.splits)

lemma finish_view:
  "so_finish ops i st er s = (r, s') \<Longrightarrow> view s' \<in> {view s, snd (finish_step i st er (view s))}
    \<and> (case r of Ok _ \<Rightarrow> view s' = snd (finish_step i st er (view s)) | Err _ \<Rightarrow> True)"
  using finish_law [of i st er s] by (auto simp: took_def split: sum.splits)

lemma publish_view:
  assumes "so_publish ops rel bytes k i s = (r, s')"
  shows "view s' \<in> {view s, snd (write_artifact rel bytes (view s)), snd (publish_artifact sha rel bytes k i (view s))}"
    "r = Ok a \<Longrightarrow> view s' = snd (publish_artifact sha rel bytes k i (view s))"
  using publish_law [of rel bytes k i s] assms by (auto simp: took_def)

lemma publish_sealed:
  assumes "so_publish ops rel bytes k i s = (r, s')" "sealed cd made (view s)"
    and "\<And>n r. outcome_file n = normals (components rel) \<Longrightarrow> find_row (target_step n) (view s) = Some r \<Longrightarrow> \<not> done_status (sr_status r)"
  shows "sealed cd made (view s')"
  using publish_view (1) [OF assms(1)] sealed_write [OF assms(2,3)] sealed_publish assms(2) by auto

lemma process_step_sealed:
  assumes run: "process_step cd ops process (target_step n) (target_rel n) rt s w = (res, s', w')"
    and seal: "sealed cd made (view s)" and way: "find_row (target_step n) (view s) = Some row" "sr_input_hash row = h"
    and n: "n = sanitize_id i" and hash: "target_hash cd rt config_fp = Ok h"
    and honest: "honest cd made config_fp process" "reads_back cd"
  shows "sealed cd made (view s') \<and> (case res of Ok out \<Rightarrow> made h out | Err _ \<Rightarrow> True)"
proof -
  obtain r1 s1 where b: "so_begin ops (target_step n) s = (r1, s1)" by (cases "so_begin ops (target_step n) s")
  have s1: "sealed cd made (view s1)" using begin_view [OF b] sealed_begin [OF seal] seal by auto
  show ?thesis
  proof (cases r1)
    case (Inl e)
    then show ?thesis using run b s1 by (auto simp: process_step_def)
  next
    case (Inr u)
    have way1: "under_way (target_step n) h (view s1)"
      using begin_view [OF b] Inr way by (auto simp: under_way_def find_row_begin)
    obtain res1 w1 where p: "process rt w = (res1, w1)" by (cases "process rt w")
    show ?thesis
    proof (cases res1)
      case (Inl e)
      obtain r2 s2 where f: "so_finish ops (target_step n) StepFailed (Some (show_orch e)) s1 = (r2, s2)"
        by (cases "so_finish ops (target_step n) StepFailed (Some (show_orch e)) s1")
      have "sealed cd made (view s2)" using finish_view [OF f] sealed_finish [OF s1, of _ StepFailed] s1 by auto
      then show ?thesis using run b \<open>r1 = Inr u\<close> p Inl f by (auto simp: process_step_def)
    next
      case (Inr out)
      have m: "made h out" using honest(1) p Inr hash unfolding honest_def by (metis fst_conv)
      show ?thesis
      proof (cases "cd_outcome cd out")
        case (Inl e)
        then show ?thesis using run b \<open>r1 = Inr u\<close> p Inr s1 by (auto simp: process_step_def encode_outcome_def)
      next
        case enc: (Inr bytes)
        obtain r2 s2 where pub: "so_publish ops (target_rel n) bytes ''target'' (target_step n) s1 = (r2, s2)"
          by (cases "so_publish ops (target_rel n) bytes ''target'' (target_step n) s1")
        have s2: "sealed cd made (view s2)"
          using way1 n by (intro publish_sealed [OF pub s1]) (auto simp: under_way_def components_outcome)
        show ?thesis
        proof (cases r2)
          case (Inl e)
          then show ?thesis using run b \<open>r1 = Inr u\<close> p Inr enc pub s2 by (auto simp: process_step_def encode_outcome_def)
        next
          case (Inr a)
          obtain r3 s3 where f: "so_finish ops (target_step n) Succeeded None s2 = (r3, s3)"
            by (cases "so_finish ops (target_step n) Succeeded None s2")
          have view2: "view s2 = snd (publish_artifact sha (target_rel n) bytes ''target'' (target_step n) (view s1))"
            using publish_view(2) [OF pub Inr] .
          have "holds cd made h bytes" using enc m honest(2) by (simp add: holds_def reads_back_def)
          then have "sealed cd made (snd (finish_step (target_step n) Succeeded None (view s2)))"
            using way1 n by (intro sealed_finish [OF s2]) (auto simp: view2 files_publish write_outcome under_way_def)
          then have "sealed cd made (view s3)" using finish_view [OF f] s2 by auto
          then show ?thesis using run b \<open>r1 = Inr u\<close> p \<open>res1 = Inr out\<close> enc pub Inr f m
            by (auto simp: process_step_def encode_outcome_def split: sum.splits)
        qed
      qed
    qed
  qed
qed

lemma drive_target_sealed:
  assumes run: "drive_target cd ops config_fp process i rt s w = (res, s', w')"
    and seal: "sealed cd made (view s)"
    and honest: "honest cd made config_fp process" "reads_back cd"
  shows "sealed cd made (view s')
    \<and> (case res of Ok out \<Rightarrow> (case target_hash cd rt config_fp of Ok h \<Rightarrow> made h out | Err _ \<Rightarrow> False) | Err _ \<Rightarrow> True)"
proof (cases "target_hash cd rt config_fp")
  case (Inl e)
  then show ?thesis using run seal by (auto simp: drive_target_def Let_def)
next
  case hash: (Inr h)
  define n where "n = sanitize_id (tg_id (rt_target rt))"
  obtain r1 s1 where rc: "so_record ops (target_step n) (int i) ''target'' h s = (r1, s1)"
    by (cases "so_record ops (target_step n) (int i) ''target'' h s")
  have s1: "sealed cd made (view s1)" using record_view [OF rc] sealed_record [OF seal] seal by auto
  show ?thesis
  proof (cases r1)
    case (Inl e)
    then show ?thesis using run hash rc s1 by (auto simp: drive_target_def Let_def n_def)
  next
    case ok: (Inr u)
    obtain row where row: "find_row (target_step n) (view s1) = Some row" "sr_input_hash row = h"
      using record_view [OF rc] ok recorded_row [of "target_step n" "int i" "''target''" h "view s"] by auto
    show ?thesis
    proof (cases "\<exists>st. so_step ops (target_step n) s1 = Ok (Some st)")
      case False
      then show ?thesis using run hash rc ok s1 by (auto simp: drive_target_def Let_def n_def split: sum.splits option.splits)
    next
      case True
      then obtain st where st: "so_step ops (target_step n) s1 = Ok (Some st)" by blast
      let ?load = "if is_done (sp_status st) then read_run_artifact ops (target_rel n) s1 else Ok None"
      have run': "(case ?load of Err e \<Rightarrow> (Err e, s1, w) | Ok (Some bytes) \<Rightarrow> (decode_outcome cd bytes, s1, w)
          | Ok None \<Rightarrow> process_step cd ops process (target_step n) (target_rel n) rt s1 w) = (res, s', w')"
        using run unfolding drive_target_def Let_def n_def [symmetric] by (simp only: hash rc ok st sum.case prod.case option.case)
      consider (err) e where "?load = Err e" | (loaded) bytes where "?load = Ok (Some bytes)" | (fresh) "?load = Ok None"
        by (cases ?load) auto
      then show ?thesis
      proof cases
        case err
        then show ?thesis using run' s1 by auto
      next
        case loaded
        then have read: "is_done (sp_status st)" "db_files (view s1) (outcome_file n) = Some bytes"
          using read_law [of "target_rel n" s1 "Some bytes"]
          by (auto simp: read_run_artifact_def n_def read_outcome split: if_splits sum.splits)
        have "done_status (sr_status row)"
          using step_law [OF st] row(1) read(1)
          by (auto simp: step_of_def row_to_step_def dest: done_status_iff split: sum.splits option.splits)
        then have "holds cd made h bytes" using s1 row read(2) by (auto simp: sealed_def)
        then show ?thesis using run' loaded s1 hash by (auto simp: holds_def decode_outcome_def split: sum.splits)
      next
        case fresh
        then have "process_step cd ops process (target_step n) (target_rel n) rt s1 w = (res, s', w')" using run' by simp
        from process_step_sealed [OF this s1 row n_def hash honest] show ?thesis using hash by (cases res) auto
      qed
    qed
  qed
qed

lemma drive_from_sealed:
  assumes "drive_from cd ops config_fp process i rts s w = (res, s', w')" "sealed cd made (view s)"
    "honest cd made config_fp process" "reads_back cd"
  shows "sealed cd made (view s')
    \<and> (case res of Ok outs \<Rightarrow> list_all2 (\<lambda>rt out. case target_hash cd rt config_fp of Ok h \<Rightarrow> made h out | Err _ \<Rightarrow> False) rts outs
       | Err _ \<Rightarrow> True)"
  using assms(1,2)
proof (induction rts arbitrary: i s w res s' w')
  case Nil
  then show ?case by auto
next
  case (Cons rt rts)
  obtain r1 s1 w1 where one: "drive_target cd ops config_fp process i rt s w = (r1, s1, w1)"
    by (cases "drive_target cd ops config_fp process i rt s w") auto
  note one' = drive_target_sealed [OF one Cons.prems(2) assms(3,4)]
  obtain r2 s2 w2 where rest: "drive_from cd ops config_fp process (Suc i) rts s1 w1 = (r2, s2, w2)"
    by (cases "drive_from cd ops config_fp process (Suc i) rts s1 w1") auto
  show ?case
  proof (cases r1)
    case (Inl e)
    then show ?thesis using Cons.prems one one' by auto
  next
    case (Inr out)
    then have "sealed cd made (view s2) \<and> (case r2 of Ok outs \<Rightarrow>
        list_all2 (\<lambda>rt out. case target_hash cd rt config_fp of Ok h \<Rightarrow> made h out | Err _ \<Rightarrow> False) rts outs | Err _ \<Rightarrow> True)"
      using Cons.IH rest one' by blast
    then show ?thesis using Cons.prems one one' rest Inr by (cases r2) auto
  qed
qed

lemma persist_step_sealed:
  assumes run: "persist_step cd ops step_id sq rel kind bytes s = (res, s')"
    and other: "\<And>n. step_id \<noteq> target_step n" "\<And>n. normals (components rel) \<noteq> outcome_file n"
    and seal: "sealed cd made (view s)"
  shows "sealed cd made (view s')"
proof -
  obtain r1 s1 where rc: "so_record ops step_id sq step_id (cd_sha cd bytes) s = (r1, s1)"
    by (cases "so_record ops step_id sq step_id (cd_sha cd bytes) s")
  have s1: "sealed cd made (view s1)" using record_view [OF rc] sealed_record [OF seal] seal by auto
  obtain r2 s2 where b: "so_begin ops step_id s1 = (r2, s2)" by (cases "so_begin ops step_id s1")
  have s2: "sealed cd made (view s2)" using begin_view [OF b] sealed_begin [OF s1] s1 by auto
  obtain r3 s3 where p: "so_publish ops rel bytes kind step_id s2 = (r3, s3)" by (cases "so_publish ops rel bytes kind step_id s2")
  have s3: "sealed cd made (view s3)" by (rule publish_sealed [OF p s2]) (metis other(2))
  obtain r4 s4 where f: "so_finish ops step_id Succeeded None s3 = (r4, s4)" by (cases "so_finish ops step_id Succeeded None s3")
  have s4: "sealed cd made (view s4)" using finish_view [OF f] sealed_finish [OF s3, of step_id Succeeded] s3 other(1) by auto
  show ?thesis using run rc b p f s1 s2 s3 s4 by (auto simp: persist_step_def split: sum.splits)
qed

end

subsection \<open>Settled targets\<close>

text \<open>A target whose step is done for its present inputs and whose file holds the outcome.\<close>

definition settled :: "codec \<Rightarrow> str \<Rightarrow> nat \<Rightarrow> ranked_target \<Rightarrow> target_outcome \<Rightarrow> run_db \<Rightarrow> bool" where
  "settled cd config_fp i rt out db \<longleftrightarrow>
     (\<exists>r b. find_row (target_step (sanitize_id (tg_id (rt_target rt)))) db = Some r
        \<and> sr_seq r = int i \<and> sr_kind r = ''target'' \<and> target_hash cd rt config_fp = Ok (sr_input_hash r)
        \<and> done_status (sr_status r) \<and> db_files db (outcome_file (sanitize_id (tg_id (rt_target rt)))) = Some b
        \<and> cd_parse_outcome cd b = Ok out)"

definition target_name :: "ranked_target \<Rightarrow> str" where
  "target_name rt = sanitize_id (tg_id (rt_target rt))"

lemma settled_frame:
  assumes "settled cd fp i rt out db"
    and "find_row (target_step (target_name rt)) db' = find_row (target_step (target_name rt)) db"
    and "db_files db' (outcome_file (target_name rt)) = db_files db (outcome_file (target_name rt))"
  shows "settled cd fp i rt out db'"
  using assms by (auto simp: settled_def target_name_def)

definition same_target :: "str \<Rightarrow> run_db \<Rightarrow> run_db \<Rightarrow> bool" where
  "same_target n db db' \<longleftrightarrow> find_row (target_step n) db' = find_row (target_step n) db
     \<and> db_files db' (outcome_file n) = db_files db (outcome_file n)"

lemma same_target_trans: "same_target n a b \<Longrightarrow> same_target n b c \<Longrightarrow> same_target n a c"
  by (simp add: same_target_def)

lemma same_target_ops:
  assumes "i \<noteq> target_step n"
  shows "same_target n db (snd (record_step i sq k h db))" "same_target n db (snd (begin_step i db))"
    "same_target n db (snd (finish_step i st e db))"
  using assms by (auto simp: same_target_def find_row_record find_row_begin find_row_finish)

lemma same_target_files:
  assumes "normals (components rel) \<noteq> outcome_file n"
  shows "same_target n db (snd (write_artifact rel bytes db))" "same_target n db (snd (publish_artifact sha rel bytes k i db))"
  using assms by (auto simp: same_target_def files_publish write_artifact_def split: sum.splits)

context step_store begin

lemma process_step_frame:
  assumes run: "process_step cd ops process i rel rt s w = (res, s', w')"
    and other: "i \<noteq> target_step n" "normals (components rel) \<noteq> outcome_file n"
  shows "same_target n (view s) (view s')"
proof -
  have refl: "same_target n db db" for db by (simp add: same_target_def)
  note ops = same_target_ops [OF other(1)] same_target_files [OF other(2)]
  obtain r1 s1 where b: "so_begin ops i s = (r1, s1)" by (cases "so_begin ops i s")
  have s1: "same_target n (view s) (view s1)" using begin_view [OF b] ops refl by auto
  obtain res1 w1 where p: "process rt w = (res1, w1)" by (cases "process rt w")
  have failed: "same_target n (view s1) (view (snd (so_finish ops i st er s1)))" for st er
    using finish_view [of i st er s1] ops refl by (cases "so_finish ops i st er s1") auto
  have published: "same_target n (view s1) (view s2)" if "so_publish ops rel bytes k i s1 = (r2, s2)" for bytes k r2 s2
    using publish_view(1) [OF that] ops refl by auto
  have finished: "same_target n (view s2) (view s3)" if "so_finish ops i st er s2 = (r3, s3)" for st er s2 r3 s3
    using finish_view [OF that] ops refl by auto
  show ?thesis
    using run b p s1 failed published finished
    by (auto simp: process_step_def split: sum.splits prod.splits) (meson same_target_trans)+
qed

text \<open>The iteration splits into recording the step and what follows.\<close>

lemma drive_target_cases:
  assumes run: "drive_target cd ops config_fp process i rt s w = (res, s', w')"
  obtains (unhashed) e where "target_hash cd rt config_fp = Err e" "s' = s" "w' = w" "res = Err e"
    | (unrecorded) h e s1 where "target_hash cd rt config_fp = Ok h"
        "so_record ops (target_step (target_name rt)) (int i) ''target'' h s = (Err e, s1)" "s' = s1" "w' = w" "res = Err (OrState e)"
    | (unread) h s1 e where "target_hash cd rt config_fp = Ok h"
        "so_record ops (target_step (target_name rt)) (int i) ''target'' h s = (Ok (), s1)" "s' = s1" "w' = w" "res = Err e"
    | (loaded) h s1 st bytes where "target_hash cd rt config_fp = Ok h"
        "so_record ops (target_step (target_name rt)) (int i) ''target'' h s = (Ok (), s1)" "s' = s1" "w' = w"
        "so_step ops (target_step (target_name rt)) s1 = Ok (Some st)" "is_done (sp_status st)"
        "so_read ops (target_rel (target_name rt)) s1 = Ok (Some bytes)" "res = decode_outcome cd bytes"
    | (processed) h s1 st where "target_hash cd rt config_fp = Ok h"
        "so_record ops (target_step (target_name rt)) (int i) ''target'' h s = (Ok (), s1)"
        "so_step ops (target_step (target_name rt)) s1 = Ok (Some st)"
        "is_done (sp_status st) \<longrightarrow> so_read ops (target_rel (target_name rt)) s1 = Ok None"
        "process_step cd ops process (target_step (target_name rt)) (target_rel (target_name rt)) rt s1 w = (res, s', w')"
proof (cases "target_hash cd rt config_fp")
  case (Inl e)
  then show ?thesis using run unhashed by (auto simp: drive_target_def Let_def)
next
  case hash: (Inr h)
  obtain r1 s1 where rc: "so_record ops (target_step (target_name rt)) (int i) ''target'' h s = (r1, s1)"
    by (cases "so_record ops (target_step (target_name rt)) (int i) ''target'' h s")
  show ?thesis
  proof (cases r1)
    case (Inl e)
    then show ?thesis using run hash rc unrecorded unfolding drive_target_def Let_def target_name_def [symmetric] by simp
  next
    case (Inr u)
    have rest: "(case so_step ops (target_step (target_name rt)) s1 of
          Err e \<Rightarrow> (Err (OrState e), s1, w)
        | Ok None \<Rightarrow> (Err (OrInvalid ''state'' ''step vanished after record''), s1, w)
        | Ok (Some step) \<Rightarrow>
            (case (if is_done (sp_status step) then read_run_artifact ops (target_rel (target_name rt)) s1 else Ok None) of
               Err e \<Rightarrow> (Err e, s1, w)
             | Ok (Some bytes) \<Rightarrow> (decode_outcome cd bytes, s1, w)
             | Ok None \<Rightarrow> process_step cd ops process (target_step (target_name rt)) (target_rel (target_name rt)) rt s1 w))
        = (res, s', w')"
      using run unfolding drive_target_def Let_def target_name_def [symmetric] by (simp only: hash rc Inr sum.case prod.case)
    have rc': "so_record ops (target_step (target_name rt)) (int i) ''target'' h s = (Ok (), s1)" using rc Inr by simp
    show ?thesis
      using rest unread [OF hash rc'] loaded [OF hash rc'] processed [OF hash rc']
      by (auto simp: read_run_artifact_def target_name_def outcome_rel_safe split: sum.splits option.splits if_splits)
  qed
qed

lemma drive_target_frame:
  assumes run: "drive_target cd ops config_fp process i rt s w = (res, s', w')" and other: "target_name rt \<noteq> n"
  shows "same_target n (view s) (view s')"
proof -
  have recorded: "same_target n (view s) (view s1)" if "so_record ops (target_step (target_name rt)) (int i) k h s = (r, s1)" for k h r s1
    using record_view [OF that] same_target_ops(1) [of "target_step (target_name rt)" n "view s" "int i" k h] other
    by (auto simp: same_target_def)
  from run show ?thesis
  proof (cases rule: drive_target_cases)
    case unhashed
    then show ?thesis by (simp add: same_target_def)
  next
    case (processed h s1 st)
    have "same_target n (view s1) (view s')"
      using process_step_frame [OF processed(5), of n] other by (simp add: target_name_def components_outcome)
    then show ?thesis using same_target_trans recorded [OF processed(2)] by blast
  qed (use recorded in auto)
qed

lemma drive_from_frame:
  "drive_from cd ops config_fp process i rts s w = (res, s', w') \<Longrightarrow> n \<notin> target_name ` set rts
    \<Longrightarrow> same_target n (view s) (view s')"
proof (induction rts arbitrary: i s w res s' w')
  case Nil
  then show ?case by (simp add: same_target_def)
next
  case (Cons rt rts)
  obtain r1 s1 w1 where one: "drive_target cd ops config_fp process i rt s w = (r1, s1, w1)"
    by (cases "drive_target cd ops config_fp process i rt s w") auto
  have f: "same_target n (view s) (view s1)" using drive_target_frame [OF one] Cons.prems(2) by auto
  obtain r2 s2 w2 where rest: "drive_from cd ops config_fp process (Suc i) rts s1 w1 = (r2, s2, w2)"
    by (cases "drive_from cd ops config_fp process (Suc i) rts s1 w1") auto
  have "same_target n (view s1) (view s2)" using Cons.IH [OF rest] Cons.prems(2) by auto
  then show ?case using Cons.prems(1) one rest f same_target_trans [OF f] by (auto split: sum.splits)
qed

lemma process_step_done:
  assumes "process_step cd ops process i rel rt s w = (Ok out, s', w')"
  shows "\<exists>bytes. cd_outcome cd out = Ok bytes \<and> view s' = snd (finish_step i Succeeded None
    (snd (publish_artifact sha rel bytes ''target'' i (snd (begin_step i (view s))))))"
  using assms begin_view [of i s] publish_view(2) [of rel _ "''target''" i] finish_view [of i Succeeded None]
  by (fastforce simp: process_step_def encode_outcome_def split: sum.splits prod.splits)

lemma drive_target_settles:
  assumes run: "drive_target cd ops config_fp process i rt s w = (Ok out, s', w')" and rb: "reads_back cd"
  shows "settled cd config_fp i rt out (view s')"
proof -
  let ?i = "target_step (target_name rt)" and ?f = "outcome_file (target_name rt)"
  have recorded: "\<exists>row. find_row ?i (view s1) = Some row \<and> sr_seq row = int i \<and> sr_kind row = ''target'' \<and> sr_input_hash row = h"
    if "so_record ops ?i (int i) ''target'' h s = (Ok (), s1)" for h s1
    using record_view [OF that] recorded_row [of ?i "int i" "''target''" h "view s"] by auto
  from run show ?thesis
  proof (cases rule: drive_target_cases)
    case (loaded h s1 st bytes)
    obtain row where row: "find_row ?i (view s1) = Some row" "sr_seq row = int i" "sr_kind row = ''target''" "sr_input_hash row = h"
      using recorded [OF loaded(2)] by auto
    have "done_status (sr_status row)"
      using step_law [OF loaded(5)] row(1) loaded(6)
      by (auto simp: step_of_def row_to_step_def dest: done_status_iff split: sum.splits option.splits)
    moreover have "db_files (view s1) ?f = Some bytes"
      using read_law [OF loaded(7)] by (simp add: read_outcome target_name_def)
    moreover have "cd_parse_outcome cd bytes = Ok out" using loaded(8) by (auto simp: decode_outcome_def split: sum.splits)
    ultimately show ?thesis using row loaded(1,3) by (auto simp: settled_def target_name_def)
  next
    case (processed h s1 st)
    obtain row where row: "find_row ?i (view s1) = Some row" "sr_seq row = int i" "sr_kind row = ''target''" "sr_input_hash row = h"
      using recorded [OF processed(2)] by auto
    obtain bytes where bytes: "cd_outcome cd out = Ok bytes"
      "view s' = snd (finish_step ?i Succeeded None (snd (publish_artifact sha (target_rel (target_name rt)) bytes ''target'' ?i
         (snd (begin_step ?i (view s1))))))"
      using process_step_done [OF processed(5)] by auto
    have "\<exists>row'. find_row ?i (view s') = Some row' \<and> sr_seq row' = int i \<and> sr_kind row' = ''target'' \<and> sr_input_hash row' = h
        \<and> done_status (sr_status row')"
      using row by (auto simp: bytes(2) find_row_finish find_row_begin done_status_def)
    moreover have "db_files (view s') ?f = Some bytes"
      by (simp add: bytes(2) files_publish target_name_def write_outcome)
    ultimately show ?thesis using processed(1) bytes(1) rb by (auto simp: settled_def target_name_def reads_back_def)
  qed auto
qed

lemma drive_from_settles:
  "drive_from cd ops config_fp process i rts s w = (Ok outs, s', w') \<Longrightarrow> reads_back cd \<Longrightarrow> distinct (map target_name rts)
    \<Longrightarrow> length outs = length rts \<and> (\<forall>j < length rts. settled cd config_fp (i + j) (rts ! j) (outs ! j) (view s'))"
proof (induction rts arbitrary: i s w outs s' w')
  case Nil
  then show ?case by simp
next
  case (Cons rt rts)
  obtain r1 s1 w1 where one: "drive_target cd ops config_fp process i rt s w = (r1, s1, w1)"
    by (cases "drive_target cd ops config_fp process i rt s w") auto
  obtain r2 s2 w2 where rest: "drive_from cd ops config_fp process (Suc i) rts s1 w1 = (r2, s2, w2)"
    by (cases "drive_from cd ops config_fp process (Suc i) rts s1 w1") auto
  obtain out os where ok: "r1 = Ok out" "r2 = Ok os" "outs = out # os" "s' = s2"
    using Cons.prems(1) one rest by (auto split: sum.splits)
  have "settled cd config_fp i rt out (view s1)" using drive_target_settles [OF one [unfolded ok(1)] Cons.prems(2)] .
  moreover have "same_target (target_name rt) (view s1) (view s2)"
    using drive_from_frame [OF rest] Cons.prems(3) by auto
  ultimately have "settled cd config_fp i rt out (view s2)" using settled_frame by (auto simp: same_target_def)
  moreover have "length os = length rts \<and> (\<forall>j < length rts. settled cd config_fp (Suc i + j) (rts ! j) (os ! j) (view s2))"
    using Cons.IH [OF rest [unfolded ok(2)] Cons.prems(2)] Cons.prems(3) by simp
  ultimately show ?case using ok by (auto simp: nth_Cons split: nat.split)
qed

end

context reliable_store begin

lemma settled_load:
  assumes "settled cd config_fp i rt out (view s)"
  shows "\<exists>s'. drive_target cd ops config_fp process i rt s w = (Ok out, s', w) \<and> view s' = view s"
proof -
  let ?i = "target_step (target_name rt)"
  obtain row b where row: "find_row ?i (view s) = Some row" "sr_seq row = int i" "sr_kind row = ''target''"
      "target_hash cd rt config_fp = Ok (sr_input_hash row)" "done_status (sr_status row)"
      "db_files (view s) (outcome_file (target_name rt)) = Some b" "cd_parse_outcome cd b = Ok out"
    using assms by (auto simp: settled_def target_name_def)
  have rec: "record_step ?i (int i) ''target'' (sr_input_hash row) (view s) = (Ok (), view s)"
    using row by (simp add: record_step_def)
  obtain s1 where s1: "so_record ops ?i (int i) ''target'' (sr_input_hash row) s = (Ok (), s1)" "view s1 = view s"
    using record_exact [of ?i "int i" "''target''" "sr_input_hash row" s] unfolding rec
    by (cases "so_record ops ?i (int i) ''target'' (sr_input_hash row) s") auto
  have "\<exists>st. step_of ?i (view s) = Ok (Some st) \<and> is_done (sp_status st)"
    using row(1,5) by (auto simp: step_of_def row_to_step_def done_status_def status_parse_def split: option.splits)
  then obtain st where st: "so_step ops ?i s1 = Ok (Some st)" "is_done (sp_status st)" using step_exact s1(2) by auto
  have "read_run_artifact ops (target_rel (target_name rt)) s1 = Ok (Some b)"
    using row(6) s1(2) by (simp add: read_run_artifact_def target_name_def outcome_rel_safe read_exact read_outcome)
  then have "drive_target cd ops config_fp process i rt s w = (Ok out, s1, w)"
    using row(4,7) s1(1) st unfolding drive_target_def Let_def target_name_def [symmetric] by (simp add: decode_outcome_def)
  then show ?thesis using s1(2) by blast
qed

lemma settled_drive:
  "\<forall>j < length rts. settled cd config_fp (i + j) (rts ! j) (outs ! j) (view s) \<Longrightarrow> length outs = length rts
    \<Longrightarrow> \<exists>s'. view s' = view s \<and> drive_from cd ops config_fp process i (rts @ rest) s w =
      (case drive_from cd ops config_fp process (i + length rts) rest s' w of
         (Err e, s', w') \<Rightarrow> (Err e, s', w') | (Ok os, s', w') \<Rightarrow> (Ok (outs @ os), s', w'))"
proof (induction rts arbitrary: i outs s)
  case Nil
  then show ?case by (intro exI [of _ s]) (auto split: prod.split sum.split)
next
  case (Cons rt rts)
  obtain out os where outs: "outs = out # os" using Cons.prems(2) by (cases outs) auto
  have "settled cd config_fp i rt out (view s)" using Cons.prems(1) outs by force
  then obtain s1 where one: "drive_target cd ops config_fp process i rt s w = (Ok out, s1, w)" "view s1 = view s"
    using settled_load [of cd config_fp i rt out s process w] by blast
  have "\<forall>j < length rts. settled cd config_fp (Suc i + j) (rts ! j) (os ! j) (view s1)"
    using Cons.prems(1) outs one(2) by force
  then obtain s' where s': "view s' = view s1" "drive_from cd ops config_fp process (Suc i) (rts @ rest) s1 w =
      (case drive_from cd ops config_fp process (Suc i + length rts) rest s' w of
         (Err e, s', w') \<Rightarrow> (Err e, s', w') | (Ok more_outs, s', w') \<Rightarrow> (Ok (os @ more_outs), s', w'))"
    using Cons.IH [of "Suc i" os s1] Cons.prems(2) outs by auto
  then show ?case using one outs by (intro exI [of _ s']) (auto split: prod.split sum.split)
qed

end

section \<open>Properties\<close>


definition sample_codec :: codec where
  "sample_codec = \<lparr>cd_sha = (\<lambda>s. s), cd_target = (\<lambda>t. Ok (tg_id t)),
     cd_outcome = (\<lambda>out. if out = default_outcome then Ok ''{}'' else Err []),
     cd_parse_outcome = (\<lambda>bytes. if bytes = ''{}'' then Ok default_outcome else Err []),
     cd_trusted = (\<lambda>_. Ok []), cd_trusted_pretty = (\<lambda>_. Ok ''c''), cd_parse_trusted = (\<lambda>_. Ok default_trusted),
     cd_report_pretty = (\<lambda>r. Ok (rr_run_id r)), cd_parse_report = (\<lambda>_. Err [])\<rparr>"

definition sample_ranked :: "str \<Rightarrow> ranked_target" where
  "sample_ranked i = \<lparr>rt_target = \<lparr>tg_id = i, tg_adapter = ''rust'', tg_path = ''src/lib.rs'', tg_symbol = None, tg_kind = Function,
     tg_span = \<lparr>lr_start = 1, lr_end = 1\<rparr>, tg_risk = fzero\<rparr>, rt_score = fzero, rt_rationale = []\<rparr>"

text \<open>A process that counts its calls, one that fails, and the store after it was stopped in the second target.\<close>

definition counting :: "ranked_target \<Rightarrow> nat \<Rightarrow> (orch_error + target_outcome) \<times> nat" where
  "counting rt w = (Ok default_outcome, Suc w)"

definition failing :: "ranked_target \<Rightarrow> nat \<Rightarrow> (orch_error + target_outcome) \<times> nat" where
  "failing rt w = (Err (OrIo ''again''), w)"

definition first_session :: "(orch_error + target_outcome list) \<times> (run_db \<times> nat) \<times> nat" where
  "first_session = drive_targets sample_codec (crash_ops (\<lambda>s. s)) [sample_ranked ''t0''] ''fp'' counting (empty_db, 8) 0"

definition second_target :: "(orch_error + target_outcome list) \<times> (run_db \<times> nat) \<times> nat" where
  "second_target = drive_from sample_codec (crash_ops (\<lambda>s. s)) ''fp'' counting 1 [sample_ranked ''t1''] (fst (snd first_session)) (snd (snd first_session))"

lemma reads_back_sample: "reads_back sample_codec"
  by (auto simp: reads_back_def sample_codec_def split: if_splits)

lemma first_session_ok: "fst first_session = Ok [default_outcome]"
  by code_simp


end
