(* ===== verification/SandboxEnv.thy ===== *)
theory SandboxEnv
  imports Config
begin

text \<open>
  \<open>jitgen-sandbox\<close>: the errors of the layer (\<open>error.rs\<close>), the trusted policy (\<open>policy.rs\<close>) and the
  environment of the child (\<open>env.rs\<close>), which is built from an allowlist and never inherited. The
  process environment is the argument \<open>parent\<close>. Paths are their strings; \<open>esc\<close> is the escape that
  \<open>{:?}\<close> uses for characters that are not printable ASCII.
\<close>

section \<open>Errors\<close>

datatype sandbox_error =
    NoIsolationAvailable
  | BackendUnavailable str
  | NetnsRequiresUnsafeLocal
  | ShellNotAllowed
  | UnsafeCwd str
  | MissingImage
  | FloatingImageTag str
  | InvalidInstance str
  | UnsafeOverlayPath str
  | UntrustedLauncher str
  | MissingContainerUser
  | InvalidRunAs str
  | EmptyCommand
  | OptionLikeProgram
  | UnsafeSyntheticDir str
  | NonAbsolutePath str
  | SpawnFailed str str
  | SandboxDegraded str
  | SandboxIo str
  | BackendUnavailableMidRun str

fun show_sandbox :: "(str \<Rightarrow> str) \<Rightarrow> sandbox_error \<Rightarrow> str" where
  "show_sandbox esc NoIsolationAvailable =
     ''no isolating sandbox available (OS sandbox / container required); refusing to execute untrusted commands without --unsafe-local-execution''"
| "show_sandbox esc (BackendUnavailable b) =
     ''requested sandbox backend '' @ debug_str esc b @ '' is not available on this host''"
| "show_sandbox esc NetnsRequiresUnsafeLocal =
     ''sandbox backend '' @ debug_str esc ''netns-helper'' @ '' denies network but does NOT confine the filesystem; it requires the explicit --unsafe-local-execution opt-in''"
| "show_sandbox esc ShellNotAllowed = ''shell command requires trusted shell_allowed=true; refusing''"
| "show_sandbox esc (UnsafeCwd p) = ''unsafe overlay-relative cwd: '' @ debug_str esc p"
| "show_sandbox esc MissingImage = ''container backend selected without a digest-pinned image''"
| "show_sandbox esc (FloatingImageTag i) =
     ''container image is not digest-pinned (expected name@sha256:...): '' @ debug_str esc i"
| "show_sandbox esc (InvalidInstance i) =
     ''invalid instance id (expected [A-Za-z0-9_-], 1..=64 chars): '' @ debug_str esc i"
| "show_sandbox esc (UnsafeOverlayPath p) =
     ''overlay path is not container-mount-safe: '' @ debug_str esc p"
| "show_sandbox esc (UntrustedLauncher p) =
     ''sandbox launcher '' @ debug_str esc p @ '' not found in a trusted system bin dir; refusing PATH resolution''"
| "show_sandbox esc MissingContainerUser =
     ''container backend requires an explicit uid:gid (--user); refusing to default to root''"
| "show_sandbox esc (InvalidRunAs u) = ''invalid uid:gid for container --user: '' @ debug_str esc u"
| "show_sandbox esc EmptyCommand = ''empty command: no program to execute''"
| "show_sandbox esc OptionLikeProgram =
     ''program must not begin with '' @ [CHR 0x27] @ ''-'' @ [CHR 0x27] @ '' (would be parsed as an exec option)''"
| "show_sandbox esc (UnsafeSyntheticDir p) =
     ''synthetic runtime dir already exists in overlay (possible pre-plant): '' @ debug_str esc p"
| "show_sandbox esc (NonAbsolutePath p) =
     ''sandbox path must be absolute and canonical: '' @ debug_str esc p"
| "show_sandbox esc (SpawnFailed p e) =
     ''failed to spawn sandbox process '' @ debug_str esc p @ '': '' @ e"
| "show_sandbox esc (SandboxDegraded b) =
     ''sandbox backend '' @ debug_str esc b @ '' ran the command without isolation (silent degradation detected); refusing''"
| "show_sandbox esc (SandboxIo e) = ''sandbox io error: '' @ e"
| "show_sandbox esc (BackendUnavailableMidRun b) =
     ''sandbox backend '' @ debug_str esc b @ '' became unavailable mid-run: the launcher failed before the test command started and a fresh probe confirms it can no longer create namespaces (user-namespace limits / AppArmor / seccomp policy may have changed); refusing to continue rather than misreport wrapper failures as test results''"

section \<open>Policy\<close>

record resource_limits =
  rl_address_space_bytes :: nat
  rl_cpu_seconds :: nat
  rl_open_files :: nat
  rl_processes :: nat
  rl_file_size_bytes :: nat
  rl_memory_bytes :: nat
  rl_cpus :: nat

definition default_limits :: resource_limits where
  "default_limits = \<lparr>rl_address_space_bytes = 2 * 1024 * 1024 * 1024, rl_cpu_seconds = 120,
     rl_open_files = 1024, rl_processes = 512, rl_file_size_bytes = 256 * 1024 * 1024,
     rl_memory_bytes = 1024 * 1024 * 1024, rl_cpus = 2\<rparr>"

definition DEFAULT_TIMEOUT :: nat where "DEFAULT_TIMEOUT = 120"
definition DEFAULT_OUTPUT_CAP_BYTES :: nat where "DEFAULT_OUTPUT_CAP_BYTES = 256 * 1024"

record exec_policy =
  ep_backend :: sandbox_backend
  ep_allow_unsafe_local :: bool
  ep_shell_allowed :: bool
  ep_env_allowlist_extra :: "str list"
  ep_env_set_extra :: "(str \<times> str) list"
  ep_timeout :: nat
  ep_output_cap_bytes :: nat
  ep_limits :: resource_limits
  ep_docker_image :: "str option"

definition from_trusted :: "trusted_config \<Rightarrow> exec_policy" where
  "from_trusted t = \<lparr>ep_backend = tc_sandbox_backend t,
     ep_allow_unsafe_local = tc_unsafe_local_execution t, ep_shell_allowed = tc_shell_allowed t,
     ep_env_allowlist_extra = tc_env_allowlist_extra t, ep_env_set_extra = tc_env_set_extra t,
     ep_timeout = DEFAULT_TIMEOUT, ep_output_cap_bytes = DEFAULT_OUTPUT_CAP_BYTES,
     ep_limits = default_limits, ep_docker_image = tc_docker_image t\<rparr>"

section \<open>A map in key order\<close>

text \<open>\<open>BTreeMap<String, String>\<close>: strings are compared byte by byte, an insertion replaces or keeps
  the order.\<close>

fun str_less :: "str \<Rightarrow> str \<Rightarrow> bool" where
  "str_less _ [] = False"
| "str_less [] (_ # _) = True"
| "str_less (a # s) (b # t) = (code a < code b \<or> a = b \<and> str_less s t)"

fun bt_insert :: "str \<Rightarrow> 'a \<Rightarrow> (str \<times> 'a) list \<Rightarrow> (str \<times> 'a) list" where
  "bt_insert k v [] = [(k, v)]"
| "bt_insert k v ((l, w) # m) =
     (if k = l then (k, v) # m
      else if str_less k l then (k, v) # (l, w) # m
      else (l, w) # bt_insert k v m)"

lemma map_of_bt_insert [simp]: "map_of (bt_insert k v m) = (map_of m)(k \<mapsto> v)"
  by (induction m) (auto simp: fun_eq_iff)

lemma set_bt_insert: "x \<in> set (bt_insert k v m) \<Longrightarrow> x = (k, v) \<or> x \<in> set m"
  by (induction m) (auto split: if_splits)

section \<open>The names that are refused\<close>

definition BASELINE_PASSTHROUGH :: "str list" where
  "BASELINE_PASSTHROUGH = [''PATH'', ''LANG'', ''LC_ALL'', ''LC_CTYPE'', ''LC_NUMERIC'', ''LC_TIME'',
     ''LC_COLLATE'', ''LC_MONETARY'', ''LC_MESSAGES'', ''TZ'']"

definition MANAGED :: "str list" where "MANAGED = [''HOME'', ''TMPDIR'', ''TERM'']"

definition DENY_PREFIXES :: "str list" where
  "DENY_PREFIXES = [''AWS_'', ''SSH_'', ''GH_'', ''GITHUB_'', ''GOOGLE_'', ''GCP_'', ''AZURE_'',
     ''NPM_'', ''PIP_'', ''DOCKER_'', ''VAULT_'', ''KUBERNETES_'', ''CARGO_REGISTRY'', ''LD_'',
     ''DYLD_'']"

definition DENY_SUBSTRINGS :: "str list" where
  "DENY_SUBSTRINGS = [''SECRET'', ''TOKEN'', ''PASSWORD'', ''PASSWD'', ''CREDENTIAL'', ''APIKEY'',
     ''PRIVATE_KEY'', ''DSN'', ''WEBHOOK'', ''NETRC'', ''KUBECONFIG'']"

definition DENY_SUFFIXES :: "str list" where
  "DENY_SUFFIXES = [''_KEY'', ''_AUTH'', ''_URL'', ''_URI'', ''_PROXY'']"

definition DENY_EXACT :: "str list" where
  "DENY_EXACT = [''SSH_AUTH_SOCK'', ''SSH_AGENT_PID'', ''GPG_AGENT_INFO'', ''DBUS_SESSION_BUS_ADDRESS'']"

definition DENY_EXEC_EXACT :: "str list" where
  "DENY_EXEC_EXACT = [''RUSTC'', ''RUSTC_WRAPPER'', ''RUSTC_WORKSPACE_WRAPPER'', ''CARGO'', ''CC'',
     ''CXX'', ''LD'', ''AR'', ''BASH_ENV'', ''ENV'', ''NODE_OPTIONS'', ''PYTHONSTARTUP'', ''PERL5OPT'',
     ''RUBYOPT'', ''GIT_SSH'', ''GIT_SSH_COMMAND'', ''GIT_EXTERNAL_DIFF'', ''GIT_PROXY_COMMAND'',
     ''GIT_PAGER'', ''GIT_EDITOR'', ''PAGER'', ''EDITOR'', ''VISUAL'', ''BROWSER'', ''SHELL'']"

definition DENY_EXEC_SUFFIXES :: "str list" where
  "DENY_EXEC_SUFFIXES = [''_RUNNER'', ''_LINKER'', ''_WRAPPER'']"

definition FALLBACK_PATH :: str where "FALLBACK_PATH = ''/usr/bin:/bin:/usr/sbin:/sbin''"

definition to_ascii_uppercase :: "str \<Rightarrow> str" where
  "to_ascii_uppercase s = map to_upper s"

definition is_denied :: "str \<Rightarrow> bool" where
  "is_denied name =
     (let u = to_ascii_uppercase name in
      u \<in> set DENY_EXACT
      \<or> u \<in> set DENY_EXEC_EXACT
      \<or> (\<exists>p \<in> set DENY_PREFIXES. starts_with u p)
      \<or> (\<exists>s \<in> set DENY_SUBSTRINGS. contains u s)
      \<or> (\<exists>s \<in> set DENY_SUFFIXES. ends_with u s)
      \<or> (\<exists>s \<in> set DENY_EXEC_SUFFIXES. ends_with u s))"

definition extra_refusal :: "str \<Rightarrow> str option" where
  "extra_refusal name =
     (if is_denied name then Some ''matches a credential/socket/loader deny-pattern''
      else if to_ascii_uppercase name \<in> set MANAGED
              \<or> to_ascii_uppercase name \<in> set BASELINE_PASSTHROUGH
      then Some ''name is managed by the sandbox''
      else None)"

section \<open>The values that are refused\<close>

definition SCALAR_VALUE_ALLOWLIST :: "str list" where
  "SCALAR_VALUE_ALLOWLIST = [''CARGO_NET_OFFLINE'']"

definition PSEUDO_ROOTS :: "str list" where "PSEUDO_ROOTS = [''/proc'', ''/sys'', ''/dev/fd'']"

fun root_or_normal :: "component \<Rightarrow> bool" where
  "root_or_normal RootDir = True"
| "root_or_normal (Normal _) = True"
| "root_or_normal _ = False"

definition component_is_safe_absolute :: "str \<Rightarrow> bool" where
  "component_is_safe_absolute c \<longleftrightarrow>
     is_absolute c
     \<and> list_all root_or_normal (components c)
     \<and> \<not> (\<exists>r \<in> set PSEUDO_ROOTS. path_starts_with c r)"

definition value_is_unsafe :: "str \<Rightarrow> str \<Rightarrow> bool" where
  "value_is_unsafe name value \<longleftrightarrow>
     to_ascii_uppercase name \<notin> set SCALAR_VALUE_ALLOWLIST
     \<and> \<not> list_all component_is_safe_absolute (split_on (CHR '':'') value)"

definition set_refusal :: "(str \<Rightarrow> str) \<Rightarrow> str \<Rightarrow> str \<Rightarrow> str option" where
  "set_refusal esc name value =
     (case extra_refusal name of
        Some reason \<Rightarrow> Some reason
      | None \<Rightarrow>
          if list_ex is_control (chars value)
          then Some (''value '' @ debug_str esc value @ '' contains a control character (not allowed in a sandbox env value)'')
          else if value_is_unsafe name value
          then Some (''value '' @ debug_str esc value @ '' is not a safe absolute path (env_set_extra path values must be absolute, normalized, and outside /proc; a relative, `..`, empty, or pseudo-fs component resolves under the hostile overlay cwd)'')
          else None)"

section \<open>The environment of the child\<close>

definition filter_path :: "str \<Rightarrow> str \<Rightarrow> str \<Rightarrow> str" where
  "filter_path value overlay_root state_root =
     (let kept = filter (\<lambda>e. e \<noteq> [] \<and> is_absolute e
                   \<and> \<not> path_starts_with e overlay_root \<and> \<not> path_starts_with e state_root)
                   (split_on (CHR '':'') value)
      in if kept = [] then FALLBACK_PATH else join '':'' kept)"

type_synonym env_map = "(str \<times> str) list"

definition baseline_env :: "(str \<rightharpoonup> str) \<Rightarrow> str \<Rightarrow> str \<Rightarrow> env_map" where
  "baseline_env parent overlay_root state_root =
     fold (\<lambda>name env.
        if is_denied name then env
        else case parent name of
            None \<Rightarrow> env
          | Some value \<Rightarrow>
              if name = ''PATH''
              then bt_insert ''PATH'' (filter_path value overlay_root state_root) env
              else bt_insert name value env)
       BASELINE_PASSTHROUGH []"

definition managed_env :: "str \<Rightarrow> str \<Rightarrow> env_map \<Rightarrow> env_map" where
  "managed_env home tmp env =
     bt_insert ''TERM'' ''dumb'' (bt_insert ''TMPDIR'' tmp (bt_insert ''HOME'' home env))"

definition allow_warning :: "(str \<Rightarrow> str) \<Rightarrow> str \<Rightarrow> str \<Rightarrow> str" where
  "allow_warning esc name reason = ''ignored env_allowlist_extra '' @ debug_str esc name @ '': '' @ reason"

definition set_warning :: "(str \<Rightarrow> str) \<Rightarrow> str \<Rightarrow> str \<Rightarrow> str" where
  "set_warning esc name reason = ''ignored env_set_extra '' @ debug_str esc name @ '': '' @ reason"

fun allow_extra ::
  "(str \<Rightarrow> str) \<Rightarrow> (str \<rightharpoonup> str) \<Rightarrow> str list \<Rightarrow> env_map \<times> str list \<Rightarrow> env_map \<times> str list" where
  "allow_extra esc parent [] (env, warnings) = (env, warnings)"
| "allow_extra esc parent (name # names) (env, warnings) =
     (case extra_refusal name of
        Some reason \<Rightarrow> allow_extra esc parent names (env, warnings @ [allow_warning esc name reason])
      | None \<Rightarrow>
          (case parent name of
             Some value \<Rightarrow> allow_extra esc parent names (bt_insert name value env, warnings)
           | None \<Rightarrow> allow_extra esc parent names (env, warnings)))"

fun set_extra ::
  "(str \<Rightarrow> str) \<Rightarrow> (str \<times> str) list \<Rightarrow> env_map \<times> str list \<Rightarrow> env_map \<times> str list" where
  "set_extra esc [] (env, warnings) = (env, warnings)"
| "set_extra esc ((name, value) # sets) (env, warnings) =
     (case set_refusal esc name value of
        Some reason \<Rightarrow> set_extra esc sets (env, warnings @ [set_warning esc name reason])
      | None \<Rightarrow> set_extra esc sets (bt_insert name value env, warnings))"

definition build_env ::
  "(str \<Rightarrow> str) \<Rightarrow> (str \<rightharpoonup> str) \<Rightarrow> exec_policy \<Rightarrow> str \<Rightarrow> str \<Rightarrow> str \<Rightarrow> str \<Rightarrow> env_map \<times> str list" where
  "build_env esc parent policy home tmp overlay_root state_root =
     (let env = managed_env home tmp (baseline_env parent overlay_root state_root)
      in set_extra esc (ep_env_set_extra policy)
           (allow_extra esc parent (ep_env_allowlist_extra policy) (env, [])))"

definition extra_refusal_warnings :: "(str \<Rightarrow> str) \<Rightarrow> exec_policy \<Rightarrow> str list" where
  "extra_refusal_warnings esc policy =
     List.map_filter (\<lambda>name. map_option (allow_warning esc name) (extra_refusal name))
       (ep_env_allowlist_extra policy)
     @ List.map_filter (\<lambda>(name, value). map_option (set_warning esc name) (set_refusal esc name value))
         (ep_env_set_extra policy)"

section \<open>What the child sees\<close>

text \<open>An entry of the child's environment: the names the sandbox owns have its own values, the search
  path holds no directory of the run, and every other name is clean and has the parent's value or one
  that is safe wherever the child runs.\<close>

definition outside_run :: "str \<Rightarrow> str \<Rightarrow> str \<Rightarrow> bool" where
  "outside_run overlay_root state_root e \<longleftrightarrow>
     is_absolute e \<and> \<not> path_starts_with e overlay_root \<and> \<not> path_starts_with e state_root"

definition safe_value :: "str \<Rightarrow> str \<Rightarrow> bool" where
  "safe_value n v \<longleftrightarrow> \<not> list_ex is_control (chars v)
     \<and> (to_ascii_uppercase n = ''CARGO_NET_OFFLINE''
        \<or> list_all component_is_safe_absolute (split_on (CHR '':'') v))"

definition entry_ok ::
  "(str \<rightharpoonup> str) \<Rightarrow> str \<Rightarrow> str \<Rightarrow> str \<Rightarrow> str \<Rightarrow> str \<times> str \<Rightarrow> bool" where
  "entry_ok parent home tmp overlay_root state_root entry \<longleftrightarrow>
     (case entry of (n, v) \<Rightarrow>
        \<not> is_denied n
        \<and> (if n = ''HOME'' then v = home
           else if n = ''TMPDIR'' then v = tmp
           else if n = ''TERM'' then v = ''dumb''
           else if n = ''PATH''
           then v = FALLBACK_PATH
                \<or> list_all (outside_run overlay_root state_root) (split_on (CHR '':'') v)
           else to_ascii_uppercase n \<notin> set (''PATH'' # MANAGED)
                \<and> (parent n = Some v \<or> safe_value n v)))"

definition child_env_ok ::
  "(str \<rightharpoonup> str) \<Rightarrow> str \<Rightarrow> str \<Rightarrow> str \<Rightarrow> str \<Rightarrow> env_map \<Rightarrow> bool" where
  "child_env_ok parent home tmp overlay_root state_root env \<longleftrightarrow>
     list_all (entry_ok parent home tmp overlay_root state_root) env
     \<and> map_of env ''HOME'' = Some home \<and> map_of env ''TMPDIR'' = Some tmp
     \<and> map_of env ''TERM'' = Some ''dumb''"

lemma upper_names [simp]:
  "to_ascii_uppercase ''HOME'' = ''HOME''" "to_ascii_uppercase ''TMPDIR'' = ''TMPDIR''"
  "to_ascii_uppercase ''TERM'' = ''TERM''" "to_ascii_uppercase ''PATH'' = ''PATH''"
  by (code_simp, code_simp, code_simp, code_simp)

lemma managed_not_denied [simp]:
  "\<not> is_denied ''HOME''" "\<not> is_denied ''TMPDIR''" "\<not> is_denied ''TERM''" "\<not> is_denied ''PATH''"
  by (code_simp, code_simp, code_simp, code_simp)

lemma baseline_clean:
  "list_all (\<lambda>n. n = ''PATH'' \<or> to_ascii_uppercase n \<notin> set (''PATH'' # MANAGED)) BASELINE_PASSTHROUGH"
  by code_simp

lemma managed_not_baseline:
  "n \<in> set BASELINE_PASSTHROUGH \<Longrightarrow> n \<noteq> ''HOME'' \<and> n \<noteq> ''TMPDIR'' \<and> n \<noteq> ''TERM''"
  by (auto simp: BASELINE_PASSTHROUGH_def)

lemma filter_path_ok:
  "filter_path val ov st = FALLBACK_PATH
   \<or> list_all (outside_run ov st) (split_on (CHR '':'') (filter_path val ov st))"
proof (cases "filter_path val ov st = FALLBACK_PATH")
  case False
  define kept where "kept = filter (\<lambda>e. e \<noteq> [] \<and> is_absolute e
      \<and> \<not> path_starts_with e ov \<and> \<not> path_starts_with e st) (split_on (CHR '':'') val)"
  have k: "kept \<noteq> []" "filter_path val ov st = join [CHR '':''] kept"
    using False unfolding filter_path_def kept_def by (auto simp: Let_def split: if_splits)
  have "\<forall>e \<in> set kept. CHR '':'' \<notin> set e"
    using split_on_elem [of _ "CHR '':''" val] by (auto simp: kept_def)
  then have "split_on (CHR '':'') (filter_path val ov st) = kept"
    using split_on_join [OF k(1)] k(2) by auto
  moreover have "list_all (outside_run ov st) kept"
    by (auto simp: kept_def list_all_iff outside_run_def)
  ultimately show ?thesis by simp
qed simp

lemma extra_refusal_None:
  assumes "extra_refusal n = None"
  shows "\<not> is_denied n" "to_ascii_uppercase n \<notin> set (''PATH'' # MANAGED)"
    "n \<notin> {''HOME'', ''TMPDIR'', ''TERM'', ''PATH''}"
proof -
  show "\<not> is_denied n" using assms by (auto simp: extra_refusal_def split: if_splits)
  show up: "to_ascii_uppercase n \<notin> set (''PATH'' # MANAGED)"
    using assms by (auto simp: extra_refusal_def BASELINE_PASSTHROUGH_def split: if_splits)
  show "n \<notin> {''HOME'', ''TMPDIR'', ''TERM'', ''PATH''}"
    using up by (auto simp: MANAGED_def)
qed

lemma set_refusal_None:
  assumes "set_refusal esc n v = None"
  shows "extra_refusal n = None" "safe_value n v"
  using assms by (auto simp: set_refusal_def safe_value_def value_is_unsafe_def SCALAR_VALUE_ALLOWLIST_def
      split: option.splits if_splits)

lemma entry_ok_extra:
  assumes "extra_refusal n = None" "parent n = Some v \<or> safe_value n v"
  shows "entry_ok parent home tmp ov st (n, v)"
  using extra_refusal_None(1,2) [of n] extra_refusal_None(3) [of n] assms unfolding entry_ok_def by auto

lemma entry_ok_baseline:
  assumes "n \<in> set BASELINE_PASSTHROUGH" "\<not> is_denied n" "parent n = Some v"
  shows "entry_ok parent home tmp ov st (n, if n = ''PATH'' then filter_path v ov st else v)"
  using managed_not_baseline [OF assms(1)] assms baseline_clean filter_path_ok [of v ov st]
  by (auto simp: entry_ok_def list_all_iff)

lemma list_all_bt_insert: "P (k, v) \<Longrightarrow> list_all P m \<Longrightarrow> list_all P (bt_insert k v m)"
  by (auto simp: list_all_iff dest!: set_bt_insert)

text \<open>The extra entries keep the clean entries and what the sandbox set itself.\<close>

lemma child_env_ok_insert:
  assumes "child_env_ok parent home tmp ov st env" "extra_refusal n = None"
    "parent n = Some v \<or> safe_value n v"
  shows "child_env_ok parent home tmp ov st (bt_insert n v env)"
  using assms extra_refusal_None(3) [OF assms(2)]
    entry_ok_extra [of n parent v home tmp ov st, OF assms(2,3)]
  unfolding child_env_ok_def by (auto intro!: list_all_bt_insert)

lemma allow_extra_ok:
  "child_env_ok parent home tmp ov st env
   \<Longrightarrow> child_env_ok parent home tmp ov st (fst (allow_extra esc parent names (env, w)))"
  by (induction names arbitrary: env w) (auto split: option.splits intro: child_env_ok_insert)

lemma set_extra_ok:
  "child_env_ok parent home tmp ov st (fst p)
   \<Longrightarrow> child_env_ok parent home tmp ov st (fst (set_extra esc sets p))"
proof (induction sets arbitrary: p)
  case (Cons s sets)
  obtain n v env w where sp: "s = (n, v)" "p = (env, w)" by (cases s, cases p)
  have "child_env_ok parent home tmp ov st (bt_insert n v env)" if "set_refusal esc n v = None"
    using child_env_ok_insert [of parent home tmp ov st env n v] set_refusal_None [OF that] Cons.prems sp
    by simp
  then show ?case using Cons sp by (cases "set_refusal esc n v") simp_all
qed (metis set_extra.simps(1) surj_pair)

lemma fold_list_all:
  "(\<And>x a. x \<in> set xs \<Longrightarrow> P a \<Longrightarrow> P (f x a)) \<Longrightarrow> P a \<Longrightarrow> P (fold f xs a)"
  by (induction xs arbitrary: a) auto

lemma baseline_env_ok:
  "list_all (entry_ok parent home tmp ov st) (baseline_env parent ov st)"
  unfolding baseline_env_def
  by (rule fold_list_all)
    (auto split: option.splits intro!: list_all_bt_insert dest!: entry_ok_baseline [of _ parent _ home tmp ov st] split: if_splits)

lemma managed_env_ok:
  assumes "list_all (entry_ok parent home tmp ov st) env"
  shows "child_env_ok parent home tmp ov st (managed_env home tmp env)"
  using assms unfolding child_env_ok_def managed_env_def
  by (auto simp: entry_ok_def intro!: list_all_bt_insert)

lemma build_env_ok:
  "child_env_ok parent home tmp ov st (fst (build_env esc parent policy home tmp ov st))"
proof -
  let ?e = "managed_env home tmp (baseline_env parent ov st)"
  have "child_env_ok parent home tmp ov st (fst (allow_extra esc parent (ep_env_allowlist_extra policy) (?e, [])))"
    by (rule allow_extra_ok [OF managed_env_ok [OF baseline_env_ok]])
  then show ?thesis
    unfolding build_env_def Let_def by (rule set_extra_ok)
qed

text \<open>The environment of the child holds the synthetic home, temporary directory and terminal, a
  search path of absolute directories outside the overlay and the state root, and otherwise only names
  that no deny-pattern matches and that alias none of these in another case, whose values are the
  parent's or name only absolute, normalized places outside the pseudo file systems.\<close>

theorem child_env_sealed:
  "child_env_ok parent home tmp ov st (fst (build_env esc parent policy home tmp ov st))"
  by (rule build_env_ok)

lemma allow_extra_warnings:
  "snd (allow_extra esc parent names (env, w))
   = w @ List.map_filter (\<lambda>name. map_option (allow_warning esc name) (extra_refusal name)) names"
  by (induction names arbitrary: env w) (auto simp: map_filter_simps split: option.splits)

lemma set_extra_warnings:
  "snd (set_extra esc sets p)
   = snd p @ List.map_filter (\<lambda>(name, value). map_option (set_warning esc name) (set_refusal esc name value)) sets"
  by (induction esc sets p rule: set_extra.induct) (auto simp: map_filter_simps split: option.splits)

text \<open>C1: What \<open>build_env\<close> reports at run time is what \<open>extra_refusal_warnings\<close> computed when the
  sandbox was made, for every parent environment and every directory.\<close>

theorem env_warnings_upfront:
  "snd (build_env esc parent policy home tmp ov st) = extra_refusal_warnings esc policy"
  unfolding build_env_def extra_refusal_warnings_def Let_def
  by (simp add: allow_extra_warnings set_extra_warnings)

end
