(* ===== verification/SandboxPlan.thy ===== *)
theory SandboxPlan
  imports SandboxEnv Placement
begin

text \<open>
  \<open>jitgen-sandbox\<close>: the backends and their fail-closed selection (\<open>backend.rs\<close>), the trusted launchers
  (\<open>which.rs\<close>), the macOS profile (\<open>sbpl.rs\<close>) and the exact command line per backend (\<open>spawn.rs\<close>,
  \<open>command.rs\<close>). Nothing is spawned here. Whether a path is an executable file is the argument
  \<open>executable\<close>.
\<close>

section \<open>Backends\<close>

datatype tier = TierOsSandbox | TierContainer | TierNetnsLocal | TierConstrainedLocal

datatype backend = BkBwrap | BkFirejail | BkSandboxExec | BkDocker | BkPodman | BkNetnsHelper
  | BkConstrainedLocal

definition AUTO_PREFERENCE :: "backend list" where
  "AUTO_PREFERENCE = [BkBwrap, BkFirejail, BkSandboxExec, BkDocker, BkPodman]"

fun backend_id :: "backend \<Rightarrow> str" where
  "backend_id BkBwrap = ''bwrap''"
| "backend_id BkFirejail = ''firejail''"
| "backend_id BkSandboxExec = ''sandbox-exec''"
| "backend_id BkDocker = ''docker''"
| "backend_id BkPodman = ''podman''"
| "backend_id BkNetnsHelper = ''netns-helper''"
| "backend_id BkConstrainedLocal = ''constrained-local''"

fun reprobes_on_inner_never_started :: "backend \<Rightarrow> bool" where
  "reprobes_on_inner_never_started BkNetnsHelper = True"
| "reprobes_on_inner_never_started _ = False"

fun tier_of :: "backend \<Rightarrow> tier" where
  "tier_of BkBwrap = TierOsSandbox"
| "tier_of BkFirejail = TierOsSandbox"
| "tier_of BkSandboxExec = TierOsSandbox"
| "tier_of BkDocker = TierContainer"
| "tier_of BkPodman = TierContainer"
| "tier_of BkNetnsHelper = TierNetnsLocal"
| "tier_of BkConstrainedLocal = TierConstrainedLocal"

fun availability_probe :: "backend \<Rightarrow> (str \<times> str list) option" where
  "availability_probe BkBwrap = Some (''bwrap'', [''--unshare-all'', ''--ro-bind'', ''/'', ''/'', ''/bin/true''])"
| "availability_probe BkFirejail = Some (''firejail'', [''--net=none'', ''--'', ''/bin/true''])"
| "availability_probe BkSandboxExec =
     Some (''sandbox-exec'', [''-p'', ''(version 1)(allow default)'', ''/usr/bin/true''])"
| "availability_probe BkDocker = Some (''docker'', [''version''])"
| "availability_probe BkPodman = Some (''podman'', [''version''])"
| "availability_probe BkNetnsHelper =
     Some (''unshare'', [''--user'', ''--map-root-user'', ''--net'', ''--'', ''/bin/sh'', ''-c'', ''true''])"
| "availability_probe BkConstrainedLocal = None"

fun behavioral_net_probe :: "backend \<Rightarrow> str \<Rightarrow> (str \<times> str list) option" where
  "behavioral_net_probe BkFirejail script =
     Some (''firejail'', [''--net=none'', ''--'', ''/bin/sh'', ''-c'', script])"
| "behavioral_net_probe _ script = None"

definition SILENT_DEGRADATION_MARKERS_FIREJAIL :: "str list" where
  "SILENT_DEGRADATION_MARKERS_FIREJAIL =
     [''existing sandbox was detected'', ''without any additional sandboxing'']"

fun silent_degradation_markers :: "backend \<Rightarrow> str list option" where
  "silent_degradation_markers BkFirejail = Some SILENT_DEGRADATION_MARKERS_FIREJAIL"
| "silent_degradation_markers _ = None"

definition has_silent_degradation_mode :: "backend \<Rightarrow> bool" where
  "has_silent_degradation_mode b \<longleftrightarrow> silent_degradation_markers b \<noteq> None"

definition stderr_shows_silent_degradation :: "backend \<Rightarrow> str \<Rightarrow> bool" where
  "stderr_shows_silent_degradation b err =
     (case silent_degradation_markers b of
        Some markers \<Rightarrow> list_ex (contains (to_ascii_lowercase err)) markers
      | None \<Rightarrow> False)"

text \<open>The candidates worth probing, by operating system.\<close>

datatype host_os = MacOs | LinuxOs | OtherOs

fun os_candidates :: "host_os \<Rightarrow> backend list" where
  "os_candidates MacOs = [BkSandboxExec, BkDocker, BkPodman]"
| "os_candidates LinuxOs = [BkBwrap, BkFirejail, BkDocker, BkPodman]"
| "os_candidates OtherOs = [BkDocker, BkPodman]"

fun explicit_backend :: "sandbox_backend \<Rightarrow> backend option" where
  "explicit_backend sandbox_backend.Bwrap = Some BkBwrap"
| "explicit_backend sandbox_backend.Firejail = Some BkFirejail"
| "explicit_backend sandbox_backend.SandboxExec = Some BkSandboxExec"
| "explicit_backend sandbox_backend.Docker = Some BkDocker"
| "explicit_backend sandbox_backend.Podman = Some BkPodman"
| "explicit_backend BackendAuto = None"
| "explicit_backend BackendLocal = None"
| "explicit_backend NetnsHelper = None"

definition select_backend :: "backend list \<Rightarrow> exec_policy \<Rightarrow> sandbox_error + backend" where
  "select_backend available policy =
     (case ep_backend policy of
        BackendAuto \<Rightarrow>
          (case find (\<lambda>b. b \<in> set available) AUTO_PREFERENCE of
             Some b \<Rightarrow> Ok b
           | None \<Rightarrow>
               if ep_allow_unsafe_local policy
               then if BkNetnsHelper \<in> set available then Ok BkNetnsHelper else Ok BkConstrainedLocal
               else Err NoIsolationAvailable)
      | BackendLocal \<Rightarrow>
          if ep_allow_unsafe_local policy then Ok BkConstrainedLocal else Err NoIsolationAvailable
      | NetnsHelper \<Rightarrow>
          if \<not> ep_allow_unsafe_local policy then Err NetnsRequiresUnsafeLocal
          else if BkNetnsHelper \<in> set available then Ok BkNetnsHelper
          else Err (BackendUnavailable (backend_id BkNetnsHelper))
      | other \<Rightarrow>
          (case explicit_backend other of
             Some b \<Rightarrow> if b \<in> set available then Ok b else Err (BackendUnavailable (backend_id b))
           | None \<Rightarrow> Err NoIsolationAvailable))"

section \<open>Launchers\<close>

definition TRUSTED_BIN_DIRS :: "str list" where
  "TRUSTED_BIN_DIRS = [''/usr/bin'', ''/bin'', ''/usr/sbin'', ''/sbin'', ''/usr/local/bin'',
     ''/opt/homebrew/bin'']"

definition has_no_curdir_or_empty_segments :: "str \<Rightarrow> bool" where
  "has_no_curdir_or_empty_segments program \<longleftrightarrow>
     list_all (\<lambda>s. s \<noteq> [] \<and> s \<noteq> ''.'') (drop 1 (split_on (CHR ''/'') program))"

definition has_only_normal_components :: "str \<Rightarrow> bool" where
  "has_only_normal_components p \<longleftrightarrow> list_all root_or_normal (components p)"

definition parent_is_trusted_dir :: "str \<Rightarrow> bool" where
  "parent_is_trusted_dir p =
     (case comps_parent (components p) of
        Some parent \<Rightarrow> \<exists>d \<in> set TRUSTED_BIN_DIRS. components d = parent
      | None \<Rightarrow> False)"

definition resolve_trusted_bin :: "(str \<Rightarrow> bool) \<Rightarrow> str \<Rightarrow> str option" where
  "resolve_trusted_bin executable program =
     (if CHR ''/'' \<in> set program
      then if is_absolute program \<and> has_no_curdir_or_empty_segments program
              \<and> has_only_normal_components program \<and> parent_is_trusted_dir program
              \<and> executable program
           then Some program else None
      else find executable (map (\<lambda>dir. path_join dir program) TRUSTED_BIN_DIRS))"

text \<open>\<open>user.rs\<close>: the ids as \<open>id\<close> prints them; \<open>id_output\<close> is its output when it could be run and
  succeeded.\<close>

definition id_value :: "(str \<Rightarrow> bool) \<Rightarrow> (str \<Rightarrow> str \<Rightarrow> str option) \<Rightarrow> str \<Rightarrow> str option" where
  "id_value executable id_output flag =
     (case resolve_trusted_bin executable ''id'' of
        None \<Rightarrow> None
      | Some id_bin \<Rightarrow>
          (case id_output id_bin flag of
             None \<Rightarrow> None
           | Some out \<Rightarrow>
               if \<not> utf8 out then None
               else let s = trim out in
                 if s = [] \<or> \<not> list_all ascii_digit s then None else Some s))"

definition current_uid_gid :: "(str \<Rightarrow> bool) \<Rightarrow> (str \<Rightarrow> str \<Rightarrow> str option) \<Rightarrow> str option" where
  "current_uid_gid executable id_output =
     (case id_value executable id_output ''-u'' of
        None \<Rightarrow> None
      | Some uid \<Rightarrow>
          (case id_value executable id_output ''-g'' of
             None \<Rightarrow> None
           | Some gid \<Rightarrow>
               if list_all (\<lambda>b. b = CHR ''0'') uid then None else Some (uid @ '':'' @ gid)))"

section \<open>The macOS profile\<close>

fun sbpl_escape :: "str \<Rightarrow> str" where
  "sbpl_escape [] = []"
| "sbpl_escape (c # s) =
     (if c = CHR 0x5C \<or> c = CHR 0x22 then CHR 0x5C # c # sbpl_escape s else c # sbpl_escape s)"

definition sbpl_string :: "str \<Rightarrow> str" where
  "sbpl_string s = CHR 0x22 # sbpl_escape s @ [CHR 0x22]"

definition abs_path :: "str \<Rightarrow> sandbox_error + str" where
  "abs_path p = (if is_absolute p then Ok p else Err (NonAbsolutePath p))"

definition profile_head :: str where
  "profile_head = join [LF] [''(version 1)'', ''(deny default)'', ''(allow process-fork)'',
     ''(allow process-exec)'', ''(allow signal (target self))'', ''(allow sysctl-read)'',
     ''(allow mach-lookup)'', ''(allow file-read*)'', ''(allow file-write*'', ''  (subpath '']"

definition profile_tail :: str where
  "profile_tail = ''))'' @ [LF] @ ''(deny network*)'' @ [LF]"

definition render_profile :: "str \<Rightarrow> str \<Rightarrow> sandbox_error + str" where
  "render_profile overlay tmp =
     (case abs_path overlay of
        Err e \<Rightarrow> Err e
      | Ok overlay \<Rightarrow>
          (case abs_path tmp of
             Err e \<Rightarrow> Err e
           | Ok tmp \<Rightarrow> Ok (profile_head @ sbpl_string overlay @ '')'' @ [LF] @ ''  (subpath ''
                           @ sbpl_string tmp @ profile_tail)))"

section \<open>Requests\<close>

record build_signal =
  bs_exit_codes :: "int list"
  bs_markers :: "str list"

definition default_signal :: build_signal where
  "default_signal = \<lparr>bs_exit_codes = [], bs_markers = []\<rparr>"

record spawn_request =
  sp_program :: str
  sp_args :: "str list"
  sp_cwd_rel :: str
  sp_shell :: bool
  sp_build_signal :: build_signal

definition spawn_argv :: "str \<Rightarrow> str list \<Rightarrow> spawn_request" where
  "spawn_argv program args = \<lparr>sp_program = program, sp_args = args, sp_cwd_rel = [],
     sp_shell = False, sp_build_signal = default_signal\<rparr>"

section \<open>Plans\<close>

record sandbox_plan =
  pn_backend :: backend
  pn_program :: str
  pn_args :: "str list"
  pn_cwd :: str
  pn_env :: env_map
  pn_container_name :: "str option"
  pn_cleanup :: "str list option"
  pn_new_process_group :: bool
  pn_build_signal :: build_signal
  pn_expects_start_sentinel :: bool

record plan_input =
  pi_backend :: backend
  pi_req :: spawn_request
  pi_overlay_root :: str
  pi_synthetic_tmp :: str
  pi_env :: env_map
  pi_policy :: exec_policy
  pi_instance :: str
  pi_run_as :: "str option"

definition START_SENTINEL :: str where "START_SENTINEL = ''jitgen-sandbox: inner-exec''"

fun push_components :: "str \<Rightarrow> component list \<Rightarrow> str option" where
  "push_components path [] = Some path"
| "push_components path (Normal s # cs) = push_components (path_join path s) cs"
| "push_components path (CurDir # cs) = push_components path cs"
| "push_components path (_ # cs) = None"

definition validated_cwd :: "str \<Rightarrow> str \<Rightarrow> sandbox_error + str" where
  "validated_cwd overlay_root cwd_rel =
     (if \<not> is_absolute overlay_root then Err (NonAbsolutePath overlay_root)
      else if CHR 0x5C \<in> set cwd_rel then Err (UnsafeCwd cwd_rel)
      else case push_components overlay_root (components cwd_rel) of
          Some path \<Rightarrow> Ok path
        | None \<Rightarrow> Err (UnsafeCwd cwd_rel))"

definition validate_instance :: "str \<Rightarrow> sandbox_error + unit" where
  "validate_instance s =
     (if 1 \<le> length s \<and> length s \<le> 64
         \<and> list_all (\<lambda>b. ascii_alnum b \<or> b = CHR ''-'' \<or> b = CHR ''_'') s
      then Ok () else Err (InvalidInstance s))"

text \<open>\<open>str::split_once\<close>.\<close>

fun split_once :: "str \<Rightarrow> str \<Rightarrow> (str \<times> str) option" where
  "split_once d [] = (if d = [] then Some ([], []) else None)"
| "split_once d (c # s) =
     (if starts_with (c # s) d then Some ([], drop (length d) (c # s))
      else map_option (\<lambda>(a, b). (c # a, b)) (split_once d s))"

definition lower_hex :: "char \<Rightarrow> bool" where
  "lower_hex b \<longleftrightarrow> ascii_digit b \<or> 97 \<le> code b \<and> code b \<le> 102"

definition is_digest_pinned :: "str \<Rightarrow> bool" where
  "is_digest_pinned img =
     (case split_once ''@sha256:'' img of
        Some (name, digest) \<Rightarrow> name \<noteq> [] \<and> length digest = 64 \<and> list_all lower_hex digest
      | None \<Rightarrow> False)"

definition digits :: "str \<Rightarrow> bool" where
  "digits x \<longleftrightarrow> x \<noteq> [] \<and> list_all ascii_digit x"

definition is_uid_gid :: "str \<Rightarrow> bool" where
  "is_uid_gid s =
     (case split_once '':'' s of
        Some (uid, gid) \<Rightarrow> digits uid \<and> digits gid \<and> list_ex (\<lambda>b. b \<noteq> CHR ''0'') uid
      | None \<Rightarrow> False)"

definition inner_argv :: "spawn_request \<Rightarrow> exec_policy \<Rightarrow> sandbox_error + str list" where
  "inner_argv req policy =
     (if sp_program req = [] then Err EmptyCommand
      else if sp_shell req
      then if \<not> ep_shell_allowed policy then Err ShellNotAllowed
           else Ok [''/bin/sh'', ''-c'', sp_program req @ concat (map (\<lambda>a. '' '' @ a) (sp_args req))]
      else if starts_with (sp_program req) ''-'' then Err OptionLikeProgram
      else Ok (sp_program req # sp_args req))"

definition rlimit_script :: "resource_limits \<Rightarrow> str" where
  "rlimit_script limits =
     ''ulimit -t '' @ show_nat (rl_cpu_seconds limits) @ '' 2>/dev/null || true; ulimit -v ''
     @ show_nat (rl_address_space_bytes limits div 1024) @ '' 2>/dev/null || true; printf ''
     @ [CHR 0x27] @ ''%s'' @ [CHR 0x5C] @ ''n'' @ [CHR 0x27] @ '' '' @ [CHR 0x27] @ START_SENTINEL
     @ [CHR 0x27] @ '' >&2; exec '' @ [CHR 0x22] @ ''$@'' @ [CHR 0x22]"

definition with_rlimit_preamble :: "str list \<Rightarrow> resource_limits \<Rightarrow> str list" where
  "with_rlimit_preamble inner limits =
     [''/bin/sh'', ''-c'', rlimit_script limits, ''jitgen-sandbox''] @ inner"

fun uses_preamble :: "backend \<Rightarrow> bool" where
  "uses_preamble BkSandboxExec = True"
| "uses_preamble BkBwrap = True"
| "uses_preamble BkNetnsHelper = True"
| "uses_preamble BkConstrainedLocal = True"
| "uses_preamble _ = False"

text \<open>The fields the direct launchers share.\<close>

definition direct_plan :: "plan_input \<Rightarrow> str \<Rightarrow> str list \<Rightarrow> str \<Rightarrow> sandbox_plan" where
  "direct_plan input program args cwd =
     \<lparr>pn_backend = pi_backend input, pn_program = program, pn_args = args, pn_cwd = cwd,
      pn_env = pi_env input, pn_container_name = None, pn_cleanup = None,
      pn_new_process_group = True, pn_build_signal = default_signal,
      pn_expects_start_sentinel = False\<rparr>"

definition plan_sandbox_exec :: "plan_input \<Rightarrow> str \<Rightarrow> str list \<Rightarrow> sandbox_error + sandbox_plan" where
  "plan_sandbox_exec input cwd inner =
     (case render_profile (pi_overlay_root input) (pi_synthetic_tmp input) of
        Err e \<Rightarrow> Err e
      | Ok profile \<Rightarrow> Ok (direct_plan input ''sandbox-exec'' ([''-p'', profile] @ inner) cwd))"

definition plan_bwrap :: "plan_input \<Rightarrow> str \<Rightarrow> str list \<Rightarrow> sandbox_plan" where
  "plan_bwrap input cwd inner =
     (let overlay = pi_overlay_root input in
      direct_plan input ''bwrap''
        ([''--unshare-all'', ''--die-with-parent'', ''--new-session'', ''--ro-bind'', ''/'', ''/'',
          ''--dev'', ''/dev'', ''--proc'', ''/proc'', ''--tmpfs'', ''/tmp'', ''--bind'', overlay,
          overlay, ''--chdir'', cwd, ''--clearenv'']
         @ concat (map (\<lambda>(k, v). [''--setenv'', k, v]) (pi_env input))
         @ [''--''] @ inner) cwd)"

definition plan_firejail :: "plan_input \<Rightarrow> str \<Rightarrow> str list \<Rightarrow> sandbox_plan" where
  "plan_firejail input cwd inner =
     (let overlay = pi_overlay_root input; l = ep_limits (pi_policy input) in
      direct_plan input ''firejail''
        ([''--net=none'', ''--read-only=/'', ''--read-write='' @ overlay, ''--whitelist='' @ overlay,
          ''--caps.drop=all'', ''--nonewprivs'', ''--nogroups'',
          ''--rlimit-as='' @ show_nat (rl_address_space_bytes l),
          ''--rlimit-cpu='' @ show_nat (rl_cpu_seconds l),
          ''--rlimit-nofile='' @ show_nat (rl_open_files l),
          ''--rlimit-nproc='' @ show_nat (rl_processes l),
          ''--rlimit-fsize='' @ show_nat (rl_file_size_bytes l)]
         @ [''--''] @ inner) cwd)"

definition container_env :: "str \<Rightarrow> env_map \<Rightarrow> env_map" where
  "container_env overlay env =
     bt_insert ''TMPDIR'' ''/tmp'' (bt_insert ''HOME'' (overlay @ ''/.jitgen-home'') env)"

definition container_options :: "plan_input \<Rightarrow> str \<Rightarrow> str \<Rightarrow> str list" where
  "container_options input cwd user =
     (let overlay = pi_overlay_root input; l = ep_limits (pi_policy input) in
      [''run'', ''--rm'', ''--pull=never'', ''--name'', ''jitgen-'' @ pi_instance input,
       ''--network=none'', ''--read-only'', ''--tmpfs'', ''/tmp:rw,nosuid,nodev,size=64m'',
       ''--mount'', ''type=bind,src='' @ overlay @ '',dst='' @ overlay, ''--workdir'', cwd,
       ''--cap-drop'', ''ALL'', ''--security-opt'', ''no-new-privileges'',
       ''--pids-limit'', show_nat (rl_processes l), ''--memory'', show_nat (rl_memory_bytes l),
       ''--memory-swap'', show_nat (rl_memory_bytes l), ''--cpus'', show_nat (rl_cpus l)]
      @ [''--user'', user]
      @ concat (map (\<lambda>(k, v). [''-e'', k @ ''='' @ v]) (container_env overlay (pi_env input))))"

definition plan_container :: "plan_input \<Rightarrow> str \<Rightarrow> str list \<Rightarrow> sandbox_error + sandbox_plan" where
  "plan_container input cwd inner =
     (case ep_docker_image (pi_policy input) of
        None \<Rightarrow> Err MissingImage
      | Some img \<Rightarrow>
          let program = (if pi_backend input = BkPodman then ''podman'' else ''docker'') in
          if \<not> is_digest_pinned img then Err (FloatingImageTag img)
          else (case pi_run_as input of
              None \<Rightarrow> Err MissingContainerUser
            | Some user \<Rightarrow>
                if \<not> is_uid_gid user then Err (InvalidRunAs user)
                else if CHR '','' \<in> set (pi_overlay_root input)
                then Err (UnsafeOverlayPath (pi_overlay_root input))
                else (case inner of
                    [] \<Rightarrow> Err EmptyCommand
                  | entrypoint # rest \<Rightarrow>
                      Ok \<lparr>pn_backend = pi_backend input, pn_program = program,
                         pn_args = container_options input cwd user
                           @ [''--entrypoint'', entrypoint, img] @ rest,
                         pn_cwd = cwd, pn_env = container_env (pi_overlay_root input) (pi_env input),
                         pn_container_name = Some (''jitgen-'' @ pi_instance input),
                         pn_cleanup = Some [program, ''kill'', ''--signal=KILL'', ''jitgen-'' @ pi_instance input],
                         pn_new_process_group = False, pn_build_signal = default_signal,
                         pn_expects_start_sentinel = False\<rparr>)))"

definition plan_netns_helper :: "plan_input \<Rightarrow> str \<Rightarrow> str list \<Rightarrow> sandbox_plan" where
  "plan_netns_helper input cwd inner =
     direct_plan input ''unshare'' ([''--user'', ''--map-root-user'', ''--net'', ''--''] @ inner) cwd"

definition plan_local :: "plan_input \<Rightarrow> str \<Rightarrow> str list \<Rightarrow> sandbox_plan" where
  "plan_local input cwd inner =
     direct_plan input (case inner of [] \<Rightarrow> [] | p # _ \<Rightarrow> p) (drop 1 inner) cwd"

definition plan_for :: "plan_input \<Rightarrow> str \<Rightarrow> str list \<Rightarrow> sandbox_error + sandbox_plan" where
  "plan_for input cwd inner =
     (case pi_backend input of
        BkSandboxExec \<Rightarrow> plan_sandbox_exec input cwd inner
      | BkBwrap \<Rightarrow> Ok (plan_bwrap input cwd inner)
      | BkFirejail \<Rightarrow> Ok (plan_firejail input cwd inner)
      | BkDocker \<Rightarrow> plan_container input cwd inner
      | BkPodman \<Rightarrow> plan_container input cwd inner
      | BkNetnsHelper \<Rightarrow> Ok (plan_netns_helper input cwd inner)
      | BkConstrainedLocal \<Rightarrow> Ok (plan_local input cwd inner))"

definition build_plan :: "plan_input \<Rightarrow> sandbox_error + sandbox_plan" where
  "build_plan input =
     (case validate_instance (pi_instance input) of
        Err e \<Rightarrow> Err e
      | Ok _ \<Rightarrow>
          (case validated_cwd (pi_overlay_root input) (sp_cwd_rel (pi_req input)) of
             Err e \<Rightarrow> Err e
           | Ok cwd \<Rightarrow>
               (case inner_argv (pi_req input) (pi_policy input) of
                  Err e \<Rightarrow> Err e
                | Ok inner \<Rightarrow>
                    if inner = [] then Err EmptyCommand
                    else let preamble = uses_preamble (pi_backend input);
                             inner = (if preamble
                                      then with_rlimit_preamble inner (ep_limits (pi_policy input))
                                      else inner)
                      in (case plan_for input cwd inner of
                            Err e \<Rightarrow> Err e
                          | Ok plan \<Rightarrow>
                              Ok (plan\<lparr>pn_build_signal := sp_build_signal (pi_req input),
                                       pn_expects_start_sentinel := preamble\<rparr>)))))"

section \<open>Launchers come from the system directories\<close>

lemma components_absolute_literal:
  assumes "is_absolute p" "has_no_curdir_or_empty_segments p" "has_only_normal_components p"
  shows "components p = RootDir # map Normal (tl (split_on (CHR ''/'') p))"
    "hd (split_on (CHR ''/'') p) = []"
proof -
  obtain q where p: "p = CHR ''/'' # q" using assms(1) by (cases p) (auto simp: is_absolute_def)
  then show hd: "hd (split_on (CHR ''/'') p) = []" by simp
  define segs where "segs = split_on (CHR ''/'') q"
  have tl: "tl (split_on (CHR ''/'') p) = segs" using p by (simp add: segs_def)
  have ne: "\<forall>s \<in> set segs. s \<noteq> [] \<and> s \<noteq> ''.''"
    using assms(2) p by (auto simp: has_no_curdir_or_empty_segments_def segs_def list_all_iff)
  have c: "components p = RootDir # concat (map seg_component segs)"
    using p by (simp add: components_def segs_def seg_component_def)
  have "\<forall>s \<in> set segs. s \<noteq> ''..''"
  proof
    fix s assume s: "s \<in> set segs"
    have "list_all root_or_normal (concat (map seg_component segs))"
      using assms(3) c by (simp add: has_only_normal_components_def)
    then have "list_all root_or_normal (seg_component s)" using s by (auto simp: list_all_iff)
    then show "s \<noteq> ''..''" by (auto simp: seg_component_def)
  qed
  then have "concat (map seg_component segs) = map Normal segs"
    using ne by (induction segs) (auto simp: seg_component_def)
  then show "components p = RootDir # map Normal (tl (split_on (CHR ''/'') p))" using c tl by simp
qed

lemma trusted_dirs_literal:
  "\<forall>d \<in> set TRUSTED_BIN_DIRS. components d = RootDir # map Normal (tl (split_on (CHR ''/'') d))
     \<and> hd (split_on (CHR ''/'') d) = [] \<and> tl (split_on (CHR ''/'') d) \<noteq> []
     \<and> d \<noteq> [] \<and> last d \<noteq> CHR ''/''"
  by code_simp

definition child_of_trusted :: "str \<Rightarrow> bool" where
  "child_of_trusted q \<longleftrightarrow>
     (\<exists>d \<in> set TRUSTED_BIN_DIRS. \<exists>name. CHR ''/'' \<notin> set name \<and> q = d @ ''/'' @ name)"

lemma literal_child:
  assumes "is_absolute p" "has_no_curdir_or_empty_segments p" "has_only_normal_components p"
    "parent_is_trusted_dir p"
  shows "child_of_trusted p"
proof -
  let ?s = "split_on (CHR ''/'')"
  note lit = components_absolute_literal [OF assms(1-3)]
  obtain d where d: "d \<in> set TRUSTED_BIN_DIRS" "Some (components d) = comps_parent (components p)"
    using assms(4) by (auto simp: parent_is_trusted_dir_def split: option.splits)
  have dl: "components d = RootDir # map Normal (tl (?s d))" "hd (?s d) = []"
    using trusted_dirs_literal d(1) by auto
  have ne: "tl (?s p) \<noteq> []"
    using d(2) lit(1) by (auto simp: comps_parent_def split: if_splits)
  then have "components d = RootDir # map Normal (butlast (tl (?s p)))"
    using d(2) lit(1) by (auto simp: comps_parent_def map_butlast last_map split: if_splits)
  then have "map Normal (tl (?s d)) = map Normal (butlast (tl (?s p)))" using dl(1) by simp
  then have eq: "tl (?s d) = butlast (tl (?s p))"
    by (metis (no_types, lifting) component.inject list.inj_map_strong)
  have "?s p = [] # tl (?s p)" using lit(2) by (metis list.collapse split_on_nonempty)
  then have sp: "?s p = ?s d @ [last (tl (?s p))]"
    using eq dl(2) ne by (metis append_Cons append_butlast_last_id list.collapse split_on_nonempty)
  have "join [CHR ''/''] (?s p) = join [CHR ''/''] (?s d @ [last (tl (?s p))])" using sp by simp
  then have p: "p = d @ ''/'' @ last (tl (?s p))" by (simp add: join_append join_split_on)
  moreover have "CHR ''/'' \<notin> set (last (tl (?s p)))"
    using ne split_on_elem by (metis last_in_set list.set_sel(2) split_on_nonempty)
  ultimately show ?thesis using d(1) unfolding child_of_trusted_def by blast
qed

lemma find_SomeD: "find P xs = Some x \<Longrightarrow> x \<in> set xs \<and> P x"
  by (induction xs) (auto split: if_splits)

lemma trusted_child_bare:
  assumes "find executable (map (\<lambda>dir. path_join dir program) TRUSTED_BIN_DIRS) = Some q"
    "CHR ''/'' \<notin> set program"
  shows "child_of_trusted q"
proof -
  obtain d where d: "d \<in> set TRUSTED_BIN_DIRS" "q = path_join d program"
    using assms(1) by (auto dest!: find_SomeD)
  have "\<not> is_absolute program" using assms(2) by (cases program) (auto simp: is_absolute_def)
  then have "q = d @ ''/'' @ program"
    using d trusted_dirs_literal by (auto simp: path_join_def)
  then show ?thesis using d assms(2) unfolding child_of_trusted_def by blast
qed

text \<open>A launcher is only ever an executable file that stands directly in one of the system's
  directories, by its literal path: neither \<open>..\<close>, \<open>.\<close> nor an empty segment leads anywhere else.\<close>

theorem launcher_is_trusted_child:
  assumes "resolve_trusted_bin executable program = Some q"
  shows "child_of_trusted q \<and> executable q"
proof (cases "CHR ''/'' \<in> set program")
  case True
  then show ?thesis using assms literal_child by (auto simp: resolve_trusted_bin_def split: if_splits)
next
  case False
  then show ?thesis using assms trusted_child_bare [of executable program q]
    by (auto simp: resolve_trusted_bin_def dest!: find_SomeD)
qed

theorem launcher_is_trusted_child_witness:
  "resolve_trusted_bin (\<lambda>p. p = ''/usr/bin/docker'') ''docker'' = Some ''/usr/bin/docker''
   \<and> child_of_trusted ''/usr/bin/docker''"
proof -
  have "resolve_trusted_bin (\<lambda>p. p = ''/usr/bin/docker'') ''docker'' = Some ''/usr/bin/docker''" by code_simp
  then show ?thesis using launcher_is_trusted_child by blast
qed

section \<open>A path cannot leave its place in the profile\<close>

fun sbpl_unquote :: "str \<Rightarrow> (str \<times> str) option" where
  "sbpl_unquote [] = None"
| "sbpl_unquote (c # s) =
     (if c = CHR 0x22 then Some ([], s)
      else if c = CHR 0x5C
      then (case s of [] \<Rightarrow> None | d # s \<Rightarrow> map_option (\<lambda>(a, r). (d # a, r)) (sbpl_unquote s))
      else map_option (\<lambda>(a, r). (c # a, r)) (sbpl_unquote s))"

definition read_string :: "str \<Rightarrow> (str \<times> str) option" where
  "read_string s = (case s of [] \<Rightarrow> None | c # t \<Rightarrow> if c = CHR 0x22 then sbpl_unquote t else None)"

text \<open>A reader of profiles of this form: the two places that may be written.\<close>

definition read_profile :: "str \<Rightarrow> (str \<times> str) option" where
  "read_profile s =
     (case strip_prefix s profile_head of
        None \<Rightarrow> None
      | Some s \<Rightarrow>
          (case read_string s of
             None \<Rightarrow> None
           | Some (overlay, s) \<Rightarrow>
               (case strip_prefix s ('')'' @ [LF] @ ''  (subpath '') of
                  None \<Rightarrow> None
                | Some s \<Rightarrow>
                    (case read_string s of
                       None \<Rightarrow> None
                     | Some (tmp, s) \<Rightarrow> if s = profile_tail then Some (overlay, tmp) else None))))"

lemma sbpl_unquote_escape: "sbpl_unquote (sbpl_escape s @ CHR 0x22 # r) = Some (s, r)"
  by (induction s) auto

lemma read_string_sbpl [simp]: "read_string (sbpl_string s @ r) = Some (s, r)"
  using sbpl_unquote_escape [of s r] by (simp add: read_string_def sbpl_string_def)

lemma strip_prefix_append [simp]: "strip_prefix (p @ s) p = Some s"
  by (simp add: strip_prefix_def starts_with_def)

text \<open>Whatever characters the two paths have, the profile that \<open>sandbox-exec\<close> receives is the fixed
  policy with exactly these two paths as the places that may be written.\<close>

theorem profile_reads_back:
  assumes "render_profile overlay tmp = Ok s"
  shows "read_profile s = Some (overlay, tmp)"
proof -
  let ?sep = "'')'' @ [LF] @ ''  (subpath ''"
  have s: "s = profile_head @ sbpl_string overlay @ ?sep @ sbpl_string tmp @ profile_tail"
    using assms by (auto simp: render_profile_def abs_path_def split: if_splits)
  have 1: "strip_prefix s profile_head = Some (sbpl_string overlay @ ?sep @ sbpl_string tmp @ profile_tail)"
    by (simp only: s strip_prefix_append)
  have 2: "strip_prefix (?sep @ sbpl_string tmp @ profile_tail) ?sep = Some (sbpl_string tmp @ profile_tail)"
    by (rule strip_prefix_append)
  show ?thesis
    unfolding read_profile_def 1 option.case read_string_sbpl prod.case 2 by simp
qed

theorem profile_reads_back_witness:
  "\<exists>s. render_profile [CHR ''/'', CHR 0x22, CHR ''x''] ''/t'' = Ok s
     \<and> read_profile s = Some ([CHR ''/'', CHR 0x22, CHR ''x''], ''/t'')"
proof -
  have "\<exists>s. render_profile [CHR ''/'', CHR 0x22, CHR ''x''] ''/t'' = Ok s"
    by (simp add: render_profile_def abs_path_def is_absolute_def)
  then show ?thesis using profile_reads_back by blast
qed

section \<open>Selection fails closed\<close>

definition isolating :: "backend \<Rightarrow> bool" where
  "isolating b \<longleftrightarrow> tier_of b = TierOsSandbox \<or> tier_of b = TierContainer"

lemma auto_preference_isolating: "b \<in> set AUTO_PREFERENCE \<Longrightarrow> isolating b"
  by (auto simp: AUTO_PREFERENCE_def isolating_def)

lemma explicit_isolating: "explicit_backend x = Some b \<Longrightarrow> isolating b"
  by (cases x) (auto simp: isolating_def)

lemma select_backend_cases:
  assumes "select_backend available policy = Ok b"
  shows "isolating b \<and> b \<in> set available
    \<or> ep_allow_unsafe_local policy \<and> (b = BkConstrainedLocal \<or> b = BkNetnsHelper \<and> b \<in> set available)"
proof (cases "ep_backend policy = BackendAuto")
  case True
  show ?thesis
  proof (cases "find (\<lambda>b. b \<in> set available) AUTO_PREFERENCE")
    case None
    then show ?thesis using assms True by (auto simp: select_backend_def split: if_splits)
  next
    case (Some c)
    then show ?thesis
      using assms True auto_preference_isolating [of c] find_SomeD [OF Some] by (simp add: select_backend_def)
  qed
next
  case False
  then show ?thesis using assms
    by (cases "ep_backend policy") (auto simp: select_backend_def isolating_def split: if_splits)
qed

section \<open>The working directory\<close>

lemma push_components_plain:
  assumes "push_components path cs = Some q" "list_all plain_name (normals cs)" "path \<noteq> []"
  shows "components q = components path @ map Normal (normals cs) \<and> list_all root_or_normal (map Normal (normals cs))
    \<and> RootDir \<notin> set cs \<and> ParentDir \<notin> set cs"
  using assms
proof (induction path cs rule: push_components.induct)
  case (2 path s cs)
  then have "plain_name s" by simp
  then have s: "\<not> is_absolute s" "split_on (CHR ''/'') s = [s]" "seg_component s = [Normal s]"
    by (cases s; auto simp: plain_name_def is_absolute_def split_on_no_sep seg_component_def)+
  have "components (path_join path s) = components path @ [Normal s]"
    using components_join [OF s(1) 2(4)] s(2,3) by simp
  moreover have "path_join path s \<noteq> []" using 2(4) s(1) by (simp add: path_join_def)
  ultimately show ?case using 2 by simp
qed (auto simp: list_all_iff)

lemma push_components_ok:
  "(\<exists>q. push_components path cs = Some q) \<longleftrightarrow> RootDir \<notin> set cs \<and> ParentDir \<notin> set cs"
  by (induction path cs rule: push_components.induct) auto

lemma validated_cwd_inside:
  assumes "validated_cwd overlay rel = Ok cwd"
  shows "components cwd = components overlay @ map Normal (normals (components rel))" "is_absolute overlay"
proof -
  have a: "is_absolute overlay" "push_components overlay (components rel) = Some cwd"
    using assms by (auto simp: validated_cwd_def split: if_splits option.splits)
  then show "is_absolute overlay" by simp
  have "overlay \<noteq> []" using a(1) by (auto simp: is_absolute_def)
  then show "components cwd = components overlay @ map Normal (normals (components rel))"
    using push_components_plain [OF a(2) normals_components] by simp
qed

section \<open>When a plan is made\<close>

lemma inner_argv_nonempty: "inner_argv req policy = Ok c \<Longrightarrow> c \<noteq> []"
  by (auto simp: inner_argv_def split: if_splits)

text \<open>The conditions under which a request may be run at all.\<close>

definition instance_allowed :: "str \<Rightarrow> bool" where
  "instance_allowed s \<longleftrightarrow> 1 \<le> length s \<and> length s \<le> 64
     \<and> list_all (\<lambda>b. ascii_alnum b \<or> b = CHR ''-'' \<or> b = CHR ''_'') s"

definition cwd_allowed :: "str \<Rightarrow> str \<Rightarrow> bool" where
  "cwd_allowed overlay rel \<longleftrightarrow> is_absolute overlay \<and> CHR 0x5C \<notin> set rel
     \<and> RootDir \<notin> set (components rel) \<and> ParentDir \<notin> set (components rel)"

definition command_allowed :: "spawn_request \<Rightarrow> exec_policy \<Rightarrow> bool" where
  "command_allowed req policy \<longleftrightarrow> sp_program req \<noteq> []
     \<and> (if sp_shell req then ep_shell_allowed policy else \<not> starts_with (sp_program req) ''-'')"

fun backend_allowed :: "backend \<Rightarrow> plan_input \<Rightarrow> bool" where
  "backend_allowed BkSandboxExec i = is_absolute (pi_synthetic_tmp i)"
| "backend_allowed BkDocker i =
     ((\<exists>img. ep_docker_image (pi_policy i) = Some img \<and> is_digest_pinned img)
      \<and> (\<exists>user. pi_run_as i = Some user \<and> is_uid_gid user) \<and> CHR '','' \<notin> set (pi_overlay_root i))"
| "backend_allowed BkPodman i =
     ((\<exists>img. ep_docker_image (pi_policy i) = Some img \<and> is_digest_pinned img)
      \<and> (\<exists>user. pi_run_as i = Some user \<and> is_uid_gid user) \<and> CHR '','' \<notin> set (pi_overlay_root i))"
| "backend_allowed _ i = True"

definition plan_allowed :: "plan_input \<Rightarrow> bool" where
  "plan_allowed i \<longleftrightarrow> instance_allowed (pi_instance i)
     \<and> cwd_allowed (pi_overlay_root i) (sp_cwd_rel (pi_req i))
     \<and> command_allowed (pi_req i) (pi_policy i) \<and> backend_allowed (pi_backend i) i"

lemma validate_instance_ok: "validate_instance s = Ok u \<longleftrightarrow> instance_allowed s"
  by (auto simp: validate_instance_def instance_allowed_def)

lemma validated_cwd_ok: "(\<exists>cwd. validated_cwd ov rel = Ok cwd) \<longleftrightarrow> cwd_allowed ov rel"
  using push_components_ok [of ov "components rel"]
  by (auto simp: validated_cwd_def cwd_allowed_def split: option.splits)

lemma inner_argv_ok: "(\<exists>c. inner_argv req policy = Ok c) \<longleftrightarrow> command_allowed req policy"
  by (auto simp: inner_argv_def command_allowed_def)

lemma plan_container_ok:
  "inner \<noteq> [] \<Longrightarrow> (\<exists>p. plan_container i cwd inner = Ok p) \<longleftrightarrow> backend_allowed BkDocker i"
  by (auto simp: plan_container_def Let_def split: option.splits list.splits)

lemma plan_for_ok:
  assumes "inner \<noteq> []" "is_absolute (pi_overlay_root i)"
  shows "(\<exists>p. plan_for i cwd inner = Ok p) \<longleftrightarrow> backend_allowed (pi_backend i) i"
proof (cases "pi_backend i")
  case BkSandboxExec
  then show ?thesis using assms(2)
    by (auto simp: plan_for_def plan_sandbox_exec_def render_profile_def abs_path_def split: sum.splits)
qed (use plan_container_ok [OF assms(1), of i cwd] in \<open>auto simp: plan_for_def\<close>)

text \<open>The steps of a plan that was made.\<close>

definition inner_for :: "plan_input \<Rightarrow> str list \<Rightarrow> str list" where
  "inner_for i c = (if uses_preamble (pi_backend i) then with_rlimit_preamble c (ep_limits (pi_policy i)) else c)"

lemma inner_for_nonempty: "c \<noteq> [] \<Longrightarrow> inner_for i c \<noteq> []"
  by (simp add: inner_for_def with_rlimit_preamble_def)

lemma build_plan_steps:
  "build_plan i = Ok p \<longleftrightarrow>
     (\<exists>cwd c q. validate_instance (pi_instance i) = Ok ()
        \<and> validated_cwd (pi_overlay_root i) (sp_cwd_rel (pi_req i)) = Ok cwd
        \<and> inner_argv (pi_req i) (pi_policy i) = Ok c
        \<and> plan_for i cwd (inner_for i c) = Ok q
        \<and> p = q\<lparr>pn_build_signal := sp_build_signal (pi_req i),
                pn_expects_start_sentinel := uses_preamble (pi_backend i)\<rparr>)"
  by (auto simp: build_plan_def Let_def inner_for_def dest: inner_argv_nonempty split: sum.splits)

lemma build_plan_ok: "(\<exists>p. build_plan i = Ok p) \<longleftrightarrow> plan_allowed i"
proof
  assume "\<exists>p. build_plan i = Ok p"
  then obtain cwd c q where s: "validate_instance (pi_instance i) = Ok ()"
    "validated_cwd (pi_overlay_root i) (sp_cwd_rel (pi_req i)) = Ok cwd"
    "inner_argv (pi_req i) (pi_policy i) = Ok c" "plan_for i cwd (inner_for i c) = Ok q"
    unfolding build_plan_steps by blast
  then show "plan_allowed i"
    unfolding plan_allowed_def
    using validate_instance_ok validated_cwd_ok inner_argv_ok
      plan_for_ok [OF inner_for_nonempty [OF inner_argv_nonempty [OF s(3)]] validated_cwd_inside(2) [OF s(2)]]
    by blast
next
  assume a: "plan_allowed i"
  then obtain cwd c where s: "validate_instance (pi_instance i) = Ok ()"
    "validated_cwd (pi_overlay_root i) (sp_cwd_rel (pi_req i)) = Ok cwd"
    "inner_argv (pi_req i) (pi_policy i) = Ok c"
    unfolding plan_allowed_def using validate_instance_ok validated_cwd_ok inner_argv_ok by blast
  then obtain q where "plan_for i cwd (inner_for i c) = Ok q"
    using a plan_for_ok [OF inner_for_nonempty [OF inner_argv_nonempty [OF s(3)]] validated_cwd_inside(2) [OF s(2)]]
    unfolding plan_allowed_def by blast
  then show "\<exists>p. build_plan i = Ok p" unfolding build_plan_steps using s by blast
qed

text \<open>A plan is made exactly when the instance name is safe, the working directory stays below an
  absolute overlay root, the program is neither empty nor option-like (or the trusted policy allows the
  shell), and a container has a digest-pinned image, a user that is not root and an overlay path that
  cannot be misread as a mount option; every other request is an error.\<close>

theorem build_plan_gates: "(\<exists>p. build_plan i = Ok p) \<longleftrightarrow> plan_allowed i"
  by (rule build_plan_ok)

section \<open>The command cannot change the launcher's options\<close>

definition spawned :: "sandbox_plan \<Rightarrow> str list" where
  "spawned p = pn_program p # pn_args p"

text \<open>Two plans for the same setting whose argv differ only where the two commands stand: a program at
  one place and its arguments at the end.\<close>

definition same_but_command :: "str list \<Rightarrow> sandbox_plan \<Rightarrow> str list \<Rightarrow> sandbox_plan \<Rightarrow> bool" where
  "same_but_command c p c' p' \<longleftrightarrow>
     (\<exists>a b. spawned p = a @ hd c # b @ tl c \<and> spawned p' = a @ hd c' # b @ tl c')
     \<and> pn_env p = pn_env p' \<and> pn_cwd p = pn_cwd p' \<and> pn_cleanup p = pn_cleanup p'
     \<and> pn_new_process_group p = pn_new_process_group p'"

lemma same_but_commandI:
  assumes "spawned p = a @ hd c # b @ tl c" "spawned p' = a @ hd c' # b @ tl c'"
    "pn_env p = pn_env p'" "pn_cwd p = pn_cwd p'" "pn_cleanup p = pn_cleanup p'"
    "pn_new_process_group p = pn_new_process_group p'"
  shows "same_but_command c p c' p'"
  using assms unfolding same_but_command_def by blast

lemma same_but_command_direct:
  assumes "c \<noteq> []" "c' \<noteq> []"
    "spawned p = a @ c" "spawned p' = a @ c'"
    "pn_env p = pn_env p'" "pn_cwd p = pn_cwd p'" "pn_cleanup p = pn_cleanup p'"
    "pn_new_process_group p = pn_new_process_group p'"
  shows "same_but_command c p c' p'"
proof -
  have "spawned p = a @ hd c # [] @ tl c \<and> spawned p' = a @ hd c' # [] @ tl c'"
    using assms(1-4) by simp
  then show ?thesis using assms(5-8) unfolding same_but_command_def by blast
qed

lemma spawned_update [simp]:
  "spawned (p\<lparr>pn_build_signal := s, pn_expects_start_sentinel := e\<rparr>) = spawned p"
  by (simp add: spawned_def)

lemma spawned_direct [simp]: "spawned (direct_plan i prog args cwd) = prog # args"
  by (simp add: spawned_def direct_plan_def)

lemma direct_plan_fields [simp]:
  "pn_env (direct_plan i prog args cwd) = pi_env i" "pn_cwd (direct_plan i prog args cwd) = cwd"
  "pn_cleanup (direct_plan i prog args cwd) = None" "pn_new_process_group (direct_plan i prog args cwd)"
  by (simp_all add: direct_plan_def)

definition direct_prefix :: "plan_input \<Rightarrow> str \<Rightarrow> str list" where
  "direct_prefix i cwd =
     (case pi_backend i of
        BkSandboxExec \<Rightarrow>
          (case render_profile (pi_overlay_root i) (pi_synthetic_tmp i) of
             Ok pr \<Rightarrow> ''sandbox-exec'' # [''-p'', pr] | Err e \<Rightarrow> [])
      | BkBwrap \<Rightarrow> spawned (plan_bwrap i cwd [])
      | BkFirejail \<Rightarrow> spawned (plan_firejail i cwd [])
      | BkNetnsHelper \<Rightarrow> spawned (plan_netns_helper i cwd [])
      | _ \<Rightarrow> [])"

lemma plan_for_direct:
  assumes "plan_for i cwd inner = Ok q" "inner \<noteq> []" "tier_of (pi_backend i) \<noteq> TierContainer"
  shows "spawned q = direct_prefix i cwd @ inner \<and> pn_env q = pi_env i \<and> pn_cwd q = cwd
    \<and> pn_cleanup q = None \<and> pn_new_process_group q"
  using assms
  by (cases "pi_backend i")
    (auto simp: plan_for_def direct_prefix_def plan_sandbox_exec_def plan_bwrap_def plan_firejail_def
       plan_netns_helper_def plan_local_def Let_def neq_Nil_conv split: sum.splits)

lemma plan_for_container:
  assumes "plan_for i cwd inner = Ok q" "tier_of (pi_backend i) = TierContainer"
  obtains user img where "pi_run_as i = Some user" "ep_docker_image (pi_policy i) = Some img"
    "pn_args q = container_options i cwd user @ [''--entrypoint'', hd inner, img] @ tl inner"
    "pn_program q = (if pi_backend i = BkPodman then ''podman'' else ''docker'')" "pn_cwd q = cwd"
    "pn_env q = container_env (pi_overlay_root i) (pi_env i)"
    "pn_cleanup q = Some [pn_program q, ''kill'', ''--signal=KILL'', ''jitgen-'' @ pi_instance i]"
    "\<not> pn_new_process_group q"
proof -
  have "plan_container i cwd inner = Ok q" using assms by (cases "pi_backend i") (auto simp: plan_for_def)
  then show ?thesis using that
    unfolding plan_container_def Let_def by (auto split: option.splits if_splits list.splits)
qed

lemma container_options_ignore_request [simp]:
  "container_options (i\<lparr>pi_req := r\<rparr>) = container_options i"
  by (simp add: container_options_def fun_eq_iff)

lemma direct_plan_ignores_request [simp]: "direct_plan (i\<lparr>pi_req := r\<rparr>) = direct_plan i"
  by (simp add: direct_plan_def fun_eq_iff)

lemma plan_for_ignores_request: "plan_for (i\<lparr>pi_req := r\<rparr>) = plan_for i"
proof (intro ext)
  fix cwd inner
  have "plan_container (i\<lparr>pi_req := r\<rparr>) cwd inner = plan_container i cwd inner"
    by (auto simp: plan_container_def Let_def split: option.splits list.splits)
  moreover have "plan_sandbox_exec (i\<lparr>pi_req := r\<rparr>) cwd inner = plan_sandbox_exec i cwd inner"
    by (auto simp: plan_sandbox_exec_def split: sum.splits)
  ultimately show "plan_for (i\<lparr>pi_req := r\<rparr>) cwd inner = plan_for i cwd inner"
    by (cases "pi_backend i")
      (simp_all add: plan_for_def plan_bwrap_def plan_firejail_def plan_netns_helper_def plan_local_def)
qed

text \<open>C14: For one backend, policy and directory, what a request puts on the command line is only its own
  program and its own arguments, at fixed places behind the launcher's options: no program or argument,
  whatever its text, adds, drops or changes an option, the environment, the working directory or the
  teardown.\<close>

theorem command_cannot_change_options:
  assumes "build_plan i = Ok p" "build_plan (i\<lparr>pi_req := r\<rparr>) = Ok p'"
    "sp_cwd_rel r = sp_cwd_rel (pi_req i)"
    "inner_argv (pi_req i) (pi_policy i) = Ok c" "inner_argv r (pi_policy i) = Ok c'"
  shows "same_but_command c p c' p'"
proof -
  obtain cwd q where s: "validated_cwd (pi_overlay_root i) (sp_cwd_rel (pi_req i)) = Ok cwd"
    "plan_for i cwd (inner_for i c) = Ok q"
    "p = q\<lparr>pn_build_signal := sp_build_signal (pi_req i), pn_expects_start_sentinel := uses_preamble (pi_backend i)\<rparr>"
    using assms(1,4) unfolding build_plan_steps by auto
  have same: "inner_for (i\<lparr>pi_req := r\<rparr>) = inner_for i" by (simp add: inner_for_def fun_eq_iff)
  have plans: "plan_for (i\<lparr>pi_req := r\<rparr>) = plan_for i" by (rule plan_for_ignores_request)
  obtain q' where s': "plan_for i cwd (inner_for i c') = Ok q'"
    "p' = q'\<lparr>pn_build_signal := sp_build_signal r, pn_expects_start_sentinel := uses_preamble (pi_backend i)\<rparr>"
    using assms(2,3,5) s(1) unfolding build_plan_steps by (auto simp: same plans)
  note ne = inner_argv_nonempty [OF assms(4)] inner_argv_nonempty [OF assms(5)]
  show ?thesis
  proof (cases "tier_of (pi_backend i) = TierContainer")
    case True
    have inner: "inner_for i c = c" "inner_for i c' = c'"
      using True by (cases "pi_backend i"; simp add: inner_for_def)+
    obtain user img where q: "pi_run_as i = Some user" "ep_docker_image (pi_policy i) = Some img"
      "pn_args q = container_options i cwd user @ [''--entrypoint'', hd c, img] @ tl c"
      "pn_program q = (if pi_backend i = BkPodman then ''podman'' else ''docker'')" "pn_cwd q = cwd"
      "pn_env q = container_env (pi_overlay_root i) (pi_env i)"
      "pn_cleanup q = Some [pn_program q, ''kill'', ''--signal=KILL'', ''jitgen-'' @ pi_instance i]"
      "\<not> pn_new_process_group q"
      using plan_for_container [OF s(2) True] inner by metis
    obtain user' img' where q': "pi_run_as i = Some user'" "ep_docker_image (pi_policy i) = Some img'"
      "pn_args q' = container_options i cwd user' @ [''--entrypoint'', hd c', img'] @ tl c'"
      "pn_program q' = (if pi_backend i = BkPodman then ''podman'' else ''docker'')" "pn_cwd q' = cwd"
      "pn_env q' = container_env (pi_overlay_root i) (pi_env i)"
      "pn_cleanup q' = Some [pn_program q', ''kill'', ''--signal=KILL'', ''jitgen-'' @ pi_instance i]"
      "\<not> pn_new_process_group q'"
      using plan_for_container [OF s'(1) True] inner by metis
    let ?a = "pn_program q # container_options i cwd user @ [''--entrypoint'']"
    have "spawned p = ?a @ hd c # [img] @ tl c \<and> spawned p' = ?a @ hd c' # [img] @ tl c'"
      using q(1-4) q'(1-4) s(3) s'(2) by (simp add: spawned_def)
    then show ?thesis
      using q(4-8) q'(4-8) s(3) s'(2) by (intro same_but_commandI [of p ?a c "[img]"]) simp_all
  next
    case False
    define pre where "pre = (if uses_preamble (pi_backend i) then with_rlimit_preamble [] (ep_limits (pi_policy i)) else [])"
    have inner: "inner_for i d = pre @ d" for d
      by (simp add: inner_for_def pre_def with_rlimit_preamble_def)
    show ?thesis
      by (rule same_but_command_direct [OF ne, of _ "direct_prefix i cwd @ pre"])
        (use plan_for_direct [OF s(2) inner_for_nonempty [OF ne(1)] False]
             plan_for_direct [OF s'(1) inner_for_nonempty [OF ne(2)] False] s(3) s'(2)
         in \<open>simp_all add: inner\<close>)
  qed
qed

definition docker_policy :: exec_policy where
  "docker_policy = (from_trusted default_trusted)\<lparr>ep_docker_image :=
     Some (''img@sha256:'' @ replicate 64 (CHR ''a''))\<rparr>"

definition docker_input :: plan_input where
  "docker_input = \<lparr>pi_backend = BkDocker, pi_req = spawn_argv ''cargo'' [''test''],
     pi_overlay_root = ''/ov'', pi_synthetic_tmp = ''/ov/.jitgen-tmp'', pi_env = [],
     pi_policy = docker_policy, pi_instance = ''run-1'', pi_run_as = Some ''1000:1000''\<rparr>"

lemma docker_input_allowed:
  "plan_allowed docker_input" "plan_allowed (docker_input\<lparr>pi_req := spawn_argv ''sh'' [''--privileged'']\<rparr>)"
proof -
  have "is_digest_pinned (''img@sha256:'' @ replicate 64 (CHR ''a''))" by code_simp
  moreover have "is_uid_gid ''1000:1000''" by code_simp
  moreover have "instance_allowed ''run-1''" by (simp add: instance_allowed_def ascii_alnum_def ascii_lower_def ascii_digit_def)
  moreover have "components [] = []" by code_simp
  ultimately show "plan_allowed docker_input"
    "plan_allowed (docker_input\<lparr>pi_req := spawn_argv ''sh'' [''--privileged'']\<rparr>)"
    by (simp_all add: plan_allowed_def docker_input_def docker_policy_def cwd_allowed_def is_absolute_def
        command_allowed_def spawn_argv_def starts_with_def)
qed

theorem command_cannot_change_options_witness:
  "\<exists>p p'. build_plan docker_input = Ok p
     \<and> build_plan (docker_input\<lparr>pi_req := spawn_argv ''sh'' [''--privileged'']\<rparr>) = Ok p'
     \<and> same_but_command [''cargo'', ''test''] p [''sh'', ''--privileged''] p'"
proof -
  obtain p p' where p: "build_plan docker_input = Ok p"
    "build_plan (docker_input\<lparr>pi_req := spawn_argv ''sh'' [''--privileged'']\<rparr>) = Ok p'"
    using docker_input_allowed unfolding build_plan_ok [symmetric] by blast
  have "same_but_command [''cargo'', ''test''] p [''sh'', ''--privileged''] p'"
    by (rule command_cannot_change_options [OF p])
      (simp_all add: docker_input_def spawn_argv_def inner_argv_def starts_with_def)
  then show ?thesis using p by blast
qed

end
