(* ===== verification/Filesys.thy ===== *)
theory Filesys
  imports Paths
begin

text \<open>
  The calls of \<open>std::fs\<close> that the writers use, over a tree of directories, files and symbolic links. A
  location is the list of names from the root directory. A path is a location that is known to be a
  directory together with the components that follow; a lookup walks them and follows the links it
  meets, as the kernel does. The calls have no failures of their own (a full disk), and there is one
  process.
\<close>

datatype fs_node = DirNode | FileNode str | LinkNode str | OtherNode

type_synonym filesys = "str list \<rightharpoonup> fs_node"

datatype io_error = NotFound | AlreadyExists | OtherIo str

fun show_io :: "io_error \<Rightarrow> str" where
  "show_io NotFound = ''No such file or directory (os error 2)''"
| "show_io AlreadyExists = ''File exists (os error 17)''"
| "show_io (OtherIo e) = e"

section \<open>Lookup\<close>

text \<open>The components of a path for the kernel: \<open>.\<close> is kept wherever it stands, and a slash at the end
  is like a dot after it.\<close>

definition kernel_component :: "str \<Rightarrow> component" where
  "kernel_component s = (if s = ''.'' then CurDir else if s = ''..'' then ParentDir else Normal s)"

definition kernel_components :: "str \<Rightarrow> component list" where
  "kernel_components p =
     (if is_absolute p then [RootDir] else [])
     @ map kernel_component (filter (\<lambda>s. s \<noteq> []) (split_on (CHR ''/'') p))
     @ (if p \<noteq> [] \<and> last p = CHR ''/'' then [CurDir] else [])"

definition is_dir :: "filesys \<Rightarrow> str list \<Rightarrow> bool" where
  "is_dir fs loc \<longleftrightarrow> loc = [] \<or> fs loc = Some DirNode"

definition MAX_LINKS :: nat where "MAX_LINKS = 40"

text \<open>
  The location of a path; with \<open>create\<close> its last name may be missing. Links in the middle and at the
  end are followed.
\<close>

function resolve_path :: "filesys \<Rightarrow> bool \<Rightarrow> nat \<Rightarrow> str list \<Rightarrow> component list \<Rightarrow> io_error + str list" where
  "resolve_path fs create links cur [] = Ok cur"
| "resolve_path fs create links cur (RootDir # cs) = resolve_path fs create links [] cs"
| "resolve_path fs create links cur (CurDir # cs) = resolve_path fs create links cur cs"
| "resolve_path fs create links cur (ParentDir # cs) =
     (if is_dir fs (butlast cur) then resolve_path fs create links (butlast cur) cs else Err NotFound)"
| "resolve_path fs create links cur (Normal s # cs) =
     (case fs (cur @ [s]) of
        None \<Rightarrow> if create \<and> cs = [] then Ok (cur @ [s]) else Err NotFound
      | Some DirNode \<Rightarrow> resolve_path fs create links (cur @ [s]) cs
      | Some (LinkNode t) \<Rightarrow>
          (case links of
             0 \<Rightarrow> Err (OtherIo ''Too many levels of symbolic links (os error 40)'')
           | Suc links \<Rightarrow> resolve_path fs create links cur (kernel_components t @ cs))
      | Some _ \<Rightarrow> if cs = [] then Ok (cur @ [s]) else Err (OtherIo ''Not a directory (os error 20)''))"
  by pat_completeness auto
termination
  by (relation "measures [\<lambda>(fs, create, links, cur, cs). links, \<lambda>(fs, create, links, cur, cs). length cs]") auto

text \<open>The directory of the last name, and that name; a path that ends in \<open>.\<close> or \<open>..\<close> has none.\<close>

definition resolve_parent :: "filesys \<Rightarrow> str list \<Rightarrow> component list \<Rightarrow> io_error + str list" where
  "resolve_parent fs base cs =
     (case resolve_path fs False MAX_LINKS base (butlast cs) of
        Err e \<Rightarrow> Err e
      | Ok dir \<Rightarrow> if is_dir fs dir then Ok dir else Err (OtherIo ''Not a directory (os error 20)''))"

fun last_name :: "component list \<Rightarrow> str option" where
  "last_name cs = (if cs = [] then None else case last cs of Normal s \<Rightarrow> Some s | _ \<Rightarrow> None)"

text \<open>\<open>Path::canonicalize\<close> from the working directory \<open>cwd\<close>, and the string of a location.\<close>

definition canonicalize :: "filesys \<Rightarrow> str list \<Rightarrow> str \<Rightarrow> io_error + str list" where
  "canonicalize fs cwd p =
     (if p = [] then Err NotFound else resolve_path fs False MAX_LINKS cwd (kernel_components p))"

definition path_of :: "str list \<Rightarrow> str" where
  "path_of loc = ''/'' @ join ''/'' loc"

section \<open>Calls\<close>

text \<open>\<open>fs::symlink_metadata\<close>: a link at the end is not followed.\<close>

definition symlink_metadata :: "filesys \<Rightarrow> str list \<Rightarrow> component list \<Rightarrow> io_error + fs_node" where
  "symlink_metadata fs base cs =
     (case last_name cs of
        Some s \<Rightarrow>
          (case resolve_parent fs base cs of
             Err e \<Rightarrow> Err e
           | Ok dir \<Rightarrow> (case fs (dir @ [s]) of None \<Rightarrow> Err NotFound | Some n \<Rightarrow> Ok n))
      | None \<Rightarrow>
          (case resolve_path fs False MAX_LINKS base cs of
             Err e \<Rightarrow> Err e
           | Ok loc \<Rightarrow> if is_dir fs loc then Ok DirNode else Err (OtherIo ''Not a directory (os error 20)'')))"

text \<open>\<open>fs::create_dir\<close>.\<close>

definition create_dir :: "filesys \<Rightarrow> str list \<Rightarrow> component list \<Rightarrow> (io_error + unit) \<times> filesys" where
  "create_dir fs base cs =
     (case (last_name cs, resolve_parent fs base cs) of
        (Some s, Ok dir) \<Rightarrow>
          if fs (dir @ [s]) = None then (Ok (), fs(dir @ [s] \<mapsto> DirNode)) else (Err AlreadyExists, fs)
      | (None, Ok _) \<Rightarrow> (Err AlreadyExists, fs)
      | (_, Err e) \<Rightarrow> (Err e, fs))"

text \<open>\<open>fs::read\<close> and \<open>fs::write\<close>, which follow a link at the end.\<close>

definition read_path :: "filesys \<Rightarrow> str list \<Rightarrow> component list \<Rightarrow> io_error + str" where
  "read_path fs base cs =
     (case resolve_path fs False MAX_LINKS base cs of
        Err e \<Rightarrow> Err e
      | Ok loc \<Rightarrow>
          (case fs loc of
             Some (FileNode b) \<Rightarrow> Ok b
           | Some OtherNode \<Rightarrow> Ok []
           | _ \<Rightarrow> Err (OtherIo ''Is a directory (os error 21)'')))"

definition write_path :: "filesys \<Rightarrow> str list \<Rightarrow> component list \<Rightarrow> str \<Rightarrow> (io_error + unit) \<times> filesys" where
  "write_path fs base cs bytes =
     (case resolve_path fs True MAX_LINKS base cs of
        Err e \<Rightarrow> (Err e, fs)
      | Ok loc \<Rightarrow>
          if is_dir fs loc then (Err (OtherIo ''Is a directory (os error 21)''), fs)
          else if fs loc = Some OtherNode then (Ok (), fs)
          else (Ok (), fs(loc \<mapsto> FileNode bytes)))"

text \<open>Opening with \<open>create_new\<close> and writing, and \<open>fs::rename\<close> and \<open>fs::remove_file\<close> of a file.\<close>

definition create_new :: "filesys \<Rightarrow> str list \<Rightarrow> component list \<Rightarrow> str \<Rightarrow> (io_error + unit) \<times> filesys" where
  "create_new fs base cs bytes =
     (case (last_name cs, resolve_parent fs base cs) of
        (Some s, Ok dir) \<Rightarrow>
          if fs (dir @ [s]) = None then (Ok (), fs(dir @ [s] \<mapsto> FileNode bytes)) else (Err AlreadyExists, fs)
      | (None, Ok _) \<Rightarrow> (Err (OtherIo ''Is a directory (os error 21)''), fs)
      | (_, Err e) \<Rightarrow> (Err e, fs))"

definition rename_path :: "filesys \<Rightarrow> str list \<Rightarrow> component list \<Rightarrow> component list \<Rightarrow> (io_error + unit) \<times> filesys" where
  "rename_path fs base src dst =
     (case (last_name src, resolve_parent fs base src, last_name dst, resolve_parent fs base dst) of
        (Some s, Ok sdir, Some t, Ok tdir) \<Rightarrow>
          (case fs (sdir @ [s]) of
             Some (FileNode b) \<Rightarrow>
               if fs (tdir @ [t]) = Some DirNode then (Err (OtherIo ''Is a directory (os error 21)''), fs)
               else (Ok (), fs(sdir @ [s] := None, tdir @ [t] \<mapsto> FileNode b))
           | _ \<Rightarrow> (Err NotFound, fs))
      | _ \<Rightarrow> (Err NotFound, fs))"

definition remove_file :: "filesys \<Rightarrow> str list \<Rightarrow> component list \<Rightarrow> filesys" where
  "remove_file fs base cs =
     (case (last_name cs, resolve_parent fs base cs) of
        (Some s, Ok dir) \<Rightarrow> (case fs (dir @ [s]) of Some DirNode \<Rightarrow> fs | _ \<Rightarrow> fs(dir @ [s] := None))
      | _ \<Rightarrow> fs)"

section \<open>Paths of plain directories\<close>

text \<open>Every entry stands in a directory.\<close>

definition rooted :: "filesys \<Rightarrow> bool" where
  "rooted fs \<longleftrightarrow> (\<forall>loc s. fs (loc @ [s]) \<noteq> None \<longrightarrow> is_dir fs loc)"

text \<open>Every name on the way is a directory: no link is met.\<close>

definition plain_dirs :: "filesys \<Rightarrow> str list \<Rightarrow> str list \<Rightarrow> bool" where
  "plain_dirs fs base ns \<longleftrightarrow> (\<forall>k < length ns. fs (base @ take (Suc k) ns) = Some DirNode)"

lemma plain_dirs_Nil [simp]: "plain_dirs fs base []"
  by (simp add: plain_dirs_def)

lemma plain_dirs_snoc [simp]:
  "plain_dirs fs base (ns @ [s]) \<longleftrightarrow> plain_dirs fs base ns \<and> fs (base @ ns @ [s]) = Some DirNode"
  by (auto simp: plain_dirs_def less_Suc_eq)

lemma plain_dirs_Cons:
  "plain_dirs fs base (s # ns) \<longleftrightarrow> fs (base @ [s]) = Some DirNode \<and> plain_dirs fs (base @ [s]) ns"
  by (fastforce simp: plain_dirs_def less_Suc_eq_0_disj)

text \<open>Components that only step down or stay.\<close>

definition descending :: "component list \<Rightarrow> bool" where
  "descending cs \<longleftrightarrow> list_all (\<lambda>c. c = CurDir \<or> (\<exists>s. c = Normal s)) cs"

lemma resolve_plain:
  "descending cs \<Longrightarrow> plain_dirs fs base (normals cs) \<Longrightarrow> resolve_path fs create links base cs = Ok (base @ normals cs)"
proof (induction cs arbitrary: base)
  case (Cons c cs)
  then show ?case by (cases c) (auto simp: descending_def plain_dirs_Cons)
qed simp

lemma resolve_plain_append:
  "descending cs \<Longrightarrow> plain_dirs fs base (normals cs)
    \<Longrightarrow> resolve_path fs create links base (cs @ ds) = resolve_path fs create links (base @ normals cs) ds"
proof (induction cs arbitrary: base)
  case (Cons c cs)
  then show ?case by (cases c) (auto simp: descending_def plain_dirs_Cons)
qed simp

lemma plain_dirs_is_dir: "plain_dirs fs base ns \<Longrightarrow> is_dir fs base \<Longrightarrow> is_dir fs (base @ ns)"
  by (cases ns rule: rev_cases) (auto simp: is_dir_def)

section \<open>The path of a location\<close>

lemma descending_Normal [simp]: "descending (map Normal ns)"
  by (auto simp: descending_def list_all_iff)

lemma split_path_of:
  assumes "list_all plain_name ns"
  shows "filter (\<lambda>s. s \<noteq> []) (split_on (CHR ''/'') (path_of ns)) = ns"
proof (cases "ns = []")
  case True
  then show ?thesis by (simp add: path_of_def)
next
  case False
  have "split_on (CHR ''/'') (path_of ns) = [] # ns"
    using assms False by (simp add: path_of_def) (intro split_on_join; auto simp: list_all_iff plain_name_def)
  moreover have "filter (\<lambda>s. s \<noteq> []) ns = ns" using assms by (auto simp: list_all_iff plain_name_def filter_id_conv)
  ultimately show ?thesis by simp
qed

lemma last_join_plain:
  assumes "list_all plain_name ns" "ns \<noteq> []"
  shows "join ''/'' ns \<noteq> [] \<and> last (join ''/'' ns) \<noteq> CHR ''/''"
proof -
  obtain ms m where ns: "ns = ms @ [m]" using assms(2) by (cases ns rule: rev_cases) auto
  obtain pre where j: "join ''/'' ns = pre @ m" using join_snoc ns by blast
  have "m \<noteq> []" "CHR ''/'' \<notin> set m" using assms(1) ns by (auto simp: plain_name_def)
  then show ?thesis using j by (metis append_is_Nil_conv last_appendR last_in_set)
qed

lemma kernel_path_of:
  assumes "list_all plain_name ns"
  shows "kernel_components (path_of ns) = RootDir # map Normal ns @ (if ns = [] then [CurDir] else [])"
proof -
  have "map kernel_component ns = map Normal ns"
    using assms by (auto simp: list_all_iff kernel_component_def plain_name_def)
  moreover have "last (path_of ns) = CHR ''/'' \<longleftrightarrow> ns = []"
    using last_join_plain [OF assms] by (auto simp: path_of_def)
  ultimately show ?thesis
    using split_path_of [OF assms] by (simp add: kernel_components_def is_absolute_def) (simp add: path_of_def)
qed

lemma canonicalize_path_of:
  assumes "list_all plain_name ns" "plain_dirs fs [] ns"
  shows "canonicalize fs cwd (path_of ns) = Ok ns"
proof -
  have "resolve_path fs False MAX_LINKS [] (map Normal ns @ ds) = resolve_path fs False MAX_LINKS ns ds" for ds
    using resolve_plain_append [of "map Normal ns" fs "[]" False MAX_LINKS ds] assms(2) by simp
  then show ?thesis using kernel_path_of [OF assms(1)] by (simp add: canonicalize_def path_of_def)
qed

lemma path_join_path_of:
  assumes "list_all plain_name ns" "plain_name s"
  shows "path_join (path_of ns) s = path_of (ns @ [s])"
proof -
  have "\<not> is_absolute s" using assms(2) by (cases s) (auto simp: plain_name_def is_absolute_def)
  then show ?thesis
    using last_join_plain [OF assms(1)] by (cases "ns = []") (auto simp: path_join_def path_of_def join_append)
qed

end
