(* ===== verification/SandboxRun.thy ===== *)
theory SandboxRun
  imports SandboxPlan Redact Filesys
begin

text \<open>
  \<open>jitgen-sandbox\<close>, execution: classification of a finished process (\<open>classify.rs\<close>), capture, watchdog
  and redaction of one run (\<open>run.rs\<close>), the probes of a backend (\<open>detect.rs\<close>) and the capstone
  (\<open>sandbox.rs\<close>). What the operating system reports about a spawned process (its streams, its polls
  and its end) is an argument.
\<close>

section \<open>Classification\<close>

record disposition =
  di_exit_code :: "int option"
  di_signal :: "int option"
  di_timed_out :: bool
  di_build_failed :: bool
  di_inner_never_started :: bool

definition classify_disposition :: "disposition \<Rightarrow> exec_outcome" where
  "classify_disposition d =
     (if di_timed_out d then Timeout
      else if di_inner_never_started d then Errored
      else if di_signal d \<noteq> None then Errored
      else if di_build_failed d then BuildError
      else case di_exit_code d of
          Some c \<Rightarrow> if c = 0 then Passed else if c = 126 \<or> c = 127 then Errored else Failed
        | None \<Rightarrow> Errored)"

section \<open>Lossy decoding\<close>

text \<open>\<open>String::from_utf8_lossy\<close>: how many bytes the next character takes, or how many bytes of a broken
  one are replaced by U+FFFD.\<close>

definition second_ok :: "char \<Rightarrow> char \<Rightarrow> bool" where
  "second_ok b c \<longleftrightarrow> is_cont c
     \<and> (code b = 224 \<longrightarrow> 160 \<le> code c) \<and> (code b = 237 \<longrightarrow> code c < 160)
     \<and> (code b = 240 \<longrightarrow> 144 \<le> code c) \<and> (code b = 244 \<longrightarrow> code c < 144)"

definition lossy_step :: "char \<Rightarrow> str \<Rightarrow> nat \<times> bool" where
  "lossy_step b s =
     (if code b < 128 then (1, True)
      else if 194 \<le> code b \<and> code b < 224 then
        (if 1 \<le> length s \<and> is_cont (s ! 0) then (2, True) else (1, False))
      else if 224 \<le> code b \<and> code b < 240 then
        (if \<not> (1 \<le> length s \<and> second_ok b (s ! 0)) then (1, False)
         else if 2 \<le> length s \<and> is_cont (s ! 1) then (3, True) else (2, False))
      else if 240 \<le> code b \<and> code b < 245 then
        (if \<not> (1 \<le> length s \<and> second_ok b (s ! 0)) then (1, False)
         else if \<not> (2 \<le> length s \<and> is_cont (s ! 1)) then (2, False)
         else if 3 \<le> length s \<and> is_cont (s ! 2) then (4, True) else (3, False))
      else (1, False))"

definition REPLACEMENT :: str where "REPLACEMENT = [CHR 0xEF, CHR 0xBF, CHR 0xBD]"

function from_utf8_lossy :: "str \<Rightarrow> str" where
  "from_utf8_lossy [] = []"
| "from_utf8_lossy (b # s) =
     (case lossy_step b s of (n, valid) \<Rightarrow>
        (if valid then take n (b # s) else REPLACEMENT) @ from_utf8_lossy (drop (n - 1) s))"
  by pat_completeness auto
termination by (relation "measure length") auto

section \<open>Captured streams\<close>

text \<open>What the reader thread of a stream saw by the time it was collected, and whether it had finished.\<close>

datatype read_event = Chunk str | ReadError

fun capture :: "nat \<Rightarrow> read_event list \<Rightarrow> str \<times> bool \<Rightarrow> str \<times> bool" where
  "capture limit [] (buf, truncated) = (buf, truncated)"
| "capture limit (ReadError # _) (buf, truncated) = (buf, True)"
| "capture limit (Chunk c # events) (buf, truncated) =
     (if c = [] then (buf, truncated)
      else if length buf < limit
      then (let taken = min (limit - length buf) (length c) in
            capture limit events (buf @ take taken c, truncated \<or> taken < length c))
      else capture limit events (buf, True))"

definition collect :: "nat \<Rightarrow> read_event list \<times> bool \<Rightarrow> str \<times> bool" where
  "collect limit stream =
     (case capture limit (fst stream) ([], False) of (buf, truncated) \<Rightarrow>
        (buf, truncated \<or> \<not> snd stream))"

definition REDACT_WINDOW :: nat where "REDACT_WINDOW = 256 * 1024"
definition REDACT_TAIL_GUARD :: nat where "REDACT_TAIL_GUARD = 8 * 1024"
definition STDERR_MARKER_SCAN_FLOOR :: nat where "STDERR_MARKER_SCAN_FLOOR = 4096"

definition redact_capped :: "regex_engine \<Rightarrow> str \<Rightarrow> bool \<Rightarrow> str" where
  "redact_capped rx bytes truncated =
     (let slice = (if truncated then take (length bytes - REDACT_TAIL_GUARD) bytes else bytes)
      in rd_text (redact rx (from_utf8_lossy slice)))"

text \<open>The first line that is exactly the marker is cut out with its line feed; every other byte stays.
  The first argument is what the scan has seen.\<close>

function strip_marker_from :: "str \<Rightarrow> str \<Rightarrow> str \<Rightarrow> str \<times> bool" where
  "strip_marker_from seen s marker =
     (let line = takeWhile (\<lambda>b. b \<noteq> LF) s; rest = dropWhile (\<lambda>b. b \<noteq> LF) s in
      if line = marker then (seen @ drop 1 rest, True)
      else case rest of
          [] \<Rightarrow> (seen @ s, False)
        | nl # s' \<Rightarrow> strip_marker_from (seen @ line @ [nl]) s' marker)"
  by pat_completeness auto
termination
proof (relation "measure (\<lambda>(p, s, m). length s)", simp)
  fix s :: str and line rest nl s' seen marker
  assume "rest = dropWhile (\<lambda>b. b \<noteq> LF) s" "rest = nl # s'"
  then show "((seen @ line @ [nl], s', marker), (seen, s, marker)) \<in> measure (\<lambda>(p, s, m). length s)"
    using length_dropWhile_le [of "\<lambda>b. b \<noteq> LF" s] by (metis (mono_tags, lifting) case_prod_conv in_measure length_Cons less_eq_Suc_le)
qed

declare strip_marker_from.simps [simp del]

definition strip_marker_line :: "str \<Rightarrow> str \<Rightarrow> str \<times> bool" where
  "strip_marker_line err marker = strip_marker_from [] err marker"

definition detect_build_failure :: "build_signal \<Rightarrow> int option \<Rightarrow> str \<Rightarrow> str \<Rightarrow> bool" where
  "detect_build_failure signal exit_code out err =
     (case exit_code of
        None \<Rightarrow> False
      | Some c \<Rightarrow>
          if c = 0 then False
          else if c \<in> set (bs_exit_codes signal) then True
          else if bs_markers signal = [] then False
          else list_ex (\<lambda>m. contains (from_utf8_lossy out) m \<or> contains (from_utf8_lossy err) m)
                 (bs_markers signal))"

section \<open>The watchdog\<close>

datatype exit_status = Exited int | Signaled int

fun status_code :: "exit_status \<Rightarrow> int option" where
  "status_code (Exited c) = Some c"
| "status_code (Signaled _) = None"

fun exit_signal :: "exit_status \<Rightarrow> int option" where
  "exit_signal (Exited _) = None"
| "exit_signal (Signaled n) = Some n"

datatype poll_result = PollError str | Running | Ended exit_status

text \<open>A child: what its streams delivered, what the \<open>n\<close>-th poll says, the first poll after which the
  deadline has passed, and what the wait after the kill returns.\<close>

record child =
  ch_stdout :: "read_event list \<times> bool"
  ch_stderr :: "read_event list \<times> bool"
  ch_poll :: "nat \<Rightarrow> poll_result"
  ch_deadline :: nat
  ch_final :: "str + exit_status"
  ch_elapsed_ms :: nat

datatype teardown = KillChild | Cleanup "str list" | SweepGroup

definition run_cleanup :: "(str \<Rightarrow> bool) \<Rightarrow> str list \<Rightarrow> teardown list" where
  "run_cleanup executable argv =
     (case argv of
        [] \<Rightarrow> []
      | prog # rest \<Rightarrow>
          (case resolve_trusted_bin executable prog of None \<Rightarrow> [] | Some found \<Rightarrow> [Cleanup (found # rest)]))"

fun wait_polls ::
  "child \<Rightarrow> nat \<Rightarrow> nat \<Rightarrow> teardown list \<Rightarrow> (sandbox_error + exit_status \<times> bool) \<times> teardown list" where
  "wait_polls ch k 0 on_timeout =
     (case ch_poll ch k of
        PollError e \<Rightarrow> (Err (SandboxIo e), [])
      | Ended s \<Rightarrow> (Ok (s, False), [])
      | Running \<Rightarrow>
          (case ch_final ch of
             Err e \<Rightarrow> (Err (SandboxIo e), on_timeout)
           | Ok s \<Rightarrow> (Ok (s, True), on_timeout)))"
| "wait_polls ch k (Suc n) on_timeout =
     (case ch_poll ch k of
        PollError e \<Rightarrow> (Err (SandboxIo e), [])
      | Ended s \<Rightarrow> (Ok (s, False), [])
      | Running \<Rightarrow> wait_polls ch (Suc k) n on_timeout)"

definition wait_with_timeout ::
  "(str \<Rightarrow> bool) \<Rightarrow> child \<Rightarrow> sandbox_plan \<Rightarrow> (sandbox_error + exit_status \<times> bool) \<times> teardown list" where
  "wait_with_timeout executable ch plan =
     wait_polls ch 0 (ch_deadline ch)
       (KillChild # (case pn_cleanup plan of Some argv \<Rightarrow> run_cleanup executable argv | None \<Rightarrow> []))"

section \<open>One run\<close>

definition output_cap :: "exec_policy \<Rightarrow> nat" where
  "output_cap policy = min REDACT_WINDOW (ep_output_cap_bytes policy)"

definition err_capture_cap :: "sandbox_plan \<Rightarrow> nat \<Rightarrow> nat" where
  "err_capture_cap plan limit =
     (let floored = (if has_silent_degradation_mode (pn_backend plan) \<or> pn_expects_start_sentinel plan
                     then max limit STDERR_MARKER_SCAN_FLOOR else limit)
      in if pn_expects_start_sentinel plan then floored + (length START_SENTINEL + 1) else floored)"

definition finish_run ::
  "regex_engine \<Rightarrow> sandbox_plan \<Rightarrow> nat \<Rightarrow> nat \<Rightarrow> exit_status \<times> bool \<Rightarrow> str \<times> bool \<Rightarrow> str \<times> bool
   \<Rightarrow> execution_result \<times> bool" where
  "finish_run rx plan limit elapsed ended out err =
     (let (status, timed_out) = ended;
          (stdout_raw, out_trunc) = out;
          (stderr_raw, err_trunc) = err;
          (stderr_clean, never_started) =
            (if pn_expects_start_sentinel plan
             then (case strip_marker_line stderr_raw START_SENTINEL of (cleaned, found) \<Rightarrow> (cleaned, \<not> found))
             else (stderr_raw, False));
          (stderr_capped, stderr_trunc) =
            (if length stderr_clean > limit then (take limit stderr_clean, True) else (stderr_clean, err_trunc));
          disp = \<lparr>di_exit_code = status_code status, di_signal = exit_signal status,
            di_timed_out = timed_out,
            di_build_failed = detect_build_failure (pn_build_signal plan) (status_code status) stdout_raw stderr_capped,
            di_inner_never_started = never_started\<rparr>
      in (\<lparr>er_outcome = classify_disposition disp, er_exit_code = status_code status,
           er_duration_ms = elapsed, er_truncated = (out_trunc \<or> stderr_trunc),
           er_stdout = redact_capped rx stdout_raw out_trunc,
           er_stderr = redact_capped rx stderr_capped stderr_trunc\<rparr>, never_started))"

definition run_child ::
  "regex_engine \<Rightarrow> (str \<Rightarrow> bool) \<Rightarrow> sandbox_plan \<Rightarrow> exec_policy \<Rightarrow> child
   \<Rightarrow> (sandbox_error + execution_result \<times> bool) \<times> teardown list" where
  "run_child rx executable plan policy ch =
     (let limit = output_cap policy;
          (waited, downs) = wait_with_timeout executable ch plan;
          downs = downs @ (case waited of Err _ \<Rightarrow> [KillChild] | Ok _ \<Rightarrow> [])
                    @ (if pn_new_process_group plan then [SweepGroup] else []);
          out = collect limit (ch_stdout ch);
          err = collect (err_capture_cap plan limit) (ch_stderr ch)
      in if stderr_shows_silent_degradation (pn_backend plan) (from_utf8_lossy (fst err))
         then (Err (SandboxDegraded (backend_id (pn_backend plan))), downs)
         else case waited of
             Err e \<Rightarrow> (Err e, downs)
           | Ok ended \<Rightarrow> (Ok (finish_run rx plan limit (ch_elapsed_ms ch) ended out err), downs))"

text \<open>Spawning: the program that was resolved and the plan give a child, or an error of the operating
  system; running it may change the file system.\<close>

type_synonym os_spawn = "str \<Rightarrow> sandbox_plan \<Rightarrow> filesys \<Rightarrow> (str + child) \<times> filesys"

definition run_reporting ::
  "regex_engine \<Rightarrow> (str \<Rightarrow> bool) \<Rightarrow> os_spawn \<Rightarrow> sandbox_plan \<Rightarrow> exec_policy \<Rightarrow> filesys
   \<Rightarrow> (sandbox_error + execution_result \<times> bool) \<times> teardown list \<times> filesys" where
  "run_reporting rx executable spawn plan policy fs =
     (case resolve_trusted_bin executable (pn_program plan) of
        None \<Rightarrow> (Err (UntrustedLauncher (pn_program plan)), [], fs)
      | Some program \<Rightarrow>
          (case spawn program plan fs of
             (Err e, fs) \<Rightarrow> (Err (SpawnFailed (pn_program plan) e), [], fs)
           | (Ok ch, fs) \<Rightarrow>
               (case run_child rx executable plan policy ch of (r, downs) \<Rightarrow> (r, downs, fs))))"

section \<open>Probes\<close>

definition SENTINEL_NET_OK :: str where "SENTINEL_NET_OK = ''NET_OK''"
definition SENTINEL_NET_DENIED :: str where "SENTINEL_NET_DENIED = ''NET_DENIED''"
definition SENTINEL_NO_PROBE_TOOL :: str where "SENTINEL_NO_PROBE_TOOL = ''NO_PROBE_TOOL''"
definition PROBE_STREAM_CAP :: nat where "PROBE_STREAM_CAP = 16 * 1024"

record probe_outcome =
  po_success :: bool
  po_stdout :: str
  po_stderr :: str

datatype net_verdict = NetDenied | NetOpen | NetInconclusive

record behavioral_probe =
  bp_outcome :: probe_outcome
  bp_control :: net_verdict
  bp_isolated :: net_verdict

definition loopback_probe_body :: "nat \<Rightarrow> str" where
  "loopback_probe_body port =
     ''if command -v nc >/dev/null 2>&1; then nc -z -w 1 127.0.0.1 '' @ show_nat port
     @ '' >/dev/null 2>&1 && echo '' @ SENTINEL_NET_OK @ '' || echo '' @ SENTINEL_NET_DENIED
     @ ''; elif command -v bash >/dev/null 2>&1; then bash -c '' @ [CHR 0x27]
     @ ''exec 3<>/dev/tcp/127.0.0.1/'' @ show_nat port @ [CHR 0x27]
     @ '' >/dev/null 2>&1 && echo '' @ SENTINEL_NET_OK @ '' || echo '' @ SENTINEL_NET_DENIED
     @ ''; else echo '' @ SENTINEL_NO_PROBE_TOOL @ ''; fi''"

definition net_probe_script :: "nat \<Rightarrow> str" where
  "net_probe_script port =
     ''PATH=/usr/bin:/bin:/usr/sbin:/sbin; export PATH; '' @ loopback_probe_body port"

definition net_probe_verdict :: "str \<Rightarrow> net_verdict" where
  "net_probe_verdict out =
     (if contains out SENTINEL_NET_OK then NetOpen
      else if contains out SENTINEL_NET_DENIED then NetDenied
      else NetInconclusive)"

text \<open>\<open>probe\<close>: a process that could not be spawned, failed or ran out of time has not succeeded.\<close>

definition probe_outcome_of :: "child option \<Rightarrow> probe_outcome" where
  "probe_outcome_of spawned_child =
     (case spawned_child of
        None \<Rightarrow> \<lparr>po_success = False, po_stdout = [], po_stderr = []\<rparr>
      | Some ch \<Rightarrow>
          \<lparr>po_success = (case fst (wait_polls ch 0 (ch_deadline ch) []) of
               Ok (status, timed_out) \<Rightarrow> \<not> timed_out \<and> status = Exited 0
             | Err _ \<Rightarrow> False),
           po_stdout = from_utf8_lossy (fst (collect PROBE_STREAM_CAP (ch_stdout ch))),
           po_stderr = from_utf8_lossy (fst (collect PROBE_STREAM_CAP (ch_stderr ch)))\<rparr>)"

text \<open>The host at one time: which files can be executed, what a probe (program, arguments, inherited
  environment) does, and the port of a loopback listener that was bound and reached.\<close>

record host_probes =
  ho_os :: host_os
  ho_executable :: "str \<Rightarrow> bool"
  ho_probe :: "str \<Rightarrow> str list \<Rightarrow> bool \<Rightarrow> child option"
  ho_listener :: "nat option"

definition probe_backend :: "host_probes \<Rightarrow> backend \<Rightarrow> probe_outcome option" where
  "probe_backend h b =
     (case availability_probe b of
        None \<Rightarrow> None
      | Some (program, args) \<Rightarrow>
          (case resolve_trusted_bin (ho_executable h) program of
             None \<Rightarrow> None
           | Some p \<Rightarrow> Some (probe_outcome_of (ho_probe h p args (tier_of b = TierContainer)))))"

definition probe_is_available :: "backend \<Rightarrow> probe_outcome \<Rightarrow> bool" where
  "probe_is_available b o' \<longleftrightarrow> po_success o' \<and> \<not> stderr_shows_silent_degradation b (po_stderr o')"

definition probe_behavioral :: "host_probes \<Rightarrow> backend \<Rightarrow> behavioral_probe option" where
  "probe_behavioral h b =
     (case ho_listener h of
        None \<Rightarrow> None
      | Some port \<Rightarrow>
          (let script = net_probe_script port in
           case behavioral_net_probe b script of
             None \<Rightarrow> None
           | Some (program, args) \<Rightarrow>
               (case resolve_trusted_bin (ho_executable h) program of
                  None \<Rightarrow> None
                | Some p \<Rightarrow>
                    (let control = probe_outcome_of (ho_probe h ''/bin/sh'' [''-c'', script] False);
                         outcome = probe_outcome_of (ho_probe h p args False)
                     in Some \<lparr>bp_outcome = outcome, bp_control = net_probe_verdict (po_stdout control),
                          bp_isolated = net_probe_verdict (po_stdout outcome)\<rparr>))))"

definition behavioral_probe_confirms_isolation :: "backend \<Rightarrow> behavioral_probe \<Rightarrow> bool" where
  "behavioral_probe_confirms_isolation b p \<longleftrightarrow>
     bp_control p = NetOpen \<and> probe_is_available b (bp_outcome p) \<and> bp_isolated p = NetDenied"

definition behavioral_probe_shows_degradation :: "backend \<Rightarrow> behavioral_probe \<Rightarrow> bool" where
  "behavioral_probe_shows_degradation b p \<longleftrightarrow>
     stderr_shows_silent_degradation b (po_stderr (bp_outcome p)) \<or> bp_isolated p = NetOpen"

definition backend_available :: "host_probes \<Rightarrow> backend \<Rightarrow> bool" where
  "backend_available h b =
     (if has_silent_degradation_mode b
      then (case probe_behavioral h b of Some p \<Rightarrow> behavioral_probe_confirms_isolation b p | None \<Rightarrow> False)
      else (case probe_backend h b of Some o' \<Rightarrow> probe_is_available b o' | None \<Rightarrow> False))"

definition detect :: "host_probes \<Rightarrow> backend list" where
  "detect h = filter (backend_available h) (os_candidates (ho_os h))"

definition netns_helper_available :: "host_probes \<Rightarrow> bool" where
  "netns_helper_available h \<longleftrightarrow> ho_os h = LinuxOs \<and> backend_available h BkNetnsHelper"

definition backend_silently_degrades :: "host_probes \<Rightarrow> backend \<Rightarrow> bool" where
  "backend_silently_degrades h b \<longleftrightarrow>
     has_silent_degradation_mode b
     \<and> (case probe_behavioral h b of Some p \<Rightarrow> behavioral_probe_shows_degradation b p | None \<Rightarrow> False)"

section \<open>The sandbox\<close>

record sandbox =
  sb_backend :: backend
  sb_policy :: exec_policy
  sb_warnings :: "str list"

definition sandbox_new :: "(str \<Rightarrow> str) \<Rightarrow> backend list \<Rightarrow> exec_policy \<Rightarrow> sandbox_error + sandbox" where
  "sandbox_new esc available policy =
     (case select_backend available policy of
        Err e \<Rightarrow> Err e
      | Ok b \<Rightarrow> Ok \<lparr>sb_backend = b, sb_policy = policy, sb_warnings = extra_refusal_warnings esc policy\<rparr>)"

definition detect_and_select :: "(str \<Rightarrow> str) \<Rightarrow> host_probes \<Rightarrow> exec_policy \<Rightarrow> sandbox_error + sandbox" where
  "detect_and_select esc h policy =
     (let available = detect h
                      @ (if (ep_allow_unsafe_local policy \<or> ep_backend policy = NetnsHelper)
                            \<and> netns_helper_available h
                         then [BkNetnsHelper] else [])
      in sandbox_new esc available policy)"

record run_request =
  rr_command :: spawn_request
  rr_overlay_root :: str
  rr_state_root :: str
  rr_instance :: str
  rr_run_as :: "str option"

definition create_fresh_dir :: "str list \<Rightarrow> str \<Rightarrow> filesys \<Rightarrow> (sandbox_error + unit) \<times> filesys" where
  "create_fresh_dir dir name fs =
     (case symlink_metadata fs dir [Normal name] of
        Ok _ \<Rightarrow> (Err (UnsafeSyntheticDir (path_join (path_of dir) name)), fs)
      | Err e \<Rightarrow>
          if e = NotFound
          then (case create_dir fs dir [Normal name] of
                  (Err e, fs) \<Rightarrow> (Err (SandboxIo (show_io e)), fs)
                | (Ok _, fs) \<Rightarrow> (Ok (), fs))
          else (Err (SandboxIo (show_io e)), fs))"

definition is_persistent_wrapper_failure :: "backend \<Rightarrow> bool \<Rightarrow> (backend \<Rightarrow> bool) \<Rightarrow> bool" where
  "is_persistent_wrapper_failure b inner_never_started available_now \<longleftrightarrow>
     inner_never_started \<and> reprobes_on_inner_never_started b \<and> \<not> available_now b"

text \<open>What a run depends on: the escape of \<open>{:?}\<close>, the redaction engine, the process environment and
  working directory, the host before and after the run, and the operating system: what it starts, and which entries
  of a directory it refuses to remove.\<close>

record run_env =
  re_esc :: "str \<Rightarrow> str"
  re_rx :: regex_engine
  re_parent :: "str \<rightharpoonup> str"
  re_cwd :: "str list"
  re_before :: host_probes
  re_after :: host_probes
  re_spawn :: os_spawn
  re_stuck :: "filesys \<Rightarrow> str list \<Rightarrow> str list list"

definition run_planned ::
  "run_env \<Rightarrow> sandbox \<Rightarrow> run_request \<Rightarrow> str list \<Rightarrow> str list \<Rightarrow> filesys
   \<Rightarrow> (sandbox_error + execution_result) \<times> filesys" where
  "run_planned env sb req overlay_loc state_loc fs =
     (let overlay_root = path_of overlay_loc;
          home = path_join overlay_root ''.jitgen-home'';
          tmp = path_join overlay_root ''.jitgen-tmp'';
          vars = fst (build_env (re_esc env) (re_parent env) (sb_policy sb) home tmp overlay_root
                        (path_of state_loc))
      in case build_plan \<lparr>pi_backend = sb_backend sb, pi_req = rr_command req,
             pi_overlay_root = overlay_root, pi_synthetic_tmp = tmp, pi_env = vars,
             pi_policy = sb_policy sb, pi_instance = rr_instance req, pi_run_as = rr_run_as req\<rparr> of
           Err e \<Rightarrow> (Err e, fs)
         | Ok plan \<Rightarrow>
             (case run_reporting (re_rx env) (ho_executable (re_before env)) (re_spawn env) plan
                     (sb_policy sb) fs of
                (Err e, _, fs) \<Rightarrow> (Err e, fs)
              | (Ok (r, inner_never_started), _, fs) \<Rightarrow>
                  if is_persistent_wrapper_failure (sb_backend sb) inner_never_started
                       (backend_available (re_after env))
                  then (Err (BackendUnavailableMidRun (backend_id (sb_backend sb))), fs)
                  else (Ok r, fs)))"

definition sandbox_run ::
  "run_env \<Rightarrow> sandbox \<Rightarrow> run_request \<Rightarrow> filesys \<Rightarrow> (sandbox_error + execution_result) \<times> filesys" where
  "sandbox_run env sb req fs =
     (if has_silent_degradation_mode (sb_backend sb)
         \<and> backend_silently_degrades (re_before env) (sb_backend sb)
      then (Err (SandboxDegraded (backend_id (sb_backend sb))), fs)
      else case canonicalize fs (re_cwd env) (rr_overlay_root req) of
          Err e \<Rightarrow> (Err (SandboxIo (show_io e)), fs)
        | Ok overlay_loc \<Rightarrow>
            (case canonicalize fs (re_cwd env) (rr_state_root req) of
               Err e \<Rightarrow> (Err (SandboxIo (show_io e)), fs)
             | Ok state_loc \<Rightarrow>
                 (case create_fresh_dir overlay_loc ''.jitgen-home'' fs of
                    (Err e, fs) \<Rightarrow> (Err e, fs)
                  | (Ok _, fs) \<Rightarrow>
                      (case create_fresh_dir overlay_loc ''.jitgen-tmp'' fs of
                         (Err e, fs) \<Rightarrow> (Err e, fs)
                       | (Ok _, fs) \<Rightarrow> run_planned env sb req overlay_loc state_loc fs))))"

section \<open>What is captured\<close>

definition stream_bytes :: "read_event list \<Rightarrow> str" where
  "stream_bytes events = concat (map (\<lambda>e. case e of Chunk c \<Rightarrow> c | ReadError \<Rightarrow> []) events)"

text \<open>A stream that was read to its end.\<close>

definition whole_stream :: "read_event list \<times> bool \<Rightarrow> bool" where
  "whole_stream stream \<longleftrightarrow> snd stream \<and> list_all (\<lambda>e. case e of Chunk c \<Rightarrow> c \<noteq> [] | ReadError \<Rightarrow> False) (fst stream)"

lemma capture_chunks:
  assumes "list_all (\<lambda>e. case e of Chunk c \<Rightarrow> c \<noteq> [] | ReadError \<Rightarrow> False) events" "length buf \<le> limit"
  shows "capture limit events (buf, t)
    = (take limit (buf @ stream_bytes events), t \<or> limit < length (buf @ stream_bytes events))"
  using assms
proof (induction events arbitrary: buf t)
  case (Cons e events)
  then obtain c where e: "e = Chunk c" "c \<noteq> []" by (cases e) auto
  then show ?case
    using Cons by (cases "length buf < limit") (auto simp: stream_bytes_def Let_def min_def)
qed (simp add: stream_bytes_def)

lemma collect_whole:
  assumes "whole_stream stream"
  shows "collect limit stream = (take limit (stream_bytes (fst stream)), limit < length (stream_bytes (fst stream)))"
  using assms capture_chunks [of "fst stream" "[]" limit False] by (simp add: collect_def whole_stream_def)

lemma capture_bounded:
  "length buf \<le> limit \<Longrightarrow> length (fst (capture limit events (buf, t))) \<le> limit"
proof (induction events arbitrary: buf t)
  case (Cons e events)
  then show ?case by (cases e) (auto simp: Let_def)
qed simp

lemma collect_bounded: "length (fst (collect limit stream)) \<le> limit"
  using capture_bounded [of "[]" limit "fst stream" False]
  by (cases "capture limit (fst stream) ([], False)") (simp add: collect_def)

section \<open>The start sentinel\<close>

definition text_of_lines :: "str list \<Rightarrow> str" where
  "text_of_lines ls = concat (map (\<lambda>l. l @ [LF]) ls)"

lemma takeWhile_line [simp]:
  "LF \<notin> set l \<Longrightarrow> takeWhile (\<lambda>b. b \<noteq> LF) (l @ LF # s) = l"
  "LF \<notin> set l \<Longrightarrow> dropWhile (\<lambda>b. b \<noteq> LF) (l @ LF # s) = LF # s"
  by (induction l) auto

lemma strip_marker_found:
  assumes "\<forall>l \<in> set ls. LF \<notin> set l \<and> l \<noteq> m" "LF \<notin> set m"
  shows "strip_marker_from seen (text_of_lines ls @ m @ LF # post) m = (seen @ text_of_lines ls @ post, True)"
  using assms
proof (induction ls arbitrary: seen)
  case Nil
  then show ?case by (subst strip_marker_from.simps) (simp add: text_of_lines_def)
next
  case (Cons l ls)
  have "strip_marker_from seen (text_of_lines (l # ls) @ m @ LF # post) m
      = strip_marker_from (seen @ l @ [LF]) (text_of_lines ls @ m @ LF # post) m"
    using Cons.prems by (subst strip_marker_from.simps) (simp add: text_of_lines_def)
  also have "\<dots> = ((seen @ l @ [LF]) @ text_of_lines ls @ post, True)"
    using Cons.prems by (intro Cons.IH) auto
  finally show ?case by (simp add: text_of_lines_def)
qed

lemma split_on_LF_line:
  "split_on LF s = takeWhile (\<lambda>b. b \<noteq> LF) s #
     (case dropWhile (\<lambda>b. b \<noteq> LF) s of [] \<Rightarrow> [] | _ # t \<Rightarrow> split_on LF t)"
proof (cases "LF \<in> set s")
  case True
  then obtain l t where s: "s = l @ LF # t" "LF \<notin> set l" by (meson split_list_first)
  then show ?thesis by (simp add: split_on_app split_on_no_sep)
next
  case False
  then have "takeWhile (\<lambda>b. b \<noteq> LF) s = s" and d: "dropWhile (\<lambda>b. b \<noteq> LF) s = []"
    by (auto simp: takeWhile_eq_all_conv dropWhile_eq_Nil_conv)
  moreover have "split_on LF s = [s]" using False by (rule split_on_no_sep)
  ultimately show ?thesis by (simp only: d list.case)
qed

lemma strip_marker_iff: "snd (strip_marker_from seen s m) \<longleftrightarrow> m \<in> set (split_on LF s)"
proof (induction seen s m rule: strip_marker_from.induct)
  case (1 seen s m)
  show ?case
  proof (cases "takeWhile (\<lambda>b. b \<noteq> LF) s = m")
    case True
    then show ?thesis by (subst strip_marker_from.simps, subst split_on_LF_line) simp
  next
    case False
    show ?thesis
    proof (cases "dropWhile (\<lambda>b. b \<noteq> LF) s")
      case Nil
      then show ?thesis using False
        by (subst strip_marker_from.simps, subst split_on_LF_line) (simp add: Let_def del: dropWhile_eq_Nil_conv)
    next
      case (Cons nl t)
      then show ?thesis using False 1 [OF refl refl False Cons]
        by (subst strip_marker_from.simps, subst split_on_LF_line) (auto simp: Let_def)
    qed
  qed
qed

lemma strip_marker_line_iff: "snd (strip_marker_line s m) \<longleftrightarrow> m \<in> set (split_on LF s)"
  by (simp add: strip_marker_line_def strip_marker_iff)

section \<open>A wrapper that fails is never a verdict\<close>

lemma classify_never_started:
  "di_inner_never_started d \<Longrightarrow> classify_disposition d = Timeout \<or> classify_disposition d = Errored"
  by (simp add: classify_disposition_def)

lemma finish_run_never_started:
  assumes "finish_run rx plan limit elapsed ended out err = (r, True)"
  shows "er_outcome r = Timeout \<or> er_outcome r = Errored"
  using assms by (auto simp: finish_run_def classify_disposition_def Let_def split: prod.splits if_splits)

lemma finish_run_sentinel:
  assumes "pn_expects_start_sentinel plan"
  shows "snd (finish_run rx plan limit elapsed ended out err) \<longleftrightarrow> START_SENTINEL \<notin> set (split_on LF (fst err))"
  using assms strip_marker_line_iff [of "fst err" START_SENTINEL]
  by (cases err; cases "strip_marker_line (fst err) START_SENTINEL")
    (simp add: finish_run_def Let_def split: prod.splits)

lemma run_child_Ok:
  assumes "run_child rx executable plan policy ch = (Ok res, downs)"
  obtains ended down where "wait_with_timeout executable ch plan = (Ok ended, down)"
    "res = finish_run rx plan (output_cap policy) (ch_elapsed_ms ch) ended
       (collect (output_cap policy) (ch_stdout ch))
       (collect (err_capture_cap plan (output_cap policy)) (ch_stderr ch))"
    "downs = down @ (if pn_new_process_group plan then [SweepGroup] else [])"
proof -
  obtain waited down where w: "wait_with_timeout executable ch plan = (waited, down)" by fastforce
  then show ?thesis
    using assms that by (cases waited) (auto simp: run_child_def Let_def split: if_splits)
qed

lemma wrapper_failure_outcome:
  assumes "pn_expects_start_sentinel plan"
    "START_SENTINEL \<notin> set (split_on LF (fst (collect (err_capture_cap plan (output_cap policy)) (ch_stderr ch))))"
    "run_child rx executable plan policy ch = (Ok (r, never_started), downs)"
  shows "never_started \<and> (er_outcome r = Timeout \<or> er_outcome r = Errored)"
proof -
  obtain ended down where res: "(r, never_started) = finish_run rx plan (output_cap policy) (ch_elapsed_ms ch) ended
       (collect (output_cap policy) (ch_stdout ch))
       (collect (err_capture_cap plan (output_cap policy)) (ch_stderr ch))"
    using run_child_Ok [OF assms(3)] by metis
  then have "never_started" using finish_run_sentinel [OF assms(1)] assms(2) by (metis snd_conv)
  then show ?thesis using finish_run_never_started res by metis
qed

text \<open>C12: When no line of the captured error stream is the start sentinel, that is when the wrapper failed
  before the test command was started, the run is never a test failure: whatever its exit status, signal
  and output, the pair it belongs to is \<open>Broken\<close> and can be no catch.\<close>

theorem wrapper_failure_is_broken:
  assumes "pn_expects_start_sentinel plan"
    "START_SENTINEL \<notin> set (split_on LF (fst (collect (err_capture_cap plan (output_cap policy)) (ch_stderr ch))))"
    "run_child rx executable plan policy ch = (Ok (r, never_started), downs)"
  shows "from_catch \<lparr>ce_base = b, ce_head = r\<rparr> = Broken"
  using wrapper_failure_outcome [OF assms] by (auto simp: from_catch_def)

definition unshare_plan :: sandbox_plan where
  "unshare_plan = \<lparr>pn_backend = BkNetnsHelper, pn_program = ''unshare'', pn_args = [], pn_cwd = ''/ov'',
     pn_env = [], pn_container_name = None, pn_cleanup = None, pn_new_process_group = True,
     pn_build_signal = default_signal, pn_expects_start_sentinel = True\<rparr>"

definition failed_wrapper :: child where
  "failed_wrapper = \<lparr>ch_stdout = ([], True), ch_stderr = ([Chunk ''unshare failed''], True),
     ch_poll = (\<lambda>n. Ended (Exited 1)), ch_deadline = 6000, ch_final = Ok (Exited 1), ch_elapsed_ms = 5\<rparr>"

lemma failed_wrapper_run:
  "\<exists>r. run_child (\<lambda>_ _. []) (\<lambda>_. True) unshare_plan (from_trusted default_trusted) failed_wrapper
       = (Ok (r, True), [SweepGroup])"
proof -
  have poll: "wait_with_timeout (\<lambda>_. True) failed_wrapper unshare_plan = (Ok (Exited 1, False), [])"
    by (simp add: wait_with_timeout_def failed_wrapper_def unshare_plan_def numeral_eq_Suc)
  have deg: "\<not> stderr_shows_silent_degradation (pn_backend unshare_plan) s" for s
    by (simp add: stderr_shows_silent_degradation_def unshare_plan_def)
  have sent: "pn_expects_start_sentinel unshare_plan" and group: "pn_new_process_group unshare_plan"
    by (simp_all add: unshare_plan_def)
  have c: "collect (err_capture_cap unshare_plan (output_cap (from_trusted default_trusted))) (ch_stderr failed_wrapper)
      = (''unshare failed'', False)"
    by (subst collect_whole)
      (auto simp: whole_stream_def failed_wrapper_def stream_bytes_def err_capture_cap_def unshare_plan_def
        STDERR_MARKER_SCAN_FLOOR_def Let_def)
  have ns: "START_SENTINEL \<notin> set (split_on LF ''unshare failed'')" by code_simp
  show ?thesis
    using finish_run_sentinel [OF sent, of "\<lambda>_ _. []"] ns
    by (simp add: run_child_def poll deg Let_def c group prod_eq_iff)
qed

theorem wrapper_failure_is_broken_witness:
  "\<exists>r. run_child (\<lambda>_ _. []) (\<lambda>_. True) unshare_plan (from_trusted default_trusted) failed_wrapper
       = (Ok (r, True), [SweepGroup])
     \<and> from_catch \<lparr>ce_base = r, ce_head = r\<rparr> = Broken"
proof -
  obtain r where r: "run_child (\<lambda>_ _. []) (\<lambda>_. True) unshare_plan (from_trusted default_trusted) failed_wrapper
       = (Ok (r, True), [SweepGroup])" using failed_wrapper_run by blast
  have s: "pn_expects_start_sentinel unshare_plan" by (simp add: unshare_plan_def)
  have c: "collect (err_capture_cap unshare_plan (output_cap (from_trusted default_trusted))) (ch_stderr failed_wrapper)
      = (''unshare failed'', False)"
    by (subst collect_whole)
      (auto simp: whole_stream_def failed_wrapper_def stream_bytes_def err_capture_cap_def unshare_plan_def
        STDERR_MARKER_SCAN_FLOOR_def Let_def)
  have ns: "START_SENTINEL \<notin> set (split_on LF ''unshare failed'')" by code_simp
  have "from_catch \<lparr>ce_base = r, ce_head = r\<rparr> = Broken"
    by (rule wrapper_failure_is_broken [OF s _ r]) (simp only: c fst_conv ns not_False_eq_True)
  then show ?thesis using r by blast
qed

section \<open>The sentinel leaves no trace\<close>

lemma LF_not_in_sentinel: "LF \<notin> set START_SENTINEL"
  by (simp add: START_SENTINEL_def LF_def)

text \<open>The same plan without the preamble's announcement.\<close>

definition unannounced :: "sandbox_plan \<Rightarrow> sandbox_plan" where
  "unannounced plan = plan\<lparr>pn_expects_start_sentinel := False\<rparr>"

lemma err_capture_cap_announced:
  assumes "pn_expects_start_sentinel plan"
  shows "err_capture_cap plan limit = max limit STDERR_MARKER_SCAN_FLOOR + (length START_SENTINEL + 1)"
  using assms by (simp add: err_capture_cap_def Let_def)

lemma err_capture_cap_unannounced:
  assumes "\<not> has_silent_degradation_mode (pn_backend plan)"
  shows "err_capture_cap (unannounced plan) limit = limit"
  using assms by (simp add: err_capture_cap_def unannounced_def Let_def)

text \<open>What is left of the captured bytes after the sentinel's line is cut out.\<close>

lemma announced_stderr:
  assumes "\<forall>l \<in> set ls. LF \<notin> set l \<and> l \<noteq> START_SENTINEL"
    "length (text_of_lines ls) \<le> limit"
  shows "strip_marker_line
      (take (limit + (length START_SENTINEL + 1)) (text_of_lines ls @ START_SENTINEL @ LF # post)) START_SENTINEL
    = (take limit (text_of_lines ls @ post), True)"
proof -
  have "take (limit + (length START_SENTINEL + 1)) (text_of_lines ls @ START_SENTINEL @ LF # post)
      = text_of_lines ls @ START_SENTINEL @ LF # take (limit - length (text_of_lines ls)) post"
    using assms(2) by (simp add: take_Cons')
  then show ?thesis
    using strip_marker_found [OF assms(1) LF_not_in_sentinel, of "[]"] assms(2)
    by (simp add: strip_marker_line_def)
qed

lemma no_degradation_mode:
  "\<not> has_silent_degradation_mode b \<Longrightarrow> \<not> stderr_shows_silent_degradation b s"
  by (simp add: has_silent_degradation_mode_def stderr_shows_silent_degradation_def)

lemma wait_unannounced [simp]:
  "wait_with_timeout executable (ch\<lparr>ch_stderr := s\<rparr>) (unannounced plan) = wait_with_timeout executable ch plan"
proof -
  have "wait_polls (ch\<lparr>ch_stderr := s\<rparr>) k n d = wait_polls ch k n d" for k n d
    by (induction n arbitrary: k) (auto split: poll_result.splits sum.splits)
  then show ?thesis by (simp add: wait_with_timeout_def unannounced_def)
qed

lemma unannounced_fields [simp]:
  "pn_backend (unannounced plan) = pn_backend plan"
  "pn_new_process_group (unannounced plan) = pn_new_process_group plan"
  "pn_build_signal (unannounced plan) = pn_build_signal plan"
  "\<not> pn_expects_start_sentinel (unannounced plan)"
  by (simp_all add: unannounced_def)

lemma finish_run_unannounced:
  fixes post :: str
  assumes "pn_expects_start_sentinel plan" "\<forall>l \<in> set ls. LF \<notin> set l \<and> l \<noteq> START_SENTINEL"
    "length (text_of_lines ls) \<le> m" "limit \<le> m"
  defines "bytes \<equiv> text_of_lines ls @ post"
  defines "announced \<equiv> text_of_lines ls @ START_SENTINEL @ LF # post"
  shows "finish_run rx plan limit elapsed ended out
      (take (m + (length START_SENTINEL + 1)) announced, m + (length START_SENTINEL + 1) < length announced)
    = finish_run rx (unannounced plan) limit elapsed ended out (take limit bytes, limit < length bytes)"
proof -
  have strip: "strip_marker_line (take (m + (length START_SENTINEL + 1)) announced) START_SENTINEL
      = (take m bytes, True)"
    using announced_stderr [OF assms(2,3)] by (simp add: announced_def bytes_def)
  have len: "m + (length START_SENTINEL + 1) < length announced \<longleftrightarrow> m < length bytes"
    by (simp add: announced_def bytes_def)
  have "(if length (take m bytes) > limit then (take limit (take m bytes), True) else (take m bytes, m < length bytes))
      = (if length (take limit bytes) > limit then (take limit (take limit bytes), True)
         else (take limit bytes, limit < length bytes))"
    using assms(4) by (auto simp: min_def)
  then show ?thesis
    unfolding finish_run_def Let_def prod.case strip len using assms(1)
    by (simp add: unannounced_def split: prod.splits)
qed

text \<open>The start sentinel is invisible: when the launcher wrote at most 4096 bytes before it, the run
  with the announced plan gives the same outcome, output, truncation flag and teardown as the same child
  would give under the plan without the sentinel, had it never written that line.\<close>

theorem sentinel_is_invisible:
  assumes "pn_expects_start_sentinel plan" "\<not> has_silent_degradation_mode (pn_backend plan)"
    "whole_stream (events, fin)" "stream_bytes events = text_of_lines ls @ START_SENTINEL @ LF # post"
    "\<forall>l \<in> set ls. LF \<notin> set l \<and> l \<noteq> START_SENTINEL"
    "length (text_of_lines ls) \<le> STDERR_MARKER_SCAN_FLOOR"
    "whole_stream (plain, fin')" "stream_bytes plain = text_of_lines ls @ post"
  shows "run_child rx executable plan policy (ch\<lparr>ch_stderr := (events, fin)\<rparr>)
    = run_child rx executable (unannounced plan) policy (ch\<lparr>ch_stderr := (plain, fin')\<rparr>)"
proof -
  define limit where "limit = output_cap policy"
  define m where "m = max limit STDERR_MARKER_SCAN_FLOOR"
  have waits: "wait_with_timeout executable (ch\<lparr>ch_stderr := (events, fin)\<rparr>) plan = wait_with_timeout executable ch plan"
  proof -
    have "wait_polls (ch\<lparr>ch_stderr := (events, fin)\<rparr>) k n d = wait_polls ch k n d" for k n d
      by (induction n arbitrary: k) (auto split: poll_result.splits sum.splits)
    then show ?thesis by (simp add: wait_with_timeout_def)
  qed
  have finish: "finish_run rx plan limit elapsed ended out
      (collect (err_capture_cap plan limit) (events, fin))
    = finish_run rx (unannounced plan) limit elapsed ended out
      (collect (err_capture_cap (unannounced plan) limit) (plain, fin'))" for elapsed ended out
    using finish_run_unannounced [OF assms(1,5), of m limit rx elapsed ended out post] assms(6)
    by (simp add: collect_whole [OF assms(3)] collect_whole [OF assms(7)] err_capture_cap_announced [OF assms(1)]
        err_capture_cap_unannounced [OF assms(2)] assms(4,8) m_def)
  show ?thesis
    by (simp add: run_child_def Let_def waits limit_def [symmetric] finish no_degradation_mode [OF assms(2)]
        split: prod.splits sum.splits)
qed

theorem sentinel_is_invisible_witness:
  "run_child (\<lambda>_ _. []) (\<lambda>_. True) unshare_plan (from_trusted default_trusted)
     (failed_wrapper\<lparr>ch_stderr := ([Chunk START_SENTINEL, Chunk (LF # ''boom'')], True)\<rparr>)
   = run_child (\<lambda>_ _. []) (\<lambda>_. True) (unannounced unshare_plan) (from_trusted default_trusted)
     (failed_wrapper\<lparr>ch_stderr := ([Chunk ''boom''], True)\<rparr>)"
  by (rule sentinel_is_invisible [where ls = "[]" and post = "''boom''"])
    (simp_all add: unshare_plan_def has_silent_degradation_mode_def whole_stream_def stream_bytes_def
      text_of_lines_def START_SENTINEL_def)

section \<open>A run that takes too long is torn down\<close>

lemma wait_polls_timeout:
  assumes "wait_polls ch k n d = (Ok (s, True), down)"
  shows "down = d"
  using assms by (induction n arbitrary: k) (auto split: poll_result.splits sum.splits)

lemma finish_run_timeout:
  assumes "finish_run rx plan limit elapsed (s, timed_out) out err = (r, ns)" "er_outcome r = Timeout"
  shows timed_out
  using assms by (auto simp: finish_run_def classify_disposition_def Let_def split: prod.splits if_splits option.splits)

lemma run_child_timeout:
  assumes "run_child rx executable plan policy ch = (Ok (r, ns), downs)" "er_outcome r = Timeout"
  shows "KillChild \<in> set downs"
    "pn_cleanup plan = Some argv \<Longrightarrow> set (run_cleanup executable argv) \<subseteq> set downs"
    "pn_new_process_group plan \<Longrightarrow> SweepGroup \<in> set downs"
proof -
  obtain ended down where e: "wait_with_timeout executable ch plan = (Ok ended, down)"
    "(r, ns) = finish_run rx plan (output_cap policy) (ch_elapsed_ms ch) ended
       (collect (output_cap policy) (ch_stdout ch))
       (collect (err_capture_cap plan (output_cap policy)) (ch_stderr ch))"
    "downs = down @ (if pn_new_process_group plan then [SweepGroup] else [])"
    using run_child_Ok [OF assms(1)] by metis
  obtain s t where st: "ended = (s, t)" by (cases ended)
  then have t using finish_run_timeout e(2) assms(2) by metis
  then have "down = KillChild # (case pn_cleanup plan of Some argv \<Rightarrow> run_cleanup executable argv | None \<Rightarrow> [])"
    using e(1) st wait_polls_timeout [of ch 0 "ch_deadline ch" _ s down] unfolding wait_with_timeout_def
    by simp
  then show "KillChild \<in> set downs"
    "pn_cleanup plan = Some argv \<Longrightarrow> set (run_cleanup executable argv) \<subseteq> set downs"
    "pn_new_process_group plan \<Longrightarrow> SweepGroup \<in> set downs"
    using e(3) by auto
qed

text \<open>Everything the plan started is stopped: a container by its name, another launcher with its whole
  process group.\<close>

definition stopped :: "plan_input \<Rightarrow> teardown list \<Rightarrow> bool" where
  "stopped i downs \<longleftrightarrow> KillChild \<in> set downs
     \<and> (if tier_of (pi_backend i) = TierContainer
        then \<exists>client. child_of_trusted client
               \<and> Cleanup [client, ''kill'', ''--signal=KILL'', ''jitgen-'' @ pi_instance i] \<in> set downs
        else SweepGroup \<in> set downs)"

lemma resolve_trusted_child: "resolve_trusted_bin executable program = Some q \<Longrightarrow> child_of_trusted q"
  using literal_child trusted_child_bare by (auto simp: resolve_trusted_bin_def split: if_splits)

lemma timeout_stopped:
  assumes "build_plan i = Ok plan" "run_reporting rx executable spawn plan policy fs = (Ok (r, ns), downs, fs')"
    "er_outcome r = Timeout"
  shows "stopped i downs"
proof -
  obtain program ch fs1 where run: "resolve_trusted_bin executable (pn_program plan) = Some program"
    "run_child rx executable plan policy ch = (Ok (r, ns), downs)"
    using assms(2) by (auto simp: run_reporting_def split: option.splits prod.splits sum.splits)
  note t = run_child_timeout [OF run(2) assms(3)]
  obtain cwd c q where s: "inner_argv (pi_req i) (pi_policy i) = Ok c" "plan_for i cwd (inner_for i c) = Ok q"
    "plan = q\<lparr>pn_build_signal := sp_build_signal (pi_req i), pn_expects_start_sentinel := uses_preamble (pi_backend i)\<rparr>"
    using assms(1) unfolding build_plan_steps by auto
  show ?thesis
  proof (cases "tier_of (pi_backend i) = TierContainer")
    case True
    have "pn_cleanup q = Some [pn_program q, ''kill'', ''--signal=KILL'', ''jitgen-'' @ pi_instance i]"
      using plan_for_container [OF s(2) True] by metis
    then have "Cleanup [program, ''kill'', ''--signal=KILL'', ''jitgen-'' @ pi_instance i] \<in> set downs"
      using t(2) run(1) s(3) by (auto simp: run_cleanup_def)
    then show ?thesis using True t(1) resolve_trusted_child [OF run(1)] unfolding stopped_def by auto
  next
    case False
    then have "pn_new_process_group q"
      using plan_for_direct [OF s(2) inner_for_nonempty [OF inner_argv_nonempty [OF s(1)]]] by simp
    then show ?thesis using False t(1,3) s(3) by (simp add: stopped_def)
  qed
qed

text \<open>C21: A run that is reported as timed out has been stopped: the child was killed, a container was also
  killed by its own name through a client from a system directory, and every other tier had its process
  group swept.\<close>

theorem timeout_tears_down:
  assumes "build_plan i = Ok plan" "run_reporting rx executable spawn plan policy fs = (Ok (r, ns), downs, fs')"
    "er_outcome r = Timeout"
  shows "stopped i downs"
  by (rule timeout_stopped [OF assms])

definition hung :: child where
  "hung = \<lparr>ch_stdout = ([], False), ch_stderr = ([], False), ch_poll = (\<lambda>n. Running), ch_deadline = 0,
     ch_final = Ok (Signaled 9), ch_elapsed_ms = 120000\<rparr>"

lemma hung_docker_run:
  assumes "build_plan docker_input = Ok plan"
  shows "\<exists>r downs. run_reporting (\<lambda>_ _. []) (\<lambda>_. True) (\<lambda>_ _ fs. (Ok hung, fs)) plan docker_policy fs
     = (Ok (r, False), downs, fs) \<and> er_outcome r = Timeout"
proof -
  obtain cwd c q where s: "plan_for docker_input cwd (inner_for docker_input c) = Ok q"
    "plan = q\<lparr>pn_build_signal := sp_build_signal (pi_req docker_input),
              pn_expects_start_sentinel := uses_preamble (pi_backend docker_input)\<rparr>"
    using assms unfolding build_plan_steps by auto
  have "tier_of (pi_backend docker_input) = TierContainer" by (simp add: docker_input_def)
  then have "pn_program q = ''docker''"
    by (rule plan_for_container [OF s(1)]) (simp add: docker_input_def)
  moreover have "pn_backend q = BkDocker"
    using s(1) by (auto simp: plan_for_def docker_input_def plan_container_def Let_def
        split: option.splits if_splits list.splits)
  ultimately have p: "pn_program plan = ''docker''" "pn_backend plan = BkDocker" "\<not> pn_expects_start_sentinel plan"
    using s(2) by (simp_all add: docker_input_def)
  have r: "resolve_trusted_bin (\<lambda>_. True) ''docker'' = Some ''/usr/bin/docker''" by code_simp
  have w: "\<exists>d. wait_with_timeout (\<lambda>_. True) hung plan = (Ok (Signaled 9, True), d)"
    by (simp add: wait_with_timeout_def hung_def)
  show ?thesis
    using w by (auto simp: run_reporting_def p r run_child_def Let_def stderr_shows_silent_degradation_def
        finish_run_def classify_disposition_def split: prod.splits)
qed

theorem timeout_tears_down_witness:
  "\<exists>plan r downs. build_plan docker_input = Ok plan
     \<and> run_reporting (\<lambda>_ _. []) (\<lambda>_. True) (\<lambda>_ _ fs. (Ok hung, fs)) plan docker_policy Map.empty
       = (Ok (r, False), downs, Map.empty)
     \<and> stopped docker_input downs"
proof -
  obtain plan where p: "build_plan docker_input = Ok plan"
    using docker_input_allowed(1) unfolding build_plan_ok [symmetric] by blast
  obtain r downs where r: "run_reporting (\<lambda>_ _. []) (\<lambda>_. True) (\<lambda>_ _ fs. (Ok hung, fs)) plan docker_policy Map.empty
     = (Ok (r, False), downs, Map.empty)" "er_outcome r = Timeout"
    using hung_docker_run [OF p] by blast
  show ?thesis using p r(1) timeout_tears_down [OF p r] by blast
qed

section \<open>Selection on a host\<close>

text \<open>What a host has shown of a backend: firejail's network cut was observed from inside by a script that
  could reach the listener from outside, every other backend ran its probe to a clean end.\<close>

definition proven :: "host_probes \<Rightarrow> backend \<Rightarrow> bool" where
  "proven h b \<longleftrightarrow>
     (if b = BkFirejail
      then (\<exists>port p. ho_listener h = Some port \<and> probe_behavioral h b = Some p
              \<and> bp_control p = NetOpen \<and> bp_isolated p = NetDenied \<and> po_success (bp_outcome p))
      else (\<exists>o'. probe_backend h b = Some o' \<and> po_success o'))"

lemma backend_available_proven: "backend_available h b \<Longrightarrow> proven h b"
  by (auto simp: backend_available_def proven_def has_silent_degradation_mode_def
      behavioral_probe_confirms_isolation_def probe_is_available_def probe_behavioral_def
      split: if_splits option.splits; cases b; simp)

lemma detect_proven: "b \<in> set (detect h) \<Longrightarrow> proven h b"
  using backend_available_proven by (auto simp: detect_def)

lemma detect_and_select_backend:
  assumes "detect_and_select esc h policy = Ok sb"
  shows "isolating (sb_backend sb) \<and> proven h (sb_backend sb) \<or> ep_allow_unsafe_local policy"
proof -
  let ?a = "detect h @ (if (ep_allow_unsafe_local policy \<or> ep_backend policy = NetnsHelper)
      \<and> netns_helper_available h then [BkNetnsHelper] else [])"
  have "select_backend ?a policy = Ok (sb_backend sb)"
    using assms by (auto simp: detect_and_select_def sandbox_new_def Let_def split: sum.splits)
  then have "isolating (sb_backend sb) \<and> sb_backend sb \<in> set ?a \<or> ep_allow_unsafe_local policy"
    using select_backend_cases by blast
  then show ?thesis
    using detect_proven by (auto simp: isolating_def split: if_splits)
qed

text \<open>C13: Without the unsafe opt-in, a sandbox exists only on a backend that isolates by itself and that
  the host has just proven: firejail by an observed network cut with a working control, the others by a
  probe that ran to a clean end.\<close>

theorem selection_fails_closed:
  assumes "detect_and_select esc h policy = Ok sb" "\<not> ep_allow_unsafe_local policy"
  shows "isolating (sb_backend sb) \<and> proven h (sb_backend sb)"
  using detect_and_select_backend [OF assms(1)] assms(2) by blast

definition docker_host :: host_probes where
  "docker_host = \<lparr>ho_os = MacOs, ho_executable = (\<lambda>p. p = ''/usr/local/bin/docker''),
     ho_probe = (\<lambda>p args inherit. if args = [''version''] \<and> inherit
        then Some (hung\<lparr>ch_poll := (\<lambda>n. Ended (Exited 0)), ch_stdout := ([], True), ch_stderr := ([], True)\<rparr>)
        else None),
     ho_listener = None\<rparr>"

theorem selection_fails_closed_witness:
  "\<exists>sb. detect_and_select (\<lambda>k. k) docker_host (from_trusted default_trusted) = Ok sb
     \<and> isolating (sb_backend sb) \<and> proven docker_host (sb_backend sb)"
proof -
  have "resolve_trusted_bin (ho_executable docker_host) ''sandbox-exec'' = None"
    "resolve_trusted_bin (ho_executable docker_host) ''docker'' = Some ''/usr/local/bin/docker''"
    by (code_simp, code_simp)
  then have "backend_available docker_host BkDocker" "\<not> backend_available docker_host BkSandboxExec"
    by (simp_all add: backend_available_def has_silent_degradation_mode_def probe_backend_def
        probe_is_available_def probe_outcome_of_def stderr_shows_silent_degradation_def)
      (simp add: docker_host_def hung_def)
  moreover have "ho_os docker_host = MacOs" by (simp add: docker_host_def)
  ultimately have "\<exists>sb. detect_and_select (\<lambda>k. k) docker_host (from_trusted default_trusted) = Ok sb"
    by (auto simp: detect_and_select_def sandbox_new_def select_backend_def detect_def from_trusted_def
        default_trusted_def AUTO_PREFERENCE_def Let_def)
  moreover have "\<not> ep_allow_unsafe_local (from_trusted default_trusted)"
    by (simp add: from_trusted_def default_trusted_def)
  ultimately show ?thesis using selection_fails_closed by blast
qed

section \<open>What reaches the operating system\<close>

text \<open>A spawn that was vetted: the program is an executable file of a system directory, and the plan is
  what \<open>build_plan\<close> makes of the request for the canonical overlay, with an environment that holds
  nothing but the synthetic directories below the overlay and clean entries, and a working directory
  inside the overlay.\<close>

definition vetted :: "run_env \<Rightarrow> sandbox \<Rightarrow> run_request \<Rightarrow> filesys \<Rightarrow> str \<Rightarrow> sandbox_plan \<Rightarrow> bool" where
  "vetted env sb req fs program plan \<longleftrightarrow>
     \<not> (has_silent_degradation_mode (sb_backend sb) \<and> backend_silently_degrades (re_before env) (sb_backend sb))
     \<and> child_of_trusted program
     \<and> (\<exists>overlay state i. canonicalize fs (re_cwd env) (rr_overlay_root req) = Ok overlay
          \<and> canonicalize fs (re_cwd env) (rr_state_root req) = Ok state
          \<and> plan_allowed i \<and> build_plan i = Ok plan
          \<and> pi_backend i = sb_backend sb \<and> pi_req i = rr_command req \<and> pi_policy i = sb_policy sb
          \<and> pi_overlay_root i = path_of overlay
          \<and> path_starts_with (pn_cwd plan) (path_of overlay)
          \<and> child_env_ok (re_parent env) (path_join (path_of overlay) ''.jitgen-home'')
              (path_join (path_of overlay) ''.jitgen-tmp'') (path_of overlay) (path_of state) (pi_env i))"

lemma build_plan_cwd:
  assumes "build_plan i = Ok plan"
  shows "path_starts_with (pn_cwd plan) (pi_overlay_root i)"
proof -
  obtain cwd c q where s: "validated_cwd (pi_overlay_root i) (sp_cwd_rel (pi_req i)) = Ok cwd"
    "inner_argv (pi_req i) (pi_policy i) = Ok c" "plan_for i cwd (inner_for i c) = Ok q"
    "plan = q\<lparr>pn_build_signal := sp_build_signal (pi_req i), pn_expects_start_sentinel := uses_preamble (pi_backend i)\<rparr>"
    using assms unfolding build_plan_steps by auto
  have "pn_cwd q = cwd"
  proof (cases "tier_of (pi_backend i) = TierContainer")
    case True
    show ?thesis by (rule plan_for_container [OF s(3) True]) simp
  next
    case False
    then show ?thesis using plan_for_direct [OF s(3) inner_for_nonempty [OF inner_argv_nonempty [OF s(2)]]] by simp
  qed
  then show ?thesis using validated_cwd_inside(1) [OF s(1)] s(4) by (simp add: path_starts_with_def)
qed

lemma run_reporting_cong:
  assumes "\<And>program. child_of_trusted program \<Longrightarrow> spawn program plan fs = spawn' program plan fs"
  shows "run_reporting rx executable spawn plan policy fs = run_reporting rx executable spawn' plan policy fs"
  using assms resolve_trusted_child by (auto simp: run_reporting_def split: option.splits)

lemma run_planned_cong:
  assumes "\<And>program plan. vetted env sb req fs0 program plan \<Longrightarrow> spawn program plan fs = re_spawn env program plan fs"
    "\<not> (has_silent_degradation_mode (sb_backend sb) \<and> backend_silently_degrades (re_before env) (sb_backend sb))"
    "canonicalize fs0 (re_cwd env) (rr_overlay_root req) = Ok overlay"
    "canonicalize fs0 (re_cwd env) (rr_state_root req) = Ok state"
  shows "run_planned (env\<lparr>re_spawn := spawn\<rparr>) sb req overlay state fs = run_planned env sb req overlay state fs"
proof -
  define vars where "vars = fst (build_env (re_esc env) (re_parent env) (sb_policy sb)
      (path_join (path_of overlay) ''.jitgen-home'') (path_join (path_of overlay) ''.jitgen-tmp'')
      (path_of overlay) (path_of state))"
  define i where "i = \<lparr>pi_backend = sb_backend sb, pi_req = rr_command req,
      pi_overlay_root = path_of overlay, pi_synthetic_tmp = path_join (path_of overlay) ''.jitgen-tmp'', pi_env = vars,
      pi_policy = sb_policy sb, pi_instance = rr_instance req, pi_run_as = rr_run_as req\<rparr>"
  have env: "child_env_ok (re_parent env) (path_join (path_of overlay) ''.jitgen-home'')
      (path_join (path_of overlay) ''.jitgen-tmp'') (path_of overlay) (path_of state) vars"
    unfolding vars_def by (rule build_env_ok)
  have "run_reporting rx executable spawn plan policy fs = run_reporting rx executable (re_spawn env) plan policy fs"
    if p: "build_plan i = Ok plan" for rx executable plan policy
  proof (rule run_reporting_cong)
    fix program assume "child_of_trusted program"
    moreover have "plan_allowed i" using p build_plan_ok by blast
    ultimately have "vetted env sb req fs0 program plan"
      using assms(2-4) p env build_plan_cwd [OF p] unfolding vetted_def
      by (intro conjI exI [of _ overlay] exI [of _ state] exI [of _ i]) (simp_all add: i_def)
    then show "spawn program plan fs = re_spawn env program plan fs" by (rule assms(1))
  qed
  then show ?thesis
    by (auto simp: run_planned_def Let_def vars_def [symmetric] i_def [symmetric] split: sum.splits prod.splits)
qed

text \<open>C11: Two operating systems that agree on the vetted spawns cannot be told apart by a run: no other
  program, plan, environment or directory is ever handed to them, and a backend that was just seen
  degrading hands them nothing at all.\<close>

theorem only_vetted_plans_are_spawned:
  assumes "\<And>program plan fs'. vetted env sb req fs program plan \<Longrightarrow> spawn program plan fs' = re_spawn env program plan fs'"
  shows "sandbox_run (env\<lparr>re_spawn := spawn\<rparr>) sb req fs = sandbox_run env sb req fs"
proof (cases "has_silent_degradation_mode (sb_backend sb) \<and> backend_silently_degrades (re_before env) (sb_backend sb)")
  case True
  then show ?thesis by (simp add: sandbox_run_def)
next
  case False
  have "run_planned (env\<lparr>re_spawn := spawn\<rparr>) sb req overlay state fs' = run_planned env sb req overlay state fs'"
    if "canonicalize fs (re_cwd env) (rr_overlay_root req) = Ok overlay"
      "canonicalize fs (re_cwd env) (rr_state_root req) = Ok state" for overlay state fs'
    by (rule run_planned_cong [OF assms False that])
  then show ?thesis using False
    by (auto simp: sandbox_run_def split: sum.splits prod.splits)
qed

text \<open>A host that answers every program of its system directories, and one that would also answer any
  other program.\<close>

definition test_request :: run_request where
  "test_request = \<lparr>rr_command = spawn_argv ''cargo'' [''test''],
     rr_overlay_root = ''/ov'', rr_state_root = ''/st'', rr_instance = ''t1'', rr_run_as = None\<rparr>"

definition quiet_env :: run_env where
  "quiet_env = \<lparr>re_esc = (\<lambda>k. k), re_rx = (\<lambda>_ _. []), re_parent = Map.empty, re_cwd = [],
     re_before = docker_host, re_after = docker_host, re_spawn = (\<lambda>_ _ fs. (Ok hung, fs)),
     re_stuck = (\<lambda>_ _. [])\<rparr>"

definition local_sandbox :: sandbox where
  "local_sandbox = \<lparr>sb_backend = BkConstrainedLocal, sb_policy = from_trusted default_trusted, sb_warnings = []\<rparr>"

theorem only_vetted_plans_are_spawned_witness:
  "sandbox_run (quiet_env\<lparr>re_spawn := (\<lambda>program plan fs.
       if child_of_trusted program then (Ok hung, fs) else (Ok failed_wrapper, Map.empty))\<rparr>)
     local_sandbox test_request [[''ov''] \<mapsto> DirNode, [''st''] \<mapsto> DirNode]
   = sandbox_run quiet_env local_sandbox test_request [[''ov''] \<mapsto> DirNode, [''st''] \<mapsto> DirNode]"
proof (rule only_vetted_plans_are_spawned)
  fix program plan fs'
  assume "vetted quiet_env local_sandbox test_request [[''ov''] \<mapsto> DirNode, [''st''] \<mapsto> DirNode] program plan"
  then have "child_of_trusted program" by (simp add: vetted_def)
  then show "(if child_of_trusted program then (Ok hung, fs') else (Ok failed_wrapper, Map.empty))
      = re_spawn quiet_env program plan fs'"
    by (simp add: quiet_env_def)
qed

end
