(* ===== verification/Confine.thy ===== *)
theory Confine
  imports Filesys PathFilter
begin

text \<open>
  What the two writers of the program share, \<open>jitgen-orchestrator/src/checkout.rs\<close> and
  \<open>jitgen-materialize/src/overlay.rs\<close>: the loop that creates the parents of a path without following
  a link, and lemmas on paths below directories that are all plain.
\<close>

section \<open>The parents of a path\<close>

text \<open>The errors of the loop over the parents, each with the names up to the component.\<close>

record 'e dir_errors =
  de_link :: "str list \<Rightarrow> 'e"
  de_other :: "str list \<Rightarrow> 'e"
  de_io :: "io_error \<Rightarrow> str list \<Rightarrow> 'e"
  de_component :: 'e

fun parent_dirs ::
  "'e dir_errors \<Rightarrow> str list \<Rightarrow> str list \<Rightarrow> component list \<Rightarrow> filesys \<Rightarrow> ('e + unit) \<times> filesys" where
  "parent_dirs de base cur [] fs = (Ok (), fs)"
| "parent_dirs de base cur (CurDir # cs) fs = parent_dirs de base cur cs fs"
| "parent_dirs de base cur (Normal s # cs) fs =
     (case symlink_metadata fs base (map Normal (cur @ [s])) of
        Ok (LinkNode _) \<Rightarrow> (Err (de_link de (cur @ [s])), fs)
      | Ok DirNode \<Rightarrow> parent_dirs de base (cur @ [s]) cs fs
      | Ok _ \<Rightarrow> (Err (de_other de (cur @ [s])), fs)
      | Err NotFound \<Rightarrow>
          (case create_dir fs base (map Normal (cur @ [s])) of
             (Err e, fs) \<Rightarrow> (Err (de_io de e (cur @ [s])), fs)
           | (Ok _, fs) \<Rightarrow> parent_dirs de base (cur @ [s]) cs fs)
      | Err e \<Rightarrow> (Err (de_io de e (cur @ [s])), fs))"
| "parent_dirs de base cur (_ # cs) fs = (Err (de_component de), fs)"

section \<open>Lemmas\<close>

text \<open>
  The effect of one write: the parents are created as directories, the file is new or replaces a
  regular file, and nothing else changes.
\<close>

definition confined_change :: "str list \<Rightarrow> str list \<Rightarrow> str \<Rightarrow> filesys \<Rightarrow> filesys \<Rightarrow> bool" where
  "confined_change base ns bytes fs fs' \<longleftrightarrow>
     (\<forall>loc. fs' loc = fs loc \<or> (\<exists>k < length ns. loc = base @ take (Suc k) ns \<and>
        (if Suc k = length ns then fs' loc = Some (FileNode bytes) \<and> (fs loc = None \<or> (\<exists>b. fs loc = Some (FileNode b)))
         else fs' loc = Some DirNode \<and> fs loc = None)))"

definition dirs_created :: "str list \<Rightarrow> str list \<Rightarrow> filesys \<Rightarrow> filesys \<Rightarrow> bool" where
  "dirs_created base ns fs fs' \<longleftrightarrow>
     (\<forall>loc. fs' loc = fs loc \<or> fs loc = None \<and> fs' loc = Some DirNode \<and> (\<exists>k < length ns. loc = base @ take (Suc k) ns))"

lemma dirs_created_refl: "dirs_created base ns fs fs"
  by (simp add: dirs_created_def)

lemma resolve_parent_plain:
  "descending (butlast cs) \<Longrightarrow> plain_dirs fs base (normals (butlast cs)) \<Longrightarrow> resolve_parent fs base cs =
    (if is_dir fs (base @ normals (butlast cs)) then Ok (base @ normals (butlast cs))
     else Err (OtherIo ''Not a directory (os error 20)''))"
  by (simp add: resolve_parent_def resolve_plain)

lemma symlink_metadata_plain:
  "plain_dirs fs base cur \<Longrightarrow> symlink_metadata fs base (map Normal cur @ [Normal s]) =
    (if is_dir fs (base @ cur) then (case fs (base @ cur @ [s]) of None \<Rightarrow> Err NotFound | Some n \<Rightarrow> Ok n)
     else Err (OtherIo ''Not a directory (os error 20)''))"
  by (simp add: symlink_metadata_def resolve_parent_plain butlast_append)

lemma create_dir_plain:
  "plain_dirs fs base cur \<Longrightarrow> is_dir fs (base @ cur) \<Longrightarrow> fs (base @ cur @ [s]) = None \<Longrightarrow>
    create_dir fs base (map Normal cur @ [Normal s]) = (Ok (), fs(base @ cur @ [s] \<mapsto> DirNode))"
  by (simp add: create_dir_def resolve_parent_plain butlast_append)

lemma plain_dirs_mono:
  "plain_dirs fs base ns \<Longrightarrow> fs loc = None \<Longrightarrow> plain_dirs (fs(loc \<mapsto> n)) base ns"
  by (auto simp: plain_dirs_def)

lemma parent_dirs_confined:
  "parent_dirs de base cur cs fs = (res, fs') \<Longrightarrow> plain_dirs fs (base) cur \<Longrightarrow>
    dirs_created (base @ cur) (normals cs) fs fs'
    \<and> (if res = Ok () then plain_dirs fs' (base) (cur @ normals cs) else True)"
proof (induction de base cur cs fs rule: parent_dirs.induct)
  case (3 de base cur s cs fs)
  let ?loc = "base @ cur @ [s]"
  have plain: "plain_dirs fs (base) cur" using 3(4) .
  show ?case
  proof (cases "is_dir fs (base @ cur) \<and> (fs ?loc = None \<or> fs ?loc = Some DirNode)")
    case False
    then have "fs' = fs \<and> res \<noteq> Ok ()"
      using 3(3) plain
      by (cases "is_dir fs (base @ cur)") (auto simp: symlink_metadata_plain split: option.splits fs_node.splits)
    then show ?thesis by (auto simp: dirs_created_refl)
  next
    case True
    define fs1 where "fs1 = fs(?loc \<mapsto> DirNode)"
    have run: "parent_dirs de base (cur @ [s]) cs fs1 = (res, fs')"
    proof (cases "fs ?loc")
      case None
      then show ?thesis using 3(3) True plain by (simp add: symlink_metadata_plain create_dir_plain fs1_def)
    next
      case (Some n)
      then have "fs1 = fs" using True by (auto simp: fs1_def)
      then show ?thesis using 3(3) True plain Some by (simp add: symlink_metadata_plain)
    qed
    have plain1: "plain_dirs fs1 (base) (cur @ [s])"
    proof (cases "fs ?loc")
      case None
      then show ?thesis using plain_dirs_mono [OF plain None] by (simp add: fs1_def)
    next
      case (Some n)
      then have "fs1 = fs" using True by (auto simp: fs1_def)
      then show ?thesis using plain True Some by simp
    qed
    have ih: "dirs_created (base @ cur @ [s]) (normals cs) fs1 fs'
        \<and> (if res = Ok () then plain_dirs fs' (base) (cur @ s # normals cs) else True)"
    proof (cases "fs ?loc")
      case None
      then have "(Ok (), fs1) = create_dir fs (base) (map Normal (cur @ [s]))"
        using True plain by (simp add: create_dir_plain fs1_def)
      from 3(1) [OF _ refl this refl run plain1] None True plain show ?thesis by (simp add: symlink_metadata_plain split: if_splits)
    next
      case (Some n)
      then have "fs1 = fs" using True by (auto simp: fs1_def)
      then show ?thesis using 3(2) [OF _ refl] Some True plain run plain1 by (simp add: symlink_metadata_plain split: if_splits)
    qed
    have "dirs_created (base @ cur) (s # normals cs) fs fs'"
      unfolding dirs_created_def
    proof
      fix loc
      show "fs' loc = fs loc \<or> fs loc = None \<and> fs' loc = Some DirNode \<and> (\<exists>k < length (s # normals cs). loc = (base @ cur) @ take (Suc k) (s # normals cs))"
      proof (cases "fs' loc = fs1 loc")
        case True
        then show ?thesis using \<open>is_dir fs _ \<and> _\<close> by (cases "loc = ?loc") (auto simp: fs1_def intro: exI [of _ 0])
      next
        case False
        then obtain k where k: "k < length (normals cs)" "loc = ?loc @ take (Suc k) (normals cs)" "fs1 loc = None" "fs' loc = Some DirNode"
          using ih by (auto simp: dirs_created_def)
        then show ?thesis by (auto simp: fs1_def split: if_splits intro: exI [of _ "Suc k"])
      qed
    qed
    then show ?thesis using ih by simp
  qed
qed (auto simp: dirs_created_refl)

subsection \<open>Safe paths\<close>

lemma descending_append [simp]: "descending (xs @ ys) \<longleftrightarrow> descending xs \<and> descending ys"
  by (simp add: descending_def)

lemma descending_split:
  "descending cs \<Longrightarrow> normals cs \<noteq> [] \<Longrightarrow>
    \<exists>pre s dots. cs = pre @ Normal s # dots \<and> list_all (\<lambda>c. c = CurDir) dots \<and> normals cs = normals pre @ [s] \<and> descending pre"
proof (induction cs rule: rev_induct)
  case (snoc c cs)
  show ?case
  proof (cases c)
    case (Normal s)
    then show ?thesis using snoc.prems(1) by (intro exI [of _ cs] exI [of _ s] exI [of _ "[]"]) simp
  next
    case CurDir
    then obtain pre s dots where "cs = pre @ Normal s # dots" "list_all (\<lambda>c. c = CurDir) dots" "normals cs = normals pre @ [s]" "descending pre"
      using snoc by auto
    then show ?thesis using CurDir by (intro exI [of _ pre] exI [of _ s] exI [of _ "dots @ [c]"]) simp
  qed (use snoc.prems in \<open>auto simp: descending_def\<close>)
qed simp

text \<open>A relative path of names, without \<open>..\<close>; both validators accept only these.\<close>

definition plain_rel :: "str \<Rightarrow> bool" where
  "plain_rel rel \<longleftrightarrow> descending (components rel) \<and> normals (components rel) \<noteq> []"

lemma plain_rel_components:
  assumes "plain_rel rel"
  defines "names \<equiv> normals (components rel)"
  shows "names \<noteq> []" "descending (components rel)" "normals (butlast (components rel)) = butlast names"
    "descending (kernel_components rel)" "normals (kernel_components rel) = names" "components rel \<noteq> []" "last (components rel) \<noteq> RootDir"
proof -
  let ?segs = "split_on (CHR ''/'') rel"
  define ns where "ns = filter (\<lambda>s. s \<noteq> [] \<and> s \<noteq> ''.'') ?segs"
  have no_root: "RootDir \<notin> set (components rel)" "ParentDir \<notin> set (components rel)"
    using assms(1) by (auto simp: plain_rel_def descending_def list_all_iff)
  have rel: "\<not> is_absolute rel" using no_root(1) by (auto simp: components_def is_absolute_def Let_def)
  have dots: "''..'' \<notin> set ?segs"
    using no_root(2) unfolding components_relative [OF rel] concat_seg_component by (auto simp: image_iff)
  have comps: "components rel = (if hd ?segs = ''.'' then [CurDir] else []) @ map Normal ns"
    using dots unfolding components_relative [OF rel] concat_seg_component ns_def by auto
  show names: "names \<noteq> []" "descending (components rel)" using assms(1) by (simp_all add: plain_rel_def names_def)
  then have ne: "ns \<noteq> []" unfolding names_def comps by auto
  show "normals (butlast (components rel)) = butlast names"
    using ne unfolding names_def comps by (auto simp: butlast_append map_butlast [symmetric])
  show "components rel \<noteq> []" "last (components rel) \<noteq> RootDir" using ne unfolding comps by (auto simp: last_map)
  have "descending (map kernel_component xs) \<and> normals (map kernel_component xs) = filter (\<lambda>s. s \<noteq> [] \<and> s \<noteq> ''.'') xs"
    if "''..'' \<notin> set xs" "[] \<notin> set xs" for xs
    using that by (induction xs) (auto simp: descending_def kernel_component_def)
  from this [of "filter (\<lambda>s. s \<noteq> []) ?segs"] rel dots
  have kc: "descending (kernel_components rel) \<and> normals (kernel_components rel) = ns"
    by (simp add: kernel_components_def ns_def conj_commute) (simp add: descending_def)
  moreover have "names = ns" by (simp add: names_def comps)
  ultimately show "descending (kernel_components rel)" "normals (kernel_components rel) = names" by auto
qed

lemma normals_nonempty: "Normal s \<in> set cs \<Longrightarrow> normals cs \<noteq> []"
  by (induction cs rule: normals.induct) auto

lemma safe_rel_plain: "reject_unsafe_rel rel = Ok () \<Longrightarrow> plain_rel rel"
proof -
  assume safe: "reject_unsafe_rel rel = Ok ()"
  then have "c \<noteq> RootDir \<and> c \<noteq> ParentDir" if "c \<in> set (components rel)" for c
    using that by (auto simp: reject_unsafe_rel_def list_ex_iff split: if_splits)
  then have "list_all (\<lambda>c. c = CurDir \<or> (\<exists>s. c = Normal s)) (components rel)"
    unfolding list_all_iff by (metis component.exhaust)
  moreover have "\<exists>s. Normal s \<in> set (components rel)"
  proof -
    have "list_ex (\<lambda>c. case c of Normal _ \<Rightarrow> True | _ \<Rightarrow> False) (components rel)"
      using safe by (auto simp: reject_unsafe_rel_def split: if_splits)
    then obtain c where "c \<in> set (components rel)" "case c of Normal _ \<Rightarrow> True | _ \<Rightarrow> False" unfolding list_ex_iff by blast
    moreover from this(2) obtain s where "c = Normal s" by (cases c) auto
    ultimately show ?thesis by blast
  qed
  then have "normals (components rel) \<noteq> []" by (metis normals_nonempty)
  ultimately show ?thesis by (simp add: plain_rel_def descending_def)
qed

text \<open>A lookup that ends in \<open>.\<close> ends in a directory.\<close>

lemma resolve_dot_dir:
  "resolve_path fs create links cur cs = Ok loc \<Longrightarrow> is_dir fs cur \<Longrightarrow> cs = [] \<or> last cs = CurDir \<Longrightarrow> is_dir fs loc"
proof (induction fs create links cur cs rule: resolve_path.induct)
  case (5 fs create links cur s cs)
  then have ne: "cs \<noteq> []" "last cs = CurDir" by (auto split: if_splits)
  show ?case
  proof (cases "fs (cur @ [s])")
    case None
    then show ?thesis using 5 ne by simp
  next
    case (Some n)
    then show ?thesis using 5 ne by (cases n) (auto simp: is_dir_def split: nat.splits)
  qed
qed (auto simp: is_dir_def split: if_splits)

subsection \<open>Writing\<close>

text \<open>The last name, with and without a trailing dot, below directories that are all plain.\<close>

lemma metadata_write_plain:
  assumes pre: "descending pre" "plain_dirs fs base (normals pre)" and base: "is_dir fs base"
  shows "symlink_metadata fs base (pre @ [Normal s]) = (case fs (base @ normals pre @ [s]) of None \<Rightarrow> Err NotFound | Some n \<Rightarrow> Ok n)"
    "fs (base @ normals pre @ [s]) \<in> {None, Some (FileNode b)} \<Longrightarrow>
      write_path fs base (pre @ [Normal s]) bytes = (Ok (), fs(base @ normals pre @ [s] \<mapsto> FileNode bytes))"
    "fs (base @ normals pre @ [s]) = Some (FileNode b) \<Longrightarrow> read_path fs base (pre @ [Normal s]) = Ok b"
  using pre plain_dirs_is_dir [OF pre(2) base]
  by (auto simp: symlink_metadata_def resolve_parent_plain write_path_def read_path_def resolve_plain_append is_dir_def)

lemma metadata_write_dots:
  assumes base: "is_dir fs base" and dots: "last cs = CurDir" "cs \<noteq> []"
  shows "symlink_metadata fs base cs = Ok n \<Longrightarrow> n = DirNode" "\<exists>e. write_path fs base cs bytes = (Err e, fs)"
  using resolve_dot_dir [of fs False MAX_LINKS base cs] resolve_dot_dir [of fs True MAX_LINKS base cs] base dots
  by (auto simp: symlink_metadata_def write_path_def split: sum.splits if_splits)

lemma read_dest_plain:
  assumes "plain_rel rel" "is_dir fs base" "plain_dirs fs base (butlast (normals (components rel)))"
    and meta: "symlink_metadata fs base (kernel_components rel) = Ok (FileNode b)"
    and read: "read_path fs base (kernel_components rel) = Ok b'"
  shows "fs (base @ normals (components rel)) = Some (FileNode b')"
proof -
  note safe = plain_rel_components [OF assms(1)]
  obtain pre s dots where ks: "kernel_components rel = pre @ Normal s # dots" "list_all (\<lambda>c. c = CurDir) dots"
      "normals (components rel) = normals pre @ [s]" "descending pre"
    using descending_split [OF safe(4)] safe(1,5) by auto
  have plain: "plain_dirs fs base (normals pre)" using assms(3) ks(3) by simp
  show ?thesis
  proof (cases "dots = []")
    case True
    have "fs (base @ normals pre @ [s]) = Some (FileNode b)"
      using meta metadata_write_plain(1) [OF ks(4) plain assms(2), of s] ks(1) True by (auto split: option.splits)
    then show ?thesis using read ks(1,3) True metadata_write_plain(3) [OF ks(4) plain assms(2), of s b] by simp
  next
    case False
    then have "last (kernel_components rel) = CurDir" using ks(1,2) by (auto simp: list_all_iff)
    then show ?thesis using metadata_write_dots(1) [OF assms(2) _ _ meta] ks(1) by simp
  qed
qed

lemma confined_change_keeps:
  assumes "confined_change base ns b fs fs'" "fs (base @ ns') = Some (FileNode b')" "ns' \<noteq> ns"
  shows "fs' (base @ ns') = Some (FileNode b')"
proof (rule ccontr)
  assume "fs' (base @ ns') \<noteq> Some (FileNode b')"
  then obtain k where "k < length ns" "ns' = take (Suc k) ns" "Suc k \<noteq> length ns \<longrightarrow> fs (base @ ns') = None"
    using assms(1,2) unfolding confined_change_def by (metis same_append_eq)
  then show False using assms(2,3) by (metis option.distinct(1) take_all order_refl)
qed

lemma confined_change_dir: "confined_change base ns b fs fs' \<Longrightarrow> is_dir fs loc \<Longrightarrow> is_dir fs' loc"
  unfolding confined_change_def is_dir_def by (metis fs_node.distinct(1) option.inject option.distinct(1))

end
