(* ===== verification/Checkout.thy ===== *)
theory Checkout
  imports Confine Intake Report
begin

text \<open>
  \<open>jitgen-orchestrator/src/checkout.rs\<close>: the paths of a tree, the caps, writing the files of a
  revision into an overlay, and the confined writer. An overlay is the text of its path with the
  directory it names; libgit2's walk of a tree is a parameter.
\<close>

section \<open>The code\<close>

definition MAX_CHECKOUT_FILES :: nat where "MAX_CHECKOUT_FILES = 50000"
definition MAX_CHECKOUT_TREE_ENTRIES :: nat where "MAX_CHECKOUT_TREE_ENTRIES = 2000000"
definition MAX_CHECKOUT_BLOB_BYTES :: nat where "MAX_CHECKOUT_BLOB_BYTES = 64 * 1024 * 1024"
definition MAX_CHECKOUT_TOTAL_BYTES :: nat where "MAX_CHECKOUT_TOTAL_BYTES = 2 * 1024 * 1024 * 1024"

record checkout_caps =
  cc_per_file_bytes :: nat
  cc_total_bytes :: nat
  cc_materialized_files :: nat
  cc_tree_entries :: nat

definition production_caps :: checkout_caps where
  "production_caps = \<lparr>cc_per_file_bytes = MAX_CHECKOUT_BLOB_BYTES, cc_total_bytes = MAX_CHECKOUT_TOTAL_BYTES,
     cc_materialized_files = MAX_CHECKOUT_FILES, cc_tree_entries = MAX_CHECKOUT_TREE_ENTRIES\<rparr>"

subsection \<open>The paths of a tree\<close>

text \<open>An entry of the walk: the directory, the name when it is UTF-8, and the kind.\<close>

record tree_entry =
  te_dir :: str
  te_name :: "str option"
  te_kind :: "object_kind option"

text \<open>The callback over the entries: whether a cap was exceeded, and the paths.\<close>

datatype walk_end = TooManyEntries | TooManyFiles | Walked "str list"

fun walk_entries :: "nat \<Rightarrow> nat \<Rightarrow> bool \<Rightarrow> tree_entry list \<Rightarrow> nat \<Rightarrow> str list \<Rightarrow> walk_end" where
  "walk_entries file_cap entry_cap reject_unsafe [] raw_entries paths = Walked paths"
| "walk_entries file_cap entry_cap reject_unsafe (e # es) raw_entries paths =
     (if entry_cap < raw_entries + 1 then TooManyEntries
      else case te_name e of
        None \<Rightarrow> walk_entries file_cap entry_cap reject_unsafe es (raw_entries + 1) paths
      | Some name \<Rightarrow>
          let rel = te_dir e @ name in
          if te_kind e = Some Blob \<and> \<not> is_ignored rel \<and> (\<not> reject_unsafe \<or> reject_unsafe_rel rel = Ok ())
          then (if file_cap < length (paths @ [rel]) then TooManyFiles
                else walk_entries file_cap entry_cap reject_unsafe es (raw_entries + 1) (paths @ [rel]))
          else walk_entries file_cap entry_cap reject_unsafe es (raw_entries + 1) paths)"

text \<open>The walk: an error of finding the tree, or the entries and the error the walk itself ends with.\<close>

type_synonym 'oid tree_walk = "'oid \<Rightarrow> str + tree_entry list \<times> str option"

definition collect_blob_paths ::
  "'oid tree_walk \<Rightarrow> 'oid \<Rightarrow> str \<Rightarrow> nat \<Rightarrow> nat \<Rightarrow> bool \<Rightarrow> orch_error + str list" where
  "collect_blob_paths tw oid label file_cap entry_cap reject_unsafe =
     (case tw oid of
        Err e \<Rightarrow> Err (OrGit2 e)
      | Ok (entries, fail) \<Rightarrow>
          (case walk_entries file_cap entry_cap reject_unsafe entries 0 [] of
             TooManyEntries \<Rightarrow> Err (OrInvalid label (''tree walk exceeds the '' @ show_nat entry_cap @ ''-entry checkout cap''))
           | TooManyFiles \<Rightarrow> Err (OrInvalid label (''tree exceeds the '' @ show_nat file_cap @ ''-file checkout cap''))
           | Walked paths \<Rightarrow> (case fail of Some e \<Rightarrow> Err (OrGit2 e) | None \<Rightarrow> Ok paths)))"

definition list_tree_paths :: "'oid tree_walk \<Rightarrow> 'oid \<Rightarrow> orch_error + str list" where
  "list_tree_paths tw oid = collect_blob_paths tw oid ''snapshot'' MAX_CHECKOUT_FILES MAX_CHECKOUT_TREE_ENTRIES False"

subsection \<open>The confined writer\<close>

record overlay_root =
  ov_text :: str
  ov_loc :: "str list"

definition overlay_display :: "overlay_root \<Rightarrow> str list \<Rightarrow> str" where
  "overlay_display ov ns = path_join (ov_text ov) (join ''/'' ns)"

definition symlink_err :: "str \<Rightarrow> orch_error" where
  "symlink_err p = OrInvalid ''overlay path'' (''refusing to follow symlink at '' @ p)"

definition checkout_dir_errors :: "overlay_root \<Rightarrow> str \<Rightarrow> orch_error dir_errors" where
  "checkout_dir_errors ov rel =
     \<lparr>de_link = (\<lambda>ns. symlink_err (overlay_display ov ns)),
      de_other = (\<lambda>ns. OrInvalid ''overlay path'' (''non-directory component at '' @ overlay_display ov ns)),
      de_io = (\<lambda>e _. OrIo (show_io e)), de_component = OrInvalid ''overlay path'' rel\<rparr>"

definition create_parents :: "overlay_root \<Rightarrow> str \<Rightarrow> filesys \<Rightarrow> (orch_error + unit) \<times> filesys" where
  "create_parents ov rel fs =
     (case comps_parent (components rel) of
        None \<Rightarrow> (Ok (), fs)
      | Some parent \<Rightarrow> parent_dirs (checkout_dir_errors ov rel) (ov_loc ov) [] parent fs)"

definition write_dest :: "overlay_root \<Rightarrow> str \<Rightarrow> str \<Rightarrow> filesys \<Rightarrow> (orch_error + unit) \<times> filesys" where
  "write_dest ov rel bytes fs =
     (case write_path fs (ov_loc ov) (kernel_components rel) bytes of
        (Err e, fs) \<Rightarrow> (Err (OrIo (show_io e)), fs)
      | (Ok _, fs) \<Rightarrow> (Ok (), fs))"

definition write_confined :: "overlay_root \<Rightarrow> str \<Rightarrow> str \<Rightarrow> filesys \<Rightarrow> (orch_error + unit) \<times> filesys" where
  "write_confined ov rel bytes fs =
     (case create_parents ov rel fs of
        (Err e, fs) \<Rightarrow> (Err e, fs)
      | (Ok _, fs) \<Rightarrow>
          (let dest = path_join (ov_text ov) rel in
           (case symlink_metadata fs (ov_loc ov) (kernel_components rel) of
              Ok (LinkNode _) \<Rightarrow> (Err (symlink_err dest), fs)
            | Ok (FileNode old) \<Rightarrow>
                if length old = length bytes then
                  (case read_path fs (ov_loc ov) (kernel_components rel) of
                     Err e \<Rightarrow> (Err (OrIo (show_io e)), fs)
                   | Ok old \<Rightarrow> if old = bytes then (Ok (), fs) else write_dest ov rel bytes fs)
                else write_dest ov rel bytes fs
            | Ok _ \<Rightarrow> (Err (OrInvalid ''overlay'' (''non-regular file blocks checkout at '' @ dest)), fs)
            | Err NotFound \<Rightarrow> write_dest ov rel bytes fs
            | Err e \<Rightarrow> (Err (OrIo (show_io e)), fs))))"

definition write_file :: "overlay_root \<Rightarrow> str \<Rightarrow> str \<Rightarrow> filesys \<Rightarrow> (orch_error + unit) \<times> filesys" where
  "write_file ov rel bytes fs =
     (case reject_unsafe_rel rel of Err e \<Rightarrow> (Err (OrGit e), fs) | Ok _ \<Rightarrow> write_confined ov rel bytes fs)"

definition read_overlay_file :: "overlay_root \<Rightarrow> str \<Rightarrow> filesys \<Rightarrow> orch_error + str option" where
  "read_overlay_file ov rel fs =
     (case reject_unsafe_rel rel of Err e \<Rightarrow> Err (OrGit e) | Ok _ \<Rightarrow>
      (case symlink_metadata fs (ov_loc ov) (kernel_components rel) of
         Ok (LinkNode _) \<Rightarrow> Err (symlink_err (path_join (ov_text ov) rel))
       | Ok (FileNode _) \<Rightarrow>
           (case read_path fs (ov_loc ov) (kernel_components rel) of
              Err e \<Rightarrow> Err (OrIo (show_io e)) | Ok b \<Rightarrow> Ok (Some b))
       | Ok _ \<Rightarrow> Ok None
       | Err NotFound \<Rightarrow> Ok None
       | Err e \<Rightarrow> Err (OrIo (show_io e))))"

subsection \<open>Checkout\<close>

definition safe_path_for_error :: "str \<Rightarrow> str" where
  "safe_path_for_error rel = map (\<lambda>c. if c = LF \<or> c = TAB then CHR '' '' else c) (sanitize rel 256)"

fun checkout_files ::
  "'oid repo \<Rightarrow> 'oid \<Rightarrow> overlay_root \<Rightarrow> checkout_caps \<Rightarrow> str list \<Rightarrow> nat \<Rightarrow> nat \<Rightarrow> filesys
    \<Rightarrow> (orch_error + nat) \<times> filesys" where
  "checkout_files r oid ov caps [] written acc fs = (Ok written, fs)"
| "checkout_files r oid ov caps (rel # rels) written acc fs =
     (case blob_size_at r oid rel of
        Err e \<Rightarrow> (Err (OrGit e), fs)
      | Ok None \<Rightarrow> checkout_files r oid ov caps rels written acc fs
      | Ok (Some sz) \<Rightarrow>
          if cc_per_file_bytes caps < sz
          then (Err (OrInvalid ''overlay'' (''file is '' @ show_nat sz @ '' bytes, exceeding the ''
                  @ show_nat (cc_per_file_bytes caps) @ ''-byte per-file checkout cap (at '' @ safe_path_for_error rel @ '')'')), fs)
          else let acc = min (acc + sz) (2 ^ 64 - 1) in
          if cc_total_bytes caps < acc
          then (Err (OrInvalid ''overlay'' (''checkout total exceeds the '' @ show_nat (cc_total_bytes caps)
                  @ ''-byte checkout cap (at '' @ safe_path_for_error rel @ '')'')), fs)
          else (case read_blob_at_capped r oid rel (cc_per_file_bytes caps) of
                  Err e \<Rightarrow> (Err (OrGit e), fs)
                | Ok None \<Rightarrow> checkout_files r oid ov caps rels written acc fs
                | Ok (Some bytes) \<Rightarrow>
                    (case write_confined ov rel bytes fs of
                       (Err e, fs) \<Rightarrow> (Err e, fs)
                     | (Ok _, fs) \<Rightarrow> checkout_files r oid ov caps rels (written + 1) acc fs)))"

definition checkout_revision_with_caps ::
  "'oid repo \<Rightarrow> 'oid tree_walk \<Rightarrow> 'oid \<Rightarrow> overlay_root \<Rightarrow> checkout_caps \<Rightarrow> filesys \<Rightarrow> (orch_error + nat) \<times> filesys" where
  "checkout_revision_with_caps r tw oid ov caps fs =
     (case collect_blob_paths tw oid ''overlay'' (cc_materialized_files caps) (cc_tree_entries caps) True of
        Err e \<Rightarrow> (Err e, fs)
      | Ok paths \<Rightarrow> checkout_files r oid ov caps paths 0 0 fs)"

definition checkout_revision ::
  "'oid repo \<Rightarrow> 'oid tree_walk \<Rightarrow> 'oid \<Rightarrow> overlay_root \<Rightarrow> filesys \<Rightarrow> (orch_error + nat) \<times> filesys" where
  "checkout_revision r tw oid ov fs = checkout_revision_with_caps r tw oid ov production_caps fs"

section \<open>Lemmas\<close>

lemma write_dest_plain:
  assumes "plain_rel rel" "is_dir fs (ov_loc ov)" "plain_dirs fs (ov_loc ov) (butlast (normals (components rel)))"
    and meta: "symlink_metadata fs (ov_loc ov) (kernel_components rel) \<in> {Err NotFound, Ok (FileNode b)}"
    and run: "write_dest ov rel bytes fs = (res, fs')"
  shows "(if res = Ok () then fs' = fs(ov_loc ov @ normals (components rel) \<mapsto> FileNode bytes)
      \<and> fs (ov_loc ov @ normals (components rel)) \<in> {None, Some (FileNode b)} else fs' = fs)"
proof -
  note safe = plain_rel_components [OF assms(1)]
  obtain pre s dots where ks: "kernel_components rel = pre @ Normal s # dots" "list_all (\<lambda>c. c = CurDir) dots"
      "normals (components rel) = normals pre @ [s]" "descending pre"
    using descending_split [OF safe(4)] safe(1,5) by auto
  have plain: "plain_dirs fs (ov_loc ov) (normals pre)" using assms(3) ks(3) by simp
  show ?thesis
  proof (cases "dots = []")
    case True
    have "fs (ov_loc ov @ normals pre @ [s]) \<in> {None, Some (FileNode b)}"
      using meta metadata_write_plain(1) [OF ks(4) plain assms(2), of s] ks(1) True by (auto split: option.splits)
    then show ?thesis
      using run ks(1,3) True metadata_write_plain(2) [OF ks(4) plain assms(2), of s b bytes] by (auto simp: write_dest_def)
  next
    case False
    then have "last (kernel_components rel) = CurDir" using ks(1,2) by (auto simp: list_all_iff)
    from metadata_write_dots(2) [OF assms(2) this] ks(1) obtain e where "write_path fs (ov_loc ov) (kernel_components rel) bytes = (Err e, fs)" by auto
    then show ?thesis using run by (auto simp: write_dest_def)
  qed
qed

lemma write_confined_effect:
  assumes safe: "plain_rel rel" and base: "is_dir fs (ov_loc ov)" and run: "write_confined ov rel bytes fs = (res, fs')"
  shows "confined_change (ov_loc ov) (normals (components rel)) bytes fs fs' \<and>
    (if res = Ok () then plain_dirs fs' (ov_loc ov) (butlast (normals (components rel)))
       \<and> fs' (ov_loc ov @ normals (components rel)) = Some (FileNode bytes) else True)"
proof -
  let ?ns = "normals (components rel)" and ?base = "ov_loc ov"
  note comps = plain_rel_components [OF safe]
  have parent: "comps_parent (components rel) = Some (butlast (components rel))"
    using comps(6,7) by (simp add: comps_parent_def)
  obtain r1 fs1 where cp: "create_parents ov rel fs = (r1, fs1)" by (cases "create_parents ov rel fs")
  then have "parent_dirs (checkout_dir_errors ov rel) (ov_loc ov) [] (butlast (components rel)) fs = (r1, fs1)" using parent by (simp add: create_parents_def)
  from parent_dirs_confined [OF this] comps(3)
  have dirs: "dirs_created ?base (butlast ?ns) fs fs1" "r1 = Ok () \<Longrightarrow> plain_dirs fs1 ?base (butlast ?ns)" by auto
  have take_last: "take (Suc k) (butlast ?ns) = take (Suc k) ?ns" if "k < length (butlast ?ns)" for k
    using that by (simp add: take_butlast)
  have only_dirs: "confined_change ?base ?ns bytes fs fs1"
    unfolding confined_change_def
  proof
    fix loc
    show "fs1 loc = fs loc \<or> (\<exists>k < length ?ns. loc = ?base @ take (Suc k) ?ns \<and>
        (if Suc k = length ?ns then fs1 loc = Some (FileNode bytes) \<and> (fs loc = None \<or> (\<exists>b. fs loc = Some (FileNode b)))
         else fs1 loc = Some DirNode \<and> fs loc = None))"
    proof (cases "fs1 loc = fs loc")
      case False
      then obtain k where "k < length (butlast ?ns)" "loc = ?base @ take (Suc k) (butlast ?ns)" "fs loc = None" "fs1 loc = Some DirNode"
        using dirs(1) unfolding dirs_created_def by blast
      then show ?thesis using take_last by (intro disjI2 exI [of _ k]) auto
    qed simp
  qed
  have base1: "is_dir fs1 ?base" using base dirs(1) by (auto simp: dirs_created_def is_dir_def) metis
  have longer: "?base @ ?ns \<noteq> ?base @ take (Suc k) (butlast ?ns)" for k
  proof
    assume "?base @ ?ns = ?base @ take (Suc k) (butlast ?ns)"
    then have "length ?ns = length (take (Suc k) (butlast ?ns))" by (metis same_append_eq)
    then show False using comps(1) by (cases ?ns) (auto simp: min_def split: if_splits)
  qed
  have file1: "fs1 (?base @ ?ns) = fs (?base @ ?ns)"
    using dirs(1) longer unfolding dirs_created_def by blast
  have written: ?thesis if "res = Ok ()" "fs' = fs1(?base @ ?ns \<mapsto> FileNode bytes)" "fs1 (?base @ ?ns) \<in> {None, Some (FileNode b)}" "r1 = Ok ()" for b
  proof
    show "confined_change ?base ?ns bytes fs fs'"
      unfolding confined_change_def
    proof
      fix loc
      show "fs' loc = fs loc \<or> (\<exists>k < length ?ns. loc = ?base @ take (Suc k) ?ns \<and>
        (if Suc k = length ?ns then fs' loc = Some (FileNode bytes) \<and> (fs loc = None \<or> (\<exists>b. fs loc = Some (FileNode b)))
         else fs' loc = Some DirNode \<and> fs loc = None))"
      proof (cases "loc = ?base @ ?ns")
        case True
        then show ?thesis using comps(1) that file1 by (intro disjI2 exI [of _ "length ?ns - 1"]) (auto simp: Suc_diff_1)
      next
        case False
        then show ?thesis using only_dirs that(2) unfolding confined_change_def by (metis fun_upd_other)
      qed
    qed
    have "plain_dirs fs' ?base (butlast ?ns)"
      using dirs(2) [OF that(4)] longer unfolding plain_dirs_def that(2) by (metis fun_upd_other)
    then show "if res = Ok () then plain_dirs fs' ?base (butlast ?ns) \<and> fs' (?base @ ?ns) = Some (FileNode bytes) else True"
      using that(2) by simp
  qed
  show ?thesis
  proof (cases r1)
    case (Inl e)
    then show ?thesis using run cp only_dirs by (auto simp: write_confined_def)
  next
    case (Inr u)
    then have ok: "r1 = Ok ()" by simp
    let ?meta = "symlink_metadata fs1 ?base (kernel_components rel)"
    have dest: ?thesis if "write_dest ov rel bytes fs1 = (res, fs')" "?meta \<in> {Err NotFound, Ok (FileNode b)}" for b
    proof (cases "res = Ok ()")
      case True
      then show ?thesis using write_dest_plain [OF safe base1 dirs(2) [OF ok] that(2,1)] written [of b] ok by auto
    next
      case False
      then show ?thesis using write_dest_plain [OF safe base1 dirs(2) [OF ok] that(2,1)] only_dirs by auto
    qed
    consider (absent) "?meta = Err NotFound" | (regular) old where "?meta = Ok (FileNode old)"
      | (other) "\<forall>old. ?meta \<noteq> Ok (FileNode old)" "?meta \<noteq> Err NotFound" by metis
    then show ?thesis
    proof cases
      case absent
      then show ?thesis using run cp ok dest by (simp add: write_confined_def)
    next
      case regular
      show ?thesis
      proof (cases "length old = length bytes \<and> read_path fs1 ?base (kernel_components rel) = Ok bytes")
        case True
        then have "fs1 (?base @ ?ns) = Some (FileNode bytes)"
          using read_dest_plain [OF safe base1 dirs(2) [OF ok] regular] by auto
        moreover have "res = Ok ()" "fs' = fs1" using run cp ok regular True by (auto simp: write_confined_def)
        ultimately show ?thesis using written [of bytes] ok by (metis fun_upd_triv insert_iff)
      next
        case False
        then show ?thesis using run cp ok regular dest [of old] only_dirs
          by (auto simp: write_confined_def split: if_splits sum.splits)
      qed
    next
      case other
      then have "res \<noteq> Ok () \<and> fs' = fs1"
      proof (cases ?meta)
        case (Inl e)
        then show ?thesis using other run cp ok by (cases e) (auto simp: write_confined_def Let_def)
      next
        case (Inr n)
        then show ?thesis using other run cp ok by (cases n) (auto simp: write_confined_def Let_def)
      qed
      then show ?thesis using only_dirs by simp
    qed
  qed
qed

subsection \<open>Checkout\<close>

text \<open>What a sequence of writes can have changed: directories and the files of the list, below the root.\<close>

definition wrote :: "str list \<Rightarrow> (str \<times> str) list \<Rightarrow> filesys \<Rightarrow> filesys \<Rightarrow> bool" where
  "wrote base ws fs fs' \<longleftrightarrow>
     (\<forall>loc. fs' loc = fs loc \<or> (\<exists>rel b k. (rel, b) \<in> set ws \<and> k < length (normals (components rel))
        \<and> loc = base @ take (Suc k) (normals (components rel)) \<and> fs' loc \<in> {Some DirNode, Some (FileNode b)}))"

definition written_bytes :: "(str \<times> str) list \<Rightarrow> nat" where
  "written_bytes ws = sum_list (map (\<lambda>(rel, b). length b) ws)"

definition blob_write :: "'oid repo \<Rightarrow> 'oid \<Rightarrow> nat \<Rightarrow> str \<times> str \<Rightarrow> bool" where
  "blob_write r oid limit w \<longleftrightarrow> path_ok (fst w) \<and> length (snd w) \<le> limit
     \<and> read_blob_at_capped r oid (fst w) limit = Ok (Some (snd w))"

lemma wrote_refl: "wrote base [] fs fs"
  by (simp add: wrote_def)

lemma wrote_one: "confined_change base (normals (components rel)) b fs fs' \<Longrightarrow> wrote base [(rel, b)] fs fs'"
  unfolding wrote_def
proof
  fix loc
  assume change: "confined_change base (normals (components rel)) b fs fs'"
  show "fs' loc = fs loc \<or> (\<exists>rel' b' k. (rel', b') \<in> set [(rel, b)] \<and> k < length (normals (components rel'))
      \<and> loc = base @ take (Suc k) (normals (components rel')) \<and> fs' loc \<in> {Some DirNode, Some (FileNode b')})"
  proof (cases "fs' loc = fs loc")
    case False
    then obtain k where "k < length (normals (components rel))" "loc = base @ take (Suc k) (normals (components rel))"
        "fs' loc \<in> {Some DirNode, Some (FileNode b)}"
      using change unfolding confined_change_def by (metis insertCI)
    then show ?thesis by (intro disjI2 exI [of _ rel] exI [of _ b] exI [of _ k]) simp
  qed simp
qed

lemma wrote_append: "wrote base ws fs fs1 \<Longrightarrow> wrote base ws' fs1 fs' \<Longrightarrow> wrote base (ws @ ws') fs fs'"
  unfolding wrote_def by (metis Un_iff set_append)

text \<open>The size in the object header is the length of the blob.\<close>

definition sizes_agree :: "'oid repo \<Rightarrow> bool" where
  "sizes_agree r \<longleftrightarrow> (\<forall>b n content. rp_header r b = Ok n \<longrightarrow> rp_blob r b = Ok content \<longrightarrow> n = length content)"

lemma capped_length:
  assumes "sizes_agree r" "read_blob_at_capped r oid rel limit = Ok (Some b)"
  shows "blob_size_at r oid rel = Ok (Some (length b)) \<and> length b \<le> limit"
  using assms by (auto simp: read_blob_at_capped_def blob_size_at_def sizes_agree_def split: sum.splits option.splits if_splits)

lemma walk_entries_ok:
  "walk_entries file_cap entry_cap True es n paths = Walked out \<Longrightarrow> list_all path_ok paths \<Longrightarrow> length paths \<le> file_cap
    \<Longrightarrow> list_all path_ok out \<and> length out \<le> file_cap"
  by (induction es arbitrary: n paths) (auto simp: path_ok_def Let_def split: if_splits option.splits)

lemma checkout_files_effect:
  "checkout_files r oid ov caps rels written acc fs = (res, fs') \<Longrightarrow> is_dir fs (ov_loc ov) \<Longrightarrow> sizes_agree r
    \<Longrightarrow> list_all path_ok rels \<Longrightarrow> acc \<le> cc_total_bytes caps \<Longrightarrow> cc_total_bytes caps < 2 ^ 64 - 1 \<Longrightarrow>
    \<exists>ws. wrote (ov_loc ov) ws fs fs' \<and> length ws \<le> length rels \<and> acc + written_bytes ws \<le> cc_total_bytes caps
      \<and> list_all (blob_write r oid (cc_per_file_bytes caps)) ws
      \<and> (case res of Ok n \<Rightarrow> n = written + length ws | Err _ \<Rightarrow> True)"
proof (induction rels arbitrary: written acc fs)
  case Nil
  then show ?case by (intro exI [of _ "[]"]) (auto simp: wrote_refl written_bytes_def)
next
  case (Cons rel rels)
  have stop: ?case if "fs' = fs" "\<exists>e. res = Err e"
    using that Cons.prems(5) by (intro exI [of _ "[]"]) (auto simp: wrote_refl written_bytes_def)
  have nil: "written_bytes [] = 0" "written_bytes ((p, b) # ws) = length b + written_bytes ws" for p b ws
    by (simp_all add: written_bytes_def)
  have skip: ?case if again: "checkout_files r oid ov caps rels written acc' fs = (res, fs')" and le: "acc \<le> acc'" and bound: "acc' \<le> cc_total_bytes caps" for acc'
  proof -
    have ok: "list_all path_ok rels" using Cons.prems(4) by simp
    obtain ws where ws: "wrote (ov_loc ov) ws fs fs'" "length ws \<le> length rels" "acc' + written_bytes ws \<le> cc_total_bytes caps"
        "list_all (blob_write r oid (cc_per_file_bytes caps)) ws" "case res of Ok n \<Rightarrow> n = written + length ws | Err _ \<Rightarrow> True"
      using Cons.IH [OF again Cons.prems(2,3) ok bound Cons.prems(6)] by blast
    then show ?thesis using le by (intro exI [of _ ws]) simp
  qed
  show ?case
  proof (cases "\<exists>sz. blob_size_at r oid rel = Ok (Some sz) \<and> sz \<le> cc_per_file_bytes caps \<and> acc + sz \<le> cc_total_bytes caps")
    case False
    then show ?thesis
      using Cons.prems(1,5,6) stop skip [of acc] by (auto simp: Let_def min_def split: sum.splits option.splits if_splits)
  next
    case True
    then obtain sz where sz: "blob_size_at r oid rel = Ok (Some sz)" "sz \<le> cc_per_file_bytes caps" "acc + sz \<le> cc_total_bytes caps" by blast
    have step: "min (acc + sz) (2 ^ 64 - 1) = acc + sz" using sz(3) Cons.prems(6) by simp
    consider (err) e where "read_blob_at_capped r oid rel (cc_per_file_bytes caps) = Err e"
      | (none) "read_blob_at_capped r oid rel (cc_per_file_bytes caps) = Ok None"
      | (some) b where "read_blob_at_capped r oid rel (cc_per_file_bytes caps) = Ok (Some b)"
      by (metis option.exhaust sum.exhaust)
    then show ?thesis
    proof cases
      case err
      then have "fs' = fs" "\<exists>e. res = Err e" using Cons.prems(1) sz step by (auto simp: not_less)
      then show ?thesis by (rule stop)
    next
      case none
      then have "checkout_files r oid ov caps rels written (acc + sz) fs = (res, fs')"
        using Cons.prems(1) sz step by (simp add: not_less)
      then show ?thesis using skip sz(3) by simp
    next
      case some
      have len: "sz = length b" using capped_length [OF Cons.prems(3) some] sz(1) by simp
      obtain r1 fs1 where wc: "write_confined ov rel b fs = (r1, fs1)" by (cases "write_confined ov rel b fs")
      have rel: "path_ok rel" "list_all path_ok rels" using Cons.prems(4) by auto
      have wr: "blob_write r oid (cc_per_file_bytes caps) (rel, b)"
        using some rel(1) len sz(2) by (simp add: blob_write_def)
      have eff: "confined_change (ov_loc ov) (normals (components rel)) b fs fs1"
        using write_confined_effect [OF _ Cons.prems(2) wc] rel(1) by (simp add: path_ok_def safe_rel_plain)
      show ?thesis
      proof (cases r1)
        case (Inl e)
        then show ?thesis using Cons.prems(1) sz step some wc wrote_one [OF eff] wr len
          by (intro exI [of _ "[(rel, b)]"]) (auto simp: not_less nil)
      next
        case (Inr u)
        have rest: "checkout_files r oid ov caps rels (written + 1) (acc + sz) fs1 = (res, fs')"
          using Cons.prems(1) sz step some wc Inr by (simp add: not_less)
        obtain ws where ws: "wrote (ov_loc ov) ws fs1 fs'" "length ws \<le> length rels"
            "acc + sz + written_bytes ws \<le> cc_total_bytes caps"
            "list_all (blob_write r oid (cc_per_file_bytes caps)) ws"
            "case res of Ok n \<Rightarrow> n = written + 1 + length ws | Err _ \<Rightarrow> True"
          using Cons.IH [OF rest confined_change_dir [OF eff Cons.prems(2)] Cons.prems(3) rel(2) sz(3) Cons.prems(6)] by blast
        show ?thesis
          using wrote_append [OF wrote_one [OF eff] ws(1)] ws(2-5) wr len
          by (intro exI [of _ "(rel, b) # ws"]) (auto simp: nil split: sum.splits)
      qed
    qed
  qed
qed

definition rel_names :: "str \<Rightarrow> str list" where
  "rel_names rel = normals (components rel)"

text \<open>The three ways on from a path that was not refused.\<close>

lemma checkout_files_Ok:
  assumes "checkout_files r oid ov caps (rel # rels) written acc fs = (Ok n, fs')"
  obtains (skipped) acc' where "checkout_files r oid ov caps rels written acc' fs = (Ok n, fs')"
      "\<And>b. read_blob_at_capped r oid rel (cc_per_file_bytes caps) \<noteq> Ok (Some b)"
    | (copied) acc' b fs1 where "read_blob_at_capped r oid rel (cc_per_file_bytes caps) = Ok (Some b)"
      "write_confined ov rel b fs = (Ok (), fs1)" "checkout_files r oid ov caps rels (written + 1) acc' fs1 = (Ok n, fs')"
proof (cases "blob_size_at r oid rel")
  case (Inl e)
  then show ?thesis using assms by simp
next
  case (Inr sz)
  show ?thesis
  proof (cases sz)
    case None
    then have "read_blob_at_capped r oid rel (cc_per_file_bytes caps) \<noteq> Ok (Some b)" for b
      using Inr by (auto simp: blob_size_at_def read_blob_at_capped_def split: sum.splits option.splits)
    then show ?thesis using assms Inr None skipped by simp
  next
    case (Some k)
    then show ?thesis
      using assms Inr skipped copied
      by (auto simp: Let_def split: if_splits sum.splits option.splits prod.splits)
  qed
qed

lemma checkout_files_content:
  "checkout_files r oid ov caps rels written acc fs = (Ok n, fs') \<Longrightarrow> is_dir fs (ov_loc ov) \<Longrightarrow> list_all path_ok rels
    \<Longrightarrow> distinct (map rel_names rels) \<Longrightarrow>
    (\<forall>ns b. fs (ov_loc ov @ ns) = Some (FileNode b) \<longrightarrow> ns \<notin> rel_names ` set rels \<longrightarrow> fs' (ov_loc ov @ ns) = Some (FileNode b))
    \<and> (\<forall>rel b. rel \<in> set rels \<longrightarrow> read_blob_at_capped r oid rel (cc_per_file_bytes caps) = Ok (Some b)
        \<longrightarrow> fs' (ov_loc ov @ rel_names rel) = Some (FileNode b))"
proof (induction rels arbitrary: written acc fs)
  case (Cons rel rels)
  from Cons.prems(1) show ?case
  proof (cases rule: checkout_files_Ok)
    case (skipped acc')
    then show ?thesis using Cons.IH [OF skipped(1) Cons.prems(2)] Cons.prems(3,4) by auto
  next
    case (copied acc' b fs1)
    have safe: "plain_rel rel" using Cons.prems(3) by (simp add: path_ok_def safe_rel_plain)
    have eff: "confined_change (ov_loc ov) (rel_names rel) b fs fs1" "fs1 (ov_loc ov @ rel_names rel) = Some (FileNode b)"
      using write_confined_effect [OF safe Cons.prems(2) copied(2)] by (auto simp: rel_names_def)
    have ih: "(\<forall>ns b. fs1 (ov_loc ov @ ns) = Some (FileNode b) \<longrightarrow> ns \<notin> rel_names ` set rels \<longrightarrow> fs' (ov_loc ov @ ns) = Some (FileNode b))
        \<and> (\<forall>rel b. rel \<in> set rels \<longrightarrow> read_blob_at_capped r oid rel (cc_per_file_bytes caps) = Ok (Some b)
          \<longrightarrow> fs' (ov_loc ov @ rel_names rel) = Some (FileNode b))"
      using Cons.IH [OF copied(3) confined_change_dir [OF eff(1) Cons.prems(2)]] Cons.prems(3,4) by auto
    show ?thesis using ih eff confined_change_keeps [OF eff(1)] copied(1) Cons.prems(4) by auto
  qed
qed simp

section \<open>Properties\<close>

lemma checkout_effect:
  assumes "is_dir fs (ov_loc ov)" "sizes_agree r" "checkout_revision r tw oid ov fs = (res, fs')"
  shows "\<exists>ws. wrote (ov_loc ov) ws fs fs' \<and> length ws \<le> MAX_CHECKOUT_FILES
    \<and> written_bytes ws \<le> MAX_CHECKOUT_TOTAL_BYTES
    \<and> list_all (blob_write r oid MAX_CHECKOUT_BLOB_BYTES) ws
    \<and> (case res of Ok n \<Rightarrow> n = length ws | Err _ \<Rightarrow> True)"
proof (cases "\<exists>paths. collect_blob_paths tw oid ''overlay'' MAX_CHECKOUT_FILES MAX_CHECKOUT_TREE_ENTRIES True = Ok paths")
  case False
  then have "fs' = fs" "\<exists>e. res = Err e"
    using assms(3) by (auto simp: checkout_revision_def checkout_revision_with_caps_def production_caps_def split: sum.splits)
  then show ?thesis by (intro exI [of _ "[]"]) (auto simp: wrote_refl written_bytes_def)
next
  case True
  then obtain paths where paths: "collect_blob_paths tw oid ''overlay'' MAX_CHECKOUT_FILES MAX_CHECKOUT_TREE_ENTRIES True = Ok paths" ..
  then have ok: "list_all path_ok paths \<and> length paths \<le> MAX_CHECKOUT_FILES"
    by (auto simp: collect_blob_paths_def dest!: walk_entries_ok split: sum.splits prod.splits walk_end.splits option.splits)
  have run: "checkout_files r oid ov production_caps paths 0 0 fs = (res, fs')"
    using assms(3) paths by (simp add: checkout_revision_def checkout_revision_with_caps_def production_caps_def)
  have caps: "cc_total_bytes production_caps = MAX_CHECKOUT_TOTAL_BYTES" "cc_per_file_bytes production_caps = MAX_CHECKOUT_BLOB_BYTES"
      "MAX_CHECKOUT_TOTAL_BYTES < 2 ^ 64 - 1"
    by (simp_all add: production_caps_def MAX_CHECKOUT_TOTAL_BYTES_def)
  obtain ws where ws: "wrote (ov_loc ov) ws fs fs'" "length ws \<le> length paths"
      "written_bytes ws \<le> MAX_CHECKOUT_TOTAL_BYTES"
      "list_all (blob_write r oid MAX_CHECKOUT_BLOB_BYTES) ws"
      "case res of Ok n \<Rightarrow> n = length ws | Err _ \<Rightarrow> True"
    using checkout_files_effect [OF run assms(1,2) conjunct1 [OF ok]] unfolding caps add_0 by (metis caps(3) le0)
  show ?thesis using ws ok by (intro exI [of _ ws]) simp
qed

text \<open>
  C10: A checkout stays inside its overlay and inside its bounds. Whatever the tree of the revision
  names and whatever links were planted in the overlay, all that changes, also when the checkout
  fails, are directories that are created and files that are written below the overlay's root, at the
  components of paths that are neither ignored nor unsafe; no link is created or followed. The files
  are blobs of the revision, at most 50,000 of them with at most 2 GiB in all and 64 MiB each, and a
  successful checkout returns how many there are.
\<close>

theorem checkout_confined_bounded:
  assumes "is_dir fs (ov_loc ov)" "sizes_agree r" "checkout_revision r tw oid ov fs = (res, fs')"
  shows "\<exists>ws. wrote (ov_loc ov) ws fs fs' \<and> length ws \<le> MAX_CHECKOUT_FILES
    \<and> written_bytes ws \<le> MAX_CHECKOUT_TOTAL_BYTES
    \<and> list_all (blob_write r oid MAX_CHECKOUT_BLOB_BYTES) ws
    \<and> (case res of Ok n \<Rightarrow> n = length ws | Err _ \<Rightarrow> True)"
  by (rule checkout_effect [OF assms])

definition sample_repo :: "nat repo" where
  "sample_repo = \<lparr>rp_resolve = (\<lambda>_. None), rp_show = show_nat,
     rp_tree = (\<lambda>_. Ok (\<lambda>p. if p = ''a/b.rs'' then Some (Blob, 1) else None)),
     rp_diff = (\<lambda>_ _. Ok 0), rp_similar = (\<lambda>_ _. Ok ([], None)), rp_header = (\<lambda>_. Ok 2), rp_blob = (\<lambda>_. Ok ''hi'')\<rparr>"

definition sample_walk :: "nat tree_walk" where
  "sample_walk = (\<lambda>_. Ok ([\<lparr>te_dir = ''a/'', te_name = Some ''b.rs'', te_kind = Some Blob\<rparr>], None))"

definition sample_fs :: filesys where
  "sample_fs = [[''ov''] \<mapsto> DirNode, [''ov'', ''a''] \<mapsto> LinkNode ''/etc'', [''etc''] \<mapsto> DirNode]"

definition sample_overlay :: overlay_root where
  "sample_overlay = \<lparr>ov_text = ''/ov'', ov_loc = [''ov'']\<rparr>"

text \<open>The overlay already has a link to \<open>/etc\<close> where the tree has a directory.\<close>

theorem checkout_confined_bounded_witness:
  "\<exists>ws. wrote [''ov''] ws sample_fs (snd (checkout_revision sample_repo sample_walk 0 sample_overlay sample_fs))
    \<and> length ws \<le> MAX_CHECKOUT_FILES \<and> written_bytes ws \<le> MAX_CHECKOUT_TOTAL_BYTES
    \<and> list_all (blob_write sample_repo 0 MAX_CHECKOUT_BLOB_BYTES) ws
    \<and> (case fst (checkout_revision sample_repo sample_walk 0 sample_overlay sample_fs) of Ok n \<Rightarrow> n = length ws | Err _ \<Rightarrow> True)"
proof -
  have "is_dir sample_fs (ov_loc sample_overlay)" by (simp add: is_dir_def sample_fs_def sample_overlay_def)
  moreover have "sizes_agree sample_repo" by (simp add: sizes_agree_def sample_repo_def)
  moreover have "ov_loc sample_overlay = [''ov'']" by (simp add: sample_overlay_def)
  ultimately show ?thesis using checkout_confined_bounded by (metis prod.collapse)
qed

text \<open>
  C16: A successful checkout reproduces the revision. For every path of the tree that is kept, the file
  at its place in the overlay then holds the bytes of the path's blob, whatever was there before;
  paths of one tree have different components.
\<close>

theorem checkout_reproduces:
  assumes "is_dir fs (ov_loc ov)" "checkout_revision r tw oid ov fs = (Ok n, fs')"
    and "collect_blob_paths tw oid ''overlay'' MAX_CHECKOUT_FILES MAX_CHECKOUT_TREE_ENTRIES True = Ok paths"
    and "distinct (map rel_names paths)" "rel \<in> set paths"
    and "read_blob_at_capped r oid rel MAX_CHECKOUT_BLOB_BYTES = Ok (Some b)"
  shows "fs' (ov_loc ov @ rel_names rel) = Some (FileNode b)"
proof -
  have ok: "list_all path_ok paths"
    using assms(3) by (auto simp: collect_blob_paths_def dest!: walk_entries_ok split: sum.splits prod.splits walk_end.splits option.splits)
  have run: "checkout_files r oid ov production_caps paths 0 0 fs = (Ok n, fs')"
    using assms(2,3) by (simp add: checkout_revision_def checkout_revision_with_caps_def production_caps_def)
  from checkout_files_content [OF run assms(1) ok assms(4)] assms(5,6) show ?thesis by (simp add: production_caps_def)
qed

definition clean_fs :: filesys where
  "clean_fs = [[''ov''] \<mapsto> DirNode, [''ov'', ''a''] \<mapsto> DirNode, [''ov'', ''a'', ''b.rs''] \<mapsto> FileNode ''old'']"

lemma sample_checkout:
  "collect_blob_paths sample_walk 0 ''overlay'' MAX_CHECKOUT_FILES MAX_CHECKOUT_TREE_ENTRIES True = Ok [''a/b.rs'']"
  "read_blob_at_capped sample_repo 0 ''a/b.rs'' MAX_CHECKOUT_BLOB_BYTES = Ok (Some ''hi'')"
  "fst (checkout_revision sample_repo sample_walk 0 sample_overlay clean_fs) = Ok 1"
proof -
  have safe: "is_ignored ''a/b.rs'' = False" "reject_unsafe_rel ''a/b.rs'' = Ok ()" by code_simp+
  then show paths: "collect_blob_paths sample_walk 0 ''overlay'' MAX_CHECKOUT_FILES MAX_CHECKOUT_TREE_ENTRIES True = Ok [''a/b.rs'']"
    by (simp add: collect_blob_paths_def sample_walk_def MAX_CHECKOUT_FILES_def MAX_CHECKOUT_TREE_ENTRIES_def)
  from safe show read: "read_blob_at_capped sample_repo 0 ''a/b.rs'' MAX_CHECKOUT_BLOB_BYTES = Ok (Some ''hi'')"
    by (simp add: read_blob_at_capped_def resolve_blob_oid_def sample_repo_def MAX_CHECKOUT_BLOB_BYTES_def)
  from safe have sz: "blob_size_at sample_repo 0 ''a/b.rs'' = Ok (Some 2)"
    by (simp add: blob_size_at_def resolve_blob_oid_def sample_repo_def)
  have "fst (write_confined sample_overlay ''a/b.rs'' ''hi'' clean_fs) = Ok ()" by code_simp
  then obtain fs where "write_confined sample_overlay ''a/b.rs'' ''hi'' clean_fs = (Ok (), fs)" by (metis prod.collapse)
  then show "fst (checkout_revision sample_repo sample_walk 0 sample_overlay clean_fs) = Ok 1"
    using paths read sz
    by (simp add: checkout_revision_def checkout_revision_with_caps_def production_caps_def MAX_CHECKOUT_TOTAL_BYTES_def
        MAX_CHECKOUT_BLOB_BYTES_def)
qed

theorem checkout_reproduces_witness:
  "snd (checkout_revision sample_repo sample_walk 0 sample_overlay clean_fs) ([''ov''] @ rel_names ''a/b.rs'') = Some (FileNode ''hi'')"
proof -
  have loc: "ov_loc sample_overlay = [''ov'']" by (simp add: sample_overlay_def)
  have dir: "is_dir clean_fs (ov_loc sample_overlay)" by (simp add: is_dir_def clean_fs_def loc)
  have run: "checkout_revision sample_repo sample_walk 0 sample_overlay clean_fs
      = (Ok 1, snd (checkout_revision sample_repo sample_walk 0 sample_overlay clean_fs))"
    using sample_checkout(3) by (simp add: prod_eq_iff)
  show ?thesis using checkout_reproduces [OF dir run sample_checkout(1) _ _ sample_checkout(2)] unfolding loc by simp
qed

end
