(* ===== verification/Overlay.thy ===== *)
theory Overlay
  imports Confine Config
begin

text \<open>
  \<open>jitgen-materialize\<close>: writing a candidate into an overlay (\<open>overlay.rs\<close>, \<open>error.rs\<close>). The source
  goes to a temporary file in the directory of the destination, which is then renamed. The process id
  and SHA-256 are parameters, the process-wide counter of temporary names is part of the state.
\<close>

section \<open>The code\<close>

datatype materialize_error =
    MtUnsafePath str
  | MtSymlinkComponent str
  | MtNotRegularFile str
  | MtConflict str
  | MtTooLarge str
  | MtIo str io_error

fun show_materialize :: "(str \<Rightarrow> str) \<Rightarrow> materialize_error \<Rightarrow> str" where
  "show_materialize esc (MtUnsafePath p) = ''unsafe overlay-relative path: '' @ debug_str esc p"
| "show_materialize esc (MtSymlinkComponent p) = ''path component is a symlink, refusing to traverse: '' @ debug_str esc p"
| "show_materialize esc (MtNotRegularFile p) = ''destination exists but is not a regular file: '' @ debug_str esc p"
| "show_materialize esc (MtConflict p) = ''destination already exists with conflicting content: '' @ debug_str esc p"
| "show_materialize esc (MtTooLarge d) = ''exceeds materialization limit: '' @ d"
| "show_materialize esc (MtIo p e) = ''io error at '' @ debug_str esc p @ '': '' @ show_io e"

definition MAX_CANDIDATE_BYTES :: nat where "MAX_CANDIDATE_BYTES = 1024 * 1024"
definition MAX_REL_BYTES :: nat where "MAX_REL_BYTES = 4096"
definition MAX_REL_COMPONENTS :: nat where "MAX_REL_COMPONENTS = 64"
definition MAX_TEMP_ATTEMPTS :: nat where "MAX_TEMP_ATTEMPTS = 128"

record overlay =
  mo_root :: str
  mo_loc :: "str list"

definition validate_rel :: "str \<Rightarrow> materialize_error + unit" where
  "validate_rel rel =
     (if rel = [] \<or> CHR 0x5C \<in> set rel then Err (MtUnsafePath rel)
      else if MAX_REL_BYTES < length rel
      then Err (MtTooLarge (''path '' @ show_nat (length rel) @ '' bytes > '' @ show_nat MAX_REL_BYTES))
      else if 2 \<le> length rel \<and> rel ! 1 = CHR '':'' \<and> (ascii_upper (rel ! 0) \<or> ascii_lower (rel ! 0))
      then Err (MtUnsafePath rel)
      else if list_ex (\<lambda>c. c = RootDir \<or> c = ParentDir) (components rel) then Err (MtUnsafePath rel)
      else let n = length (normals (components rel)) in
        if MAX_REL_COMPONENTS < n
        then Err (MtTooLarge (''path has '' @ show_nat n @ '' components > '' @ show_nat MAX_REL_COMPONENTS))
        else if n = 0 then Err (MtUnsafePath rel)
        else Ok ())"

definition overlay_at :: "overlay \<Rightarrow> str list \<Rightarrow> str" where
  "overlay_at ov ns = path_join (mo_root ov) (join ''/'' ns)"

definition overlay_dir_errors :: "overlay \<Rightarrow> str \<Rightarrow> materialize_error dir_errors" where
  "overlay_dir_errors ov rel =
     \<lparr>de_link = (\<lambda>ns. MtSymlinkComponent (overlay_at ov ns)),
      de_other = (\<lambda>ns. MtIo (overlay_at ov ns) (OtherIo ''non-directory component in destination path'')),
      de_io = (\<lambda>e ns. MtIo (overlay_at ov ns) e), de_component = MtUnsafePath rel\<rparr>"

definition overlay_parents :: "overlay \<Rightarrow> str \<Rightarrow> filesys \<Rightarrow> (materialize_error + unit) \<times> filesys" where
  "overlay_parents ov rel fs =
     (case comps_parent (components rel) of
        None \<Rightarrow> (Ok (), fs)
      | Some parent \<Rightarrow> parent_dirs (overlay_dir_errors ov rel) (mo_loc ov) [] parent fs)"

subsection \<open>Installing a file\<close>

definition temp_name :: "str \<Rightarrow> nat \<Rightarrow> nat \<Rightarrow> str" where
  "temp_name name pid n = ''.'' @ name @ ''.jitgen-tmp.'' @ show_nat pid @ ''.'' @ show_nat n"

text \<open>\<open>temp_sibling\<close>: the components of the temporary path for a value of the counter.\<close>

definition temp_sibling :: "str \<Rightarrow> nat \<Rightarrow> nat \<Rightarrow> component list" where
  "temp_sibling rel pid n =
     (let name = (case comps_file_name (components rel) of Some s \<Rightarrow> s | None \<Rightarrow> ''jitgen'') in
      butlast (components rel) @ [Normal (temp_name name pid n)])"

text \<open>The attempts, with the counter.\<close>

fun write_unique_temp ::
  "overlay \<Rightarrow> str \<Rightarrow> str \<Rightarrow> nat \<Rightarrow> nat \<Rightarrow> nat \<Rightarrow> filesys \<Rightarrow> (materialize_error + component list) \<times> nat \<times> filesys" where
  "write_unique_temp ov rel bytes pid 0 n fs =
     (Err (MtIo (path_join (mo_root ov) rel) (OtherIo ''could not allocate a unique temp file name'')), n, fs)"
| "write_unique_temp ov rel bytes pid (Suc attempts) n fs =
     (let tmp = temp_sibling rel pid n in
      (case create_new fs (mo_loc ov) tmp bytes of
         (Ok _, fs) \<Rightarrow> (Ok tmp, n + 1, fs)
       | (Err AlreadyExists, fs) \<Rightarrow> write_unique_temp ov rel bytes pid attempts (n + 1) fs
       | (Err e, fs) \<Rightarrow> (Err (MtIo (overlay_at ov (normals tmp)) e), n + 1, fs)))"

definition read_regular :: "overlay \<Rightarrow> str \<Rightarrow> filesys \<Rightarrow> materialize_error + str" where
  "read_regular ov rel fs =
     (let dest = path_join (mo_root ov) rel in
      (case symlink_metadata fs (mo_loc ov) (kernel_components rel) of
         Err e \<Rightarrow> Err (MtIo dest e)
       | Ok (LinkNode _) \<Rightarrow> Err (MtSymlinkComponent dest)
       | Ok (FileNode _) \<Rightarrow>
           (case read_path fs (mo_loc ov) (kernel_components rel) of Err e \<Rightarrow> Err (MtIo dest e) | Ok b \<Rightarrow> Ok b)
       | Ok _ \<Rightarrow> Err (MtNotRegularFile dest)))"

definition rename_in ::
  "overlay \<Rightarrow> str \<Rightarrow> component list \<Rightarrow> filesys \<Rightarrow> (materialize_error + unit) \<times> filesys" where
  "rename_in ov rel tmp fs =
     (case rename_path fs (mo_loc ov) tmp (kernel_components rel) of
        (Err e, fs) \<Rightarrow> (Err (MtIo (path_join (mo_root ov) rel) e), remove_file fs (mo_loc ov) tmp)
      | (Ok _, fs) \<Rightarrow> (Ok (), fs))"

definition install ::
  "(str \<Rightarrow> str) \<Rightarrow> nat \<Rightarrow> overlay \<Rightarrow> str \<Rightarrow> str \<Rightarrow> nat \<Rightarrow> filesys \<Rightarrow> (materialize_error + unit) \<times> nat \<times> filesys" where
  "install sha pid ov rel bytes n fs =
     (let dest = path_join (mo_root ov) rel in
      (case symlink_metadata fs (mo_loc ov) (kernel_components rel) of
         Ok (LinkNode _) \<Rightarrow> (Err (MtSymlinkComponent dest), n, fs)
       | Ok (FileNode old) \<Rightarrow>
           if length old \<noteq> length bytes then (Err (MtConflict rel), n, fs)
           else (case read_regular ov rel fs of
                   Err e \<Rightarrow> (Err e, n, fs)
                 | Ok existing \<Rightarrow> if sha existing \<noteq> sha bytes then (Err (MtConflict rel), n, fs) else (Ok (), n, fs))
       | Ok _ \<Rightarrow> (Err (MtNotRegularFile dest), n, fs)
       | Err NotFound \<Rightarrow>
           (case write_unique_temp ov rel bytes pid MAX_TEMP_ATTEMPTS n fs of
              (Err e, n, fs) \<Rightarrow> (Err e, n, fs)
            | (Ok tmp, n, fs) \<Rightarrow> (case rename_in ov rel tmp fs of (r, fs) \<Rightarrow> (r, n, fs)))
       | Err e \<Rightarrow> (Err (MtIo dest e), n, fs)))"

definition materialize ::
  "(str \<Rightarrow> str) \<Rightarrow> nat \<Rightarrow> overlay \<Rightarrow> test_candidate \<Rightarrow> nat \<Rightarrow> filesys
    \<Rightarrow> (materialize_error + materialized_test) \<times> nat \<times> filesys" where
  "materialize sha pid ov c n fs =
     (let rel = tc_rel_path c; bytes = tc_source c in
      if MAX_CANDIDATE_BYTES < length bytes
      then (Err (MtTooLarge (''candidate source '' @ show_nat (length bytes) @ '' bytes > '' @ show_nat MAX_CANDIDATE_BYTES)), n, fs)
      else (case validate_rel rel of
              Err e \<Rightarrow> (Err e, n, fs)
            | Ok _ \<Rightarrow>
                (case overlay_parents ov rel fs of
                   (Err e, fs) \<Rightarrow> (Err e, n, fs)
                 | (Ok _, fs) \<Rightarrow>
                     (case install sha pid ov rel bytes n fs of
                        (Err e, n, fs) \<Rightarrow> (Err e, n, fs)
                      | (Ok _, n, fs) \<Rightarrow>
                          (Ok \<lparr>mt_candidate = c, mt_abs_path = path_join (mo_root ov) rel, mt_sha256 = sha bytes\<rparr>, n, fs)))))"

section \<open>Lemmas\<close>

lemma validate_rel_plain: "validate_rel rel = Ok () \<Longrightarrow> plain_rel rel"
proof -
  assume safe: "validate_rel rel = Ok ()"
  then have "c \<noteq> RootDir \<and> c \<noteq> ParentDir" if "c \<in> set (components rel)" for c
    using that by (auto simp: validate_rel_def list_ex_iff split: if_splits)
  then have "descending (components rel)"
    unfolding descending_def list_all_iff by (metis component.exhaust)
  moreover have "normals (components rel) \<noteq> []" using safe by (auto simp: validate_rel_def Let_def split: if_splits)
  ultimately show ?thesis by (simp add: plain_rel_def)
qed

text \<open>New directories on the way and the new file, each where there was nothing.\<close>

definition new_entries :: "str list \<Rightarrow> str list \<Rightarrow> str \<Rightarrow> filesys \<Rightarrow> filesys \<Rightarrow> bool" where
  "new_entries base ns bytes fs fs' \<longleftrightarrow>
     (\<forall>loc. fs' loc = fs loc \<or> (fs loc = None \<and> (\<exists>k < length ns. loc = base @ take (Suc k) ns
        \<and> fs' loc = Some (if Suc k = length ns then FileNode bytes else DirNode))))"

lemma dirs_new_entries:
  assumes "dirs_created base (butlast ns) fs fs'"
  shows "new_entries base ns bytes fs fs'"
  unfolding new_entries_def
proof
  fix loc
  show "fs' loc = fs loc \<or> (fs loc = None \<and> (\<exists>k < length ns. loc = base @ take (Suc k) ns
        \<and> fs' loc = Some (if Suc k = length ns then FileNode bytes else DirNode)))"
  proof (cases "fs' loc = fs loc")
    case False
    then obtain k where "k < length (butlast ns)" "loc = base @ take (Suc k) (butlast ns)" "fs loc = None" "fs' loc = Some DirNode"
      using assms unfolding dirs_created_def by blast
    then show ?thesis by (intro disjI2 conjI exI [of _ k]) (auto simp: take_butlast)
  qed simp
qed

lemma new_entries_file:
  assumes "new_entries base ns bytes fs fs1" "ns \<noteq> []"
    and "fs' = fs1 \<or> fs1 (base @ ns) = None \<and> fs' = fs1(base @ ns \<mapsto> FileNode bytes)"
  shows "new_entries base ns bytes fs fs'"
  unfolding new_entries_def
proof
  fix loc
  show "fs' loc = fs loc \<or> (fs loc = None \<and> (\<exists>k < length ns. loc = base @ take (Suc k) ns
        \<and> fs' loc = Some (if Suc k = length ns then FileNode bytes else DirNode)))"
  proof (cases "fs' = fs1 \<or> loc \<noteq> base @ ns")
    case True
    then show ?thesis using assms(1,3) unfolding new_entries_def by (metis fun_upd_other)
  next
    case False
    then have "fs1 loc = None" "fs' loc = Some (FileNode bytes)" "loc = base @ ns" using assms(3) by auto
    moreover have "fs loc = None" using assms(1) calculation(1) unfolding new_entries_def by (metis option.distinct(1))
    ultimately show ?thesis using assms(2) by (intro disjI2 conjI exI [of _ "length ns - 1"]) auto
  qed
qed

text \<open>The place of a temporary file: beside the destination, and not the destination.\<close>

lemma temp_sibling_place:
  assumes "plain_rel rel"
  obtains t where "temp_sibling rel pid n = butlast (components rel) @ [Normal t]" "t \<noteq> last (normals (components rel))"
proof -
  note comps = plain_rel_components [OF assms]
  have "components rel = butlast (components rel) @ [last (components rel)]" using comps(6) by simp
  then have split: "normals (components rel) = butlast (normals (components rel)) @ normals [last (components rel)]"
    using comps(3) by (metis normals_append)
  have "\<exists>s. last (components rel) = Normal s"
  proof (cases "last (components rel)")
    case (Normal s)
    then show ?thesis by simp
  qed (use split comps(1) in \<open>simp_all, (metis append_butlast_last_id append_self_conv not_Cons_self2)+\<close>)
  then obtain s where s: "last (components rel) = Normal s" ..
  then have last: "last (normals (components rel)) = s" using split by (metis last_snoc normals.simps(1,2))
  have "temp_sibling rel pid n = butlast (components rel) @ [Normal (temp_name s pid n)]"
    using s comps(6) by (simp add: temp_sibling_def comps_file_name_def)
  moreover have "temp_name s pid n \<noteq> s"
  proof
    assume "temp_name s pid n = s"
    then have "length (temp_name s pid n) = length s" by simp
    then show False by (simp add: temp_name_def)
  qed
  ultimately show ?thesis using that last by simp
qed

lemma write_unique_temp_place:
  assumes rel: "plain_rel rel" and base: "is_dir fs (mo_loc ov)" and plain: "plain_dirs fs (mo_loc ov) (butlast (normals (components rel)))"
  shows "write_unique_temp ov rel bytes pid attempts n fs = (r, n', fs') \<Longrightarrow>
    (case r of Err _ \<Rightarrow> fs' = fs
     | Ok tmp \<Rightarrow> \<exists>t. tmp = butlast (components rel) @ [Normal t] \<and> t \<noteq> last (normals (components rel))
         \<and> fs (mo_loc ov @ butlast (normals (components rel)) @ [t]) = None
         \<and> fs' = fs(mo_loc ov @ butlast (normals (components rel)) @ [t] \<mapsto> FileNode bytes))"
proof (induction attempts arbitrary: n)
  case (Suc attempts)
  note comps = plain_rel_components [OF rel]
  obtain t where t: "temp_sibling rel pid n = butlast (components rel) @ [Normal t]" "t \<noteq> last (normals (components rel))"
    using temp_sibling_place [OF rel] .
  have desc: "descending (butlast (components rel))"
    using comps(2) by (auto simp: descending_def list_all_iff dest: in_set_butlastD)
  have parent: "resolve_parent fs (mo_loc ov) (butlast (components rel) @ [Normal t]) = Ok (mo_loc ov @ butlast (normals (components rel)))"
    using plain_dirs_is_dir [OF plain base] desc plain comps(3) by (simp add: resolve_parent_plain)
  show ?case
  proof (cases "fs (mo_loc ov @ butlast (normals (components rel)) @ [t])")
    case None
    then show ?thesis using Suc.prems t parent by (auto simp: create_new_def Let_def)
  next
    case (Some node)
    then show ?thesis using Suc.prems Suc.IH [of "n + 1"] t parent by (simp add: create_new_def Let_def)
  qed
qed auto

text \<open>The destination when it is absent or a file.\<close>

lemma regular_dest:
  assumes rel: "plain_rel rel" and base: "is_dir fs base" and plain: "plain_dirs fs base (butlast (normals (components rel)))"
    and meta: "symlink_metadata fs base (kernel_components rel) = Ok (FileNode b)"
  shows "fs (base @ normals (components rel)) = Some (FileNode b)"
proof -
  note comps = plain_rel_components [OF rel]
  obtain pre s dots where ks: "kernel_components rel = pre @ Normal s # dots" "list_all (\<lambda>c. c = CurDir) dots"
      "normals (components rel) = normals pre @ [s]" "descending pre"
    using descending_split [OF comps(4)] comps(1,5) by auto
  have plain': "plain_dirs fs base (normals pre)" using plain ks(3) by simp
  show ?thesis
  proof (cases "dots = []")
    case True
    then show ?thesis using meta metadata_write_plain(1) [OF ks(4) plain' base, of s] ks(1,3) by (auto split: option.splits)
  next
    case False
    then have "last (kernel_components rel) = CurDir" using ks(1,2) by (auto simp: list_all_iff)
    then show ?thesis using metadata_write_dots(1) [OF base _ _ meta] ks(1) by simp
  qed
qed

lemma absent_dest:
  assumes rel: "plain_rel rel" and base: "is_dir fs base" and plain: "plain_dirs fs base (butlast (normals (components rel)))"
    and absent: "symlink_metadata fs base (kernel_components rel) = Err NotFound" and name: "last_name (kernel_components rel) \<noteq> None"
  shows "fs (base @ normals (components rel)) = None"
proof -
  note comps = plain_rel_components [OF rel]
  obtain pre s dots where ks: "kernel_components rel = pre @ Normal s # dots" "list_all (\<lambda>c. c = CurDir) dots"
      "normals (components rel) = normals pre @ [s]" "descending pre"
    using descending_split [OF comps(4)] comps(1,5) by auto
  have plain': "plain_dirs fs base (normals pre)" using plain ks(3) by simp
  show ?thesis
  proof (cases "dots = []")
    case True
    then show ?thesis using absent metadata_write_plain(1) [OF ks(4) plain' base, of s] ks(1,3) by (auto split: option.splits)
  next
    case False
    then have "last (kernel_components rel) = CurDir" using ks(1,2) by (auto simp: list_all_iff)
    then show ?thesis using name ks(1) by simp
  qed
qed

lemma rename_in_place:
  assumes rel: "plain_rel rel" and base: "is_dir fs (mo_loc ov)" and plain: "plain_dirs fs (mo_loc ov) (butlast (normals (components rel)))"
    and t: "t \<noteq> last (normals (components rel))" "fs (mo_loc ov @ butlast (normals (components rel)) @ [t]) = Some (FileNode bytes)"
    and dest: "last_name (kernel_components rel) \<noteq> None \<Longrightarrow> fs (mo_loc ov @ normals (components rel)) = None"
    and run: "rename_in ov rel (butlast (components rel) @ [Normal t]) fs = (r, fs')"
  shows "(case r of
      Ok _ \<Rightarrow> fs (mo_loc ov @ normals (components rel)) = None
        \<and> fs' = fs(mo_loc ov @ butlast (normals (components rel)) @ [t] := None, mo_loc ov @ normals (components rel) \<mapsto> FileNode bytes)
    | Err _ \<Rightarrow> fs' = fs(mo_loc ov @ butlast (normals (components rel)) @ [t] := None))"
proof -
  note comps = plain_rel_components [OF rel]
  obtain pre s dots where ks: "kernel_components rel = pre @ Normal s # dots" "list_all (\<lambda>c. c = CurDir) dots"
      "normals (components rel) = normals pre @ [s]" "descending pre"
    using descending_split [OF comps(4)] comps(1,5) by auto
  have desc: "descending (butlast (components rel))"
    using comps(2) by (auto simp: descending_def list_all_iff dest: in_set_butlastD)
  have dir: "is_dir fs (mo_loc ov @ butlast (normals (components rel)))" by (rule plain_dirs_is_dir [OF plain base])
  have src: "resolve_parent fs (mo_loc ov) (butlast (components rel) @ [Normal t]) = Ok (mo_loc ov @ butlast (normals (components rel)))"
    using dir desc plain comps(3) by (simp add: resolve_parent_plain)
  show ?thesis
  proof (cases "dots = []")
    case True
    then have dst: "resolve_parent fs (mo_loc ov) (kernel_components rel) = Ok (mo_loc ov @ normals pre)" "last_name (kernel_components rel) = Some s"
      using dir plain ks by (simp_all add: resolve_parent_plain)
    have "fs (mo_loc ov @ normals pre @ [s]) = None"
      using dest dst(2) ks(3) by simp
    then show ?thesis using run src dst t(2) ks(3) by (auto simp: rename_in_def rename_path_def)
  next
    case False
    then have "last (kernel_components rel) = CurDir" using ks(1,2) by (auto simp: list_all_iff)
    then have "last_name (kernel_components rel) = None" using ks(1) by simp
    then show ?thesis using run src t(2) by (auto simp: rename_in_def rename_path_def remove_file_def)
  qed
qed

lemma install_effect:
  assumes rel: "plain_rel rel" and base: "is_dir fs (mo_loc ov)" and plain: "plain_dirs fs (mo_loc ov) (butlast (normals (components rel)))"
    and run: "install sha pid ov rel bytes n fs = (r, n', fs')"
  shows "(fs' = fs \<or> fs (mo_loc ov @ normals (components rel)) = None \<and> fs' = fs(mo_loc ov @ normals (components rel) \<mapsto> FileNode bytes))
    \<and> (case r of Ok _ \<Rightarrow> (\<exists>b. fs' (mo_loc ov @ normals (components rel)) = Some (FileNode b) \<and> length b = length bytes \<and> sha b = sha bytes) | Err _ \<Rightarrow> True)"
proof -
  let ?dest = "mo_loc ov @ normals (components rel)" and ?parent = "mo_loc ov @ butlast (normals (components rel))"
  let ?meta = "symlink_metadata fs (mo_loc ov) (kernel_components rel)"
  note comps = plain_rel_components [OF rel]
  have dest_eq: "?dest = ?parent @ [last (normals (components rel))]" using comps(1) by simp
  consider (absent) "?meta = Err NotFound" | (regular) old where "?meta = Ok (FileNode old)"
    | (other) "\<forall>old. ?meta \<noteq> Ok (FileNode old)" "?meta \<noteq> Err NotFound" by metis
  then show ?thesis
  proof cases
    case absent
    obtain r1 n1 fs1 where tmp: "write_unique_temp ov rel bytes pid MAX_TEMP_ATTEMPTS n fs = (r1, n1, fs1)"
      by (cases "write_unique_temp ov rel bytes pid MAX_TEMP_ATTEMPTS n fs") auto
    note place = write_unique_temp_place [OF rel base plain tmp]
    show ?thesis
    proof (cases r1)
      case (Inl e)
      then show ?thesis using run absent tmp place by (auto simp: install_def)
    next
      case (Inr path)
      then obtain t where t: "path = butlast (components rel) @ [Normal t]" "t \<noteq> last (normals (components rel))"
          "fs (?parent @ [t]) = None" "fs1 = fs(?parent @ [t] \<mapsto> FileNode bytes)"
        using place by auto
      obtain r2 fs2 where ren: "rename_in ov rel path fs1 = (r2, fs2)" by (cases "rename_in ov rel path fs1")
      have fs': "fs' = fs2" "r = r2" using run absent tmp Inr ren by (auto simp: install_def)
      have base1: "is_dir fs1 (mo_loc ov)" using base t(3,4) by (auto simp: is_dir_def)
      have plain1: "plain_dirs fs1 (mo_loc ov) (butlast (normals (components rel)))" using plain_dirs_mono [OF plain t(3)] t(4) by simp
      have ne: "?dest \<noteq> ?parent @ [t]"
      proof
        assume "?dest = ?parent @ [t]"
        then have "normals (components rel) = butlast (normals (components rel)) @ [t]" by simp
        then show False using t(2) by (metis last_snoc)
      qed
      have absent1: "fs1 ?dest = None" if "last_name (kernel_components rel) \<noteq> None"
        using absent_dest [OF rel base plain absent that] t(4) ne by simp
      have "fs1 (mo_loc ov @ butlast (normals (components rel)) @ [t]) = Some (FileNode bytes)" using t(4) by simp
      from rename_in_place [OF rel base1 plain1 t(2) this absent1] ren t(1)
      have "(case r2 of Ok _ \<Rightarrow> fs1 ?dest = None \<and> fs2 = fs1(?parent @ [t] := None, ?dest \<mapsto> FileNode bytes) | Err _ \<Rightarrow> fs2 = fs1(?parent @ [t] := None))"
        by (auto split: sum.splits)
      moreover have "fs1(?parent @ [t] := None) = fs" using t(3,4) by (auto simp: fun_eq_iff)
      moreover have "fs1 ?dest = fs ?dest" using t(4) ne by simp
      ultimately show ?thesis using fs' by (auto split: sum.splits)
    qed
  next
    case regular
    have "read_path fs (mo_loc ov) (kernel_components rel) = Ok b \<Longrightarrow> fs ?dest = Some (FileNode b)" for b
      using read_dest_plain [OF rel base plain regular] .
    moreover have "fs ?dest = Some (FileNode old)" using regular_dest [OF rel base plain regular] .
    ultimately show ?thesis using run regular
      by (auto simp: install_def read_regular_def Let_def split: if_splits sum.splits)
  next
    case other
    have "fs' = fs \<and> (\<exists>e. r = Err e)"
    proof (cases ?meta)
      case (Inl e)
      then show ?thesis using other run by (cases e) (auto simp: install_def Let_def)
    next
      case (Inr node)
      then show ?thesis using other run by (cases node) (auto simp: install_def Let_def)
    qed
    then show ?thesis by auto
  qed
qed

section \<open>Properties\<close>

lemma materialize_effect:
  assumes "is_dir fs (mo_loc ov)" "materialize sha pid ov c n fs = (r, n', fs')"
  shows "new_entries (mo_loc ov) (normals (components (tc_rel_path c))) (tc_source c) fs fs'
    \<and> (case r of Err _ \<Rightarrow> True
       | Ok _ \<Rightarrow> (\<exists>b. fs' (mo_loc ov @ normals (components (tc_rel_path c))) = Some (FileNode b)
           \<and> length b = length (tc_source c) \<and> sha b = sha (tc_source c)))"
proof -
  let ?rel = "tc_rel_path c" and ?base = "mo_loc ov" and ?ns = "normals (components (tc_rel_path c))"
  have same: ?thesis if "fs' = fs" "\<exists>e. r = Err e" using that by (auto simp: new_entries_def)
  show ?thesis
  proof (cases "length (tc_source c) \<le> MAX_CANDIDATE_BYTES \<and> validate_rel ?rel = Ok ()")
    case False
    have "fs' = fs" "\<exists>e. r = Err e"
      using assms(2) False by (auto simp: materialize_def Let_def split: if_splits sum.splits)
    then show ?thesis by (rule same)
  next
    case True
    then have rel: "plain_rel ?rel" using validate_rel_plain by simp
    note comps = plain_rel_components [OF rel]
    obtain r1 fs1 where parents: "overlay_parents ov ?rel fs = (r1, fs1)" by (cases "overlay_parents ov ?rel fs")
    then have "parent_dirs (overlay_dir_errors ov ?rel) ?base [] (butlast (components ?rel)) fs = (r1, fs1)"
      using comps(6,7) by (simp add: overlay_parents_def comps_parent_def)
    from parent_dirs_confined [OF this] comps(3)
    have dirs: "dirs_created ?base (butlast ?ns) fs fs1" "r1 = Ok () \<Longrightarrow> plain_dirs fs1 ?base (butlast ?ns)" by auto
    note made = dirs_new_entries [OF dirs(1), of "tc_source c"]
    show ?thesis
    proof (cases r1)
      case (Inl e)
      then show ?thesis using assms(2) True parents made by (auto simp: materialize_def Let_def)
    next
      case (Inr u)
      then have ok: "r1 = Ok ()" by simp
      obtain r2 n2 fs2 where inst: "install sha pid ov ?rel (tc_source c) n fs1 = (r2, n2, fs2)"
        by (cases "install sha pid ov ?rel (tc_source c) n fs1") auto
      have fs': "fs' = fs2" "r = (case r2 of Err e \<Rightarrow> Err e | Ok _ \<Rightarrow> Ok \<lparr>mt_candidate = c, mt_abs_path = path_join (mo_root ov) ?rel, mt_sha256 = sha (tc_source c)\<rparr>)"
        using assms(2) True parents ok inst by (auto simp: materialize_def Let_def split: sum.splits)
      have base1: "is_dir fs1 ?base" using assms(1) dirs(1) unfolding dirs_created_def is_dir_def by metis
      note eff = install_effect [OF rel base1 dirs(2) [OF ok] inst]
      have "new_entries ?base ?ns (tc_source c) fs fs2"
        using eff made comps(1) new_entries_file by blast
      then show ?thesis using eff fs' by (cases r2) auto
    qed
  qed
qed

text \<open>
  C15: Materializing a candidate never leaves the overlay and never replaces anything. Whatever the
  candidate's path and the links in the overlay, all that changes are new directories on the way and
  the new file, with the candidate's source, each below the root at a place where there was nothing;
  no temporary file remains, also after an error. On success the file at the candidate's path has the
  length and the hash of the source.
\<close>

theorem materialize_confined:
  assumes "is_dir fs (mo_loc ov)" "materialize sha pid ov c n fs = (r, n', fs')"
  shows "new_entries (mo_loc ov) (normals (components (tc_rel_path c))) (tc_source c) fs fs'
    \<and> (case r of Err _ \<Rightarrow> True
       | Ok _ \<Rightarrow> (\<exists>b. fs' (mo_loc ov @ normals (components (tc_rel_path c))) = Some (FileNode b)
           \<and> length b = length (tc_source c) \<and> sha b = sha (tc_source c)))"
  by (rule materialize_effect [OF assms])

definition sample_overlay_dir :: overlay where
  "sample_overlay_dir = \<lparr>mo_root = ''/ov'', mo_loc = [''ov'']\<rparr>"

definition sample_generated :: test_candidate where
  "sample_generated = \<lparr>tc_target = ''t0'', tc_rel_path = ''tests/t.rs'', tc_source = ''fn t() {}'', tc_test_name = None, tc_attempt = 0\<rparr>"

definition linked_fs :: filesys where
  "linked_fs = [[''ov''] \<mapsto> DirNode, [''ov'', ''tests''] \<mapsto> LinkNode ''/etc'', [''etc''] \<mapsto> DirNode]"

theorem materialize_confined_witness:
  "new_entries [''ov''] (normals (components ''tests/t.rs'')) ''fn t() {}'' linked_fs
      (snd (snd (materialize (\<lambda>s. s) 7 sample_overlay_dir sample_generated 0 linked_fs)))
    \<and> (case fst (materialize (\<lambda>s. s) 7 sample_overlay_dir sample_generated 0 linked_fs) of Err _ \<Rightarrow> True
       | Ok _ \<Rightarrow> (\<exists>b. snd (snd (materialize (\<lambda>s. s) 7 sample_overlay_dir sample_generated 0 linked_fs))
           ([''ov''] @ normals (components ''tests/t.rs'')) = Some (FileNode b) \<and> length b = length ''fn t() {}'' \<and> b = ''fn t() {}''))"
proof -
  have "is_dir linked_fs (mo_loc sample_overlay_dir)" by (simp add: is_dir_def linked_fs_def sample_overlay_dir_def)
  moreover have "tc_rel_path sample_generated = ''tests/t.rs''" "tc_source sample_generated = ''fn t() {}''" "mo_loc sample_overlay_dir = [''ov'']"
    by (simp_all add: sample_generated_def sample_overlay_dir_def)
  ultimately show ?thesis
    using materialize_confined [of linked_fs sample_overlay_dir "\<lambda>s. s" 7 sample_generated 0] by (metis prod.collapse)
qed

end
