(* ===== verification/PatchApply.thy ===== *)
theory PatchApply
  imports Errors
begin

text \<open>
  \<open>jitgen-orchestrator/src/patchapply.rs\<close>: the fail-closed applier of a mutant's unified
  diff. The peekable iterator over the diff's lines is the list of lines still to read; the
  cursor into the original and the output lines are the loop's state. The specification is an
  edit script over the lines of the file.
\<close>

section \<open>The code\<close>

record hunk =
  old_start :: nat
  old_count :: nat
  new_count :: nat

definition malformed :: "str \<Rightarrow> orch_error" where
  "malformed d = OrInvalid ''mutant diff'' d"

abbreviation usize_bound :: nat where "usize_bound \<equiv> 2 ^ 64"

definition parse_range :: "str \<Rightarrow> orch_error + (nat \<times> nat)" where
  "parse_range s =
     (case split_on (CHR '','') s of
        [] \<Rightarrow> Err (malformed ''bad range start'')
      | n # it \<Rightarrow>
          (case parse_unsigned usize_bound n of
             None \<Rightarrow> Err (malformed ''bad range start'')
           | Some start \<Rightarrow>
               (case it of
                  [] \<Rightarrow> Ok (start, 1)
                | c # _ \<Rightarrow>
                    (case parse_unsigned usize_bound c of
                       None \<Rightarrow> Err (malformed ''bad range count'')
                     | Some count \<Rightarrow> Ok (start, count)))))"

definition parse_hunk_header :: "str \<Rightarrow> orch_error + hunk" where
  "parse_hunk_header rest =
     (let parts = split_whitespace (trim_start rest) in
      case (case parts of [] \<Rightarrow> None | p # _ \<Rightarrow> strip_prefix p ''-'') of
        None \<Rightarrow> Err (malformed ''missing old range'')
      | Some old \<Rightarrow>
          (case (case parts of _ # p # _ \<Rightarrow> strip_prefix p ''+'' | _ \<Rightarrow> None) of
             None \<Rightarrow> Err (malformed ''missing new range'')
           | Some new \<Rightarrow>
               (case parse_range old of
                  Err e \<Rightarrow> Err e
                | Ok (os, oc) \<Rightarrow>
                    (case parse_range new of
                       Err e \<Rightarrow> Err e
                     | Ok (_, nc) \<Rightarrow>
                         Ok \<lparr>old_start = os, old_count = oc, new_count = nc\<rparr>))))"

definition expect_match :: "str list \<Rightarrow> nat \<Rightarrow> str \<Rightarrow> bool" where
  "expect_match orig idx content \<longleftrightarrow> idx < length orig \<and> orig ! idx = content"

definition mismatch :: orch_error where
  "mismatch = malformed ''context/removed line does not match original''"

text \<open>
  The loop of \<open>apply_hunk\<close>: \<open>os\<close> and \<open>ns\<close> are \<open>old_seen\<close> and \<open>new_seen\<close>. The result is the
  new cursor, the output so far and the diff lines left.
\<close>

fun hunk_body ::
  "hunk \<Rightarrow> str list \<Rightarrow> nat \<Rightarrow> str list \<Rightarrow> nat \<Rightarrow> nat \<Rightarrow> str list
     \<Rightarrow> orch_error + (nat \<times> str list \<times> str list)" where
  "hunk_body h orig cursor out os ns lns =
     (if \<not> (os < old_count h \<or> ns < new_count h) then Ok (cursor, out, lns)
      else case lns of
        [] \<Rightarrow> Err (malformed ''hunk truncated'')
      | body # rest \<Rightarrow>
          (let (oper, content) = (case chars body of [] \<Rightarrow> ('' '', []) | c # _ \<Rightarrow> (c, drop (length c) body)) in
           if oper = '' '' then
             (if expect_match orig cursor content
              then hunk_body h orig (Suc cursor) (out @ [content]) (Suc os) (Suc ns) rest
              else Err mismatch)
           else if oper = ''-'' then
             (if expect_match orig cursor content
              then hunk_body h orig (Suc cursor) out (Suc os) ns rest
              else Err mismatch)
           else if oper = ''+'' then hunk_body h orig cursor (out @ [content]) os (Suc ns) rest
           else if oper = [CHR 0x5C] then hunk_body h orig cursor out os ns rest
           else Err (malformed ''bad hunk body line'')))"

declare hunk_body.simps [simp del]

definition apply_hunk ::
  "hunk \<Rightarrow> str list \<Rightarrow> nat \<Rightarrow> str list \<Rightarrow> str list \<Rightarrow> orch_error + (nat \<times> str list \<times> str list)" where
  "apply_hunk h orig cursor out lns = hunk_body h orig cursor out 0 0 lns"

definition split_lines :: "str \<Rightarrow> str list" where
  "split_lines s =
     (if s = [] then []
      else split_on LF (if last s = LF then butlast s else s))"

definition is_file_header :: "str \<Rightarrow> bool" where
  "is_file_header l \<longleftrightarrow> starts_with l ''--- '' \<or> starts_with l ''+++ ''
     \<or> starts_with l ''diff '' \<or> starts_with l ''index ''"

lemma hunk_body_suffix:
  "hunk_body h orig cursor out os ns lns = Ok (c, o', rest) \<Longrightarrow> suffix rest lns"
proof (induction lns arbitrary: cursor out os ns)
  case Nil
  then show ?case by (auto simp: hunk_body.simps split: if_splits)
next
  case (Cons body lns)
  from Cons.prems show ?case
    by (subst (asm) hunk_body.simps)
      (auto split: if_splits list.splits dest!: Cons.IH simp: suffix_ConsI)
qed

text \<open>The main loop of \<open>apply_unified_diff\<close>: the cursor and the output at the end of the diff.\<close>

function apply_diff_lines ::
  "str list \<Rightarrow> nat \<Rightarrow> str list \<Rightarrow> str list \<Rightarrow> orch_error + (nat \<times> str list)" where
  "apply_diff_lines orig cursor out [] = Ok (cursor, out)"
| "apply_diff_lines orig cursor out (line # lns) =
     (case strip_prefix line ''@@'' of
        Some rest \<Rightarrow>
          (case parse_hunk_header rest of
             Err e \<Rightarrow> Err e
           | Ok h \<Rightarrow>
               (if old_start h = 0 \<and> 0 < old_count h
                then Err (malformed ''old_start 0 with a non-empty old range'')
                else let tgt = old_start h - 1 in
                  if length orig < tgt then Err (malformed ''hunk start past end of file'')
                  else if tgt < cursor
                  then Err (malformed ''hunk out of order / overlapping a prior hunk'')
                  else case apply_hunk h orig tgt (out @ take (tgt - cursor) (drop cursor orig)) lns of
                         Err e \<Rightarrow> Err e
                       | Ok (cursor', out', lns') \<Rightarrow> apply_diff_lines orig cursor' out' lns'))
      | None \<Rightarrow>
          (if is_file_header line \<or> line = [] then apply_diff_lines orig cursor out lns
           else Err (malformed ''unexpected content outside a hunk'')))"
  by pat_completeness auto
termination
  by (relation "measure (\<lambda>(orig, cursor, out, lns). length lns)")
    (auto simp: apply_hunk_def le_imp_less_Suc dest!: hunk_body_suffix suffix_length_le)

declare apply_diff_lines.simps [simp del]

definition apply_unified_diff :: "str \<Rightarrow> str \<Rightarrow> orch_error + str" where
  "apply_unified_diff original diff =
     (let orig = split_lines original in
      case apply_diff_lines orig 0 [] (lines diff) of
        Err e \<Rightarrow> Err e
      | Ok (cursor, out) \<Rightarrow>
          (let result = join [LF] (out @ drop cursor orig) in
           Ok (if original \<noteq> [] \<and> last original = LF \<and> result \<noteq> [] then result @ [LF] else result)))"



section \<open>Specification: edit scripts\<close>

datatype edit = Keep str | Del str | Add str

fun old_side :: "edit \<Rightarrow> str list" where
  "old_side (Keep l) = [l]"
| "old_side (Del l) = [l]"
| "old_side (Add l) = []"

fun new_side :: "edit \<Rightarrow> str list" where
  "new_side (Keep l) = [l]"
| "new_side (Del l) = []"
| "new_side (Add l) = [l]"

definition olds :: "edit list \<Rightarrow> str list" where
  "olds es = concat (map old_side es)"

definition news :: "edit list \<Rightarrow> str list" where
  "news es = concat (map new_side es)"

fun edit_line :: "edit \<Rightarrow> str" where
  "edit_line (Keep l) = CHR '' '' # l"
| "edit_line (Del l) = CHR ''-'' # l"
| "edit_line (Add l) = CHR ''+'' # l"

lemma olds_simps [simp]:
  "olds [] = []" "olds (e # es) = old_side e @ olds es" "olds (es @ fs) = olds es @ olds fs"
  by (simp_all add: olds_def)

lemma news_simps [simp]:
  "news [] = []" "news (e # es) = new_side e @ news es" "news (es @ fs) = news es @ news fs"
  by (simp_all add: news_def)

lemma olds_map_Keep [simp]: "olds (map Keep ls) = ls" and news_map_Keep [simp]: "news (map Keep ls) = ls"
  by (induction ls) auto

text \<open>The changes an edit script makes are lines of the diff.\<close>

fun justified1 :: "str list \<Rightarrow> edit \<Rightarrow> bool" where
  "justified1 lns (Keep l) = True"
| "justified1 lns (Del l) = ((CHR ''-'' # l) \<in> set lns)"
| "justified1 lns (Add l) = ((CHR ''+'' # l) \<in> set lns)"

definition justified :: "edit list \<Rightarrow> str list \<Rightarrow> bool" where
  "justified es lns \<longleftrightarrow> list_all (justified1 lns) es"

lemma justified_simps [simp]:
  "justified [] lns" "justified (es @ fs) lns \<longleftrightarrow> justified es lns \<and> justified fs lns"
  "justified (e # es) lns \<longleftrightarrow> justified1 lns e \<and> justified es lns"
  by (auto simp: justified_def)

lemma justified_map_Keep [simp]: "justified (map Keep ks) lns"
  by (induction ks) auto

lemma justified_mono: "justified es lns \<Longrightarrow> set lns \<subseteq> set lns' \<Longrightarrow> justified es lns'"
proof (induction es)
  case (Cons e es)
  then show ?case by (cases e) auto
qed simp

section \<open>Soundness\<close>

lemma chars_Cons_split: "chars b = k # ks \<Longrightarrow> b = k @ drop (length k) b"
  by (metis append_eq_conv_conj concat.simps(2) concat_chars)

lemma take_Suc_drop:
  "c \<le> d \<Longrightarrow> c < length xs \<Longrightarrow>
     take (Suc d - c) (drop c xs) = xs ! c # take (Suc d - Suc c) (drop (Suc c) xs)"
  by (simp add: Suc_diff_le flip: Cons_nth_drop_Suc)

lemma hunk_body_sound:
  assumes "hunk_body h orig cursor out os ns lns = Ok (c, o', rest)" "cursor \<le> length orig"
  shows "\<exists>es. cursor \<le> c \<and> c \<le> length orig \<and> take (c - cursor) (drop cursor orig) = olds es
           \<and> o' = out @ news es \<and> justified es lns"
  using assms
proof (induction lns arbitrary: cursor out os ns)
  case Nil
  then show ?case
    by (auto simp: hunk_body.simps split: if_splits intro: exI [of _ "[]"])
next
  case (Cons body lns)
  let ?content = "\<lambda>k. drop (length k) body"
  show ?case
  proof (cases "os < old_count h \<or> ns < new_count h")
    case False
    with Cons.prems show ?thesis
      by (auto simp: hunk_body.simps [of _ _ _ _ _ _ "body # lns"] intro: exI [of _ "[]"])
  next
    case True
    define oper content where "oper = (case chars body of [] \<Rightarrow> '' '' | k # _ \<Rightarrow> k)"
      and "content = (case chars body of [] \<Rightarrow> [] | k # _ \<Rightarrow> ?content k)"
    have line: "body = oper @ content \<or> body = [] \<and> oper = '' '' \<and> content = []"
      by (cases "chars body") (auto simp: oper_def content_def dest: chars_Cons_split)
    have "(case chars body of [] \<Rightarrow> ('' '', []) | k # _ \<Rightarrow> (k, ?content k)) = (oper, content)"
      by (auto simp: oper_def content_def split: list.splits)
    with Cons.prems(1) True have run:
      "(if oper = '' '' then
          (if expect_match orig cursor content
           then hunk_body h orig (Suc cursor) (out @ [content]) (Suc os) (Suc ns) lns else Err mismatch)
        else if oper = ''-'' then
          (if expect_match orig cursor content
           then hunk_body h orig (Suc cursor) out (Suc os) ns lns else Err mismatch)
        else if oper = ''+'' then hunk_body h orig cursor (out @ [content]) os (Suc ns) lns
        else if oper = [CHR 0x5C] then hunk_body h orig cursor out os ns lns
        else Err (malformed ''bad hunk body line'')) = Ok (c, o', rest)"
      by (simp add: hunk_body.simps [of _ _ _ _ _ _ "body # lns"])
    have adv: "\<exists>es. cursor \<le> c \<and> c \<le> length orig \<and> take (c - cursor) (drop cursor orig) = olds es
           \<and> o' = out @ news es \<and> justified es (body # lns)"
      if m: "expect_match orig cursor content" and e: "old_side e = [content]"
        and j: "justified1 (body # lns) e"
        and r: "hunk_body h orig (Suc cursor) (out @ new_side e) os' ns' lns = Ok (c, o', rest)" for e os' ns'
    proof -
      from m have cur: "cursor < length orig" "orig ! cursor = content" by (auto simp: expect_match_def)
      from Cons.IH [OF r] cur obtain es where es: "Suc cursor \<le> c" "c \<le> length orig"
        "take (c - Suc cursor) (drop (Suc cursor) orig) = olds es"
        "o' = (out @ new_side e) @ news es" "justified es lns" by auto
      obtain d where d: "c = Suc d" "cursor \<le> d" using es(1) by (cases c) auto
      have "take (c - cursor) (drop cursor orig) = olds (e # es)"
        using take_Suc_drop [OF d(2) cur(1)] es(3) cur(2) e by (simp add: d(1))
      moreover have "justified (e # es) (body # lns)"
        using j justified_mono [OF es(5), of "body # lns"] by auto
      ultimately show ?thesis using es by (intro exI [of _ "e # es"]) auto
    qed
    from run consider
        (keep) "expect_match orig cursor content"
          "hunk_body h orig (Suc cursor) (out @ new_side (Keep content)) (Suc os) (Suc ns) lns = Ok (c, o', rest)"
      | (del) "oper = ''-''" "expect_match orig cursor content"
          "hunk_body h orig (Suc cursor) (out @ new_side (Del content)) (Suc os) ns lns = Ok (c, o', rest)"
      | (add) "oper = ''+''" "hunk_body h orig cursor (out @ [content]) os (Suc ns) lns = Ok (c, o', rest)"
      | (skip) "hunk_body h orig cursor out os ns lns = Ok (c, o', rest)"
      by (auto split: if_splits)
    then show ?thesis
    proof cases
      case keep
      then show ?thesis by (intro adv [of "Keep content"]) auto
    next
      case del
      then show ?thesis using line by (intro adv [of "Del content"]) auto
    next
      case add
      from Cons.IH [OF add(2) Cons.prems(2)] obtain es where
        "cursor \<le> c" "c \<le> length orig" "take (c - cursor) (drop cursor orig) = olds es"
        "o' = (out @ [content]) @ news es" "justified es lns" by auto
      moreover have "justified (Add content # es) (body # lns)"
        using line add(1) justified_mono [OF \<open>justified es lns\<close>, of "body # lns"]
        by auto
      ultimately show ?thesis by (intro exI [of _ "Add content # es"]) auto
    next
      case skip
      from Cons.IH [OF this Cons.prems(2)] show ?thesis
        using justified_mono [of _ lns "body # lns"] by (metis set_subset_Cons)
    qed
  qed
qed

lemma hunk_body_lines: "hunk_body h orig cursor out os ns lns = Ok (c, o', rest) \<Longrightarrow> set rest \<subseteq> set lns"
  by (drule hunk_body_suffix) (rule set_mono_suffix)

lemma take_diff_append:
  "a \<le> b \<Longrightarrow> b \<le> c \<Longrightarrow> take (c - a) (drop a xs) = take (b - a) (drop a xs) @ take (c - b) (drop b xs)"
proof -
  assume "a \<le> b" "b \<le> c"
  then have "c - a = (b - a) + (c - b)" "drop b xs = drop (b - a) (drop a xs)" by auto
  then show ?thesis by (metis take_add)
qed

lemma apply_diff_lines_sound:
  assumes "apply_diff_lines orig cursor out lns = Ok (c, o')" "cursor \<le> length orig"
  shows "\<exists>es. cursor \<le> c \<and> c \<le> length orig \<and> take (c - cursor) (drop cursor orig) = olds es
           \<and> o' = out @ news es \<and> justified es lns"
  using assms
proof (induction orig cursor out lns rule: apply_diff_lines.induct)
  case (1 orig cursor out)
  then show ?case by (auto simp: apply_diff_lines.simps intro: exI [of _ "[]"])
next
  case (2 orig cursor out line lns)
  show ?case
  proof (cases "strip_prefix line ''@@''")
    case None
    with "2.prems" have "is_file_header line \<or> line = []"
      and "apply_diff_lines orig cursor out lns = Ok (c, o')"
      by (auto simp: apply_diff_lines.simps split: if_splits)
    from "2.IH"(1) [OF None this "2.prems"(2)] obtain es where es: "cursor \<le> c" "c \<le> length orig"
      "take (c - cursor) (drop cursor orig) = olds es" "o' = out @ news es" "justified es lns" by blast
    moreover have "justified es (line # lns)" by (rule justified_mono [OF es(5)]) auto
    ultimately show ?thesis by blast
  next
    case (Some hd)
    with "2.prems" obtain h where h: "parse_hunk_header hd = Ok h"
      by (auto simp: apply_diff_lines.simps split: sum.splits)
    let ?t = "old_start h - 1"
    let ?pre = "take (?t - cursor) (drop cursor orig)"
    from "2.prems" Some h have g: "\<not> (old_start h = 0 \<and> 0 < old_count h)" "?t \<le> length orig" "cursor \<le> ?t"
      by (auto simp: apply_diff_lines.simps Let_def split: if_splits)
    with "2.prems" Some h obtain c1 o1 l1 where
      b: "apply_hunk h orig ?t (out @ ?pre) lns = Ok (c1, o1, l1)"
      and r: "apply_diff_lines orig c1 o1 l1 = Ok (c, o')"
      by (auto simp: apply_diff_lines.simps Let_def split: sum.splits if_splits)
    from hunk_body_sound [OF b [unfolded apply_hunk_def] g(2)] obtain es1 where es1:
      "?t \<le> c1" "c1 \<le> length orig" "take (c1 - ?t) (drop ?t orig) = olds es1"
      "o1 = (out @ ?pre) @ news es1" "justified es1 lns" by auto
    have not: "\<not> length orig < ?t" "\<not> ?t < cursor" using g by auto
    from "2.IH"(2) [OF Some h g(1) refl not b refl refl r es1(2)] obtain es2 where es2:
      "c1 \<le> c" "c \<le> length orig" "take (c - c1) (drop c1 orig) = olds es2" "o' = o1 @ news es2"
      "justified es2 l1" by blast
    let ?es = "map Keep ?pre @ es1 @ es2"
    have "take (c - cursor) (drop cursor orig) = olds ?es"
      using take_diff_append [of cursor ?t c orig] take_diff_append [of ?t c1 c orig] g es1 es2 by simp
    moreover have "justified ?es (line # lns)"
      using justified_mono [OF es1(5), of "line # lns"] justified_mono [OF es2(5), of "line # lns"]
        hunk_body_lines [OF b [unfolded apply_hunk_def]] by auto
    ultimately show ?thesis using g es1 es2 by (intro exI [of _ ?es]) auto
  qed
qed


section \<open>Well-formed diffs\<close>

text \<open>A newline-terminated text, and a line a terminated text can hold.\<close>

definition text_of :: "str list \<Rightarrow> str" where
  "text_of ls = concat (map (\<lambda>l. l @ [LF]) ls)"

definition plain_line :: "str \<Rightarrow> bool" where
  "plain_line l \<longleftrightarrow> LF \<notin> set l \<and> CR \<notin> set l \<and> \<not> starts_cont l"

definition hunk_header :: "nat \<Rightarrow> nat \<Rightarrow> nat \<Rightarrow> nat \<Rightarrow> str" where
  "hunk_header s oc t nc =
     ''@@ -'' @ show_nat s @ '','' @ show_nat oc @ '' +'' @ show_nat t @ '','' @ show_nat nc @ '' @@''"

text \<open>The unified diff of one hunk.\<close>

definition one_hunk :: "nat \<Rightarrow> nat \<Rightarrow> edit list \<Rightarrow> str" where
  "one_hunk s t es =
     text_of (hunk_header s (length (olds es)) t (length (news es)) # map edit_line es)"

lemma text_of_simps [simp]:
  "text_of [] = []" "text_of (l # ls) = l @ LF # text_of ls" "text_of (ls @ ms) = text_of ls @ text_of ms"
  by (simp_all add: text_of_def)

lemma text_of_join: "ls \<noteq> [] \<Longrightarrow> text_of ls = join [LF] ls @ [LF]"
  by (induction "[LF]" ls rule: join.induct) auto

lemma split_lines_text_of:
  assumes "\<forall>l \<in> set ls. LF \<notin> set l"
  shows "split_lines (text_of ls) = ls"
proof (cases "ls = []")
  case False
  then show ?thesis
    using assms by (simp add: split_lines_def text_of_join split_on_join)
qed (simp add: split_lines_def)

lemma lines_text_of: "list_all plain_line ls \<Longrightarrow> lines (text_of ls) = ls"
  unfolding text_of_def by (rule lines_terminated) (auto simp: list_all_iff plain_line_def)

lemma ascii_simps [simp]:
  "ascii []" "ascii (c # s) \<longleftrightarrow> code c < 128 \<and> ascii s" "ascii (s @ t) \<longleftrightarrow> ascii s \<and> ascii t"
  by (auto simp: ascii_def)

lemma words_acc_token:
  assumes "list_all (\<lambda>c. \<not> is_ws [c]) tok" "acc @ tok \<noteq> []"
  shows "words_acc acc (map (\<lambda>c. [c]) tok @ '' '' # ks) = (acc @ tok) # words_acc [] ks"
  using assms
proof (induction tok arbitrary: acc)
  case Nil
  then show ?case by (simp add: is_ws_def cp_def)
qed auto

lemma is_ws_single: "is_ws [c] \<longleftrightarrow> 9 \<le> code c \<and> code c \<le> 13 \<or> code c = 32 \<or> code c = 133 \<or> code c = 160"
  using nat_of_char_less_256 [of c]
  by (auto simp: is_ws_def cp_def simp del: nat_of_char_less_256)

lemma show_nat_no_ws: "list_all (\<lambda>c. \<not> is_ws [c]) (show_nat n)"
  using show_nat_set [of _ n] by (fastforce simp: list_all_iff is_ws_single)

lemma range_no_ws:
  "list_all (\<lambda>c. \<not> is_ws [c]) (show_nat a @ '','' @ show_nat b)"
  using show_nat_no_ws [of a] show_nat_no_ws [of b] by (simp add: is_ws_single)

lemma parse_range_show:
  assumes "a < usize_bound" "b < usize_bound"
  shows "parse_range (show_nat a @ '','' @ show_nat b) = Ok (a, b)"
proof -
  have no: "CHR '','' \<notin> set (show_nat n)" for n
    using show_nat_set [of "CHR '',''" n] by auto
  have "split_on CHR '','' (show_nat a @ CHR '','' # show_nat b) = [show_nat a, show_nat b]"
    using no by (simp add: split_on_append split_on_no_sep)
  then show ?thesis
    using assms by (simp add: parse_range_def parse_unsigned_show_nat)
qed

lemma parse_hunk_header_show:
  assumes "s < usize_bound" "oc < usize_bound" "t < usize_bound" "nc < usize_bound"
  shows "strip_prefix (hunk_header s oc t nc) ''@@'' \<noteq> None
    \<and> parse_hunk_header (the (strip_prefix (hunk_header s oc t nc) ''@@''))
        = Ok \<lparr>old_start = s, old_count = oc, new_count = nc\<rparr>"
proof -
  define ra rb where "ra = show_nat s @ '','' @ show_nat oc" and "rb = show_nat t @ '','' @ show_nat nc"
  let ?rest = "'' -'' @ ra @ '' +'' @ rb @ '' @@''"
  have hdr: "strip_prefix (hunk_header s oc t nc) ''@@'' = Some ?rest"
    by (simp add: hunk_header_def strip_prefix_def starts_with_def ra_def rb_def)
  have asc: "ascii ?rest"
    using ascii_show_nat by (simp add: ra_def rb_def)
  have na: "list_all (\<lambda>c. \<not> is_ws [c]) (''-'' @ ra)" and nb: "list_all (\<lambda>c. \<not> is_ws [c]) (''+'' @ rb)"
    using range_no_ws by (simp_all add: ra_def rb_def is_ws_single)
  have tr: "trim_start ?rest = ''-'' @ ra @ '' +'' @ rb @ '' @@''"
    using chars_ascii [OF asc]
    by (simp only: trim_start_def list.map append.simps) (simp add: is_ws_single comp_def)
  have chs: "chars (''-'' @ ra @ '' +'' @ rb @ '' @@'')
     = map (\<lambda>c. [c]) (''-'' @ ra) @ '' '' # (map (\<lambda>c. [c]) (''+'' @ rb) @ '' '' # [''@'', ''@''])"
    using asc by (subst chars_ascii) simp_all
  have ws: "split_whitespace (trim_start ?rest) = [''-'' @ ra, ''+'' @ rb, ''@@'']"
    unfolding tr split_whitespace_def chs
    using words_acc_token [OF na, of "[]"] words_acc_token [OF nb, of "[]"]
    by (simp add: is_ws_single)
  have "parse_hunk_header ?rest = Ok \<lparr>old_start = s, old_count = oc, new_count = nc\<rparr>"
    unfolding parse_hunk_header_def ws
    using parse_range_show [OF assms(1,2)] parse_range_show [OF assms(3,4)]
    by (simp add: strip_prefix_def starts_with_def ra_def rb_def)
  with hdr show ?thesis by (simp only: option.sel) simp
qed

lemma chars_op_line: "code b < 128 \<Longrightarrow> \<not> starts_cont l \<Longrightarrow> chars (b # l) = [b] # chars l"
  using chars_append [of l "[b]"] by simp

lemma hunk_body_render:
  assumes "list_all plain_line (olds es @ news es)"
    and "os + length (olds es) = old_count h" "ns + length (news es) = new_count h"
  shows "hunk_body h (pre @ olds es @ post) (length pre) out os ns (map edit_line es @ rest)
    = Ok (length pre + length (olds es), out @ news es, rest)"
  using assms
proof (induction es arbitrary: pre out os ns)
  case Nil
  then show ?case by (simp add: hunk_body.simps)
next
  case (Cons e es)
  then have IH: "os' + length (olds es) = old_count h \<Longrightarrow> ns' + length (news es) = new_count h \<Longrightarrow>
      hunk_body h (pre' @ olds es @ post) (length pre') out' os' ns' (map edit_line es @ rest)
      = Ok (length pre' + length (olds es), out' @ news es, rest)" for pre' out' os' ns'
    by simp
  show ?case
  proof (cases e)
    case (Keep l)
    have "chars (CHR '' '' # l) = '' '' # chars l"
      by (rule chars_op_line) (use Cons.prems Keep in \<open>auto simp: plain_line_def\<close>)
    with Cons.prems Keep IH [of "Suc os" "Suc ns" "pre @ [l]" "out @ [l]"] show ?thesis
      by (subst hunk_body.simps) (auto simp: expect_match_def nth_append)
  next
    case (Del l)
    have "chars (CHR ''-'' # l) = ''-'' # chars l"
      by (rule chars_op_line) (use Cons.prems Del in \<open>auto simp: plain_line_def\<close>)
    with Cons.prems Del IH [of "Suc os" ns "pre @ [l]" out] show ?thesis
      by (subst hunk_body.simps) (auto simp: expect_match_def nth_append)
  next
    case (Add l)
    have "chars (CHR ''+'' # l) = ''+'' # chars l"
      by (rule chars_op_line) (use Cons.prems Add in \<open>auto simp: plain_line_def\<close>)
    with Cons.prems Add IH [of os "Suc ns" pre "out @ [l]"] show ?thesis
      by (subst hunk_body.simps) auto
  qed
qed

lemma plain_line_header: "plain_line (hunk_header s oc t nc)"
  using show_nat_set by (fastforce simp: plain_line_def hunk_header_def LF_def CR_def is_cont_def)

lemma plain_edit_line:
  "list_all plain_line (olds es @ news es) \<Longrightarrow> list_all plain_line (map edit_line es)"
proof (induction es)
  case (Cons e es)
  then show ?case by (cases e) (auto simp: plain_line_def LF_def CR_def is_cont_def)
qed simp

lemma apply_diff_lines_one_hunk:
  assumes "list_all plain_line (olds es @ news es)"
    and "s < usize_bound" "length (olds es) < usize_bound" "t < usize_bound" "length (news es) < usize_bound"
    and "s \<noteq> 0 \<or> olds es = []" "length pre = s - 1"
  shows "apply_diff_lines (pre @ olds es @ post) 0 []
      (hunk_header s (length (olds es)) t (length (news es)) # map edit_line es)
    = Ok (length pre + length (olds es), pre @ news es)"
proof -
  let ?hdr = "hunk_header s (length (olds es)) t (length (news es))"
  let ?h = "\<lparr>old_start = s, old_count = length (olds es), new_count = length (news es)\<rparr>"
  from parse_hunk_header_show [OF assms(2-5)] obtain rest where
    hdr: "strip_prefix ?hdr ''@@'' = Some rest" "parse_hunk_header rest = Ok ?h" by auto
  have "apply_hunk ?h (pre @ olds es @ post) (s - 1) pre (map edit_line es)
      = Ok (length pre + length (olds es), pre @ news es, [])"
    using hunk_body_render [OF assms(1), of 0 ?h 0 pre post pre "[]"] assms(7)
    by (simp add: apply_hunk_def)
  with hdr assms(6,7) show ?thesis
    by (auto simp: apply_diff_lines.simps)
qed


section \<open>Properties\<close>

lemma apply_unified_diff_sound_aux:
  assumes "apply_unified_diff original diff = Ok r"
  shows "\<exists>es. olds es = split_lines original
    \<and> (let t = join [LF] (news es) in
        r = (if original \<noteq> [] \<and> last original = LF \<and> t \<noteq> [] then t @ [LF] else t))
    \<and> justified es (lines diff)"
proof -
  let ?orig = "split_lines original"
  from assms obtain c out where run: "apply_diff_lines ?orig 0 [] (lines diff) = Ok (c, out)"
    and r: "r = (let t = join [LF] (out @ drop c ?orig) in
        if original \<noteq> [] \<and> last original = LF \<and> t \<noteq> [] then t @ [LF] else t)"
    by (auto simp: apply_unified_diff_def Let_def split: sum.splits)
  from apply_diff_lines_sound [OF run] obtain es where
    "c \<le> length ?orig" "take c ?orig = olds es" "out = news es" "justified es (lines diff)"
    by auto
  moreover from this have "olds (es @ map Keep (drop c ?orig)) = ?orig"
    by (metis append_take_drop_id olds_map_Keep olds_simps(3))
  ultimately show ?thesis
    using r by (intro exI [of _ "es @ map Keep (drop c ?orig)"]) simp
qed

lemma apply_unified_diff_one_hunk_aux:
  assumes "list_all plain_line (pre @ olds es @ news es @ post)"
    and "Suc (length pre) < usize_bound" "length (olds es) < usize_bound"
    and "t < usize_bound" "length (news es) < usize_bound"
    and "pre @ olds es @ post \<noteq> []" "join [LF] (pre @ news es @ post) \<noteq> []"
  shows "apply_unified_diff (text_of (pre @ olds es @ post)) (one_hunk (Suc (length pre)) t es)
    = Ok (text_of (pre @ news es @ post))"
proof -
  let ?orig = "pre @ olds es @ post" and ?new = "pre @ news es @ post"
  have pl: "list_all plain_line (olds es @ news es)" using assms(1) by simp
  have "lines (one_hunk (Suc (length pre)) t es)
      = hunk_header (Suc (length pre)) (length (olds es)) t (length (news es)) # map edit_line es"
    unfolding one_hunk_def
    by (rule lines_text_of) (use plain_edit_line [OF pl] plain_line_header in auto)
  moreover have "split_lines (text_of ?orig) = ?orig"
    by (rule split_lines_text_of) (use assms(1) in \<open>auto simp: list_all_iff plain_line_def\<close>)
  moreover have "text_of ?orig \<noteq> [] \<and> last (text_of ?orig) = LF"
    using assms(6) by (simp add: text_of_join del: text_of_simps)
  moreover have "apply_diff_lines ?orig 0 []
      (hunk_header (Suc (length pre)) (length (olds es)) t (length (news es)) # map edit_line es)
    = Ok (length pre + length (olds es), pre @ news es)"
    by (rule apply_diff_lines_one_hunk) (use pl assms in auto)
  moreover have "?new \<noteq> []" using assms(7) by auto
  ultimately show ?thesis
    using assms(7) text_of_join [of ?new]
    by (simp add: apply_unified_diff_def del: text_of_simps)
qed

text \<open>
  C36: Soundness of the diff applier. When \<open>apply_unified_diff\<close> succeeds, the result differs from
  the original by an edit script over its lines: the script's old side is exactly the
  original's lines, the result is its new side (with the original's final newline), and every
  line it deletes or adds is a \<open>-\<close> or \<open>+\<close> line of the diff. So a line the diff does not name
  is never lost, changed or moved, whatever the diff says.
\<close>

theorem apply_unified_diff_sound:
  assumes "apply_unified_diff original diff = Ok r"
  shows "\<exists>es. olds es = split_lines original
    \<and> (let t = join [LF] (news es) in
        r = (if original \<noteq> [] \<and> last original = LF \<and> t \<noteq> [] then t @ [LF] else t))
    \<and> justified es (lines diff)"
  using assms by (rule apply_unified_diff_sound_aux)

theorem apply_unified_diff_sound_witness:
  "\<exists>es. olds es = split_lines ''ab''
    \<and> (let t = join [LF] (news es) in
        ''ab'' = (if ''ab'' \<noteq> [] \<and> last ''ab'' = LF \<and> t \<noteq> [] then t @ [LF] else t))
    \<and> justified es (lines ''index 1'')"
proof (rule apply_unified_diff_sound)
  show "apply_unified_diff ''ab'' ''index 1'' = Ok ''ab''" by code_simp
qed

text \<open>
  Completeness on well-formed diffs. For any edit script on a stretch of a newline-terminated
  file, the applier accepts the one-hunk unified diff that renders the script (with the header
  start one past the lines before the stretch) and produces the edited file, lines before and
  after the stretch unchanged.
\<close>

theorem apply_unified_diff_one_hunk:
  assumes "list_all plain_line (pre @ olds es @ news es @ post)"
    and "Suc (length pre) < usize_bound" "length (olds es) < usize_bound"
    and "t < usize_bound" "length (news es) < usize_bound"
    and "pre @ olds es @ post \<noteq> []" "join [LF] (pre @ news es @ post) \<noteq> []"
  shows "apply_unified_diff (text_of (pre @ olds es @ post)) (one_hunk (Suc (length pre)) t es)
    = Ok (text_of (pre @ news es @ post))"
  using assms by (rule apply_unified_diff_one_hunk_aux)

theorem apply_unified_diff_one_hunk_witness:
  "apply_unified_diff (text_of ([''a''] @ olds [Keep ''b'', Del ''c'', Add ''d''] @ [''e'']))
     (one_hunk (Suc (length [''a''])) 2 [Keep ''b'', Del ''c'', Add ''d''])
   = Ok (text_of ([''a''] @ news [Keep ''b'', Del ''c'', Add ''d''] @ [''e'']))"
  by (rule apply_unified_diff_one_hunk) (simp_all add: plain_line_def LF_def CR_def is_cont_def)

text \<open>
  A zero-context insertion is placed one line too early. In a unified diff a hunk with an empty
  old range names the line \<^emph>\<open>after\<close> which it inserts (\<open>diff -U0\<close> writes \<open>@@ -k,0\<close> for an insertion
  after line \<open>k\<close>). The applier takes \<open>k - 1\<close> lines first, so the text ends up before line \<open>k\<close>.
\<close>

theorem zero_context_insertion_misplaced:
  assumes "list_all plain_line (a @ x # ls @ b)" "ls \<noteq> []"
    and "Suc (length a) < usize_bound" "t < usize_bound" "length ls < usize_bound"
  shows "apply_unified_diff (text_of (a @ [x] @ b)) (one_hunk (Suc (length a)) t (map Add ls))
    = Ok (text_of (a @ ls @ [x] @ b))"
proof -
  have [simp]: "olds (map Add ls) = []" "news (map Add ls) = ls" by (induction ls) auto
  have "apply_unified_diff (text_of (a @ olds (map Add ls) @ (x # b))) (one_hunk (Suc (length a)) t (map Add ls))
    = Ok (text_of (a @ news (map Add ls) @ (x # b)))"
  proof (rule apply_unified_diff_one_hunk_aux)
    show "join [LF] (a @ news (map Add ls) @ x # b) \<noteq> []"
      using assms(2) by (cases a; cases ls) (auto simp: join_Cons)
  qed (use assms in auto)
  then show ?thesis by simp
qed

theorem zero_context_insertion_misplaced_witness:
  "apply_unified_diff (text_of ([] @ [''a''] @ [''b''])) (one_hunk (Suc (length ([] :: str list))) 2 (map Add [''x'']))
     = Ok (text_of ([] @ [''x''] @ [''a''] @ [''b'']))"
  by (rule zero_context_insertion_misplaced) (simp_all add: plain_line_def LF_def CR_def is_cont_def)

text \<open>
  No line of a CRLF file can be deleted or replaced. The original keeps the \<open>\r\<close> of its line
  ends while the reader of the diff drops it, so against a file all of whose lines end in
  \<open>\r\<close> every successful application of a diff whose lines do not end in \<open>\r\<close> only inserts.
\<close>

theorem crlf_original_only_insertions:
  assumes "apply_unified_diff original diff = Ok r"
    and "\<forall>l \<in> set (split_lines original). l \<noteq> [] \<and> last l = CR"
    and "\<forall>l \<in> set (lines diff). l \<noteq> [] \<longrightarrow> last l \<noteq> CR"
  shows "\<exists>es. olds es = split_lines original \<and> (\<forall>e \<in> set es. \<forall>l. e \<noteq> Del l)
    \<and> (let t = join [LF] (news es) in
        r = (if original \<noteq> [] \<and> last original = LF \<and> t \<noteq> [] then t @ [LF] else t))"
proof -
  from apply_unified_diff_sound_aux [OF assms(1)] obtain es where es: "olds es = split_lines original"
    "(let t = join [LF] (news es) in
        r = (if original \<noteq> [] \<and> last original = LF \<and> t \<noteq> [] then t @ [LF] else t))"
    "justified es (lines diff)" by blast
  have "e \<noteq> Del l" if "e \<in> set es" for e l
  proof
    assume e: "e = Del l"
    with that es(3) have "CHR ''-'' # l \<in> set (lines diff)"
      by (auto simp: justified_def list_all_iff)
    moreover have "l \<in> set (split_lines original)"
      using that e by (auto simp: es(1) [symmetric] olds_def intro: bexI [of _ "Del l"])
    ultimately show False using assms(2,3) by fastforce
  qed
  with es show ?thesis by blast
qed

theorem crlf_original_only_insertions_witness:
  "\<exists>es. olds es = split_lines [CHR ''a'', CR, LF] \<and> (\<forall>e \<in> set es. \<forall>l. e \<noteq> Del l)
    \<and> (let t = join [LF] (news es) in
        [CHR ''x'', LF, CHR ''a'', CR, LF]
          = (if [CHR ''a'', CR, LF] \<noteq> [] \<and> last [CHR ''a'', CR, LF] = LF \<and> t \<noteq> [] then t @ [LF] else t))"
proof (rule crlf_original_only_insertions)
  have lns: "lines (one_hunk 0 1 [Add ''x'']) = hunk_header 0 0 1 1 # map edit_line [Add ''x'']"
    unfolding one_hunk_def using plain_line_header [of 0 0 1 1]
    by (subst lines_text_of) (simp_all add: plain_line_def LF_def CR_def is_cont_def)
  have "apply_diff_lines ([] @ olds [Add ''x''] @ [[CHR ''a'', CR]]) 0 []
      (hunk_header 0 (length (olds [Add ''x''])) 1 (length (news [Add ''x''])) # map edit_line [Add ''x''])
    = Ok (length ([] :: str list) + length (olds [Add ''x'']), [] @ news [Add ''x''])"
    by (rule apply_diff_lines_one_hunk) (simp_all add: plain_line_def LF_def CR_def is_cont_def)
  then show "apply_unified_diff [CHR ''a'', CR, LF] (one_hunk 0 1 [Add ''x'']) = Ok [CHR ''x'', LF, CHR ''a'', CR, LF]"
    by (simp add: apply_unified_diff_def lns [simplified] Let_def split_lines_def LF_def CR_def)
  show "\<forall>l \<in> set (split_lines [CHR ''a'', CR, LF]). l \<noteq> [] \<and> last l = CR" by code_simp
  show "\<forall>l \<in> set (lines (one_hunk 0 1 [Add ''x''])). l \<noteq> [] \<longrightarrow> last l \<noteq> CR"
    unfolding lns using plain_line_header [of 0 0 1 1]
    by (auto simp: plain_line_def CR_def) (metis last_in_set)
qed

end
