(* ===== verification/Executor.thy ===== *)
theory Executor
  imports SandboxRun Checkout Overlay PatchApply Adapters Placement
begin

text \<open>
  \<open>jitgen-orchestrator/src/executor.rs\<close>: the executor that the feedback loops run candidates with. A
  variant becomes a fresh overlay directory (checkout, and for a mutant the confined patch), the
  candidate is materialized into it, the adapter's command runs there in the sandbox, and the directory
  is removed again. The state of the world is the file system and the two process-wide counters.
\<close>

section \<open>The code\<close>

record exec_world =
  xw_fs :: filesys
  xw_nonce :: nat
  xw_temp :: nat

record 'oid sandbox_executor =
  se_repo :: "'oid repo"
  se_walk :: "'oid tree_walk"
  se_snapshot :: repo_snapshot
  se_config :: resolved_config
  se_adapter :: language_adapter
  se_target :: target
  se_base :: 'oid
  se_head :: 'oid
  se_sandbox :: sandbox
  se_state_root :: str
  se_overlays :: overlay_root
  se_run_as :: "str option"
  se_run_env :: run_env
  se_sha :: "str \<Rightarrow> str"
  se_pid :: nat

text \<open>\<open>SandboxExecutor::new\<close>: the user of the container, when the backend is one.\<close>

definition executor_run_as :: "sandbox \<Rightarrow> (str \<Rightarrow> bool) \<Rightarrow> (str \<Rightarrow> str \<Rightarrow> str option) \<Rightarrow> str option" where
  "executor_run_as sb executable id_output =
     (if tier_of (sb_backend sb) = TierContainer then current_uid_gid executable id_output else None)"

definition adapter_ctx :: "'oid sandbox_executor \<Rightarrow> adapter_context" where
  "adapter_ctx x = \<lparr>ac_repo = se_snapshot x, ac_config = se_config x, ac_mode = cfg_mode (se_config x),
     ac_base = rp_show (se_repo x) (se_base x), ac_head = rp_show (se_repo x) (se_head x)\<rparr>"

definition MAX_OVERLAY_ATTEMPTS :: nat where "MAX_OVERLAY_ATTEMPTS = 64"

definition sanitize_tag :: "str \<Rightarrow> str" where
  "sanitize_tag s =
     concat (take 24 (map (\<lambda>k.
        if list_all ascii_alnum (to_ascii_lowercase k) \<or> k = ''-'' then to_ascii_lowercase k else ''-'')
       (chars s)))"

definition variant_tag :: "variant \<Rightarrow> str" where
  "variant_tag v = (case v of Base \<Rightarrow> ''base'' | Head \<Rightarrow> ''head'' | MutantOf m \<Rightarrow> ''mut-'' @ sanitize_tag (mu_id m))"

definition US :: char where "US = CHR 0x1F"

definition overlay_material :: "variant \<Rightarrow> test_candidate option \<Rightarrow> str" where
  "overlay_material v candidate =
     variant_label v
     @ (case v of MutantOf m \<Rightarrow> [US] @ mu_path m @ [US] @ mu_diff m | _ \<Rightarrow> [])
     @ (case candidate of Some c \<Rightarrow> [US] @ tc_rel_path c @ [US] @ tc_source c | None \<Rightarrow> [])"

definition overlay_key :: "(str \<Rightarrow> str) \<Rightarrow> variant \<Rightarrow> test_candidate option \<Rightarrow> str" where
  "overlay_key sha v candidate = variant_tag v @ ''-'' @ take 32 (sha (overlay_material v candidate))"

definition overlay_name :: "str \<Rightarrow> nat \<Rightarrow> nat \<Rightarrow> str" where
  "overlay_name key pid n = key @ ''-'' @ show_nat pid @ ''-'' @ show_nat n"

definition instance_of :: "str \<Rightarrow> str" where
  "instance_of overlay =
     ''jt-'' @ (case comps_file_name (components overlay) of Some n \<Rightarrow> n | None \<Rightarrow> ''overlay'')"

definition build_signal_for :: "adapter_id \<Rightarrow> build_signal" where
  "build_signal_for adapter =
     (if adapter = ''rust''
      then \<lparr>bs_exit_codes = [], bs_markers = [''error[E'', ''could not compile'', ''error: aborting'']\<rparr>
      else if adapter = ''python''
      then \<lparr>bs_exit_codes = [2, 3, 4, 5],
            bs_markers = [''SyntaxError'', ''ModuleNotFoundError'', ''ImportError'', ''ERROR collecting'']\<rparr>
      else if adapter = ''java''
      then \<lparr>bs_exit_codes = [], bs_markers = [''BUILD FAILURE'', ''COMPILATION ERROR'', ''cannot find symbol'']\<rparr>
      else if adapter = ''typescript''
      then \<lparr>bs_exit_codes = [], bs_markers = [''SyntaxError'', ''Cannot find module'', ''error TS'']\<rparr>
      else default_signal)"

definition to_spawn :: "test_command \<Rightarrow> adapter_id \<Rightarrow> spawn_request" where
  "to_spawn cmd adapter =
     (spawn_argv (tm_program cmd) (tm_args cmd))
       \<lparr>sp_cwd_rel := tm_cwd_rel cmd, sp_build_signal := build_signal_for adapter, sp_shell := tm_shell cmd\<rparr>"

text \<open>\<open>fs::remove_dir_all\<close>, whose result every caller drops: the tree below a directory, or a link itself, no link is
  followed. What the system refuses to remove stays, with the directories it is in.\<close>

definition remove_dir_all ::
  "(filesys \<Rightarrow> str list \<Rightarrow> str list list) \<Rightarrow> str list \<Rightarrow> str \<Rightarrow> filesys \<Rightarrow> filesys" where
  "remove_dir_all stuck base name fs =
     (let dir = base @ [name] in
      case fs dir of
        None \<Rightarrow> fs
      | Some (FileNode _) \<Rightarrow> fs
      | Some _ \<Rightarrow> (\<lambda>loc. if prefix dir loc \<and> \<not> list_ex (prefix loc) (stuck fs dir) then None else fs loc))"

definition child_overlay :: "overlay_root \<Rightarrow> str \<Rightarrow> overlay_root" where
  "child_overlay ovs name = \<lparr>ov_text = path_join (ov_text ovs) name, ov_loc = ov_loc ovs @ [name]\<rparr>"

definition populate_overlay ::
  "'oid sandbox_executor \<Rightarrow> variant \<Rightarrow> overlay_root \<Rightarrow> filesys \<Rightarrow> (exec_error + unit) \<times> filesys" where
  "populate_overlay x v dir fs =
     (case v of
        Base \<Rightarrow>
          (case checkout_revision (se_repo x) (se_walk x) (se_base x) dir fs of
             (Err e, fs) \<Rightarrow> (Err (ExecError (show_orch e)), fs)
           | (Ok _, fs) \<Rightarrow> (Ok (), fs))
      | Head \<Rightarrow>
          (case checkout_revision (se_repo x) (se_walk x) (se_head x) dir fs of
             (Err e, fs) \<Rightarrow> (Err (ExecError (show_orch e)), fs)
           | (Ok _, fs) \<Rightarrow> (Ok (), fs))
      | MutantOf m \<Rightarrow>
          (case checkout_revision (se_repo x) (se_walk x) (se_base x) dir fs of
             (Err e, fs) \<Rightarrow> (Err (ExecError (show_orch e)), fs)
           | (Ok _, fs) \<Rightarrow>
               (case read_overlay_file dir (mu_path m) fs of
                  Err e \<Rightarrow> (Err (ExecError (show_orch e)), fs)
                | Ok None \<Rightarrow> (Err (ExecError ''mutant path absent in base overlay''), fs)
                | Ok (Some original) \<Rightarrow>
                    if \<not> utf8 original then (Err (ExecError ''mutant target is not valid UTF-8''), fs)
                    else (case apply_unified_diff original (mu_diff m) of
                        Err e \<Rightarrow> (Err (ExecError (show_orch e)), fs)
                      | Ok mutated \<Rightarrow>
                          (case write_file dir (mu_path m) mutated fs of
                             (Err e, fs) \<Rightarrow> (Err (ExecError (show_orch e)), fs)
                           | (Ok _, fs) \<Rightarrow> (Ok (), fs))))))"

fun allocate_overlay ::
  "'oid sandbox_executor \<Rightarrow> variant \<Rightarrow> str \<Rightarrow> nat \<Rightarrow> exec_world \<Rightarrow> (exec_error + str) \<times> exec_world" where
  "allocate_overlay x v key 0 w = (Err (ExecError ''could not allocate a fresh overlay directory''), w)"
| "allocate_overlay x v key (Suc attempts) w =
     (let name = overlay_name key (se_pid x) (xw_nonce w);
          w = w\<lparr>xw_nonce := (xw_nonce w + 1) mod 2 ^ 64\<rparr>;
          base = ov_loc (se_overlays x)
      in case create_dir (xw_fs w) base [Normal name] of
           (Ok _, fs) \<Rightarrow>
             (case populate_overlay x v (child_overlay (se_overlays x) name) fs of
                (Err e, fs) \<Rightarrow> (Err e, w\<lparr>xw_fs := remove_dir_all (re_stuck (se_run_env x)) base name fs\<rparr>)
              | (Ok _, fs) \<Rightarrow> (Ok name, w\<lparr>xw_fs := fs\<rparr>))
         | (Err AlreadyExists, _) \<Rightarrow> allocate_overlay x v key attempts w
         | (Err e, _) \<Rightarrow> (Err (ExecError (show_io e)), w))"

definition fresh_overlay ::
  "'oid sandbox_executor \<Rightarrow> variant \<Rightarrow> test_candidate option \<Rightarrow> exec_world \<Rightarrow> (exec_error + str) \<times> exec_world" where
  "fresh_overlay x v candidate w =
     allocate_overlay x v (overlay_key (se_sha x) v candidate) MAX_OVERLAY_ATTEMPTS w"

definition executor_command :: "'oid sandbox_executor \<Rightarrow> exec_error + test_command" where
  "executor_command x =
     (case la_test_command (se_adapter x) (adapter_ctx x) (se_target x) of
        Some cmd \<Rightarrow> Ok cmd
      | None \<Rightarrow> Err (ExecError ''adapter produced no test command for this target''))"

definition run_in_overlay ::
  "'oid sandbox_executor \<Rightarrow> test_command \<Rightarrow> str \<Rightarrow> str \<Rightarrow> filesys \<Rightarrow> (exec_error + execution_result) \<times> filesys" where
  "run_in_overlay x cmd overlay inst fs =
     (case sandbox_run (se_run_env x) (se_sandbox x)
             \<lparr>rr_command = to_spawn cmd (la_id (se_adapter x)), rr_overlay_root = overlay,
              rr_state_root = se_state_root x, rr_instance = inst, rr_run_as = se_run_as x\<rparr> fs of
        (Err e, fs) \<Rightarrow> (Err (ExecError (show_sandbox (re_esc (se_run_env x)) e)), fs)
      | (Ok r, fs) \<Rightarrow> (Ok r, fs))"

text \<open>\<open>Overlay::open\<close> of a directory that exists: its canonical path.\<close>

definition overlay_open :: "str list \<Rightarrow> str \<Rightarrow> filesys \<Rightarrow> materialize_error + overlay" where
  "overlay_open cwd text fs =
     (case canonicalize fs cwd text of
        Err e \<Rightarrow> Err (MtIo text e)
      | Ok loc \<Rightarrow>
          if is_dir fs loc then Ok \<lparr>mo_root = path_of loc, mo_loc = loc\<rparr>
          else Err (MtIo text AlreadyExists))"

text \<open>The guard removes the overlay whatever the body returned.\<close>

definition guarded ::
  "'oid sandbox_executor \<Rightarrow> str \<Rightarrow> (exec_world \<Rightarrow> (exec_error + 'a) \<times> exec_world) \<Rightarrow> exec_world \<Rightarrow> (exec_error + 'a) \<times> exec_world" where
  "guarded x name body w =
     (case body w of (r, w) \<Rightarrow>
        (r, w\<lparr>xw_fs := remove_dir_all (re_stuck (se_run_env x)) (ov_loc (se_overlays x)) name (xw_fs w)\<rparr>))"

definition candidate_body ::
  "'oid sandbox_executor \<Rightarrow> test_candidate \<Rightarrow> str \<Rightarrow> exec_world \<Rightarrow> (exec_error + execution_result) \<times> exec_world" where
  "candidate_body x candidate name w =
     (let dir = child_overlay (se_overlays x) name; esc = re_esc (se_run_env x) in
      case overlay_open (re_cwd (se_run_env x)) (ov_text dir) (xw_fs w) of
        Err e \<Rightarrow> (Err (ExecError (show_materialize (debug_str esc) e)), w)
      | Ok ov \<Rightarrow>
          (case materialize (se_sha x) (se_pid x) ov candidate (xw_temp w) (xw_fs w) of
             (Err e, n, fs) \<Rightarrow> (Err (ExecError (show_materialize (debug_str esc) e)), w\<lparr>xw_fs := fs, xw_temp := n\<rparr>)
           | (Ok _, n, fs) \<Rightarrow>
               (case executor_command x of
                  Err e \<Rightarrow> (Err e, w\<lparr>xw_fs := fs, xw_temp := n\<rparr>)
                | Ok cmd \<Rightarrow>
                    (case run_in_overlay x cmd (mo_root ov) (instance_of (ov_text dir)) fs of
                       (r, fs) \<Rightarrow> (r, w\<lparr>xw_fs := fs, xw_temp := n\<rparr>)))))"

definition existing_body ::
  "'oid sandbox_executor \<Rightarrow> str \<Rightarrow> exec_world \<Rightarrow> (exec_error + execution_result) \<times> exec_world" where
  "existing_body x name w =
     (let dir = child_overlay (se_overlays x) name in
      case executor_command x of
        Err e \<Rightarrow> (Err e, w)
      | Ok cmd \<Rightarrow>
          (case run_in_overlay x cmd (ov_text dir) (instance_of (ov_text dir)) (xw_fs w) of
             (r, fs) \<Rightarrow> (r, w\<lparr>xw_fs := fs\<rparr>)))"

definition execute_candidate ::
  "'oid sandbox_executor \<Rightarrow> test_candidate \<Rightarrow> variant \<Rightarrow> exec_world \<Rightarrow> (exec_error + execution_result) \<times> exec_world" where
  "execute_candidate x candidate v w =
     (case fresh_overlay x v (Some candidate) w of
        (Err e, w) \<Rightarrow> (Err e, w)
      | (Ok name, w) \<Rightarrow> guarded x name (candidate_body x candidate name) w)"

definition execute_existing ::
  "'oid sandbox_executor \<Rightarrow> variant \<Rightarrow> exec_world \<Rightarrow> (exec_error + execution_result) \<times> exec_world" where
  "execute_existing x v w =
     (case fresh_overlay x v None w of
        (Err e, w) \<Rightarrow> (Err e, w)
      | (Ok name, w) \<Rightarrow> guarded x name (existing_body x name) w)"

definition executor_of :: "'oid sandbox_executor \<Rightarrow> exec_world executor" where
  "executor_of x = \<lparr>run_candidate = execute_candidate x, run_existing = execute_existing x\<rparr>"

section \<open>Changes below a directory\<close>

definition below :: "str list \<Rightarrow> filesys \<Rightarrow> filesys \<Rightarrow> bool" where
  "below base fs fs' \<longleftrightarrow> (\<forall>loc. \<not> strict_prefix base loc \<longrightarrow> fs' loc = fs loc)"

lemma below_refl [simp]: "below base fs fs"
  by (simp add: below_def)

lemma below_trans: "below base fs fs1 \<Longrightarrow> below base fs1 fs2 \<Longrightarrow> below base fs fs2"
  by (simp add: below_def)

lemma below_is_dir: "below base fs fs' \<Longrightarrow> is_dir fs' base = is_dir fs base"
  by (simp add: below_def is_dir_def)

lemma strict_prefix_take: "k < length ns \<Longrightarrow> strict_prefix base (base @ take (Suc k) ns)"
  by (cases ns) (auto simp: strict_prefix_def)

lemma confined_below: "confined_change base ns b fs fs' \<Longrightarrow> below base fs fs'"
  unfolding confined_change_def below_def using strict_prefix_take by metis

lemma new_entries_below: "new_entries base ns b fs fs' \<Longrightarrow> below base fs fs'"
  unfolding new_entries_def below_def using strict_prefix_take by metis

lemma write_confined_below:
  assumes "plain_rel rel" "is_dir fs (ov_loc ov)" "write_confined ov rel bytes fs = (res, fs')"
  shows "below (ov_loc ov) fs fs'"
  using write_confined_effect [OF assms] confined_below by blast

lemma checkout_files_below:
  "checkout_files r oid ov caps rels written acc fs = (res, fs') \<Longrightarrow> is_dir fs (ov_loc ov)
    \<Longrightarrow> list_all path_ok rels \<Longrightarrow> below (ov_loc ov) fs fs'"
proof (induction rels arbitrary: written acc fs)
  case (Cons rel rels)
  have rel: "plain_rel rel" using Cons.prems(3) by (auto simp: path_ok_def dest: safe_rel_plain)
  have step: "below (ov_loc ov) fs fs'"
    if "write_confined ov rel bytes fs = (Ok u, fs1)"
      "checkout_files r oid ov caps rels (written + 1) acc' fs1 = (res, fs')" for bytes u fs1 acc'
  proof -
    have b: "below (ov_loc ov) fs fs1" by (rule write_confined_below [OF rel Cons.prems(2) that(1)])
    then have "below (ov_loc ov) fs1 fs'"
      using Cons.IH [OF that(2)] Cons.prems(2,3) below_is_dir [OF b] by simp
    then show ?thesis using b below_trans by blast
  qed
  show ?case
    using Cons.prems(1) Cons.IH Cons.prems(2,3) step write_confined_below [OF rel Cons.prems(2)]
    by (auto simp: Let_def split: sum.splits option.splits if_splits prod.splits)
qed simp

lemma checkout_below:
  assumes "checkout_revision r tw oid ov fs = (res, fs')" "is_dir fs (ov_loc ov)"
  shows "below (ov_loc ov) fs fs'"
proof (cases "collect_blob_paths tw oid ''overlay'' MAX_CHECKOUT_FILES MAX_CHECKOUT_TREE_ENTRIES True")
  case (Inl e)
  then show ?thesis
    using assms(1) by (simp add: checkout_revision_def checkout_revision_with_caps_def production_caps_def)
next
  case (Inr paths)
  then have ok: "list_all path_ok paths"
    by (auto simp: collect_blob_paths_def dest!: walk_entries_ok split: sum.splits prod.splits walk_end.splits option.splits)
  have "checkout_files r oid ov production_caps paths 0 0 fs = (res, fs')"
    using assms(1) Inr by (simp add: checkout_revision_def checkout_revision_with_caps_def production_caps_def)
  from checkout_files_below [OF this assms(2) ok] show ?thesis .
qed

lemma write_file_below:
  assumes "write_file ov rel bytes fs = (res, fs')" "is_dir fs (ov_loc ov)"
  shows "below (ov_loc ov) fs fs'"
proof (cases "reject_unsafe_rel rel")
  case (Inl e)
  then show ?thesis using assms(1) by (simp add: write_file_def)
next
  case (Inr u)
  then have "plain_rel rel" "write_confined ov rel bytes fs = (res, fs')"
    using assms(1) safe_rel_plain by (simp_all add: write_file_def)
  then show ?thesis using write_confined_below assms(2) by blast
qed

lemma populate_below:
  assumes "populate_overlay x v dir fs = (res, fs')" "is_dir fs (ov_loc dir)"
  shows "below (ov_loc dir) fs fs'"
proof -
  have c: "below (ov_loc dir) fs fs1" if "checkout_revision (se_repo x) (se_walk x) oid dir fs = (r, fs1)" for oid r fs1
    by (rule checkout_below [OF that assms(2)])
  show ?thesis
  proof (cases v)
    case (MutantOf m)
    obtain r fs1 where co: "checkout_revision (se_repo x) (se_walk x) (se_base x) dir fs = (r, fs1)" by fastforce
    note b = c [OF co]
    have w: "below (ov_loc dir) fs fs2" if "write_file dir (mu_path m) bytes fs1 = (r', fs2)" for bytes r' fs2
      using write_file_below [OF that] below_is_dir [OF b] assms(2) below_trans [OF b] by simp
    show ?thesis
      using assms(1) b w
      by (auto simp: populate_overlay_def MutantOf co split: sum.splits option.splits if_splits prod.splits)
  qed (use assms(1) c in \<open>auto simp: populate_overlay_def split: sum.splits prod.splits\<close>)
qed

section \<open>Canonical directories\<close>

definition canonical_dir :: "filesys \<Rightarrow> overlay_root \<Rightarrow> bool" where
  "canonical_dir fs ov \<longleftrightarrow>
     ov_text ov = path_of (ov_loc ov) \<and> list_all plain_name (ov_loc ov) \<and> plain_dirs fs [] (ov_loc ov)"

section \<open>An execution leaves no trace\<close>

text \<open>The operating system's part: a process that was started with the plan of an isolating backend writes
  below the overlay of the plan only.\<close>

definition spawns_below :: "os_spawn \<Rightarrow> bool" where
  "spawns_below spawn \<longleftrightarrow>
     (\<forall>program plan fs i overlay. build_plan i = Ok plan \<longrightarrow> isolating (pi_backend i)
        \<longrightarrow> pi_overlay_root i = path_of overlay \<longrightarrow> below overlay fs (snd (spawn program plan fs)))"

text \<open>A hash is 64 lower case hexadecimal digits.\<close>

definition hex_hash :: "(str \<Rightarrow> str) \<Rightarrow> bool" where
  "hex_hash sha \<longleftrightarrow> (\<forall>s. length (sha s) = 64 \<and> list_all lower_hex (sha s))"

text \<open>The tree of the overlay was not there before, is a directory now, and nothing else changed.\<close>

definition made :: "str list \<Rightarrow> filesys \<Rightarrow> filesys \<Rightarrow> bool" where
  "made c fs fs' \<longleftrightarrow> (\<forall>loc. prefix c loc \<longrightarrow> fs loc = None) \<and> fs' c = Some DirNode
     \<and> (\<forall>loc. \<not> prefix c loc \<longrightarrow> fs' loc = fs loc)"

lemma made_below: "made c fs fs1 \<Longrightarrow> below c fs1 fs2 \<Longrightarrow> made c fs fs2"
  unfolding made_def below_def by (auto simp: strict_prefix_def)

text \<open>What an execution leaves of its overlay: the directory was made by it, and of its contents there is what the
  system refused to remove, with the directories it is in. Everything else is as it was.\<close>

definition left_behind :: "(filesys \<Rightarrow> str list \<Rightarrow> str list list) \<Rightarrow> str list \<Rightarrow> filesys \<Rightarrow> filesys \<Rightarrow> bool" where
  "left_behind stuck dir fs fs' \<longleftrightarrow>
     (\<exists>fs1. made dir fs fs1 \<and> stuck fs1 dir \<noteq> []
       \<and> (\<forall>loc. fs' loc = (if prefix dir loc \<and> list_ex (prefix loc) (stuck fs1 dir) then fs1 loc else fs loc)))"

definition overlay_gone :: "(filesys \<Rightarrow> str list \<Rightarrow> str list list) \<Rightarrow> str list \<Rightarrow> filesys \<Rightarrow> filesys \<Rightarrow> bool" where
  "overlay_gone stuck base fs fs' \<longleftrightarrow> fs' = fs \<or> (\<exists>name. left_behind stuck (base @ [name]) fs fs')"

lemma remove_made:
  assumes "made (base @ [s]) fs fs1"
  shows "overlay_gone stuck base fs (remove_dir_all stuck base s fs1)"
proof -
  let ?dir = "base @ [s]"
  have rm: "remove_dir_all stuck base s fs1 loc
      = (if prefix ?dir loc \<and> list_ex (prefix loc) (stuck fs1 ?dir) then fs1 loc else fs loc)" for loc
    using assms by (simp add: made_def remove_dir_all_def Let_def)
  show ?thesis
  proof (cases "stuck fs1 ?dir = []")
    case True
    then show ?thesis using rm by (simp add: overlay_gone_def fun_eq_iff)
  next
    case False
    then have "left_behind stuck ?dir fs (remove_dir_all stuck base s fs1)"
      unfolding left_behind_def using assms rm by (intro exI [of _ fs1]) simp
    then show ?thesis unfolding overlay_gone_def by blast
  qed
qed

lemma rooted_below_missing:
  assumes "rooted fs" "fs c = None" "c \<noteq> []"
  shows "prefix c loc \<Longrightarrow> fs loc = None"
proof (induction loc rule: rev_induct)
  case Nil
  then show ?case using assms(3) by simp
next
  case (snoc s loc)
  show ?case
  proof (cases "c = loc @ [s]")
    case False
    then have "prefix c loc" using snoc.prems by simp
    then have "fs loc = None" "loc \<noteq> []" using snoc.IH assms(3) by auto
    then have "\<not> is_dir fs loc" by (simp add: is_dir_def)
    then show ?thesis using assms(1) unfolding rooted_def by blast
  qed (use assms(2) in simp)
qed

lemma made_canonical:
  assumes "made (loc @ [s]) fs fs'" "plain_dirs fs [] loc"
  shows "plain_dirs fs' [] (loc @ [s])"
proof -
  have "fs' ([] @ take (Suc k) loc) = fs ([] @ take (Suc k) loc)" for k
  proof -
    have "\<not> prefix (loc @ [s]) (take (Suc k) loc)"
      by (metis append_eq_conv_conj append_take_drop_id length_append_singleton not_less_eq_eq order_refl prefix_length_le prefix_order.trans take_is_prefix)
    then show ?thesis using assms(1) by (simp add: made_def)
  qed
  then have "plain_dirs fs' [] loc" using assms(2) by (simp add: plain_dirs_def)
  then show ?thesis using assms(1) by (simp add: made_def)
qed

lemma create_dir_name:
  assumes "is_dir fs base"
  shows "create_dir fs base [Normal s] =
    (if fs (base @ [s]) = None then (Ok (), fs(base @ [s] \<mapsto> DirNode)) else (Err AlreadyExists, fs))"
  using assms by (simp add: create_dir_def resolve_parent_def)

lemma create_fresh_below:
  assumes "create_fresh_dir base s fs = (r, fs')" "is_dir fs base"
  shows "below base fs fs'"
proof -
  have "below base fs (fs(base @ [s] \<mapsto> DirNode))" by (simp add: below_def strict_prefix_def)
  then show ?thesis
    using assms by (auto simp: create_fresh_dir_def create_dir_name split: sum.splits if_splits prod.splits)
qed

lemma run_planned_below:
  assumes "run_planned env sb req overlay state fs = (r, fs')" "spawns_below (re_spawn env)" "isolating (sb_backend sb)"
  shows "below overlay fs fs'"
proof -
  let ?tmp = "path_join (path_of overlay) ''.jitgen-tmp''"
  define i where "i = \<lparr>pi_backend = sb_backend sb, pi_req = rr_command req,
      pi_overlay_root = path_of overlay, pi_synthetic_tmp = ?tmp,
      pi_env = fst (build_env (re_esc env) (re_parent env) (sb_policy sb)
        (path_join (path_of overlay) ''.jitgen-home'') ?tmp (path_of overlay) (path_of state)),
      pi_policy = sb_policy sb, pi_instance = rr_instance req, pi_run_as = rr_run_as req\<rparr>"
  have "below overlay fs fs1"
    if "build_plan i = Ok plan" "run_reporting rx ex (re_spawn env) plan pol fs = (r1, d1, fs1)" for plan rx ex pol r1 d1 fs1
  proof -
    have b: "below overlay fs (snd (re_spawn env program plan fs))" for program
      using assms(2,3) that(1) unfolding spawns_below_def by (simp add: i_def)
    have "fs1 = fs \<or> (\<exists>program. fs1 = snd (re_spawn env program plan fs))"
      using that(2) by (auto simp: run_reporting_def split: option.splits prod.splits sum.splits) (metis snd_conv)+
    then show ?thesis using b by auto
  qed
  then show ?thesis
    using assms(1) by (auto simp: run_planned_def Let_def i_def [symmetric] split: sum.splits prod.splits if_splits)
qed

lemma sandbox_run_below:
  assumes "sandbox_run env sb req fs = (r, fs')" "spawns_below (re_spawn env)" "isolating (sb_backend sb)"
    "canonicalize fs (re_cwd env) (rr_overlay_root req) = Ok overlay" "is_dir fs overlay"
  shows "below overlay fs fs'"
proof (cases "has_silent_degradation_mode (sb_backend sb) \<and> backend_silently_degrades (re_before env) (sb_backend sb)")
  case True
  then show ?thesis using assms(1) by (simp add: sandbox_run_def)
next
  case False
  show ?thesis
  proof (cases "canonicalize fs (re_cwd env) (rr_state_root req)")
    case (Inl e)
    then show ?thesis using assms(1,4) False by (simp add: sandbox_run_def)
  next
    case (Inr state)
    obtain r1 fs1 where h: "create_fresh_dir overlay ''.jitgen-home'' fs = (r1, fs1)" by fastforce
    note b1 = create_fresh_below [OF h assms(5)]
    obtain r2 fs2 where t: "create_fresh_dir overlay ''.jitgen-tmp'' fs1 = (r2, fs2)" by fastforce
    have b2: "below overlay fs fs2"
      using create_fresh_below [OF t] below_is_dir [OF b1] assms(5) below_trans [OF b1] by simp
    have "below overlay fs fs3" if "run_planned env sb req overlay state fs2 = (r3, fs3)" for r3 fs3
      using below_trans [OF b2 run_planned_below [OF that assms(2,3)]] .
    then show ?thesis
      using assms(1,4) False Inr h t b1 b2 by (auto simp: sandbox_run_def split: sum.splits)
  qed
qed

lemma run_in_overlay_below:
  assumes "run_in_overlay x cmd overlay inst fs = (r, fs')" "spawns_below (re_spawn (se_run_env x))"
    "isolating (sb_backend (se_sandbox x))" "canonicalize fs (re_cwd (se_run_env x)) overlay = Ok loc" "is_dir fs loc"
  shows "below loc fs fs'"
proof -
  obtain r1 where "sandbox_run (se_run_env x) (se_sandbox x)
       \<lparr>rr_command = to_spawn cmd (la_id (se_adapter x)), rr_overlay_root = overlay,
        rr_state_root = se_state_root x, rr_instance = inst, rr_run_as = se_run_as x\<rparr> fs = (r1, fs')"
    using assms(1) by (auto simp: run_in_overlay_def split: prod.splits sum.splits)
  from sandbox_run_below [OF this assms(2,3)] assms(4,5) show ?thesis by simp
qed

text \<open>Names of overlays.\<close>

definition key_char :: "char \<Rightarrow> bool" where
  "key_char b \<longleftrightarrow> ascii_alnum b \<or> b = CHR ''-''"

lemma key_char_digit: "ascii_digit b \<Longrightarrow> key_char b"
  by (simp add: key_char_def ascii_alnum_def)

lemma key_char_hex: "lower_hex b \<Longrightarrow> key_char b"
  by (auto simp: key_char_def lower_hex_def ascii_alnum_def ascii_lower_def)

lemma tag_chunk_id:
  "list_all key_char (if list_all ascii_alnum (to_ascii_lowercase k) \<or> k = ''-'' then to_ascii_lowercase k else ''-'')"
proof (cases "list_all ascii_alnum (to_ascii_lowercase k)")
  case True
  then show ?thesis by (simp add: list_all_iff key_char_def)
next
  case False
  have "to_ascii_lowercase ''-'' = ''-''" by code_simp
  then show ?thesis using False by (simp add: key_char_def)
qed

lemma list_all_concat: "list_all P (concat xss) \<longleftrightarrow> list_all (list_all P) xss"
  by (induction xss) auto

lemma list_all_take: "list_all P xs \<Longrightarrow> list_all P (take n xs)"
  by (auto simp: list_all_iff dest!: in_set_takeD)

lemma list_all_map_each: "(\<And>x. P (f x)) \<Longrightarrow> list_all P (map f xs)"
  by (induction xs) auto

lemma sanitize_tag_id: "list_all key_char (sanitize_tag s)"
  unfolding sanitize_tag_def list_all_concat
  by (rule list_all_take, rule list_all_map_each, rule tag_chunk_id)

lemma show_nat_id: "list_all key_char (show_nat n)"
  using show_nat_digits [of n] key_char_digit by (auto simp: list_all_iff)

lemma overlay_name_id:
  assumes "hex_hash sha"
  shows "list_all key_char (overlay_name (overlay_key sha v c) pid n)"
proof -
  have "list_all key_char (take 32 (sha s))" for s
    using assms key_char_hex by (auto simp: hex_hash_def list_all_iff dest!: in_set_takeD)
  moreover have "list_all key_char (variant_tag v)"
    using sanitize_tag_id by (cases v) (auto simp: variant_tag_def key_char_def ascii_alnum_def ascii_lower_def)
  moreover have "key_char (CHR ''-'')" by (simp add: key_char_def)
  ultimately show ?thesis using show_nat_id by (simp add: overlay_name_def overlay_key_def)
qed

lemma plain_name_id: "list_all key_char s \<Longrightarrow> CHR ''-'' \<in> set s \<Longrightarrow> plain_name s"
  by (auto simp: plain_name_def list_all_iff key_char_def ascii_alnum_def ascii_lower_def ascii_upper_def ascii_digit_def)

lemma overlay_name_plain:
  assumes "hex_hash sha"
  shows "plain_name (overlay_name (overlay_key sha v c) pid n)"
  by (rule plain_name_id [OF overlay_name_id [OF assms]]) (simp add: overlay_name_def)

lemma child_overlay_canonical:
  assumes "canonical_dir fs ovs" "plain_name name" "made (ov_loc ovs @ [name]) fs fs'"
  shows "canonicalize fs' cwd (ov_text (child_overlay ovs name)) = Ok (ov_loc ovs @ [name])"
    "is_dir fs' (ov_loc ovs @ [name])"
proof -
  have loc: "list_all plain_name (ov_loc ovs @ [name])" using assms(1,2) by (simp add: canonical_dir_def)
  have "ov_text (child_overlay ovs name) = path_of (ov_loc ovs @ [name])"
    using assms(1,2) path_join_path_of by (simp add: canonical_dir_def child_overlay_def)
  moreover have "plain_dirs fs' [] (ov_loc ovs @ [name])"
    using made_canonical [OF assms(3)] assms(1) by (simp add: canonical_dir_def)
  ultimately show "canonicalize fs' cwd (ov_text (child_overlay ovs name)) = Ok (ov_loc ovs @ [name])"
    using canonicalize_path_of [OF loc] by simp
  show "is_dir fs' (ov_loc ovs @ [name])" using assms(3) by (simp add: made_def is_dir_def)
qed

text \<open>What the setting of an execution has to be.\<close>

definition private_overlays :: "'oid sandbox_executor \<Rightarrow> filesys \<Rightarrow> bool" where
  "private_overlays x fs \<longleftrightarrow> rooted fs \<and> canonical_dir fs (se_overlays x) \<and> hex_hash (se_sha x)
     \<and> isolating (sb_backend (se_sandbox x)) \<and> spawns_below (re_spawn (se_run_env x))"

lemma canonical_is_dir: "canonical_dir fs ov \<Longrightarrow> is_dir fs (ov_loc ov)"
  using plain_dirs_is_dir [of fs "[]" "ov_loc ov"] by (simp add: canonical_dir_def is_dir_def)

lemma allocate_overlay_made:
  assumes "allocate_overlay x v (overlay_key (se_sha x) v c) attempts w = (r, w')" "private_overlays x (xw_fs w)"
  shows "case r of Err e \<Rightarrow> overlay_gone (re_stuck (se_run_env x)) (ov_loc (se_overlays x)) (xw_fs w) (xw_fs w')
    | Ok name \<Rightarrow> plain_name name \<and> made (ov_loc (se_overlays x) @ [name]) (xw_fs w) (xw_fs w')"
  using assms
proof (induction attempts arbitrary: w)
  case (Suc attempts)
  let ?fs = "xw_fs w" and ?base = "ov_loc (se_overlays x)"
    and ?name = "overlay_name (overlay_key (se_sha x) v c) (se_pid x) (xw_nonce w)"
  have pv: "rooted ?fs" "canonical_dir ?fs (se_overlays x)" "hex_hash (se_sha x)"
    using Suc.prems(2) by (simp_all add: private_overlays_def)
  have plain: "plain_name ?name" by (rule overlay_name_plain [OF pv(3)])
  note cd = create_dir_name [OF canonical_is_dir [OF pv(2)], of ?name]
  show ?case
  proof (cases "?fs (?base @ [?name]) = None")
    case False
    have cdf: "create_dir ?fs ?base [Normal ?name] = (Err AlreadyExists, ?fs)"
      using cd by (simp only: if_not_P [OF False])
    have "allocate_overlay x v (overlay_key (se_sha x) v c) attempts (w\<lparr>xw_nonce := (xw_nonce w + 1) mod 2 ^ 64\<rparr>) = (r, w')"
      using Suc.prems(1) by (simp add: Let_def cdf)
    from Suc.IH [OF this] Suc.prems(2) show ?thesis by (cases r) simp_all
  next
    case True
    let ?fs1 = "?fs(?base @ [?name] \<mapsto> DirNode)"
    let ?dir = "child_overlay (se_overlays x) ?name"
    have cdt: "create_dir ?fs ?base [Normal ?name] = (Ok (), ?fs1)"
      using cd by (simp only: if_P [OF True])
    have m1: "made (?base @ [?name]) ?fs ?fs1"
      using rooted_below_missing [OF pv(1) True] by (simp add: made_def)
    obtain r2 fs2 where pop: "populate_overlay x v ?dir ?fs1 = (r2, fs2)" by fastforce
    have loc: "ov_loc ?dir = ?base @ [?name]" by (simp add: child_overlay_def)
    have "below (?base @ [?name]) ?fs1 fs2"
      using populate_below [OF pop] by (simp add: loc is_dir_def)
    then have m2: "made (?base @ [?name]) ?fs fs2" by (rule made_below [OF m1])
    show ?thesis
      using Suc.prems(1) pop m2 plain remove_made [OF m2]
      by (cases r2) (auto simp: Let_def cdt)
  qed
qed (auto simp: overlay_gone_def)

lemma candidate_body_below:
  assumes "candidate_body x c name w = (r, w')" "spawns_below (re_spawn (se_run_env x))"
    "isolating (sb_backend (se_sandbox x))"
    "canonicalize (xw_fs w) (re_cwd (se_run_env x)) (ov_text (child_overlay (se_overlays x) name)) = Ok loc"
    "is_dir (xw_fs w) loc"
    "\<And>fs'. below loc (xw_fs w) fs' \<Longrightarrow> canonicalize fs' (re_cwd (se_run_env x)) (path_of loc) = Ok loc"
  shows "below loc (xw_fs w) (xw_fs w')"
proof -
  let ?ov = "\<lparr>mo_root = path_of loc, mo_loc = loc\<rparr>"
  obtain r1 n fs1 where m: "materialize (se_sha x) (se_pid x) ?ov c (xw_temp w) (xw_fs w) = (r1, n, fs1)"
    by (metis prod.collapse)
  have "new_entries loc (normals (components (tc_rel_path c))) (tc_source c) (xw_fs w) fs1"
    using materialize_effect [OF _ m] assms(5) by simp
  then have b1: "below loc (xw_fs w) fs1" by (rule new_entries_below)
  have "below loc (xw_fs w) fs2"
    if "run_in_overlay x cmd (path_of loc) (instance_of (ov_text (child_overlay (se_overlays x) name))) fs1 = (r2, fs2)"
    for cmd r2 fs2
    using below_trans [OF b1 run_in_overlay_below [OF that assms(2,3) assms(6) [OF b1]]]
      assms(5) below_is_dir [OF b1] by simp
  then show ?thesis
    using assms(1,4,5) m b1
    by (auto simp: candidate_body_def Let_def overlay_open_def split: sum.splits prod.splits)
qed

lemma existing_body_below:
  assumes "existing_body x name w = (r, w')" "spawns_below (re_spawn (se_run_env x))"
    "isolating (sb_backend (se_sandbox x))"
    "canonicalize (xw_fs w) (re_cwd (se_run_env x)) (ov_text (child_overlay (se_overlays x) name)) = Ok loc"
    "is_dir (xw_fs w) loc"
  shows "below loc (xw_fs w) (xw_fs w')"
  using assms(1) run_in_overlay_below [OF _ assms(2-5)]
  by (auto simp: existing_body_def Let_def split: sum.splits prod.splits)

lemma guarded_made:
  assumes "guarded x name body w1 = (r, w')" "made (ov_loc (se_overlays x) @ [name]) fs (xw_fs w1)"
    "\<And>r2 w2. body w1 = (r2, w2) \<Longrightarrow> below (ov_loc (se_overlays x) @ [name]) (xw_fs w1) (xw_fs w2)"
  shows "overlay_gone (re_stuck (se_run_env x)) (ov_loc (se_overlays x)) fs (xw_fs w')"
proof -
  obtain r2 w2 where b: "body w1 = (r2, w2)" by fastforce
  show ?thesis
    using assms(1) remove_made [OF made_below [OF assms(2) assms(3) [OF b]]] by (auto simp: guarded_def b)
qed

lemma execute_candidate_traceless:
  assumes "private_overlays x (xw_fs w)" "execute_candidate x c v w = (r, w')"
  shows "overlay_gone (re_stuck (se_run_env x)) (ov_loc (se_overlays x)) (xw_fs w) (xw_fs w')"
proof -
  obtain r1 w1 where f: "fresh_overlay x v (Some c) w = (r1, w1)" by fastforce
  note a = allocate_overlay_made [OF f [unfolded fresh_overlay_def] assms(1)]
  show ?thesis
  proof (cases r1)
    case (Inl e)
    then show ?thesis using assms(2) f a by (simp add: execute_candidate_def)
  next
    case (Inr name)
    let ?loc = "ov_loc (se_overlays x) @ [name]"
    have nm: "plain_name name" and m: "made ?loc (xw_fs w) (xw_fs w1)" using a Inr by simp_all
    have pv: "canonical_dir (xw_fs w) (se_overlays x)" "spawns_below (re_spawn (se_run_env x))"
      "isolating (sb_backend (se_sandbox x))" using assms(1) by (simp_all add: private_overlays_def)
    have root_text: "ov_text (child_overlay (se_overlays x) name) = path_of ?loc"
      using pv(1) nm path_join_path_of by (simp add: canonical_dir_def child_overlay_def)
    show ?thesis
    proof (rule guarded_made [OF _ m])
      show "guarded x name (candidate_body x c name) w1 = (r, w')"
        using assms(2) f Inr by (simp add: execute_candidate_def)
      fix r2 w2 assume "candidate_body x c name w1 = (r2, w2)"
      then show "below ?loc (xw_fs w1) (xw_fs w2)"
        by (rule candidate_body_below [OF _ pv(2,3) child_overlay_canonical [OF pv(1) nm m]])
          (use child_overlay_canonical(1) [OF pv(1) nm made_below [OF m]] root_text in simp)
    qed
  qed
qed

lemma execute_existing_traceless:
  assumes "private_overlays x (xw_fs w)" "execute_existing x v w = (r, w')"
  shows "overlay_gone (re_stuck (se_run_env x)) (ov_loc (se_overlays x)) (xw_fs w) (xw_fs w')"
proof -
  obtain r1 w1 where f: "fresh_overlay x v None w = (r1, w1)" by fastforce
  note a = allocate_overlay_made [OF f [unfolded fresh_overlay_def] assms(1)]
  show ?thesis
  proof (cases r1)
    case (Inl e)
    then show ?thesis using assms(2) f a by (simp add: execute_existing_def)
  next
    case (Inr name)
    have nm: "plain_name name" and m: "made (ov_loc (se_overlays x) @ [name]) (xw_fs w) (xw_fs w1)"
      using a Inr by simp_all
    have pv: "canonical_dir (xw_fs w) (se_overlays x)" "spawns_below (re_spawn (se_run_env x))"
      "isolating (sb_backend (se_sandbox x))" using assms(1) by (simp_all add: private_overlays_def)
    show ?thesis
      by (rule guarded_made [OF _ m, of "existing_body x name" r])
        (use assms(2) f Inr existing_body_below [OF _ pv(2,3) child_overlay_canonical [OF pv(1) nm m]]
         in \<open>simp_all add: execute_existing_def\<close>)
  qed
qed

text \<open>C9: An execution cleans up after itself. When the overlays stand in a canonical directory, the sandbox has an
  isolating backend and a process that was started with such a plan writes below its overlay only, then
  after running a candidate or the existing tests the file system is what it was before, whatever the
  candidate, the mutant, the repository and the process did and however the execution ended. The one exception is
  a removal that the system refuses, whose error the executor drops: then of the one directory that this execution
  made, and that was not there before, what the system refused to remove is left, and all else is as before.\<close>

theorem execution_leaves_no_trace:
  assumes "private_overlays x (xw_fs w)"
    "run_candidate (executor_of x) c v w = (r, w') \<or> run_existing (executor_of x) v w = (r, w')"
  shows "xw_fs w' = xw_fs w
    \<or> (\<exists>name. left_behind (re_stuck (se_run_env x)) (ov_loc (se_overlays x) @ [name]) (xw_fs w) (xw_fs w'))"
  using assms execute_candidate_traceless execute_existing_traceless
  unfolding overlay_gone_def [symmetric] by (auto simp: executor_of_def)

definition docker_executor :: "nat sandbox_executor" where
  "docker_executor = \<lparr>se_repo = sample_repo, se_walk = sample_walk, se_snapshot = snapshot_new [] [],
     se_config = resolved_config_new default_trusted default_repo_config [],
     se_adapter = \<lparr>la_id = ''rust'', la_detect = (\<lambda>_. detection_no), la_analyze_changes = (\<lambda>_ _. []),
        la_test_command = (\<lambda>_ _. Some (command_argv ''cargo'' [''test'', ''--quiet'']))\<rparr>,
     se_target = zig_target, se_base = 0, se_head = 0,
     se_sandbox = \<lparr>sb_backend = BkDocker, sb_policy = docker_policy, sb_warnings = []\<rparr>,
     se_state_root = ''/st'', se_overlays = \<lparr>ov_text = ''/st/ov'', ov_loc = [''st'', ''ov'']\<rparr>,
     se_run_as = Some ''1000:1000'',
     se_run_env = quiet_env\<lparr>re_before := docker_host\<lparr>ho_executable := (\<lambda>_. True)\<rparr>,
        re_spawn := (\<lambda>program plan fs. (Ok hung, fs))\<rparr>,
     se_sha = (\<lambda>_. replicate 64 (CHR ''a'')), se_pid = 7\<rparr>"

definition state_fs :: filesys where
  "state_fs = [[''st''] \<mapsto> DirNode, [''st'', ''ov''] \<mapsto> DirNode]"

lemma docker_executor_private: "private_overlays docker_executor state_fs"
proof -
  have "rooted state_fs"
    by (auto simp: rooted_def state_fs_def is_dir_def append_eq_Cons_conv append_eq_conv_conj take_Cons' split: if_splits)
  moreover have "canonical_dir state_fs (se_overlays docker_executor)"
    using plain_dirs_snoc [of state_fs "[]" "[''st'']" "''ov''"] plain_dirs_snoc [of state_fs "[]" "[]" "''st''"]
    by (simp add: canonical_dir_def docker_executor_def path_of_def plain_name_def state_fs_def)
  moreover have "list_all lower_hex (replicate 64 (CHR ''a''))"
    by (simp add: list_all_iff lower_hex_def)
  ultimately show ?thesis
    by (simp add: private_overlays_def hex_hash_def isolating_def spawns_below_def docker_executor_def)
qed

theorem execution_leaves_no_trace_witness:
  "xw_fs (snd (run_candidate (executor_of docker_executor) sample_generated Base
     \<lparr>xw_fs = state_fs, xw_nonce = 0, xw_temp = 0\<rparr>)) = state_fs"
proof -
  let ?w = "\<lparr>xw_fs = state_fs, xw_nonce = 0, xw_temp = 0\<rparr>"
  have p: "private_overlays docker_executor (xw_fs ?w)" using docker_executor_private by simp
  obtain r w' where run: "run_candidate (executor_of docker_executor) sample_generated Base ?w = (r, w')"
    by fastforce
  have "re_stuck (se_run_env docker_executor) = (\<lambda>_ _. [])" by (simp add: docker_executor_def quiet_env_def)
  then show ?thesis using execution_leaves_no_trace [OF p disjI1 [OF run]] run by (simp add: left_behind_def)
qed

text \<open>The exception is there: an overlay that the system refuses to remove stays.\<close>

lemma refused_overlay_stays:
  assumes "body w = (r, w2)" "xw_fs w2 dir = Some DirNode" "dir = ov_loc (se_overlays x) @ [name]"
    "list_ex (prefix dir) (re_stuck (se_run_env x) (xw_fs w2) dir)"
  shows "guarded x name body w = (r, w') \<Longrightarrow> xw_fs w' dir = Some DirNode"
  using assms by (auto simp: guarded_def remove_dir_all_def Let_def)

section \<open>Instance names\<close>

lemma sanitize_tag_length:
  assumes "ascii s"
  shows "length (sanitize_tag s) \<le> min 24 (length s)"
proof -
  let ?f = "\<lambda>k. if list_all ascii_alnum (to_ascii_lowercase k) \<or> k = ''-'' then to_ascii_lowercase k else ''-''"
  have one: "length (?f k) = 1" if "k \<in> set (chars s)" for k
    using chars_ascii [OF assms] that by (auto simp: to_ascii_lowercase_def)
  have "length (concat xs) = length xs" if "\<forall>k \<in> set xs. length k = 1" for xs :: "str list"
    using that by (induction xs) auto
  moreover have "\<forall>k \<in> set (take 24 (map ?f (chars s))). length k = 1"
    unfolding take_map set_map by (rule ballI, erule imageE, simp only:, rule one, erule in_set_takeD)
  moreover have "length (chars s) = length s" using chars_ascii [OF assms] by simp
  ultimately show ?thesis by (simp add: sanitize_tag_def)
qed

lemma overlay_file_name:
  assumes "plain_name name" "p \<noteq> []"
  shows "comps_file_name (components (path_join p name)) = Some name"
proof -
  have "\<not> is_absolute name" using assms(1) by (cases name) (auto simp: plain_name_def is_absolute_def)
  then have "components (path_join p name) = components p @ [Normal name]"
    using components_join [OF _ assms(2), of name] assms(1)
    by (simp add: plain_name_def split_on_no_sep seg_component_def)
  then show ?thesis by (simp add: comps_file_name_def)
qed

lemma variant_tag_length:
  assumes "case v of MutantOf m \<Rightarrow> ascii (mu_id m) \<and> length (mu_id m) \<le> 10 | _ \<Rightarrow> True"
  shows "length (variant_tag v) \<le> 14"
  using assms sanitize_tag_length by (cases v) (fastforce simp: variant_tag_def)+

text \<open>The name of every execution passes the sandbox's own check of instance names, which would
  otherwise refuse the run: for the base, the head and mutants with identifiers of at most ten characters
  (a target and a number), process ids of seven digits and a hundred thousand executions.\<close>

theorem instance_names_allowed:
  assumes "hex_hash sha" "pid < 10 ^ 7" "n < 10 ^ 5" "ov_text ovs \<noteq> []"
    "case v of MutantOf m \<Rightarrow> ascii (mu_id m) \<and> length (mu_id m) \<le> 10 | _ \<Rightarrow> True"
  shows "validate_instance (instance_of (ov_text (child_overlay ovs (overlay_name (overlay_key sha v c) pid n)))) = Ok ()"
proof -
  let ?name = "overlay_name (overlay_key sha v c) pid n"
  have inst: "instance_of (ov_text (child_overlay ovs ?name)) = ''jt-'' @ ?name"
    using overlay_file_name [OF overlay_name_plain [OF assms(1)] assms(4)]
    by (simp add: instance_of_def child_overlay_def)
  have "length (show_nat pid) \<le> 7" "length (show_nat n) \<le> 5"
    using length_show_nat [OF assms(2)] length_show_nat [OF assms(3)] by simp_all
  moreover have "length (take 32 (sha s)) = 32" for s using assms(1) by (simp add: hex_hash_def)
  ultimately have len: "length (''jt-'' @ ?name) \<le> 64"
    using variant_tag_length [OF assms(5)] by (simp add: overlay_name_def overlay_key_def)
  have "list_all key_char (''jt-'' @ ?name)"
    using overlay_name_id [OF assms(1)] by (simp add: key_char_def ascii_alnum_def ascii_lower_def)
  then have "list_all (\<lambda>b. ascii_alnum b \<or> b = CHR ''-'' \<or> b = CHR ''_'') (''jt-'' @ ?name)"
    by (auto simp: list_all_iff key_char_def)
  then have "instance_allowed (''jt-'' @ ?name)" using len by (simp add: instance_allowed_def)
  then show ?thesis using inst validate_instance_ok by simp
qed

theorem instance_names_allowed_witness:
  "validate_instance (instance_of (ov_text (child_overlay (se_overlays docker_executor)
     (overlay_name (overlay_key (se_sha docker_executor) Head (Some sample_generated)) 4194304 99999)))) = Ok ()"
proof -
  have "hex_hash (se_sha docker_executor)" using docker_executor_private by (simp add: private_overlays_def)
  then show ?thesis
    by (rule instance_names_allowed) (simp_all add: docker_executor_def)
qed

end
