(* ===== verification/Provider.thy ===== *)
theory Provider
  imports Assess Config
begin

text \<open>
  The real providers of \<open>jitgen-llm\<close>: the check of an endpoint (\<open>http.rs\<close>), the key and the messages
  of an error (\<open>real/mod.rs\<close>, \<open>real/secret.rs\<close>), the two protocols (\<open>real/anthropic.rs\<close>,
  \<open>real/openai.rs\<close>) and the switch between them and the mock (\<open>provider.rs\<close>). The transport threads the
  state of the world; it, the environment's variables and \<open>serde_json\<close> are parameters.
\<close>

section \<open>The code\<close>

subsection \<open>\<open>http.rs\<close>\<close>

type_synonym header = "str \<times> str"

record http_outcome =
  ho_status :: u16
  ho_body :: str

type_synonym 'w transport = "str \<Rightarrow> header list \<Rightarrow> str \<Rightarrow> 'w \<Rightarrow> (str + http_outcome) \<times> 'w"

definition host_of :: "str \<Rightarrow> str" where
  "host_of after_scheme =
     (let authority = last (split_on (CHR ''@'') (hd (split_on (CHR ''/'') after_scheme))) in
      case strip_prefix authority ''['' of
        Some rest \<Rightarrow> hd (split_on (CHR '']'') rest)
      | None \<Rightarrow> hd (split_on (CHR '':'') authority))"

definition is_loopback :: "str \<Rightarrow> bool" where
  "is_loopback host \<longleftrightarrow> host \<in> {''localhost'', ''127.0.0.1'', ''::1''}"

definition validate_endpoint :: "(str \<Rightarrow> str) \<Rightarrow> str \<Rightarrow> str + unit" where
  "validate_endpoint esc url =
     (case strip_prefix url ''https://'' of
        Some _ \<Rightarrow> Ok ()
      | None \<Rightarrow>
          (case strip_prefix url ''http://'' of
             Some after \<Rightarrow>
               if is_loopback (host_of after) then Ok ()
               else Err (''refusing plain-HTTP endpoint '' @ debug_str esc url
                      @ '': real providers require https:// (only a loopback host may use http://)'')
           | None \<Rightarrow> Err (''endpoint '' @ debug_str esc url
                      @ '' must start with https:// (or http:// for a loopback address)'')))"

subsection \<open>\<open>real/mod.rs\<close>\<close>

definition DEFAULT_ANTHROPIC_MODEL :: str where "DEFAULT_ANTHROPIC_MODEL = ''claude-sonnet-4-6''"
definition ANTHROPIC_KEY_ENV :: str where "ANTHROPIC_KEY_ENV = ''ANTHROPIC_API_KEY''"
definition OPENAI_KEY_ENV :: str where "OPENAI_KEY_ENV = ''OPENAI_API_KEY''"
definition ANTHROPIC_VERSION :: str where "ANTHROPIC_VERSION = ''2023-06-01''"
definition ANTHROPIC_DEFAULT_BASE :: str where "ANTHROPIC_DEFAULT_BASE = ''https://api.anthropic.com''"
definition MAX_OUTPUT_TOKENS :: nat where "MAX_OUTPUT_TOKENS = 4096"
definition SNIPPET_CAP :: nat where "SNIPPET_CAP = 256"

datatype secret = Secret str

fun expose :: "secret \<Rightarrow> str" where
  "expose (Secret v) = v"

definition secret_debug :: "secret \<Rightarrow> str" where
  "secret_debug k = ''Secret([REDACTED])''"

text \<open>The result of looking a variable up.\<close>

datatype var_lookup = VarSet str | NotPresent | NotUnicode

record llm_env =
  le_esc :: "str \<Rightarrow> str"
  le_var :: "str \<Rightarrow> var_lookup"
  le_parse :: "str \<Rightarrow> str + json"
  le_write :: "json \<Rightarrow> str"

definition default_key_env :: "provider_kind \<Rightarrow> str option" where
  "default_key_env kind =
     (case kind of
        Anthropic \<Rightarrow> Some ANTHROPIC_KEY_ENV
      | OpenAiCompatible \<Rightarrow> Some OPENAI_KEY_ENV
      | ProviderLocal \<Rightarrow> None
      | ProviderMock \<Rightarrow> None)"

definition provider_key_env :: "provider_config \<Rightarrow> str option" where
  "provider_key_env cfg = (case pc_api_key_env cfg of Some v \<Rightarrow> Some v | None \<Rightarrow> default_key_env (pc_kind cfg))"

definition quote_var :: "str \<Rightarrow> str" where
  "quote_var v = [CHR 0x60] @ v @ [CHR 0x60]"

definition key_from_value :: "str \<Rightarrow> str option \<Rightarrow> generation_error + secret" where
  "key_from_value env_var v =
     (case v of
        Some k \<Rightarrow>
          if trim k \<noteq> [] then Ok (Secret k)
          else Err (GenConfig (''API key env var '' @ quote_var env_var
                 @ '' is not set (or is empty); export it before running with --real-llm''))
      | None \<Rightarrow> Err (GenConfig (''API key env var '' @ quote_var env_var
                 @ '' is not set (or is empty); export it before running with --real-llm'')))"

definition key_from_var_result :: "str \<Rightarrow> var_lookup \<Rightarrow> generation_error + secret" where
  "key_from_var_result env_var result =
     (case result of
        VarSet v \<Rightarrow> key_from_value env_var (Some v)
      | NotPresent \<Rightarrow> key_from_value env_var None
      | NotUnicode \<Rightarrow> Err (GenConfig (''API key env var '' @ quote_var env_var
          @ '' is set but contains non-UTF-8 bytes; re-export it as valid UTF-8'')))"

definition read_key :: "llm_env \<Rightarrow> str \<Rightarrow> generation_error + secret" where
  "read_key env env_var = key_from_var_result env_var (le_var env env_var)"

definition snippet :: "str \<Rightarrow> str" where
  "snippet s =
     (let out = concat (take SNIPPET_CAP (chars s)) in
      if SNIPPET_CAP < length (chars s) then out @ [CHR 0xE2, CHR 0x80, CHR 0xA6] else out)"

text \<open>\<open>v.get("error").get("message").as_str()\<close>\<close>

definition error_text :: "json \<Rightarrow> str option" where
  "error_text v =
     (case json_get v ''error'' of
        Some e \<Rightarrow> (case json_get e ''message'' of Some (JStr m) \<Rightarrow> Some m | _ \<Rightarrow> None)
      | None \<Rightarrow> None)"

definition http_error_message :: "llm_env \<Rightarrow> u16 \<Rightarrow> str \<Rightarrow> str" where
  "http_error_message env status body =
     ''HTTP '' @ show_nat (unat status) @ '': ''
     @ (case le_parse env body of
          Ok v \<Rightarrow> (case error_text v of Some msg \<Rightarrow> snippet msg | None \<Rightarrow> snippet body)
        | Err _ \<Rightarrow> snippet body)"

definition trim_slashes :: "str \<Rightarrow> str" where
  "trim_slashes s = rev (dropWhile (\<lambda>c. c = CHR ''/'') (rev s))"

definition success_status :: "u16 \<Rightarrow> bool" where
  "success_status s \<longleftrightarrow> 200 \<le> unat s \<and> unat s < 300"

subsection \<open>\<open>real/anthropic.rs\<close>\<close>

record anthropic_provider =
  an_base_url :: str
  an_model :: str
  an_key :: str

definition anthropic_new :: "provider_config \<Rightarrow> anthropic_provider" where
  "anthropic_new cfg =
     \<lparr>an_base_url = (case pc_base_url cfg of Some u \<Rightarrow> u | None \<Rightarrow> ANTHROPIC_DEFAULT_BASE),
      an_model = (case pc_model cfg of Some m \<Rightarrow> m | None \<Rightarrow> DEFAULT_ANTHROPIC_MODEL),
      an_key = (case provider_key_env cfg of Some v \<Rightarrow> v | None \<Rightarrow> ANTHROPIC_KEY_ENV)\<rparr>"

definition anthropic_endpoint :: "anthropic_provider \<Rightarrow> str" where
  "anthropic_endpoint p = trim_slashes (an_base_url p) @ ''/v1/messages''"

definition anthropic_body :: "llm_env \<Rightarrow> str \<Rightarrow> llm_request \<Rightarrow> str" where
  "anthropic_body env model req =
     le_write env (JObj
       [(''model'', JStr model), (''max_tokens'', JNum (Fin (of_nat MAX_OUTPUT_TOKENS))),
        (''system'', JStr (pr_system (rq_prompt req))),
        (''messages'', JArr [JObj [(''role'', JStr ''user''), (''content'', JStr (pr_user (rq_prompt req)))]])])"

text \<open>The text of a content block of the kind \<open>text\<close>.\<close>

definition block_text :: "json \<Rightarrow> str" where
  "block_text b =
     (if json_get b ''type'' = Some (JStr ''text'')
      then (case json_get b ''text'' of Some (JStr t) \<Rightarrow> t | _ \<Rightarrow> []) else [])"

definition parse_anthropic_response :: "llm_env \<Rightarrow> str \<Rightarrow> generation_error + str" where
  "parse_anthropic_response env body =
     (case le_parse env body of
        Err e \<Rightarrow> Err (GenProvider (''anthropic: invalid JSON response: '' @ e))
      | Ok v \<Rightarrow>
          (case error_text v of
             Some msg \<Rightarrow> Err (GenProvider (''anthropic API error: '' @ snippet msg))
           | None \<Rightarrow>
               (case json_get v ''content'' of
                  Some (JArr blocks) \<Rightarrow>
                    (let t = concat (map block_text blocks) in
                     if t = [] then Err (GenProvider ''anthropic: response had no text content'') else Ok t)
                | _ \<Rightarrow> Err (GenProvider (''anthropic: response missing '' @ quote_var ''content'' @ '' array'')))))"

definition anthropic_generate ::
  "llm_env \<Rightarrow> 'w transport \<Rightarrow> anthropic_provider \<Rightarrow> 'w provider" where
  "anthropic_generate env post p req w =
     (let endpoint = anthropic_endpoint p in
      case validate_endpoint (le_esc env) endpoint of
        Err e \<Rightarrow> (Err (GenConfig e), w)
      | Ok _ \<Rightarrow>
          (case read_key env (an_key p) of
             Err e \<Rightarrow> (Err e, w)
           | Ok key \<Rightarrow>
               (case post endpoint [(''x-api-key'', expose key), (''anthropic-version'', ANTHROPIC_VERSION)]
                       (anthropic_body env (an_model p) req) w of
                  (Err e, w) \<Rightarrow> (Err (GenProvider e), w)
                | (Ok outcome, w) \<Rightarrow>
                    if \<not> success_status (ho_status outcome)
                    then (Err (GenProvider (''anthropic '' @ http_error_message env (ho_status outcome) (ho_body outcome))), w)
                    else (case parse_anthropic_response env (ho_body outcome) of
                            Err e \<Rightarrow> (Err e, w)
                          | Ok t \<Rightarrow> (Ok \<lparr>rs_raw = t\<rparr>, w)))))"

subsection \<open>\<open>real/openai.rs\<close>\<close>

record openai_provider =
  oa_base_url :: "str option"
  oa_model :: "str option"
  oa_key :: "str option"
  oa_name :: str

definition openai_build :: "provider_config \<Rightarrow> str \<Rightarrow> openai_provider" where
  "openai_build cfg nm =
     \<lparr>oa_base_url = pc_base_url cfg, oa_model = pc_model cfg, oa_key = provider_key_env cfg, oa_name = nm\<rparr>"

definition openai_body :: "llm_env \<Rightarrow> str \<Rightarrow> llm_request \<Rightarrow> str" where
  "openai_body env model req =
     le_write env (JObj
       [(''model'', JStr model), (''max_tokens'', JNum (Fin (of_nat MAX_OUTPUT_TOKENS))),
        (''messages'', JArr
          [JObj [(''role'', JStr ''system''), (''content'', JStr (pr_system (rq_prompt req)))],
           JObj [(''role'', JStr ''user''), (''content'', JStr (pr_user (rq_prompt req)))]])])"

text \<open>\<open>choices[0].message.content\<close>\<close>

definition first_choice :: "json \<Rightarrow> str option" where
  "first_choice v =
     (case json_get v ''choices'' of
        Some (JArr (c # _)) \<Rightarrow>
          (case json_get c ''message'' of
             Some m \<Rightarrow> (case json_get m ''content'' of Some (JStr t) \<Rightarrow> Some t | _ \<Rightarrow> None)
           | None \<Rightarrow> None)
      | _ \<Rightarrow> None)"

definition parse_openai_response :: "llm_env \<Rightarrow> str \<Rightarrow> generation_error + str" where
  "parse_openai_response env body =
     (case le_parse env body of
        Err e \<Rightarrow> Err (GenProvider (''openai: invalid JSON response: '' @ e))
      | Ok v \<Rightarrow>
          (case error_text v of
             Some msg \<Rightarrow> Err (GenProvider (''provider API error: '' @ snippet msg))
           | None \<Rightarrow>
               (case first_choice v of
                  None \<Rightarrow> Err (GenProvider ''openai: response missing choices[0].message.content'')
                | Some t \<Rightarrow> if t = [] then Err (GenProvider ''openai: response had empty content'') else Ok t)))"

text \<open>The authorization header, when a variable for the key is configured.\<close>

definition bearer_headers :: "llm_env \<Rightarrow> str option \<Rightarrow> generation_error + header list" where
  "bearer_headers env key =
     (case key of
        None \<Rightarrow> Ok []
      | Some var \<Rightarrow>
          (case read_key env var of
             Err e \<Rightarrow> Err e | Ok k \<Rightarrow> Ok [(''authorization'', ''Bearer '' @ expose k)]))"

definition openai_endpoint :: "str \<Rightarrow> str" where
  "openai_endpoint b = trim_slashes b @ ''/chat/completions''"

definition openai_generate ::
  "llm_env \<Rightarrow> 'w transport \<Rightarrow> openai_provider \<Rightarrow> 'w provider" where
  "openai_generate env post p req w =
     (case oa_base_url p of
        None \<Rightarrow> (Err (GenConfig (oa_name p @ '' provider requires '' @ quote_var ''base_url'' @ '' in trusted config'')), w)
      | Some b \<Rightarrow>
     (case oa_model p of
        None \<Rightarrow> (Err (GenConfig (oa_name p @ '' provider requires '' @ quote_var ''model'' @ '' in trusted config'')), w)
      | Some model \<Rightarrow>
          (let endpoint = openai_endpoint b in
           case validate_endpoint (le_esc env) endpoint of
             Err e \<Rightarrow> (Err (GenConfig e), w)
           | Ok _ \<Rightarrow>
               (case bearer_headers env (oa_key p) of
                  Err e \<Rightarrow> (Err e, w)
                | Ok headers \<Rightarrow>
                    (case post endpoint headers (openai_body env model req) w of
                       (Err e, w) \<Rightarrow> (Err (GenProvider e), w)
                     | (Ok outcome, w) \<Rightarrow>
                         if \<not> success_status (ho_status outcome)
                         then (Err (GenProvider (oa_name p @ '' ''
                                @ http_error_message env (ho_status outcome) (ho_body outcome))), w)
                         else (case parse_openai_response env (ho_body outcome) of
                                 Err e \<Rightarrow> (Err e, w)
                               | Ok t \<Rightarrow> (Ok \<lparr>rs_raw = t\<rparr>, w)))))))"

subsection \<open>\<open>provider.rs\<close>\<close>

definition provider_is_mock :: "provider_config \<Rightarrow> bool" where
  "provider_is_mock p \<longleftrightarrow> \<not> pc_real_llm p \<or> pc_kind p = ProviderMock"

text \<open>The release build: the arm of the mock that cannot be reached falls back to it.\<close>

definition make_real ::
  "llm_env \<Rightarrow> (llm_request \<Rightarrow> nat) \<Rightarrow> 'w transport \<Rightarrow> provider_config \<Rightarrow> 'w provider" where
  "make_real env hash post cfg =
     (case pc_kind cfg of
        Anthropic \<Rightarrow> anthropic_generate env post (anthropic_new cfg)
      | OpenAiCompatible \<Rightarrow> openai_generate env post (openai_build cfg ''openai-compatible'')
      | ProviderLocal \<Rightarrow> openai_generate env post (openai_build cfg ''local'')
      | ProviderMock \<Rightarrow> mock_generate hash)"

definition make_provider ::
  "llm_env \<Rightarrow> (llm_request \<Rightarrow> nat) \<Rightarrow> 'w transport \<Rightarrow> resolved_config \<Rightarrow> 'w provider" where
  "make_provider env hash post config =
     (let provider = tc_provider (cfg_trusted config) in
      if provider_is_mock provider then mock_generate hash else make_real env hash post provider)"

section \<open>Lemmas\<close>

lemma validated:
  "validate_endpoint esc url = Ok u \<longleftrightarrow>
     starts_with url ''https://'' \<or> (\<exists>after. url = ''http://'' @ after \<and> is_loopback (host_of after))"
proof (cases "strip_prefix url ''https://''")
  case (Some r)
  then show ?thesis by (simp add: validate_endpoint_def strip_prefix_def split: if_splits)
next
  case None
  then have "\<not> starts_with url ''https://''" by (metis strip_prefix_def option.distinct(1))
  show ?thesis
  proof (cases "strip_prefix url ''http://''")
    case None
    then have "\<And>after. url \<noteq> ''http://'' @ after" using strip_prefix_Some [of url "''http://''"] by (metis option.distinct(1))
    then show ?thesis using \<open>strip_prefix url ''https://'' = None\<close> \<open>\<not> starts_with url _\<close> None
      by (simp add: validate_endpoint_def)
  next
    case (Some after)
    then have "url = ''http://'' @ after" using strip_prefix_Some by metis
    then have "(\<exists>a. url = ''http://'' @ a \<and> is_loopback (host_of a)) \<longleftrightarrow> is_loopback (host_of after)" by auto
    then show ?thesis using \<open>strip_prefix url ''https://'' = None\<close> \<open>\<not> starts_with url _\<close> Some
      by (simp add: validate_endpoint_def)
  qed
qed

text \<open>The endpoint a trusted configuration names, and what a request to it may carry besides the body.\<close>

definition configured_endpoint :: "provider_config \<Rightarrow> str option" where
  "configured_endpoint p =
     (case pc_kind p of
        Anthropic \<Rightarrow> Some (trim_slashes (case pc_base_url p of Some u \<Rightarrow> u | None \<Rightarrow> ANTHROPIC_DEFAULT_BASE) @ ''/v1/messages'')
      | ProviderMock \<Rightarrow> None
      | _ \<Rightarrow> map_option openai_endpoint (pc_base_url p))"

definition key_header :: "llm_env \<Rightarrow> provider_config \<Rightarrow> header \<Rightarrow> bool" where
  "key_header env p h \<longleftrightarrow> h = (''anthropic-version'', ANTHROPIC_VERSION)
     \<or> (\<exists>var k. provider_key_env p = Some var \<and> le_var env var = VarSet k
          \<and> h \<in> {(''x-api-key'', k), (''authorization'', ''Bearer '' @ k)})"

text \<open>A transport that also keeps the requests it was given.\<close>

type_synonym request_log = "(str \<times> header list \<times> str) list"

definition recorder :: "'w transport \<Rightarrow> (request_log \<times> 'w) transport" where
  "recorder post url hs body s =
     (case post url hs body (snd s) of (r, w) \<Rightarrow> (r, fst s @ [(url, hs, body)], w))"

definition sent_at_most ::
  "llm_env \<Rightarrow> provider_config \<Rightarrow> request_log \<Rightarrow> request_log \<Rightarrow> bool" where
  "sent_at_most env p reqs reqs' \<longleftrightarrow> reqs' = reqs
     \<or> (\<exists>url hs body. reqs' = reqs @ [(url, hs, body)] \<and> configured_endpoint p = Some url
          \<and> validate_endpoint (le_esc env) url = Ok () \<and> list_all (key_header env p) hs)"

lemma sent_refl [simp]: "sent_at_most env p reqs reqs"
  by (simp add: sent_at_most_def)

lemma sent_one:
  "configured_endpoint p = Some url \<Longrightarrow> validate_endpoint (le_esc env) url = Ok u \<Longrightarrow> list_all (key_header env p) hs
    \<Longrightarrow> sent_at_most env p reqs (reqs @ [(url, hs, body)])"
  by (auto simp: sent_at_most_def)

lemma key_read: "read_key env var = Ok k \<Longrightarrow> le_var env var = VarSet (expose k)"
  by (auto simp: read_key_def key_from_var_result_def key_from_value_def split: var_lookup.splits if_splits)

lemma anthropic_sends:
  assumes "pc_kind p = Anthropic"
  shows "sent_at_most env p reqs (fst (snd (anthropic_generate env (recorder post) (anthropic_new p) req (reqs, w))))"
proof -
  have key: "provider_key_env p = Some (an_key (anthropic_new p))"
    using assms by (simp add: anthropic_new_def provider_key_env_def default_key_env_def split: option.split)
  have url: "configured_endpoint p = Some (anthropic_endpoint (anthropic_new p))"
    using assms by (simp add: configured_endpoint_def anthropic_endpoint_def anthropic_new_def)
  have hs: "list_all (key_header env p) [(''x-api-key'', expose k), (''anthropic-version'', ANTHROPIC_VERSION)]"
    if "read_key env (an_key (anthropic_new p)) = Ok k" for k
    using key key_read [OF that] by (simp add: key_header_def)
  show ?thesis
    using sent_one [OF url _ hs]
    by (auto simp: anthropic_generate_def Let_def recorder_def split: sum.splits prod.splits)
qed

lemma bearer_ok:
  "bearer_headers env (provider_key_env p) = Ok hs \<Longrightarrow> list_all (key_header env p) hs"
  by (auto simp: bearer_headers_def key_header_def dest: key_read split: option.splits sum.splits)

lemma openai_sends:
  assumes "pc_kind p \<in> {OpenAiCompatible, ProviderLocal}"
  shows "sent_at_most env p reqs (fst (snd (openai_generate env (recorder post) (openai_build p nm) req (reqs, w))))"
proof -
  have url: "configured_endpoint p = Some (openai_endpoint b)" if "pc_base_url p = Some b" for b
    using assms that by (auto simp: configured_endpoint_def)
  show ?thesis
    using sent_one [OF url _ bearer_ok]
    by (auto simp: openai_generate_def openai_build_def Let_def recorder_def split: option.splits sum.splits prod.splits)
qed

lemma provider_sends:
  "sent_at_most env (tc_provider t) reqs (fst (snd (make_provider env hash (recorder post) (resolved_config_new t r ws) req (reqs, w))))"
  using anthropic_sends [of "tc_provider t" env reqs post req w] openai_sends [of "tc_provider t" env reqs post _ req w]
  by (auto simp: make_provider_def Let_def resolved_config_new_def make_real_def mock_generate_def split: provider_kind.split)

lemma mock_sends_nothing:
  "provider_is_mock (tc_provider t) \<Longrightarrow>
    fst (snd (make_provider env hash (recorder post) (resolved_config_new t r ws) req (reqs, w))) = reqs"
  by (simp add: make_provider_def resolved_config_new_def mock_generate_def)

subsection \<open>Keys\<close>

text \<open>Two environments that differ in the values of the keys only, and a transport whose answer does
  not depend on the values of the headers.\<close>

fun same_kind :: "var_lookup \<Rightarrow> var_lookup \<Rightarrow> bool" where
  "same_kind (VarSet a) (VarSet b) \<longleftrightarrow> (trim a = [] \<longleftrightarrow> trim b = [])"
| "same_kind a b \<longleftrightarrow> a = b"

definition same_but_keys :: "llm_env \<Rightarrow> llm_env \<Rightarrow> bool" where
  "same_but_keys a b \<longleftrightarrow> le_esc a = le_esc b \<and> le_parse a = le_parse b \<and> le_write a = le_write b
     \<and> (\<forall>v. same_kind (le_var a v) (le_var b v))"

definition ignores_values :: "'w transport \<Rightarrow> bool" where
  "ignores_values post \<longleftrightarrow> (\<forall>url hs hs' body w. map fst hs = map fst hs' \<longrightarrow> post url hs body w = post url hs' body w)"

lemma same_keys_read:
  assumes "same_but_keys a b"
  shows "(\<exists>e. read_key a v = Err e \<and> read_key b v = Err e) \<or> (\<exists>k l. read_key a v = Ok k \<and> read_key b v = Ok l)"
proof -
  have "same_kind (le_var a v) (le_var b v)" using assms by (simp add: same_but_keys_def)
  then show ?thesis
    by (cases "le_var a v"; cases "le_var b v")
       (auto simp: read_key_def key_from_var_result_def key_from_value_def)
qed

lemma same_keys_texts:
  assumes "same_but_keys a b"
  shows "le_esc a = le_esc b" "http_error_message a = http_error_message b"
    "parse_anthropic_response a = parse_anthropic_response b" "parse_openai_response a = parse_openai_response b"
    "anthropic_body a = anthropic_body b" "openai_body a = openai_body b"
proof -
  show e: "le_esc a = le_esc b" using assms by (simp add: same_but_keys_def)
  have p: "le_parse a = le_parse b" "le_write a = le_write b" using assms by (simp_all add: same_but_keys_def)
  show "http_error_message a = http_error_message b" by (intro ext) (simp add: http_error_message_def p)
  show "parse_anthropic_response a = parse_anthropic_response b" by (intro ext) (simp add: parse_anthropic_response_def p)
  show "parse_openai_response a = parse_openai_response b" by (intro ext) (simp add: parse_openai_response_def p)
  show "anthropic_body a = anthropic_body b" by (intro ext) (simp add: anthropic_body_def p)
  show "openai_body a = openai_body b" by (intro ext) (simp add: openai_body_def p)
qed

lemma anthropic_same:
  assumes "same_but_keys a b" "ignores_values post"
  shows "anthropic_generate a post p req w = anthropic_generate b post p req w"
proof -
  have post: "post url [(''x-api-key'', k), h] body w = post url [(''x-api-key'', l), h] body w" for url k l h body
  proof -
    have "map fst [(''x-api-key'', k), h] = map fst [(''x-api-key'', l), h]" by simp
    with assms(2) show ?thesis unfolding ignores_values_def by blast
  qed
  from same_keys_read [OF assms(1), of "an_key p"] show ?thesis
  proof (elim disjE exE conjE)
    fix k l assume "read_key a (an_key p) = Ok k" "read_key b (an_key p) = Ok l"
    then show ?thesis
      unfolding anthropic_generate_def Let_def same_keys_texts [OF assms(1)]
      by (simp only: sum.case post [where k = "expose k" and l = "expose l"])
  next
    fix e assume "read_key a (an_key p) = Err e" "read_key b (an_key p) = Err e"
    then show ?thesis
      unfolding anthropic_generate_def Let_def same_keys_texts [OF assms(1)] by (simp only: sum.case)
  qed
qed

lemma bearer_same:
  assumes "same_but_keys a b"
  shows "(\<exists>e. bearer_headers a key = Err e \<and> bearer_headers b key = Err e)
    \<or> (\<exists>hs hs'. bearer_headers a key = Ok hs \<and> bearer_headers b key = Ok hs' \<and> map fst hs = map fst hs')"
proof (cases key)
  case (Some v)
  from same_keys_read [OF assms, of v] show ?thesis by (auto simp: bearer_headers_def Some)
qed (simp add: bearer_headers_def)

lemma openai_same:
  assumes "same_but_keys a b" "ignores_values post"
  shows "openai_generate a post p req w = openai_generate b post p req w"
proof -
  have post: "post url hs body w = post url hs' body w" if "map fst hs = map fst hs'" for url hs hs' body
    using assms(2) that unfolding ignores_values_def by blast
  from bearer_same [OF assms(1), of "oa_key p"] show ?thesis
  proof (elim disjE exE conjE)
    fix hs hs' assume "bearer_headers a (oa_key p) = Ok hs" "bearer_headers b (oa_key p) = Ok hs'" "map fst hs = map fst hs'"
    then show ?thesis
      unfolding openai_generate_def Let_def same_keys_texts [OF assms(1)]
      by (simp only: sum.case post [OF \<open>map fst hs = map fst hs'\<close>])
  next
    fix e assume "bearer_headers a (oa_key p) = Err e" "bearer_headers b (oa_key p) = Err e"
    then show ?thesis
      unfolding openai_generate_def Let_def same_keys_texts [OF assms(1)] by (simp only: sum.case)
  qed
qed

section \<open>Properties\<close>

text \<open>C24: Requests leave for the trusted endpoint only. Whatever the repository's configuration and the request
  are, the provider that a resolved configuration selects sends nothing when the mock is in force, and at
  most one request otherwise: to the endpoint the trusted configuration names, which is HTTPS or plain HTTP
  whose host part reads as a loopback address, with no header but the key of the variable the trusted
  configuration names and the version of the protocol.\<close>

theorem egress_is_trusted:
  "case make_provider env hash (recorder post) (resolved_config_new t r ws) req (reqs, w) of (res, reqs', w') \<Rightarrow>
     if provider_is_mock (tc_provider t) then reqs' = reqs else sent_at_most env (tc_provider t) reqs reqs'"
  using provider_sends [of env t reqs hash post r ws req w] mock_sends_nothing [of t env hash post r ws req reqs w]
  by (auto split: prod.split)

text \<open>C37: The key stays in the header. Two environments that differ in the values of the keys only, both set or
  both blank, give the same answers and the same errors, as long as the transport's own answer does not depend
  on the values of the headers it is given.\<close>

theorem key_stays_in_header:
  assumes "same_but_keys a b" "ignores_values post"
  shows "make_provider a hash post cfg req w = make_provider b hash post cfg req w"
  using anthropic_same [OF assms] openai_same [OF assms]
  by (simp add: make_provider_def make_real_def Let_def split: provider_kind.split)

definition sample_llm_env :: "str \<Rightarrow> llm_env" where
  "sample_llm_env key = \<lparr>le_esc = (\<lambda>k. k), le_var = (\<lambda>v. if v = ANTHROPIC_KEY_ENV then VarSet key else NotPresent),
     le_parse = (\<lambda>_. Err ''eof''), le_write = (\<lambda>_. [])\<rparr>"

definition sample_post :: "nat transport" where
  "sample_post url hs body n = (Ok \<lparr>ho_status = 500, ho_body = ''overloaded''\<rparr>, n + 1)"

definition real_config :: resolved_config where
  "real_config = resolved_config_new
     (default_trusted\<lparr>tc_provider := default_provider\<lparr>pc_kind := Anthropic, pc_real_llm := True\<rparr>\<rparr>) default_repo_config []"

definition sample_request :: llm_request where
  "sample_request = \<lparr>rq_prompt = \<lparr>pr_system = ''s'', pr_user = ''u''\<rparr>, rq_mode = Harden, rq_strategy = Auto,
     rq_language = ''rust'', rq_symbol = None, rq_attempt = 0, rq_repair_feedback = None\<rparr>"

theorem key_stays_in_header_witness:
  "make_provider (sample_llm_env ''sk-1'') (\<lambda>_. 0) sample_post real_config sample_request 0
     = make_provider (sample_llm_env ''sk-22'') (\<lambda>_. 0) sample_post real_config sample_request 0
   \<and> make_provider (sample_llm_env ''sk-1'') (\<lambda>_. 0) sample_post real_config sample_request 0
     = (Err (GenProvider ''anthropic HTTP 500: overloaded''), 1)"
proof
  have "trim ''sk-1'' \<noteq> []" "trim ''sk-22'' \<noteq> []"
    by (simp_all add: trim_def trim_start_def trim_end_def is_ws_def cp_def is_cont_def)
  then have a: "same_but_keys (sample_llm_env ''sk-1'') (sample_llm_env ''sk-22'')"
    by (auto simp: same_but_keys_def sample_llm_env_def)
  have b: "ignores_values sample_post" by (simp add: ignores_values_def sample_post_def)
  show "make_provider (sample_llm_env ''sk-1'') (\<lambda>_. 0) sample_post real_config sample_request 0
     = make_provider (sample_llm_env ''sk-22'') (\<lambda>_. 0) sample_post real_config sample_request 0"
    by (rule key_stays_in_header [OF a b])
  show "make_provider (sample_llm_env ''sk-1'') (\<lambda>_. 0) sample_post real_config sample_request 0
     = (Err (GenProvider ''anthropic HTTP 500: overloaded''), 1)"
  proof -
    have "anthropic_endpoint (anthropic_new (tc_provider (cfg_trusted real_config))) = ''https://api.anthropic.com/v1/messages''"
      by code_simp
    moreover have "validate_endpoint (\<lambda>k. k) ''https://api.anthropic.com/v1/messages'' = Ok ()"
      by (simp add: validated starts_with_def)
    moreover have "snippet ''overloaded'' = ''overloaded''" "show_nat 500 = ''500''" by code_simp+
    moreover have "trim ''sk-1'' \<noteq> []"
      by (simp add: trim_def trim_start_def trim_end_def is_ws_def cp_def is_cont_def)
    ultimately show ?thesis
      by (simp add: make_provider_def make_real_def provider_is_mock_def real_config_def resolved_config_new_def
        default_provider_def anthropic_generate_def anthropic_new_def provider_key_env_def default_key_env_def
        sample_llm_env_def sample_post_def read_key_def key_from_var_result_def key_from_value_def
        success_status_def http_error_message_def Let_def)
  qed
qed

subsection \<open>The host of an endpoint\<close>

text \<open>
  The authority of a URL ends at the first slash, question mark or number sign. \<open>host_of\<close> looks for the
  slash only; they agree when the text before the slash has neither of the others.
\<close>

definition url_authority :: "str \<Rightarrow> str" where
  "url_authority after = takeWhile (\<lambda>c. c \<notin> {CHR ''/'', CHR ''?'', CHR 0x23}) after"

definition url_host :: "str \<Rightarrow> str" where
  "url_host after = host_of (url_authority after)"

theorem endpoint_query_confusion:
  "validate_endpoint (\<lambda>k. k) (openai_endpoint ''http://evil.example?@localhost'') = Ok ()
   \<and> url_host ''evil.example?@localhost/chat/completions'' = ''evil.example''"
proof
  have "openai_endpoint ''http://evil.example?@localhost'' = ''http://'' @ ''evil.example?@localhost/chat/completions''"
    by (simp add: openai_endpoint_def trim_slashes_def)
  moreover have "host_of ''evil.example?@localhost/chat/completions'' = ''localhost''"
  proof -
    have "hd (split_on (CHR ''/'') (''evil.example?@localhost'' @ CHR ''/'' # ''chat/completions'')) = ''evil.example?@localhost''"
      unfolding split_on_app by (simp add: split_on_no_sep del: split_on.simps)
    moreover have "last (split_on (CHR ''@'') (''evil.example?'' @ CHR ''@'' # ''localhost'')) = ''localhost''"
      unfolding split_on_app by (simp add: split_on_no_sep del: split_on.simps)
    ultimately show ?thesis by (simp add: host_of_def strip_prefix_def starts_with_def split_on_no_sep del: split_on.simps)
  qed
  ultimately have "openai_endpoint ''http://evil.example?@localhost'' = ''http://'' @ ''evil.example?@localhost/chat/completions''
    \<and> is_loopback (host_of ''evil.example?@localhost/chat/completions'')" by (simp only: is_loopback_def insert_iff simp_thms)
  then show "validate_endpoint (\<lambda>k. k) (openai_endpoint ''http://evil.example?@localhost'') = Ok ()"
    unfolding validated by (intro disjI2 exI)
  show "url_host ''evil.example?@localhost/chat/completions'' = ''evil.example''"
    by (simp add: url_host_def url_authority_def host_of_def strip_prefix_def starts_with_def split_on_no_sep del: split_on.simps)
qed

end
