(* ===== verification/Boundary.thy ===== *)
theory Boundary
  imports Confine Intake
begin

text \<open>
  The boundary of a repository, from \<open>jitgen-gitintake/src/intake.rs\<close>: \<open>open_repo\<close> accepts a directory
  only when everything libgit2 would read lies where it seems to. Opening by libgit2 (with its path
  to the git directory) and the order in which a directory lists its entries are parameters; the file
  system does not change during the checks. A location that was canonicalized is a list of names.
\<close>

section \<open>The code\<close>

definition MAX_REFS_WALK :: nat where "MAX_REFS_WALK = 100000"

record 'oid opened =
  og_repo :: "'oid repo"
  og_path :: str

text \<open>The directory listing: the names of the entries of a location.\<close>

record intake_fs =
  if_fs :: filesys
  if_cwd :: "str list"
  if_list :: "str list \<Rightarrow> str list"

definition lookup_path :: "intake_fs \<Rightarrow> str \<Rightarrow> io_error + fs_node" where
  "lookup_path f p =
     (if p = [] then Err NotFound else symlink_metadata (if_fs f) (if_cwd f) (kernel_components p))"

definition canonical :: "intake_fs \<Rightarrow> str \<Rightarrow> io_error + str list" where
  "canonical f p = canonicalize (if_fs f) (if_cwd f) p"

definition read_text :: "intake_fs \<Rightarrow> str \<Rightarrow> str + str" where
  "read_text f p =
     (case (if p = [] then Err NotFound else read_path (if_fs f) (if_cwd f) (kernel_components p)) of
        Err e \<Rightarrow> Err (show_io e)
      | Ok b \<Rightarrow> if utf8 b then Ok b else Err ''stream did not contain valid UTF-8'')"

text \<open>\<open>fs::read_dir\<close>: the entries with what \<open>file_type\<close> says of each.\<close>

definition read_dir :: "intake_fs \<Rightarrow> str \<Rightarrow> io_error + (str \<times> fs_node option) list" where
  "read_dir f p =
     (case canonical f p of
        Err e \<Rightarrow> Err e
      | Ok loc \<Rightarrow>
          if is_dir (if_fs f) loc then Ok (map (\<lambda>n. (n, if_fs f (loc @ [n]))) (if_list f loc))
          else Err (OtherIo ''Not a directory (os error 20)''))"

definition common_dir :: "intake_fs \<Rightarrow> str \<Rightarrow> git_error + str" where
  "common_dir f gitdir =
     (let commondir_file = path_join gitdir ''commondir'' in
      case lookup_path f commondir_file of
        Ok (FileNode _) \<Rightarrow>
          (case read_text f commondir_file of
             Err e \<Rightarrow> Err (GitIo e)
           | Ok text \<Rightarrow>
               let rel = trim text in Ok (if is_absolute rel then rel else path_join gitdir rel))
      | Ok _ \<Rightarrow> Err (GitBoundaryEscape (''worktree commondir marker '' @ commondir_file @ '' is not a regular file''))
      | Err NotFound \<Rightarrow> Ok gitdir
      | Err e \<Rightarrow> Err (GitBoundaryEscape (''cannot stat commondir marker '' @ commondir_file @ '': '' @ show_io e)))"

definition require_under :: "intake_fs \<Rightarrow> str list \<Rightarrow> str \<Rightarrow> str \<Rightarrow> git_error + unit" where
  "require_under f repo_root p label =
     (case canonical f p of
        Err e \<Rightarrow> Err (GitBoundaryEscape (''cannot canonicalize '' @ label @ '' '' @ p @ '': '' @ show_io e))
      | Ok canon \<Rightarrow>
          if \<not> prefix repo_root canon
          then Err (GitBoundaryEscape (label @ '' '' @ path_of canon @ '' is outside the requested repo root '' @ path_of repo_root))
          else Ok ())"

definition require_regular_file :: "intake_fs \<Rightarrow> str \<Rightarrow> str \<Rightarrow> git_error + unit" where
  "require_regular_file f p label =
     (case lookup_path f p of
        Err e \<Rightarrow> Err (GitBoundaryEscape (''cannot stat '' @ label @ '' '' @ p @ '': '' @ show_io e))
      | Ok (FileNode _) \<Rightarrow> Ok ()
      | Ok _ \<Rightarrow> Err (GitBoundaryEscape (label @ '' '' @ p @ '' is not a regular file'')))"

definition reject_if_symlink :: "intake_fs \<Rightarrow> str \<Rightarrow> str \<Rightarrow> git_error + unit" where
  "reject_if_symlink f p label =
     (case lookup_path f p of
        Ok (LinkNode _) \<Rightarrow> Err (GitBoundaryEscape (''critical git path is a symlink: '' @ label @ '' ('' @ p @ '')''))
      | Ok _ \<Rightarrow> Ok ()
      | Err NotFound \<Rightarrow> Ok ()
      | Err e \<Rightarrow> Err (GitBoundaryEscape (''cannot stat critical git path '' @ label @ '' ('' @ p @ ''): '' @ show_io e)))"

definition linked_entry :: "str \<Rightarrow> str \<Rightarrow> git_error" where
  "linked_entry dir n = GitBoundaryEscape (''critical git path is a symlink: '' @ path_join dir n)"

fun check_children :: "str \<Rightarrow> (str \<times> fs_node option) list \<Rightarrow> git_error + unit" where
  "check_children dir [] = Ok ()"
| "check_children dir ((n, Some (LinkNode t)) # es) = Err (linked_entry dir n)"
| "check_children dir ((n, node) # es) = check_children dir es"

definition reject_symlinked_children :: "intake_fs \<Rightarrow> str \<Rightarrow> git_error + unit" where
  "reject_symlinked_children f dir =
     (case read_dir f dir of
        Err NotFound \<Rightarrow> Ok ()
      | Err e \<Rightarrow> Err (GitBoundaryEscape (''cannot read git storage dir '' @ dir @ '': '' @ show_io e))
      | Ok es \<Rightarrow> check_children dir es)"

text \<open>The entries of one directory of the walk: the count so far and the directories pushed, the last on repo_root.\<close>

fun scan_entries ::
  "str \<Rightarrow> nat \<Rightarrow> str \<Rightarrow> (str \<times> fs_node option) list \<Rightarrow> nat \<Rightarrow> str list \<Rightarrow> git_error + nat \<times> str list" where
  "scan_entries dir cap d [] seen stack = Ok (seen, stack)"
| "scan_entries dir cap d ((n, node) # es) seen stack =
     (if cap < seen + 1
      then Err (GitBoundaryEscape (''git ref tree under '' @ dir @ '' exceeds the '' @ show_nat cap @ ''-entry intake cap''))
      else (case node of
              Some (LinkNode t) \<Rightarrow> Err (linked_entry d n)
            | Some DirNode \<Rightarrow> scan_entries dir cap d es (seen + 1) (path_join d n # stack)
            | _ \<Rightarrow> scan_entries dir cap d es (seen + 1) stack))"

lemma scan_entries_measure:
  "scan_entries dir cap d es seen stack = Ok (seen', stack') \<Longrightarrow>
    length stack' + (cap - seen') \<le> length stack + (cap - seen)"
proof (induction dir cap d es seen stack rule: scan_entries.induct)
  case (2 dir cap d n node es seen stack)
  have fits: "\<not> cap < seen + 1" using "2.prems" by (auto split: if_splits)
  show ?case
  proof (cases node)
    case None
    then show ?thesis using 2 fits by fastforce
  next
    case (Some k)
    then show ?thesis using 2 fits by (cases k) fastforce+
  qed
qed simp

function walk_refs :: "intake_fs \<Rightarrow> str \<Rightarrow> nat \<Rightarrow> str list \<Rightarrow> nat \<Rightarrow> git_error + unit" where
  "walk_refs f dir cap [] seen = Ok ()"
| "walk_refs f dir cap (d # stack) seen =
     (case read_dir f d of
        Err NotFound \<Rightarrow> walk_refs f dir cap stack seen
      | Err e \<Rightarrow> Err (GitBoundaryEscape (''cannot read git ref dir '' @ d @ '': '' @ show_io e))
      | Ok es \<Rightarrow>
          (case scan_entries dir cap d es seen stack of
             Err e \<Rightarrow> Err e
           | Ok (seen', stack') \<Rightarrow> walk_refs f dir cap stack' seen'))"
  by pat_completeness auto

termination
  by (relation "measure (\<lambda>(f, dir, cap, stack, seen). length stack + (cap - seen))")
    (auto dest: scan_entries_measure simp: less_Suc_eq_le add.commute)

declare walk_refs.simps [simp del]

definition reject_symlinks_recursive :: "intake_fs \<Rightarrow> str \<Rightarrow> nat \<Rightarrow> git_error + unit" where
  "reject_symlinks_recursive f dir cap = walk_refs f dir cap [dir] 0"

fun reject_entries :: "intake_fs \<Rightarrow> str \<Rightarrow> str list \<Rightarrow> git_error + unit" where
  "reject_entries f base [] = Ok ()"
| "reject_entries f base (e # es) =
     (case reject_if_symlink f (path_join base e) e of Err x \<Rightarrow> Err x | Ok _ \<Rightarrow> reject_entries f base es)"

definition reject_storage_symlinks :: "intake_fs \<Rightarrow> str \<Rightarrow> git_error + unit" where
  "reject_storage_symlinks f base =
     (case reject_entries f base [''objects'', ''objects/pack'', ''objects/info'', ''refs'', ''packed-refs'', ''HEAD''] of
        Err e \<Rightarrow> Err e
      | Ok _ \<Rightarrow>
     (case reject_symlinked_children f (path_join base ''objects'') of
        Err e \<Rightarrow> Err e
      | Ok _ \<Rightarrow>
     (case reject_symlinked_children f (path_join (path_join base ''objects'') ''pack'') of
        Err e \<Rightarrow> Err e
      | Ok _ \<Rightarrow> reject_symlinks_recursive f (path_join base ''refs'') MAX_REFS_WALK)))"

text \<open>The last condition of a linked worktree: its git directory points back to this working tree.\<close>

definition check_binding :: "intake_fs \<Rightarrow> str \<Rightarrow> str list \<Rightarrow> str list \<Rightarrow> git_error + unit" where
  "check_binding f gitdir gitdir_canon repo_root =
     (case read_text f (path_join gitdir ''gitdir'') of
        Err e \<Rightarrow> Err (GitIo e)
      | Ok raw \<Rightarrow>
     (case canonical f (trim raw) of
        Err e \<Rightarrow> Err (GitBoundaryEscape (''cannot canonicalize worktree back-pointer '' @ trim raw @ '': '' @ show_io e))
      | Ok dot_git_canon \<Rightarrow>
          (let expected = path_join (path_of repo_root) ''.git'' in
           case require_regular_file f expected ''worktree root .git file'' of
             Err e \<Rightarrow> Err e
           | Ok _ \<Rightarrow>
          (case canonical f expected of
             Err e \<Rightarrow> Err (GitBoundaryEscape (''cannot canonicalize root .git file '' @ expected @ '': '' @ show_io e))
           | Ok expected_canon \<Rightarrow>
               if dot_git_canon \<noteq> expected_canon
               then Err (GitBoundaryEscape (''linked worktree gitdir '' @ path_of gitdir_canon @ '' back-pointer names ''
                      @ path_of dot_git_canon @ '', not the requested root'' @ [CHR 0x27] @ ''s .git '' @ path_of expected_canon))
               else Ok ()))))"

definition verify_linked_worktree ::
  "intake_fs \<Rightarrow> str \<Rightarrow> str list \<Rightarrow> str list \<Rightarrow> str list \<Rightarrow> git_error + unit" where
  "verify_linked_worktree f gitdir gitdir_canon common_canon repo_root =
     (if common_canon = [] \<or> last common_canon \<noteq> ''.git''
      then Err (GitBoundaryEscape (''worktree common dir '' @ path_of common_canon
             @ '' is not a '' @ [CHR 0x60] @ ''.git'' @ [CHR 0x60]
             @ '' directory; refusing (bare-repo worktrees and non-standard git dirs are unsupported under the hostile-input boundary)''))
      else
        let main_workdir = butlast common_canon in
        if \<not> prefix main_workdir repo_root
        then Err (GitBoundaryEscape (''gitdir '' @ path_of gitdir_canon
               @ '' is an out-of-root worktree gitdir whose common dir '' @ path_of common_canon
               @ '' is not within the requested repo root '' @ path_of repo_root
               @ [CHR 0x27] @ ''s tree; only worktrees nested under their main repository are supported (point --repo at the main working tree ''
               @ path_of main_workdir @ '' for an external-location worktree)''))
        else if \<not> (gitdir_canon \<noteq> [] \<and> butlast gitdir_canon \<noteq> [] \<and> last (butlast gitdir_canon) = ''worktrees''
                   \<and> butlast (butlast gitdir_canon) = common_canon)
        then Err (GitBoundaryEscape (''gitdir '' @ path_of gitdir_canon @ '' is outside the requested repo root ''
               @ path_of repo_root @ '' and is not a linked-worktree gitdir under its common dir '' @ path_of common_canon))
        else
          (case require_regular_file f (path_join gitdir ''commondir'') ''worktree commondir marker'' of
             Err e \<Rightarrow> Err e
           | Ok _ \<Rightarrow>
          (case require_regular_file f (path_join gitdir ''gitdir'') ''worktree gitdir marker'' of
             Err e \<Rightarrow> Err e
           | Ok _ \<Rightarrow> check_binding f gitdir gitdir_canon repo_root)))"

definition verify_locality ::
  "intake_fs \<Rightarrow> str \<Rightarrow> str list \<Rightarrow> str list \<Rightarrow> str list \<Rightarrow> git_error + unit" where
  "verify_locality f gitdir gitdir_canon common_canon repo_root =
     (if prefix repo_root gitdir_canon
      then (case require_under f repo_root (path_of common_canon) ''commondir'' of
              Err e \<Rightarrow> Err e
            | Ok _ \<Rightarrow>
                let objects = path_join (path_of common_canon) ''objects'' in
                if (case canonical f objects of Ok _ \<Rightarrow> True | Err _ \<Rightarrow> False)
                then require_under f repo_root objects ''object store'' else Ok ())
      else verify_linked_worktree f gitdir gitdir_canon common_canon repo_root)"

definition reject_alternates :: "intake_fs \<Rightarrow> str list \<Rightarrow> git_error + unit" where
  "reject_alternates f common_canon =
     (let alternates = path_join (path_join (path_join (path_of common_canon) ''objects'') ''info'') ''alternates'' in
      case lookup_path f alternates of
        Ok _ \<Rightarrow> Err (GitBoundaryEscape ''repository uses object alternates (external object store); refused'')
      | Err NotFound \<Rightarrow> Ok ()
      | Err e \<Rightarrow> Err (GitBoundaryEscape (''cannot stat object alternates file '' @ alternates @ '': '' @ show_io e)))"

definition verify_repo_boundary :: "intake_fs \<Rightarrow> str \<Rightarrow> str list \<Rightarrow> git_error + unit" where
  "verify_repo_boundary f gitdir repo_root =
     (case canonical f gitdir of
        Err e \<Rightarrow> Err (GitBoundaryEscape (''cannot canonicalize gitdir '' @ gitdir @ '': '' @ show_io e))
      | Ok gitdir_canon \<Rightarrow>
     (case common_dir f gitdir of
        Err e \<Rightarrow> Err e
      | Ok common \<Rightarrow>
     (case canonical f common of
        Err e \<Rightarrow> Err (GitBoundaryEscape (''cannot canonicalize commondir '' @ common @ '': '' @ show_io e))
      | Ok common_canon \<Rightarrow>
     (case verify_locality f gitdir gitdir_canon common_canon repo_root of
        Err e \<Rightarrow> Err e
      | Ok _ \<Rightarrow>
     (case reject_alternates f common_canon of
        Err e \<Rightarrow> Err e
      | Ok _ \<Rightarrow>
     (case reject_storage_symlinks f (path_of gitdir_canon) of
        Err e \<Rightarrow> Err e
      | Ok _ \<Rightarrow> reject_storage_symlinks f (path_of common_canon)))))))"

definition open_repo :: "intake_fs \<Rightarrow> (str \<Rightarrow> git_error + 'oid opened) \<Rightarrow> str \<Rightarrow> git_error + 'oid repo" where
  "open_repo f open_ext path =
     (case open_ext path of
        Err e \<Rightarrow> Err e
      | Ok r \<Rightarrow>
     (case canonical f path of
        Err e \<Rightarrow> Err (GitBoundaryEscape (''cannot canonicalize repo root: '' @ show_io e))
      | Ok repo_root \<Rightarrow>
     (case verify_repo_boundary f (og_path r) repo_root of
        Err e \<Rightarrow> Err e
      | Ok _ \<Rightarrow> Ok (og_repo r))))"

section \<open>What an accepted repository looks like\<close>

text \<open>A file system: every entry stands in a directory and has an ordinary name, and a directory lists
  exactly its entries.\<close>

definition proper_fs :: "intake_fs \<Rightarrow> bool" where
  "proper_fs f \<longleftrightarrow> rooted (if_fs f) \<and> is_dir (if_fs f) (if_cwd f) \<and> (\<forall>loc n. if_fs f (loc @ [n]) \<noteq> None \<longrightarrow> plain_name n)
     \<and> (\<forall>loc n. n \<in> set (if_list f loc) \<longleftrightarrow> if_fs f (loc @ [n]) \<noteq> None)"

definition is_link :: "intake_fs \<Rightarrow> str list \<Rightarrow> bool" where
  "is_link f loc \<longleftrightarrow> (\<exists>t. if_fs f loc = Some (LinkNode t))"

lemma proper_plain:
  assumes "proper_fs f" "is_dir (if_fs f) loc"
  shows "list_all plain_name loc \<and> plain_dirs (if_fs f) [] loc"
  using assms(2)
proof (induction loc rule: rev_induct)
  case (snoc n loc)
  then have "if_fs f (loc @ [n]) = Some DirNode" by (simp add: is_dir_def)
  then have "is_dir (if_fs f) loc" "plain_name n"
    using assms(1) by (auto simp: proper_fs_def rooted_def)
  then show ?case using snoc by (simp add: is_dir_def)
qed simp

lemma proper_parent:
  assumes "proper_fs f" "if_fs f (loc @ [n]) \<noteq> None"
  shows "is_dir (if_fs f) loc" "plain_name n"
  using assms by (auto simp: proper_fs_def rooted_def)

lemma lookup_literal:
  assumes "proper_fs f" "if_fs f (loc @ [n]) = Some node"
  shows "lookup_path f (path_of (loc @ [n])) = Ok node"
proof -
  have dir: "is_dir (if_fs f) loc" and n: "plain_name n" using proper_parent [OF assms(1), of loc n] assms(2) by simp_all
  have plain: "list_all plain_name loc" "plain_dirs (if_fs f) [] loc" using proper_plain [OF assms(1) dir] by auto
  have comps: "kernel_components (path_of (loc @ [n])) = RootDir # map Normal (loc @ [n])"
    using kernel_path_of [of "loc @ [n]"] plain(1) n by simp
  have "resolve_path (if_fs f) False MAX_LINKS (if_cwd f) (RootDir # map Normal loc) = Ok loc"
    using resolve_plain [of "map Normal loc" "if_fs f" "[]" False MAX_LINKS] plain(2) by simp
  then have "resolve_parent (if_fs f) (if_cwd f) (kernel_components (path_of (loc @ [n]))) = Ok loc"
    using dir by (simp add: resolve_parent_def comps butlast_append)
  moreover have "path_of (loc @ [n]) \<noteq> []" by (simp add: path_of_def)
  ultimately show ?thesis using assms(2) by (simp add: lookup_path_def symlink_metadata_def comps)
qed

lemma canonical_dir_literal:
  assumes "proper_fs f" "is_dir (if_fs f) loc"
  shows "canonical f (path_of loc) = Ok loc"
  using canonicalize_path_of proper_plain [OF assms] by (simp add: canonical_def)

lemma read_dir_literal:
  assumes "proper_fs f" "is_dir (if_fs f) loc"
  shows "read_dir f (path_of loc) = Ok (map (\<lambda>n. (n, if_fs f (loc @ [n]))) (if_list f loc))"
  using canonical_dir_literal [OF assms] assms(2) by (simp add: read_dir_def)

subsection \<open>Links\<close>

lemma path_join_names:
  assumes "list_all plain_name ns" "ns \<noteq> []" "list_all plain_name loc"
  shows "path_join (path_of loc) (join ''/'' ns) = path_of (loc @ ns)"
proof -
  obtain m ms where ns: "ns = m # ms" using assms(2) by (cases ns) auto
  have "join ''/'' ns \<noteq> [] \<and> hd (join ''/'' ns) \<noteq> CHR ''/''"
    using assms(1) ns by (cases m; cases ms) (auto simp: plain_name_def)
  then have "\<not> is_absolute (join ''/'' ns)" by (simp add: is_absolute_def)
  then show ?thesis
    using last_join_plain [OF assms(3)] assms(2) by (cases "loc = []") (auto simp: path_join_def path_of_def join_append)
qed

lemma not_link_entry:
  assumes "proper_fs f" "reject_if_symlink f (path_of (loc @ [n])) label = Ok u"
  shows "\<not> is_link f (loc @ [n])"
  using lookup_literal [OF assms(1), of loc n] assms(2) by (auto simp: is_link_def reject_if_symlink_def)

lemma check_children_links:
  "check_children d es = Ok u \<Longrightarrow> (n, Some (LinkNode t)) \<notin> set es"
  by (induction d es rule: check_children.induct) auto

lemma not_link_children:
  assumes "proper_fs f" "reject_symlinked_children f (path_of loc) = Ok u"
  shows "\<not> is_link f (loc @ [n])"
proof
  assume l: "is_link f (loc @ [n])"
  then have dir: "is_dir (if_fs f) loc" and n: "n \<in> set (if_list f loc)"
    using assms(1) proper_parent [OF assms(1), of loc n] by (auto simp: is_link_def proper_fs_def)
  obtain t where "if_fs f (loc @ [n]) = Some (LinkNode t)" using l by (auto simp: is_link_def)
  then have "(n, Some (LinkNode t)) \<in> set (map (\<lambda>n. (n, if_fs f (loc @ [n]))) (if_list f loc))" using n by force
  moreover have "check_children (path_of loc) (map (\<lambda>n. (n, if_fs f (loc @ [n]))) (if_list f loc)) = Ok u"
    using assms(2) read_dir_literal [OF assms(1) dir] by (simp add: reject_symlinked_children_def)
  ultimately show False using check_children_links by metis
qed

lemma scan_entries_links:
  "scan_entries dir cap d es seen stack = Ok (seen', stack') \<Longrightarrow>
    (\<forall>n t. (n, Some (LinkNode t)) \<notin> set es) \<and> (\<forall>n. (n, Some DirNode) \<in> set es \<longrightarrow> path_join d n \<in> set stack')
    \<and> set stack \<subseteq> set stack'"
proof (induction dir cap d es seen stack rule: scan_entries.induct)
  case (2 dir cap d n node es seen stack)
  have fits: "\<not> cap < seen + 1" using "2.prems" by (auto split: if_splits)
  show ?case
  proof (cases node)
    case None
    then show ?thesis using 2 fits by fastforce
  next
    case (Some k)
    then show ?thesis using 2 fits by (cases k) fastforce+
  qed
qed simp

definition link_free :: "intake_fs \<Rightarrow> str list \<Rightarrow> bool" where
  "link_free f loc \<longleftrightarrow> (\<forall>ms. ms \<noteq> [] \<longrightarrow> \<not> is_link f (loc @ ms))"

lemma link_free_step:
  assumes "proper_fs f" "\<And>n. \<not> is_link f (loc @ [n])"
    and "\<And>n. if_fs f (loc @ [n]) = Some DirNode \<Longrightarrow> link_free f (loc @ [n])"
  shows "link_free f loc"
proof -
  have "\<not> is_link f (loc @ n # ms)" for n ms
  proof (cases "ms = []")
    case False
    show ?thesis
    proof
      assume l: "is_link f (loc @ n # ms)"
      obtain ks k where ms: "ms = ks @ [k]" using False by (cases ms rule: rev_cases) auto
      have "is_dir (if_fs f) (loc @ n # ks)"
        using proper_parent(1) [OF assms(1), of "loc @ n # ks" k] l ms by (auto simp: is_link_def)
      then have "plain_dirs (if_fs f) [] ((loc @ [n]) @ ks)" using proper_plain [OF assms(1)] by auto
      then have "if_fs f (loc @ [n]) = Some DirNode"
        unfolding plain_dirs_def by (metis append_Nil append_eq_conv_conj length_append_singleton lessI length_append trans_less_add1)
      then show False using assms(3) l False by (force simp: link_free_def)
    qed
  qed (use assms(2) in simp)
  then show ?thesis unfolding link_free_def by (metis neq_Nil_conv)
qed

lemma not_dir_link_free:
  assumes "proper_fs f" "\<not> is_dir (if_fs f) loc"
  shows "link_free f loc"
proof (rule link_free_step [OF assms(1)])
  have "if_fs f (loc @ [n]) = None" for n using proper_parent(1) [OF assms(1), of loc n] assms(2) by blast
  then show "\<not> is_link f (loc @ [n])" "if_fs f (loc @ [n]) = Some DirNode \<Longrightarrow> link_free f (loc @ [n])" for n
    by (simp_all add: is_link_def)
qed

lemma walk_refs_links:
  "walk_refs f dir cap stack seen = Ok u \<Longrightarrow> proper_fs f \<Longrightarrow> list_all plain_name loc \<Longrightarrow> path_of loc \<in> set stack
    \<Longrightarrow> link_free f loc"
proof (induction f dir cap stack seen arbitrary: loc rule: walk_refs.induct)
  case (2 f dir cap d stack seen)
  note proper = "2.prems"(2) and plain = "2.prems"(3)
  show ?case
  proof (cases "is_dir (if_fs f) loc")
    case False
    then show ?thesis by (rule not_dir_link_free [OF proper])
  next
    case dir: True
    show ?thesis
    proof (cases "read_dir f d")
      case (Inl e)
      then have "e = NotFound" "walk_refs f dir cap stack seen = Ok u"
        using "2.prems"(1) by (auto simp: walk_refs.simps split: io_error.splits)
      moreover have "path_of loc \<noteq> d" using read_dir_literal [OF proper dir] Inl by auto
      ultimately show ?thesis using "2.IH"(1) [of NotFound] Inl "2.prems"(2-4) by simp
    next
      case (Inr es)
      obtain seen' stack' where scan: "scan_entries dir cap d es seen stack = Ok (seen', stack')"
        and rest: "walk_refs f dir cap stack' seen' = Ok u"
        using "2.prems"(1) Inr by (auto simp: walk_refs.simps split: sum.splits)
      note found = scan_entries_links [OF scan]
      note IH = "2.IH"(2) [OF Inr scan refl rest proper]
      show ?thesis
      proof (cases "path_of loc = d")
        case False
        then show ?thesis using IH plain found "2.prems"(4) by auto
      next
        case True
        have es: "es = map (\<lambda>n. (n, if_fs f (loc @ [n]))) (if_list f loc)"
          using read_dir_literal [OF proper dir] Inr True by simp
        have listed: "(n, Some k) \<in> set es" if "if_fs f (loc @ [n]) = Some k" for n k
        proof -
          have "n \<in> set (if_list f loc)" using proper that by (simp add: proper_fs_def)
          then show ?thesis using that es by force
        qed
        show ?thesis
        proof (rule link_free_step [OF proper])
          show "\<not> is_link f (loc @ [n])" for n using found listed by (auto simp: is_link_def)
          fix n assume n: "if_fs f (loc @ [n]) = Some DirNode"
          then have "plain_name n" "path_join d n \<in> set stack'"
            using proper_parent(2) [OF proper, of loc n] found listed by (simp, blast)
          then show "link_free f (loc @ [n])" using IH plain True path_join_path_of [OF plain] by simp
        qed
      qed
    qed
  qed
qed simp

subsection \<open>Canonical locations\<close>

definition real_loc :: "filesys \<Rightarrow> str list \<Rightarrow> bool" where
  "real_loc fs loc \<longleftrightarrow> loc = [] \<or> (case fs loc of None \<Rightarrow> False | Some (LinkNode _) \<Rightarrow> False | Some _ \<Rightarrow> True)"

lemma is_dir_real: "is_dir fs loc \<Longrightarrow> real_loc fs loc"
  by (auto simp: is_dir_def real_loc_def)

lemma resolve_real:
  "resolve_path fs create links cur cs = Ok loc \<Longrightarrow> \<not> create \<Longrightarrow> real_loc fs cur \<Longrightarrow> real_loc fs loc"
proof (induction fs create links cur cs rule: resolve_path.induct)
  case (4 fs create links cur cs)
  then show ?case using is_dir_real [of fs "butlast cur"] by (auto split: if_splits)
next
  case (5 fs create links cur s cs)
  then show ?case
    by (cases "fs (cur @ [s])"; cases "the (fs (cur @ [s]))"; cases links)
       (auto simp: real_loc_def split: if_splits)
qed (auto simp: real_loc_def)

lemma canonical_real:
  assumes "proper_fs f" "canonical f p = Ok loc"
  shows "real_loc (if_fs f) loc"
  using assms resolve_real [of "if_fs f" False MAX_LINKS "if_cwd f" "kernel_components p" loc] is_dir_real
  by (auto simp: canonical_def canonicalize_def proper_fs_def split: if_splits)

lemma canonical_again:
  assumes "proper_fs f" "real_loc (if_fs f) loc"
  shows "canonical f (path_of loc) = Ok loc"
proof (cases "is_dir (if_fs f) loc")
  case True
  then show ?thesis by (rule canonical_dir_literal [OF assms(1)])
next
  case False
  then obtain l s where loc: "loc = l @ [s]" by (cases loc rule: rev_cases) (auto simp: is_dir_def)
  obtain node where node: "if_fs f loc = Some node" "node \<noteq> DirNode" "\<And>t. node \<noteq> LinkNode t"
    using assms(2) False by (auto simp: real_loc_def is_dir_def split: option.splits fs_node.splits)
  have dir: "is_dir (if_fs f) l" and s: "plain_name s" using proper_parent [OF assms(1), of l s] node loc by simp_all
  have plain: "list_all plain_name l" "plain_dirs (if_fs f) [] l" using proper_plain [OF assms(1) dir] by auto
  have "resolve_path (if_fs f) False MAX_LINKS [] (map Normal l @ [Normal s]) = Ok loc"
    using resolve_plain_append [of "map Normal l" "if_fs f" "[]" False MAX_LINKS "[Normal s]"] plain(2) node loc
    by (cases node) auto
  moreover have "kernel_components (path_of loc) = RootDir # map Normal l @ [Normal s]"
    using kernel_path_of [of loc] plain(1) s loc by simp
  ultimately show ?thesis by (simp add: canonical_def canonicalize_def path_of_def)
qed

subsection \<open>Storage\<close>

text \<open>The entries below a git directory that the code checks: the head, the packed references, everything below the
  references, and of the object store the directory, its entries (the packs' directory and those of the loose objects) and
  the entries of the packs' directory. The file of a loose object, \<open>objects/<n>/<m>\<close>, is not among them.\<close>

definition checked_storage :: "str list \<Rightarrow> bool" where
  "checked_storage ns \<longleftrightarrow> ns \<in> {[''HEAD''], [''packed-refs''], [''objects'']} \<or> (\<exists>n. ns = [''objects'', n])
     \<or> (\<exists>n. ns = [''objects'', ''pack'', n]) \<or> (\<exists>ms. ns = ''refs'' # ms)"

definition stays :: "intake_fs \<Rightarrow> str list \<Rightarrow> str list \<Rightarrow> bool" where
  "stays f store ns \<longleftrightarrow>
     (case resolve_path (if_fs f) False MAX_LINKS store (map Normal ns) of Ok loc \<Rightarrow> loc = store @ ns | Err _ \<Rightarrow> True)"

lemma resolve_literal:
  "(\<And>k. k < length ns \<Longrightarrow> \<not> is_link f (loc @ take (Suc k) ns))
    \<Longrightarrow> resolve_path (if_fs f) False links loc (map Normal ns) = Ok r \<Longrightarrow> r = loc @ ns"
proof (induction ns arbitrary: loc)
  case (Cons n ns)
  have "\<not> is_link f (loc @ [n])" using Cons.prems(1) [of 0] by simp
  moreover have "\<not> is_link f ((loc @ [n]) @ take (Suc k) ns)" if "k < length ns" for k
    using Cons.prems(1) [of "Suc k"] that by simp
  ultimately show ?case
    using Cons.IH [of "loc @ [n]"] Cons.prems(2)
    by (auto simp: is_link_def split: option.splits fs_node.splits if_splits)
qed simp

lemma storage_prefix: "checked_storage ns \<Longrightarrow> checked_storage (take (Suc k) ns)"
  by (cases k; cases "k - 1") (auto simp: checked_storage_def take_Cons split: nat.split)

lemma storage_not_linked:
  assumes "proper_fs f" "reject_storage_symlinks f (path_of loc) = Ok u" "checked_storage ns"
  shows "\<not> is_link f (loc @ ns)"
proof (cases "is_dir (if_fs f) loc")
  case False
  have "ns \<noteq> []" using assms(3) by (auto simp: checked_storage_def)
  then show ?thesis using not_dir_link_free [OF assms(1) False] by (simp add: link_free_def)
next
  case True
  then have plain: "list_all plain_name loc" using proper_plain [OF assms(1)] by simp
  have names: "list_all plain_name [''objects'', ''pack'', ''info'', ''refs'', ''packed-refs'', ''HEAD'']"
    by (simp add: plain_name_def)
  have join: "path_join (path_of loc) n = path_of (loc @ [n])"
    if "n \<in> set [''objects'', ''refs'', ''packed-refs'', ''HEAD'']" for n
    using path_join_path_of [OF plain] names that by auto
  have pack: "path_join (path_join (path_of loc) ''objects'') ''pack'' = path_of (loc @ [''objects'', ''pack''])"
    using path_join_path_of [of "loc @ [''objects'']" "''pack''"] plain names join by simp
  have entries: "reject_entries f (path_of loc) [''objects'', ''objects/pack'', ''objects/info'', ''refs'', ''packed-refs'', ''HEAD''] = Ok ()"
    and c1: "reject_symlinked_children f (path_of (loc @ [''objects''])) = Ok ()"
    and c2: "reject_symlinked_children f (path_of (loc @ [''objects'', ''pack''])) = Ok ()"
    and w: "walk_refs f (path_of (loc @ [''refs''])) MAX_REFS_WALK [path_of (loc @ [''refs''])] 0 = Ok ()"
    using assms(2) join pack
    by (auto simp: reject_storage_symlinks_def reject_symlinks_recursive_def split: sum.splits)
  have e: "\<not> is_link f (loc @ [n])" if "n \<in> set [''objects'', ''refs'', ''packed-refs'', ''HEAD'']" for n
  proof -
    have "reject_if_symlink f (path_of (loc @ [n])) n = Ok ()"
      using entries join [OF that] that by (auto split: sum.splits)
    then show ?thesis by (rule not_link_entry [OF assms(1)])
  qed
  have refs: "link_free f (loc @ [''refs''])"
    using walk_refs_links [OF w assms(1), of "loc @ [''refs'']"] plain names by simp
  have "\<not> is_link f (loc @ ''refs'' # ms)" for ms
    using refs e [of "''refs''"] by (cases ms) (auto simp: link_free_def)
  moreover have "\<not> is_link f (loc @ [''objects'', n])" for n using not_link_children [OF assms(1) c1, of n] by simp
  moreover have "\<not> is_link f (loc @ [''objects'', ''pack'', n])" for n using not_link_children [OF assms(1) c2, of n] by simp
  ultimately show ?thesis using assms(3) e unfolding checked_storage_def by auto
qed

lemma storage_stays:
  assumes "proper_fs f" "reject_storage_symlinks f (path_of loc) = Ok u" "checked_storage ns"
  shows "stays f loc ns"
  using resolve_literal [of ns f loc MAX_LINKS] storage_not_linked [OF assms(1,2) storage_prefix [OF assms(3)]]
  by (auto simp: stays_def split: sum.split)

lemma locality:
  assumes "proper_fs f" "canonical f ct = Ok common" "verify_locality f gitdir git common repo_root = Ok u"
  shows "prefix repo_root git \<and> prefix repo_root common
      \<or> (\<exists>main name. prefix main repo_root \<and> common = main @ [''.git''] \<and> git = common @ [''worktrees'', name])"
proof (cases "prefix repo_root git")
  case True
  have "canonical f (path_of common) = Ok common" by (rule canonical_again [OF assms(1) canonical_real [OF assms(1,2)]])
  then show ?thesis using assms(3) True by (auto simp: verify_locality_def require_under_def split: sum.splits if_splits)
next
  case False
  then have "verify_linked_worktree f gitdir git common repo_root = Ok u" using assms(3) by (simp add: verify_locality_def)
  then have c: "common \<noteq> []" "last common = ''.git''" "prefix (butlast common) repo_root" "git \<noteq> []" "butlast git \<noteq> []"
    "last (butlast git) = ''worktrees''" "butlast (butlast git) = common"
    by (auto simp: verify_linked_worktree_def Let_def split: if_splits)
  have "git = butlast (butlast git) @ [last (butlast git), last git]"
    using c(4,5) by (metis append.assoc append_Cons append_Nil append_butlast_last_id)
  moreover have "common = butlast common @ [''.git'']" using c(1,2) by (metis append_butlast_last_id)
  ultimately show ?thesis using c(3,6,7) by metis
qed

lemma no_alternates:
  assumes "proper_fs f" "reject_alternates f common = Ok u"
  shows "if_fs f (common @ [''objects'', ''info'', ''alternates'']) = None"
proof (rule ccontr)
  assume "\<not> ?thesis"
  then obtain node where node: "if_fs f ((common @ [''objects'', ''info'']) @ [''alternates'']) = Some node" by auto
  have names: "plain_name ''objects''" "plain_name ''info''" "plain_name ''alternates''" by (simp_all add: plain_name_def)
  have dir: "is_dir (if_fs f) (common @ [''objects'', ''info''])"
    using proper_parent(1) [OF assms(1), of "common @ [''objects'', ''info'']" "''alternates''"] node by blast
  then have plain: "list_all plain_name common" using proper_plain [OF assms(1) dir] by simp
  have "path_join (path_join (path_join (path_of common) ''objects'') ''info'') ''alternates''
      = path_of ((common @ [''objects'', ''info'']) @ [''alternates''])"
    using path_join_path_of [OF plain names(1)] path_join_path_of [of "common @ [''objects'']" "''info''"]
      path_join_path_of [of "common @ [''objects'', ''info'']" "''alternates''"] plain names by simp
  then show False using lookup_literal [OF assms(1) node] assms(2) by (simp add: reject_alternates_def Let_def)
qed

section \<open>Properties\<close>

text \<open>C23: An accepted repository is read where it seems to be, as far as \<open>open_repo\<close> checks it. When it accepts a path, the
  git directory and the common directory lie below the canonical path itself, or the common directory is the \<open>.git\<close> of a
  directory above it and the git directory one of its worktrees; no object alternates are present; and in
  both directories the head, the packed references, every path below the references, the object store, each of its
  entries and each entry of its packs resolve to themselves, without a link that leads anywhere else. The files of loose objects
  are not part of the claim: their directories are no links, but the files themselves are not checked
  (\<open>loose_object_link_accepted\<close>), as the comment at the code and the security document say.\<close>

theorem accepted_repo_is_inside:
  assumes "proper_fs f" "open_repo f open_ext path = Ok r"
  shows "\<exists>og repo_root git common_text common. open_ext path = Ok og \<and> og_repo og = r
    \<and> canonical f path = Ok repo_root \<and> canonical f (og_path og) = Ok git
    \<and> common_dir f (og_path og) = Ok common_text \<and> canonical f common_text = Ok common
    \<and> (prefix repo_root git \<and> prefix repo_root common
       \<or> (\<exists>main name. prefix main repo_root \<and> common = main @ [''.git''] \<and> git = common @ [''worktrees'', name]))
    \<and> if_fs f (common @ [''objects'', ''info'', ''alternates'']) = None
    \<and> (\<forall>ns. checked_storage ns \<longrightarrow> stays f git ns \<and> stays f common ns)"
proof -
  obtain og repo_root where og: "open_ext path = Ok og" "og_repo og = r" "canonical f path = Ok repo_root"
    "verify_repo_boundary f (og_path og) repo_root = Ok ()"
    using assms(2) by (auto simp: open_repo_def split: sum.splits)
  obtain git ct common where g: "canonical f (og_path og) = Ok git" "common_dir f (og_path og) = Ok ct"
    "canonical f ct = Ok common" "verify_locality f (og_path og) git common repo_root = Ok ()"
    "reject_alternates f common = Ok ()" "reject_storage_symlinks f (path_of git) = Ok ()"
    "reject_storage_symlinks f (path_of common) = Ok ()"
    using og(4) by (auto simp: verify_repo_boundary_def split: sum.splits)
  have "prefix repo_root git \<and> prefix repo_root common
      \<or> (\<exists>main name. prefix main repo_root \<and> common = main @ [''.git''] \<and> git = common @ [''worktrees'', name])"
    by (rule locality [OF assms(1) g(3,4)])
  moreover have "if_fs f (common @ [''objects'', ''info'', ''alternates'']) = None"
    by (rule no_alternates [OF assms(1) g(5)])
  ultimately show ?thesis using og g storage_stays [OF assms(1) g(6)] storage_stays [OF assms(1) g(7)] by blast
qed

definition bare_repo :: "unit repo" where
  "bare_repo = \<lparr>rp_resolve = (\<lambda>_. None), rp_show = (\<lambda>_. []), rp_tree = (\<lambda>_. Err (GitLib [])),
     rp_diff = (\<lambda>_ _. Err (GitLib [])), rp_similar = (\<lambda>_ _. Err (GitLib [])), rp_header = (\<lambda>_. Err (GitLib [])),
     rp_blob = (\<lambda>_. Err (GitLib []))\<rparr>"

definition small_intake :: intake_fs where
  "small_intake =
     \<lparr>if_fs = [[''r''] \<mapsto> DirNode, [''r'', ''.git''] \<mapsto> DirNode, [''r'', ''.git'', ''refs''] \<mapsto> DirNode],
      if_cwd = [],
      if_list = (\<lambda>loc. if loc = [] then [''r''] else if loc = [''r''] then [''.git'']
                      else if loc = [''r'', ''.git''] then [''refs''] else [])\<rparr>"

definition small_open :: "str \<Rightarrow> git_error + unit opened" where
  "small_open p = Ok \<lparr>og_repo = bare_repo, og_path = ''/r/.git/''\<rparr>"

lemma small_proper: "proper_fs small_intake"
  by (auto simp: proper_fs_def rooted_def small_intake_def is_dir_def plain_name_def append_eq_Cons_conv)

lemma split_on_fast [code]:
  "split_on d [] = [[]]"
  "split_on d (x # xs) = (case split_on d xs of [] \<Rightarrow> [] | y # ys \<Rightarrow> if x = d then [] # y # ys else (x # y) # ys)"
proof -
  show "split_on d [] = [[]]" by simp
  show "split_on d (x # xs) = (case split_on d xs of [] \<Rightarrow> [] | y # ys \<Rightarrow> if x = d then [] # y # ys else (x # y) # ys)"
    by (cases "split_on d xs") simp_all
qed

lemma small_storage: "reject_storage_symlinks small_intake ''/r/.git'' = Ok ()"
proof -
  have "reject_entries small_intake ''/r/.git''
      [''objects'', ''objects/pack'', ''objects/info'', ''refs'', ''packed-refs'', ''HEAD''] = Ok ()" by code_simp
  moreover have "path_join ''/r/.git'' ''objects'' = ''/r/.git/objects''" "path_join ''/r/.git/objects'' ''pack'' = ''/r/.git/objects/pack''"
    "path_join ''/r/.git'' ''refs'' = ''/r/.git/refs''" by (simp_all add: path_join_def is_absolute_def)
  moreover have "reject_symlinked_children small_intake ''/r/.git/objects'' = Ok ()"
    "reject_symlinked_children small_intake ''/r/.git/objects/pack'' = Ok ()" by code_simp+
  moreover have "walk_refs small_intake ''/r/.git/refs'' cap [''/r/.git/refs''] 0 = Ok ()" for cap
  proof -
    have "read_dir small_intake ''/r/.git/refs'' = Ok []" by code_simp
    then show ?thesis by (simp add: walk_refs.simps)
  qed
  ultimately show ?thesis by (simp add: reject_storage_symlinks_def reject_symlinks_recursive_def)
qed

lemma small_checks:
  "canonical small_intake ''/r'' = Ok [''r'']"
  "verify_repo_boundary small_intake ''/r/.git/'' [''r''] = Ok ()"
proof -
  show "canonical small_intake ''/r'' = Ok [''r'']" by code_simp
  have "canonical small_intake ''/r/.git/'' = Ok [''r'', ''.git'']" "common_dir small_intake ''/r/.git/'' = Ok ''/r/.git/''"
    "reject_alternates small_intake [''r'', ''.git''] = Ok ()" by code_simp+
  moreover have "path_of [''r'', ''.git''] = ''/r/.git''" by (simp add: path_of_def)
  moreover have "verify_locality small_intake ''/r/.git/'' [''r'', ''.git''] [''r'', ''.git''] [''r''] = Ok ()"
  proof -
    have "require_under small_intake [''r''] ''/r/.git'' l = Ok ()" for l
    proof -
      have "canonical small_intake ''/r/.git'' = Ok [''r'', ''.git'']" by code_simp
      then show ?thesis by (simp add: require_under_def)
    qed
    moreover have "canonical small_intake (path_join ''/r/.git'' ''objects'') = Err NotFound" by code_simp
    ultimately show ?thesis by (simp add: verify_locality_def path_of_def)
  qed
  ultimately show "verify_repo_boundary small_intake ''/r/.git/'' [''r''] = Ok ()"
    using small_storage by (simp add: verify_repo_boundary_def)
qed

text \<open>The file of a loose object that is a link passes the check of the storage.\<close>

definition loose_intake :: intake_fs where
  "loose_intake =
     \<lparr>if_fs = (if_fs small_intake)([''r'', ''.git'', ''objects''] \<mapsto> DirNode, [''r'', ''.git'', ''objects'', ''ab''] \<mapsto> DirNode,
        [''r'', ''.git'', ''objects'', ''ab'', ''cd''] \<mapsto> LinkNode ''/victim''),
      if_cwd = [],
      if_list = (\<lambda>loc. if loc = [''r'', ''.git''] then [''refs'', ''objects''] else if loc = [''r'', ''.git'', ''objects''] then [''ab'']
                      else if loc = [''r'', ''.git'', ''objects'', ''ab''] then [''cd''] else if_list small_intake loc)\<rparr>"

lemma loose_object_link_accepted:
  "reject_storage_symlinks loose_intake ''/r/.git'' = Ok ()"
  "is_link loose_intake ([''r'', ''.git''] @ [''objects'', ''ab'', ''cd''])" "\<not> checked_storage [''objects'', ''ab'', ''cd'']"
proof -
  have "reject_entries loose_intake ''/r/.git''
      [''objects'', ''objects/pack'', ''objects/info'', ''refs'', ''packed-refs'', ''HEAD''] = Ok ()" by code_simp
  moreover have "path_join ''/r/.git'' ''objects'' = ''/r/.git/objects''" "path_join ''/r/.git/objects'' ''pack'' = ''/r/.git/objects/pack''"
    "path_join ''/r/.git'' ''refs'' = ''/r/.git/refs''" by (simp_all add: path_join_def is_absolute_def)
  moreover have "reject_symlinked_children loose_intake ''/r/.git/objects'' = Ok ()"
    "reject_symlinked_children loose_intake ''/r/.git/objects/pack'' = Ok ()" by code_simp+
  moreover have "walk_refs loose_intake ''/r/.git/refs'' cap [''/r/.git/refs''] 0 = Ok ()" for cap
  proof -
    have "read_dir loose_intake ''/r/.git/refs'' = Ok []" by code_simp
    then show ?thesis by (simp add: walk_refs.simps)
  qed
  ultimately show "reject_storage_symlinks loose_intake ''/r/.git'' = Ok ()"
    by (simp add: reject_storage_symlinks_def reject_symlinks_recursive_def)
  show "is_link loose_intake ([''r'', ''.git''] @ [''objects'', ''ab'', ''cd''])" by (simp add: is_link_def loose_intake_def)
  show "\<not> checked_storage [''objects'', ''ab'', ''cd'']" by (simp add: checked_storage_def)
qed

theorem accepted_repo_is_inside_witness:
  "\<exists>og repo_root git common_text common. small_open ''/r'' = Ok og \<and> og_repo og = bare_repo
    \<and> canonical small_intake ''/r'' = Ok repo_root \<and> canonical small_intake (og_path og) = Ok git
    \<and> common_dir small_intake (og_path og) = Ok common_text \<and> canonical small_intake common_text = Ok common
    \<and> (prefix repo_root git \<and> prefix repo_root common
       \<or> (\<exists>main name. prefix main repo_root \<and> common = main @ [''.git''] \<and> git = common @ [''worktrees'', name]))
    \<and> if_fs small_intake (common @ [''objects'', ''info'', ''alternates'']) = None
    \<and> (\<forall>ns. checked_storage ns \<longrightarrow> stays small_intake git ns \<and> stays small_intake common ns)"
proof (rule accepted_repo_is_inside [OF small_proper])
  show "open_repo small_intake small_open ''/r'' = Ok bare_repo"
    using small_checks by (simp add: open_repo_def small_open_def)
qed

end
