(* ===== verification/Run.thy ===== *)
theory Run
  imports Drive Executor Provider Boundary
begin

text \<open>
  \<open>jitgen-orchestrator/src/run.rs\<close>: a session over a run. \<open>run_jit_generation\<close> creates or reopens the run
  of a diff and drives it, \<open>resume_run\<close> continues one by its id, \<open>load_report\<close> serves the stored report and
  \<open>apply_to_repo\<close> writes the accepted tests. The state of a session is the store (behind the operations of
  \<open>RunStore\<close>), the file system with the counters of the executor, and whatever the provider depends on.
\<close>

section \<open>The code\<close>

subsection \<open>Parameters\<close>

record 's run_store =
  st_open :: "'s \<Rightarrow> (state_error + unit) \<times> 's"
  st_create :: "run_meta \<Rightarrow> 's \<Rightarrow> (state_error + unit) \<times> 's"
  st_get :: "str \<Rightarrow> 's \<Rightarrow> state_error + run_meta option"
  st_open_run :: "str \<Rightarrow> 's \<Rightarrow> (state_error + unit) \<times> 's"
  st_status :: "str \<Rightarrow> str \<Rightarrow> 's \<Rightarrow> (state_error + unit) \<times> 's"
  st_run :: "str \<Rightarrow> 's store_ops"

text \<open>The world of the executor and the provider.\<close>

type_synonym 'p world = "exec_world \<times> 'p"

record ('oid, 'n, 'p) run_host =
  rh_host :: host
  rh_var :: "str \<Rightarrow> str option"
  rh_temp_dir :: str
  rh_list :: "filesys \<Rightarrow> str list \<Rightarrow> str list"
  rh_open :: "str \<Rightarrow> git_error + 'oid opened"
  rh_walk :: "'oid repo \<Rightarrow> 'oid tree_walk"
  rh_find :: "'oid repo \<Rightarrow> 'oid \<Rightarrow> bool"
  rh_parse_oid :: "str \<Rightarrow> 'oid option"
  rh_workdir :: "'oid repo \<Rightarrow> str option"
  rh_yaml :: yaml_reader
  rh_rounding :: rounding
  rh_fmt2 :: "f64 \<Rightarrow> str"
  rh_parser :: "'n ts_parser"
  rh_json :: json_parser
  rh_llm :: llm_env
  rh_hash :: "llm_request \<Rightarrow> nat"
  rh_post :: "'p world transport"
  rh_env :: run_env
  rh_id_output :: "str \<Rightarrow> str \<Rightarrow> str option"
  rh_codec :: codec
  rh_version :: str
  rh_pid :: nat

subsection \<open>Helpers\<close>

record run_options =
  ro_repo :: str
  ro_base :: str
  ro_head :: str
  ro_trusted :: trusted_config

definition MANIFEST_NAMES :: "str list" where
  "MANIFEST_NAMES =
     [''package.json'', ''pnpm-lock.yaml'', ''yarn.lock'', ''package-lock.json'', ''tsconfig.json'', ''Cargo.toml'',
      ''Cargo.lock'', ''pom.xml'', ''build.gradle'', ''build.gradle.kts'', ''settings.gradle'', ''pyproject.toml'',
      ''setup.py'', ''setup.cfg'', ''pytest.ini'', ''tox.ini'', ''go.mod'', ''.jitgen.yaml'']"

definition STATE_SCHEMA_VERSION :: u32 where "STATE_SCHEMA_VERSION = 1"

text \<open>\<open>std::path::absolute\<close>: nothing for the empty path and for a relative one without a working directory.\<close>

definition std_absolute :: "host \<Rightarrow> str \<Rightarrow> str option" where
  "std_absolute h p =
     (if p = [] \<or> \<not> is_absolute p \<and> h_cwd h = None then None
      else let comps = absolute_or_self h p in
        Some (display_path comps @ (if last p = CHR ''/'' \<and> comps \<noteq> [RootDir] then ''/'' else [])))"

definition fallback_state_root :: "str \<Rightarrow> str" where
  "fallback_state_root temp_dir =
     (let tmp = path_join temp_dir ''jitgen-state'' in if is_absolute tmp then tmp else ''/tmp/jitgen-state'')"

definition absolutize :: "host \<Rightarrow> str \<Rightarrow> str \<Rightarrow> str" where
  "absolutize h temp_dir candidate =
     (case std_absolute h candidate of
        Some p \<Rightarrow> if is_absolute p then p else fallback_state_root temp_dir
      | None \<Rightarrow> fallback_state_root temp_dir)"

definition set_var :: "(str \<Rightarrow> str option) \<Rightarrow> str \<Rightarrow> str option" where
  "set_var var n = (case var n of Some v \<Rightarrow> if v = [] then None else Some v | None \<Rightarrow> None)"

definition default_state_root :: "('oid, 'n, 'p) run_host \<Rightarrow> str" where
  "default_state_root rh =
     (let candidate =
        (case set_var (rh_var rh) ''JITGEN_STATE_DIR'' of
           Some d \<Rightarrow> d
         | None \<Rightarrow> (case set_var (rh_var rh) ''XDG_STATE_HOME'' of
             Some x \<Rightarrow> x @ ''/jitgen''
           | None \<Rightarrow> (case set_var (rh_var rh) ''HOME'' of
               Some home \<Rightarrow> home @ ''/.local/state/jitgen''
             | None \<Rightarrow> path_join (rh_temp_dir rh) ''jitgen-state'')))
      in absolutize (rh_host rh) (rh_temp_dir rh) candidate)"

definition resolve_state_root :: "('oid, 'n, 'p) run_host \<Rightarrow> trusted_config \<Rightarrow> str" where
  "resolve_state_root rh trusted =
     (case tc_state_dir trusted of
        Some d \<Rightarrow>
          if d \<noteq> [] then (case std_absolute (rh_host rh) d of Some p \<Rightarrow> p | None \<Rightarrow> d) else default_state_root rh
      | None \<Rightarrow> default_state_root rh)"

definition state_root_for :: "('oid, 'n, 'p) run_host \<Rightarrow> str option \<Rightarrow> str" where
  "state_root_for rh state_dir =
     (case state_dir of Some d \<Rightarrow> if d \<noteq> [] then d else default_state_root rh | None \<Rightarrow> default_state_root rh)"

definition run_config_from :: "trusted_config \<Rightarrow> run_config" where
  "run_config_from trusted =
     default_run_config\<lparr>cf_mode := tc_mode trusted, cf_strategy := tc_strategy trusted,
       cf_real_llm := pc_real_llm (tc_provider trusted),
       cf_strategy_cfg := default_strategy\<lparr>sc_num_candidates := 1\<rparr>\<rparr>"

definition build_sandbox :: "('oid, 'n, 'p) run_host \<Rightarrow> trusted_config \<Rightarrow> orch_error + sandbox" where
  "build_sandbox rh trusted =
     (let esc = re_esc (rh_env rh) in
      case detect_and_select esc (re_before (rh_env rh)) (from_trusted trusted) of
        Err e \<Rightarrow> Err (OrSandbox (show_sandbox esc e))
      | Ok sb \<Rightarrow> Ok sb)"

definition derive_run_id :: "(str \<Rightarrow> str) \<Rightarrow> str \<Rightarrow> str \<Rightarrow> str \<Rightarrow> run_mode \<Rightarrow> str" where
  "derive_run_id sha repo_abs base head mode =
     ''run-'' @ take 16 (sha (repo_abs @ [US] @ base @ [US] @ head @ [US] @ mode_as_str mode))"

definition parse_oid :: "('oid, 'n, 'p) run_host \<Rightarrow> str \<Rightarrow> orch_error + 'oid" where
  "parse_oid rh hex =
     (case rh_parse_oid rh hex of
        None \<Rightarrow> Err (OrInvalid ''oid'' (''stored revision '' @ debug_str (re_esc (rh_env rh)) hex @ '' is not a valid OID''))
      | Some oid \<Rightarrow> Ok oid)"

definition base_name :: "str \<Rightarrow> str" where
  "base_name p = last (split_on (CHR ''/'') p)"

fun snapshot_files :: "'oid repo \<Rightarrow> 'oid \<Rightarrow> str list \<Rightarrow> str list \<Rightarrow> (str \<times> str) list \<Rightarrow> orch_error + (str \<times> str) list" where
  "snapshot_files repo head changed [] files = Ok files"
| "snapshot_files repo head changed (p # ps) files =
     (if p \<in> set changed \<or> base_name p \<in> set MANIFEST_NAMES
      then (case read_blob_at repo head p of
              Err e \<Rightarrow> Err (OrGit e)
            | Ok (Some bytes) \<Rightarrow> snapshot_files repo head changed ps (files @ [(p, bytes)])
            | Ok None \<Rightarrow> snapshot_files repo head changed ps files)
      else snapshot_files repo head changed ps files)"

definition build_snapshot :: "'oid repo \<Rightarrow> 'oid tree_walk \<Rightarrow> 'oid \<Rightarrow> change_set \<Rightarrow> orch_error + repo_snapshot" where
  "build_snapshot repo tw head changes =
     (case list_tree_paths tw head of
        Err e \<Rightarrow> Err e
      | Ok paths \<Rightarrow>
          (case snapshot_files repo head (map fc_path (cs_files changes)) paths [] of
             Err e \<Rightarrow> Err e
           | Ok files \<Rightarrow> Ok (snapshot_new paths files)))"

definition assemble_report ::
  "str \<Rightarrow> str \<Rightarrow> str option \<Rightarrow> str \<Rightarrow> str \<Rightarrow> run_mode \<Rightarrow> strategy \<Rightarrow> ranked_target list \<Rightarrow> target_outcome list \<Rightarrow> str list
    \<Rightarrow> run_report" where
  "assemble_report version run_id workdir base head mode strategy ranked outcomes warnings =
     (let accepted = concat (map to_accepted outcomes); catches = concat (map to_catches outcomes);
          rejected = concat (map to_rejected outcomes) in
      \<lparr>rr_schema_version = REPORT_SCHEMA_VERSION, rr_jitgen_version = version, rr_run_id = run_id,
       rr_repo = (case workdir of Some d \<Rightarrow> d | None \<Rightarrow> []), rr_base = base, rr_head = head, rr_mode = mode,
       rr_strategy = strategy,
       rr_summary = \<lparr>rs_targets_selected = length ranked,
          rs_candidates_generated = sum_list (map to_candidates_generated outcomes),
          rs_accepted = length accepted, rs_catches = length catches, rs_rejected = length rejected\<rparr>,
       rr_accepted = accepted, rr_catches = catches, rr_rejected = rejected, rr_warnings = warnings\<rparr>)"

text \<open>\<open>fs::create_dir_all\<close>.\<close>

definition path_is_dir :: "filesys \<Rightarrow> str list \<Rightarrow> component list \<Rightarrow> bool" where
  "path_is_dir fs base cs =
     (case resolve_path fs False MAX_LINKS base cs of Ok loc \<Rightarrow> is_dir fs loc | Err _ \<Rightarrow> False)"

function create_dir_all :: "filesys \<Rightarrow> str list \<Rightarrow> component list \<Rightarrow> (io_error + unit) \<times> filesys" where
  "create_dir_all fs base cs =
     (if cs = [] then (Ok (), fs)
      else case create_dir fs base cs of
        (Ok _, fs) \<Rightarrow> (Ok (), fs)
      | (Err NotFound, _) \<Rightarrow>
          (case create_dir_all fs base (butlast cs) of
             (Err e, fs) \<Rightarrow> (Err e, fs)
           | (Ok _, fs) \<Rightarrow>
               (case create_dir fs base cs of
                  (Ok _, fs) \<Rightarrow> (Ok (), fs)
                | (Err e, _) \<Rightarrow> if path_is_dir fs base cs then (Ok (), fs) else (Err e, fs)))
      | (Err e, _) \<Rightarrow> if path_is_dir fs base cs then (Ok (), fs) else (Err e, fs))"
  by pat_completeness auto
termination by (relation "measure (\<lambda>(fs, base, cs). length cs)") auto

declare create_dir_all.simps [simp del]

subsection \<open>Driving a run\<close>

text \<open>The executor on the larger world.\<close>

definition lift_world :: "(exec_world \<Rightarrow> 'a \<times> exec_world) \<Rightarrow> 'p world \<Rightarrow> 'a \<times> 'p world" where
  "lift_world g w = (case g (fst w) of (r, x) \<Rightarrow> (r, x, snd w))"

definition lift_executor :: "exec_world executor \<Rightarrow> 'p world executor" where
  "lift_executor ex = \<lparr>run_candidate = (\<lambda>c v. lift_world (run_candidate ex c v)),
     run_existing = (\<lambda>v. lift_world (run_existing ex v))\<rparr>"

record ('oid, 'p) target_driver =
  td_registry :: "language_adapter list"
  td_repo :: "'oid repo"
  td_snapshot :: repo_snapshot
  td_resolved :: resolved_config
  td_changes :: change_set
  td_sandbox :: sandbox
  td_provider :: "'p world provider"
  td_run_config :: run_config
  td_base :: 'oid
  td_head :: 'oid
  td_state_root :: str
  td_overlays :: overlay_root

definition driver_executor ::
  "('oid, 'n, 'p) run_host \<Rightarrow> ('oid, 'p) target_driver \<Rightarrow> language_adapter \<Rightarrow> target \<Rightarrow> 'oid sandbox_executor" where
  "driver_executor rh d adapter t =
     \<lparr>se_repo = td_repo d, se_walk = rh_walk rh (td_repo d), se_snapshot = td_snapshot d, se_config = td_resolved d,
      se_adapter = adapter, se_target = t, se_base = td_base d, se_head = td_head d, se_sandbox = td_sandbox d,
      se_state_root = td_state_root d, se_overlays = td_overlays d,
      se_run_as = executor_run_as (td_sandbox d) (ho_executable (re_before (rh_env rh))) (rh_id_output rh),
      se_run_env = rh_env rh, se_sha = cd_sha (rh_codec rh), se_pid = rh_pid rh\<rparr>"

definition driver_process ::
  "('oid, 'n, 'p) run_host \<Rightarrow> ('oid, 'p) target_driver \<Rightarrow> ranked_target \<Rightarrow> 'p world
    \<Rightarrow> (orch_error + target_outcome) \<times> 'p world" where
  "driver_process rh d rt w =
     (case registry_adapter (td_registry d) (tg_adapter (rt_target rt)) of
        None \<Rightarrow> (Err (OrInvalid ''adapter'' (''no adapter '' @ debug_str (re_esc (rh_env rh)) (tg_adapter (rt_target rt))
                  @ '' for target'')), w)
      | Some adapter \<Rightarrow>
          process_target (re_rx (rh_env rh)) (rh_json rh) (td_provider d)
            (lift_executor (executor_of (driver_executor rh d adapter (rt_target rt)))) rt
            (build_context (re_rx (rh_env rh)) (td_snapshot d) (rt_target rt) (td_changes d)
               (cfg_mode (td_resolved d)) default_budget)
            (rc_prompt_hints (cfg_repo (td_resolved d))) (td_run_config d) w)"

definition run_dir :: "str \<Rightarrow> str \<Rightarrow> str" where
  "run_dir state_root run_id = path_join (path_join state_root ''runs'') run_id"

text \<open>The directory of the overlays: created, and named by its place as the executor uses it.\<close>

definition make_overlays :: "('oid, 'n, 'p) run_host \<Rightarrow> str \<Rightarrow> 'p world \<Rightarrow> (orch_error + overlay_root) \<times> 'p world" where
  "make_overlays rh dir w =
     (let x = fst w; cwd = re_cwd (rh_env rh) in
      case create_dir_all (xw_fs x) cwd (kernel_components dir) of
        (Err e, fs) \<Rightarrow> (Err (OrIo (show_io e)), x\<lparr>xw_fs := fs\<rparr>, snd w)
      | (Ok _, fs) \<Rightarrow>
          (case canonicalize fs cwd dir of
             Err e \<Rightarrow> (Err (OrIo (show_io e)), x\<lparr>xw_fs := fs\<rparr>, snd w)
           | Ok loc \<Rightarrow> (Ok \<lparr>ov_text = dir, ov_loc = loc\<rparr>, x\<lparr>xw_fs := fs\<rparr>, snd w)))"

text \<open>Everything before the targets: the driver, the ranked targets and the warnings of the configuration.\<close>

definition prepare_run ::
  "('oid, 'n, 'p) run_host \<Rightarrow> str \<Rightarrow> str \<Rightarrow> 'oid repo \<Rightarrow> 'oid \<Rightarrow> 'oid \<Rightarrow> trusted_config \<Rightarrow> 'p world provider option
    \<Rightarrow> 'p world \<Rightarrow> (orch_error + ('oid, 'p) target_driver \<times> ranked_target list \<times> str list) \<times> 'p world" where
  "prepare_run rh state_root run_id repo base head trusted injected w =
     (case diff_revisions repo (rp_show repo base) (rp_show repo head) of
        Err e \<Rightarrow> (Err (OrGit e), w)
      | Ok changes \<Rightarrow>
     (case build_snapshot repo (rh_walk rh repo) head changes of
        Err e \<Rightarrow> (Err e, w)
      | Ok snapshot \<Rightarrow>
     (case load_repo_config (rh_yaml rh) repo head of
        Err e \<Rightarrow> (Err e, w)
      | Ok (repo_cfg, warnings) \<Rightarrow>
          (let resolved = resolved_config_new trusted repo_cfg warnings;
               registry = with_builtins (rh_rounding rh) (rh_parser rh) repo_cfg;
               ctx = \<lparr>ac_repo = snapshot, ac_config = resolved, ac_mode = cfg_mode resolved,
                 ac_base = rp_show repo base, ac_head = rp_show repo head\<rparr>;
               ranked = select_targets (rh_rounding rh) (rh_fmt2 rh) (registry_analyze registry ctx changes) (tc_max_tests trusted);
               provider = (case injected of Some p \<Rightarrow> p
                 | None \<Rightarrow> make_provider (rh_llm rh) (rh_hash rh) (rh_post rh) resolved)
           in case build_sandbox rh trusted of
             Err e \<Rightarrow> (Err e, w)
           | Ok sb \<Rightarrow>
               (case make_overlays rh (path_join (run_dir state_root run_id) ''overlays'') w of
                  (Err e, w) \<Rightarrow> (Err e, w)
                | (Ok overlays, w) \<Rightarrow>
                    (Ok (\<lparr>td_registry = registry, td_repo = repo, td_snapshot = snapshot, td_resolved = resolved,
                          td_changes = changes, td_sandbox = sb, td_provider = provider,
                          td_run_config = (run_config_from trusted)\<lparr>cf_surface_evidence := injected \<noteq> None\<rparr>,
                          td_base = base, td_head = head, td_state_root = state_root, td_overlays = overlays\<rparr>,
                         ranked, warnings), w))))))"

definition drive_run ::
  "('oid, 'n, 'p) run_host \<Rightarrow> 's store_ops \<Rightarrow> str \<Rightarrow> str \<Rightarrow> 'oid repo \<Rightarrow> 'oid \<Rightarrow> 'oid \<Rightarrow> trusted_config
    \<Rightarrow> 'p world provider option \<Rightarrow> 's \<Rightarrow> 'p world \<Rightarrow> (orch_error + run_report) \<times> 's \<times> 'p world" where
  "drive_run rh run state_root run_id repo base head trusted injected s w =
     (case prepare_run rh state_root run_id repo base head trusted injected w of
        (Err e, w) \<Rightarrow> (Err e, s, w)
      | (Ok (driver, ranked, cfg_warns), w) \<Rightarrow>
     (case drive_targets (rh_codec rh) run ranked (config_fingerprint (rh_codec rh) trusted) (driver_process rh driver) s w of
        (Err e, s, w) \<Rightarrow> (Err e, s, w)
      | (Ok outcomes, s, w) \<Rightarrow>
          (let redacted = map (\<lambda>x. rd_text (redact (re_rx (rh_env rh)) x)) (cfg_warns @ sb_warnings (td_sandbox driver));
               report = assemble_report (rh_version rh) run_id (rh_workdir rh repo) (rp_show repo base) (rp_show repo head)
                 (tc_mode trusted) (resolve (cf_strategy (td_run_config driver)) (tc_mode trusted)) ranked outcomes redacted
           in case persist_report (rh_codec rh) run report s of
             (Err e, s) \<Rightarrow> (Err e, s, w)
           | (Ok _, s) \<Rightarrow> (Ok report, s, w))))"

subsection \<open>Sessions\<close>

text \<open>The last part of both: drive the run, and mark it as completed.\<close>

definition complete_run ::
  "('oid, 'n, 'p) run_host \<Rightarrow> 's run_store \<Rightarrow> str \<Rightarrow> str \<Rightarrow> 'oid repo \<Rightarrow> 'oid \<Rightarrow> 'oid \<Rightarrow> trusted_config
    \<Rightarrow> 'p world provider option \<Rightarrow> 's \<Rightarrow> 'p world \<Rightarrow> (orch_error + run_report) \<times> 's \<times> 'p world" where
  "complete_run rh store state_root run_id repo base head trusted injected s w =
     (case drive_run rh (st_run store run_id) state_root run_id repo base head trusted injected s w of
        (Err e, s, w) \<Rightarrow> (Err e, s, w)
      | (Ok report, s, w) \<Rightarrow>
          (case st_status store run_id ''completed'' s of
             (Err e, s) \<Rightarrow> (Err (OrState e), s, w)
           | (Ok _, s) \<Rightarrow> (Ok report, s, w)))"

definition intake_of :: "('oid, 'n, 'p) run_host \<Rightarrow> 'p world \<Rightarrow> intake_fs" where
  "intake_of rh w = \<lparr>if_fs = xw_fs (fst w), if_cwd = re_cwd (rh_env rh), if_list = rh_list rh (xw_fs (fst w))\<rparr>"

text \<open>The run's row, from the store of its root.\<close>

definition start_run ::
  "('oid, 'n, 'p) run_host \<Rightarrow> 's run_store \<Rightarrow> str \<Rightarrow> run_meta \<Rightarrow> trusted_config \<Rightarrow> 's \<Rightarrow> (orch_error + unit) \<times> 's" where
  "start_run rh store run_id meta trusted s =
     (case st_create store meta s of
        (Err e, s) \<Rightarrow> (Err (OrState e), s)
      | (Ok _, s) \<Rightarrow>
          (case st_status store run_id ''running'' s of
             (Err e, s) \<Rightarrow> (Err (OrState e), s)
           | (Ok _, s) \<Rightarrow> persist_trusted (rh_codec rh) (st_run store run_id) trusted s))"

definition run_jit_generation_inner ::
  "('oid, 'n, 'p) run_host \<Rightarrow> (str \<Rightarrow> 's run_store) \<Rightarrow> run_options \<Rightarrow> 'p world provider option
    \<Rightarrow> 's \<Rightarrow> 'p world \<Rightarrow> (orch_error + run_report) \<times> 's \<times> 'p world" where
  "run_jit_generation_inner rh stores opts injected s w =
     (case open_repo (intake_of rh w) (rh_open rh) (ro_repo opts) of
        Err e \<Rightarrow> (Err (OrGit e), s, w)
      | Ok repo \<Rightarrow>
     (case canonical (intake_of rh w) (ro_repo opts) of
        Err e \<Rightarrow> (Err (OrIo (show_io e)), s, w)
      | Ok loc \<Rightarrow>
     (case resolve_commit repo (ro_base opts) of
        Err e \<Rightarrow> (Err (OrGit e), s, w)
      | Ok base \<Rightarrow>
     (case resolve_commit repo (ro_head opts) of
        Err e \<Rightarrow> (Err (OrGit e), s, w)
      | Ok head \<Rightarrow>
          (let trusted = ro_trusted opts; repo_abs = from_utf8_lossy (path_of loc);
               state_root = resolve_state_root rh trusted; store = stores state_root
           in case ensure_outside_repo (rh_host rh) state_root (ro_repo opts) ''--state-dir'' of
             Err e \<Rightarrow> (Err e, s, w)
           | Ok _ \<Rightarrow>
          (case st_open store s of
             (Err e, s) \<Rightarrow> (Err (OrState e), s, w)
           | (Ok _, s) \<Rightarrow>
               (let run_id = derive_run_id (cd_sha (rh_codec rh)) repo_abs (rp_show repo base) (rp_show repo head) (tc_mode trusted);
                    meta = \<lparr>rm_run_id = run_id, rm_repo_path = repo_abs, rm_base_ref = rp_show repo base,
                      rm_head_ref = rp_show repo head, rm_mode = mode_as_str (tc_mode trusted),
                      rm_schema_version = STATE_SCHEMA_VERSION, rm_status = ''running''\<rparr>
                in case start_run rh store run_id meta trusted s of
                  (Err e, s) \<Rightarrow> (Err e, s, w)
                | (Ok _, s) \<Rightarrow> complete_run rh store state_root run_id repo base head trusted injected s w)))))))"

definition run_jit_generation ::
  "('oid, 'n, 'p) run_host \<Rightarrow> (str \<Rightarrow> 's run_store) \<Rightarrow> run_options \<Rightarrow> 's \<Rightarrow> 'p world
    \<Rightarrow> (orch_error + run_report) \<times> 's \<times> 'p world" where
  "run_jit_generation rh stores opts = run_jit_generation_inner rh stores opts None"

text \<open>The row of a run of a store that lies outside the repository of that run.\<close>

definition no_such_run :: "('oid, 'n, 'p) run_host \<Rightarrow> str \<Rightarrow> orch_error" where
  "no_such_run rh run_id = OrInvalid ''run-id'' (''no run '' @ debug_str (re_esc (rh_env rh)) run_id @ '' in the state index'')"

definition find_run ::
  "('oid, 'n, 'p) run_host \<Rightarrow> 's run_store \<Rightarrow> str \<Rightarrow> str \<Rightarrow> 's \<Rightarrow> (orch_error + run_meta) \<times> 's" where
  "find_run rh store state_root run_id s =
     (case st_open store s of
        (Err e, s) \<Rightarrow> (Err (OrState e), s)
      | (Ok _, s) \<Rightarrow>
          (case st_get store run_id s of
             Err e \<Rightarrow> (Err (OrState e), s)
           | Ok None \<Rightarrow> (Err (no_such_run rh run_id), s)
           | Ok (Some meta) \<Rightarrow>
               (case ensure_outside_repo (rh_host rh) state_root (rm_repo_path meta) ''--state-dir'' of
                  Err e \<Rightarrow> (Err e, s)
                | Ok _ \<Rightarrow> (Ok meta, s))))"

definition resume_run ::
  "('oid, 'n, 'p) run_host \<Rightarrow> (str \<Rightarrow> 's run_store) \<Rightarrow> str \<Rightarrow> str \<Rightarrow> 's \<Rightarrow> 'p world
    \<Rightarrow> (orch_error + run_report) \<times> 's \<times> 'p world" where
  "resume_run rh stores state_root run_id s w =
     (let store = stores state_root in
      case find_run rh store state_root run_id s of
        (Err e, s) \<Rightarrow> (Err e, s, w)
      | (Ok meta, s) \<Rightarrow>
     (case open_repo (intake_of rh w) (rh_open rh) (rm_repo_path meta) of
        Err e \<Rightarrow> (Err (OrGit e), s, w)
      | Ok repo \<Rightarrow>
     (case parse_oid rh (rm_base_ref meta) of
        Err e \<Rightarrow> (Err e, s, w)
      | Ok base \<Rightarrow>
     (case parse_oid rh (rm_head_ref meta) of
        Err e \<Rightarrow> (Err e, s, w)
      | Ok head \<Rightarrow>
          if \<not> (rh_find rh repo base \<and> rh_find rh repo head)
          then (Err (OrInvalid ''run-id'' (''the run'' @ [CHR 0x27] @ ''s base/head OIDs are no longer present in the repository'')), s, w)
          else
     (case st_open_run store run_id s of
        (Err e, s) \<Rightarrow> (Err (OrState e), s, w)
      | (Ok _, s) \<Rightarrow>
     (case load_trusted (rh_codec rh) (st_run store run_id) s of
        Err e \<Rightarrow> (Err e, s, w)
      | Ok trusted \<Rightarrow>
     (case st_status store run_id ''running'' s of
        (Err e, s) \<Rightarrow> (Err (OrState e), s, w)
      | (Ok _, s) \<Rightarrow> complete_run rh store state_root run_id repo base head trusted None s w)))))))"

definition load_report ::
  "('oid, 'n, 'p) run_host \<Rightarrow> (str \<Rightarrow> 's run_store) \<Rightarrow> str \<Rightarrow> str \<Rightarrow> 's \<Rightarrow> (orch_error + run_report) \<times> 's" where
  "load_report rh stores state_root run_id s =
     (let store = stores state_root; dbg = debug_str (re_esc (rh_env rh)) in
      case find_run rh store state_root run_id s of
        (Err e, s) \<Rightarrow> (Err e, s)
      | (Ok meta, s) \<Rightarrow>
          if rm_status meta \<noteq> ''completed''
          then (Err (OrInvalid ''run-id'' (''run '' @ dbg run_id @ '' is not in a completed state (status: '' @ rm_status meta
                  @ ''); no current report is available '' @ [CHR 0xE2, CHR 0x80, CHR 0x94]
                  @ '' it may be mid-run, or a re-run may have failed. Use '' @ quote_var ''jitgen resume''
                  @ '' to finish it.'')), s)
          else
     (case st_open_run store run_id s of
        (Err e, s) \<Rightarrow> (Err (OrState e), s)
      | (Ok _, s) \<Rightarrow>
     (case read_run_artifact (st_run store run_id) ''report.json'' s of
        Err e \<Rightarrow> (Err e, s)
      | Ok None \<Rightarrow> (Err (OrInvalid ''run-id'' (''run '' @ dbg run_id @ '' has no report.json (it may not have finished)'')), s)
      | Ok (Some bytes) \<Rightarrow>
          (case cd_parse_report (rh_codec rh) bytes of
             Err e \<Rightarrow> (Err (OrConfig (''cannot parse stored report.json: '' @ e)), s)
           | Ok r \<Rightarrow> (Ok r, s)))))"

subsection \<open>Landing\<close>

fun write_tests :: "overlay_root \<Rightarrow> accepted_test list \<Rightarrow> str list \<Rightarrow> filesys \<Rightarrow> (orch_error + str list) \<times> filesys" where
  "write_tests dir [] written fs = (Ok written, fs)"
| "write_tests dir (t # ts) written fs =
     (case write_file dir (at_path t) (at_source t) fs of
        (Err e, fs) \<Rightarrow> (Err e, fs)
      | (Ok _, fs) \<Rightarrow> write_tests dir ts (written @ [at_path t]) fs)"

definition apply_to_repo :: "overlay_root \<Rightarrow> run_report \<Rightarrow> filesys \<Rightarrow> (orch_error + str list) \<times> filesys" where
  "apply_to_repo dir report fs =
     (if rr_mode report = Catch
      then (Err (OrInvalid ''--write'' ''catch mode is report-only; refusing to write''), fs)
      else write_tests dir (rr_accepted report) [] fs)"

end
