(* ===== verification/Render.thy ===== *)
theory Render
  imports Process
begin

text \<open>
  The exporters of \<open>jitgen-report\<close> other than the patch: \<open>human.rs\<close>, \<open>markdown.rs\<close>, \<open>junit.rs\<close>,
  \<open>sarif.rs\<close>, \<open>json.rs\<close> and the dispatch of \<open>lib.rs\<close>. \<open>push_str\<close> is concatenation; the writer of
  \<open>serde_json\<close> is a parameter. The properties read the outputs back: the lines of the terminal output, the tags of
  the XML document and the headings of the Markdown document.
\<close>

section \<open>Formats\<close>

datatype report_format = HumanFormat | JsonFormat | MarkdownFormat | PatchFormat | JunitFormat | SarifFormat

definition parse_format :: "str \<Rightarrow> report_format option" where
  "parse_format s =
     (if s = ''human'' then Some HumanFormat
      else if s = ''json'' then Some JsonFormat
      else if s = ''markdown'' \<or> s = ''md'' then Some MarkdownFormat
      else if s = ''patch'' \<or> s = ''diff'' then Some PatchFormat
      else if s = ''junit'' then Some JunitFormat
      else if s = ''sarif'' then Some SarifFormat
      else None)"

fun format_as_str :: "report_format \<Rightarrow> str" where
  "format_as_str HumanFormat = ''human''"
| "format_as_str JsonFormat = ''json''"
| "format_as_str MarkdownFormat = ''markdown''"
| "format_as_str PatchFormat = ''patch''"
| "format_as_str JunitFormat = ''junit''"
| "format_as_str SarifFormat = ''sarif''"

fun bucket_debug :: "tp_bucket \<Rightarrow> str" where
  "bucket_debug VeryLow = ''VeryLow''"
| "bucket_debug Low = ''Low''"
| "bucket_debug Medium = ''Medium''"
| "bucket_debug High = ''High''"
| "bucket_debug VeryHigh = ''VeryHigh''"

section \<open>Terminal\<close>

definition ARROW :: str where "ARROW = [CHR 0xE2, CHR 0x86, CHR 0x92]"
definition DASH :: str where "DASH = [CHR 0xE2, CHR 0x80, CHR 0x94]"

definition human_head :: "run_report \<Rightarrow> str" where
  "human_head r =
     ''jitgen '' @ sanitize_line (rr_jitgen_version r) CAP_NAME @ '' '' @ DASH @ '' run '' @ sanitize_line (rr_run_id r) CAP_NAME @ [LF]
     @ ''repo: '' @ sanitize_line (rr_repo r) CAP_NAME @ [LF]
     @ ''base: '' @ sanitize_line (rr_base r) CAP_NAME @ ''  head: '' @ sanitize_line (rr_head r) CAP_NAME @ [LF]
     @ ''mode: '' @ mode_as_str (rr_mode r) @ [LF]
     @ [LF] @ ''summary: '' @ show_nat (rs_targets_selected (rr_summary r)) @ '' targets, ''
     @ show_nat (rs_candidates_generated (rr_summary r)) @ '' candidates, ''
     @ show_nat (rs_accepted (rr_summary r)) @ '' accepted, '' @ show_nat (rs_catches (rr_summary r)) @ '' catches, ''
     @ show_nat (rs_rejected (rr_summary r)) @ '' rejected'' @ [LF]"

definition human_accepted :: "accepted_test \<Rightarrow> str" where
  "human_accepted t =
     ''  + '' @ sanitize_line (at_path t) CAP_NAME @ '' ['' @ sanitize_line (at_language t) CAP_NAME @ '']  '' @ ARROW @ '' ''
     @ sanitize_line (at_reproduction t) CAP_TEXT @ [LF]"

definition human_catch :: "catch_report \<Rightarrow> str" where
  "human_catch c =
     ''  ! ['' @ severity_as_str (severity_of (cr_decision c) (cr_tp_probability c)) @ ''] '' @ decision_debug (cr_decision c)
     @ '' tp='' @ show_f2 (cr_tp_probability c) @ '' '' @ sanitize_line (cr_path c) CAP_NAME @ '' '' @ ARROW @ '' ''
     @ sanitize_line (cr_rationale c) CAP_TEXT @ [LF]"

definition human_rejected :: "rejected_candidate \<Rightarrow> str" where
  "human_rejected j = ''  - '' @ sanitize_line (rj_path j) CAP_NAME @ '' ('' @ sanitize_line (rj_reason j) CAP_TEXT @ '')'' @ [LF]"

definition human_warning :: "str \<Rightarrow> str" where
  "human_warning w = ''  ! '' @ sanitize_line w CAP_TEXT @ [LF]"

definition none_line :: "'a list \<Rightarrow> str" where
  "none_line xs = (if xs = [] then ''  (none)'' @ [LF] else [])"

definition render_human :: "run_report \<Rightarrow> str" where
  "render_human r =
     human_head r
     @ (case rr_mode r of
          Harden \<Rightarrow> [LF] @ ''Accepted tests:'' @ [LF] @ none_line (rr_accepted r) @ concat (map human_accepted (rr_accepted r))
        | Catch \<Rightarrow> [LF] @ ''Catches (report-only):'' @ [LF] @ none_line (rr_catches r) @ concat (map human_catch (rr_catches r)))
     @ (if rr_rejected r \<noteq> [] then [LF] @ ''Rejected:'' @ [LF] @ concat (map human_rejected (rr_rejected r)) else [])
     @ (if rr_warnings r \<noteq> [] then [LF] @ ''Warnings:'' @ [LF] @ concat (map human_warning (rr_warnings r)) else [])"

section \<open>Markdown\<close>

definition md_row :: "str \<Rightarrow> str \<Rightarrow> str" where
  "md_row k v = ''| '' @ k @ '' | '' @ v @ '' |'' @ [LF]"

definition strategy_str :: "run_report \<Rightarrow> str" where
  "strategy_str r =
     (case rr_strategy r of Auto \<Rightarrow> ''auto'' | StrategyHarden \<Rightarrow> ''harden'' | DodgyDiff \<Rightarrow> ''dodgy-diff'' | IntentAware \<Rightarrow> ''intent-aware'')"

definition summary_section :: "run_report \<Rightarrow> str" where
  "summary_section r =
     ''## Summary'' @ [LF, LF] @ ''| Field | Value |'' @ [LF] @ ''|---|---|'' @ [LF]
     @ md_row ''run id'' (md_inline (rr_run_id r) CAP_NAME) @ md_row ''repo'' (md_inline (rr_repo r) CAP_NAME)
     @ md_row ''base'' (md_inline (rr_base r) CAP_NAME) @ md_row ''head'' (md_inline (rr_head r) CAP_NAME)
     @ md_row ''mode'' (mode_as_str (rr_mode r)) @ md_row ''strategy'' (strategy_str r)
     @ md_row ''targets selected'' (show_nat (rs_targets_selected (rr_summary r)))
     @ md_row ''candidates generated'' (show_nat (rs_candidates_generated (rr_summary r)))
     @ md_row ''accepted'' (show_nat (rs_accepted (rr_summary r)))
     @ md_row ''catches'' (show_nat (rs_catches (rr_summary r)))
     @ md_row ''rejected'' (show_nat (rs_rejected (rr_summary r))) @ [LF]"

definition lang_slug :: "str \<Rightarrow> str" where
  "lang_slug language =
     concat (take 24 (filter (\<lambda>k. is_ascii_alnum k \<or> k = ''_'' \<or> k = ''+'' \<or> k = ''-'') (chars language)))"

definition code_fence :: "str \<Rightarrow> str \<Rightarrow> str" where
  "code_fence language source =
     (let s = ''~~~'' @ lang_slug language @ [LF] @ md_code_block source CAP_SOURCE in
      s @ (if ends_with s [LF] then [] else [LF]) @ ''~~~'' @ [LF, LF])"

definition accepted_entry :: "accepted_test \<Rightarrow> str" where
  "accepted_entry t =
     ''### `'' @ md_inline (at_path t) CAP_NAME @ ''`'' @ [LF, LF]
     @ ''- target: `'' @ md_inline (at_target t) CAP_NAME @ ''`'' @ [LF]
     @ ''- language: `'' @ md_inline (at_language t) CAP_NAME @ ''`'' @ [LF]
     @ (case at_symbol t of Some y \<Rightarrow> ''- symbol: `'' @ md_inline y CAP_NAME @ ''`'' @ [LF] | None \<Rightarrow> [])
     @ ''- reproduction: '' @ md_inline (at_reproduction t) CAP_TEXT @ [LF, LF]
     @ code_fence (at_language t) (at_source t)"

definition accepted_section :: "run_report \<Rightarrow> str" where
  "accepted_section r =
     ''## Accepted tests (landable)'' @ [LF, LF]
     @ (if rr_accepted r = [] then ''_No tests were accepted._'' @ [LF, LF] else concat (map accepted_entry (rr_accepted r)))"

fun severity_marker :: "severity \<Rightarrow> str" where
  "severity_marker HighSeverity = [CHR 0xF0, CHR 0x9F, CHR 0x94, CHR 0xB4]"
| "severity_marker MediumSeverity = [CHR 0xF0, CHR 0x9F, CHR 0x9F, CHR 0xA1]"
| "severity_marker LowSeverity = [CHR 0xE2, CHR 0x9A, CHR 0xAA]"

fun decision_name :: "catch_decision \<Rightarrow> str" where
  "decision_name StrongCatch = ''Strong catch''"
| "decision_name StrictlyWeak = ''Strictly weak''"
| "decision_name Uncertain = ''Uncertain''"

definition catch_heading :: "catch_report \<Rightarrow> str" where
  "catch_heading c =
     ''### '' @ severity_marker (severity_of (cr_decision c) (cr_tp_probability c)) @ '' '' @ decision_name (cr_decision c)
     @ '' '' @ DASH @ '' `'' @ md_inline (cr_path c) CAP_NAME @ ''`''"

definition catch_entry :: "catch_report \<Rightarrow> str" where
  "catch_entry c =
     catch_heading c @ [LF, LF]
     @ ''- target: `'' @ md_inline (cr_target c) CAP_NAME @ ''`'' @ [LF]
     @ ''- language: `'' @ md_inline (cr_language c) CAP_NAME @ ''`'' @ [LF]
     @ ''- decision: **'' @ decision_debug (cr_decision c) @ ''**'' @ [LF]
     @ ''- tp_probability: '' @ show_f2 (cr_tp_probability c) @ '' ('' @ bucket_debug (cr_bucket c) @ '')'' @ [LF]
     @ (case cr_mutant c of
          Some m \<Rightarrow> ''- mutant `'' @ md_inline (mi_id m) CAP_NAME @ ''`: '' @ md_inline (mi_risk_description m) CAP_TEXT
            @ '' (`'' @ md_inline (mi_path m) CAP_NAME @ ''`)'' @ [LF]
        | None \<Rightarrow> [])
     @ ''- rationale: '' @ md_inline (cr_rationale c) CAP_TEXT @ [LF]
     @ ''- reproduction: '' @ md_inline (cr_reproduction c) CAP_TEXT @ [LF, LF]
     @ code_fence (cr_language c) (cr_source c)"

definition catches_section :: "run_report \<Rightarrow> str" where
  "catches_section r =
     ''## Catches (report-only)'' @ [LF, LF]
     @ ''_Catch mode reports potential bugs; catching tests fail by design and are never landed._'' @ [LF, LF]
     @ (if rr_catches r = [] then ''_No catches found._'' @ [LF, LF] else concat (map catch_entry (rr_catches r)))"

definition rejected_row :: "rejected_candidate \<Rightarrow> str" where
  "rejected_row j =
     ''| '' @ md_inline (rj_target j) CAP_NAME @ '' | '' @ md_inline (rj_path j) CAP_NAME @ '' | ''
     @ md_inline (rj_reason j) CAP_TEXT @ '' |'' @ [LF]"

definition rejected_section :: "run_report \<Rightarrow> str" where
  "rejected_section r =
     (if rr_rejected r = [] then []
      else ''## Rejected candidates'' @ [LF, LF] @ ''| Target | Path | Reason |'' @ [LF] @ ''|---|---|---|'' @ [LF]
        @ concat (map rejected_row (rr_rejected r)) @ [LF])"

definition warning_item :: "str \<Rightarrow> str" where
  "warning_item w = ''- '' @ md_inline w CAP_TEXT @ [LF]"

definition warnings_section :: "run_report \<Rightarrow> str" where
  "warnings_section r =
     (if rr_warnings r = [] then []
      else ''## Warnings'' @ [LF, LF] @ concat (map warning_item (rr_warnings r)) @ [LF])"

definition render_markdown :: "run_report \<Rightarrow> str" where
  "render_markdown r =
     ''# jitgen report'' @ [LF, LF] @ summary_section r
     @ (case rr_mode r of Harden \<Rightarrow> accepted_section r | Catch \<Rightarrow> catches_section r)
     @ rejected_section r @ warnings_section r"

section \<open>JUnit\<close>

definition quoted :: "str \<Rightarrow> str" where "quoted s = [CHR 0x22] @ s @ [CHR 0x22]"

definition is_failure_case :: "catch_report \<Rightarrow> bool" where
  "is_failure_case c \<longleftrightarrow> severity_of (cr_decision c) (cr_tp_probability c) = HighSeverity"

definition junit_accepted :: "accepted_test \<Rightarrow> str" where
  "junit_accepted t =
     ''    <testcase name='' @ quoted (xml_attr (case at_symbol t of Some y \<Rightarrow> y | None \<Rightarrow> at_path t) CAP_NAME)
     @ '' classname='' @ quoted (xml_attr (at_language t) CAP_NAME) @ ''/>'' @ [LF]"

definition junit_detail :: "catch_report \<Rightarrow> str" where
  "junit_detail c =
     decision_debug (cr_decision c) @ '' (tp='' @ show_f2 (cr_tp_probability c) @ ''): '' @ cr_rationale c @ [LF, LF]
     @ ''reproduction:'' @ [LF] @ cr_reproduction c"

definition junit_catch :: "catch_report \<Rightarrow> str" where
  "junit_catch c =
     (let detail = xml_text (junit_detail c) (max CAP_TEXT CAP_SOURCE) in
      ''    <testcase name='' @ quoted (xml_attr (cr_path c) CAP_NAME) @ '' classname='' @ quoted (xml_attr (cr_language c) CAP_NAME)
      @ ''>'' @ [LF]
      @ (if is_failure_case c
         then ''      <failure message='' @ quoted (xml_attr (decision_debug (cr_decision c) @ '' (tp='' @ show_f2 (cr_tp_probability c) @ '')'') CAP_NAME)
           @ ''>'' @ detail @ ''</failure>'' @ [LF]
         else ''      <system-out>'' @ detail @ ''</system-out>'' @ [LF])
      @ ''    </testcase>'' @ [LF])"

definition junit_counts :: "run_report \<Rightarrow> nat \<times> nat" where
  "junit_counts r =
     (case rr_mode r of
        Harden \<Rightarrow> (length (rr_accepted r), 0)
      | Catch \<Rightarrow> (length (rr_catches r), length (filter is_failure_case (rr_catches r))))"

definition render_junit :: "run_report \<Rightarrow> str" where
  "render_junit r =
     (let (tests, failures) = junit_counts r;
          counts = '' tests='' @ quoted (show_nat tests) @ '' failures='' @ quoted (show_nat failures) @ ''>'' @ [LF] in
      ''<?xml version='' @ quoted ''1.0'' @ '' encoding='' @ quoted ''UTF-8'' @ ''?>'' @ [LF]
      @ ''<testsuites name='' @ quoted ''jitgen'' @ counts
      @ ''  <testsuite name='' @ quoted (''jitgen-'' @ mode_as_str (rr_mode r)) @ counts
      @ (case rr_mode r of
           Harden \<Rightarrow> concat (map junit_accepted (rr_accepted r))
         | Catch \<Rightarrow> concat (map junit_catch (rr_catches r)))
      @ ''  </testsuite>'' @ [LF] @ ''</testsuites>'' @ [LF])"

section \<open>SARIF and JSON\<close>

definition SARIF_VERSION :: str where "SARIF_VERSION = ''2.1.0''"
definition SARIF_SCHEMA :: str where
  "SARIF_SCHEMA = ''https://raw.githubusercontent.com/oasis-tcs/sarif-spec/master/Schemata/sarif-schema-2.1.0.json''"
definition TOOL_INFORMATION_URI :: str where "TOOL_INFORMATION_URI = ''https://github.com/sondrateconsulting/jitgen''"

definition sarif_rules :: "run_report \<Rightarrow> json list" where
  "sarif_rules r =
     (case rr_mode r of
        Catch \<Rightarrow> [JObj [(''id'', JStr ''jitgen/weak-catch''), (''name'', JStr ''WeakCatch''),
          (''shortDescription'', JObj [(''text'', JStr ''A generated test fails on head while passing on base.'')])]]
      | Harden \<Rightarrow> [JObj [(''id'', JStr ''jitgen/hardening-test''), (''name'', JStr ''HardeningTest''),
          (''shortDescription'', JObj [(''text'', JStr ''A generated test that passes on head (landable).'')])]])"

definition sarif_location :: "str \<Rightarrow> json" where
  "sarif_location path =
     JObj [(''physicalLocation'', JObj [(''artifactLocation'', JObj [(''uri'', JStr (sanitize path CAP_NAME))])])]"

definition catch_location :: "catch_report \<Rightarrow> json" where
  "catch_location c =
     (case cr_changed_path c of
        Some path \<Rightarrow>
          JObj [(''physicalLocation'',
            JObj ([(''artifactLocation'', JObj [(''uri'', JStr (sanitize path CAP_NAME))])]
              @ (case cr_changed_line c of
                   Some line \<Rightarrow> [(''region'', JObj [(''startLine'', JNum (Fin (of_nat (unat line))))])]
                 | None \<Rightarrow> [])))]
      | None \<Rightarrow> sarif_location (cr_path c))"

definition catch_text :: "catch_report \<Rightarrow> str" where
  "catch_text c =
     decision_debug (cr_decision c) @ '' (tp_probability='' @ show_f2 (cr_tp_probability c) @ ''): '' @ cr_rationale c
     @ (case cr_mutant c of
          Some m \<Rightarrow> [LF] @ ''mutant '' @ mi_id m @ '': '' @ mi_risk_description m @ '' ['' @ mi_path m @ '']''
        | None \<Rightarrow> [])"

definition sarif_catch :: "catch_report \<Rightarrow> json" where
  "sarif_catch c =
     JObj [(''ruleId'', JStr ''jitgen/weak-catch''),
       (''level'', JStr (sarif_level (severity_of (cr_decision c) (cr_tp_probability c)))),
       (''message'', JObj [(''text'', JStr (sanitize (catch_text c) CAP_TEXT))]),
       (''locations'', JArr [catch_location c])]"

definition sarif_accepted :: "accepted_test \<Rightarrow> json" where
  "sarif_accepted t =
     JObj [(''ruleId'', JStr ''jitgen/hardening-test''), (''level'', JStr ''note''),
       (''message'', JObj [(''text'', JStr (sanitize (''Accepted hardening test for ''
          @ (case at_symbol t of Some y \<Rightarrow> y | None \<Rightarrow> ''(hunk)'') @ '' ('' @ at_language t @ ''). Reproduction: ''
          @ at_reproduction t) (max CAP_SOURCE CAP_TEXT)))]),
       (''locations'', JArr [sarif_location (at_path t)])]"

definition sarif_results :: "run_report \<Rightarrow> json list" where
  "sarif_results r =
     (case rr_mode r of Catch \<Rightarrow> map sarif_catch (rr_catches r) | Harden \<Rightarrow> map sarif_accepted (rr_accepted r))"

definition sarif_document :: "run_report \<Rightarrow> json" where
  "sarif_document r =
     JObj [(''$schema'', JStr SARIF_SCHEMA), (''version'', JStr SARIF_VERSION),
       (''runs'', JArr [JObj [(''tool'', JObj [(''driver'', JObj [(''name'', JStr ''jitgen''),
            (''informationUri'', JStr TOOL_INFORMATION_URI),
            (''version'', JStr (sanitize (rr_jitgen_version r) CAP_NAME)), (''rules'', JArr (sarif_rules r))])]),
          (''results'', JArr (sarif_results r))]])]"

text \<open>\<open>to_string_pretty\<close> of a value and of a report, which may fail.\<close>

record json_writer =
  jw_value :: "json \<Rightarrow> str + str"
  jw_report :: "run_report \<Rightarrow> str + str"

definition error_object :: "str \<Rightarrow> str \<Rightarrow> str" where
  "error_object subject e = ''{'' @ quoted ''error'' @ '':'' @ quoted (''failed to serialize '' @ subject @ '': '' @ e) @ ''}''"

definition render_sarif :: "json_writer \<Rightarrow> run_report \<Rightarrow> str" where
  "render_sarif jw r = (case jw_value jw (sarif_document r) of Ok s \<Rightarrow> s | Err e \<Rightarrow> error_object ''SARIF'' e)"

definition render_json :: "json_writer \<Rightarrow> run_report \<Rightarrow> str" where
  "render_json jw r = (case jw_report jw r of Ok s \<Rightarrow> s | Err e \<Rightarrow> error_object ''report'' e)"

definition render :: "json_writer \<Rightarrow> run_report \<Rightarrow> report_format \<Rightarrow> str" where
  "render jw r fmt =
     (case fmt of
        HumanFormat \<Rightarrow> render_human r
      | JsonFormat \<Rightarrow> render_json jw r
      | MarkdownFormat \<Rightarrow> render_markdown r
      | PatchFormat \<Rightarrow> patch_render r
      | JunitFormat \<Rightarrow> render_junit r
      | SarifFormat \<Rightarrow> render_sarif jw r)"

section \<open>Lemmas\<close>

text \<open>Text a terminal shows as it is: well formed, and no character the stripping would remove.\<close>

definition clean :: "str \<Rightarrow> bool" where
  "clean s \<longleftrightarrow> utf8 s \<and> list_all inert (chars s)"

lemma clean_Nil [simp]: "clean []"
  by (simp add: clean_def)

lemma clean_append [simp]: "clean s \<Longrightarrow> clean t \<Longrightarrow> clean (s @ t)"
  using utf8_not_starts_cont [of t] by (simp add: clean_def utf8_append chars_append)

lemma clean_concat: "list_all clean ss \<Longrightarrow> clean (concat ss)"
  by (induction ss) simp_all

lemma clean_ascii: "list_all (\<lambda>b. b = LF \<or> 32 \<le> code b \<and> code b < 127) s \<Longrightarrow> clean s"
proof -
  assume s: "list_all (\<lambda>b. b = LF \<or> 32 \<le> code b \<and> code b < 127) s"
  have byte: "code b < 128 \<and> inert [b]" if b: "b = LF \<or> 32 \<le> code b \<and> code b < 127" for b
    using b
  proof
    assume "b = LF"
    then show ?thesis by (simp add: inert_def cp_def LF_def)
  next
    assume "32 \<le> code b \<and> code b < 127"
    moreover have "cp [b] = code b" by (simp add: cp_def)
    ultimately show ?thesis by (simp add: inert_def is_strippable_def)
  qed
  have "ascii s" using s byte unfolding ascii_def list_all_iff by blast
  moreover have "inert [b]" if "b \<in> set s" for b using s that byte unfolding list_all_iff by blast
  ultimately show ?thesis by (auto simp: clean_def utf8_ascii chars_ascii list_all_iff)
qed

lemma clean_LF [simp]: "clean [LF]"
  by (rule clean_ascii) simp

lemma clean_marks [simp]: "clean ARROW" "clean DASH"
  by (simp_all add: clean_def utf8_def ARROW_def DASH_def valid_char_def inert_def is_strippable_def cp_def is_cont_def)

lemma clean_digits: "list_all ascii_digit s \<Longrightarrow> clean s"
  by (rule clean_ascii) (auto simp: list_all_iff ascii_digit_def)

lemma digit_char_digit: "d < 10 \<Longrightarrow> ascii_digit (digit_char d)"
  by (simp add: ascii_digit_def digit_char_def)

lemma clean_show_nat [simp]: "clean (show_nat n)"
  using show_nat_digits [of n] clean_digits by blast

lemma show_f2_chars: "set (show_f2 x) \<subseteq> {b. ascii_digit b} \<union> set ''NaNinf-.''"
proof (cases x)
  case (Fin r)
  let ?n = "nat (round_half_even (100 * \<bar>r\<bar>))"
  have "set (show_nat (?n div 100)) \<subseteq> {b. ascii_digit b}" using show_nat_digits [of "?n div 100"] by (auto simp: list_all_iff)
  then show ?thesis using digit_char_digit [of "?n div 10 mod 10"] digit_char_digit [of "?n mod 10"]
    by (auto simp: Fin Let_def)
qed auto

lemma clean_show_f2 [simp]: "clean (show_f2 x)"
proof (rule clean_ascii, unfold list_all_iff, rule ballI)
  fix b assume "b \<in> set (show_f2 x)"
  then have "ascii_digit b \<or> b \<in> set ''NaNinf-.''" using show_f2_chars [of x] by blast
  then show "b = LF \<or> 32 \<le> code b \<and> code b < 127" by (auto simp: ascii_digit_def)
qed

lemma names_clean [simp]: "clean (mode_as_str m)" "clean (severity_as_str v)" "clean (decision_debug d)"
proof -
  show "clean (mode_as_str m)" by (cases m) (simp_all add: clean_ascii)
  show "clean (severity_as_str v)" by (cases v) (simp_all add: clean_ascii)
  show "clean (decision_debug d)" by (cases d) (simp_all add: clean_ascii)
qed

lemma flat_clean: "valid_char k \<Longrightarrow> inert k \<Longrightarrow> valid_char (flat_char k) \<and> inert (flat_char k) \<and> set (flat_char k) \<inter> {LF, TAB, CR} = {}"
proof -
  assume k: "valid_char k" "inert k"
  show ?thesis
  proof (cases "k = [LF] \<or> k = [TAB]")
    case True
    then have "flat_char k = '' ''" using flat_char_valid [OF k(1)] by simp
    then show ?thesis by (simp add: valid_char_def inert_def is_strippable_def cp_def LF_def TAB_def CR_def)
  next
    case False
    moreover have "set k \<inter> {LF, TAB, CR} = {}"
      using unchanged_avoids [OF k(1), of "{LF, TAB, CR}"] inert_not_CR [OF k(2)] False by (simp add: LF_def TAB_def CR_def)
    ultimately show ?thesis using flat_char_valid [OF k(1)] k by simp
  qed
qed

lemma sanitize_line_clean:
  assumes "utf8 s"
  shows "clean (sanitize_line s n)" and "set (sanitize_line s n) \<inter> {LF, TAB, CR} = {}"
proof -
  have b: "utf8 (sanitize s n)" "list_all inert (chars (sanitize s n))"
    using assms by (simp_all add: utf8_sanitize sanitize_inert)
  have "list_all valid_char (map flat_char (chars (sanitize s n)))" "list_all inert (map flat_char (chars (sanitize s n)))"
    using b flat_clean by (simp_all add: utf8_def list_all_iff)
  then show "clean (sanitize_line s n)"
    by (simp add: clean_def sanitize_line_def map_chars_def utf8_concat chars_concat list_all_iff valid_char_chunk)
  show "set (sanitize_line s n) \<inter> {LF, TAB, CR} = {}"
    unfolding sanitize_line_def by (rule map_chars_avoids [OF b]) (use flat_clean in blast)
qed

text \<open>The number of line feeds.\<close>

definition feeds :: "str \<Rightarrow> nat" where
  "feeds s = length (filter (\<lambda>b. b = LF) s)"

lemma feeds_append [simp]: "feeds (s @ t) = feeds s + feeds t" and feeds_Nil [simp]: "feeds [] = 0"
  and feeds_LF [simp]: "feeds [LF] = 1"
  by (simp_all add: feeds_def)

lemma feeds_none: "LF \<notin> set s \<Longrightarrow> feeds s = 0"
  unfolding feeds_def by (metis (full_types) filter_False length_0_conv list.size(3))

lemma feeds_concat: "list_all (\<lambda>x. feeds (f x) = n) xs \<Longrightarrow> feeds (concat (map f xs)) = n * length xs"
  by (induction xs) simp_all

text \<open>The strings of a report are well-formed UTF-8, as every \<open>String\<close> is.\<close>

definition accepted_utf8 :: "accepted_test \<Rightarrow> bool" where
  "accepted_utf8 t \<longleftrightarrow> utf8 (at_target t) \<and> utf8 (at_language t) \<and> utf8 (at_path t) \<and> utf8 (at_source t)
     \<and> utf8 (at_reproduction t) \<and> (case at_symbol t of Some y \<Rightarrow> utf8 y | None \<Rightarrow> True)"

definition catch_utf8 :: "catch_report \<Rightarrow> bool" where
  "catch_utf8 c \<longleftrightarrow> utf8 (cr_target c) \<and> utf8 (cr_language c) \<and> utf8 (cr_path c) \<and> utf8 (cr_source c)
     \<and> utf8 (cr_rationale c) \<and> utf8 (cr_reproduction c)
     \<and> (case cr_mutant c of Some m \<Rightarrow> utf8 (mi_id m) \<and> utf8 (mi_risk_description m) \<and> utf8 (mi_path m) | None \<Rightarrow> True)"

definition rejected_utf8 :: "rejected_candidate \<Rightarrow> bool" where
  "rejected_utf8 j \<longleftrightarrow> utf8 (rj_target j) \<and> utf8 (rj_path j) \<and> utf8 (rj_reason j)"

definition report_utf8 :: "run_report \<Rightarrow> bool" where
  "report_utf8 r \<longleftrightarrow> utf8 (rr_jitgen_version r) \<and> utf8 (rr_run_id r) \<and> utf8 (rr_repo r) \<and> utf8 (rr_base r) \<and> utf8 (rr_head r)
     \<and> list_all accepted_utf8 (rr_accepted r) \<and> list_all catch_utf8 (rr_catches r)
     \<and> list_all rejected_utf8 (rr_rejected r) \<and> list_all utf8 (rr_warnings r)"

lemma clean_Cons: "clean s \<Longrightarrow> c = LF \<or> 32 \<le> code c \<and> code c < 127 \<Longrightarrow> clean (c # s)"
proof -
  assume s: "clean s" and c: "c = LF \<or> 32 \<le> code c \<and> code c < 127"
  have "clean [c]" by (rule clean_ascii) (simp only: list.pred_inject simp_thms c)
  from clean_append [OF this s] show ?thesis by simp
qed

lemma feeds_Cons: "feeds (c # s) = (if c = LF then 1 else 0) + feeds s"
  by (simp add: feeds_def)

text \<open>What a piece of the terminal output contributes.\<close>

definition shown :: "nat \<Rightarrow> str \<Rightarrow> bool" where
  "shown n s \<longleftrightarrow> clean s \<and> TAB \<notin> set s \<and> CR \<notin> set s \<and> feeds s = n"

lemma shown_append: "shown n s \<Longrightarrow> shown m t \<Longrightarrow> shown (n + m) (s @ t)"
  by (simp add: shown_def)

lemma shown_concat: "list_all (\<lambda>x. shown n (f x)) xs \<Longrightarrow> shown (n * length xs) (concat (map f xs))"
proof (induction xs)
  case (Cons x xs)
  then show ?case using shown_append [of n "f x" "n * length xs" "concat (map f xs)"] by simp
qed (simp add: shown_def)

lemma printable: "32 \<le> code c \<and> code c < 127 \<Longrightarrow> c \<noteq> LF \<and> c \<noteq> TAB \<and> c \<noteq> CR"
  by (intro conjI notI) (simp_all add: LF_def TAB_def CR_def)

lemma shown_Cons: "shown n s \<Longrightarrow> 32 \<le> code c \<and> code c < 127 \<Longrightarrow> shown n (c # s)"
  using printable [of c] clean_Cons [of s c] unfolding shown_def set_simps feeds_Cons by simp blast

lemma shown_LF: "shown n s \<Longrightarrow> shown (Suc n) (LF # s)"
  by (simp add: shown_def clean_Cons feeds_Cons) (simp add: LF_def TAB_def CR_def)

lemma shown_Nil [simp]: "shown 0 []"
  by (simp add: shown_def)

lemma shown_marks: "shown n s \<Longrightarrow> shown n (ARROW @ s)" "shown n s \<Longrightarrow> shown n (DASH @ s)"
  by (simp_all add: shown_def) (simp_all add: ARROW_def DASH_def feeds_Cons LF_def TAB_def CR_def)

lemma shown_value:
  assumes "shown n s"
  shows "utf8 v \<Longrightarrow> shown n (sanitize_line v k @ s)" "shown n (show_nat j @ s)" "shown n (show_f2 x @ s)"
    "shown n (mode_as_str m @ s)" "shown n (severity_as_str y @ s)" "shown n (decision_debug d @ s)"
proof -
  have digits: "c \<notin> {LF, TAB, CR}" if c: "ascii_digit c \<or> c \<in> set ''NaNinf-.''" for c
  proof -
    have "32 \<le> code c \<and> code c < 127" using c
    proof
      assume "c \<in> set ''NaNinf-.''"
      then have "list_all (\<lambda>c. 32 \<le> code c \<and> code c < 127) ''NaNinf-.'' \<Longrightarrow> ?thesis" by (simp only: list_all_iff)
      then show ?thesis by simp
    qed (simp add: ascii_digit_def)
    then show ?thesis using printable by blast
  qed
  have plain: "shown n (v @ s)" if "clean v" "set v \<inter> {LF, TAB, CR} = {}" for v
    using assms that by (auto simp: shown_def feeds_none)
  show "shown n (sanitize_line v k @ s)" if "utf8 v"
    by (rule plain) (use sanitize_line_clean [OF that] in auto)
  have "set (show_nat j) \<inter> {LF, TAB, CR} = {}" using show_nat_digits [of j] digits unfolding list_all_iff by blast
  then show "shown n (show_nat j @ s)" by (intro plain) simp_all
  have "set (show_f2 x) \<inter> {LF, TAB, CR} = {}" using show_f2_chars [of x] digits by blast
  then show "shown n (show_f2 x @ s)" by (intro plain) simp_all
  show "shown n (mode_as_str m @ s)" by (rule plain [OF names_clean(1)]) (cases m; simp add: LF_def TAB_def CR_def)
  show "shown n (severity_as_str y @ s)" by (rule plain [OF names_clean(2)]) (cases y; simp add: LF_def TAB_def CR_def)
  show "shown n (decision_debug d @ s)" by (rule plain [OF names_clean(3)]) (cases d; simp add: LF_def TAB_def CR_def)
qed

lemmas shown = shown_Cons shown_LF shown_marks shown_value

lemma shown_rows:
  "utf8 w \<Longrightarrow> shown 1 (human_warning w)" "rejected_utf8 j \<Longrightarrow> shown 1 (human_rejected j)"
  "catch_utf8 c \<Longrightarrow> shown 1 (human_catch c)" "accepted_utf8 t \<Longrightarrow> shown 1 (human_accepted t)"
  "shown (if xs = [] then 1 else 0) (none_line xs)"
  by (simp_all add: human_warning_def human_rejected_def human_catch_def human_accepted_def none_line_def rejected_utf8_def
    catch_utf8_def accepted_utf8_def shown)

lemma shown_head: "report_utf8 r \<Longrightarrow> shown 6 (human_head r)"
  unfolding eval_nat_numeral BitM.simps numeral_One human_head_def append_Cons append_Nil by (intro shown shown_Nil) (simp_all add: report_utf8_def)

lemma shown_list: "(\<And>x. x \<in> set xs \<Longrightarrow> shown 1 (f x)) \<Longrightarrow> shown (length xs) (concat (map f xs))"
  using shown_concat [of 1 f xs] by (simp add: list_all_iff)

lemma shown_title: "shown n s \<Longrightarrow> list_all (\<lambda>c. 32 \<le> code c \<and> code c < 127) v \<Longrightarrow> shown (2 + n) ([LF] @ v @ [LF] @ s)"
proof -
  assume s: "shown n s" and v: "list_all (\<lambda>c. 32 \<le> code c \<and> code c < 127) v"
  have "shown m (v @ u)" if "shown m u" for m u using v that by (induction v) (simp_all add: shown_Cons)
  from this [OF shown_LF [OF s]] show ?thesis by (simp add: shown_LF)
qed

text \<open>The rows of the sections of the terminal output.\<close>

definition human_rows :: "run_report \<Rightarrow> nat" where
  "human_rows r =
     6 + (2 + max 1 (case rr_mode r of Harden \<Rightarrow> length (rr_accepted r) | Catch \<Rightarrow> length (rr_catches r)))
       + (if rr_rejected r = [] then 0 else 2 + length (rr_rejected r))
       + (if rr_warnings r = [] then 0 else 2 + length (rr_warnings r))"

lemma shown_entries:
  assumes "\<And>x. x \<in> set xs \<Longrightarrow> shown 1 (f x)" "list_all (\<lambda>c. 32 \<le> code c \<and> code c < 127) v"
  shows "shown (2 + max 1 (length xs)) ([LF] @ v @ [LF] @ none_line xs @ concat (map f xs))"
proof -
  have "(if xs = [] then 1 else 0) + length xs = max 1 (length xs)" by (cases xs) auto
  moreover have "shown ((if xs = [] then 1 else 0) + length xs) (none_line xs @ concat (map f xs))"
    by (rule shown_append [OF shown_rows(5)]) (rule shown_list, rule assms(1))
  ultimately have "shown (max 1 (length xs)) (none_line xs @ concat (map f xs))" by (simp only:)
  from shown_title [OF this assms(2)] show ?thesis by (simp only: append.assoc)
qed

lemma shown_human:
  assumes "report_utf8 r"
  shows "shown (human_rows r) (render_human r)"
proof -
  have parts: "\<And>t. t \<in> set (rr_accepted r) \<Longrightarrow> shown 1 (human_accepted t)" "\<And>c. c \<in> set (rr_catches r) \<Longrightarrow> shown 1 (human_catch c)"
    "\<And>j. j \<in> set (rr_rejected r) \<Longrightarrow> shown 1 (human_rejected j)" "\<And>w. w \<in> set (rr_warnings r) \<Longrightarrow> shown 1 (human_warning w)"
    using assms shown_rows unfolding report_utf8_def list_all_iff by blast+
  have body: "shown (2 + max 1 (case rr_mode r of Harden \<Rightarrow> length (rr_accepted r) | Catch \<Rightarrow> length (rr_catches r)))
      (case rr_mode r of
         Harden \<Rightarrow> [LF] @ ''Accepted tests:'' @ [LF] @ none_line (rr_accepted r) @ concat (map human_accepted (rr_accepted r))
       | Catch \<Rightarrow> [LF] @ ''Catches (report-only):'' @ [LF] @ none_line (rr_catches r) @ concat (map human_catch (rr_catches r)))"
    by (cases "rr_mode r") (simp_all only: run_mode.case, intro shown_entries parts; simp)+
  have rej: "shown (if rr_rejected r = [] then 0 else 2 + length (rr_rejected r))
      (if rr_rejected r \<noteq> [] then [LF] @ ''Rejected:'' @ [LF] @ concat (map human_rejected (rr_rejected r)) else [])"
  proof -
    have "shown (length (rr_rejected r)) (concat (map human_rejected (rr_rejected r)))" by (rule shown_list [OF parts(3)])
    from shown_title [OF this, of "''Rejected:''"] show ?thesis by simp
  qed
  have warn: "shown (if rr_warnings r = [] then 0 else 2 + length (rr_warnings r))
      (if rr_warnings r \<noteq> [] then [LF] @ ''Warnings:'' @ [LF] @ concat (map human_warning (rr_warnings r)) else [])"
  proof -
    have "shown (length (rr_warnings r)) (concat (map human_warning (rr_warnings r)))" by (rule shown_list [OF parts(4)])
    from shown_title [OF this, of "''Warnings:''"] show ?thesis by simp
  qed
  show ?thesis
    unfolding human_rows_def render_human_def
    using shown_append [OF shown_append [OF shown_append [OF shown_head [OF assms] body] rej] warn] by (simp only: append.assoc)
qed

section \<open>The tags of the XML document\<close>

text \<open>The texts between \<open><\<close> and \<open>>\<close>, in order; and the name of a tag with the number of its quotes.\<close>

fun tags :: "str option \<Rightarrow> str \<Rightarrow> str list" where
  "tags _ [] = []"
| "tags None (c # s) = (if c = CHR ''<'' then tags (Some []) s else tags None s)"
| "tags (Some t) (c # s) = (if c = CHR ''>'' then t # tags None s else tags (Some (t @ [c])) s)"

definition tag_shape :: "str \<Rightarrow> str \<times> nat" where
  "tag_shape t = (takeWhile (\<lambda>c. c \<noteq> CHR '' '') t, length (filter (\<lambda>c. c = CHR 0x22) t))"

lemma tags_text: "CHR ''<'' \<notin> set x \<Longrightarrow> tags None (x @ s) = tags None s"
  by (induction x) auto

lemma tags_inside: "CHR ''>'' \<notin> set x \<Longrightarrow> tags (Some t) (x @ s) = tags (Some (t @ x)) s"
  by (induction x arbitrary: t) auto

lemma xml_attr_avoids: "utf8 v \<Longrightarrow> set (xml_attr v n) \<inter> {CHR ''<'', CHR ''>'', CHR 0x22, CHR 0x27, LF, TAB, CR} = {}"
  unfolding xml_attr_def
  by (rule map_chars_avoids [OF utf8_sanitize sanitize_inert]) (simp_all add: xml_attr_char_avoids)

lemma xml_text_avoids: "utf8 v \<Longrightarrow> set (xml_text v n) \<inter> {CHR ''<'', CHR ''>''} = {}"
  unfolding xml_text_def
  by (rule map_chars_avoids [OF utf8_sanitize sanitize_inert]) (simp_all add: xml_text_char_avoids)

lemma unquoted: "CHR 0x22 \<notin> set x \<Longrightarrow> filter (\<lambda>c. c = CHR 0x22) x = []"
  by (simp add: filter_empty_conv) metis

lemma digits_plain: "c \<in> set (show_nat n) \<Longrightarrow> ascii_digit c"
  using show_nat_digits [of n] by (simp add: list_all_iff)

lemma show_nat_plain: "CHR ''<'' \<notin> set (show_nat n)" "CHR ''>'' \<notin> set (show_nat n)" "CHR 0x22 \<notin> set (show_nat n)"
  using digits_plain [of "CHR ''<''" n] digits_plain [of "CHR ''>''" n] digits_plain [of "CHR 0x22" n]
  by (auto simp: ascii_digit_def)

lemma mode_plain: "CHR ''<'' \<notin> set (mode_as_str m)" "CHR ''>'' \<notin> set (mode_as_str m)" "CHR 0x22 \<notin> set (mode_as_str m)"
  by (cases m; simp)+

lemma junit_accepted_tags:
  assumes "accepted_utf8 t"
  shows "map tag_shape (tags None (junit_accepted t @ s)) = (''testcase'', 4) # map tag_shape (tags None s)"
proof -
  let ?name = "xml_attr (case at_symbol t of Some y \<Rightarrow> y | None \<Rightarrow> at_path t) CAP_NAME" and ?cls = "xml_attr (at_language t) CAP_NAME"
  have v: "CHR ''>'' \<notin> set ?name" "CHR 0x22 \<notin> set ?name" "CHR ''>'' \<notin> set ?cls" "CHR 0x22 \<notin> set ?cls"
    using xml_attr_avoids [of "case at_symbol t of Some y \<Rightarrow> y | None \<Rightarrow> at_path t" CAP_NAME] xml_attr_avoids [of "at_language t" CAP_NAME] assms
    by (auto simp: accepted_utf8_def split: option.splits)
  then show ?thesis by (simp add: junit_accepted_def quoted_def tags_inside unquoted tag_shape_def LF_def)
qed

text \<open>The elements of a catch.\<close>

definition catch_tags :: "catch_report \<Rightarrow> (str \<times> nat) list" where
  "catch_tags c =
     (''testcase'', 4)
     # (if is_failure_case c then [(''failure'', 2), (''/failure'', 0)] else [(''system-out'', 0), (''/system-out'', 0)])
     @ [(''/testcase'', 0)]"

lemma utf8_verdict: "utf8 (decision_debug d @ '' (tp='' @ show_f2 x @ '')'')" "utf8 (decision_debug d)" "utf8 (show_f2 x)"
proof -
  have "clean ('' (tp='')" "clean '')''" by (simp_all add: clean_ascii)
  then have "clean (decision_debug d @ '' (tp='' @ show_f2 x @ '')'')" by (intro clean_append names_clean clean_show_f2)
  then show "utf8 (decision_debug d @ '' (tp='' @ show_f2 x @ '')'')" "utf8 (decision_debug d)" "utf8 (show_f2 x)"
    using names_clean(3) clean_show_f2 unfolding clean_def by blast+
qed

lemma utf8_detail: "catch_utf8 c \<Longrightarrow> utf8 (junit_detail c)"
proof -
  assume c: "catch_utf8 c"
  have "utf8 '' (tp=''" "utf8 ''): ''" "utf8 [LF, LF]" "utf8 ''reproduction:''" "utf8 [LF]"
    by (simp_all add: utf8_ascii ascii_def LF_def)
  then show ?thesis
    using c utf8_verdict(2,3) unfolding junit_detail_def catch_utf8_def by (intro utf8_append) blast+
qed

lemma junit_catch_tags:
  assumes "catch_utf8 c"
  shows "map tag_shape (tags None (junit_catch c @ s)) = catch_tags c @ map tag_shape (tags None s)"
proof -
  let ?message = "xml_attr (decision_debug (cr_decision c) @ '' (tp='' @ show_f2 (cr_tp_probability c) @ '')'') CAP_NAME"
  let ?detail = "xml_text (junit_detail c) (max CAP_TEXT CAP_SOURCE)"
  have v: "CHR ''>'' \<notin> set (xml_attr (cr_path c) CAP_NAME)" "CHR 0x22 \<notin> set (xml_attr (cr_path c) CAP_NAME)"
    "CHR ''>'' \<notin> set (xml_attr (cr_language c) CAP_NAME)" "CHR 0x22 \<notin> set (xml_attr (cr_language c) CAP_NAME)"
    "CHR ''>'' \<notin> set ?message" "CHR 0x22 \<notin> set ?message" "CHR ''<'' \<notin> set ?detail"
    using xml_attr_avoids [of "cr_path c" CAP_NAME] xml_attr_avoids [of "cr_language c" CAP_NAME]
      xml_attr_avoids [OF utf8_verdict(1)] xml_text_avoids [OF utf8_detail [OF assms]] assms
    by (auto simp: catch_utf8_def)
  obtain message where m: "?message = message" by blast
  show ?thesis
    unfolding junit_catch_def Let_def m using v [unfolded m]
    by (cases "is_failure_case c")
       (simp_all add: quoted_def tags_inside tags_text unquoted tag_shape_def catch_tags_def LF_def)
qed

text \<open>All elements of the document.\<close>

definition junit_tags :: "run_report \<Rightarrow> (str \<times> nat) list" where
  "junit_tags r =
     [(''?xml'', 4), (''testsuites'', 6), (''testsuite'', 6)]
     @ (case rr_mode r of
          Harden \<Rightarrow> replicate (length (rr_accepted r)) (''testcase'', 4)
        | Catch \<Rightarrow> concat (map catch_tags (rr_catches r)))
     @ [(''/testsuite'', 0), (''/testsuites'', 0)]"

lemma junit_list_tags:
  "list_all accepted_utf8 ts \<Longrightarrow> map tag_shape (tags None (concat (map junit_accepted ts) @ s))
     = replicate (length ts) (''testcase'', 4) @ map tag_shape (tags None s)"
  "list_all catch_utf8 cs \<Longrightarrow> map tag_shape (tags None (concat (map junit_catch cs) @ s))
     = concat (map catch_tags cs) @ map tag_shape (tags None s)"
  by (induction ts) (simp_all add: junit_accepted_tags, induction cs, simp_all add: junit_catch_tags)

lemma render_junit_tags:
  assumes "report_utf8 r"
  shows "map tag_shape (tags None (render_junit r)) = junit_tags r"
proof -
  obtain n k where counts: "junit_counts r = (n, k)" by fastforce
  let ?body = "case rr_mode r of Harden \<Rightarrow> concat (map junit_accepted (rr_accepted r)) | Catch \<Rightarrow> concat (map junit_catch (rr_catches r))"
  let ?rest = "''  </testsuite>'' @ [LF] @ ''</testsuites>'' @ [LF]"
  have rest: "map tag_shape (tags None ?rest) = [(''/testsuite'', 0), (''/testsuites'', 0)]"
    by (simp add: tag_shape_def LF_def)
  have body: "map tag_shape (tags None (?body @ ?rest)) =
      (case rr_mode r of Harden \<Rightarrow> replicate (length (rr_accepted r)) (''testcase'', 4) | Catch \<Rightarrow> concat (map catch_tags (rr_catches r)))
      @ [(''/testsuite'', 0), (''/testsuites'', 0)]"
    using assms junit_list_tags(1) [of "rr_accepted r" ?rest] junit_list_tags(2) [of "rr_catches r" ?rest] rest
    by (cases "rr_mode r") (simp_all add: report_utf8_def)
  obtain tail where tail: "?body @ ?rest = tail" by blast
  show ?thesis
    unfolding junit_tags_def body [unfolded tail, symmetric] render_junit_def Let_def counts prod.case quoted_def
    unfolding append.assoc tail
    by (simp add: tags_inside tags_text tag_shape_def unquoted show_nat_plain mode_plain LF_def)
qed

lemma catch_tags_count:
  "length (filter (\<lambda>x. fst x = ''failure'') (concat (map catch_tags cs))) = length (filter is_failure_case cs)"
  "length (filter (\<lambda>x. fst x = ''testcase'') (concat (map catch_tags cs))) = length cs"
  by (induction cs) (simp_all add: catch_tags_def)

lemma junit_tags_count:
  "length (filter (\<lambda>x. fst x = ''testcase'') (junit_tags r)) = fst (junit_counts r)"
  "length (filter (\<lambda>x. fst x = ''failure'') (junit_tags r)) = snd (junit_counts r)"
  by (cases "rr_mode r"; simp add: junit_tags_def junit_counts_def catch_tags_count)+

section \<open>The headings of the Markdown document\<close>

text \<open>A reader of headings: after leading spaces, three tildes open or close a fence, and outside a fence a hash
  starts a heading. The headings are the lines without their leading spaces.\<close>

datatype md_state = LineStart bool | Tildes bool nat | RestOf bool | HeadingOf str

fun outline :: "md_state \<Rightarrow> str \<Rightarrow> str list" where
  "outline (HeadingOf h) [] = [h]"
| "outline _ [] = []"
| "outline (LineStart f) (c # s) =
     (if c = LF \<or> c = CHR '' '' then outline (LineStart f) s
      else if c = CHR ''~'' then outline (Tildes f 1) s
      else if c = CHR ''#'' \<and> \<not> f then outline (HeadingOf [c]) s
      else outline (RestOf f) s)"
| "outline (Tildes f n) (c # s) =
     (if c = LF then outline (LineStart f) s
      else if c = CHR ''~'' then if 2 \<le> n then outline (RestOf (\<not> f)) s else outline (Tildes f (Suc n)) s
      else outline (RestOf f) s)"
| "outline (RestOf f) (c # s) = (if c = LF then outline (LineStart f) s else outline (RestOf f) s)"
| "outline (HeadingOf h) (c # s) = (if c = LF then h # outline (LineStart False) s else outline (HeadingOf (h @ [c])) s)"

lemma outline_rest: "LF \<notin> set x \<Longrightarrow> outline (RestOf f) (x @ s) = outline (RestOf f) s"
  by (induction x) auto

lemma outline_heading: "LF \<notin> set x \<Longrightarrow> outline (HeadingOf h) (x @ s) = outline (HeadingOf (h @ x)) s"
  by (induction x arbitrary: h) auto

lemma contains_prefix: "contains y p \<Longrightarrow> contains (y @ z) p"
  unfolding contains_iff by (metis append.assoc)

lemma outline_body:
  "(\<not> contains x ''~~~'' \<longrightarrow> outline (LineStart True) (x @ LF # s) = outline (LineStart True) s
      \<and> outline (RestOf True) (x @ LF # s) = outline (LineStart True) s)
   \<and> (\<not> contains (''~'' @ x) ''~~~'' \<longrightarrow> outline (Tildes True 1) (x @ LF # s) = outline (LineStart True) s)
   \<and> (\<not> contains (''~~'' @ x) ''~~~'' \<longrightarrow> outline (Tildes True 2) (x @ LF # s) = outline (LineStart True) s)"
proof (induction x)
  case (Cons c x)
  have tails: "\<not> contains x ''~~~''" if "\<not> contains (k @ c # x) ''~~~''" "k \<in> {[], ''~'', ''~~''}" for k
    using that by auto
  have "LF \<noteq> CHR ''~''" by (simp add: LF_def)
  then show ?case
    using Cons tails by (cases "c = CHR ''~''") (auto simp: starts_with_def numeral_2_eq_2)
qed (simp_all add: LF_def)

lemma code_fence_outline:
  assumes "utf8 source"
  shows "outline (LineStart False) (code_fence language source @ s) = outline (LineStart False) s"
proof -
  let ?body = "md_code_block source CAP_SOURCE"
  have body: "\<not> contains ?body ''~~~''" using md_code_block_unfenced [OF assms] by blast
  have slug: "LF \<notin> set (lang_slug language)"
  proof
    assume "LF \<in> set (lang_slug language)"
    then obtain k where k: "LF \<in> set k" "is_ascii_alnum k \<or> k = ''_'' \<or> k = ''+'' \<or> k = ''-''"
      unfolding lang_slug_def set_concat by (auto dest!: in_set_takeD)
    then show False
      by (auto simp: is_ascii_alnum_def ascii_alnum_def ascii_upper_def ascii_lower_def ascii_digit_def LF_def split: list.splits)
  qed
  have skip: "outline (LineStart True) (?body @ (if ends_with (''~~~'' @ lang_slug language @ [LF] @ ?body) [LF] then [] else [LF]) @ t)
      = outline (LineStart True) t" for t
  proof (cases "?body = []")
    case True
    then show ?thesis by (simp add: ends_with_def)
  next
    case False
    show ?thesis
    proof (cases "last ?body = LF")
      case True
      then obtain y where y: "?body = y @ [LF]" using False by (metis append_butlast_last_id)
      then have "ends_with (''~~~'' @ lang_slug language @ [LF] @ ?body) [LF]" by (simp add: ends_with_def)
      moreover have "\<not> contains y ''~~~''" using body contains_prefix unfolding y by blast
      ultimately show ?thesis using outline_body [of y t] y by simp
    next
      case no: False
      then have "\<not> ends_with (''~~~'' @ lang_slug language @ [LF] @ ?body) [LF]"
        using False by (cases ?body rule: rev_cases) (auto simp: ends_with_def)
      then show ?thesis using outline_body [of ?body t] body by simp
    qed
  qed
  show ?thesis
    using skip [of "''~~~'' @ [LF, LF] @ s"] slug
    by (simp add: code_fence_def Let_def outline_rest LF_def)
qed

lemma md_char_avoids: "valid_char k \<Longrightarrow> inert k \<Longrightarrow> set (md_char k) \<inter> {LF} = {}"
proof -
  assume k: "valid_char k" "inert k"
  have "LF \<notin> set k" if "k \<noteq> [LF]" using unchanged_avoids [OF k(1), of "{LF}"] that by (simp add: LF_def)
  moreover have "LF \<notin> set '' ''" "LF \<notin> set ''&amp;''" "LF \<notin> set ''&lt;''" "LF \<notin> set ''&gt;''" "LF \<noteq> CHR 0x5C"
    by (simp_all add: LF_def)
  ultimately show ?thesis unfolding md_char_def by (cases "k = [LF]") simp_all
qed

lemma md_inline_line:
  assumes "utf8 v"
  shows "LF \<notin> set (md_inline v n)"
proof -
  have "set (md_inline v n) \<inter> {LF} = {}"
    unfolding md_inline_def by (rule map_chars_avoids [OF utf8_sanitize sanitize_inert]) (simp_all only: assms md_char_avoids)
  then show ?thesis by blast
qed

lemma values_line: "LF \<notin> set (show_nat j)" "LF \<notin> set (show_f2 x)" "LF \<notin> set (mode_as_str m)" "LF \<notin> set (strategy_str r)"
  "LF \<notin> set (decision_debug d)" "LF \<notin> set (bucket_debug b)" "LF \<notin> set (severity_marker y)" "LF \<notin> set (decision_name d)" "LF \<notin> set DASH"
proof -
  have digit: "\<not> ascii_digit LF" by (simp add: ascii_digit_def LF_def)
  show "LF \<notin> set (show_nat j)" using show_nat_digits [of j] digit unfolding list_all_iff by blast
  have "LF \<notin> set ''NaNinf-.''" by (simp add: LF_def)
  then show "LF \<notin> set (show_f2 x)" using show_f2_chars [of x] digit by blast
  show "LF \<notin> set (mode_as_str m)" by (cases m) (simp_all add: LF_def)
  show "LF \<notin> set (strategy_str r)" by (simp add: strategy_str_def LF_def split: strategy.split)
  show "LF \<notin> set (decision_debug d)" by (cases d) (simp_all add: LF_def)
  show "LF \<notin> set (bucket_debug b)" by (cases b) (simp_all add: LF_def)
  show "LF \<notin> set (severity_marker y)" by (cases y) (simp_all add: LF_def)
  show "LF \<notin> set (decision_name d)" by (cases d) (simp_all add: LF_def)
  show "LF \<notin> set DASH" by (simp add: DASH_def LF_def)
qed

lemma outline_row: "LF \<notin> set k \<Longrightarrow> LF \<notin> set v \<Longrightarrow> outline (LineStart False) (md_row k v @ s) = outline (LineStart False) s"
  by (simp add: md_row_def outline_rest) (simp add: LF_def outline_rest)

lemma outline_warning: "utf8 w \<Longrightarrow> outline (LineStart False) (warning_item w @ s) = outline (LineStart False) s"
  using md_inline_line by (simp add: warning_item_def outline_rest LF_def)

lemma outline_rejected: "rejected_utf8 j \<Longrightarrow> outline (LineStart False) (rejected_row j @ s) = outline (LineStart False) s"
  using md_inline_line by (simp add: rejected_row_def rejected_utf8_def outline_rest LF_def)

lemma outline_accepted:
  "accepted_utf8 t \<Longrightarrow> outline (LineStart False) (accepted_entry t @ s)
     = (''### `'' @ md_inline (at_path t) CAP_NAME @ ''`'') # outline (LineStart False) s"
  using md_inline_line code_fence_outline
  by (cases "at_symbol t") (simp_all add: accepted_entry_def accepted_utf8_def outline_rest outline_heading LF_def)

lemma outline_catch:
  "catch_utf8 c \<Longrightarrow> outline (LineStart False) (catch_entry c @ s) = catch_heading c # outline (LineStart False) s"
  using md_inline_line code_fence_outline values_line
  by (cases "cr_mutant c") (simp_all add: catch_entry_def catch_heading_def catch_utf8_def outline_rest outline_heading LF_def)

lemma outline_list:
  "(\<And>x s. x \<in> set xs \<Longrightarrow> outline (LineStart False) (f x @ s) = g x @ outline (LineStart False) s)
    \<Longrightarrow> outline (LineStart False) (concat (map f xs) @ s) = concat (map g xs) @ outline (LineStart False) s"
  by (induction xs) simp_all

definition md_headings :: "run_report \<Rightarrow> str list" where
  "md_headings r =
     [''# jitgen report'', ''## Summary'']
     @ (case rr_mode r of
          Harden \<Rightarrow> ''## Accepted tests (landable)'' # map (\<lambda>t. ''### `'' @ md_inline (at_path t) CAP_NAME @ ''`'') (rr_accepted r)
        | Catch \<Rightarrow> ''## Catches (report-only)'' # map catch_heading (rr_catches r))
     @ (if rr_rejected r = [] then [] else [''## Rejected candidates''])
     @ (if rr_warnings r = [] then [] else [''## Warnings''])"

lemma outline_accepted_section:
  assumes "report_utf8 r"
  shows "outline (LineStart False) (accepted_section r @ s) =
    ''## Accepted tests (landable)'' # map (\<lambda>t. ''### `'' @ md_inline (at_path t) CAP_NAME @ ''`'') (rr_accepted r)
      @ outline (LineStart False) s"
proof -
  have "outline (LineStart False) (concat (map accepted_entry (rr_accepted r)) @ s)
      = concat (map (\<lambda>t. [''### `'' @ md_inline (at_path t) CAP_NAME @ ''`'']) (rr_accepted r)) @ outline (LineStart False) s"
    using assms by (intro outline_list) (simp add: outline_accepted report_utf8_def list_all_iff)
  then show ?thesis by (simp add: accepted_section_def LF_def map_concat [symmetric])
qed

lemma outline_catches_section:
  assumes "report_utf8 r"
  shows "outline (LineStart False) (catches_section r @ s) =
    ''## Catches (report-only)'' # map catch_heading (rr_catches r) @ outline (LineStart False) s"
proof -
  have "outline (LineStart False) (concat (map catch_entry (rr_catches r)) @ s)
      = concat (map (\<lambda>c. [catch_heading c]) (rr_catches r)) @ outline (LineStart False) s"
    using assms by (intro outline_list) (simp add: outline_catch report_utf8_def list_all_iff)
  then show ?thesis by (simp add: catches_section_def LF_def)
qed

lemma outline_rejected_section:
  assumes "report_utf8 r"
  shows "outline (LineStart False) (rejected_section r @ s) =
    (if rr_rejected r = [] then [] else [''## Rejected candidates'']) @ outline (LineStart False) s"
proof -
  have "outline (LineStart False) (concat (map rejected_row (rr_rejected r)) @ u)
      = concat (map (\<lambda>j. []) (rr_rejected r)) @ outline (LineStart False) u" for u
    using assms by (intro outline_list) (simp add: outline_rejected report_utf8_def list_all_iff)
  then show ?thesis by (simp add: rejected_section_def LF_def)
qed

lemma outline_warnings_section:
  assumes "report_utf8 r"
  shows "outline (LineStart False) (warnings_section r @ s) =
    (if rr_warnings r = [] then [] else [''## Warnings'']) @ outline (LineStart False) s"
proof -
  have "outline (LineStart False) (concat (map warning_item (rr_warnings r)) @ u)
      = concat (map (\<lambda>w. []) (rr_warnings r)) @ outline (LineStart False) u" for u
    using assms by (intro outline_list) (simp add: outline_warning report_utf8_def list_all_iff)
  then show ?thesis by (simp add: warnings_section_def LF_def)
qed

lemma outline_summary:
  assumes "report_utf8 r"
  shows "outline (LineStart False) (summary_section r @ s) = ''## Summary'' # outline (LineStart False) s"
proof -
  have rows: "outline (LineStart False) (md_row k v @ u) = outline (LineStart False) u" if "LF \<notin> set k" "LF \<notin> set v" for k v u
    using outline_row that .
  have titles: "LF \<notin> set ''run id''" "LF \<notin> set ''repo''" "LF \<notin> set ''base''" "LF \<notin> set ''head''" "LF \<notin> set ''mode''"
    "LF \<notin> set ''strategy''" "LF \<notin> set ''targets selected''" "LF \<notin> set ''candidates generated''" "LF \<notin> set ''accepted''"
    "LF \<notin> set ''catches''" "LF \<notin> set ''rejected''" by (simp_all add: LF_def)
  have head: "outline (LineStart False) (''## Summary'' @ [LF, LF] @ ''| Field | Value |'' @ [LF] @ ''|---|---|'' @ [LF] @ u)
      = ''## Summary'' # outline (LineStart False) u" for u by (simp add: LF_def)
  have last: "outline (LineStart False) ([LF] @ u) = outline (LineStart False) u" for u by (simp add: LF_def)
  show ?thesis
    using assms unfolding summary_section_def append.assoc head report_utf8_def
    by (simp only: rows titles values_line md_inline_line last simp_thms)
qed

lemma render_markdown_outline:
  assumes "report_utf8 r"
  shows "outline (LineStart False) (render_markdown r @ s) = md_headings r @ outline (LineStart False) s"
proof -
  have title: "outline (LineStart False) (''# jitgen report'' @ [LF, LF] @ u) = ''# jitgen report'' # outline (LineStart False) u" for u
    by (simp add: LF_def)
  note parts = outline_summary [OF assms] outline_accepted_section [OF assms] outline_catches_section [OF assms]
    outline_rejected_section [OF assms] outline_warnings_section [OF assms]
  show ?thesis
    by (cases "rr_mode r"; simp only: render_markdown_def append.assoc title parts run_mode.case; simp add: md_headings_def)
qed

section \<open>Properties\<close>

text \<open>C30: The terminal output has the rows of its structure and nothing else. Whatever the strings of a report are, the
  output is well-formed text without a control, bidi or zero-width character of the stripped kinds, a tab or
  a carriage return, and its number of lines depends on the numbers of entries only: no value moves the cursor,
  recolours the terminal or forges a row.\<close>

theorem human_rows_exact:
  assumes "report_utf8 r"
  shows "utf8 (render_human r) \<and> list_all inert (chars (render_human r)) \<and> set (render_human r) \<inter> {TAB, CR} = {}
    \<and> length (split_on LF (render_human r)) = Suc (human_rows r)"
proof -
  have "length (split_on LF s) = Suc (feeds s)" for s
    by (induction s) (simp_all add: feeds_def)
  then show ?thesis using shown_human [OF assms] by (auto simp: shown_def clean_def)
qed

text \<open>C31: The JUnit document has the elements of its structure and nothing else. Read up to its tags, the document is the two
  suites around one test case per accepted test, or one per catch with a failure or an output inside, each tag with
  exactly the quotes of its own attributes, whatever the strings of the report are; there are as many test cases and
  failures as the suites say, and a catch is a failure exactly when it is a strong one.\<close>

theorem junit_elements_exact:
  assumes "report_utf8 r"
  shows "map tag_shape (tags None (render_junit r)) = junit_tags r
    \<and> length (filter (\<lambda>x. fst x = ''testcase'') (map tag_shape (tags None (render_junit r)))) = fst (junit_counts r)
    \<and> length (filter (\<lambda>x. fst x = ''failure'') (map tag_shape (tags None (render_junit r)))) = snd (junit_counts r)
    \<and> (is_failure_case c \<longleftrightarrow> cr_decision c = StrongCatch)"
  using render_junit_tags [OF assms] junit_tags_count [of r]
  by (cases "cr_decision c") (simp_all add: is_failure_case_def)

text \<open>C33: The Markdown document has the headings of its structure and nothing else. A reader that knows fences finds the
  title, the sections and one heading per entry, in order, and is outside every fence at the end, whatever the
  strings and the sources of a report are.\<close>

theorem markdown_headings_exact:
  assumes "report_utf8 r"
  shows "outline (LineStart False) (render_markdown r @ s) = md_headings r @ outline (LineStart False) s"
  by (rule render_markdown_outline [OF assms])

text \<open>A report with a test that tries to close its fence and a warning that forges a row.\<close>

definition forging_test :: accepted_test where
  "forging_test = \<lparr>at_target = ''t0'', at_symbol = None, at_language = ''rust'', at_path = ''a'' @ [LF] @ ''## b/><x>'',
     at_source = ''~~~'' @ [LF] @ ''# Owned'', at_class = HardenPass, at_reproduction = []\<rparr>"

definition forging_report :: run_report where
  "forging_report = sample_report\<lparr>rr_mode := Harden, rr_accepted := [forging_test], rr_catches := [],
     rr_warnings := [''w'' @ [LF] @ ''Rejected:'' @ [CHR 0x1B] @ ''[2J'']\<rparr>"

lemma forging_utf8: "report_utf8 forging_report"
proof -
  have "list_all (\<lambda>c. code c < 128) s \<Longrightarrow> utf8 s" for s by (simp add: utf8_ascii ascii_def)
  then show ?thesis
    by (simp add: report_utf8_def forging_report_def sample_report_def accepted_utf8_def forging_test_def LF_def)
qed

theorem human_rows_exact_witness:
  "length (split_on LF (render_human forging_report)) = 13"
  using human_rows_exact [OF forging_utf8] by (simp add: human_rows_def forging_report_def sample_report_def)

theorem junit_elements_exact_witness:
  "map tag_shape (tags None (render_junit forging_report)) =
     [(''?xml'', 4), (''testsuites'', 6), (''testsuite'', 6), (''testcase'', 4), (''/testsuite'', 0), (''/testsuites'', 0)]"
  using junit_elements_exact [OF forging_utf8] by (simp add: junit_tags_def forging_report_def)

theorem markdown_headings_exact_witness:
  "\<exists>v. outline (LineStart False) (render_markdown forging_report) =
     [''# jitgen report'', ''## Summary'', ''## Accepted tests (landable)'', ''### `'' @ v @ ''`'', ''## Warnings'']"
  using markdown_headings_exact [OF forging_utf8, of "[]"] by (simp add: md_headings_def forging_report_def sample_report_def)

end
