(* ===== verification/Analyze.thy ===== *)
theory Analyze
  imports Run Render
begin

text \<open>
  \<open>jitgen-orchestrator/src/analyze.rs\<close>: the plan of a run without running anything. It reads the repository as a
  run does up to the selection of targets, and is compared with the run here.
\<close>

section \<open>The code\<close>

record analyze_options =
  ao_repo :: str
  ao_base :: str
  ao_head :: str
  ao_trusted :: trusted_config

record changed_file =
  cg_path :: str
  cg_kind :: str
  cg_hunks :: nat

record detected_adapter =
  da_id :: str
  da_evidence :: "str list"

record analyzed_target =
  az_id :: str
  az_adapter :: str
  az_path :: str
  az_symbol :: "str option"
  az_kind :: symbol_kind
  az_score :: f64
  az_rationale :: str

record analyze_report =
  ar_repo :: str
  ar_base :: str
  ar_head :: str
  ar_mode :: run_mode
  ar_changed_files :: "changed_file list"
  ar_detected_adapters :: "detected_adapter list"
  ar_targets :: "analyzed_target list"

definition plan_change :: "regex_engine \<Rightarrow> file_change \<Rightarrow> changed_file" where
  "plan_change rx f = \<lparr>cg_path = rd_text (redact rx (fc_path f)), cg_kind = change_debug (fc_kind f), cg_hunks = length (fc_hunks f)\<rparr>"

definition plan_adapter :: "regex_engine \<Rightarrow> adapter_id \<times> detection_result \<Rightarrow> detected_adapter" where
  "plan_adapter rx p = \<lparr>da_id = fst p, da_evidence = map (\<lambda>e. rd_text (redact rx e)) (dt_evidence (snd p))\<rparr>"

definition plan_target :: "regex_engine \<Rightarrow> ranked_target \<Rightarrow> analyzed_target" where
  "plan_target rx rt =
     \<lparr>az_id = tg_id (rt_target rt), az_adapter = tg_adapter (rt_target rt), az_path = rd_text (redact rx (tg_path (rt_target rt))),
      az_symbol = map_option (\<lambda>s. rd_text (redact rx s)) (tg_symbol (rt_target rt)), az_kind = tg_kind (rt_target rt),
      az_score = rt_score rt, az_rationale = rd_text (redact rx (rt_rationale rt))\<rparr>"

definition analyze :: "('oid, 'n, 'p) run_host \<Rightarrow> analyze_options \<Rightarrow> 'p world \<Rightarrow> orch_error + analyze_report" where
  "analyze rh opts w =
     (case open_repo (intake_of rh w) (rh_open rh) (ao_repo opts) of
        Err e \<Rightarrow> Err (OrGit e)
      | Ok repo \<Rightarrow>
     (case resolve_commit repo (ao_base opts) of
        Err e \<Rightarrow> Err (OrGit e)
      | Ok base \<Rightarrow>
     (case resolve_commit repo (ao_head opts) of
        Err e \<Rightarrow> Err (OrGit e)
      | Ok head \<Rightarrow>
     (case diff_revisions repo (rp_show repo base) (rp_show repo head) of
        Err e \<Rightarrow> Err (OrGit e)
      | Ok changes \<Rightarrow>
     (case build_snapshot repo (rh_walk rh repo) head changes of
        Err e \<Rightarrow> Err e
      | Ok snapshot \<Rightarrow>
     (case load_repo_config (rh_yaml rh) repo head of
        Err e \<Rightarrow> Err e
      | Ok (repo_cfg, warnings) \<Rightarrow>
          (let rx = re_rx (rh_env rh);
               resolved = resolved_config_new (ao_trusted opts) repo_cfg [];
               registry = with_builtins (rh_rounding rh) (rh_parser rh) repo_cfg;
               profile = registry_detect registry snapshot;
               ctx = \<lparr>ac_repo = snapshot, ac_config = resolved, ac_mode = cfg_mode resolved,
                 ac_base = rp_show repo base, ac_head = rp_show repo head\<rparr>;
               ranked = select_targets (rh_rounding rh) (rh_fmt2 rh) (registry_analyze registry ctx changes)
                 (tc_max_tests (ao_trusted opts))
           in Ok \<lparr>ar_repo = (case rh_workdir rh repo of Some d \<Rightarrow> d | None \<Rightarrow> []), ar_base = rp_show repo base,
                ar_head = rp_show repo head, ar_mode = tc_mode (ao_trusted opts),
                ar_changed_files = map (plan_change rx) (cs_files changes),
                ar_detected_adapters = map (plan_adapter rx) profile,
                ar_targets = map (plan_target rx) ranked\<rparr>)))))))"

subsection \<open>The plan on a terminal\<close>

definition PLAN_CAP :: nat where "PLAN_CAP = 512"

definition plan_change_line :: "changed_file \<Rightarrow> str" where
  "plan_change_line f = ''  '' @ cg_kind f @ '' '' @ sanitize_line (cg_path f) PLAN_CAP @ '' ('' @ show_nat (cg_hunks f) @ '' hunks)'' @ [LF]"

definition plan_adapter_line :: "detected_adapter \<Rightarrow> str" where
  "plan_adapter_line a =
     ''  '' @ sanitize_line (da_id a) PLAN_CAP @ '' '' @ DASH @ '' '' @ join '', '' (map (\<lambda>e. sanitize_line e PLAN_CAP) (da_evidence a)) @ [LF]"

definition plan_target_lines :: "analyzed_target \<Rightarrow> str" where
  "plan_target_lines t =
     ''  ['' @ show_f2 (az_score t) @ ''] '' @ sanitize_line (az_id t) PLAN_CAP @ '' '' @ sanitize_line (az_adapter t) PLAN_CAP
     @ '' '' @ kind_debug (az_kind t) @ '' '' @ sanitize_line (case az_symbol t of Some y \<Rightarrow> y | None \<Rightarrow> ''(hunk)'') PLAN_CAP @ [LF]
     @ ''        '' @ sanitize_line (az_rationale t) PLAN_CAP @ [LF]"

definition render_plan :: "analyze_report \<Rightarrow> str" where
  "render_plan r =
     ''jitgen analyze (NON-EXECUTING plan) '' @ DASH @ '' mode '' @ mode_as_str (ar_mode r) @ [LF]
     @ ''repo: '' @ sanitize_line (ar_repo r) PLAN_CAP @ [LF] @ ''base: '' @ sanitize_line (ar_base r) PLAN_CAP
     @ ''  head: '' @ sanitize_line (ar_head r) PLAN_CAP @ [LF, LF]
     @ ''Changed files ('' @ show_nat (length (ar_changed_files r)) @ ''):'' @ [LF]
     @ concat (map plan_change_line (ar_changed_files r))
     @ [LF] @ ''Detected adapters ('' @ show_nat (length (ar_detected_adapters r)) @ ''):'' @ [LF]
     @ concat (map plan_adapter_line (ar_detected_adapters r))
     @ [LF] @ ''Selected targets ('' @ show_nat (length (ar_targets r)) @ ''):'' @ [LF]
     @ concat (map plan_target_lines (ar_targets r))
     @ [LF] @ ''(analyze does not run tests, call a real LLM, or modify anything.)'' @ [LF]"

section \<open>The plan and the run\<close>

text \<open>The adapters look at the snapshot of their context only.\<close>

lemma analyze_files_snapshot:
  "ac_repo ctx = ac_repo ctx' \<Longrightarrow> analyze_files rnd parse owns i ctx fcs sq = analyze_files rnd parse owns i ctx' fcs sq"
  by (induction fcs arbitrary: sq) (simp_all add: Let_def split: option.split prod.split)

lemma builtin_snapshot:
  assumes "ac_repo ctx = ac_repo ctx'" "a \<in> set (with_builtins rnd parse c)"
  shows "la_analyze_changes a ctx changes = la_analyze_changes a ctx' changes"
  using assms(2) analyze_files_snapshot [OF assms(1)]
  by (auto simp: with_builtins_def rust_adapter_def python_adapter_def java_adapter_def typescript_adapter_def
    generic_adapter_def analyze_owned_def)

lemma registry_snapshot:
  assumes "ac_repo ctx = ac_repo ctx'"
  shows "registry_analyze (with_builtins rnd parse c) ctx changes = registry_analyze (with_builtins rnd parse c) ctx' changes"
proof -
  have one: "(case registry_adapter (with_builtins rnd parse c) i of Some a \<Rightarrow> la_analyze_changes a ctx changes | None \<Rightarrow> [])
      = (case registry_adapter (with_builtins rnd parse c) i of Some a \<Rightarrow> la_analyze_changes a ctx' changes | None \<Rightarrow> [])" for i
  proof (cases "registry_adapter (with_builtins rnd parse c) i")
    case (Some a)
    then have "a \<in> set (with_builtins rnd parse c)" unfolding registry_adapter_def find_Some_iff by auto
    then show ?thesis using Some builtin_snapshot [OF assms] by simp
  qed simp
  show ?thesis by (simp only: registry_analyze_def one assms)
qed

text \<open>What the plan and the ranked targets of a run agree on.\<close>

definition target_key :: "ranked_target \<Rightarrow> str \<times> str \<times> symbol_kind \<times> f64" where
  "target_key rt = (tg_id (rt_target rt), tg_adapter (rt_target rt), tg_kind (rt_target rt), rt_score rt)"

definition plan_key :: "analyzed_target \<Rightarrow> str \<times> str \<times> symbol_kind \<times> f64" where
  "plan_key t = (az_id t, az_adapter t, az_kind t, az_score t)"

lemma plan_key_target: "map plan_key (map (plan_target rx) rts) = map target_key rts"
  by (simp add: plan_key_def plan_target_def target_key_def)

lemma analyze_opened:
  assumes "analyze rh opts w = Ok plan"
  obtains repo base head changes snapshot repo_cfg ws where
    "open_repo (intake_of rh w) (rh_open rh) (ao_repo opts) = Ok repo" "resolve_commit repo (ao_base opts) = Ok base"
    "resolve_commit repo (ao_head opts) = Ok head" "diff_revisions repo (rp_show repo base) (rp_show repo head) = Ok changes"
    "build_snapshot repo (rh_walk rh repo) head changes = Ok snapshot" "load_repo_config (rh_yaml rh) repo head = Ok (repo_cfg, ws)"
    "ar_repo plan = (case rh_workdir rh repo of Some d \<Rightarrow> d | None \<Rightarrow> [])" "ar_base plan = rp_show repo base" "ar_head plan = rp_show repo head"
    "ar_mode plan = tc_mode (ao_trusted opts)"
    "ar_targets plan = map (plan_target (re_rx (rh_env rh)))
       (select_targets (rh_rounding rh) (rh_fmt2 rh)
         (registry_analyze (with_builtins (rh_rounding rh) (rh_parser rh) repo_cfg)
           \<lparr>ac_repo = snapshot, ac_config = resolved_config_new (ao_trusted opts) repo_cfg [],
            ac_mode = cfg_mode (resolved_config_new (ao_trusted opts) repo_cfg []),
            ac_base = rp_show repo base, ac_head = rp_show repo head\<rparr> changes) (tc_max_tests (ao_trusted opts)))"
  using assms by (auto simp: analyze_def Let_def split: sum.splits prod.splits)

lemma prepare_ranked:
  assumes "prepare_run rh root_dir i repo base head trusted given w = (Ok (driver, ranked, ws), w')"
    and "diff_revisions repo (rp_show repo base) (rp_show repo head) = Ok changes"
    "build_snapshot repo (rh_walk rh repo) head changes = Ok snapshot" "load_repo_config (rh_yaml rh) repo head = Ok (repo_cfg, ws')"
  shows "ranked = select_targets (rh_rounding rh) (rh_fmt2 rh)
     (registry_analyze (with_builtins (rh_rounding rh) (rh_parser rh) repo_cfg)
       \<lparr>ac_repo = snapshot, ac_config = resolved_config_new trusted repo_cfg ws',
        ac_mode = cfg_mode (resolved_config_new trusted repo_cfg ws'),
        ac_base = rp_show repo base, ac_head = rp_show repo head\<rparr> changes) (tc_max_tests trusted)"
  using assms by (auto simp: prepare_run_def Let_def split: sum.splits prod.splits)

lemma prepare_reads:
  assumes "prepare_run rh root_dir i repo base head trusted given w = (Ok v, w')"
  shows "\<exists>changes snapshot cfg. diff_revisions repo (rp_show repo base) (rp_show repo head) = Ok changes
    \<and> build_snapshot repo (rh_walk rh repo) head changes = Ok snapshot \<and> load_repo_config (rh_yaml rh) repo head = Ok cfg"
  using assms by (auto simp: prepare_run_def split: sum.splits prod.splits)

lemma run_opened:
  assumes "run_jit_generation rh stores opts s w = (Ok report, s', w')"
  obtains repo base head i root_dir s1 driver ranked ws w1 where
    "open_repo (intake_of rh w) (rh_open rh) (ro_repo opts) = Ok repo" "resolve_commit repo (ro_base opts) = Ok base"
    "resolve_commit repo (ro_head opts) = Ok head"
    "prepare_run rh root_dir i repo base head (ro_trusted opts) None w = (Ok (driver, ranked, ws), w1)"
    "rr_repo report = (case rh_workdir rh repo of Some d \<Rightarrow> d | None \<Rightarrow> [])" "rr_base report = rp_show repo base"
    "rr_head report = rp_show repo head" "rr_mode report = tc_mode (ro_trusted opts)"
    "rs_targets_selected (rr_summary report) = length ranked"
proof -
  obtain repo base head i root_dir b h s1 store where
    o: "open_repo (intake_of rh w) (rh_open rh) (ro_repo opts) = Ok repo" "resolve_commit repo (ro_base opts) = Ok base"
    "resolve_commit repo (ro_head opts) = Ok head"
    and c: "complete_run rh store root_dir i repo base head (ro_trusted opts) None s1 w = (Ok report, s', w')"
    using assms unfolding run_jit_generation_def run_jit_generation_inner_def Let_def
    by (auto split: sum.splits prod.splits)
  obtain s2 where d: "drive_run rh (st_run store i) root_dir i repo base head (ro_trusted opts) None s1 w = (Ok report, s2, w')"
    using c by (auto simp: complete_run_def split: sum.splits prod.splits)
  obtain driver ranked ws w1 where p: "prepare_run rh root_dir i repo base head (ro_trusted opts) None w = (Ok (driver, ranked, ws), w1)"
    using d by (auto simp: drive_run_def split: sum.splits prod.splits)
  show thesis
    by (rule that [OF o p]) (use d p in \<open>auto simp: drive_run_def assemble_report_def Let_def split: sum.splits prod.splits\<close>)
qed

lemma failed_plan:
  assumes "analyze rh opts w = Err e"
    and "run_jit_generation rh stores
      \<lparr>ro_repo = ao_repo opts, ro_base = ao_base opts, ro_head = ao_head opts, ro_trusted = ao_trusted opts\<rparr> s w = (r, s', w')"
  shows "\<exists>e. r = Err e"
proof (rule ccontr)
  assume "\<not> ?thesis"
  then obtain report where ok: "r = Ok report" by (cases r) auto
  obtain repo base head i root_dir driver ranked ws w1 where
    o: "open_repo (intake_of rh w) (rh_open rh) (ao_repo opts) = Ok repo" "resolve_commit repo (ao_base opts) = Ok base"
      "resolve_commit repo (ao_head opts) = Ok head"
    and p: "prepare_run rh root_dir i repo base head (ao_trusted opts) None w = (Ok (driver, ranked, ws), w1)"
    using run_opened [OF assms(2) [unfolded ok]] by simp metis
  obtain changes snapshot cfg where "diff_revisions repo (rp_show repo base) (rp_show repo head) = Ok changes"
    "build_snapshot repo (rh_walk rh repo) head changes = Ok snapshot" "load_repo_config (rh_yaml rh) repo head = Ok cfg"
    using prepare_reads [OF p] by blast
  then have "analyze rh opts w \<noteq> Err e" using o by (cases cfg) (simp add: analyze_def Let_def)
  then show False using assms(1) by simp
qed

lemma planned_targets:
  assumes "analyze rh opts w = Ok plan" "open_repo (intake_of rh w) (rh_open rh) (ao_repo opts) = Ok repo"
    "resolve_commit repo (ao_base opts) = Ok base" "resolve_commit repo (ao_head opts) = Ok head"
    and "prepare_run rh root_dir i repo base head (ao_trusted opts) given w1 = (Ok (driver, ranked, ws1), w2)"
  shows "ar_targets plan = map (plan_target (re_rx (rh_env rh))) ranked"
proof (rule analyze_opened [OF assms(1)])
  fix repo' base' head' changes snapshot repo_cfg ws
  assume a: "open_repo (intake_of rh w) (rh_open rh) (ao_repo opts) = Ok repo'" "resolve_commit repo' (ao_base opts) = Ok base'"
    "resolve_commit repo' (ao_head opts) = Ok head'" "diff_revisions repo' (rp_show repo' base') (rp_show repo' head') = Ok changes"
    "build_snapshot repo' (rh_walk rh repo') head' changes = Ok snapshot" "load_repo_config (rh_yaml rh) repo' head' = Ok (repo_cfg, ws)"
    and ts: "ar_targets plan = map (plan_target (re_rx (rh_env rh)))
      (select_targets (rh_rounding rh) (rh_fmt2 rh)
        (registry_analyze (with_builtins (rh_rounding rh) (rh_parser rh) repo_cfg)
          \<lparr>ac_repo = snapshot, ac_config = resolved_config_new (ao_trusted opts) repo_cfg [],
           ac_mode = cfg_mode (resolved_config_new (ao_trusted opts) repo_cfg []),
           ac_base = rp_show repo' base', ac_head = rp_show repo' head'\<rparr> changes) (tc_max_tests (ao_trusted opts)))"
  have same: "repo' = repo" "base' = base" "head' = head" using a(1-3) assms(2-4) by simp_all
  note r = prepare_ranked [OF assms(5) a(4-6) [unfolded same]]
  show ?thesis unfolding ts same r by (subst registry_snapshot) simp_all
qed

lemma planned_report:
  assumes "analyze rh opts w = Ok plan"
    and "run_jit_generation rh stores
      \<lparr>ro_repo = ao_repo opts, ro_base = ao_base opts, ro_head = ao_head opts, ro_trusted = ao_trusted opts\<rparr> s w = (Ok report, s', w')"
  shows "rr_repo report = ar_repo plan \<and> rr_base report = ar_base plan \<and> rr_head report = ar_head plan
    \<and> rr_mode report = ar_mode plan \<and> rs_targets_selected (rr_summary report) = length (ar_targets plan)"
proof (rule analyze_opened [OF assms(1)], rule run_opened [OF assms(2)], unfold run_options.simps)
  fix repo base head repo' base' head' i root_dir driver ranked ws1 w1
  assume a: "open_repo (intake_of rh w) (rh_open rh) (ao_repo opts) = Ok repo" "resolve_commit repo (ao_base opts) = Ok base"
    "resolve_commit repo (ao_head opts) = Ok head"
    and plan: "ar_repo plan = (case rh_workdir rh repo of Some d \<Rightarrow> d | None \<Rightarrow> [])" "ar_base plan = rp_show repo base"
    "ar_head plan = rp_show repo head" "ar_mode plan = tc_mode (ao_trusted opts)"
    and o: "open_repo (intake_of rh w) (rh_open rh) (ao_repo opts) = Ok repo'" "resolve_commit repo' (ao_base opts) = Ok base'"
    "resolve_commit repo' (ao_head opts) = Ok head'"
    "prepare_run rh root_dir i repo' base' head' (ao_trusted opts) None w = (Ok (driver, ranked, ws1), w1)"
    and rep: "rr_repo report = (case rh_workdir rh repo' of Some d \<Rightarrow> d | None \<Rightarrow> [])" "rr_base report = rp_show repo' base'"
    "rr_head report = rp_show repo' head'" "rr_mode report = tc_mode (ao_trusted opts)"
    "rs_targets_selected (rr_summary report) = length ranked"
  have "repo' = repo" "base' = base" "head' = head" using o a by simp_all
  moreover have "length (ar_targets plan) = length ranked" using planned_targets [OF assms(1) o] by simp
  ultimately show ?thesis using rep plan by simp
qed

section \<open>Properties\<close>

text \<open>C22: The plan is the run's. For the same options, \<open>analyze\<close> and every run from that world agree: when the plan
  fails, the run fails; otherwise the targets of the plan are, in order and with their scores, those every run
  prepares from these revisions, and a report says the same repository, revisions, mode and number of
  targets as the plan.\<close>

theorem analyze_plans_the_run:
  "case analyze rh opts w of
     Err _ \<Rightarrow> \<exists>e. fst (run_jit_generation rh stores
       \<lparr>ro_repo = ao_repo opts, ro_base = ao_base opts, ro_head = ao_head opts, ro_trusted = ao_trusted opts\<rparr> s w) = Err e
   | Ok plan \<Rightarrow>
       (\<exists>repo base head. open_repo (intake_of rh w) (rh_open rh) (ao_repo opts) = Ok repo
         \<and> resolve_commit repo (ao_base opts) = Ok base \<and> resolve_commit repo (ao_head opts) = Ok head
         \<and> (\<forall>root_dir i given w1. case prepare_run rh root_dir i repo base head (ao_trusted opts) given w1 of
               (Err _, _) \<Rightarrow> True
             | (Ok (driver, ranked, ws), _) \<Rightarrow> map plan_key (ar_targets plan) = map target_key ranked))
       \<and> (case fst (run_jit_generation rh stores
           \<lparr>ro_repo = ao_repo opts, ro_base = ao_base opts, ro_head = ao_head opts, ro_trusted = ao_trusted opts\<rparr> s w) of
            Err _ \<Rightarrow> True
          | Ok report \<Rightarrow> rr_repo report = ar_repo plan \<and> rr_base report = ar_base plan \<and> rr_head report = ar_head plan
              \<and> rr_mode report = ar_mode plan \<and> rs_targets_selected (rr_summary report) = length (ar_targets plan))"
proof -
  let ?opts = "\<lparr>ro_repo = ao_repo opts, ro_base = ao_base opts, ro_head = ao_head opts, ro_trusted = ao_trusted opts\<rparr>"
  obtain r s' w' where run: "run_jit_generation rh stores ?opts s w = (r, s', w')" by (rule prod_cases3)
  show ?thesis
  proof (cases "analyze rh opts w")
    case (Inl e)
    then show ?thesis using failed_plan [OF Inl run] run by simp
  next
    case (Inr plan)
    obtain repo base head where a: "open_repo (intake_of rh w) (rh_open rh) (ao_repo opts) = Ok repo"
      "resolve_commit repo (ao_base opts) = Ok base" "resolve_commit repo (ao_head opts) = Ok head"
      using analyze_opened [OF Inr] .
    have "case prepare_run rh root_dir i repo base head (ao_trusted opts) given w1 of (Err _, _) \<Rightarrow> True
        | (Ok (driver, ranked, ws), _) \<Rightarrow> map plan_key (ar_targets plan) = map target_key ranked" for root_dir i given w1
    proof (cases "prepare_run rh root_dir i repo base head (ao_trusted opts) given w1")
      case (fields r1 w2)
      show ?thesis
      proof (cases r1)
        case (Inr v)
        then obtain driver ranked ws1 where v: "r1 = Ok (driver, ranked, ws1)" by (cases v) auto
        show ?thesis unfolding fields v prod.case sum.case planned_targets [OF \<open>analyze rh opts w = Ok plan\<close> a fields [unfolded v]]
          by (rule plan_key_target)
      qed (simp add: fields)
    qed
    moreover have "case r of Err _ \<Rightarrow> True
      | Ok report \<Rightarrow> rr_repo report = ar_repo plan \<and> rr_base report = ar_base plan \<and> rr_head report = ar_head plan
          \<and> rr_mode report = ar_mode plan \<and> rs_targets_selected (rr_summary report) = length (ar_targets plan)"
      using planned_report [OF Inr, of stores s _ s' w'] run by (cases r) auto
    ultimately show ?thesis using Inr a run by auto
  qed
qed

end
