(* ===== verification/Doctor.thy ===== *)
theory Doctor
  imports SandboxRun Provider Render
begin

text \<open>
  \<open>jitgen-orchestrator/src/doctor.rs\<close>: the report on tools, sandbox and provider, and the strict requirements a CI
  preflight may set. A probe's process is a parameter (how it ended and its two streams); the sandbox tier comes
  from the detection of \<open>SandboxRun\<close>.
\<close>

section \<open>The code\<close>

definition TOOL_FIELD_CAP :: nat where "TOOL_FIELD_CAP = 120"
definition SCHEMA_VERSION :: u32 where "SCHEMA_VERSION = 1"

record tool_status =
  ts_name :: str
  ts_available :: bool
  ts_version :: "str option"

record language_status =
  ls_language :: str
  ls_native :: bool
  ls_note :: str

record doctor_report =
  dr_version :: str
  dr_schema :: u32
  dr_os :: str
  dr_tools :: "tool_status list"
  dr_languages :: "language_status list"
  dr_tier :: str
  dr_note :: str
  dr_runtime :: "str option"
  dr_netns :: bool
  dr_state_root :: str
  dr_provider :: str

definition tool_available :: "doctor_report \<Rightarrow> str \<Rightarrow> bool" where
  "tool_available r name \<longleftrightarrow> list_ex (\<lambda>t. ts_name t = name \<and> ts_available t) (dr_tools r)"

definition prerequisites_ok :: "doctor_report \<Rightarrow> bool" where
  "prerequisites_ok r \<longleftrightarrow> tool_available r ''git''"

text \<open>\<open>{:<w}\<close>: filled up to a number of characters.\<close>

definition fill :: "nat \<Rightarrow> str \<Rightarrow> str" where
  "fill w s = s @ replicate (w - length (chars s)) (CHR '' '')"

definition tool_row :: "tool_status \<Rightarrow> str" where
  "tool_row t =
     ''  ['' @ (if ts_available t then ''ok  '' else ''MISS'') @ ''] '' @ fill 10 (sanitize_line (ts_name t) TOOL_FIELD_CAP) @ '' ''
     @ sanitize_line (case ts_version t of Some v \<Rightarrow> v | None \<Rightarrow> ''-'') TOOL_FIELD_CAP @ [LF]"

definition language_row :: "language_status \<Rightarrow> str" where
  "language_row l =
     ''  '' @ fill 11 (ls_language l) @ '' '' @ fill 10 (if ls_native l then ''native'' else ''no-native'') @ '' '' @ ls_note l @ [LF]"

definition render_doctor :: "doctor_report \<Rightarrow> str" where
  "render_doctor r =
     ''jitgen '' @ dr_version r @ '' (data-contract v'' @ show_nat (unat (dr_schema r)) @ '') '' @ DASH @ '' environment report'' @ [LF]
     @ ''OS: '' @ dr_os r @ [LF, LF] @ ''Tools:'' @ [LF] @ concat (map tool_row (dr_tools r))
     @ [LF] @ ''Languages (native toolchain; CI uses containers otherwise '' @ DASH @ '' ADR-0009):'' @ [LF]
     @ concat (map language_row (dr_languages r))
     @ [LF] @ ''Sandbox tier: '' @ dr_tier r @ [LF] @ ''  '' @ dr_note r @ [LF]
     @ (case dr_runtime r of Some rt \<Rightarrow> ''Container runtime: '' @ rt @ [LF] | None \<Rightarrow> [])
     @ ''State root: '' @ dr_state_root r @ [LF] @ ''LLM provider: '' @ dr_provider r @ [LF]
     @ (if \<not> prerequisites_ok r
        then [LF] @ ''WARNING: git not found '' @ DASH @ '' jitgen requires git to operate.'' @ [LF] else [])"

subsection \<open>Strict requirements\<close>

record strict_requirements =
  sr_sandbox :: bool
  sr_real_llm :: bool
  sr_unsafe_local :: bool

record strict_verdict =
  sv_failures :: "str list"
  sv_notes :: "str list"

definition weak_tier_note :: "bool \<Rightarrow> str" where
  "weak_tier_note netns =
     ''--require-sandbox: no isolating tier detected; passing because --unsafe-local-execution accepts the constrained-local tier. That tier has NO kernel-enforced network/file isolation and relies on the surrounding ephemeral container for it (ADR-0003) ''
     @ DASH @ '' it is NOT a real isolating sandbox. Only safe inside a throwaway, jitgen-owned container.''
     @ (if netns
        then '' The netns helper (unshare) IS usable here, so the run will be auto-upgraded to the netns-local tier: network access is then kernel-denied, but filesystem confinement still relies on the surrounding container (ADR-0013).''
        else [])"

definition no_tier_failure :: str where
  "no_tier_failure =
     ''--require-sandbox: no isolating sandbox tier (os-sandbox/container) detected and --unsafe-local-execution not set ''
     @ DASH @ '' jitgen would refuse to execute tests (fail-closed). Install bubblewrap, run inside the jitgen container, or pass --unsafe-local-execution if this IS a throwaway container.''"

definition no_llm_failure :: str where
  "no_llm_failure =
     ''--require-real-llm: no real LLM provider ready '' @ DASH
     @ '' needs --real-llm plus a trusted provider whose API-key env var is set (the default is the offline mock). See docs/ci.md ''
     @ ARROW @ '' Real LLM providers.''"

definition strict_verdict_of :: "doctor_report \<Rightarrow> strict_requirements \<Rightarrow> bool \<Rightarrow> strict_verdict" where
  "strict_verdict_of r req real_llm_ready =
     (let v = \<lparr>sv_failures = [], sv_notes = []\<rparr>;
          v = (if sr_sandbox req
               then (if dr_tier r \<noteq> ''none'' then v
                     else if sr_unsafe_local req then v\<lparr>sv_notes := sv_notes v @ [weak_tier_note (dr_netns r)]\<rparr>
                     else v\<lparr>sv_failures := sv_failures v @ [no_tier_failure]\<rparr>)
               else v)
      in if sr_real_llm req \<and> \<not> real_llm_ready then v\<lparr>sv_failures := sv_failures v @ [no_llm_failure]\<rparr> else v)"

definition key_present :: "(str \<Rightarrow> var_lookup) \<Rightarrow> str \<Rightarrow> bool" where
  "key_present var n = (case var n of VarSet v \<Rightarrow> trim v \<noteq> [] | _ \<Rightarrow> False)"

definition real_llm_ready :: "(str \<Rightarrow> var_lookup) \<Rightarrow> provider_config \<Rightarrow> bool" where
  "real_llm_ready var provider =
     (if provider_is_mock provider then False
      else case provider_key_env provider of Some n \<Rightarrow> key_present var n | None \<Rightarrow> True)"

subsection \<open>Probes\<close>

text \<open>How a probe's process ended, with what it wrote on its two streams.\<close>

datatype probe_end = NotSpawned | NotWaited | ProbeTimedOut | ProbeExited bool str str

type_synonym prober = "str \<Rightarrow> str list \<Rightarrow> probe_end"

definition probe_tool :: "prober \<Rightarrow> str \<Rightarrow> str list \<Rightarrow> bool \<times> str option" where
  "probe_tool run program args =
     (case run program args of
        NotSpawned \<Rightarrow> (False, None)
      | NotWaited \<Rightarrow> (False, None)
      | ProbeTimedOut \<Rightarrow> (False, Some ''(probe timed out)'')
      | ProbeExited success out err \<Rightarrow>
          (let text = from_utf8_lossy (if out = [] then err else out);
               line = trim (case lines text of l # _ \<Rightarrow> l | [] \<Rightarrow> [])
           in (success, if line = [] then None else Some line)))"

definition tool :: "prober \<Rightarrow> str \<Rightarrow> str \<Rightarrow> str list \<Rightarrow> tool_status" where
  "tool run name program args =
     (case probe_tool run program args of
        (ok, version) \<Rightarrow> \<lparr>ts_name = name, ts_available = ok, ts_version = (if ok then version else None)\<rparr>)"

definition lang_note :: "bool \<Rightarrow> str option \<Rightarrow> str" where
  "lang_note native container =
     (if native then ''native toolchain present''
      else case container of
        Some rt \<Rightarrow> ''no native toolchain; runs via '' @ rt @ '' container (ADR-0009)''
      | None \<Rightarrow> ''no native toolchain and no container; e2e skipped on this host'')"

definition no_tier_note :: "bool \<Rightarrow> bool \<Rightarrow> str" where
  "no_tier_note client netns =
     (if client
      then ''FAIL-CLOSED: a container runtime client is installed but no isolating backend is usable '' @ DASH
        @ '' its daemon is not usable (unreachable, unauthorized, or misconfigured, e.g. DOCKER_HOST/permissions) or the client is not on a trusted launcher path, so untrusted tests cannot run in a container. Start/authorize the daemon, install an OS sandbox (bubblewrap), or pass --unsafe-local-execution if this IS a throwaway container (ADR-0003/0010)''
      else ''FAIL-CLOSED: no OS sandbox or container available; untrusted execution is refused unless the trusted --unsafe-local-execution flag is passed (ADR-0003/0010)'')
     @ (if netns
        then ''. A netns network-denying helper (unshare) IS usable: an --unsafe-local-execution run will be auto-upgraded to the netns-local tier ''
          @ DASH @ '' a kernel-enforced network cut, though filesystem confinement still relies on the surrounding container (ADR-0013)''
        else [])"

definition classify_sandbox :: "backend list \<Rightarrow> bool \<Rightarrow> bool \<Rightarrow> str \<Rightarrow> str \<times> str \<times> str option" where
  "classify_sandbox detected client netns os =
     (let runtime = map_option backend_id (find (\<lambda>b. tier_of b = TierContainer) detected);
          none = (''none'', no_tier_note client netns) in
      case (case detected of
              [] \<Rightarrow> none
            | b # _ \<Rightarrow> (case tier_of b of
                TierOsSandbox \<Rightarrow> (''os-sandbox'', ''OS sandbox available ('' @ backend_id b @ '') on '' @ os)
              | TierContainer \<Rightarrow> (''container'', ''using '' @ backend_id b @ '' container backend'')
              | TierConstrainedLocal \<Rightarrow> none
              | TierNetnsLocal \<Rightarrow> none)) of
        (tier, note) \<Rightarrow> (tier, note, runtime))"

definition probed_tools :: "prober \<Rightarrow> tool_status list" where
  "probed_tools run =
     map (\<lambda>n. tool run n n [''--version'']) [''git'', ''rustc'', ''cargo'', ''bazel'', ''node'', ''npm'', ''pnpm'', ''yarn'', ''bun'']
     @ [tool run ''python3'' ''python3'' [''-I'', ''--version''],
        tool run ''pytest'' ''python3'' [''-I'', ''-c'',
          ''import importlib.metadata as m,sys;sys.stdout.write(m.version('' @ [CHR 0x27] @ ''pytest'' @ [CHR 0x27] @ ''))''],
        tool run ''java'' ''java'' [''-version''], tool run ''maven'' ''mvn'' [''--version''],
        tool run ''gradle'' ''gradle'' [''--version''], tool run ''docker'' ''docker'' [''--version''],
        tool run ''podman'' ''podman'' [''--version'']]"

definition language_of :: "str option \<Rightarrow> str \<Rightarrow> bool \<Rightarrow> language_status" where
  "language_of container name native = \<lparr>ls_language = name, ls_native = native, ls_note = lang_note native container\<rparr>"

definition run_doctor :: "str \<Rightarrow> prober \<Rightarrow> host_probes \<Rightarrow> str \<Rightarrow> str \<Rightarrow> str \<Rightarrow> doctor_report" where
  "run_doctor version run h os state_root provider =
     (let tools = probed_tools run;
          have = (\<lambda>n. list_ex (\<lambda>t. ts_name t = n \<and> ts_available t) tools);
          netns = netns_helper_available h;
          (tier, note, container) = classify_sandbox (detect h) (have ''docker'' \<or> have ''podman'') netns os
      in \<lparr>dr_version = version, dr_schema = SCHEMA_VERSION, dr_os = os, dr_tools = tools,
          dr_languages =
            [language_of container ''rust'' (have ''cargo''), language_of container ''typescript'' (have ''node''),
             language_of container ''python'' (have ''python3'' \<and> have ''pytest''),
             language_of container ''java'' (have ''java'' \<and> (have ''maven'' \<or> have ''gradle''))],
          dr_tier = tier, dr_note = note, dr_runtime = container, dr_netns = netns, dr_state_root = state_root,
          dr_provider = provider\<rparr>)"

text \<open>The arm of the mock is not reached.\<close>

definition describe_provider :: "(str \<Rightarrow> var_lookup) \<Rightarrow> provider_config \<Rightarrow> str" where
  "describe_provider var provider =
     (if provider_is_mock provider
      then ''mock (default; offline & deterministic '' @ DASH @ '' set a trusted provider and pass --real-llm for real generation)''
      else
        (case pc_kind provider of Anthropic \<Rightarrow> ''anthropic'' | OpenAiCompatible \<Rightarrow> ''openai-compatible'' | ProviderLocal \<Rightarrow> ''local''
         | ProviderMock \<Rightarrow> ''mock'')
        @ '' (real_llm enabled; model: '' @ (case pc_model provider of Some m \<Rightarrow> m | None \<Rightarrow> ''(provider default)'') @ ''; ''
        @ (case provider_key_env provider of
             Some n \<Rightarrow> if key_present var n then n @ '' is set'' else n @ '' NOT set '' @ DASH @ '' export it before running''
           | None \<Rightarrow> ''no API key required'') @ '')'')"

section \<open>Lemmas\<close>

text \<open>The candidates of a system are in the order of preference.\<close>

lemma detect_first:
  "find (\<lambda>b. b \<in> set (detect h)) AUTO_PREFERENCE = (case detect h of [] \<Rightarrow> None | b # _ \<Rightarrow> Some b)"
  by (cases "ho_os h") (auto simp: detect_def AUTO_PREFERENCE_def)

lemma detect_isolating: "b \<in> set (detect h) \<Longrightarrow> isolating b"
  by (cases "ho_os h") (auto simp: detect_def isolating_def split: if_splits)

lemma auto_selected:
  assumes "ep_backend policy = BackendAuto"
  shows "select_backend (detect h @ (if c then [BkNetnsHelper] else [])) policy =
     (case detect h of
        b # _ \<Rightarrow> Ok b
      | [] \<Rightarrow> if ep_allow_unsafe_local policy then if c then Ok BkNetnsHelper else Ok BkConstrainedLocal else Err NoIsolationAvailable)"
proof -
  define a where "a = detect h @ (if c then [BkNetnsHelper] else [])"
  have "BkNetnsHelper \<notin> set AUTO_PREFERENCE" by (simp add: AUTO_PREFERENCE_def)
  then have "find (\<lambda>b. b \<in> set a) AUTO_PREFERENCE = find (\<lambda>b. b \<in> set (detect h)) AUTO_PREFERENCE"
    unfolding a_def by (intro find_cong refl) auto
  then have first: "find (\<lambda>b. b \<in> set a) AUTO_PREFERENCE = (case detect h of [] \<Rightarrow> None | b # _ \<Rightarrow> Some b)"
    using detect_first by simp
  have "detect h = [] \<Longrightarrow> BkNetnsHelper \<in> set a \<longleftrightarrow> c" by (simp add: a_def)
  with first show ?thesis
    unfolding a_def [symmetric] by (cases "detect h") (simp_all add: select_backend_def assms)
qed

text \<open>The name \<open>doctor\<close> has for the tier of a backend.\<close>

definition tier_name :: "tier \<Rightarrow> str" where
  "tier_name t = (case t of TierOsSandbox \<Rightarrow> ''os-sandbox'' | TierContainer \<Rightarrow> ''container'' | _ \<Rightarrow> ''none'')"

lemma doctor_tier:
  "dr_tier (run_doctor version run h os state_root provider) =
     (case detect h of [] \<Rightarrow> ''none'' | b # _ \<Rightarrow> tier_name (tier_of b))"
  by (cases "detect h"; cases "tier_of (hd (detect h))")
     (simp_all add: run_doctor_def classify_sandbox_def Let_def tier_name_def)

lemma doctor_netns: "dr_netns (run_doctor version run h os state_root provider) = netns_helper_available h"
  by (simp add: run_doctor_def Let_def split: prod.split)

section \<open>Properties\<close>

text \<open>C28: The preflight agrees with the run. On the same host, \<open>doctor --require-sandbox\<close> fails exactly when a run whose
  backend is chosen automatically, with the same opt-in for local execution, finds no sandbox; the tier it reports is the
  tier of the backend the run selects, \<open>none\<close> for the tiers that do not isolate; and it warns exactly when
  the run would use one of those, naming the network helper exactly when the run takes it.\<close>

theorem doctor_agrees_with_runs:
  "let r = run_doctor version run h os state_root provider; u = ep_allow_unsafe_local policy;
       v = strict_verdict_of r \<lparr>sr_sandbox = True, sr_real_llm = False, sr_unsafe_local = u\<rparr> ready in
   case detect_and_select esc h (policy\<lparr>ep_backend := BackendAuto\<rparr>) of
     Err e \<Rightarrow> e = NoIsolationAvailable \<and> dr_tier r = ''none'' \<and> sv_failures v = [no_tier_failure] \<and> sv_notes v = []
   | Ok sb \<Rightarrow> sv_failures v = [] \<and> dr_tier r = tier_name (tier_of (sb_backend sb))
       \<and> sv_notes v = (if isolating (sb_backend sb) then [] else [weak_tier_note (sb_backend sb = BkNetnsHelper)])"
proof -
  let ?p = "policy\<lparr>ep_backend := BackendAuto\<rparr>"
  have select: "detect_and_select esc h ?p =
      (case (case detect h of
         b # _ \<Rightarrow> Ok b
       | [] \<Rightarrow> if ep_allow_unsafe_local policy then if netns_helper_available h then Ok BkNetnsHelper else Ok BkConstrainedLocal
              else Err NoIsolationAvailable) of
        Err e \<Rightarrow> Err e
      | Ok b \<Rightarrow> Ok \<lparr>sb_backend = b, sb_policy = ?p, sb_warnings = extra_refusal_warnings esc ?p\<rparr>)"
    using auto_selected [of ?p h "ep_allow_unsafe_local policy \<and> netns_helper_available h"]
    by (cases "ep_allow_unsafe_local policy"; cases "netns_helper_available h")
      (simp_all add: detect_and_select_def sandbox_new_def Let_def)
  show ?thesis
  proof (cases "detect h")
    case Nil
    then show ?thesis
      using select doctor_tier [of version run h os state_root provider] doctor_netns [of version run h os state_root provider]
      by (simp add: Let_def strict_verdict_of_def isolating_def tier_name_def)
  next
    case (Cons b bs)
    then have "isolating b" using detect_isolating [of b h] by simp
    then have "tier_name (tier_of b) \<noteq> ''none''" by (auto simp: isolating_def tier_name_def)
    then show ?thesis
      using select Cons \<open>isolating b\<close> doctor_tier [of version run h os state_root provider]
      by (simp add: Let_def strict_verdict_of_def)
  qed
qed

text \<open>
  The preflight does not look at the container image: on a host with a container runtime only and without a
  configured image it passes, and every plan of the run it stands for is refused.
\<close>

theorem doctor_ready_without_image:
  "sv_failures (strict_verdict_of (run_doctor version run docker_host os state_root provider)
      \<lparr>sr_sandbox = True, sr_real_llm = False, sr_unsafe_local = False\<rparr> ready) = []
    \<and> (\<exists>sb. detect_and_select (\<lambda>k. k) docker_host (from_trusted default_trusted) = Ok sb \<and> sb_backend sb = BkDocker
        \<and> plan_container (i\<lparr>pi_policy := sb_policy sb, pi_backend := sb_backend sb\<rparr>) cwd inner = Err MissingImage)"
proof -
  have "resolve_trusted_bin (ho_executable docker_host) ''sandbox-exec'' = None"
    "resolve_trusted_bin (ho_executable docker_host) ''docker'' = Some ''/usr/local/bin/docker''"
    by (code_simp, code_simp)
  then have "backend_available docker_host BkDocker" "\<not> backend_available docker_host BkSandboxExec"
    by (simp_all add: backend_available_def has_silent_degradation_mode_def probe_backend_def
        probe_is_available_def probe_outcome_of_def stderr_shows_silent_degradation_def)
      (simp add: docker_host_def hung_def)
  then obtain bs where bs: "detect docker_host = BkDocker # bs" by (simp add: detect_def docker_host_def)
  let ?p = "from_trusted default_trusted"
  have p: "ep_backend ?p = BackendAuto" "ep_docker_image ?p = None" "\<not> ep_allow_unsafe_local ?p"
    by (simp_all add: from_trusted_def default_trusted_def)
  have "select_backend (detect docker_host) ?p = Ok BkDocker"
    using auto_selected [OF p(1), of docker_host False] bs by simp
  with p have "detect_and_select (\<lambda>k. k) docker_host ?p
      = Ok \<lparr>sb_backend = BkDocker, sb_policy = ?p, sb_warnings = extra_refusal_warnings (\<lambda>k. k) ?p\<rparr>"
    by (simp add: detect_and_select_def sandbox_new_def Let_def)
  moreover have "dr_tier (run_doctor version run docker_host os state_root provider) = ''container''"
    using doctor_tier bs by (simp add: tier_name_def)
  ultimately show ?thesis
    using p by (simp add: strict_verdict_of_def plan_container_def)
qed

end
