(* ===== verification/Hints.thy ===== *)
theory Hints
  imports Render Provider
begin

text \<open>
  \<open>jitgen-cli/src/hints.rs\<close>: the line of advice below an error, chosen by the text of the message, and the notes of a run
  that produced nothing or whose gate was off. The version the documentation links are pinned to is an argument.
\<close>

section \<open>The code\<close>

definition ELLIPSIS :: str where "ELLIPSIS = [CHR 0xE2, CHR 0x80, CHR 0xA6]"

definition TROUBLESHOOTING_URL :: "str \<Rightarrow> str" where
  "TROUBLESHOOTING_URL v = ''https://github.com/sondrateconsulting/jitgen/blob/v'' @ v @ ''/docs/troubleshooting.md''"

definition USER_GUIDE_URL :: "str \<Rightarrow> str" where
  "USER_GUIDE_URL v = ''https://github.com/sondrateconsulting/jitgen/blob/v'' @ v @ ''/docs/user-guide.md''"

definition provider_config_hint :: "str \<Rightarrow> str" where
  "provider_config_hint v =
     ARROW @ '' real-provider config: export the API key env var named by your trusted config (default ANTHROPIC_API_KEY / OPENAI_API_KEY), and set ''
     @ quote_var ''model'' @ '' (and '' @ quote_var ''base_url'' @ '' for openai-compatible/local) in that config. Run '' @ quote_var ''jitgen doctor''
     @ ''. See '' @ TROUBLESHOOTING_URL v @ ''.''"

definition provider_call_hint :: "str \<Rightarrow> str" where
  "provider_call_hint v =
     ARROW
     @ '' the LLM provider call failed (network, auth, rate limit, or a bad/blocked response). Check the message above, verify the key and connectivity, then retry. Real calls need --real-llm. See ''
     @ TROUBLESHOOTING_URL v @ ''.''"

definition baseline_hint :: "str \<Rightarrow> str" where
  "baseline_hint v =
     ARROW @ '' --baseline wants a readable UTF-8 file of catch fingerprints, one per line ('' @ quote_var ''#''
     @ '' comments and blank lines allowed); copy the fingerprint jitgen prints for a gated catch. Check the path exists, is text, and is within the size cap. See ''
     @ TROUBLESHOOTING_URL v @ ''.''"

definition size_cap_hint :: "str \<Rightarrow> str" where
  "size_cap_hint v =
     ARROW
     @ '' a repo file (or the whole tree) is too large to materialize into the sandbox for test runs. Large generated/vendored/data files are not needed to generate tests ''
     @ DASH @ '' remove, move, or ignore the file named in the error (or split a genuinely huge source file). See '' @ TROUBLESHOOTING_URL v @ ''.''"

definition run_id_hint :: "str \<Rightarrow> str" where
  "run_id_hint v =
     ARROW @ '' check the run id; '' @ quote_var ''resume'' @ ''/'' @ quote_var ''report''
     @ '' locate runs via the global run index (no --repo needed). See '' @ TROUBLESHOOTING_URL v @ ''.''"

definition unfinished_hint :: "str \<Rightarrow> str" where
  "unfinished_hint v =
     ARROW @ '' finish the run first with '' @ quote_var ''jitgen resume --run-id <id>'' @ '', then report. See '' @ TROUBLESHOOTING_URL v @ ''.''"

definition outside_hint :: "str \<Rightarrow> str" where
  "outside_hint v =
     ARROW @ '' point --state-dir/--config at a path OUTSIDE the target repo (or omit it for the XDG default). See '' @ TROUBLESHOOTING_URL v @ ''.''"

definition revision_hint :: "str \<Rightarrow> str" where
  "revision_hint v =
     ARROW @ '' check --base/--head: each must resolve to a commit (a branch, tag, or revspec like '' @ quote_var ''HEAD'' @ '' or ''
     @ quote_var ''HEAD~1'' @ '') reachable in the repo. See '' @ TROUBLESHOOTING_URL v @ ''.''"

definition repo_hint :: "str \<Rightarrow> str" where
  "repo_hint v =
     ARROW @ '' check --repo points to an existing git working tree. Run '' @ quote_var ''jitgen doctor'' @ '' to sanity-check your environment. See ''
     @ TROUBLESHOOTING_URL v @ ''.''"

definition boundary_hint :: "str \<Rightarrow> str" where
  "boundary_hint v =
     ARROW @ '' jitgen reads only the repo you point --repo at. A normal '' @ quote_var ''git worktree''
     @ '' must be nested in its main repo; a hand-edited '' @ quote_var ''.git'' @ ''/alternates/symlinked storage is refused. See ''
     @ TROUBLESHOOTING_URL v @ '' ('' @ [CHR 0x22] @ ''repository boundary escape'' @ [CHR 0x22] @ '').''"

definition no_sandbox_resume_hint :: "str \<Rightarrow> str" where
  "no_sandbox_resume_hint v =
     ARROW @ '' no isolating sandbox. '' @ quote_var ''resume'' @ '' reloads the original run'' @ [CHR 0x27] @ ''s trusted config, so re-run ''
     @ quote_var (''jitgen run '' @ ELLIPSIS) @ '' with --unsafe-local-execution (trusted hosts) or a container runtime. Run ''
     @ quote_var ''jitgen doctor'' @ ''. See '' @ TROUBLESHOOTING_URL v @ ''.''"

definition no_sandbox_hint :: "str \<Rightarrow> str" where
  "no_sandbox_hint v =
     ARROW @ '' start a container runtime or run where an OS sandbox exists; or, on a trusted host, pass --unsafe-local-execution. Run ''
     @ quote_var ''jitgen doctor'' @ '' to see what'' @ [CHR 0x27] @ ''s detected. See '' @ TROUBLESHOOTING_URL v @ ''.''"

definition image_resume_hint :: "str \<Rightarrow> str" where
  "image_resume_hint v =
     ARROW @ '' the container tier needs a digest-pinned image, which '' @ quote_var ''resume'' @ '' can'' @ [CHR 0x27] @ ''t take; re-run ''
     @ quote_var (''jitgen run '' @ ELLIPSIS) @ '' with --docker-image name@sha256:'' @ ELLIPSIS @ '' (or set JITGEN_DOCKER_IMAGE). See ''
     @ TROUBLESHOOTING_URL v @ ''.''"

definition image_hint :: "str \<Rightarrow> str" where
  "image_hint v =
     ARROW @ '' pass --docker-image name@sha256:'' @ ELLIPSIS @ '' (or set JITGEN_DOCKER_IMAGE). See '' @ TROUBLESHOOTING_URL v @ ''.''"

definition gone_hint :: "str \<Rightarrow> str" where
  "gone_hint v =
     ARROW @ '' the pinned base/head commits were rewritten or GC'' @ [CHR 0x27] @ ''d; start a fresh '' @ quote_var ''jitgen run''
     @ '' against current revisions. See '' @ TROUBLESHOOTING_URL v @ ''.''"

definition generic_hint :: "str \<Rightarrow> str" where
  "generic_hint v =
     ARROW @ '' see '' @ TROUBLESHOOTING_URL v @ '' for common causes and fixes.''"

definition mock_note :: "str \<Rightarrow> str" where
  "mock_note v =
     ''note: this run used jitgen'' @ [CHR 0x27] @ ''s built-in mock LLM (the deterministic, offline default) '' @ DASH
     @ '' it exercises the full pipeline but doesn'' @ [CHR 0x27] @ ''t synthesize real tests, so '' @ quote_var ''0 accepted''
     @ '' is expected here, not a failure. To generate real tests, set a provider in a trusted config file and pass --real-llm (see '' @ USER_GUIDE_URL v
     @ '' '' @ ARROW @ '' Real providers).''"

definition gate_note :: "str \<Rightarrow> str" where
  "gate_note v =
     ''note: --warn-only/--baseline/--fail-threshold only take effect with --fail-on-catch; the findings gate is off, so this run does not gate on catches (see ''
     @ USER_GUIDE_URL v @ '' '' @ ARROW @ '' Findings gate).''"

definition command_of :: "str \<Rightarrow> str" where
  "command_of msg =
     (case strip_prefix msg ''jitgen '' of
        Some rest \<Rightarrow> (case split_on (CHR '':'') rest of c # _ \<Rightarrow> trim c | [] \<Rightarrow> [])
      | None \<Rightarrow> [])"

definition user_hint :: "str \<Rightarrow> str \<Rightarrow> str" where
  "user_hint v msg =
     (let resume_like = (command_of msg = ''resume'') in
      if contains msg ''LLM provider configuration error'' then provider_config_hint v
      else if contains msg ''LLM provider error'' then provider_call_hint v
      else if contains msg ''baseline file'' then baseline_hint v
      else if (contains msg ''invalid overlay:'' \<or> contains msg ''invalid snapshot:'') \<and> contains msg ''checkout cap'' then size_cap_hint v
      else if contains msg ''invalid run-id: no run '' \<and> contains msg ''in the state index'' then run_id_hint v
      else if contains msg ''is not in a completed state'' then unfinished_hint v
      else if contains msg ''must be OUTSIDE'' \<or> contains msg ''must live outside'' then outside_hint v
      else if contains msg ''git intake: invalid revision'' then revision_hint v
      else if contains msg ''failed to resolve path'' \<or> contains msg ''could not find repository'' \<or> contains msg ''not a git repository''
      then repo_hint v
      else if contains msg ''boundary escape'' then boundary_hint v
      else if contains msg ''no isolating sandbox available'' then if resume_like then no_sandbox_resume_hint v else no_sandbox_hint v
      else if contains msg ''digest-pinned'' then if resume_like then image_resume_hint v else image_hint v
      else if contains msg ''no longer present'' then gone_hint v
      else generic_hint v)"

definition mock_empty_run_hint :: "str \<Rightarrow> bool \<Rightarrow> bool \<Rightarrow> bool \<Rightarrow> str option" where
  "mock_empty_run_hint v provider_was_mock is_harden produced_output =
     (if \<not> provider_was_mock \<or> \<not> is_harden \<or> produced_output then None else Some (mock_note v))"

definition gate_modifiers_without_master_note :: "str \<Rightarrow> bool \<Rightarrow> bool \<Rightarrow> bool \<Rightarrow> str option" where
  "gate_modifiers_without_master_note v fail_on_catch warn_only has_baseline =
     (if fail_on_catch \<or> \<not> warn_only \<and> \<not> has_baseline then None else Some (gate_note v))"

section \<open>Lemmas\<close>

lemma contains_inside: "contains (x @ p @ s) p"
  by (simp add: contains_sublist)

text \<open>The message for a revision that does not resolve gets the advice on revisions, or that of a branch above
  it, whatever the revision is: never one of the branches that look for a keyword only.\<close>

lemma bad_revision_hint:
  "user_hint v (''jitgen run: '' @ show_orch (OrGit (GitBadRevision r))) \<in>
     {provider_config_hint v, provider_call_hint v, baseline_hint v, size_cap_hint v, run_id_hint v, unfinished_hint v,
      outside_hint v, revision_hint v}"
proof -
  define m where "m = ''jitgen run: '' @ show_orch (OrGit (GitBadRevision r))"
  have "m = ''jitgen run: '' @ ''git intake: invalid revision'' @ '' '' @ [CHR 0x27] @ r @ [CHR 0x27]" by (simp add: m_def)
  then have "contains m ''git intake: invalid revision''" using contains_inside by metis
  then show ?thesis unfolding m_def [symmetric] user_hint_def Let_def by simp
qed

lemma debug_plain:
  assumes "list_all (\<lambda>c. 32 \<le> code c \<and> code c < 127 \<and> c \<noteq> CHR 0x22 \<and> c \<noteq> CHR 0x5C) s"
  shows "debug_str esc s = [CHR 0x22] @ s @ [CHR 0x22]"
proof -
  have "code c < 128" if "c \<in> set s" for c
  proof -
    have "code c < 127" using assms that by (auto simp: list_all_iff)
    then show ?thesis by linarith
  qed
  then have "ascii s" by (simp add: ascii_def list_all_iff)
  have "debug_char esc [c] = [c]" if "c \<in> set s" for c
  proof -
    have c: "32 \<le> code c" "code c < 127" "c \<noteq> CHR 0x22" "c \<noteq> CHR 0x5C" using assms that by (auto simp: list_all_iff)
    have "cp [c] = code c" by (simp add: cp_def)
    moreover have "c \<noteq> CHR 0x00 \<and> c \<noteq> LF \<and> c \<noteq> CR \<and> c \<noteq> TAB"
    proof (intro conjI notI)
      assume "c = CHR 0x00" then show False using c(1) by simp
    next
      assume "c = LF" then show False using c(1) by (simp add: LF_def)
    next
      assume "c = CR" then show False using c(1) by (simp add: CR_def)
    next
      assume "c = TAB" then show False using c(1) by (simp add: TAB_def)
    qed
    ultimately show ?thesis using c by (simp add: debug_char_def)
  qed
  then have "map (debug_char esc) (map (\<lambda>c. [c]) s) = map (\<lambda>c. [c]) s" by simp
  moreover have "concat (map (\<lambda>c. [c]) s) = s" by (induction s) simp_all
  ultimately have "concat (map (debug_char esc) (map (\<lambda>c. [c]) s)) = s" by metis
  then show ?thesis using chars_ascii [OF \<open>ascii s\<close>] by (simp add: debug_str_def)
qed

text \<open>A run id can still choose the advice: the branches on the provider come before the one on run ids.\<close>

theorem run_id_takes_provider_hint:
  "user_hint v (''jitgen report: '' @ show_orch (OrInvalid ''run-id''
     (''no run '' @ debug_str (\<lambda>k. k) ''LLM provider error'' @ '' in the state index''))) = provider_call_hint v"
proof -
  have "debug_str (\<lambda>k. k) ''LLM provider error'' = [CHR 0x22] @ ''LLM provider error'' @ [CHR 0x22]"
    by (rule debug_plain, code_simp)
  moreover have "\<not> contains (''jitgen report: '' @ ''invalid '' @ ''run-id'' @ '': ''
      @ ''no run '' @ ([CHR 0x22] @ ''LLM provider error'' @ [CHR 0x22]) @ '' in the state index'') ''LLM provider configuration error''"
    by code_simp
  moreover have "contains (''jitgen report: '' @ ''invalid '' @ ''run-id'' @ '': ''
      @ ''no run '' @ ([CHR 0x22] @ ''LLM provider error'' @ [CHR 0x22]) @ '' in the state index'') ''LLM provider error''"
    by code_simp
  ultimately show ?thesis by (simp add: user_hint_def Let_def del: contains.simps)
qed

end
