(* ===== verification/Cli.thy ===== *)
theory Cli
  imports Analyze Doctor Gate Hints
begin

text \<open>
  \<open>jitgen-cli/src/cli.rs\<close>: the commands, from the parsed arguments to the exit code. The arguments are given as
  \<open>clap\<close> parses them; the two streams are the state \<open>terminal\<close>, and the commands thread the store and the
  world of \<open>Run\<close>.
\<close>

section \<open>The code\<close>

subsection \<open>Arguments\<close>

datatype mode_arg = ArgHarden | ArgCatch
datatype strategy_arg = ArgAuto | ArgStrategyHarden | ArgDodgyDiff | ArgIntentAware
datatype sandbox_arg = SbAuto | SbBwrap | SbFirejail | SbSandboxExec | SbDocker | SbPodman | SbNetnsHelper | SbLocal
datatype format_arg = FmtHuman | FmtJson | FmtMarkdown | FmtPatch | FmtJunit | FmtSarif
datatype analyze_format = AfHuman | AfJson

fun mode_from :: "mode_arg \<Rightarrow> run_mode" where
  "mode_from ArgHarden = Harden"
| "mode_from ArgCatch = Catch"

fun strategy_from :: "strategy_arg \<Rightarrow> strategy" where
  "strategy_from ArgAuto = Auto"
| "strategy_from ArgStrategyHarden = StrategyHarden"
| "strategy_from ArgDodgyDiff = DodgyDiff"
| "strategy_from ArgIntentAware = IntentAware"

fun backend_from :: "sandbox_arg \<Rightarrow> sandbox_backend" where
  "backend_from SbAuto = BackendAuto"
| "backend_from SbBwrap = Bwrap"
| "backend_from SbFirejail = Firejail"
| "backend_from SbSandboxExec = SandboxExec"
| "backend_from SbDocker = Docker"
| "backend_from SbPodman = Podman"
| "backend_from SbNetnsHelper = NetnsHelper"
| "backend_from SbLocal = BackendLocal"

fun format_from :: "format_arg \<Rightarrow> report_format" where
  "format_from FmtHuman = HumanFormat"
| "format_from FmtJson = JsonFormat"
| "format_from FmtMarkdown = MarkdownFormat"
| "format_from FmtPatch = PatchFormat"
| "format_from FmtJunit = JunitFormat"
| "format_from FmtSarif = SarifFormat"

record run_args =
  rg_repo :: str
  rg_base :: str
  rg_head :: str
  rg_mode :: "mode_arg option"
  rg_strategy :: "strategy_arg option"
  rg_write :: bool
  rg_patch_out :: "str option"
  rg_max_tests :: "u32 option"
  rg_sandbox :: "sandbox_arg option"
  rg_docker_image :: "str option"
  rg_unsafe_local_execution :: bool
  rg_shell_allowed :: bool
  rg_state_dir :: "str option"
  rg_config :: "str option"
  rg_real_llm :: bool
  rg_format :: format_arg
  rg_fail_on_catch :: bool
  rg_fail_threshold :: f64
  rg_baseline :: "str option"
  rg_warn_only :: bool

record analyze_args =
  ag_repo :: str
  ag_base :: str
  ag_head :: str
  ag_mode :: "mode_arg option"
  ag_strategy :: "strategy_arg option"
  ag_max_tests :: "u32 option"
  ag_config :: "str option"
  ag_state_dir :: "str option"
  ag_format :: analyze_format

record stored_args =
  sg_run_id :: str
  sg_state_dir :: "str option"
  sg_format :: format_arg

record doctor_args =
  dg_format :: analyze_format
  dg_config :: "str option"
  dg_real_llm :: bool
  dg_require_sandbox :: bool
  dg_require_real_llm :: bool
  dg_unsafe_local_execution :: bool

definition flag :: "bool \<Rightarrow> bool option" where
  "flag present = (if present then Some True else None)"

definition validate_output_rules :: "run_mode \<Rightarrow> bool \<Rightarrow> bool \<Rightarrow> str + unit" where
  "validate_output_rules mode write patch_out =
     (if mode = Catch \<and> (write \<or> patch_out)
      then Err ''--write/--patch-out are invalid with --mode catch (catch mode is report-only; catching tests fail by design and cannot land)''
      else Ok ())"

text \<open>\<open>str::parse\<close> for \<open>f64\<close>: a sign, then \<open>inf\<close>, \<open>infinity\<close>, \<open>nan\<close> in any case, or digits with a point and
  an exponent, rounded once.\<close>

definition sign_of :: "str \<Rightarrow> bool \<times> str" where
  "sign_of s = (case s of c # r \<Rightarrow> if c = CHR ''-'' then (True, r) else if c = CHR ''+'' then (False, r) else (False, s) | [] \<Rightarrow> (False, s))"

definition parse_exponent :: "str \<Rightarrow> int option" where
  "parse_exponent s =
     (case s of
        [] \<Rightarrow> Some 0
      | c # r \<Rightarrow>
          if c = CHR ''e'' \<or> c = CHR ''E''
          then (case sign_of r of (negative, ds) \<Rightarrow>
            map_option (\<lambda>n. if negative then - int n else int n) (parse_digits ds))
          else None)"

definition pow10 :: "int \<Rightarrow> rat" where
  "pow10 k = (if 0 \<le> k then 10 ^ nat k else 1 / 10 ^ nat (- k))"

definition parse_f64 :: "rounding \<Rightarrow> str \<Rightarrow> f64 option" where
  "parse_f64 rnd s =
     (case sign_of s of (negative, body) \<Rightarrow>
        (let low = to_ascii_lowercase body; signed = (\<lambda>x. if negative then fneg x else x) in
         if low = ''nan'' then Some NaN
         else if low = ''inf'' \<or> low = ''infinity'' then Some (signed PInf)
         else
           let whole = takeWhile ascii_digit body; rest = dropWhile ascii_digit body;
               (frac, exponent) =
                 (case rest of c # r \<Rightarrow> if c = CHR ''.'' then (takeWhile ascii_digit r, dropWhile ascii_digit r) else ([], rest)
                  | [] \<Rightarrow> ([], rest))
           in case (parse_digits (whole @ frac), parse_exponent exponent) of
                (Some n, Some e) \<Rightarrow> Some (signed (rnd (of_nat n * pow10 (e - int (length frac)))))
              | _ \<Rightarrow> None))"

definition parse_fail_threshold :: "rounding \<Rightarrow> str \<Rightarrow> str + f64" where
  "parse_fail_threshold rnd s =
     (case parse_f64 rnd s of
        Some v \<Rightarrow> if is_finite v \<and> fle fzero v \<and> fle v fone then Ok v else Err ''must be a probability between 0.0 and 1.0''
      | None \<Rightarrow> Err ''must be a number between 0.0 and 1.0'')"

definition version_string :: "str \<Rightarrow> str" where
  "version_string v = v @ '' (data-contract v'' @ show_nat (unat SCHEMA_VERSION) @ '')''"

subsection \<open>The terminal\<close>

text \<open>What was written on the two streams, and the error of every further write to the standard output, if it is gone.\<close>

record terminal =
  tm_out :: str
  tm_err :: str
  tm_fault :: "str option"

definition write_out :: "str \<Rightarrow> terminal \<Rightarrow> (str + unit) \<times> terminal" where
  "write_out s t = (case tm_fault t of Some e \<Rightarrow> (Err e, t) | None \<Rightarrow> (Ok (), t\<lparr>tm_out := tm_out t @ s\<rparr>))"

definition eprint :: "str \<Rightarrow> terminal \<Rightarrow> terminal" where
  "eprint line t = t\<lparr>tm_err := tm_err t @ line @ [LF]\<rparr>"

text \<open>\<open>print!\<close> panics when it cannot write: the process ends with code 101. The panic's message is left out.\<close>

definition PANIC :: nat where "PANIC = 101"

definition print_then :: "str \<Rightarrow> (terminal \<Rightarrow> nat \<times> terminal) \<Rightarrow> terminal \<Rightarrow> nat \<times> terminal" where
  "print_then s k t = (case write_out s t of (Ok _, t) \<Rightarrow> k t | (Err _, t) \<Rightarrow> (PANIC, t))"

definition ERROR_MSG_CAP :: nat where "ERROR_MSG_CAP = 8 * 1024"

definition safe_for_terminal :: "str \<Rightarrow> nat \<Rightarrow> str" where
  "safe_for_terminal msg max_bytes = sanitize_line msg max_bytes"

definition fail :: "str \<Rightarrow> str \<Rightarrow> terminal \<Rightarrow> nat \<times> terminal" where
  "fail v msg t = (1, eprint (user_hint v msg) (eprint (safe_for_terminal msg ERROR_MSG_CAP) t))"

subsection \<open>The commands\<close>

record ('oid, 'n, 'p) cli_host =
  cl_run :: "('oid, 'n, 'p) run_host"
  cl_version :: str
  cl_json :: json_writer
  cl_plan_json :: "analyze_report \<Rightarrow> str + str"
  cl_doctor_json :: "doctor_report \<Rightarrow> str + str"
  cl_prober :: prober
  cl_os :: str

definition run_flags :: "run_args \<Rightarrow> trusted_flags" where
  "run_flags a =
     \<lparr>fl_config_file = rg_config a, fl_mode = map_option mode_from (rg_mode a),
      fl_strategy = map_option strategy_from (rg_strategy a), fl_sandbox_backend = map_option backend_from (rg_sandbox a),
      fl_unsafe_local_execution = flag (rg_unsafe_local_execution a), fl_shell_allowed = flag (rg_shell_allowed a),
      fl_state_dir = rg_state_dir a, fl_max_tests = rg_max_tests a, fl_real_llm = flag (rg_real_llm a),
      fl_env_allowlist_extra = None, fl_docker_image = rg_docker_image a\<rparr>"

text \<open>Reading and writing a file the operator names. An empty path names nothing.\<close>

definition host_read :: "('oid, 'n, 'p) run_host \<Rightarrow> 'p world \<Rightarrow> str \<Rightarrow> str + str" where
  "host_read rh w p =
     (if p = [] then Err (show_io NotFound)
      else case read_path (xw_fs (fst w)) (re_cwd (rh_env rh)) (kernel_components p) of
        Err e \<Rightarrow> Err (show_io e)
      | Ok b \<Rightarrow> Ok b)"

definition set_fs :: "filesys \<Rightarrow> 'p world \<Rightarrow> 'p world" where
  "set_fs fs w = ((fst w)\<lparr>xw_fs := fs\<rparr>, snd w)"

definition host_write :: "('oid, 'n, 'p) run_host \<Rightarrow> str \<Rightarrow> str \<Rightarrow> 'p world \<Rightarrow> (str + unit) \<times> 'p world" where
  "host_write rh p bytes w =
     (if p = [] then (Err (show_io NotFound), w)
      else case write_path (xw_fs (fst w)) (re_cwd (rh_env rh)) (kernel_components p) bytes of
        (Err e, fs) \<Rightarrow> (Err (show_io e), set_fs fs w)
      | (Ok _, fs) \<Rightarrow> (Ok (), set_fs fs w))"

text \<open>The directory \<open>--repo\<close> names for the writes; one that no longer resolves is taken by its name, where every write fails.\<close>

definition repo_root :: "('oid, 'n, 'p) run_host \<Rightarrow> str \<Rightarrow> 'p world \<Rightarrow> overlay_root" where
  "repo_root rh repo w =
     \<lparr>ov_text = repo,
      ov_loc = (case canonicalize (xw_fs (fst w)) (re_cwd (rh_env rh)) repo of
        Ok loc \<Rightarrow> loc
      | Err _ \<Rightarrow> (if is_absolute repo then [] else re_cwd (rh_env rh)) @ normals (components repo))\<rparr>"

definition land :: "('oid, 'n, 'p) run_host \<Rightarrow> str \<Rightarrow> run_report \<Rightarrow> 'p world \<Rightarrow> (orch_error + str list) \<times> 'p world" where
  "land rh repo report w =
     (case apply_to_repo (repo_root rh repo w) report (xw_fs (fst w)) of (r, fs) \<Rightarrow> (r, set_fs fs w))"

datatype emit_gate_error = EmitIo str | EmitGate gate_error

fun show_gate :: "gate_error \<Rightarrow> str" where
  "show_gate (Unreadable path e) = ''baseline file is unreadable: '' @ path @ '' ('' @ e @ '')''"
| "show_gate (TooLarge path c) = ''baseline file is too large: it exceeds the '' @ show_nat c @ ''-byte cap ('' @ path @ '')''"
| "show_gate (Malformed d) = ''baseline file is malformed: '' @ d"

definition emit_then_gate ::
  "json_writer \<Rightarrow> (str \<Rightarrow> str + str) \<Rightarrow> run_report \<Rightarrow> report_format \<Rightarrow> f64 \<Rightarrow> str option \<Rightarrow> bool \<Rightarrow> bool
    \<Rightarrow> terminal \<Rightarrow> (emit_gate_error + gate_verdict) \<times> terminal" where
  "emit_then_gate jw read report format threshold baseline_path warn_only fail_on_catch t =
     (case write_out (render jw report format) t of
        (Err e, t) \<Rightarrow> (Err (EmitIo e), t)
      | (Ok _, t) \<Rightarrow>
          if \<not> fail_on_catch then (Ok Disabled, t)
          else (case (case baseline_path of Some p \<Rightarrow> baseline_from_file read p | None \<Rightarrow> Ok {}) of
            Err e \<Rightarrow> (Err (EmitGate e), t)
          | Ok baseline \<Rightarrow> (Ok (gate_exit_code report threshold baseline warn_only True), t)))"

definition gate_lines :: "str \<Rightarrow> str \<Rightarrow> bool \<Rightarrow> gating_finding list \<Rightarrow> f64 \<Rightarrow> terminal \<Rightarrow> terminal" where
  "gate_lines v label triggered findings threshold t =
     (let t = eprint (''jitgen: '' @ label @ '': '' @ show_nat (length findings)
                @ '' strong catch(es) at or above tp-probability '' @ show_f2 threshold @ '', not baselined:'') t;
          t = fold (\<lambda>f. eprint (''  - tp='' @ show_f2 (gf_tp_probability f) @ ''  '' @ safe_for_terminal (gf_fingerprint f) 1024)) findings t
      in if triggered
         then eprint (''jitgen: exit 3 (findings gate). Suppress a known catch by adding its fingerprint to a --baseline file (one per line), or re-run with --warn-only to keep it advisory. See ''
                @ TROUBLESHOOTING_URL v @ ''.'') t
         else t)"

definition print_gate_summary :: "str \<Rightarrow> gate_verdict \<Rightarrow> f64 \<Rightarrow> terminal \<Rightarrow> terminal" where
  "print_gate_summary v verdict threshold t =
     (case verdict of
        Disabled \<Rightarrow> t
      | Pass \<Rightarrow> t
      | Advisory _ \<Rightarrow>
          gate_lines v (''advisory '' @ DASH @ '' findings surfaced (--warn-only), exiting 0'') False (gate_findings verdict) threshold t
      | Triggered _ \<Rightarrow> gate_lines v ''findings gate tripped'' True (gate_findings verdict) threshold t)"

text \<open>The end of a run whose artifact is out: the notes and the verdict.\<close>

definition eprint_note :: "str option \<Rightarrow> terminal \<Rightarrow> terminal" where
  "eprint_note n t = (case n of Some line \<Rightarrow> eprint line t | None \<Rightarrow> t)"

definition finish_cmd :: "str \<Rightarrow> run_args \<Rightarrow> trusted_config \<Rightarrow> run_report \<Rightarrow> gate_verdict \<Rightarrow> terminal \<Rightarrow> nat \<times> terminal" where
  "finish_cmd v a trusted report verdict t =
     (let provider = tc_provider trusted;
          provider_was_mock = (pc_kind provider = ProviderMock \<or> \<not> pc_real_llm provider);
          is_harden = (rr_mode report = Harden);
          produced_output = (rr_accepted report \<noteq> [] \<or> rr_catches report \<noteq> []);
          t = eprint_note (mock_empty_run_hint v provider_was_mock is_harden produced_output) t;
          t = eprint_note (gate_modifiers_without_master_note v (rg_fail_on_catch a) (rg_warn_only a) (rg_baseline a \<noteq> None)) t;
          t = print_gate_summary v verdict (rg_fail_threshold a) t
      in (if is_failure verdict then 3 else 0, t))"

definition artifact_cmd ::
  "('oid, 'n, 'p) cli_host \<Rightarrow> run_args \<Rightarrow> trusted_config \<Rightarrow> run_report \<Rightarrow> 'p world \<Rightarrow> terminal
    \<Rightarrow> nat \<times> 'p world \<times> terminal" where
  "artifact_cmd ch a trusted report w t =
     (let rh = cl_run ch; v = cl_version ch; finish = finish_cmd v a trusted report in
      if rg_write a
      then (case land rh (rg_repo a) report w of
          (Err e, w) \<Rightarrow> (case fail v (''jitgen run: --write failed: '' @ show_orch e) t of (c, t) \<Rightarrow> (c, w, t))
        | (Ok written, w) \<Rightarrow>
            (case print_then
               (''jitgen: wrote '' @ show_nat (length written) @ '' test file(s) into the repo:'' @ [LF]
                @ concat (map (\<lambda>p. ''  '' @ safe_for_terminal p 512 @ [LF]) written)) (finish Disabled) t of
              (c, t) \<Rightarrow> (c, w, t)))
      else (case rg_patch_out a of
        Some out \<Rightarrow>
          (case host_write rh out (render (cl_json ch) report PatchFormat) w of
             (Err e, w) \<Rightarrow>
               (case fail v (''jitgen run: cannot write patch to '' @ from_utf8_lossy out @ '': '' @ e) t of (c, t) \<Rightarrow> (c, w, t))
           | (Ok _, w) \<Rightarrow>
               (case print_then (''jitgen: wrote patch to '' @ safe_for_terminal (from_utf8_lossy out) 512 @ [LF]) (finish Disabled) t of
                  (c, t) \<Rightarrow> (c, w, t)))
      | None \<Rightarrow>
          (case emit_then_gate (cl_json ch) (host_read rh w) report (format_from (rg_format a)) (rg_fail_threshold a) (rg_baseline a)
                  (rg_warn_only a) (rg_fail_on_catch a) t of
             (Err (EmitIo e), t) \<Rightarrow> (case fail v (''jitgen run: cannot write report: '' @ e) t of (c, t) \<Rightarrow> (c, w, t))
           | (Err (EmitGate e), t) \<Rightarrow> (case fail v (''jitgen run: '' @ show_gate e) t of (c, t) \<Rightarrow> (c, w, t))
           | (Ok verdict, t) \<Rightarrow> (case finish verdict t of (c, t) \<Rightarrow> (c, w, t)))))"

definition cmd_run ::
  "('oid, 'n, 'p) cli_host \<Rightarrow> (str \<Rightarrow> 's run_store) \<Rightarrow> run_args \<Rightarrow> 's \<Rightarrow> 'p world \<Rightarrow> terminal
    \<Rightarrow> nat \<times> 's \<times> 'p world \<times> terminal" where
  "cmd_run ch stores a s w t =
     (let rh = cl_run ch; v = cl_version ch in
      case resolve_trusted (rh_host rh) (run_flags a) (rg_repo a) (rh_var rh) of
        Err e \<Rightarrow> (case fail v (''jitgen run: '' @ show_orch e) t of (c, t) \<Rightarrow> (c, s, w, t))
      | Ok trusted \<Rightarrow>
     (case validate_output_rules (tc_mode trusted) (rg_write a) (rg_patch_out a \<noteq> None) of
        Err msg \<Rightarrow> (2, s, w, eprint (safe_for_terminal (''jitgen run: '' @ msg) ERROR_MSG_CAP) t)
      | Ok _ \<Rightarrow>
     (case run_jit_generation rh stores
             \<lparr>ro_repo = rg_repo a, ro_base = rg_base a, ro_head = rg_head a, ro_trusted = trusted\<rparr> s w of
        (Err e, s, w) \<Rightarrow> (case fail v (''jitgen run: '' @ show_orch e) t of (c, t) \<Rightarrow> (c, s, w, t))
      | (Ok report, s, w) \<Rightarrow>
          (case artifact_cmd ch a trusted report w t of (c, w, t) \<Rightarrow> (c, s, w, t)))))"

definition analyze_flags :: "analyze_args \<Rightarrow> trusted_flags" where
  "analyze_flags a =
     default_flags\<lparr>fl_config_file := ag_config a, fl_mode := map_option mode_from (ag_mode a),
       fl_strategy := map_option strategy_from (ag_strategy a), fl_state_dir := ag_state_dir a, fl_max_tests := ag_max_tests a\<rparr>"

definition succeed :: "terminal \<Rightarrow> nat \<times> terminal" where "succeed t = (0, t)"

definition cmd_analyze :: "('oid, 'n, 'p) cli_host \<Rightarrow> analyze_args \<Rightarrow> 'p world \<Rightarrow> terminal \<Rightarrow> nat \<times> terminal" where
  "cmd_analyze ch a w t =
     (let rh = cl_run ch; v = cl_version ch in
      case resolve_trusted (rh_host rh) (analyze_flags a) (ag_repo a) (rh_var rh) of
        Err e \<Rightarrow> fail v (''jitgen analyze: '' @ show_orch e) t
      | Ok trusted \<Rightarrow>
     (case analyze rh \<lparr>ao_repo = ag_repo a, ao_base = ag_base a, ao_head = ag_head a, ao_trusted = trusted\<rparr> w of
        Err e \<Rightarrow> fail v (''jitgen analyze: '' @ show_orch e) t
      | Ok report \<Rightarrow>
          (case ag_format a of
             AfJson \<Rightarrow>
               (case cl_plan_json ch report of
                  Ok s \<Rightarrow> print_then (s @ [LF]) succeed t
                | Err e \<Rightarrow> fail v (''jitgen analyze: cannot serialize: '' @ e) t)
           | AfHuman \<Rightarrow> print_then (render_plan report) succeed t)))"

definition print_report :: "('oid, 'n, 'p) cli_host \<Rightarrow> str \<Rightarrow> format_arg \<Rightarrow> orch_error + run_report \<Rightarrow> terminal \<Rightarrow> nat \<times> terminal" where
  "print_report ch command format res t =
     (case res of
        Ok report \<Rightarrow> print_then (render (cl_json ch) report (format_from format)) succeed t
      | Err e \<Rightarrow> fail (cl_version ch) (''jitgen '' @ command @ '': '' @ show_orch e) t)"

definition cmd_resume ::
  "('oid, 'n, 'p) cli_host \<Rightarrow> (str \<Rightarrow> 's run_store) \<Rightarrow> stored_args \<Rightarrow> 's \<Rightarrow> 'p world \<Rightarrow> terminal
    \<Rightarrow> nat \<times> 's \<times> 'p world \<times> terminal" where
  "cmd_resume ch stores a s w t =
     (case resume_run (cl_run ch) stores (state_root_for (cl_run ch) (sg_state_dir a)) (sg_run_id a) s w of
        (res, s, w) \<Rightarrow> (case print_report ch ''resume'' (sg_format a) res t of (c, t) \<Rightarrow> (c, s, w, t)))"

definition cmd_report ::
  "('oid, 'n, 'p) cli_host \<Rightarrow> (str \<Rightarrow> 's run_store) \<Rightarrow> stored_args \<Rightarrow> 's \<Rightarrow> terminal \<Rightarrow> nat \<times> 's \<times> terminal" where
  "cmd_report ch stores a s t =
     (case load_report (cl_run ch) stores (state_root_for (cl_run ch) (sg_state_dir a)) (sg_run_id a) s of
        (res, s) \<Rightarrow> (case print_report ch ''report'' (sg_format a) res t of (c, t) \<Rightarrow> (c, s, t)))"

definition doctor_trusted_flags :: "doctor_args \<Rightarrow> trusted_flags" where
  "doctor_trusted_flags a =
     default_flags\<lparr>fl_config_file := dg_config a, fl_real_llm := flag (dg_real_llm a \<or> dg_require_real_llm a)\<rparr>"

definition doctor_ready :: "bool \<Rightarrow> strict_verdict \<Rightarrow> bool" where
  "doctor_ready prerequisites strict \<longleftrightarrow> prerequisites \<and> sv_failures strict = []"

definition cmd_doctor :: "('oid, 'n, 'p) cli_host \<Rightarrow> doctor_args \<Rightarrow> terminal \<Rightarrow> nat \<times> terminal" where
  "cmd_doctor ch a t =
     (let rh = cl_run ch; v = cl_version ch; var = le_var (rh_llm rh) in
      case resolve_trusted (rh_host rh) (doctor_trusted_flags a) ''.'' (rh_var rh) of
        Err e \<Rightarrow> fail v (''jitgen doctor: '' @ show_orch e) t
      | Ok resolved \<Rightarrow>
          (let provider = tc_provider resolved;
               report = run_doctor (rh_version rh) (cl_prober ch) (re_before (rh_env rh)) (cl_os ch) (default_state_root rh)
                 (describe_provider var provider);
               strict = strict_verdict_of report
                 \<lparr>sr_sandbox = dg_require_sandbox a, sr_real_llm = dg_require_real_llm a, sr_unsafe_local = dg_unsafe_local_execution a\<rparr>
                 (real_llm_ready var provider);
               conclude = (\<lambda>t. (if doctor_ready (prerequisites_ok report) strict then 0 else 1,
                 fold (\<lambda>f. eprint (''jitgen doctor: NOT READY: '' @ f)) (sv_failures strict)
                   (fold (\<lambda>n. eprint (''jitgen doctor: note: '' @ n)) (sv_notes strict) t)))
           in case dg_format a of
                AfJson \<Rightarrow>
                  (case cl_doctor_json ch report of
                     Ok s \<Rightarrow> print_then (s @ [LF]) conclude t
                   | Err e \<Rightarrow> fail v (''jitgen doctor: '' @ e) t)
              | AfHuman \<Rightarrow> print_then (render_doctor report) conclude t))"

text \<open>Dispatch. The completion scripts are not part of the model, and the demo is that of \<open>Demo\<close>.\<close>

datatype cli_command = CmdRun run_args | CmdAnalyze analyze_args | CmdResume stored_args | CmdReport stored_args
  | CmdDoctor doctor_args

definition run_command ::
  "('oid, 'n, 'p) cli_host \<Rightarrow> (str \<Rightarrow> 's run_store) \<Rightarrow> cli_command \<Rightarrow> 's \<Rightarrow> 'p world \<Rightarrow> terminal
    \<Rightarrow> nat \<times> 's \<times> 'p world \<times> terminal" where
  "run_command ch stores command s w t =
     (case command of
        CmdRun a \<Rightarrow> cmd_run ch stores a s w t
      | CmdAnalyze a \<Rightarrow> (case cmd_analyze ch a w t of (c, t) \<Rightarrow> (c, s, w, t))
      | CmdResume a \<Rightarrow> cmd_resume ch stores a s w t
      | CmdReport a \<Rightarrow> (case cmd_report ch stores a s t of (c, s, t) \<Rightarrow> (c, s, w, t))
      | CmdDoctor a \<Rightarrow> (case cmd_doctor ch a t of (c, t) \<Rightarrow> (c, s, w, t)))"

section \<open>Lemmas\<close>

lemma fail_code [simp]: "fst (fail v msg t) = 1"
  by (simp add: fail_def)

lemma eprint_out [simp]: "tm_out (eprint l t) = tm_out t"
  by (simp add: eprint_def)

lemma fold_eprint_out: "tm_out (fold (\<lambda>x. eprint (f x)) xs t) = tm_out t"
  by (induction xs arbitrary: t) simp_all

lemma fail_out [simp]: "tm_out (snd (fail v msg t)) = tm_out t"
  by (simp add: fail_def)

lemma gate_summary_out [simp]: "tm_out (print_gate_summary v verdict thr t) = tm_out t"
  by (simp add: print_gate_summary_def gate_lines_def Let_def fold_eprint_out split: gate_verdict.split)

lemma finish_cmd_out: "tm_out (snd (finish_cmd v a trusted r verdict t)) = tm_out t"
  by (simp add: finish_cmd_def Let_def eprint_note_def split: option.split)

lemma finish_cmd_code: "fst (finish_cmd v a trusted r verdict t) = (if is_failure verdict then 3 else 0)"
  by (simp add: finish_cmd_def Let_def)

text \<open>What the gate looks at, and the catches it stops at.\<close>

definition loaded_baseline :: "(str \<Rightarrow> str + str) \<Rightarrow> str option \<Rightarrow> gate_error + str set" where
  "loaded_baseline read path = (case path of Some p \<Rightarrow> baseline_from_file read p | None \<Rightarrow> Ok {})"

definition stops_at :: "f64 \<Rightarrow> str set \<Rightarrow> catch_report \<Rightarrow> bool" where
  "stops_at threshold baseline c \<longleftrightarrow>
     cr_decision c = StrongCatch \<and> fle threshold (cr_tp_probability c) \<and> catch_fingerprint c \<notin> baseline"

lemma gate_stops:
  "is_failure (gate_exit_code r thr b warn True) \<longleftrightarrow> \<not> warn \<and> list_ex (stops_at thr b) (rr_catches r)"
  by (auto simp: gate_exit_code_def Let_def stops_at_def baseline_contains_def filter_empty_conv list_ex_iff)

text \<open>The codes of a command whose gate is off: success, an error, a panic.\<close>

definition plain_code :: "nat \<Rightarrow> bool" where
  "plain_code c \<longleftrightarrow> c = 0 \<or> c = 1 \<or> c = PANIC"

lemma plain_codes [simp]: "plain_code 0" "plain_code (Suc 0)" "plain_code PANIC" "\<not> plain_code 2" "\<not> plain_code 3"
  by (simp_all add: plain_code_def PANIC_def)

lemma print_finish_code [simp]: "plain_code (fst (print_then s (finish_cmd v a trusted r Disabled) t))"
  by (cases "tm_fault t") (simp_all add: print_then_def write_out_def finish_cmd_code)

lemma landed_code:
  assumes "rg_write a \<or> rg_patch_out a \<noteq> None"
  shows "plain_code (fst (artifact_cmd ch a trusted r w t))"
proof (cases "rg_write a")
  case True
  obtain res w' where "land (cl_run ch) (rg_repo a) r w = (res, w')" by (meson surj_pair)
  then show ?thesis using True
    by (cases res) (simp_all add: artifact_cmd_def Let_def case_prod_unfold)
next
  case False
  then obtain out where out: "rg_patch_out a = Some out" using assms by auto
  obtain res w' where "host_write (cl_run ch) out (render (cl_json ch) r PatchFormat) w = (res, w')" by (meson surj_pair)
  then show ?thesis using False out
    by (cases res) (simp_all add: artifact_cmd_def Let_def case_prod_unfold)
qed

lemma printed_artifact:
  assumes "\<not> rg_write a" "rg_patch_out a = None"
  shows "case artifact_cmd ch a trusted r w t of (ec, w', t') \<Rightarrow> w' = w \<and>
       (if tm_fault t \<noteq> None then ec = 1 \<and> tm_out t' = tm_out t
        else tm_out t' = tm_out t @ render (cl_json ch) r (format_from (rg_format a)) \<and>
          (if \<not> rg_fail_on_catch a then ec = 0
           else case loaded_baseline (host_read (cl_run ch) w) (rg_baseline a) of
             Err _ \<Rightarrow> ec = 1
           | Ok b \<Rightarrow> ec = (if \<not> rg_warn_only a \<and> list_ex (stops_at (rg_fail_threshold a) b) (rr_catches r) then 3 else 0)))"
proof (cases "tm_fault t")
  case (Some e)
  then show ?thesis using assms
    by (simp add: artifact_cmd_def Let_def emit_then_gate_def write_out_def case_prod_unfold)
next
  case None
  note art = assms None artifact_cmd_def Let_def emit_then_gate_def write_out_def case_prod_unfold loaded_baseline_def [symmetric]
  show ?thesis
  proof (cases "rg_fail_on_catch a")
    case False
    then show ?thesis by (simp add: art finish_cmd_code finish_cmd_out)
  next
    case True
    then show ?thesis
      by (cases "loaded_baseline (host_read (cl_run ch) w) (rg_baseline a)")
        (simp_all add: art finish_cmd_code finish_cmd_out gate_stops del: split_paired_all)
  qed
qed

text \<open>A run whose artifact goes to a file or into the repository.\<close>

definition names_output :: "run_args \<Rightarrow> bool" where
  "names_output a \<longleftrightarrow> rg_write a \<or> rg_patch_out a \<noteq> None"

lemma run_outcome:
  "case cmd_run ch stores a s w t of (ec, s', w', t') \<Rightarrow>
     (case resolve_trusted (rh_host (cl_run ch)) (run_flags a) (rg_repo a) (rh_var (cl_run ch)) of
        Err _ \<Rightarrow> ec = 1 \<and> s' = s \<and> w' = w \<and> tm_out t' = tm_out t
      | Ok trusted \<Rightarrow>
          if tc_mode trusted = Catch \<and> (rg_write a \<or> rg_patch_out a \<noteq> None)
          then ec = 2 \<and> s' = s \<and> w' = w \<and> tm_out t' = tm_out t
          else (case run_jit_generation (cl_run ch) stores
                  \<lparr>ro_repo = rg_repo a, ro_base = rg_base a, ro_head = rg_head a, ro_trusted = trusted\<rparr> s w of
             (Err _, s1, w1) \<Rightarrow> ec = 1 \<and> s' = s1 \<and> w' = w1 \<and> tm_out t' = tm_out t
           | (Ok r, s1, w1) \<Rightarrow> s' = s1 \<and>
               (if rg_write a \<or> rg_patch_out a \<noteq> None then ec \<noteq> 2 \<and> ec \<noteq> 3
                else w' = w1 \<and>
                  (if tm_fault t \<noteq> None then ec = 1 \<and> tm_out t' = tm_out t
                   else tm_out t' = tm_out t @ render (cl_json ch) r (format_from (rg_format a)) \<and>
                     (if \<not> rg_fail_on_catch a then ec = 0
                      else case loaded_baseline (host_read (cl_run ch) w1) (rg_baseline a) of
                        Err _ \<Rightarrow> ec = 1
                      | Ok b \<Rightarrow>
                          ec = (if \<not> rg_warn_only a \<and> list_ex (stops_at (rg_fail_threshold a) b) (rr_catches r) then 3 else 0))))))"
proof (cases "resolve_trusted (rh_host (cl_run ch)) (run_flags a) (rg_repo a) (rh_var (cl_run ch))")
  case (Inl e)
  then show ?thesis by (simp add: cmd_run_def Let_def case_prod_unfold)
next
  case (Inr trusted)
  let ?o = "\<lparr>ro_repo = rg_repo a, ro_base = rg_base a, ro_head = rg_head a, ro_trusted = trusted\<rparr>"
  obtain res s1 w1 where run: "run_jit_generation (cl_run ch) stores ?o s w = (res, s1, w1)" by (rule prod_cases3)
  show ?thesis
  proof (cases "tc_mode trusted = Catch \<and> (rg_write a \<or> rg_patch_out a \<noteq> None)")
    case True
    then show ?thesis using Inr by (simp add: cmd_run_def Let_def validate_output_rules_def)
  next
    case allowed: False
    then have rule: "validate_output_rules (tc_mode trusted) (rg_write a) (rg_patch_out a \<noteq> None) = Ok ()"
      unfolding validate_output_rules_def by meson
    show ?thesis
    proof (cases res)
      case (Inl e)
      then show ?thesis using \<open>resolve_trusted _ _ _ _ = _\<close> run allowed rule
        by (simp add: cmd_run_def Let_def case_prod_unfold del: not_None_eq)
    next
      case (Inr r)
      obtain ec w' t' where art: "artifact_cmd ch a trusted r w1 t = (ec, w', t')" by (rule prod_cases3)
      have "cmd_run ch stores a s w t = (ec, s1, w', t')"
        using \<open>resolve_trusted _ _ _ _ = _\<close> run Inr art rule by (simp add: cmd_run_def Let_def del: not_None_eq)
      moreover have "ec \<noteq> 2 \<and> ec \<noteq> 3" if "rg_write a \<or> rg_patch_out a \<noteq> None"
        using landed_code [OF that, where ch = ch and trusted = trusted and r = r and w = w1 and t = t] art by (auto simp: plain_code_def PANIC_def)
      moreover have no: "(tc_mode trusted = Catch \<and> (rg_write a \<or> rg_patch_out a \<noteq> None)) = False" using allowed by blast
      ultimately show ?thesis
        using \<open>resolve_trusted _ _ _ _ = _\<close> run Inr printed_artifact [where a = a and ch = ch and trusted = trusted and r = r and w = w1 and t = t, unfolded art]
        by (simp add: no del: not_None_eq)
    qed
  qed
qed

section \<open>Properties\<close>

text \<open>C32: What the exit code of \<open>jitgen run\<close> says. Code 2 is the effective catch mode with \<open>--write\<close> or
  \<open>--patch-out\<close>, wherever the mode was set, and then nothing has run. Otherwise an error of the session is code 1 with
  nothing on the standard output. On the report path the repository is as the session left it, and the whole report is on
  the standard output before the gate decides: with a baseline that cannot be loaded the code is 1, and it is 3
  exactly when the gate is on, not advisory, and a strong catch at or above the threshold is not in the baseline.
  With \<open>--write\<close> or \<open>--patch-out\<close> the gate never fails the run.\<close>

theorem run_exit_code:
  "case cmd_run ch stores a s w t of (ec, s', w', t') \<Rightarrow>
     (case resolve_trusted (rh_host (cl_run ch)) (run_flags a) (rg_repo a) (rh_var (cl_run ch)) of
        Err _ \<Rightarrow> ec = 1 \<and> s' = s \<and> w' = w \<and> tm_out t' = tm_out t
      | Ok trusted \<Rightarrow>
          if tc_mode trusted = Catch \<and> names_output a
          then ec = 2 \<and> s' = s \<and> w' = w \<and> tm_out t' = tm_out t
          else (case run_jit_generation (cl_run ch) stores
                  \<lparr>ro_repo = rg_repo a, ro_base = rg_base a, ro_head = rg_head a, ro_trusted = trusted\<rparr> s w of
             (Err _, s1, w1) \<Rightarrow> ec = 1 \<and> s' = s1 \<and> w' = w1 \<and> tm_out t' = tm_out t
           | (Ok r, s1, w1) \<Rightarrow> s' = s1 \<and>
               (if names_output a then ec \<noteq> 2 \<and> ec \<noteq> 3
                else w' = w1 \<and>
                  (if tm_fault t \<noteq> None then ec = 1 \<and> tm_out t' = tm_out t
                   else tm_out t' = tm_out t @ render (cl_json ch) r (format_from (rg_format a)) \<and>
                     (if \<not> rg_fail_on_catch a then ec = 0
                      else case loaded_baseline (host_read (cl_run ch) w1) (rg_baseline a) of
                        Err _ \<Rightarrow> ec = 1
                      | Ok b \<Rightarrow>
                          ec = (if \<not> rg_warn_only a \<and> list_ex (stops_at (rg_fail_threshold a) b) (rr_catches r) then 3 else 0))))))"
  unfolding names_output_def by (rule run_outcome)

text \<open>A threshold the parser accepts is a number of the unit interval, so that no run has a gate that cannot trip.\<close>

lemma fail_threshold_range:
  "parse_fail_threshold rnd s = Ok v \<Longrightarrow> is_finite v \<and> fle fzero v \<and> fle v fone"
  by (auto simp: parse_fail_threshold_def split: option.splits if_splits)

text \<open>A command that fails prints the error on one line without controls, whatever the message holds, and the advice.\<close>

lemma fail_lines:
  assumes "utf8 msg"
  shows "\<exists>line. tm_err (snd (fail v msg t)) = tm_err t @ line @ [LF] @ user_hint v msg @ [LF]
    \<and> clean line \<and> set line \<inter> {LF, TAB, CR} = {}"
  using sanitize_line_clean [OF assms, of ERROR_MSG_CAP] by (auto simp: fail_def eprint_def safe_for_terminal_def)

end
