(* ===== verification/Demo.thy ===== *)
theory Demo
  imports Cli
begin

text \<open>
  \<open>jitgen-orchestrator/src/demo.rs\<close> and the demo part of \<open>cli.rs\<close>: the seeded regression, its recorded answer, the run over
  it and the account that is printed. Making the repository (libgit2) and starting \<open>cargo\<close> are parameters.
\<close>

section \<open>The code\<close>

subsection \<open>The fixtures\<close>

definition PRODUCTION_PATH :: str where
  "PRODUCTION_PATH =
     ''math.sh''"

definition MATH_SH_BASE :: str where
  "MATH_SH_BASE =
     ''# add: sum two integers'' @ [LF] @ ''add() { echo $(( $1 + $2 )); }'' @ [LF]"

definition MATH_SH_HEAD :: str where
  "MATH_SH_HEAD =
     ''# add: sum two integers'' @ [LF] @ ''add() { echo $(( $1 - $2 )); }'' @ [LF]"

definition DEMO_JITGEN_YAML :: str where
  "DEMO_JITGEN_YAML =
     ''id: demo'' @ [LF] @ ''extensions: [sh]'' @ [LF] @ ''argv: ['' @ [CHR 0x22] @ ''/bin/sh'' @ [CHR 0x22] @ '', '' @ [CHR 0x22] @ ''-c'' @ [CHR 0x22]
     @ '', '' @ [CHR 0x22] @ ''n=0; for t in jitgen-tests/*.test.txt; do [ -e '' @ [CHR 0x5C] @ [CHR 0x22] @ ''$t'' @ [CHR 0x5C] @ [CHR 0x22]
     @ '' ] || continue; n=$((n+1)); /bin/sh '' @ [CHR 0x5C] @ [CHR 0x22] @ ''$t'' @ [CHR 0x5C] @ [CHR 0x22] @ '' || exit 1; done; [ '' @ [CHR 0x5C]
     @ [CHR 0x22] @ ''$n'' @ [CHR 0x5C] @ [CHR 0x22] @ '' -gt 0 ] || { echo '' @ [CHR 0x27] @ ''jitgen-demo: no generated test was found to run''
     @ [CHR 0x27] @ '' >&2; exit 2; }'' @ [CHR 0x22] @ '']'' @ [LF]"

definition RECORDED_RESPONSE :: str where
  "RECORDED_RESPONSE =
     ''Here is a focused test for the changed '' @ [CHR 0x60] @ ''add'' @ [CHR 0x60] @ '' function:'' @ [LF] @ [LF] @ [CHR 0x60] @ [CHR 0x60] @ [CHR 0x60]
     @ ''sh'' @ [LF] @ ''# jitgen-generated test for add() (replayed from a recorded fixture)'' @ [LF] @ ''. ./math.sh'' @ [LF] @ ''got='' @ [CHR 0x22]
     @ ''$(add 2 3)'' @ [CHR 0x22] @ [LF] @ ''if [ '' @ [CHR 0x22] @ ''$got'' @ [CHR 0x22] @ '' != '' @ [CHR 0x22] @ ''5'' @ [CHR 0x22] @ '' ]; then''
     @ [LF] @ ''  echo '' @ [CHR 0x22] @ ''assertion failed: add(2,3) expected 5 but got $got'' @ [CHR 0x22] @ [LF] @ ''  exit 1'' @ [LF] @ ''fi'' @ [LF]
     @ ''echo '' @ [CHR 0x22] @ ''ok: add(2,3) == 5'' @ [CHR 0x22] @ [LF] @ [CHR 0x60] @ [CHR 0x60] @ [CHR 0x60] @ [LF]"

definition RUST_PRODUCTION_PATH :: str where
  "RUST_PRODUCTION_PATH =
     ''src/lib.rs''"

definition CARGO_TOML :: str where
  "CARGO_TOML =
     ''[package]'' @ [LF] @ ''name = '' @ [CHR 0x22] @ ''jitgen_demo'' @ [CHR 0x22] @ [LF] @ ''version = '' @ [CHR 0x22] @ ''0.0.0'' @ [CHR 0x22] @ [LF]
     @ ''edition = '' @ [CHR 0x22] @ ''2021'' @ [CHR 0x22] @ [LF] @ ''publish = false'' @ [LF]"

definition LIB_RS_BASE :: str where
  "LIB_RS_BASE =
     ''//! jitgen demo crate (offline rust fixture).'' @ [LF] @ ''pub fn add(a: i64, b: i64) -> i64 {'' @ [LF] @ ''    a + b'' @ [LF] @ ''}'' @ [LF]"

definition LIB_RS_HEAD :: str where
  "LIB_RS_HEAD =
     ''//! jitgen demo crate (offline rust fixture).'' @ [LF] @ ''pub fn add(a: i64, b: i64) -> i64 {'' @ [LF] @ ''    a - b'' @ [LF] @ ''}'' @ [LF]"

definition RECORDED_RUST_RESPONSE :: str where
  "RECORDED_RUST_RESPONSE =
     ''Here is a focused integration test for the changed '' @ [CHR 0x60] @ ''add'' @ [CHR 0x60] @ '' function:'' @ [LF] @ [LF] @ [CHR 0x60] @ [CHR 0x60]
     @ [CHR 0x60] @ ''rust'' @ [LF] @ ''// jitgen-generated test for add() (replayed from a recorded fixture)'' @ [LF] @ ''#[test]'' @ [LF]
     @ ''fn add_two_and_three_is_five() {'' @ [LF] @ ''    let got = jitgen_demo::add(2, 3);'' @ [LF] @ ''    assert_eq!(got, 5, '' @ [CHR 0x22]
     @ ''add(2,3) expected 5 but got {}'' @ [CHR 0x22] @ '', got);'' @ [LF] @ ''}'' @ [LF] @ [CHR 0x60] @ [CHR 0x60] @ [CHR 0x60] @ [LF]"

datatype demo_lang = DemoSh | DemoRust

record demo_outcome =
  do_report :: run_report
  do_kept_repo :: "str option"
  do_base_short :: str
  do_head_short :: str
  do_production_path :: str
  do_regression_diff :: str
  do_lang :: demo_lang

definition OID_DISPLAY_CHARS :: nat where "OID_DISPLAY_CHARS = 12"

definition short_oid :: "str \<Rightarrow> str" where
  "short_oid oid = concat (take OID_DISPLAY_CHARS (chars oid))"

definition regression_diff :: "str \<Rightarrow> str \<Rightarrow> str" where
  "regression_diff base head =
     (let base_lines = lines base; head_lines = lines head in
      join [LF] (map (\<lambda>b. ''- '' @ b) (filter (\<lambda>b. b \<notin> set head_lines) base_lines)
                 @ map (\<lambda>h. ''+ '' @ h) (filter (\<lambda>h. h \<notin> set base_lines) head_lines)))"

subsection \<open>The host\<close>

text \<open>
  \<open>dm_seed\<close> makes a repository of a directory with one commit for each entry, the files and the message, and gives the ids of
  the two commits as text; \<open>dm_cargo\<close> is the status of \<open>cargo --version\<close> with these extra variables: its success and display.
\<close>

record ('oid, 'n, 'p) demo_host =
  dm_run :: "('oid, 'n, 'p) run_host"
  dm_unix :: bool
  dm_seed :: "str \<Rightarrow> ((str \<times> str) list \<times> str) list \<Rightarrow> 'p world \<Rightarrow> (orch_error + str \<times> str) \<times> 'p world"
  dm_var_os :: "str \<Rightarrow> str option"
  dm_cargo :: "(str \<times> str) list \<Rightarrow> str + bool \<times> str"

definition demo_temp_path :: "('oid, 'n, 'p) run_host \<Rightarrow> str \<Rightarrow> nat \<Rightarrow> str" where
  "demo_temp_path rh tag n =
     path_join (rh_temp_dir rh) (''jitgen-demo-'' @ tag @ ''-'' @ show_nat (rh_pid rh) @ ''-'' @ show_nat n)"

text \<open>Dropping a \<open>TempDir\<close>.\<close>

definition drop_temp :: "('oid, 'n, 'p) run_host \<Rightarrow> str \<Rightarrow> 'p world \<Rightarrow> 'p world" where
  "drop_temp rh path w =
     (let fs = xw_fs (fst w); cs = kernel_components path in
      case (last_name cs, resolve_parent fs (re_cwd (rh_env rh)) cs) of
        (Some s, Ok dir) \<Rightarrow> set_fs (remove_dir_all (re_stuck (rh_env rh)) dir s fs) w
      | _ \<Rightarrow> w)"

definition temp_new :: "('oid, 'n, 'p) run_host \<Rightarrow> str \<Rightarrow> nat \<Rightarrow> 'p world \<Rightarrow> (orch_error + str) \<times> 'p world" where
  "temp_new rh tag n w =
     (let path = demo_temp_path rh tag n; w = drop_temp rh path w in
      case create_dir_all (xw_fs (fst w)) (re_cwd (rh_env rh)) (kernel_components path) of
        (Err e, fs) \<Rightarrow> (Err (OrIo (show_io e)), set_fs fs w)
      | (Ok _, fs) \<Rightarrow> (Ok path, set_fs fs w))"

text \<open>A scope that owns a temporary directory, which it leaves behind only after a success and when it is to be kept.\<close>

definition with_temp ::
  "('oid, 'n, 'p) run_host \<Rightarrow> str \<Rightarrow> nat \<Rightarrow> bool \<Rightarrow> (str \<Rightarrow> 's \<Rightarrow> 'p world \<Rightarrow> (orch_error + 'a) \<times> 's \<times> 'p world)
    \<Rightarrow> 's \<Rightarrow> 'p world \<Rightarrow> (orch_error + 'a) \<times> 's \<times> 'p world" where
  "with_temp rh tag n keep body s w =
     (case temp_new rh tag n w of
        (Err e, w) \<Rightarrow> (Err e, s, w)
      | (Ok path, w) \<Rightarrow>
          (case body path s w of
             (Ok r, s, w) \<Rightarrow> (Ok r, s, if keep then w else drop_temp rh path w)
           | (Err e, s, w) \<Rightarrow> (Err e, s, drop_temp rh path w)))"

subsection \<open>The demo\<close>

definition demo_trusted :: "str \<Rightarrow> (str \<times> str) list \<Rightarrow> trusted_config" where
  "demo_trusted state_dir env_set =
     default_trusted\<lparr>tc_mode := Catch, tc_strategy := DodgyDiff, tc_sandbox_backend := BackendLocal, tc_unsafe_local_execution := True,
       tc_state_dir := Some (from_utf8_lossy state_dir), tc_env_set_extra := env_set\<rparr>"

definition finalize_kept_repo ::
  "('oid, 'n, 'p) run_host \<Rightarrow> bool \<Rightarrow> str \<Rightarrow> run_report \<Rightarrow> 'p world \<Rightarrow> (orch_error + str option) \<times> 'p world" where
  "finalize_kept_repo rh keep repo_dir report w =
     (if \<not> keep then (Ok None, w)
      else case rr_catches report of
        [] \<Rightarrow> (Ok (Some repo_dir), w)
      | c # _ \<Rightarrow>
          (case write_file (repo_root rh repo_dir w) (cr_path c) (cr_source c) (xw_fs (fst w)) of
             (Err e, fs) \<Rightarrow> (Err e, set_fs fs w)
           | (Ok _, fs) \<Rightarrow> (Ok (Some repo_dir), set_fs fs w)))"

text \<open>A fixture: its commits, the production file with its two contents, and the recorded answer.\<close>

record demo_fixture =
  fx_lang :: demo_lang
  fx_commits :: "((str \<times> str) list \<times> str) list"
  fx_path :: str
  fx_before :: str
  fx_after :: str
  fx_answer :: str

definition HEAD_MESSAGE :: str where "HEAD_MESSAGE = ''regress: add() subtracts instead of summing''"

definition sh_fixture :: demo_fixture where
  "sh_fixture =
     \<lparr>fx_lang = DemoSh,
      fx_commits = [([(''.jitgen.yaml'', DEMO_JITGEN_YAML), (PRODUCTION_PATH, MATH_SH_BASE)], ''seed: correct add()''),
        ([(PRODUCTION_PATH, MATH_SH_HEAD)], HEAD_MESSAGE)],
      fx_path = PRODUCTION_PATH, fx_before = MATH_SH_BASE, fx_after = MATH_SH_HEAD, fx_answer = RECORDED_RESPONSE\<rparr>"

definition rust_fixture :: demo_fixture where
  "rust_fixture =
     \<lparr>fx_lang = DemoRust,
      fx_commits = [([(''Cargo.toml'', CARGO_TOML), (RUST_PRODUCTION_PATH, LIB_RS_BASE)], ''seed: correct add()''),
        ([(RUST_PRODUCTION_PATH, LIB_RS_HEAD)], HEAD_MESSAGE)],
      fx_path = RUST_PRODUCTION_PATH, fx_before = LIB_RS_BASE, fx_after = LIB_RS_HEAD, fx_answer = RECORDED_RUST_RESPONSE\<rparr>"

text \<open>Seeding, the run with the recorded provider, and what is shown of it.\<close>

definition run_fixture ::
  "('oid, 'n, 'p) demo_host \<Rightarrow> (str \<Rightarrow> 's run_store) \<Rightarrow> demo_fixture \<Rightarrow> bool \<Rightarrow> str \<Rightarrow> str \<Rightarrow> (str \<times> str) list
    \<Rightarrow> 's \<Rightarrow> 'p world \<Rightarrow> (orch_error + demo_outcome) \<times> 's \<times> 'p world" where
  "run_fixture dm stores fx keep repo_dir state_dir env_set s w =
     (case dm_seed dm repo_dir (fx_commits fx) w of
        (Err e, w) \<Rightarrow> (Err e, s, w)
      | (Ok (base, head), w) \<Rightarrow>
          (case run_jit_generation_inner (dm_run dm) stores
                  \<lparr>ro_repo = repo_dir, ro_base = base, ro_head = head, ro_trusted = demo_trusted state_dir env_set\<rparr>
                  (Some (recorded_generate [fx_answer fx])) s w of
             (Err e, s, w) \<Rightarrow> (Err e, s, w)
           | (Ok report, s, w) \<Rightarrow>
               (case finalize_kept_repo (dm_run dm) keep repo_dir report w of
                  (Err e, w) \<Rightarrow> (Err e, s, w)
                | (Ok kept, w) \<Rightarrow>
                    (Ok \<lparr>do_report = report, do_kept_repo = kept, do_base_short = short_oid base, do_head_short = short_oid head,
                       do_production_path = fx_path fx, do_regression_diff = regression_diff (fx_before fx) (fx_after fx),
                       do_lang = fx_lang fx\<rparr>, s, w))))"

definition run_sh_demo ::
  "('oid, 'n, 'p) demo_host \<Rightarrow> (str \<Rightarrow> 's run_store) \<Rightarrow> bool \<Rightarrow> 's \<Rightarrow> 'p world \<Rightarrow> (orch_error + demo_outcome) \<times> 's \<times> 'p world" where
  "run_sh_demo dm stores keep =
     with_temp (dm_run dm) ''repo'' 0 keep (\<lambda>repo_dir.
       with_temp (dm_run dm) ''state'' 1 False (\<lambda>state_dir.
         run_fixture dm stores sh_fixture keep repo_dir state_dir []))"

text \<open>The environment of the Rust demo: the variables by \<open>var_os\<close>, the paths made canonical.\<close>

definition rust_demo_unavailable :: "str \<Rightarrow> orch_error" where
  "rust_demo_unavailable d =
     OrInvalid ''rust-demo'' (d @ ''. The '' @ quote_var ''--lang rust'' @ '' demo needs a local rust toolchain; run ''
       @ quote_var ''jitgen demo'' @ '' (the default /bin/sh demo) which needs no toolchain.'')"

definition abs_string :: "str \<Rightarrow> orch_error + str" where
  "abs_string p =
     (if \<not> is_absolute p then Err (rust_demo_unavailable (''toolchain path '' @ from_utf8_lossy p @ '' is not absolute''))
      else Ok (from_utf8_lossy p))"

definition canonical_home :: "('oid, 'n, 'p) run_host \<Rightarrow> str \<Rightarrow> str \<Rightarrow> str \<Rightarrow> 'p world \<Rightarrow> orch_error + str" where
  "canonical_home rh name advice path w =
     (case canonicalize (xw_fs (fst w)) (re_cwd (rh_env rh)) path of
        Err e \<Rightarrow> Err (rust_demo_unavailable (name @ '' '' @ from_utf8_lossy path @ '' is not accessible ('' @ show_io e @ '')'' @ advice))
      | Ok loc \<Rightarrow> Ok (path_of loc))"

definition discover_rust_env ::
  "('oid, 'n, 'p) demo_host \<Rightarrow> str \<Rightarrow> 'p world \<Rightarrow> orch_error + (str \<times> str) list" where
  "discover_rust_env dm cargo_home_fallback w =
     (let rh = dm_run dm; var = dm_var_os dm in
      case (case var ''RUSTUP_HOME'' of Some p \<Rightarrow> Some p | None \<Rightarrow> map_option (\<lambda>h. path_join h ''.rustup'') (var ''HOME'')) of
        None \<Rightarrow> Err (rust_demo_unavailable ''cannot determine RUSTUP_HOME (set RUSTUP_HOME or HOME)'')
      | Some rustup_raw \<Rightarrow>
     (case canonical_home rh ''RUSTUP_HOME'' ('' '' @ DASH @ '' install rustup, or set RUSTUP_HOME'') rustup_raw w of
        Err e \<Rightarrow> Err e
      | Ok rustup_home \<Rightarrow>
     (case canonical_home rh ''CARGO_HOME'' [] (case var ''CARGO_HOME'' of Some p \<Rightarrow> p | None \<Rightarrow> cargo_home_fallback) w of
        Err e \<Rightarrow> Err e
      | Ok cargo_home \<Rightarrow>
     (case abs_string rustup_home of Err e \<Rightarrow> Err e | Ok rustup \<Rightarrow>
     (case abs_string cargo_home of Err e \<Rightarrow> Err e | Ok cargo \<Rightarrow>
        Ok [(''CARGO_HOME'', cargo), (''CARGO_NET_OFFLINE'', ''true''), (''RUSTUP_HOME'', rustup)])))))"

definition cargo_precheck :: "('oid, 'n, 'p) demo_host \<Rightarrow> (str \<times> str) list \<Rightarrow> orch_error + unit" where
  "cargo_precheck dm env =
     (case dm_cargo dm env of
        Ok (success, status) \<Rightarrow>
          if success then Ok ()
          else Err (rust_demo_unavailable (quote_var ''cargo --version'' @ '' exited '' @ status @ '' '' @ DASH
            @ '' check that RUSTUP_HOME has an installed toolchain''))
      | Err e \<Rightarrow>
          Err (rust_demo_unavailable (quote_var ''cargo'' @ '' could not be run ('' @ e @ '') '' @ DASH @ '' it must be on PATH'')))"

definition run_rust_demo ::
  "('oid, 'n, 'p) demo_host \<Rightarrow> (str \<Rightarrow> 's run_store) \<Rightarrow> bool \<Rightarrow> 's \<Rightarrow> 'p world \<Rightarrow> (orch_error + demo_outcome) \<times> 's \<times> 'p world" where
  "run_rust_demo dm stores keep =
     with_temp (dm_run dm) ''repo-rust'' 0 keep (\<lambda>repo_dir.
       with_temp (dm_run dm) ''state-rust'' 1 False (\<lambda>state_dir.
         with_temp (dm_run dm) ''cargo-home'' 2 False (\<lambda>cargo_dir s w.
           case discover_rust_env dm cargo_dir w of
             Err e \<Rightarrow> (Err e, s, w)
           | Ok env_set \<Rightarrow>
               (case cargo_precheck dm env_set of
                  Err e \<Rightarrow> (Err e, s, w)
                | Ok _ \<Rightarrow> run_fixture dm stores rust_fixture keep repo_dir state_dir env_set s w))))"

definition run_demo ::
  "('oid, 'n, 'p) demo_host \<Rightarrow> (str \<Rightarrow> 's run_store) \<Rightarrow> demo_lang \<Rightarrow> bool \<Rightarrow> 's \<Rightarrow> 'p world
    \<Rightarrow> (orch_error + demo_outcome) \<times> 's \<times> 'p world" where
  "run_demo dm stores lang keep s w =
     (if \<not> dm_unix dm
      then (Err (OrInvalid ''platform'' (quote_var ''jitgen demo'' @ '' needs a POSIX shell (/bin/sh); on Windows run it inside the container image, e.g. ''
              @ quote_var ''docker run --rm ghcr.io/sondrateconsulting/jitgen demo'')), s, w)
      else case lang of DemoSh \<Rightarrow> run_sh_demo dm stores keep s w | DemoRust \<Rightarrow> run_rust_demo dm stores keep s w)"

subsection \<open>The account (\<open>cli.rs\<close>)\<close>

datatype demo_format = DemoHuman | DemoSarif

record demo_args =
  mg_lang :: demo_lang
  mg_format :: demo_format
  mg_keep :: bool

definition DEMO_BLOCK_CAP :: nat where "DEMO_BLOCK_CAP = 16 * 1024"

definition show_int :: "int \<Rightarrow> str" where
  "show_int i = (if i < 0 then ''-'' @ show_nat (nat (- i)) else show_nat (nat i))"

definition run_block :: "str \<Rightarrow> int option \<Rightarrow> str \<Rightarrow> str \<Rightarrow> str" where
  "run_block label exit verdict output =
     (let body = sanitize output DEMO_BLOCK_CAP in
      ''    '' @ label @ '' -> exit '' @ (case exit of None \<Rightarrow> ''?'' | Some c \<Rightarrow> show_int c) @ '' ('' @ verdict @ ''):'' @ [LF]
      @ (if trim body = [] then ''        (no output)'' @ [LF] else concat (map (\<lambda>l. ''        '' @ l @ [LF]) (lines body))))"

definition demo_line :: "str \<Rightarrow> str" where
  "demo_line s = safe_for_terminal s 2048"

definition demo_block :: "str \<Rightarrow> str" where
  "demo_block s = concat (map (\<lambda>l. ''    '' @ l @ [LF]) (lines (sanitize s DEMO_BLOCK_CAP)))"

definition MIDDOT :: str where "MIDDOT = [CHR 0xC2, CHR 0xB7]"

definition demo_head :: str where
  "demo_head =
     ''jitgen demo '' @ DASH @ '' offline proof that catch mode catches a real regression'' @ [LF]
     @ ''LLM: recorded fixture (no network, no API key)   '' @ MIDDOT @ ''   sandbox: constrained-local'' @ [LF]
     @ ''strategy: dodgy-diff (single-shot seeded-regression demo; the default catch strategy is intent-aware)'' @ [LF, LF]"

definition demo_runs :: "catch_report \<Rightarrow> str" where
  "demo_runs c =
     (case cr_evidence c of
        Some ev \<Rightarrow>
          run_block ''base'' (ce_base_exit_code ev) ''PASS'' (ce_base_output ev)
          @ run_block ''head'' (ce_head_exit_code ev) ''FAIL'' (ce_head_output ev)
      | None \<Rightarrow>
          ''    (!) execution evidence unavailable '' @ DASH
          @ '' the demo should always surface it; this is a jitgen bug, please report it.'' @ [LF])"

definition demo_checkout :: "demo_outcome \<Rightarrow> str \<Rightarrow> str \<Rightarrow> str \<Rightarrow> str" where
  "demo_checkout o' revision runner note =
     ''    git checkout '' @ demo_line revision @ '' -- '' @ demo_line (do_production_path o') @ '' && '' @ runner
     @ '' ; echo '' @ [CHR 0x22] @ ''exit $?'' @ [CHR 0x22] @ ''   # '' @ note @ [LF]"

definition demo_reproduction :: "demo_outcome \<Rightarrow> catch_report \<Rightarrow> str" where
  "demo_reproduction o' c =
     (case do_kept_repo o' of
        Some kept \<Rightarrow>
          (let (runner, stays) =
             (case do_lang o' of
                DemoSh \<Rightarrow> (''/bin/sh '' @ demo_line (cr_path c), ''the generated test stays in place'')
              | DemoRust \<Rightarrow> (''cargo test'', ''the generated test stays in tests/''))
           in [LF] @ ''Reproduce it yourself (no jitgen, no key):'' @ [LF]
              @ ''    cd '' @ demo_line (from_utf8_lossy kept) @ [LF]
              @ demo_checkout o' (do_base_short o') runner ''0 = PASS''
              @ demo_checkout o' (do_head_short o') runner ''nonzero = FAIL (assertion)''
              @ ''    (only the production file is checked out per revision; '' @ stays @ '')'' @ [LF])
      | None \<Rightarrow>
          [LF] @ ''Re-run with '' @ quote_var ''jitgen demo --keep'' @ '' for the seeded repo + by-hand reproduction commands.'' @ [LF])"

definition render_demo_human :: "demo_outcome \<Rightarrow> str" where
  "render_demo_human o' =
     demo_head
     @ (case rr_catches (do_report o') of
          [] \<Rightarrow> ''(no catch was produced '' @ DASH @ '' this is unexpected)'' @ [LF]
        | c # _ \<Rightarrow>
            ''Seeded repo:   base '' @ demo_line (do_base_short o') @ '' -> head '' @ demo_line (do_head_short o') @ [LF]
            @ (case do_kept_repo o' of Some kept \<Rightarrow> ''Kept at:       '' @ demo_line (from_utf8_lossy kept) @ [LF] | None \<Rightarrow> [])
            @ [LF] @ ''The regression (diff base->head of '' @ demo_line (do_production_path o') @ ''):'' @ [LF]
            @ demo_block (do_regression_diff o')
            @ [LF] @ ''Recorded LLM response -> generated test ('' @ demo_line (cr_path c) @ ''):'' @ [LF]
            @ demo_block (cr_source c)
            @ [LF] @ ''Sandbox runs (real, no network):'' @ [LF] @ demo_runs c
            @ [LF] @ ''Verdict (rules-only, no LLM judge):'' @ [LF]
            @ ''    base passed '' @ MIDDOT @ '' head failed with an assertion '' @ MIDDOT @ '' stable  =>  '' @ decision_debug (cr_decision c)
            @ '' (tp '' @ show_f2 (cr_tp_probability c) @ '')'' @ [LF]
            @ [LF] @ ''[ok] jitgen caught the seeded regression. This validated parsing + sandbox execution +'' @ [LF]
            @ ''     classification + flake-filter + assessment + reporting '' @ DASH @ '' NOT LLM quality (that'' @ [LF]
            @ ''     needs a real provider; see '' @ quote_var ''jitgen doctor'' @ '' and docs/ci.md).'' @ [LF]
            @ demo_reproduction o' c)"

text \<open>A pipe that was closed early is not an error; the message of that error is an argument.\<close>

definition cmd_demo ::
  "('oid, 'n, 'p) cli_host \<Rightarrow> ('oid, 'n, 'p) demo_host \<Rightarrow> str \<Rightarrow> (str \<Rightarrow> 's run_store) \<Rightarrow> demo_args \<Rightarrow> 's \<Rightarrow> 'p world \<Rightarrow> terminal
    \<Rightarrow> nat \<times> 's \<times> 'p world \<times> terminal" where
  "cmd_demo ch dm broken_pipe stores a s w t =
     (case run_demo dm stores (mg_lang a) (mg_keep a) s w of (res, s, w) \<Rightarrow>
        (case (case res of
                 Err e \<Rightarrow> fail (cl_version ch) (''jitgen demo: '' @ show_orch e) t
               | Ok outcome \<Rightarrow>
                   if rr_catches (do_report outcome) = []
                   then fail (cl_version ch) (''jitgen demo: the demo did not produce a catch (this is a jitgen bug '' @ DASH @ '' please report it)'') t
                   else (case write_out (case mg_format a of
                             DemoSarif \<Rightarrow> render (cl_json ch) (do_report outcome) SarifFormat
                           | DemoHuman \<Rightarrow> render_demo_human outcome) t of
                      (Ok _, t) \<Rightarrow> (0, t)
                    | (Err e, t) \<Rightarrow>
                        if e = broken_pipe then (0, t)
                        else fail (cl_version ch) (''jitgen demo: cannot write output: '' @ e) t)) of
           (c, t) \<Rightarrow> (c, s, w, t)))"

section \<open>The fixtures\<close>

text \<open>What the demo shows as the regression is the changed line of the fixture.\<close>

lemma sh_regression:
  "regression_diff MATH_SH_BASE MATH_SH_HEAD = ''- add() { echo $(( $1 + $2 )); }'' @ [LF] @ ''+ add() { echo $(( $1 - $2 )); }''"
  by code_simp

lemma rust_regression:
  "regression_diff LIB_RS_BASE LIB_RS_HEAD = ''-     a + b'' @ [LF] @ ''+     a - b''"
  by code_simp

text \<open>Dropping a temporary directory takes all that is below it, and nothing else, when the system refuses nothing.\<close>

lemma drop_temp_exact:
  assumes "last_name (kernel_components path) = Some s"
    and "resolve_parent (xw_fs (fst w)) (re_cwd (rh_env rh)) (kernel_components path) = Ok dir"
    and "xw_fs (fst w) (dir @ [s]) = Some DirNode" "re_stuck (rh_env rh) (xw_fs (fst w)) (dir @ [s]) = []"
  shows "xw_fs (fst (drop_temp rh path w)) loc = (if prefix (dir @ [s]) loc then None else xw_fs (fst w) loc)"
  using assms by (simp add: drop_temp_def Let_def remove_dir_all_def set_fs_def)

end
