(* ===== verification/Durable.thy ===== *)
theory Durable
  imports Run
begin

text \<open>
  The writer of \<open>jitgen-state/src/fsutil.rs\<close>: the private directory and the atomic write of an artifact, with every
  state of the file system a crash can leave and with the errors the system can answer each step with. The modes
  themselves and what the disk has of the file system are not part of the model.
\<close>

section \<open>The code\<close>

text \<open>The steps that the system can refuse, and what it answers: \<open>fl_error\<close> is the error of a step, and
  \<open>fl_written\<close> how many bytes it takes when the write is the one that fails.\<close>

datatype write_step = SetModeStep | CreateStep | WriteStep | SyncStep | RenameStep | OpenDirStep | SyncDirStep

record io_faults =
  fl_error :: "write_step \<Rightarrow> str option"
  fl_written :: nat

definition io_step :: "io_faults \<Rightarrow> write_step \<Rightarrow> state_error + unit" where
  "io_step faults step = (case fl_error faults step of None \<Rightarrow> Ok () | Some e \<Rightarrow> Err (StIo e))"

definition ensure_private_dir ::
  "io_faults \<Rightarrow> filesys \<Rightarrow> str list \<Rightarrow> component list \<Rightarrow> (state_error + unit) \<times> filesys" where
  "ensure_private_dir faults fs cwd dir =
     (case symlink_metadata fs cwd dir of
        Ok (LinkNode _) \<Rightarrow> (Err (StInvalid (''refusing to use symlinked state path: '' @ from_utf8_lossy (display_path dir))), fs)
      | _ \<Rightarrow>
          (case create_dir_all fs cwd dir of
             (Err e, fs) \<Rightarrow> (Err (StIo (show_io e)), fs)
           | (Ok _, fs) \<Rightarrow> (io_step faults SetModeStep, fs)))"

definition atomic_temp_name :: "str \<Rightarrow> nat \<Rightarrow> nat \<Rightarrow> str" where
  "atomic_temp_name file_name pid unique = ''.'' @ file_name @ ''.'' @ show_nat pid @ ''.'' @ show_nat unique @ ''.tmp''"

text \<open>
  \<open>pid\<close> and \<open>unique\<close> are the process and the value of the counter. The second part of the result lists the file system after
  each step: of the write itself, after every number of bytes. The directory is synchronized after the replacement,
  so the errors of the last two steps are returned although the destination is new.
\<close>

definition atomic_write ::
  "io_faults \<Rightarrow> nat \<Rightarrow> nat \<Rightarrow> filesys \<Rightarrow> str list \<Rightarrow> component list \<Rightarrow> str \<Rightarrow> (state_error + unit) \<times> filesys list" where
  "atomic_write faults pid unique fs cwd path bytes =
     (case comps_parent path of
        None \<Rightarrow> (Err (StInvalid (''no parent dir for '' @ from_utf8_lossy (display_path path))), [fs])
      | Some parent \<Rightarrow>
     (case ensure_private_dir faults fs cwd parent of
        (Err e, fs1) \<Rightarrow> (Err e, [fs, fs1])
      | (Ok _, fs1) \<Rightarrow>
     (case (case comps_file_name path of Some n \<Rightarrow> if utf8 n then Some n else None | None \<Rightarrow> None) of
        None \<Rightarrow> (Err (StInvalid (''bad file name for '' @ from_utf8_lossy (display_path path))), [fs, fs1])
      | Some file_name \<Rightarrow>
          (let tmp = parent @ [Normal (atomic_temp_name file_name pid unique)] in
           case io_step faults CreateStep of Err e \<Rightarrow> (Err e, [fs, fs1]) | Ok _ \<Rightarrow>
          (case create_new fs1 cwd tmp [] of
             (Err e, _) \<Rightarrow> (Err (StIo (show_io e)), [fs, fs1])
           | (Ok _, _) \<Rightarrow>
               (let taken = (case io_step faults WriteStep of Ok _ \<Rightarrow> bytes | Err _ \<Rightarrow> take (fl_written faults) bytes);
                    writes = map (\<lambda>k. snd (create_new fs1 cwd tmp (take k taken))) [0..<Suc (length taken)];
                    written = [fs, fs1] @ writes
                in
                case io_step faults WriteStep of Err e \<Rightarrow> (Err e, written) | Ok _ \<Rightarrow>
                case io_step faults SyncStep of Err e \<Rightarrow> (Err e, written) | Ok _ \<Rightarrow>
                case io_step faults RenameStep of Err e \<Rightarrow> (Err e, written) | Ok _ \<Rightarrow>
               (case rename_path (last writes) cwd tmp path of
                  (Err e, _) \<Rightarrow> (Err (StIo (show_io e)), written)
                | (Ok _, fs3) \<Rightarrow>
                    (case io_step faults OpenDirStep of Err e \<Rightarrow> (Err e, written @ [fs3]) | Ok _ \<Rightarrow>
                       (io_step faults SyncDirStep, written @ [fs3])))))))))"

section \<open>Lemmas\<close>

lemma resolve_append:
  "resolve_path fs create links cur (cs @ ds) = Ok r \<Longrightarrow> \<not> create
    \<Longrightarrow> \<exists>k d. resolve_path fs create links cur cs = Ok d \<and> resolve_path fs create k d ds = Ok r"
proof (induction fs create links cur cs rule: resolve_path.induct)
  case (1 fs create links cur)
  then show ?case by auto
next
  case (5 fs create links cur s cs)
  show ?case
  proof (cases "fs (cur @ [s])")
    case None
    then show ?thesis using 5 by simp
  next
    case (Some n)
    then show ?thesis using 5 by (cases n; cases links) (auto split: if_splits)
  qed
qed (auto split: if_splits)

lemma resolve_update:
  "resolve_path fs create links cur cs = Ok r \<Longrightarrow> \<not> create \<Longrightarrow> fs loc = None
    \<Longrightarrow> resolve_path (fs(loc \<mapsto> n)) create links cur cs = Ok r"
proof (induction fs create links cur cs rule: resolve_path.induct)
  case (5 fs create links cur s cs)
  show ?case
  proof (cases "fs (cur @ [s])")
    case None
    then show ?thesis using 5 by simp
  next
    case (Some m)
    then have "cur @ [s] \<noteq> loc" using 5 by auto
    then show ?thesis using 5 Some by (cases m; cases links) (auto split: if_splits)
  qed
qed (auto simp: is_dir_def split: if_splits)

lemma existing_dirs_kept:
  assumes "path_is_dir fs base cs"
  shows "create_dir_all fs base cs = (Ok (), fs)"
proof (cases cs rule: rev_cases)
  case Nil
  then show ?thesis by (simp add: create_dir_all.simps)
next
  case (snoc xs c)
  then obtain r where r: "resolve_path fs False MAX_LINKS base (xs @ [c]) = Ok r" "is_dir fs r"
    using assms by (auto simp: path_is_dir_def split: sum.splits)
  then obtain k d where d: "resolve_path fs False MAX_LINKS base xs = Ok d" "resolve_path fs False k d [c] = Ok r"
    using resolve_append by blast
  show ?thesis
  proof (cases "last_name cs")
    case None
    then show ?thesis using snoc assms d(1)
      by (subst create_dir_all.simps) (auto simp: create_dir_def resolve_parent_def)
  next
    case (Some s)
    then have "c = Normal s" using snoc by (simp split: component.splits)
    then have "fs (d @ [s]) \<noteq> None" using d(2) by (cases "fs (d @ [s])") auto
    then show ?thesis using snoc Some assms d(1)
      by (subst create_dir_all.simps) (auto simp: create_dir_def resolve_parent_def)
  qed
qed

lemma ensured_dir:
  assumes "ensure_private_dir faults fs cwd p = (Ok u, fs1)" "path_is_dir fs cwd p"
  shows "fs1 = fs"
  using assms existing_dirs_kept [OF assms(2)] by (auto simp: ensure_private_dir_def split: sum.splits fs_node.splits)

lemma ensured_dir_error:
  assumes "ensure_private_dir faults fs cwd p = (Err e, fs1)" "path_is_dir fs cwd p"
  shows "fs1 = fs"
  using assms existing_dirs_kept [OF assms(2)] by (auto simp: ensure_private_dir_def split: sum.splits fs_node.splits)

lemma temp_name_differs: "atomic_temp_name n pid u \<noteq> n"
proof
  assume "atomic_temp_name n pid u = n"
  then have "length (atomic_temp_name n pid u) = length n" by simp
  then show False by (simp add: atomic_temp_name_def)
qed

text \<open>The file system while the temporary file \<open>t\<close> of a directory holds \<open>b\<close>.\<close>

definition with_file :: "filesys \<Rightarrow> str list \<Rightarrow> str \<Rightarrow> str \<Rightarrow> filesys" where
  "with_file fs dir t b = fs(dir @ [t] \<mapsto> FileNode b)"

lemma with_file_parent:
  assumes "resolve_parent fs cwd cs = Ok dir" "fs (dir @ [t]) = None"
  shows "resolve_parent (with_file fs dir t b) cwd cs = Ok dir"
proof -
  have "resolve_path fs False MAX_LINKS cwd (butlast cs) = Ok dir" "is_dir fs dir"
    using assms(1) by (auto simp: resolve_parent_def split: sum.splits if_splits)
  then have "resolve_path (with_file fs dir t b) False MAX_LINKS cwd (butlast cs) = Ok dir" "is_dir (with_file fs dir t b) dir"
    using assms(2) resolve_update [of fs False MAX_LINKS cwd "butlast cs" dir "dir @ [t]" "FileNode b"]
    by (auto simp: with_file_def is_dir_def)
  then show ?thesis by (simp add: resolve_parent_def)
qed

lemma rename_with_file:
  assumes "resolve_parent fs cwd src = Ok dir" "last_name src = Some t" "fs (dir @ [t]) = None"
    and "resolve_parent fs cwd dst = Ok dir" "last_name dst = Some name" "t \<noteq> name"
  shows "rename_path (with_file fs dir t b) cwd src dst =
    (if fs (dir @ [name]) = Some DirNode then (Err (OtherIo ''Is a directory (os error 21)''), with_file fs dir t b)
     else (Ok (), fs(dir @ [name] \<mapsto> FileNode b)))"
proof -
  have "with_file fs dir t b (dir @ [t]) = Some (FileNode b)" "with_file fs dir t b (dir @ [name]) = fs (dir @ [name])"
    "(with_file fs dir t b)(dir @ [t] := None) = fs"
    using assms(3,6) by (simp_all add: with_file_def fun_upd_idem)
  then show ?thesis
    unfolding rename_path_def assms(2,5) with_file_parent [OF assms(1,3)] with_file_parent [OF assms(4,3)] by simp
qed

text \<open>The file systems a write goes through: as it was, with some of the bytes in the temporary file, and with the
  destination replaced.\<close>

definition write_states :: "filesys \<Rightarrow> str list \<Rightarrow> str \<Rightarrow> str \<Rightarrow> str \<Rightarrow> filesys \<Rightarrow> bool" where
  "write_states fs dir t name bytes f \<longleftrightarrow>
     f = fs \<or> (\<exists>k. f = with_file fs dir t (take k bytes)) \<or> f = fs(dir @ [name] \<mapsto> FileNode bytes)"

lemma write_states_dest:
  "t \<noteq> name \<Longrightarrow> list_all (write_states fs dir t name bytes) states
    \<Longrightarrow> list_all (\<lambda>f. f (dir @ [name]) = fs (dir @ [name]) \<or> f (dir @ [name]) = Some (FileNode bytes)) states"
  by (auto simp: write_states_def with_file_def list_all_iff)

lemma io_step_cases: "io_step faults s = Ok () \<or> (\<exists>e. io_step faults s = Err e)"
  by (simp add: io_step_def split: option.split)

lemma atomic_write_effect:
  assumes "resolve_parent fs cwd path = Ok dir" "comps_file_name path = Some name"
    and "atomic_write faults pid unique fs cwd path bytes = (res, states)"
  shows "list_all (write_states fs dir (atomic_temp_name name pid unique) name bytes) states
    \<and> (case res of
         Ok _ \<Rightarrow> last states = fs(dir @ [name] \<mapsto> FileNode bytes)
       | Err e \<Rightarrow> list_all (\<lambda>f. f (dir @ [name]) = fs (dir @ [name])) states
           \<or> last states = fs(dir @ [name] \<mapsto> FileNode bytes)
             \<and> (io_step faults OpenDirStep = Err e \<or> io_step faults SyncDirStep = Err e))"
proof -
  have ne: "path \<noteq> []" "last path = Normal name" using assms(2) by (auto simp: comps_file_name_def split: if_splits component.splits)
  then have parent: "comps_parent path = Some (butlast path)" by (simp add: comps_parent_def)
  have dirs: "resolve_path fs False MAX_LINKS cwd (butlast path) = Ok dir" "is_dir fs dir"
    using assms(1) by (auto simp: resolve_parent_def split: sum.splits if_splits)
  then have exists: "path_is_dir fs cwd (butlast path)" by (simp add: path_is_dir_def)
  obtain r fs1 where ens: "ensure_private_dir faults fs cwd (butlast path) = (r, fs1)" by (meson surj_pair)
  have fs1: "fs1 = fs" using ens ensured_dir ensured_dir_error exists by (cases r) auto
  define t where "t = atomic_temp_name name pid unique"
  have tn: "t \<noteq> name" using temp_name_differs by (simp add: t_def)
  have src: "resolve_parent fs cwd (butlast path @ [Normal t]) = Ok dir" using dirs by (simp add: resolve_parent_def)
  show ?thesis
  proof (cases "(\<exists>u. r = Ok u) \<and> utf8 name \<and> (\<exists>u. io_step faults CreateStep = Ok u) \<and> fs (dir @ [t]) = None")
    case False
    then have "(\<exists>e. res = Err e) \<and> states = [fs, fs]"
      using assms(2,3) parent ens src unfolding fs1
      by (auto simp: atomic_write_def Let_def create_new_def t_def [symmetric] split: sum.splits if_splits) metis+
    then show ?thesis by (auto simp: write_states_def)
  next
    case True
    then obtain u v where r: "r = Ok u" "io_step faults CreateStep = Ok v" by blast
    have create: "create_new fs cwd (butlast path @ [Normal t]) b = (Ok (), with_file fs dir t b)" for b
      using True src by (simp add: create_new_def with_file_def)
    define taken where "taken = (case io_step faults WriteStep of Ok _ \<Rightarrow> bytes | Err _ \<Rightarrow> take (fl_written faults) bytes)"
    define writes where "writes = map (\<lambda>k. with_file fs dir t (take k taken)) [0..<Suc (length taken)]"
    have ws: "writes \<noteq> []" "last writes = with_file fs dir t taken" by (simp_all add: writes_def)
    have part: "\<exists>m. take k taken = take m bytes" for k
      by (cases "io_step faults WriteStep") (auto simp: taken_def take_take)
    have state: "write_states fs dir t name bytes (with_file fs dir t (take k taken))" for k
    proof -
      obtain m where "take k taken = take m bytes" using part by blast
      then show ?thesis unfolding write_states_def by auto
    qed
    have w: "list_all (\<lambda>f. f (dir @ [name]) = fs (dir @ [name])) ([fs, fs] @ writes)"
      using tn by (auto simp: writes_def with_file_def list_all_iff)
    have w2: "list_all (write_states fs dir t name bytes) ([fs, fs] @ writes)"
      using state by (auto simp: writes_def write_states_def list_all_iff simp del: upt_Suc)
    have ren: "rename_path (with_file fs dir t bytes) cwd (butlast path @ [Normal t]) path =
        (if fs (dir @ [name]) = Some DirNode then (Err (OtherIo ''Is a directory (os error 21)''), with_file fs dir t bytes)
         else (Ok (), fs(dir @ [name] \<mapsto> FileNode bytes)))"
      using rename_with_file [OF src _ _ assms(1) _ tn] True ne by simp
    define replaced where "replaced = fs(dir @ [name] \<mapsto> FileNode bytes)"
    have outcome: "(\<exists>e. res = Err e) \<and> states = [fs, fs] @ writes
        \<or> states = [fs, fs] @ writes @ [replaced]
          \<and> (res = Ok () \<or> (\<exists>e. res = Err e \<and> (io_step faults OpenDirStep = Err e \<or> io_step faults SyncDirStep = Err e)))"
    proof (cases "io_step faults WriteStep")
      case (Inl e)
      then have part: "taken = take (fl_written faults) bytes" by (simp add: taken_def)
      have "(Err e, [fs, fs] @ writes) = (res, states)"
        unfolding assms(3) [symmetric] writes_def part using Inl True parent ens [unfolded fs1 r] create r(2) assms(2)
        by (simp add: atomic_write_def Let_def t_def [symmetric] del: upt_Suc)
      then show ?thesis by auto
    next
      case (Inr v)
      then have all: "taken = bytes" by (simp add: taken_def)
      show ?thesis
        using assms(2,3) True parent ens [unfolded fs1 r] create ren r(2) ws [unfolded all] Inr
        by (auto simp: atomic_write_def Let_def t_def [symmetric] writes_def [unfolded all, symmetric] replaced_def
            simp del: upt_Suc split: if_splits sum.splits) (metis io_step_cases)+
    qed
    then show ?thesis
    proof (rule disjE)
      assume "(\<exists>e. res = Err e) \<and> states = [fs, fs] @ writes"
      then show ?thesis using w w2 unfolding t_def by auto
    next
      assume "states = [fs, fs] @ writes @ [replaced]
          \<and> (res = Ok () \<or> (\<exists>e. res = Err e \<and> (io_step faults OpenDirStep = Err e \<or> io_step faults SyncDirStep = Err e)))"
      then show ?thesis using w2 unfolding t_def replaced_def by (auto simp: write_states_def)
    qed
  qed
qed

section \<open>Properties\<close>

text \<open>C17: The write of an artifact is atomic. Into an existing directory, whatever step the system refuses, after every
  step and every byte of the write the file system is as it was but for a temporary file beside the destination with
  the first bytes of the contents, or has the contents whole at the destination and is otherwise as it was: the
  destination is old or new, and a link there is replaced, not followed. On success it is new and no temporary
  file is left. On an error it is old, with one exception: when only opening or flushing the directory failed, after
  the replacement, the error is returned and the destination is new.\<close>

theorem atomic_write_old_or_new:
  assumes "resolve_parent fs cwd path = Ok dir" "comps_file_name path = Some name"
    and "atomic_write faults pid unique fs cwd path bytes = (res, states)"
  shows "list_all (\<lambda>f. f = fs
          \<or> (\<exists>k. f = fs(dir @ [atomic_temp_name name pid unique] \<mapsto> FileNode (take k bytes)))
          \<or> f = fs(dir @ [name] \<mapsto> FileNode bytes)) states
    \<and> list_all (\<lambda>f. f (dir @ [name]) = fs (dir @ [name]) \<or> f (dir @ [name]) = Some (FileNode bytes)) states
    \<and> (case res of
         Ok _ \<Rightarrow> last states = fs(dir @ [name] \<mapsto> FileNode bytes)
       | Err e \<Rightarrow> list_all (\<lambda>f. f (dir @ [name]) = fs (dir @ [name])) states
           \<or> last states = fs(dir @ [name] \<mapsto> FileNode bytes)
             \<and> (io_step faults OpenDirStep = Err e \<or> io_step faults SyncDirStep = Err e))"
proof -
  define t where "t = atomic_temp_name name pid unique"
  have tn: "t \<noteq> name" using temp_name_differs by (simp add: t_def)
  note eff = atomic_write_effect [OF assms(1-3), folded t_def]
  show ?thesis
    using eff write_states_dest [OF tn conjunct1 [OF eff]]
    unfolding t_def [symmetric] by (simp add: write_states_def with_file_def list_all_iff)
qed

text \<open>A destination that is a link, and a system that refuses nothing, or the flush of the directory.\<close>

definition planted_fs :: filesys where
  "planted_fs = [[] \<mapsto> DirNode, [''s''] \<mapsto> DirNode, [''s'', ''a''] \<mapsto> LinkNode ''/etc/passwd'']"

definition no_faults :: io_faults where
  "no_faults = \<lparr>fl_error = (\<lambda>_. None), fl_written = 0\<rparr>"

definition late_fault :: io_faults where
  "late_fault = no_faults\<lparr>fl_error := (\<lambda>step. if step = SyncDirStep then Some ''EIO'' else None)\<rparr>"

theorem atomic_write_old_or_new_witness:
  "(\<exists>states. atomic_write no_faults 7 0 planted_fs [] [RootDir, Normal ''s'', Normal ''a''] ''hi'' = (Ok (), states)
      \<and> last states = planted_fs([''s'', ''a''] \<mapsto> FileNode ''hi''))
   \<and> fst (atomic_write late_fault 7 0 planted_fs [] [RootDir, Normal ''s'', Normal ''a''] ''hi'') = Err (StIo ''EIO'')"
proof -
  let ?w = "atomic_write no_faults 7 0 planted_fs [] [RootDir, Normal ''s'', Normal ''a''] ''hi''"
  have dir: "resolve_parent planted_fs [] [RootDir, Normal ''s'', Normal ''a''] = Ok [''s'']" by code_simp
  have ok: "fst ?w = Ok ()" by code_simp
  have late: "fst (atomic_write late_fault 7 0 planted_fs [] [RootDir, Normal ''s'', Normal ''a''] ''hi'') = Err (StIo ''EIO'')"
    by code_simp
  obtain res states where run: "?w = (res, states)" by (meson surj_pair)
  have "comps_file_name [RootDir, Normal ''s'', Normal ''a''] = Some ''a''" by (simp add: comps_file_name_def)
  from atomic_write_old_or_new [OF dir this run] ok have "last states = planted_fs([''s'', ''a''] \<mapsto> FileNode ''hi'')"
    unfolding run by simp
  then show ?thesis using run ok late by simp
qed

end
