(* ===== verification/Session.thy ===== *)
theory Session
  imports Run
begin

text \<open>
  The sessions of \<open>run.rs\<close> over a store. The interface \<open>session_store\<close> says what the orchestrator relies on
  of \<open>RunStore\<close>; it is interpreted on the index of runs of \<open>Store\<close> and on an index that stops working after
  any number of durable operations. What \<open>load_report\<close> serves after any session, and what \<open>apply_to_repo\<close>
  writes, are the properties.
\<close>

section \<open>The stores\<close>

text \<open>The tables of one run in the index.\<close>

definition db_of :: "str \<Rightarrow> run_index \<Rightarrow> run_db" where
  "db_of i ix = (case ix_dbs ix i of Some db \<Rightarrow> db | None \<Rightarrow> empty_db)"

definition on_db :: "str \<Rightarrow> (run_db \<Rightarrow> 'a \<times> run_db) \<Rightarrow> run_index \<Rightarrow> 'a \<times> run_index" where
  "on_db i g ix = (case g (db_of i ix) of (r, db) \<Rightarrow> (r, ix\<lparr>ix_dbs := (ix_dbs ix)(i \<mapsto> db)\<rparr>))"

definition drop_value :: "('e + 'a) \<times> 's \<Rightarrow> ('e + unit) \<times> 's" where
  "drop_value p = (case p of (Err e, s) \<Rightarrow> (Err e, s) | (Ok _, s) \<Rightarrow> (Ok (), s))"

definition index_ops :: "(str \<Rightarrow> str) \<Rightarrow> str \<Rightarrow> run_index store_ops" where
  "index_ops sha i =
     \<lparr>so_record = (\<lambda>j sq k h. on_db i (record_step j sq k h)), so_begin = (\<lambda>j. on_db i (begin_step j)),
      so_finish = (\<lambda>j st er. on_db i (finish_step j st er)),
      so_publish = (\<lambda>rel bytes k j. on_db i (publish_artifact sha rel bytes k j)),
      so_step = (\<lambda>j ix. step_of j (db_of i ix)), so_read = (\<lambda>rel ix. Ok (read_file_at rel (db_of i ix)))\<rparr>"

definition index_store :: "(str \<Rightarrow> str) \<Rightarrow> (str \<Rightarrow> str) \<Rightarrow> str \<Rightarrow> run_index run_store" where
  "index_store sha dbg now =
     \<lparr>st_open = (\<lambda>ix. (Ok (), ix)), st_create = (\<lambda>m ix. drop_value (create_run dbg now m ix)),
      st_get = (\<lambda>i ix. Ok (get_run i ix)), st_open_run = (\<lambda>i ix. drop_value (open_run dbg i ix)),
      st_status = set_run_status, st_run = index_ops sha\<rparr>"

text \<open>With a budget of durable operations: creating a run is its row and its directory, publishing an
  artifact its file and its row.\<close>

definition crash_publish ::
  "(str \<Rightarrow> str) \<Rightarrow> str \<Rightarrow> str \<Rightarrow> str \<Rightarrow> str \<Rightarrow> str \<Rightarrow> run_index \<times> nat \<Rightarrow> (state_error + artifact_record) \<times> run_index \<times> nat" where
  "crash_publish sha i rel bytes k j s =
     (case limited (on_db i (write_artifact rel bytes)) s of
        (Err e, s) \<Rightarrow> (Err e, s)
      | (Ok _, s) \<Rightarrow> limited (on_db i (insert_artifact sha rel bytes k j)) s)"

definition crash_run_ops :: "(str \<Rightarrow> str) \<Rightarrow> str \<Rightarrow> (run_index \<times> nat) store_ops" where
  "crash_run_ops sha i =
     \<lparr>so_record = (\<lambda>j sq k h. limited (on_db i (record_step j sq k h))), so_begin = (\<lambda>j. limited (on_db i (begin_step j))),
      so_finish = (\<lambda>j st er. limited (on_db i (finish_step j st er))), so_publish = crash_publish sha i,
      so_step = (\<lambda>j s. step_of j (db_of i (fst s))), so_read = (\<lambda>rel s. Ok (read_file_at rel (db_of i (fst s))))\<rparr>"

definition crash_create ::
  "(str \<Rightarrow> str) \<Rightarrow> str \<Rightarrow> run_meta \<Rightarrow> run_index \<times> nat \<Rightarrow> (state_error + unit) \<times> run_index \<times> nat" where
  "crash_create dbg now m s =
     (case ensure_safe_run_id dbg (rm_run_id m) of
        Err e \<Rightarrow> (Err e, s)
      | Ok _ \<Rightarrow>
          (case limited (\<lambda>ix. (Ok (), insert_or_ignore m now ix)) s of
             (Err e, s) \<Rightarrow> (Err e, s)
           | (Ok _, s) \<Rightarrow> limited (\<lambda>ix. drop_value (create_run dbg now m ix)) s))"

definition crash_store :: "(str \<Rightarrow> str) \<Rightarrow> (str \<Rightarrow> str) \<Rightarrow> str \<Rightarrow> (run_index \<times> nat) run_store" where
  "crash_store sha dbg now =
     \<lparr>st_open = (\<lambda>s. (Ok (), s)), st_create = crash_create dbg now,
      st_get = (\<lambda>i s. Ok (get_run i (fst s))), st_open_run = (\<lambda>i. limited (\<lambda>ix. drop_value (open_run dbg i ix))),
      st_status = (\<lambda>i st. limited (set_run_status i st)), st_run = crash_run_ops sha\<rparr>"

section \<open>The interface\<close>

text \<open>What every operation of a run keeps.\<close>

definition ops_keep :: "'s store_ops \<Rightarrow> ('s \<Rightarrow> bool) \<Rightarrow> bool" where
  "ops_keep ops P \<longleftrightarrow> (\<forall>s. P s \<longrightarrow>
     (\<forall>j sq k h. P (snd (so_record ops j sq k h s))) \<and> (\<forall>j. P (snd (so_begin ops j s)))
     \<and> (\<forall>j st er. P (snd (so_finish ops j st er s))) \<and> (\<forall>rel bytes k j. P (snd (so_publish ops rel bytes k j s))))"

definition same_dbs :: "run_index \<Rightarrow> run_index \<Rightarrow> bool" where
  "same_dbs ix ix' \<longleftrightarrow> (\<forall>j. db_of j ix' = db_of j ix)"

definition with_status :: "str \<Rightarrow> str \<Rightarrow> run_meta \<times> str \<Rightarrow> run_meta \<times> str" where
  "with_status i status = (\<lambda>(m, c). (if rm_run_id m = i then m\<lparr>rm_status := status\<rparr> else m, c))"

locale session_store =
  fixes store :: "'s run_store" and view :: "'s \<Rightarrow> run_index" and sha dbg :: "str \<Rightarrow> str" and now :: str
  assumes run_law: "step_store (st_run store i) (\<lambda>s. db_of i (view s)) sha"
    and run_frame: "ops_keep (st_run store i) (\<lambda>s. ix_runs (view s) = rows \<and> (\<forall>j. j \<noteq> i \<longrightarrow> db_of j (view s) = dbs j))"
    and open_law: "view (snd (st_open store s)) = view s"
    and get_law: "st_get store i s = Ok found \<Longrightarrow> found = get_run i (view s)"
    and create_law: "st_create store m s = (r, s') \<Longrightarrow> same_dbs (view s) (view s')
        \<and> ix_runs (view s') \<in> {ix_runs (view s), ix_runs (insert_or_ignore m now (view s))}
        \<and> (r = Ok () \<longrightarrow> get_run (rm_run_id m) (view s') \<noteq> None \<and> ensure_safe_run_id dbg (rm_run_id m) = Ok ())"
    and open_run_law: "st_open_run store i s = (r, s') \<Longrightarrow> same_dbs (view s) (view s') \<and> ix_runs (view s') = ix_runs (view s)
        \<and> (r = Ok () \<longrightarrow> ensure_safe_run_id dbg i = Ok ())"
    and status_law: "st_status store i st s = (r, s') \<Longrightarrow> same_dbs (view s) (view s')
        \<and> ix_runs (view s') = (if r = Ok () then map (with_status i st) (ix_runs (view s)) else ix_runs (view s))"

lemma on_db_frame:
  "ix_runs (snd (on_db i g ix)) = ix_runs ix" "j \<noteq> i \<Longrightarrow> db_of j (snd (on_db i g ix)) = db_of j ix"
  "db_of i (snd (on_db i g ix)) = snd (g (db_of i ix))" "fst (on_db i g ix) = fst (g (db_of i ix))"
  by (simp_all add: on_db_def db_of_def split: prod.split)

lemma snd_limited: "snd (limited g s) = (case snd s of 0 \<Rightarrow> s | Suc n \<Rightarrow> (snd (g (fst s)), n))"
  by (cases s) (simp add: limited_def split: nat.split prod.split)

lemma fst_snd_limited: "fst (snd (limited g s)) = (case snd s of 0 \<Rightarrow> fst s | Suc n \<Rightarrow> snd (g (fst s)))"
  by (simp add: snd_limited split: nat.split)

lemma drop_value_snd [simp]: "snd (drop_value p) = snd p"
  by (simp add: drop_value_def split: prod.split sum.split)

lemma drop_value_Ok: "fst (drop_value p) = Ok () \<longleftrightarrow> (\<exists>v. fst p = Ok v)"
  by (cases p; cases "fst p") (auto simp: drop_value_def)

lemma same_dbs_refl [simp]: "same_dbs ix ix"
  by (simp add: same_dbs_def)

lemma same_dbs_trans: "same_dbs a b \<Longrightarrow> same_dbs b c \<Longrightarrow> same_dbs a c"
  by (simp add: same_dbs_def)

lemma get_run_rows: "ix_runs ix' = ix_runs ix \<Longrightarrow> get_run i ix' = get_run i ix"
  by (simp add: get_run_def)

lemma get_run_insert:
  "get_run j (insert_or_ignore m now ix) = (if j = rm_run_id m \<and> get_run j ix = None then Some m else get_run j ix)"
  by (auto simp: insert_or_ignore_def get_run_def find_append split: option.splits)

lemma open_run_frame:
  "same_dbs ix (snd (open_run dbg i ix)) \<and> ix_runs (snd (open_run dbg i ix)) = ix_runs ix
    \<and> ((\<exists>db. fst (open_run dbg i ix) = Ok db) \<longrightarrow> ensure_safe_run_id dbg i = Ok () \<and> get_run i ix \<noteq> None)"
  by (auto simp: open_run_def same_dbs_def db_of_def Let_def split: sum.split option.split)

lemma insert_dbs: "ix_dbs (insert_or_ignore m now ix) = ix_dbs ix"
  by (simp add: insert_or_ignore_def)

lemma create_run_frame:
  "same_dbs ix (snd (create_run dbg now m ix))
    \<and> ix_runs (snd (create_run dbg now m ix)) \<in> {ix_runs ix, ix_runs (insert_or_ignore m now ix)}
    \<and> ((\<exists>db. fst (create_run dbg now m ix) = Ok db) \<longrightarrow>
        get_run (rm_run_id m) (snd (create_run dbg now m ix)) \<noteq> None \<and> ensure_safe_run_id dbg (rm_run_id m) = Ok ())"
proof -
  let ?ix = "insert_or_ignore m now ix"
  have dbs: "same_dbs ix ?ix" by (simp add: same_dbs_def db_of_def insert_dbs)
  obtain existing where there: "get_run (rm_run_id m) ?ix = Some existing"
    using get_run_insert [of "rm_run_id m" m now ix] by (cases "get_run (rm_run_id m) ix") auto
  show ?thesis
  proof (cases "ensure_safe_run_id dbg (rm_run_id m)")
    case (Inl e)
    then show ?thesis by (simp add: create_run_def)
  next
    case safe: (Inr u)
    show ?thesis
    proof (cases "same_inputs existing m")
      case True
      then have "create_run dbg now m ix = open_run dbg (rm_run_id m) ?ix"
        using safe there by (simp add: create_run_def Let_def)
      then show ?thesis
        using open_run_frame [of ?ix dbg "rm_run_id m"] dbs same_dbs_trans [OF dbs] there safe
          get_run_rows [of "snd (open_run dbg (rm_run_id m) ?ix)" ?ix] by simp
    next
      case False
      then have "create_run dbg now m ix = (Err (StInvalid (''run id '' @ [CHR 0x27] @ rm_run_id m @ [CHR 0x27]
          @ '' already exists with different metadata'')), ?ix)"
        using safe there by (simp add: create_run_def Let_def)
      then show ?thesis using dbs by simp
    qed
  qed
qed

lemma set_status_frame:
  "same_dbs ix (snd (set_run_status i st ix))
    \<and> ix_runs (snd (set_run_status i st ix)) =
        (if fst (set_run_status i st ix) = Ok () then map (with_status i st) (ix_runs ix) else ix_runs ix)"
  by (simp add: set_run_status_def same_dbs_def db_of_def with_status_def)

interpretation index: session_store "index_store sha dbg now" "\<lambda>ix. ix" sha dbg now for sha dbg now
proof (rule session_store.intro)
  show "step_store (st_run (index_store sha dbg now) i) (db_of i) sha" for i
    by unfold_locales (simp_all add: index_store_def index_ops_def took_def on_db_frame)
  show "ops_keep (st_run (index_store sha dbg now) i) (\<lambda>ix. ix_runs ix = rows \<and> (\<forall>j. j \<noteq> i \<longrightarrow> db_of j ix = dbs j))" for i rows dbs
    by (simp add: ops_keep_def index_store_def index_ops_def on_db_frame)
  show "snd (st_open (index_store sha dbg now) ix) = ix" for ix
    by (simp add: index_store_def)
  show "found = get_run i ix" if "st_get (index_store sha dbg now) i ix = Ok found" for i ix found
    using that by (simp add: index_store_def)
  show "same_dbs s s' \<and> ix_runs s' \<in> {ix_runs s, ix_runs (insert_or_ignore m now s)}
      \<and> (r = Ok () \<longrightarrow> get_run (rm_run_id m) s' \<noteq> None \<and> ensure_safe_run_id dbg (rm_run_id m) = Ok ())"
    if "st_create (index_store sha dbg now) m s = (r, s')" for m s r s'
  proof -
    have "r = fst (drop_value (create_run dbg now m s))" "s' = snd (create_run dbg now m s)"
      using that by (simp_all add: index_store_def prod_eq_iff)
    then show ?thesis using create_run_frame [of s dbg now m] drop_value_Ok [of "create_run dbg now m s"] by simp
  qed
  show "same_dbs s s' \<and> ix_runs s' = ix_runs s \<and> (r = Ok () \<longrightarrow> ensure_safe_run_id dbg i = Ok ())"
    if "st_open_run (index_store sha dbg now) i s = (r, s')" for i s r s'
  proof -
    have "r = fst (drop_value (open_run dbg i s))" "s' = snd (open_run dbg i s)"
      using that by (simp_all add: index_store_def prod_eq_iff)
    then show ?thesis using open_run_frame [of s dbg i] drop_value_Ok [of "open_run dbg i s"] by simp
  qed
  show "same_dbs s s' \<and> ix_runs s' = (if r = Ok () then map (with_status i st) (ix_runs s) else ix_runs s)"
    if "st_status (index_store sha dbg now) i st s = (r, s')" for i st s r s'
    using that set_status_frame [of s i st] by (simp add: index_store_def)
qed

lemma crash_publish_law:
  "took (publish_artifact sha rel bytes k j (db_of i (fst s))) (db_of i (fst s))
      (map_prod id (\<lambda>s. db_of i (fst s)) (crash_publish sha i rel bytes k j s))
    \<or> (\<exists>e s'. crash_publish sha i rel bytes k j s = (Err e, s') \<and> db_of i (fst s') = snd (write_artifact rel bytes (db_of i (fst s))))"
proof -
  obtain ix n where s: "s = (ix, n)" by (cases s)
  obtain r db where w: "write_artifact rel bytes (db_of i ix) = (r, db)" by fastforce
  have db: "db_of i (ix\<lparr>ix_dbs := m(i \<mapsto> d)\<rparr>) = d" for ix m d by (simp add: db_of_def)
  show ?thesis
  proof (cases n)
    case 0
    then show ?thesis by (simp add: s took_def crash_publish_def limited_def)
  next
    case (Suc k')
    show ?thesis
    proof (cases r)
      case (Inl e)
      then show ?thesis by (simp add: s Suc took_def crash_publish_def limited_def on_db_def w db publish_artifact_def)
    next
      case (Inr u)
      then show ?thesis
        by (cases k') (simp_all add: s Suc took_def crash_publish_def limited_def on_db_def w db publish_artifact_def
          insert_artifact_def Let_def)
    qed
  qed
qed

lemma took_limited_db:
  "took (g (db_of i (fst s))) (db_of i (fst s)) (map_prod id (\<lambda>s. db_of i (fst s)) (limited (on_db i g) s))"
  by (cases s) (auto simp: took_def limited_def on_db_def db_of_def split: nat.split prod.split)

lemma limited_Ok: "limited g s = (Ok v, s') \<Longrightarrow> fst (g (fst s)) = Ok v \<and> fst s' = snd (g (fst s))"
  by (cases s) (auto simp: limited_def split: nat.splits prod.splits)

lemma limited_Err: "limited g s = (Err e, s') \<Longrightarrow> fst s' = fst s \<or> fst (g (fst s)) = Err e \<and> fst s' = snd (g (fst s))"
  by (cases s) (auto simp: limited_def split: nat.splits prod.splits)

lemma crash_create_law:
  assumes "crash_create dbg now m s = (r, s')"
  shows "same_dbs (fst s) (fst s') \<and> ix_runs (fst s') \<in> {ix_runs (fst s), ix_runs (insert_or_ignore m now (fst s))}
    \<and> (r = Ok () \<longrightarrow> get_run (rm_run_id m) (fst s') \<noteq> None \<and> ensure_safe_run_id dbg (rm_run_id m) = Ok ())"
proof -
  let ?ix = "insert_or_ignore m now (fst s)"
  have ins: "same_dbs (fst s) ?ix" by (simp add: same_dbs_def db_of_def insert_dbs)
  have twice: "insert_or_ignore m now ?ix = ?ix"
    using get_run_insert [of "rm_run_id m" m now "fst s"] by (auto simp: insert_or_ignore_def)
  note cr = create_run_frame [of ?ix dbg now m]
  show ?thesis
  proof (cases "ensure_safe_run_id dbg (rm_run_id m)")
    case (Inl e)
    then show ?thesis using assms by (auto simp: crash_create_def)
  next
    case (Inr u)
    obtain r1 s1 where one: "limited (\<lambda>ix. (Ok () :: state_error + unit, insert_or_ignore m now ix)) s = (r1, s1)"
      by (metis prod.collapse)
    show ?thesis
    proof (cases r1)
      case (Inl e)
      have "fst s1 = fst s" using limited_Err [OF one [unfolded Inl]] by simp
      then show ?thesis using assms \<open>ensure_safe_run_id dbg (rm_run_id m) = Inr u\<close> one Inl by (auto simp: crash_create_def)
    next
      case ok: (Inr v)
      then have s1: "fst s1 = ?ix" using limited_Ok one by fastforce
      have two: "limited (\<lambda>ix. drop_value (create_run dbg now m ix)) s1 = (r, s')"
        using assms Inr one ok by (simp add: crash_create_def)
      show ?thesis
      proof (cases r)
        case (Inl e)
        then show ?thesis using limited_Err [OF two [unfolded Inl]] s1 ins cr twice same_dbs_trans [OF ins] by auto
      next
        case (Inr w)
        then show ?thesis
          using limited_Ok [OF two [unfolded Inr]] s1 cr twice same_dbs_trans [OF ins] drop_value_Ok [of "create_run dbg now m ?ix"] by auto
      qed
    qed
  qed
qed

interpretation crashing_index: session_store "crash_store sha dbg now" fst sha dbg now for sha dbg now
proof (rule session_store.intro)
  show "step_store (st_run (crash_store sha dbg now) i) (\<lambda>s. db_of i (fst s)) sha" for i
    by unfold_locales (simp_all add: crash_store_def crash_run_ops_def took_limited_db crash_publish_law del: split_paired_Ex)
  show "ops_keep (st_run (crash_store sha dbg now) i) (\<lambda>s. ix_runs (fst s) = rows \<and> (\<forall>j. j \<noteq> i \<longrightarrow> db_of j (fst s) = dbs j))" for i rows dbs
    by (auto simp: ops_keep_def crash_store_def crash_run_ops_def fst_snd_limited on_db_frame crash_publish_def
      split: nat.split prod.split sum.split dest!: limited_Ok limited_Err)
  show "fst (snd (st_open (crash_store sha dbg now) s)) = fst s" for s
    by (simp add: crash_store_def)
  show "found = get_run i (fst s)" if "st_get (crash_store sha dbg now) i s = Ok found" for i s found
    using that by (simp add: crash_store_def)
  show "same_dbs (fst s) (fst s') \<and> ix_runs (fst s') \<in> {ix_runs (fst s), ix_runs (insert_or_ignore m now (fst s))}
      \<and> (r = Ok () \<longrightarrow> get_run (rm_run_id m) (fst s') \<noteq> None \<and> ensure_safe_run_id dbg (rm_run_id m) = Ok ())"
    if "st_create (crash_store sha dbg now) m s = (r, s')" for m s r s'
    using that crash_create_law by (simp add: crash_store_def)
  show "same_dbs (fst s) (fst s') \<and> ix_runs (fst s') = ix_runs (fst s) \<and> (r = Ok () \<longrightarrow> ensure_safe_run_id dbg i = Ok ())"
    if "st_open_run (crash_store sha dbg now) i s = (r, s')" for i s r s'
  proof -
    have l: "limited (\<lambda>ix. drop_value (open_run dbg i ix)) s = (r, s')" using that by (simp add: crash_store_def)
    show ?thesis
    proof (cases r)
      case (Inl e)
      then show ?thesis using limited_Err [OF l [unfolded Inl]] open_run_frame [of "fst s" dbg i] by auto
    next
      case (Inr u)
      then show ?thesis
        using limited_Ok [OF l [unfolded Inr]] open_run_frame [of "fst s" dbg i] drop_value_Ok [of "open_run dbg i (fst s)"] by auto
    qed
  qed
  show "same_dbs (fst s) (fst s') \<and> ix_runs (fst s') = (if r = Ok () then map (with_status i st) (ix_runs (fst s)) else ix_runs (fst s))"
    if "st_status (crash_store sha dbg now) i st s = (r, s')" for i st s r s'
  proof -
    have l: "limited (set_run_status i st) s = (r, s')" using that by (simp add: crash_store_def)
    show ?thesis
    proof (cases r)
      case (Inl e)
      then show ?thesis using limited_Err [OF l [unfolded Inl]] set_status_frame [of "fst s" i st] by auto
    next
      case (Inr u)
      then show ?thesis using limited_Ok [OF l [unfolded Inr]] set_status_frame [of "fst s" i st] by auto
    qed
  qed
qed

section \<open>What the operations of a run keep\<close>

lemma ops_keep_call:
  assumes "ops_keep ops P" "P s"
  shows "so_record ops j sq k h s = (r1, s1) \<Longrightarrow> P s1" "so_begin ops j s = (r2, s2) \<Longrightarrow> P s2"
    "so_finish ops j st er s = (r2, s3) \<Longrightarrow> P s3" "so_publish ops rel bytes k j s = (r4, s4) \<Longrightarrow> P s4"
  using assms unfolding ops_keep_def by (metis snd_conv)+

lemma persist_step_keep:
  assumes "ops_keep ops P" "P s" "persist_step cd ops step_id sq rel kind bytes s = (r, s')"
  shows "P s'"
proof -
  obtain r1 s1 where a: "so_record ops step_id sq step_id (cd_sha cd bytes) s = (r1, s1)" by fastforce
  have p1: "P s1" using ops_keep_call(1) [OF assms(1,2) a] .
  obtain r2 s2 where b: "so_begin ops step_id s1 = (r2, s2)" by fastforce
  have p2: "P s2" using ops_keep_call(2) [OF assms(1) p1 b] .
  obtain r3 s3 where c: "so_publish ops rel bytes kind step_id s2 = (r3, s3)" by fastforce
  have p3: "P s3" using ops_keep_call(4) [OF assms(1) p2 c] .
  obtain r4 s4 where d: "so_finish ops step_id Succeeded None s3 = (r4, s4)" by fastforce
  have "P s4" using ops_keep_call(3) [OF assms(1) p3 d] .
  then show ?thesis using assms(3) a b c d p1 p2 p3 by (auto simp: persist_step_def split: sum.splits)
qed

lemma process_step_keep:
  assumes "ops_keep ops P" "P s" "process_step cd ops process i rel rt s w = (r, s', w')"
  shows "P s'"
proof -
  obtain r1 s1 where a: "so_begin ops i s = (r1, s1)" by fastforce
  have p1: "P s1" using ops_keep_call(2) [OF assms(1,2) a] .
  obtain o1 w1 where b: "process rt w = (o1, w1)" by fastforce
  have fin: "P s2" if "so_finish ops i st er s1 = (x, s2)" for st er x s2 using ops_keep_call(3) [OF assms(1) p1 that] .
  have fail: "P (snd (so_finish ops i st er s1))" for st er using fin by (metis prod.collapse)
  have pub: "P s2" if "so_publish ops rel bytes k i s1 = (x, s2)" for bytes k x s2 using ops_keep_call(4) [OF assms(1) p1 that] .
  have pubfin: "P s3" if "so_publish ops rel bytes k i s1 = (x, s2)" "so_finish ops i st er s2 = (y, s3)" for bytes k x s2 st er y s3
    using ops_keep_call(3) [OF assms(1) pub [OF that(1)] that(2)] .
  show ?thesis
    using assms(3) a b p1 fail pub pubfin by (auto simp: process_step_def split: sum.splits prod.splits)
qed

lemma drive_target_keep:
  assumes "ops_keep ops P" "P s" "drive_target cd ops fp process i rt s w = (r, s', w')"
  shows "P s'"
proof -
  have rec: "P s1" if "so_record ops a b c d s = (x, s1)" for a b c d x s1 using ops_keep_call(1) [OF assms(1,2) that] .
  show ?thesis
    using assms(2,3) rec
    by (auto simp: drive_target_def Let_def split: sum.splits prod.splits option.splits)
       (erule process_step_keep [OF assms(1), rotated], erule rec)
qed

lemma drive_from_keep:
  "ops_keep ops P \<Longrightarrow> P s \<Longrightarrow> drive_from cd ops fp process i rts s w = (r, s', w') \<Longrightarrow> P s'"
proof (induction rts arbitrary: i s w r s' w')
  case (Cons rt rts)
  obtain r1 s1 w1 where one: "drive_target cd ops fp process i rt s w = (r1, s1, w1)" by (metis prod.collapse)
  have p1: "P s1" by (rule drive_target_keep [OF Cons.prems(1,2) one])
  obtain r2 s2 w2 where rest: "drive_from cd ops fp process (Suc i) rts s1 w1 = (r2, s2, w2)" by (metis prod.collapse)
  have "P s2" by (rule Cons.IH [OF Cons.prems(1) p1 rest])
  then show ?case using Cons.prems(3) one rest p1 by (auto split: sum.splits)
qed simp

lemma persist_keep:
  assumes "ops_keep ops P" "P s"
  shows "persist_report cd ops report s = (r, s') \<Longrightarrow> P s'" "persist_trusted cd ops trusted s = (r, s'') \<Longrightarrow> P s''"
  using assms persist_step_keep [OF assms] by (auto simp: persist_report_def persist_trusted_def split: sum.splits)

lemma drive_run_keep:
  assumes "ops_keep ops P" "P s" "drive_run rh ops root_dir i repo b h t given s w = (r, s', w')"
  shows "P s'"
  using assms(3) assms(2)
  by (auto simp: drive_run_def drive_targets_def Let_def split: sum.splits prod.splits
      elim: drive_from_keep [OF assms(1,2)])
     (erule persist_keep(1) [OF assms(1), rotated], erule drive_from_keep [OF assms(1,2)])+

section \<open>What a session leaves\<close>

text \<open>A run is current when it is marked as completed and holds a report; its report is the file.\<close>

definition unserved :: "str \<Rightarrow> run_index \<Rightarrow> bool" where
  "unserved i ix \<longleftrightarrow> (\<forall>m. get_run i ix = Some m \<longrightarrow> rm_status m \<noteq> ''completed'')"

definition untouched :: "str \<Rightarrow> run_index \<Rightarrow> run_index \<Rightarrow> bool" where
  "untouched i ix ix' \<longleftrightarrow> get_run i ix' = get_run i ix \<and> db_of i ix' = db_of i ix"

definition serves :: "(str \<Rightarrow> str) \<Rightarrow> codec \<Rightarrow> run_report \<Rightarrow> run_index \<Rightarrow> bool" where
  "serves dbg cd report ix \<longleftrightarrow>
     (\<exists>m bytes. get_run (rr_run_id report) ix = Some m \<and> rm_status m = ''completed'' \<and> cd_report_pretty cd report = Ok bytes
        \<and> read_file_at ''report.json'' (db_of (rr_run_id report) ix) = Some bytes \<and> ensure_safe_run_id dbg (rr_run_id report) = Ok ())"

text \<open>A session is the start of a run or the resumption of one. It is about one run: the one with the identifier that
  the repository, the revisions and the mode give, if the session comes that far, or the one to resume.\<close>

datatype session = Start run_options | Resume str str

definition run_session ::
  "('oid, 'n, 'p) run_host \<Rightarrow> (str \<Rightarrow> 's run_store) \<Rightarrow> session \<Rightarrow> 's \<Rightarrow> 'p world
    \<Rightarrow> (orch_error + run_report) \<times> 's \<times> 'p world" where
  "run_session rh stores ses s w =
     (case ses of Start opts \<Rightarrow> run_jit_generation rh stores opts s w | Resume state_root i \<Rightarrow> resume_run rh stores state_root i s w)"

definition session_id :: "('oid, 'n, 'p) run_host \<Rightarrow> session \<Rightarrow> 'p world \<Rightarrow> str option" where
  "session_id rh ses w =
     (case ses of
        Resume state_root i \<Rightarrow> Some i
      | Start opts \<Rightarrow>
          (case (open_repo (intake_of rh w) (rh_open rh) (ro_repo opts), canonical (intake_of rh w) (ro_repo opts)) of
             (Ok repo, Ok loc) \<Rightarrow>
               (case (resolve_commit repo (ro_base opts), resolve_commit repo (ro_head opts)) of
                  (Ok base, Ok head) \<Rightarrow>
                    Some (derive_run_id (cd_sha (rh_codec rh)) (from_utf8_lossy (path_of loc)) (rp_show repo base)
                      (rp_show repo head) (tc_mode (ro_trusted opts)))
                | _ \<Rightarrow> None)
           | _ \<Rightarrow> None))"

text \<open>What a session leaves of the index: every other run is untouched, and its own is served on success. On an error
  it is not, unless nothing was executed (\<open>same\<close>) and it is untouched as well.\<close>

definition session_left ::
  "(str \<Rightarrow> str) \<Rightarrow> codec \<Rightarrow> str option \<Rightarrow> bool \<Rightarrow> orch_error + run_report \<Rightarrow> run_index \<Rightarrow> run_index \<Rightarrow> bool" where
  "session_left dbg cd mine same res ix ix' \<longleftrightarrow>
     (\<forall>j. mine \<noteq> Some j \<longrightarrow> untouched j ix ix')
     \<and> (case res of
          Ok report \<Rightarrow> mine = Some (rr_run_id report) \<and> serves dbg cd report ix'
        | Err _ \<Rightarrow> (\<forall>j. mine = Some j \<longrightarrow> unserved j ix' \<or> same \<and> untouched j ix ix'))"

lemma untouched_refl [simp]: "untouched j ix ix"
  by (simp add: untouched_def)

lemma untouched_trans: "untouched j a b \<Longrightarrow> untouched j b c \<Longrightarrow> untouched j a c"
  by (simp add: untouched_def)

lemma get_run_status:
  assumes "ix_runs ix' = map (with_status i st) (ix_runs ix)"
  shows "get_run j ix' = (if j = i then map_option (\<lambda>m. m\<lparr>rm_status := st\<rparr>) (get_run i ix) else get_run j ix)"
proof -
  have "find (\<lambda>m. rm_run_id m = j) (map fst (map (with_status i st) rows))
      = (if j = i then map_option (\<lambda>m. m\<lparr>rm_status := st\<rparr>) (find (\<lambda>m. rm_run_id m = i) (map fst rows))
         else find (\<lambda>m. rm_run_id m = j) (map fst rows))" for rows
    by (induction rows) (auto simp: with_status_def)
  then show ?thesis using assms by (simp add: get_run_def)
qed

lemma published_file:
  assumes "fst (publish_artifact sha ''report.json'' bytes k j db) = Ok a"
  shows "read_file_at ''report.json'' (snd (publish_artifact sha ''report.json'' bytes k j db)) = Some bytes"
  using assms
  by (auto simp: publish_artifact_def write_artifact_def insert_artifact_def read_file_at_def Let_def split: sum.splits if_splits)

context session_store begin

lemma persist_report_served:
  assumes "persist_report cd (st_run store i) report s = (Ok u, s')"
  shows "\<exists>bytes. cd_report_pretty cd report = Ok bytes \<and> read_file_at ''report.json'' (db_of i (view s')) = Some bytes"
proof -
  obtain bytes where bytes: "cd_report_pretty cd report = Ok bytes"
    and run: "persist_step cd (st_run store i) ''report'' (2 ^ 63 - 1) ''report.json'' ''report'' bytes s = (Ok u, s')"
    using assms by (auto simp: persist_report_def split: sum.splits)
  obtain s2 a s3 where pub: "so_publish (st_run store i) ''report.json'' bytes ''report'' ''report'' s2 = (Ok a, s3)"
    and fin: "so_finish (st_run store i) ''report'' Succeeded None s3 = (Ok (), s')"
    using run by (auto simp: persist_step_def split: sum.splits prod.splits)
  have law: "took (publish_artifact sha ''report.json'' bytes ''report'' ''report'' (db_of i (view s2))) (db_of i (view s2))
      (map_prod id (\<lambda>s. db_of i (view s)) (so_publish (st_run store i) ''report.json'' bytes ''report'' ''report'' s2))"
    using step_store.publish_law [OF run_law, of "''report.json''" bytes "''report''" "''report''" i s2] pub by auto
  then have "fst (publish_artifact sha ''report.json'' bytes ''report'' ''report'' (db_of i (view s2))) = Ok a"
    and d: "db_of i (view s3) = snd (publish_artifact sha ''report.json'' bytes ''report'' ''report'' (db_of i (view s2)))"
    by (auto simp: pub took_def)
  then have "read_file_at ''report.json'' (db_of i (view s3)) = Some bytes" using published_file by fastforce
  moreover have "db_files (db_of i (view s')) = db_files (db_of i (view s3))"
    using step_store.finish_view [OF run_law fin] by auto
  ultimately show ?thesis using bytes by (simp add: read_file_at_def)
qed

lemma frame_of:
  assumes "\<And>P. ops_keep (st_run store i) P \<Longrightarrow> P s \<Longrightarrow> P s'"
  shows "ix_runs (view s') = ix_runs (view s) \<and> (\<forall>j. j \<noteq> i \<longrightarrow> untouched j (view s) (view s'))"
proof -
  have "ix_runs (view s') = ix_runs (view s) \<and> (\<forall>j. j \<noteq> i \<longrightarrow> db_of j (view s') = db_of j (view s))"
    by (rule assms [OF run_frame]) simp
  then show ?thesis using get_run_rows [of "view s'" "view s"] by (simp add: untouched_def)
qed

lemma drive_run_left:
  assumes "drive_run rh (st_run store i) root_dir i repo b h t given s w = (r, s', w')"
  shows "ix_runs (view s') = ix_runs (view s) \<and> (\<forall>j. j \<noteq> i \<longrightarrow> untouched j (view s) (view s'))"
    and "r = Ok report \<Longrightarrow> rr_run_id report = i \<and> (\<exists>bytes. cd_report_pretty (rh_codec rh) report = Ok bytes
      \<and> read_file_at ''report.json'' (db_of i (view s')) = Some bytes)"
proof -
  show "ix_runs (view s') = ix_runs (view s) \<and> (\<forall>j. j \<noteq> i \<longrightarrow> untouched j (view s) (view s'))"
    by (rule frame_of, rule drive_run_keep [OF _ _ assms])
  assume "r = Ok report"
  then obtain s1 where p: "persist_report (rh_codec rh) (st_run store i) report s1 = (Ok (), s')" and i: "rr_run_id report = i"
    using assms by (auto simp: drive_run_def assemble_report_def Let_def split: sum.splits prod.splits)
  show "rr_run_id report = i \<and> (\<exists>bytes. cd_report_pretty (rh_codec rh) report = Ok bytes
      \<and> read_file_at ''report.json'' (db_of i (view s')) = Some bytes)"
    using persist_report_served [OF p] i by simp
qed

lemma complete_run_left:
  assumes "complete_run rh store root_dir i repo b h t given s w = (res, s', w')"
    and "get_run i (view s) = Some m" "rm_status m = ''running''" "ensure_safe_run_id dbg i = Ok ()"
  shows "\<forall>j. j \<noteq> i \<longrightarrow> untouched j (view s) (view s')"
    and "case res of Ok report \<Rightarrow> rr_run_id report = i \<and> serves dbg (rh_codec rh) report (view s') | Err _ \<Rightarrow> unserved i (view s')"
proof -
  obtain r1 s1 w1 where d: "drive_run rh (st_run store i) root_dir i repo b h t given s w = (r1, s1, w1)" by (metis prod.collapse)
  note left = drive_run_left [OF d]
  have run1: "get_run i (view s1) = Some m" using left(1) get_run_rows assms(2) by metis
  obtain r2 s2 where st: "st_status store i ''completed'' s1 = (r2, s2)" by fastforce
  note law = status_law [OF st]
  have other: "untouched j (view s1) (view s2)" if "j \<noteq> i" for j
  proof -
    have "get_run j (view s2) = get_run j (view s1)"
      using law get_run_status [of "view s2" i "''completed''" "view s1" j] get_run_rows [of "view s2" "view s1" j] that
      by (auto split: if_splits)
    then show ?thesis using law by (simp add: untouched_def same_dbs_def)
  qed
  show "\<forall>j. j \<noteq> i \<longrightarrow> untouched j (view s) (view s')"
    using assms(1) d st left(1) other untouched_trans by (auto simp: complete_run_def split: sum.splits)
  show "case res of Ok report \<Rightarrow> rr_run_id report = i \<and> serves dbg (rh_codec rh) report (view s') | Err _ \<Rightarrow> unserved i (view s')"
  proof (cases r1)
    case (Inl e)
    then show ?thesis using assms(1,3) d run1 by (auto simp: complete_run_def unserved_def)
  next
    case (Inr report)
    note rep = left(2) [OF Inr]
    show ?thesis
    proof (cases r2)
      case (Inl e)
      then have "get_run i (view s2) = Some m" using law run1 get_run_rows [of "view s2" "view s1" i] by simp
      then show ?thesis using assms(1,3) d Inr st Inl by (auto simp: complete_run_def unserved_def)
    next
      case ok: (Inr v)
      then have "get_run i (view s2) = Some (m\<lparr>rm_status := ''completed''\<rparr>)"
        using law run1 get_run_status [of "view s2" i "''completed''" "view s1" i] by simp
      moreover have "db_of i (view s2) = db_of i (view s1)" using law by (simp add: same_dbs_def)
      ultimately show ?thesis using assms(1,4) d Inr st ok rep by (auto simp: complete_run_def serves_def)
    qed
  qed
qed

end

context session_store begin

lemma status_left:
  assumes "st_status store i st s = (r, s')"
  shows "\<forall>j. j \<noteq> i \<longrightarrow> untouched j (view s) (view s')" "r \<noteq> Ok () \<Longrightarrow> untouched i (view s) (view s')"
    "r = Ok () \<Longrightarrow> get_run i (view s') = map_option (\<lambda>m. m\<lparr>rm_status := st\<rparr>) (get_run i (view s))"
  using status_law [OF assms] get_run_status [of "view s'" i st "view s"] get_run_rows [of "view s'" "view s"]
  by (auto simp: untouched_def same_dbs_def split: if_splits)

lemma find_run_left:
  assumes "find_run rh store root_dir i s = (r, s')"
  shows "view s' = view s" "r = Ok m \<Longrightarrow> get_run i (view s) = Some m"
proof -
  obtain r1 s1 where o: "st_open store s = (r1, s1)" by fastforce
  have v: "view s1 = view s" using open_law [of s] o by simp
  show "view s' = view s" using assms o v by (auto simp: find_run_def split: sum.splits option.splits)
  show "get_run i (view s) = Some m" if "r = Ok m"
    using assms o v get_law [of i s1] that by (auto simp: find_run_def split: sum.splits option.splits)
qed

lemma start_run_left:
  assumes "start_run rh store i meta trusted s = (r, s')" "rm_run_id meta = i" "rm_status meta = ''running''"
  shows "\<forall>j. j \<noteq> i \<longrightarrow> untouched j (view s) (view s')"
    and "case r of Ok _ \<Rightarrow> \<exists>m. get_run i (view s') = Some m \<and> rm_status m = ''running'' \<and> ensure_safe_run_id dbg i = Ok ()
      | Err _ \<Rightarrow> untouched i (view s) (view s') \<or> unserved i (view s')"
proof -
  obtain r1 s1 where c: "st_create store meta s = (r1, s1)" by fastforce
  note cl = create_law [OF c]
  have rows: "get_run j (view s1) = (if j = i \<and> get_run j (view s) = None \<and> get_run j (view s1) \<noteq> None then Some meta else get_run j (view s))" for j
    using cl get_run_rows [of "view s1" "view s" j] get_run_rows [of "view s1" "insert_or_ignore meta now (view s)" j]
      get_run_insert [of j meta now "view s"] assms(2) by (auto split: if_splits)
  have u1: "untouched j (view s) (view s1)" if "j \<noteq> i" for j using rows [of j] cl that by (simp add: untouched_def same_dbs_def)
  have i1: "untouched i (view s) (view s1) \<or> unserved i (view s1)"
    using rows [of i] cl assms(3) by (auto simp: untouched_def unserved_def same_dbs_def split: if_splits)
  obtain r2 s2 where st: "st_status store i ''running'' s1 = (r2, s2)" by fastforce
  note sl = status_left [OF st]
  obtain r3 s3 where p: "persist_trusted (rh_codec rh) (st_run store i) trusted s2 = (r3, s3)" by fastforce
  have keep: "ix_runs (view s3) = ix_runs (view s2) \<and> (\<forall>j. j \<noteq> i \<longrightarrow> untouched j (view s2) (view s3))"
    by (rule frame_of, rule persist_keep(2) [OF _ _ p])
  then have g3: "get_run i (view s3) = get_run i (view s2)" using get_run_rows by metis
  show "\<forall>j. j \<noteq> i \<longrightarrow> untouched j (view s) (view s')"
  proof (intro allI impI)
    fix j assume "j \<noteq> i"
    then have one: "untouched j (view s) (view s1)" and two: "untouched j (view s1) (view s2)"
      and three: "untouched j (view s2) (view s3)" using u1 sl(1) keep by simp_all
    note to2 = untouched_trans [OF one two]
    note one to2 untouched_trans [OF to2 three]
    moreover have "s' = s1 \<or> s' = s2 \<or> s' = s3"
      using assms(1) c st p by (cases r1; cases r2; simp add: start_run_def)
    ultimately show "untouched j (view s) (view s')" by auto
  qed
  show "case r of Ok _ \<Rightarrow> \<exists>m. get_run i (view s') = Some m \<and> rm_status m = ''running'' \<and> ensure_safe_run_id dbg i = Ok ()
      | Err _ \<Rightarrow> untouched i (view s) (view s') \<or> unserved i (view s')"
  proof (cases "r1 = Ok ()")
    case False
    then obtain e where "r1 = Err e" by (cases r1) auto
    then show ?thesis using assms(1) c i1 by (auto simp: start_run_def)
  next
    case ok1: True
    then have there: "get_run i (view s1) \<noteq> None" "ensure_safe_run_id dbg i = Ok ()" using cl assms(2) by auto
    show ?thesis
    proof (cases "r2 = Ok ()")
      case False
      then obtain e where e: "r2 = Err e" by (cases r2) auto
      then have "untouched i (view s1) (view s2)" using sl(2) by simp
      then have "untouched i (view s) (view s2) \<or> unserved i (view s2)"
        using i1 untouched_trans by (auto simp: untouched_def unserved_def)
      then show ?thesis using assms(1) c ok1 st e by (auto simp: start_run_def)
    next
      case True
      then obtain m where m: "get_run i (view s3) = Some (m\<lparr>rm_status := ''running''\<rparr>)" using sl(3) there(1) g3 by auto
      then show ?thesis
        using assms(1) c ok1 st True p there(2) by (cases r) (auto simp: start_run_def unserved_def)
    qed
  qed
qed

lemma complete_session_left:
  assumes run: "complete_run rh store root_dir i repo b h t given s1 w = (res, s', w')"
    and m: "get_run i (view s1) = Some m" "rm_status m = ''running''" "ensure_safe_run_id dbg i = Ok ()"
    and before: "\<forall>j. j \<noteq> i \<longrightarrow> untouched j (view s) (view s1)"
  shows "session_left dbg (rh_codec rh) (Some i) same res (view s) (view s')"
proof -
  note cl = complete_run_left [OF run m]
  have other: "untouched j (view s) (view s')" if "j \<noteq> i" for j using that before cl(1) untouched_trans by blast
  show ?thesis using cl(2) other by (cases res) (auto simp: session_left_def)
qed

lemma early_left: "view s' = view s \<Longrightarrow> session_left dbg cd mine True (Err e) (view s) (view s')"
  by (simp add: session_left_def)

lemma run_left:
  assumes "run_jit_generation_inner rh stores opts given s w = (res, s', w')"
    and "stores (resolve_state_root rh (ro_trusted opts)) = store"
  shows "session_left dbg (rh_codec rh) (session_id rh (Start opts) w) (w' = w) res (view s) (view s')"
proof (cases "\<exists>e. res = Err e \<and> view s' = view s \<and> w' = w")
  case True
  then show ?thesis using early_left by auto
next
  case late: False
  obtain r0 s0 where o: "st_open store s = (r0, s0)" by fastforce
  have v0: "view s0 = view s" using open_law [of s] o by simp
  obtain root_dir i meta r1 s1 repo b h where id: "session_id rh (Start opts) w = Some i" and
    st: "start_run rh store i meta (ro_trusted opts) s0 = (r1, s1)" and mi: "rm_run_id meta = i" "rm_status meta = ''running''"
    and rest: "case r1 of Err e \<Rightarrow> res = Err e \<and> s' = s1 \<and> w' = w
      | Ok _ \<Rightarrow> complete_run rh store root_dir i repo b h (ro_trusted opts) given s1 w = (res, s', w')"
    using assms(1) late o v0 unfolding run_jit_generation_inner_def Let_def assms(2) session_id_def
    by (auto split: sum.splits prod.splits)
  note left = start_run_left [OF st mi, unfolded v0]
  show ?thesis
  proof (cases r1)
    case (Inl e)
    then show ?thesis using rest left id by (simp add: session_left_def) blast
  next
    case (Inr u)
    then obtain m where m: "get_run i (view s1) = Some m" "rm_status m = ''running''" "ensure_safe_run_id dbg i = Ok ()"
      using left(2) by auto
    have "complete_run rh store root_dir i repo b h (ro_trusted opts) given s1 w = (res, s', w')" using rest Inr by simp
    then show ?thesis unfolding id by (rule complete_session_left [OF _ m left(1)])
  qed
qed

lemma resume_left:
  assumes "resume_run rh stores root_dir i s w = (res, s', w')" and "stores root_dir = store"
  shows "session_left dbg (rh_codec rh) (Some i) (w' = w) res (view s) (view s')"
proof (cases "\<exists>e. res = Err e \<and> view s' = view s \<and> w' = w")
  case True
  then show ?thesis using early_left by auto
next
  case late: False
  obtain r0 s0 where f: "find_run rh store root_dir i s = (r0, s0)" by fastforce
  note fl = find_run_left [OF f]
  obtain r1 s1 where op: "st_open_run store i s0 = (r1, s1)" by fastforce
  note ol = open_run_law [OF op]
  have u1: "untouched j (view s) (view s1)" for j
    using ol fl(1) get_run_rows [of "view s1" "view s" j] by (simp add: untouched_def same_dbs_def)
  obtain r2 s2 where st: "st_status store i ''running'' s1 = (r2, s2)" by fastforce
  note sl = status_left [OF st]
  obtain m0 where r0: "r0 = Ok m0" using late f fl(1) assms by (cases r0) (auto simp: resume_run_def Let_def)
  have split: "(\<exists>e. res = Err e \<and> w' = w \<and> (s' = s1 \<or> s' = s2 \<and> r2 \<noteq> Ok ()))
      \<or> (\<exists>repo b h trusted. r1 = Ok () \<and> r2 = Ok () \<and> complete_run rh store root_dir i repo b h trusted None s2 w = (res, s', w'))"
    using assms(1) late f r0 fl(1) op st unfolding resume_run_def Let_def assms(2)
    by (auto split: sum.splits if_splits)
  then consider (stop) e where "res = Err e" "w' = w" "s' = s1 \<or> s' = s2 \<and> r2 \<noteq> Ok ()"
    | (go) repo b h trusted where "r1 = Ok ()" "r2 = Ok ()" "complete_run rh store root_dir i repo b h trusted None s2 w = (res, s', w')"
    by blast
  then show ?thesis
  proof cases
    case stop
    have "untouched j (view s) (view s')" for j
      using stop(3) u1 sl(1,2) untouched_trans by (cases "j = i") blast+
    then show ?thesis using stop(1,2) by (simp add: session_left_def)
  next
    case go
    have "get_run i (view s1) = Some m0" using u1 [of i] fl(2) [OF r0] by (simp add: untouched_def)
    then have "get_run i (view s2) = Some (m0\<lparr>rm_status := ''running''\<rparr>)" using sl(3) go(2) by simp
    moreover have "\<forall>j. j \<noteq> i \<longrightarrow> untouched j (view s) (view s2)" using sl(1) u1 untouched_trans by blast
    moreover have "ensure_safe_run_id dbg i = Ok ()" using ol go(1) by simp
    ultimately show ?thesis using complete_session_left [OF go(3), of _ s] by simp
  qed
qed

end

section \<open>What is served\<close>

text \<open>The report of a run, read from the index.\<close>

definition served :: "('oid, 'n, 'p) run_host \<Rightarrow> str \<Rightarrow> str \<Rightarrow> str \<Rightarrow> run_index \<Rightarrow> orch_error + run_report" where
  "served rh now state_root i ix =
     fst (load_report rh (\<lambda>_. index_store (cd_sha (rh_codec rh)) (debug_str (re_esc (rh_env rh))) now) state_root i ix)"

lemma find_run_index:
  "find_run rh (index_store sha dbg now) root_dir i ix =
     (case get_run i ix of None \<Rightarrow> (Err (no_such_run rh i), ix)
      | Some m \<Rightarrow> (case ensure_outside_repo (rh_host rh) root_dir (rm_repo_path m) ''--state-dir'' of
          Err e \<Rightarrow> (Err e, ix) | Ok _ \<Rightarrow> (Ok m, ix)))"
  by (simp add: find_run_def index_store_def split: option.split sum.split)

lemma open_run_index:
  "st_open_run (index_store sha dbg now) i ix =
     (case ensure_safe_run_id dbg i of Err e \<Rightarrow> (Err e, ix)
      | Ok _ \<Rightarrow> if get_run i ix = None then (Err (StRunNotFound i), ix)
                else (Ok (), ix\<lparr>ix_dbs := (ix_dbs ix)(i \<mapsto> db_of i ix)\<rparr>))"
  by (simp add: index_store_def open_run_def drop_value_def db_of_def Let_def split: sum.split)

lemma read_index:
  "read_run_artifact (st_run (index_store sha dbg now) i) ''report.json'' ix = Ok (read_file_at ''report.json'' (db_of i ix))"
proof -
  have "reject_unsafe_rel ''report.json'' = Ok ()" by code_simp
  then show ?thesis by (simp add: read_run_artifact_def index_store_def index_ops_def)
qed

lemma db_of_upd [simp]: "db_of i (ix\<lparr>ix_dbs := m(i \<mapsto> d)\<rparr>) = d"
  by (simp add: db_of_def)

lemma served_unfold:
  "served rh now root_dir i ix =
     (case get_run i ix of None \<Rightarrow> Err (no_such_run rh i)
      | Some m \<Rightarrow>
     (case ensure_outside_repo (rh_host rh) root_dir (rm_repo_path m) ''--state-dir'' of
        Err e \<Rightarrow> Err e
      | Ok _ \<Rightarrow>
          if rm_status m \<noteq> ''completed''
          then Err (OrInvalid ''run-id'' (''run '' @ debug_str (re_esc (rh_env rh)) i @ '' is not in a completed state (status: ''
                  @ rm_status m @ ''); no current report is available '' @ [CHR 0xE2, CHR 0x80, CHR 0x94]
                  @ '' it may be mid-run, or a re-run may have failed. Use '' @ quote_var ''jitgen resume''
                  @ '' to finish it.''))
          else (case ensure_safe_run_id (debug_str (re_esc (rh_env rh))) i of
             Err e \<Rightarrow> Err (OrState e)
           | Ok _ \<Rightarrow> (case read_file_at ''report.json'' (db_of i ix) of
                None \<Rightarrow> Err (OrInvalid ''run-id'' (''run '' @ debug_str (re_esc (rh_env rh)) i
                  @ '' has no report.json (it may not have finished)''))
              | Some bytes \<Rightarrow> (case cd_parse_report (rh_codec rh) bytes of
                  Err e \<Rightarrow> Err (OrConfig (''cannot parse stored report.json: '' @ e)) | Ok r \<Rightarrow> Ok r)))))"
proof (cases "get_run i ix")
  case None
  then show ?thesis by (simp add: served_def load_report_def Let_def find_run_index)
next
  case (Some m)
  then show ?thesis
    by (cases "ensure_outside_repo (rh_host rh) root_dir (rm_repo_path m) ''--state-dir''";
        cases "ensure_safe_run_id (debug_str (re_esc (rh_env rh))) i";
        cases "read_file_at ''report.json'' (db_of i ix)")
       (simp_all add: served_def load_report_def Let_def find_run_index open_run_index read_index split: sum.split)
qed

lemma served_untouched: "untouched i ix ix' \<Longrightarrow> served rh now root_dir i ix' = served rh now root_dir i ix"
  unfolding served_unfold by (simp add: untouched_def split: option.split sum.split)

lemma served_unserved: "unserved i ix \<Longrightarrow> \<exists>e. served rh now root_dir i ix = Err e"
  unfolding served_unfold unserved_def
  by (cases "get_run i ix") (auto split: sum.split)

text \<open>The answer of a reader that finds these bytes as the report of a run of this repository.\<close>

definition read_report :: "('oid, 'n, 'p) run_host \<Rightarrow> str \<Rightarrow> str \<Rightarrow> str \<Rightarrow> orch_error + run_report" where
  "read_report rh state_root repo_path bytes =
     (case ensure_outside_repo (rh_host rh) state_root repo_path ''--state-dir'' of
        Err e \<Rightarrow> Err e
      | Ok _ \<Rightarrow> (case cd_parse_report (rh_codec rh) bytes of
          Err e \<Rightarrow> Err (OrConfig (''cannot parse stored report.json: '' @ e)) | Ok r \<Rightarrow> Ok r))"

lemma served_serves:
  assumes "serves (debug_str (re_esc (rh_env rh))) (rh_codec rh) report ix"
  shows "\<exists>m bytes. get_run (rr_run_id report) ix = Some m \<and> cd_report_pretty (rh_codec rh) report = Ok bytes
    \<and> (\<forall>root_dir. served rh now root_dir (rr_run_id report) ix = read_report rh root_dir (rm_repo_path m) bytes)"
proof -
  obtain m bytes where m: "get_run (rr_run_id report) ix = Some m" "rm_status m = ''completed''"
    "cd_report_pretty (rh_codec rh) report = Ok bytes" "read_file_at ''report.json'' (db_of (rr_run_id report) ix) = Some bytes"
    "ensure_safe_run_id (debug_str (re_esc (rh_env rh))) (rr_run_id report) = Ok ()"
    using assms(1) unfolding serves_def by blast
  then have "served rh now root_dir (rr_run_id report) ix = read_report rh root_dir (rm_repo_path m) bytes" for root_dir
    by (simp add: served_unfold read_report_def split: sum.split)
  then show ?thesis using m(1,3) by blast
qed

lemma session_served:
  assumes "session_left (debug_str (re_esc (rh_env rh))) (rh_codec rh) mine same res ix ix'"
  shows "(\<forall>root_dir j. mine = Some j \<or> served rh now root_dir j ix' = served rh now root_dir j ix)
    \<and> (case res of
        Ok report \<Rightarrow>
          mine = Some (rr_run_id report)
          \<and> (\<exists>m bytes. get_run (rr_run_id report) ix' = Some m \<and> cd_report_pretty (rh_codec rh) report = Ok bytes
            \<and> (\<forall>root_dir. served rh now root_dir (rr_run_id report) ix' = read_report rh root_dir (rm_repo_path m) bytes))
      | Err _ \<Rightarrow>
          (\<forall>j. mine = Some j \<longrightarrow>
            (\<forall>root_dir. \<exists>e. served rh now root_dir j ix' = Err e)
            \<or> same \<and> untouched j ix ix' \<and> (\<forall>root_dir. served rh now root_dir j ix' = served rh now root_dir j ix)))"
proof (rule conjI)
  have "mine = Some j \<or> served rh now root_dir j ix' = served rh now root_dir j ix" for root_dir j
    using assms served_untouched unfolding session_left_def by meson
  then show "\<forall>root_dir j. mine = Some j \<or> served rh now root_dir j ix' = served rh now root_dir j ix" by blast
next
  show "case res of
        Ok report \<Rightarrow>
          mine = Some (rr_run_id report)
          \<and> (\<exists>m bytes. get_run (rr_run_id report) ix' = Some m \<and> cd_report_pretty (rh_codec rh) report = Ok bytes
            \<and> (\<forall>root_dir. served rh now root_dir (rr_run_id report) ix' = read_report rh root_dir (rm_repo_path m) bytes))
      | Err _ \<Rightarrow>
          (\<forall>j. mine = Some j \<longrightarrow>
            (\<forall>root_dir. \<exists>e. served rh now root_dir j ix' = Err e)
            \<or> same \<and> untouched j ix ix' \<and> (\<forall>root_dir. served rh now root_dir j ix' = served rh now root_dir j ix))"
  proof (cases res)
    case (Inl e)
    have "(\<forall>root_dir. \<exists>e. served rh now root_dir j ix' = Err e)
        \<or> same \<and> untouched j ix ix' \<and> (\<forall>root_dir. served rh now root_dir j ix' = served rh now root_dir j ix)"
      if "mine = Some j" for j
    proof -
      from assms that have "unserved j ix' \<or> same \<and> untouched j ix ix'" unfolding Inl session_left_def by simp
      then show ?thesis
      proof
        assume "unserved j ix'"
        then show ?thesis using served_unserved [of j ix' rh now] by blast
      next
        assume s: "same \<and> untouched j ix ix'"
        then have "served rh now root_dir j ix' = served rh now root_dir j ix" for root_dir
          using served_untouched [of j ix ix' rh now root_dir] by blast
        then show ?thesis using s by blast
      qed
    qed
    then show ?thesis unfolding Inl sum.case by blast
  next
    case (Inr report)
    then show ?thesis using assms served_serves unfolding session_left_def Inr sum.case by blast
  qed
qed

section \<open>What landing writes\<close>

lemma wrote_mono: "wrote base ws fs fs' \<Longrightarrow> set ws \<subseteq> set ws' \<Longrightarrow> wrote base ws' fs fs'"
  unfolding wrote_def by (meson subset_iff)

lemma write_file_effect:
  assumes "write_file dir rel bytes fs = (res, fs')" "is_dir fs (ov_loc dir)"
  shows "wrote (ov_loc dir) [(rel, bytes)] fs fs' \<and> is_dir fs' (ov_loc dir)
    \<and> (\<forall>ns b. ns \<noteq> normals (components rel) \<longrightarrow> fs (ov_loc dir @ ns) = Some (FileNode b) \<longrightarrow> fs' (ov_loc dir @ ns) = Some (FileNode b))
    \<and> (res = Ok () \<longrightarrow> fs' (ov_loc dir @ normals (components rel)) = Some (FileNode bytes))"
proof (cases "reject_unsafe_rel rel")
  case (Inl e)
  then show ?thesis using assms by (auto simp: write_file_def wrote_def)
next
  case (Inr u)
  then have plain: "plain_rel rel" and run: "write_confined dir rel bytes fs = (res, fs')"
    using assms(1) safe_rel_plain by (auto simp: write_file_def)
  note eff = write_confined_effect [OF plain assms(2) run]
  then have change: "confined_change (ov_loc dir) (normals (components rel)) bytes fs fs'" ..
  show ?thesis
    using wrote_one [OF change] confined_change_dir [OF change assms(2)] confined_change_keeps [OF change] eff
    by (auto split: if_splits)
qed

lemma write_tests_effect:
  assumes "write_tests dir ts written fs = (res, fs')" "is_dir fs (ov_loc dir)"
  shows "wrote (ov_loc dir) (map (\<lambda>t. (at_path t, at_source t)) ts) fs fs'
    \<and> (\<forall>ns b. ns \<notin> (\<lambda>t. normals (components (at_path t))) ` set ts \<longrightarrow> fs (ov_loc dir @ ns) = Some (FileNode b)
          \<longrightarrow> fs' (ov_loc dir @ ns) = Some (FileNode b))
    \<and> (case res of Err _ \<Rightarrow> True
        | Ok ps \<Rightarrow> ps = written @ map at_path ts
            \<and> (distinct (map (\<lambda>t. normals (components (at_path t))) ts) \<longrightarrow>
               list_all (\<lambda>t. fs' (ov_loc dir @ normals (components (at_path t))) = Some (FileNode (at_source t))) ts))"
  using assms
proof (induction ts arbitrary: written fs)
  case Nil
  then show ?case by (auto simp: wrote_def)
next
  case (Cons t ts)
  obtain r1 fs1 where one: "write_file dir (at_path t) (at_source t) fs = (r1, fs1)" by fastforce
  note eff = write_file_effect [OF one Cons.prems(2)]
  show ?case
  proof (cases r1)
    case (Inl e)
    then have "res = Err e" "fs' = fs1" using Cons.prems(1) one by auto
    then show ?thesis using eff wrote_mono [of _ "[(at_path t, at_source t)]"] by auto
  next
    case (Inr u)
    then have rest: "write_tests dir ts (written @ [at_path t]) fs1 = (res, fs')" using Cons.prems(1) one by simp
    have dir1: "is_dir fs1 (ov_loc dir)" using eff by blast
    note ih = Cons.IH [OF rest dir1]
    have "wrote (ov_loc dir) (map (\<lambda>t. (at_path t, at_source t)) (t # ts)) fs fs'"
      using wrote_append [of _ "[(at_path t, at_source t)]" fs fs1] eff ih by auto
    moreover have "fs1 (ov_loc dir @ normals (components (at_path t))) = Some (FileNode (at_source t))"
      using eff Inr by simp
    ultimately show ?thesis using eff ih by (auto split: sum.splits)
  qed
qed

section \<open>Properties\<close>

text \<open>C5: A stored report is the one of the last session. Start or resume a run on an index that may stop working after
  any number of durable operations, from any index. Every other run reads as before. If the session returns a report, the
  run is the one the session is about, and every later reader of it gets what was written for exactly this
  report (or the refusal of a state directory inside the repository). If the session fails, every later reader of its
  run is refused; only when the session executed nothing, the world being as before, can the row, the records and the
  files of the run be as they were, and the run read as before: once a run was started again, the report of an earlier session
  is never served.\<close>

theorem report_is_of_last_session:
  assumes "run_session rh (\<lambda>_. crash_store (cd_sha (rh_codec rh)) (debug_str (re_esc (rh_env rh))) now) ses (ix, budget) w
      = (res, (ix', left), w')"
  shows "(\<forall>root_dir j. session_id rh ses w = Some j \<or> served rh now root_dir j ix' = served rh now root_dir j ix)
    \<and> (case res of
        Ok report \<Rightarrow>
          session_id rh ses w = Some (rr_run_id report)
          \<and> (\<exists>m bytes. get_run (rr_run_id report) ix' = Some m \<and> cd_report_pretty (rh_codec rh) report = Ok bytes
            \<and> (\<forall>root_dir. served rh now root_dir (rr_run_id report) ix' = read_report rh root_dir (rm_repo_path m) bytes))
      | Err _ \<Rightarrow>
          (\<forall>j. session_id rh ses w = Some j \<longrightarrow>
            (\<forall>root_dir. \<exists>e. served rh now root_dir j ix' = Err e)
            \<or> w' = w \<and> untouched j ix ix' \<and> (\<forall>root_dir. served rh now root_dir j ix' = served rh now root_dir j ix)))"
proof -
  have "session_left (debug_str (re_esc (rh_env rh))) (rh_codec rh) (session_id rh ses w) (w' = w) res ix ix'"
  proof (cases ses)
    case (Start opts)
    have "run_jit_generation_inner rh (\<lambda>_. crash_store (cd_sha (rh_codec rh)) (debug_str (re_esc (rh_env rh))) now) opts None
        (ix, budget) w = (res, (ix', left), w')"
      using assms Start by (simp add: run_session_def run_jit_generation_def)
    from crashing_index.run_left [OF this refl] show ?thesis using Start by simp
  next
    case (Resume root_dir i)
    then have "session_id rh ses w = Some i" by (simp add: session_id_def)
    moreover have "resume_run rh (\<lambda>_. crash_store (cd_sha (rh_codec rh)) (debug_str (re_esc (rh_env rh))) now) root_dir i
        (ix, budget) w = (res, (ix', left), w')"
      using assms Resume by (simp add: run_session_def)
    from crashing_index.resume_left [OF this refl] calculation show ?thesis by simp
  qed
  then show ?thesis by (rule session_served)
qed

text \<open>A completed run with its report, whose revisions can no longer be read when it is resumed.\<close>

definition last_report :: run_report where
  "last_report = sample_report\<lparr>rr_run_id := ''run-1''\<rparr>"

definition last_run :: run_meta where
  "last_run = \<lparr>rm_run_id = ''run-1'', rm_repo_path = ''/r'', rm_base_ref = ''a'', rm_head_ref = ''b'', rm_mode = ''harden'',
     rm_schema_version = 1, rm_status = ''completed''\<rparr>"

definition last_index :: run_index where
  "last_index = \<lparr>ix_runs = [(last_run, ''now'')],
     ix_dbs = [''run-1'' \<mapsto> empty_db\<lparr>db_files := [[''config.json''] \<mapsto> ''c'', [''report.json''] \<mapsto> ''r'']\<rparr>]\<rparr>"

definition small_host :: "(nat, unit, nat) run_host" where
  "small_host = \<lparr>rh_host = sample_host, rh_var = (\<lambda>_. None), rh_temp_dir = ''/tmp'', rh_list = (\<lambda>_. if_list small_intake),
     rh_open = (\<lambda>_. Ok \<lparr>og_repo = sample_repo, og_path = ''/r/.git/''\<rparr>), rh_walk = (\<lambda>_. sample_walk),
     rh_find = (\<lambda>_ _. True), rh_parse_oid = (\<lambda>_. Some 0), rh_workdir = (\<lambda>_. Some ''/r''),
     rh_yaml = \<lparr>yr_value = (\<lambda>_. Err []), yr_repo = (\<lambda>_. Err [])\<rparr>, rh_rounding = Fin, rh_fmt2 = (\<lambda>_. []),
     rh_parser = (\<lambda>_ _. None), rh_json = (\<lambda>_. None), rh_llm = sample_llm_env [], rh_hash = (\<lambda>_. 0),
     rh_post = (\<lambda>_ _ _ w. (Err [], w)), rh_env = quiet_env\<lparr>re_cwd := []\<rparr>, rh_id_output = (\<lambda>_ _. None),
     rh_codec = sample_codec\<lparr>cd_report_pretty := (\<lambda>r. if r = last_report then Ok ''r'' else Err []),
        cd_parse_report := (\<lambda>b. if b = ''r'' then Ok last_report else Err [])\<rparr>,
     rh_version = ''0.1.0'', rh_pid = 7\<rparr>"

definition small_world :: "nat world" where
  "small_world = (\<lparr>xw_fs = if_fs small_intake, xw_nonce = 0, xw_temp = 0\<rparr>, 0)"

definition small_resume :: "(orch_error + run_report) \<times> (run_index \<times> nat) \<times> nat world" where
  "small_resume = resume_run small_host
     (\<lambda>_. crash_store (cd_sha (rh_codec small_host)) (debug_str (re_esc (rh_env small_host))) ''now'')
     ''/st'' ''run-1'' (last_index, 10) small_world"

lemma small_outside: "ensure_outside_repo sample_host ''/st'' ''/r'' ''--state-dir'' = Ok ()"
  by code_simp

lemma small_files:
  "read_file_at ''config.json'' (db_of ''run-1'' last_index) = Some ''c''"
  "read_file_at ''report.json'' (db_of ''run-1'' last_index) = Some ''r''"
proof -
  have "normals (components ''config.json'') = [''config.json'']" "normals (components ''report.json'') = [''report.json'']"
    by code_simp+
  then show "read_file_at ''config.json'' (db_of ''run-1'' last_index) = Some ''c''"
    "read_file_at ''report.json'' (db_of ''run-1'' last_index) = Some ''r''"
    by (simp_all add: read_file_at_def db_of_def last_index_def)
qed

lemma small_served_before: "served small_host ''now'' ''/st'' ''run-1'' last_index = Ok last_report"
proof -
  have "ensure_safe_run_id dbg ''run-1'' = Ok ()" for dbg
  proof -
    have "list_all safe_id_char (chars ''run-1'')" by code_simp
    then show ?thesis by (simp add: ensure_safe_run_id_def)
  qed
  moreover have "get_run ''run-1'' last_index = Some last_run" by (simp add: get_run_def last_index_def last_run_def)
  ultimately show ?thesis
    using small_outside by (simp add: served_unfold) (simp add: small_files small_host_def last_run_def)
qed
lemma small_resume_fails:
  "fst small_resume = Err (OrGit (GitBadRevision ''0''))"
  "get_run ''run-1'' (fst (fst (snd small_resume))) = Some (last_run\<lparr>rm_status := ''running''\<rparr>)"
proof -
  let ?st = "crash_store (cd_sha (rh_codec small_host)) (debug_str (re_esc (rh_env small_host))) ''now''"
  let ?ix = "last_index\<lparr>ix_dbs := (ix_dbs last_index)(''run-1'' \<mapsto> db_of ''run-1'' last_index)\<rparr>"
  let ?ix2 = "?ix\<lparr>ix_runs := [(last_run\<lparr>rm_status := ''running''\<rparr>, ''now'')]\<rparr>"
  have run: "get_run ''run-1'' last_index = Some last_run" "get_run ''run-1'' ?ix = Some last_run"
    by (simp_all add: get_run_def last_index_def last_run_def)
  have find: "find_run small_host ?st ''/st'' ''run-1'' (last_index, 10) = (Ok last_run, (last_index, 10))"
    using small_outside by (simp add: find_run_def crash_store_def run small_host_def last_run_def)
  have safe: "ensure_safe_run_id dbg ''run-1'' = Ok ()" for dbg
  proof -
    have "list_all safe_id_char (chars ''run-1'')" by code_simp
    then show ?thesis by (simp add: ensure_safe_run_id_def)
  qed
  have opened: "st_open_run ?st ''run-1'' (last_index, 10) = (Ok (), (?ix, 9))"
    by (simp add: crash_store_def limited_def open_run_def safe run drop_value_def Let_def db_of_def eval_nat_numeral)
  have rel: "reject_unsafe_rel ''config.json'' = Ok ()" by code_simp
  have trusted: "load_trusted (rh_codec small_host) (st_run ?st ''run-1'') (?ix, 9) = Ok default_trusted"
    by (simp add: load_trusted_def read_run_artifact_def rel crash_store_def crash_run_ops_def small_files)
      (simp add: small_host_def sample_codec_def)
  have status: "st_status ?st ''run-1'' ''running'' (?ix, 9) = (Ok (), (?ix2, 8))"
    using run by (simp add: crash_store_def limited_def set_run_status_def last_index_def last_run_def eval_nat_numeral)
  have repo: "open_repo (intake_of small_host small_world) (rh_open small_host) ''/r'' = Ok sample_repo"
  proof -
    have "intake_of small_host small_world = small_intake"
      by (simp add: intake_of_def small_host_def small_world_def small_intake_def)
    then show ?thesis using small_checks by (simp add: open_repo_def small_host_def)
  qed
  have driven: "complete_run small_host ?st ''/st'' ''run-1'' sample_repo 0 0 default_trusted None (?ix2, 8) small_world
      = (Err (OrGit (GitBadRevision ''0'')), (?ix2, 8), small_world)"
  proof -
    have "rp_show sample_repo 0 = ''0''" by (simp add: sample_repo_def) code_simp
    moreover have "diff_revisions sample_repo ''0'' ''0'' = Err (GitBadRevision ''0'')"
      by (simp add: diff_revisions_def resolve_commit_def sample_repo_def)
    ultimately show ?thesis by (simp add: complete_run_def drive_run_def prepare_run_def)
  qed
  have fields: "rm_repo_path last_run = ''/r''" "parse_oid small_host x = Ok 0" "rh_find small_host r y = True" for r x y
    by (simp_all add: last_run_def parse_oid_def small_host_def)
  have result: "small_resume = (Err (OrGit (GitBadRevision ''0'')), (?ix2, 8), small_world)"
    by (simp add: small_resume_def resume_run_def find fields repo opened trusted status driven)
  show "fst small_resume = Err (OrGit (GitBadRevision ''0''))"
    "get_run ''run-1'' (fst (fst (snd small_resume))) = Some (last_run\<lparr>rm_status := ''running''\<rparr>)"
    unfolding result by (simp_all add: get_run_def last_run_def)
qed

theorem report_is_of_last_session_witness:
  "served small_host ''now'' ''/st'' ''run-1'' last_index = Ok last_report
   \<and> fst small_resume = Err (OrGit (GitBadRevision ''0''))
   \<and> (\<exists>e. served small_host ''now'' ''/st'' ''run-1'' (fst (fst (snd small_resume))) = Err e)"
proof -
  obtain res ix' left w' where run: "small_resume = (res, (ix', left), w')" by (metis prod.collapse)
  have err: "res = Err (OrGit (GitBadRevision ''0''))" using small_resume_fails(1) unfolding run by simp
  have ses: "run_session small_host (\<lambda>_. crash_store (cd_sha (rh_codec small_host)) (debug_str (re_esc (rh_env small_host))) ''now'')
      (Resume ''/st'' ''run-1'') (last_index, 10) small_world = (res, (ix', left), w')"
    using run by (simp add: run_session_def small_resume_def)
  have "session_id small_host (Resume ''/st'' ''run-1'') small_world = Some ''run-1''" by (simp add: session_id_def)
  then have "served small_host ''now'' ''/st'' ''run-1'' ix' = served small_host ''now'' ''/st'' ''run-1'' last_index
      \<or> (\<exists>e. served small_host ''now'' ''/st'' ''run-1'' ix' = Err e)"
    using report_is_of_last_session [OF ses] unfolding err by auto
  moreover have "served small_host ''now'' ''/st'' ''run-1'' ix' \<noteq> Ok last_report"
    using small_resume_fails(2) unfolding run by (auto simp: served_unfold split: sum.split)
  ultimately show ?thesis using small_served_before err unfolding run by auto
qed

text \<open>C20: Landing writes the accepted tests into the repository and nowhere else. A report of the catch mode is
  refused and nothing is written. Otherwise, whatever links the repository has and however far the writing
  comes, only files of accepted tests and the directories above them change, below the repository's
  directory; a file no accepted test names is kept, and on success every path is reported and, when no two name the
  same file, holds the accepted source.\<close>

theorem apply_to_repo_confined:
  assumes "apply_to_repo dir report fs = (res, fs')" "is_dir fs (ov_loc dir)"
  shows "if rr_mode report = Catch
    then res = Err (OrInvalid ''--write'' ''catch mode is report-only; refusing to write'') \<and> fs' = fs
    else wrote (ov_loc dir) (map (\<lambda>t. (at_path t, at_source t)) (rr_accepted report)) fs fs'
      \<and> (\<forall>ns b. ns \<notin> (\<lambda>t. normals (components (at_path t))) ` set (rr_accepted report)
            \<longrightarrow> fs (ov_loc dir @ ns) = Some (FileNode b) \<longrightarrow> fs' (ov_loc dir @ ns) = Some (FileNode b))
      \<and> (case res of Err _ \<Rightarrow> True
          | Ok ps \<Rightarrow> ps = map at_path (rr_accepted report)
              \<and> (distinct (map (\<lambda>t. normals (components (at_path t))) (rr_accepted report)) \<longrightarrow>
                 list_all (\<lambda>t. fs' (ov_loc dir @ normals (components (at_path t))) = Some (FileNode (at_source t)))
                   (rr_accepted report)))"
proof (cases "rr_mode report = Catch")
  case True
  then show ?thesis using assms(1) by (auto simp: apply_to_repo_def)
next
  case False
  then have "write_tests dir (rr_accepted report) [] fs = (res, fs')" using assms(1) by (simp add: apply_to_repo_def)
  from write_tests_effect [OF this assms(2), unfolded append.simps] show ?thesis using False by simp
qed

text \<open>A repository with a link to \<open>/etc\<close> in the place of the test's directory, and one without.\<close>

definition linked_repo_fs :: filesys where
  "linked_repo_fs = [[] \<mapsto> DirNode, [''r''] \<mapsto> DirNode, [''r'', ''tests''] \<mapsto> LinkNode ''/etc'', [''etc''] \<mapsto> DirNode]"

definition open_fs :: filesys where
  "open_fs = [[] \<mapsto> DirNode, [''r''] \<mapsto> DirNode]"

definition repo_dir :: overlay_root where
  "repo_dir = \<lparr>ov_text = ''/r'', ov_loc = [''r'']\<rparr>"

lemma landed_runs:
  "fst (apply_to_repo repo_dir landed_report open_fs) = Ok [''tests/a b.rs'']"
  "fst (apply_to_repo repo_dir landed_report linked_repo_fs) =
     Err (OrInvalid ''overlay path'' ''refusing to follow symlink at /r/tests'')"
  by code_simp+

theorem apply_to_repo_confined_witness:
  "snd (apply_to_repo repo_dir landed_report open_fs) [''r'', ''tests'', ''a b.rs''] = Some (FileNode (''ok()'' @ [LF] @ ''+ 1''))
   \<and> wrote [''r''] [(''tests/a b.rs'', ''ok()'' @ [LF] @ ''+ 1'')] linked_repo_fs (snd (apply_to_repo repo_dir landed_report linked_repo_fs))"
proof -
  have mode: "rr_mode landed_report \<noteq> Catch" "rr_accepted landed_report = [landed_test]" by (simp_all add: landed_report_def)
  have entry: "at_path landed_test = ''tests/a b.rs''" "at_source landed_test = ''ok()'' @ [LF] @ ''+ 1''"
    by (simp_all add: landed_test_def landed_candidate_def)
  have ns: "normals (components ''tests/a b.rs'') = [''tests'', ''a b.rs'']" by code_simp
  have dir: "is_dir open_fs (ov_loc repo_dir)" "is_dir linked_repo_fs (ov_loc repo_dir)" "ov_loc repo_dir = [''r'']"
    by (simp_all add: repo_dir_def is_dir_def open_fs_def linked_repo_fs_def)
  obtain r1 fs1 r2 fs2 where runs: "apply_to_repo repo_dir landed_report open_fs = (r1, fs1)"
    "apply_to_repo repo_dir landed_report linked_repo_fs = (r2, fs2)" by (meson surj_pair)
  have "r1 = Ok [''tests/a b.rs'']" using landed_runs(1) unfolding runs by simp
  then have "fs1 [''r'', ''tests'', ''a b.rs''] = Some (FileNode (''ok()'' @ [LF] @ ''+ 1''))"
    using apply_to_repo_confined [OF runs(1) dir(1)] mode entry ns dir(3) by simp
  moreover have "wrote [''r''] [(''tests/a b.rs'', ''ok()'' @ [LF] @ ''+ 1'')] linked_repo_fs fs2"
    using apply_to_repo_confined [OF runs(2) dir(2)] mode entry dir(3) by simp
  ultimately show ?thesis unfolding runs by simp
qed

end
