(* ===== verification/Spec2Isabelle.thy ===== *)
theory Spec2Isabelle
  imports Demo Durable Session
begin

text \<open>
  jitgen generates tests for the code a diff changes. A run reads the diff of two commits, selects the
  targets, asks a language model for candidate tests, executes them in a sandbox on checkouts of both
  commits, and reports either accepted tests (mode \<open>harden\<close>) or regressions caught by a test that passes on
  the base and fails on the head (mode \<open>catch\<close>). Paths below are under \<open>src/crates\<close>.

  \<^bold>\<open>How the parts interact.\<close> \<open>jitgen-cli/src/cli.rs\<close> resolves the trusted configuration and calls
  \<open>jitgen-orchestrator/src/run.rs\<close>. That opens the repository (\<open>jitgen-gitintake\<close>), detects adapters and extracts
  targets (\<open>jitgen-adapters\<close>), ranks them (\<open>targetsel.rs\<close>), and drives each through \<open>process.rs\<close>: context and
  prompt (\<open>jitgen-context\<close>), provider (\<open>jitgen-llm\<close>), strategies, repair, flake filter and assessment
  (\<open>jitgen-feedback\<close>), with the executor of \<open>executor.rs\<close>, which checks a commit out, materializes the candidate
  (\<open>jitgen-materialize\<close>) and runs it in the sandbox (\<open>jitgen-sandbox\<close>). After each target a checkpoint goes to the store
  (\<open>jitgen-state\<close>); at the end the report is rendered (\<open>jitgen-report\<close>) and the gate decides the exit code.

  \<^bold>\<open>State and errors.\<close> Pure functions are HOL functions. State is passed explicitly: the tables of the store, the file
  system (a map from locations to directories, files and links), the counters of the executor, the state \<open>'p\<close> of
  a provider, and the terminal. A \<open>Result\<close> is a sum with \<open>Err = Inl\<close> and \<open>Ok = Inr\<close>, and every error is a value
  of the datatype of its layer. Strings are their UTF-8 bytes, a character is a chunk of them. \<open>u16\<close> and \<open>u32\<close> are
  words; \<open>usize\<close>, which only counts things in memory, is \<open>nat\<close>. An \<open>f64\<close> is a special value or an exact
  rational, with the rounding of each operation a parameter.

  \<^bold>\<open>The theories, in the order of the imports.\<close>

  \<^item> \<open>Prelude\<close>: bytes, characters, the functions of \<open>str\<close>, doubles and the lemmas on them.
  \<^item> \<open>Core\<close>: \<open>jitgen-core\<close> (modes, changes, targets, candidates, execution results, classification).
    \<open>Errors\<close>: the error enums of the layers and their messages.
  \<^item> \<open>PatchApply\<close>: \<open>jitgen-orchestrator/src/patchapply.rs\<close>, against edit scripts.
  \<^item> \<open>Paths\<close>: \<open>std::path\<close>. \<open>Glob\<close>: \<open>jitgen-adapters/src/glob.rs\<close>. \<open>PathFilter\<close>: \<open>jitgen-gitintake/src/filter.rs\<close>.
    \<open>Intake\<close>: the diff walk and reads of \<open>jitgen-gitintake/src/intake.rs\<close>; \<open>Boundary\<close>: its \<open>open_repo\<close>.
  \<^item> \<open>Redact\<close>, \<open>Packager\<close>, \<open>Prompts\<close>: \<open>jitgen-context/src\<close> (\<open>redact.rs\<close>, \<open>packager.rs\<close>, \<open>prompt.rs\<close>), with the step
    prompts of \<open>jitgen-feedback/src/prompts.rs\<close> in \<open>Prompts\<close>.
  \<^item> \<open>Llm\<close>: requests, offline providers, parser and validation of \<open>jitgen-llm\<close>; \<open>Provider\<close>: its network providers (\<open>http.rs\<close>,
    \<open>real/\<close>).
  \<^item> \<open>Feedback\<close>, \<open>Assess\<close>, \<open>Strategies\<close>: \<open>jitgen-feedback/src\<close> (executor interface, flake filter, minimisation, repair loop;
    rules and judge; strategies).
  \<^item> \<open>Config\<close>: \<open>jitgen-core/src/config.rs\<close> and \<open>jitgen-orchestrator/src/config.rs\<close>.
  \<^item> \<open>Report\<close>, \<open>Render\<close>: \<open>jitgen-report/src\<close> (the records and the escaping; the exporters). The patch exporter is in \<open>Process\<close>.
  \<^item> \<open>Gate\<close>: \<open>jitgen-orchestrator/src/gate.rs\<close>. \<open>Floats\<close>: arithmetic and order of doubles.
  \<^item> \<open>Adapters\<close>: the rest of \<open>jitgen-adapters/src\<close>. \<open>TargetSel\<close>: \<open>targetsel.rs\<close>. \<open>Placement\<close>:
    \<open>jitgen-materialize/src/placement.rs\<close>. \<open>Process\<close>: \<open>process.rs\<close> and \<open>context.rs\<close> of the orchestrator.
  \<^item> \<open>Store\<close>: \<open>jitgen-state/src/store.rs\<close> and \<open>model.rs\<close>. \<open>Durable\<close>: the writer of \<open>jitgen-state/src/fsutil.rs\<close>.
    \<open>Drive\<close>: the loop of \<open>run.rs\<close> over the targets with its checkpoints.
  \<^item> \<open>Filesys\<close>, \<open>Confine\<close>: the calls of \<open>std::fs\<close> the writers use, and what the writers share. \<open>Checkout\<close>: \<open>checkout.rs\<close>.
    \<open>Overlay\<close>: \<open>jitgen-materialize/src/overlay.rs\<close>. \<open>Executor\<close>: \<open>executor.rs\<close>.
  \<^item> \<open>SandboxEnv\<close>, \<open>SandboxPlan\<close>, \<open>SandboxRun\<close>: \<open>jitgen-sandbox/src\<close> (policy and environment; backends, launchers and command
    lines; execution, watchdog, classification and detection).
  \<^item> \<open>Run\<close>, \<open>Session\<close>: \<open>run.rs\<close> as a whole (run, resume, report, landing), and what sessions leave in the store.
  \<^item> \<open>Analyze\<close>, \<open>Doctor\<close>: \<open>analyze.rs\<close> and \<open>doctor.rs\<close>. \<open>Hints\<close>, \<open>Cli\<close>: \<open>jitgen-cli/src/hints.rs\<close> and
    \<open>cli.rs\<close>. \<open>Demo\<close>: \<open>jitgen-orchestrator/src/demo.rs\<close> and its part of \<open>cli.rs\<close>.

  A definition has the name of the function, type or constant it models, or of the step of a function it is a part of. Records
  have a field for each field of the struct, behind a prefix.

  \<^bold>\<open>Interfaces.\<close> \<open>wildcard\<close> (\<open>Glob\<close>) is the two-pointer loop with one class of wildcards; it is interpreted on the loop over
  characters and on the one over segments. \<open>fencing\<close> (\<open>Prompts\<close>) is what a pair of markers must satisfy; it is interpreted on
  the markers of both prompt modules. \<open>step_store\<close> and its extension \<open>reliable_store\<close> (\<open>Drive\<close>) are the operations and laws the
  checkpoints rely on, interpreted on the tables of \<open>Store\<close>, as they are and with a budget of durable operations after which
  every further one fails. \<open>session_store\<close> (\<open>Session\<close>) is the same for whole runs over the index of runs.

  \<^bold>\<open>What the lemmas show.\<close>

  \<^item> Of a target: what an accepted test and a reported catch have behind them (validation, runs, reruns, evidence), what a
    repair outcome means, that the judge can only lower a verdict, and that minimisation is one-minimal.
  \<^item> Of a run: a session stopped anywhere is continued without repeating finished targets, the report that is served
    is that of the last session, the plan of \<open>analyze\<close> is that of the run, and an artifact is old or new after every step
    of its write, whichever step the system refuses.
  \<^item> Of the boundaries: writers stay below their root whatever links there are, executions leave nothing but what the system refuses
    to remove of their overlay, only vetted plans are spawned, a sandbox is a proven one, a repository lies where it was opened (all
    that is checked of it: not the files of loose objects), a key goes to its endpoint only, and untrusted text cannot leave its block in a prompt nor its element in a report.
  \<^item> Of the operator's side: the layers of the configuration, the gate, \<open>doctor\<close> and the exit codes.
  \<^item> Of the data: the patch is read back as the accepted tests, the patch applier yields an edit script, the glob matcher
    agrees with its meaning, and selection and extraction of targets are exact.

  Where the code differs from its documentation, a theorem shows the case: \<open>dotdot_through_new_directory_accepted\<close>
  (\<open>Config\<close>), \<open>blank_path_not_silenced\<close> (\<open>Gate\<close>), \<open>doctor_ready_without_image\<close> (\<open>Doctor\<close>),
  \<open>run_id_takes_provider_hint\<close> (\<open>Hints\<close>) and others beside the code they are about.

  \<^bold>\<open>Parameters.\<close> What is not source of the repository or of the language is an argument: libgit2 (opening, the diff, trees and
  blobs), SQLite (a table is the list of its rows), serde (a codec for each type), the regular expressions (the matches of each
  pattern), tree-sitter (a tree or nothing), SHA-256, the transport of HTTP, the environment, the clock, and processes
  (\<open>run_env\<close>: what a child writes, when it ends, what it does to the file system), the entries of an overlay that the system
  refuses to remove (\<open>re_stuck\<close>), and the errors it answers the steps of an artifact's write with (\<open>io_faults\<close>).

  \<^bold>\<open>Bounds and termination.\<close> All recursions terminate by a measure, there is no fuel. Loops that the code bounds keep the code's
  bound: attempts of a repair, reruns, probes of a minimisation (with \<open>n * (n + 1)\<close> of them it is complete), overlay names, caps in
  bytes. The resolution of a path follows at most \<open>MAX_LINKS = 40\<close> links, as the kernel does. The watchdog of a child looks at it
  as often as the timeout allows.

  \<^bold>\<open>Not modelled.\<close> The parsing of the command line and the completion scripts (clap), the files of SQLite, the socket side of
  HTTP, modes of files, a full disk and other errors of the device except in the write of an artifact, other processes that
  write while jitgen does, Windows, panics other than that of a failing \<open>print!\<close> (so not that of \<open>eprintln!\<close> when the standard
  error is closed), the derived serialisations, the \<open>Debug\<close> forms that only hide text, and the making of the demo's
  repository. Tests, fixtures and build files are not part of the program.
\<close>

end
